(* ===== verification/Prelude.thy ===== *)
theory Prelude
  imports Main "HOL-Library.Word" "HOL-Library.Char_ord" "HOL-Library.List_Lexorder"
    "HOL-Library.Sublist"
begin

section \<open>Shared types and lemmas\<close>

text \<open>
  The vocabulary every component of the model shares:
  \<^item> the fixed-width integers of the C++ code (\<open>uint8_t\<close> .. \<open>uint64_t\<close>, \<open>char16_t\<close>);
  \<^item> \<open>std::string\<close> as \<open>string\<close> (a list of 8-bit characters), \<open>std::u16string\<close> as a list
    of 16-bit units, \<open>std::span<const uint8_t>\<close> as a list of bytes;
  \<^item> \<open>std::expected<T, E>\<close> as the sum \<open>'e + 't\<close>, with \<open>Inl\<close> for
    \<open>std::unexpected\<close>, and its monadic composition \<open>bindE\<close>;
  \<^item> splitting a text at the first separator, the shape of the code's
    \<open>find\<close>/\<open>substr\<close>/\<open>remove_prefix\<close> loops.
\<close>

type_synonym u8 = "8 word"
type_synonym u16 = "16 word"
type_synonym u32 = "32 word"
type_synonym u64 = "64 word"
type_synonym u16string = "16 word list"
type_synonym bytes = "8 word list"

named_theorems expected_simps "equations for the composition of fallible operations"

subsection \<open>Fallible results\<close>

fun bindE :: "'e + 'a \<Rightarrow> ('a \<Rightarrow> 'e + 'b) \<Rightarrow> 'e + 'b" where
  "bindE (Inl e) f = Inl e"
| "bindE (Inr x) f = f x"

lemma bindE_eq_Inr [expected_simps]:
  "bindE m f = Inr y \<longleftrightarrow> (\<exists>x. m = Inr x \<and> f x = Inr y)"
  by (cases m) auto

lemma bindE_eq_Inl [expected_simps]:
  "bindE m f = Inl e \<longleftrightarrow> m = Inl e \<or> (\<exists>x. m = Inr x \<and> f x = Inl e)"
  by (cases m) auto

lemma bindE_assoc: "bindE (bindE m f) g = bindE m (\<lambda>x. bindE (f x) g)"
  by (cases m) auto

definition guardE :: "bool \<Rightarrow> 'e \<Rightarrow> 'e + unit" where
  "guardE ok e = (if ok then Inr () else Inl e)"

lemma guardE_eq_Inr [expected_simps]: "guardE ok e = Inr u \<longleftrightarrow> ok"
  by (simp add: guardE_def)

lemma guardE_eq_Inl [expected_simps]: "guardE ok e = Inl e' \<longleftrightarrow> \<not> ok \<and> e' = e"
  by (auto simp: guardE_def)

lemma guardE_simps [simp]: "guardE True e = Inr ()" "guardE False e = Inl e"
  by (simp_all add: guardE_def)

definition isInr :: "'e + 'a \<Rightarrow> bool" where
  "isInr r = (case r of Inl _ \<Rightarrow> False | Inr _ \<Rightarrow> True)"

lemma isInr_simps [simp]: "isInr (Inr x)" "\<not> isInr (Inl e)"
  by (simp_all add: isInr_def)

lemma isInr_projr: "isInr r \<Longrightarrow> r = Inr (projr r)"
  by (cases r) simp_all

subsection \<open>Character classes\<close>

definition is_digit :: "char \<Rightarrow> bool" where
  "is_digit c \<longleftrightarrow> CHR ''0'' \<le> c \<and> c \<le> CHR ''9''"

definition digit_value :: "char \<Rightarrow> nat" where
  "digit_value c = of_char c - 48"

lemma is_digit_value: "is_digit c \<Longrightarrow> digit_value c \<le> 9"
  by (auto simp: is_digit_def digit_value_def less_eq_char_def intro: diff_le_mono [where n = 57 and l = 48, simplified])

lemma is_digit_of_char: "is_digit c \<longleftrightarrow> 48 \<le> (of_char c :: nat) \<and> (of_char c :: nat) \<le> 57"
  by (simp add: is_digit_def less_eq_char_def)

text \<open>A \<open>u"..."\<close> literal: each ASCII character widened to one UTF-16 unit.\<close>

definition u16lit :: "string \<Rightarrow> u16string" where
  "u16lit s = map of_char s"

subsection \<open>Splitting at a separator\<close>

text \<open>
  \<open>split_at d xs\<close>: the part before the first \<open>d\<close>, and the part after it when there is one
  (\<open>None\<close> is \<open>npos\<close>).
\<close>

fun split_at :: "'a \<Rightarrow> 'a list \<Rightarrow> 'a list \<times> 'a list option" where
  "split_at d [] = ([], None)"
| "split_at d (x # xs) =
     (if x = d then ([], Some xs)
      else (case split_at d xs of (h, t) \<Rightarrow> (x # h, t)))"

lemma split_at_None: "split_at d xs = (h, None) \<longleftrightarrow> h = xs \<and> d \<notin> set xs"
proof (induction xs arbitrary: h)
  case Nil
  then show ?case by auto
next
  case (Cons x xs)
  show ?case
    by (cases "split_at d xs") (use Cons.IH in \<open>auto\<close>)
qed

lemma split_at_Some: "split_at d xs = (h, Some t) \<longleftrightarrow> xs = h @ d # t \<and> d \<notin> set h"
proof (induction xs arbitrary: h)
  case Nil
  then show ?case by auto
next
  case (Cons x xs)
  show ?case
  proof (cases "x = d")
    case True
    then show ?thesis by (cases h) auto
  next
    case False
    show ?thesis
    proof (cases h)
      case Nil
      with False show ?thesis by (cases "split_at d xs") auto
    next
      case (Cons y h')
      with False Cons.IH [of h'] show ?thesis by (cases "split_at d xs") auto
    qed
  qed
qed

lemma split_at_append_sep [simp]: "d \<notin> set h \<Longrightarrow> split_at d (h @ d # t) = (h, Some t)"
  by (simp add: split_at_Some)

lemma split_at_no_sep [simp]: "d \<notin> set h \<Longrightarrow> split_at d h = (h, None)"
  by (simp add: split_at_None)

lemma split_at_length: "split_at d xs = (h, Some t) \<Longrightarrow> length t < length xs"
  by (auto simp: split_at_Some)

text \<open>The list of all parts between separators; always nonempty.\<close>

function split_all :: "'a \<Rightarrow> 'a list \<Rightarrow> 'a list list" where
  "split_all d xs =
     (case split_at d xs of (h, None) \<Rightarrow> [h] | (h, Some t) \<Rightarrow> h # split_all d t)"
  by pat_completeness auto
termination
  by (relation "measure (\<lambda>(d, xs). length xs)") (auto dest: split_at_length sym)

declare split_all.simps [simp del]

lemma split_all_no_sep: "d \<notin> set h \<Longrightarrow> split_all d h = [h]"
  by (subst split_all.simps) simp

lemma split_all_sep: "d \<notin> set h \<Longrightarrow> split_all d (h @ d # t) = h # split_all d t"
  by (subst split_all.simps) simp

lemma split_all_append_sep:
  "split_all d (xs @ d # ys) = split_all d xs @ split_all d ys"
proof (induction "length xs" arbitrary: xs rule: less_induct)
  case less
  show ?case
  proof (cases "split_at d xs")
    case (Pair h t)
    show ?thesis
    proof (cases t)
      case None
      with Pair have "h = xs" "d \<notin> set xs" by (auto simp: split_at_None)
      then show ?thesis by (simp add: split_all_no_sep split_all_sep)
    next
      case (Some r)
      with Pair have xs: "xs = h @ d # r" "d \<notin> set h" by (auto simp: split_at_Some)
      then have "split_all d (r @ d # ys) = split_all d r @ split_all d ys"
        by (intro less) simp
      with xs show ?thesis by (simp add: split_all_sep)
    qed
  qed
qed

lemma split_all_nonempty [simp]: "split_all d xs \<noteq> []"
  by (subst split_all.simps) (auto split: prod.splits option.splits)

text \<open>Joining the parts with the separator gives the text back, so splitting is injective.\<close>

fun join_with :: "'a \<Rightarrow> 'a list list \<Rightarrow> 'a list" where
  "join_with d [] = []"
| "join_with d [h] = h"
| "join_with d (h # hs) = h @ d # join_with d hs"

lemma join_with_Cons: "hs \<noteq> [] \<Longrightarrow> join_with d (h # hs) = h @ d # join_with d hs"
  by (cases hs) simp_all

lemma join_split_all [simp]: "join_with d (split_all d xs) = xs"
proof (induction "length xs" arbitrary: xs rule: less_induct)
  case less
  show ?case
  proof (cases "split_at d xs")
    case (Pair h t)
    show ?thesis
    proof (cases t)
      case None
      with Pair show ?thesis by (simp add: split_at_None split_all_no_sep)
    next
      case (Some r)
      with Pair have xs: "xs = h @ d # r" "d \<notin> set h" by (auto simp: split_at_Some)
      then have "join_with d (split_all d r) = r" by (intro less) simp
      with xs show ?thesis by (simp add: split_all_sep join_with_Cons)
    qed
  qed
qed

lemma split_all_inject: "split_all d xs = split_all d ys \<longleftrightarrow> xs = ys"
  by (metis join_split_all)

subsection \<open>Runs of event-driven components\<close>

text \<open>
  A component driven by calls is a step function from a state and an event to the next state;
  a run feeds a list of events. \<open>machine\<close> is the contract of an invariant that every step
  keeps; \<open>latching_machine\<close> adds a class of dead states that no step leaves.
\<close>

definition run_events :: "('s \<Rightarrow> 'e \<Rightarrow> 's) \<Rightarrow> 's \<Rightarrow> 'e list \<Rightarrow> 's" where
  "run_events step s es = foldl step s es"

lemma run_events_simps [simp]:
  "run_events step s [] = s"
  "run_events step s (e # es) = run_events step (step s e) es"
  "run_events step s (es @ fs) = run_events step (run_events step s es) fs"
  by (simp_all add: run_events_def)

locale machine =
  fixes step :: "'s \<Rightarrow> 'e \<Rightarrow> 's" and inv :: "'s \<Rightarrow> bool"
  assumes inv_step: "inv s \<Longrightarrow> inv (step s e)"
begin

lemma inv_run: "inv s \<Longrightarrow> inv (run_events step s es)"
  by (induction es arbitrary: s) (auto intro: inv_step)

lemma inv_run_prefix: "inv s \<Longrightarrow> prefix fs es \<Longrightarrow> inv (run_events step s fs)"
  by (auto intro: inv_run)

end

locale latching_machine = machine +
  fixes dead :: "'s \<Rightarrow> bool"
  assumes dead_step: "inv s \<Longrightarrow> dead s \<Longrightarrow> dead (step s e)"
begin

lemma dead_run: "inv s \<Longrightarrow> dead s \<Longrightarrow> dead (run_events step s es)"
  by (induction es arbitrary: s) (auto intro: inv_step dead_step)

lemma alive_before: "inv s \<Longrightarrow> \<not> dead (run_events step s (es @ fs)) \<Longrightarrow> \<not> dead (run_events step s es)"
  using dead_run [of "run_events step s es" fs] inv_run [of s es] by auto

end

subsection \<open>Counters at their width\<close>

lemma word_succ_greater:
  fixes x :: "'a::len word"
  assumes "x \<noteq> - 1"
  shows "x < x + 1"
proof -
  have "unat x \<noteq> 2 ^ LENGTH('a) - 1"
    using assms by (auto simp: word_unat_eq_iff unsigned_minus_1_eq_mask mask_eq_exp_minus_1)
  moreover have "unat x < 2 ^ LENGTH('a)" by (rule unsigned_less)
  ultimately have "unat x + 1 < 2 ^ LENGTH('a)" by linarith
  then show ?thesis by (simp add: word_less_nat_alt unat_word_ariths)
qed

lemma word_less_le_succ:
  fixes x :: "'a::len word"
  assumes "y < x"
  shows "y + 1 \<le> x"
proof -
  have yx: "unat y < unat x" using assms by (simp add: word_less_nat_alt)
  moreover have "unat x < 2 ^ LENGTH('a)" by (rule unsigned_less)
  ultimately have "unat y + 1 < 2 ^ LENGTH('a)" by linarith
  with yx show ?thesis by (simp add: word_le_nat_alt unat_word_ariths)
qed

definition kMaxQpc :: u64 where "kMaxQpc = 0x7FFFFFFFFFFFFFFF"

lemma unat_succ:
  fixes x :: "'a::len word"
  assumes "unat x + 1 < 2 ^ LENGTH('a)"
  shows "unat (x + 1) = unat x + 1"
  using assms by (simp add: unat_word_ariths)

lemma unat_pred: "x \<noteq> 0 \<Longrightarrow> unat (x - 1 :: 'a::len word) = unat x - 1"
  by (simp add: unat_minus_one)

text \<open>Serials count from 1, the cells they name from 0.\<close>

lemma serial_index:
  fixes s :: "'a::len word"
  assumes "s \<noteq> 0"
  shows "unat (s - 1) < unat s" "of_nat (unat (s - 1)) + 1 = s"
proof -
  show "unat (s - 1) < unat s" using assms by (simp add: unat_minus_one unat_gt_0)
  have "of_nat (unat (s - 1)) = s - 1" by (metis of_nat_unat ucast_id)
  then show "of_nat (unat (s - 1)) + 1 = s" by (metis diff_add_cancel)
qed

text \<open>Counting after one list cell is overwritten.\<close>

lemma length_filter_update:
  assumes "k < length xs"
  shows "length (filter P (xs[k := y])) + (if P (xs ! k) then 1 else 0)
     = length (filter P xs) + (if P y then 1 else 0)"
proof -
  obtain h r where xs: "xs = h @ xs ! k # r" and h: "h = take k xs" "r = drop (Suc k) xs"
    using id_take_nth_drop [OF assms] by blast
  have "length (filter P xs) = length (filter P (h @ xs ! k # r))" using xs by simp
  moreover have "xs[k := y] = h @ y # r" using assms h by (simp add: upd_conv_take_nth_drop)
  ultimately show ?thesis by simp
qed

subsection \<open>Flag words\<close>

text \<open>Issue sets are 32-bit words with one bit for each issue: \<open>word |= 1u << n\<close> and
  \<open>(word & 1u << n) != 0\<close>.\<close>

definition flag :: "nat \<Rightarrow> u32" where "flag n = push_bit n 1"
definition set_flag :: "u32 \<Rightarrow> nat \<Rightarrow> u32" where "set_flag m n = or m (flag n)"
definition has_flag :: "u32 \<Rightarrow> nat \<Rightarrow> bool" where "has_flag m n \<longleftrightarrow> and m (flag n) \<noteq> 0"
definition flag_if :: "bool \<Rightarrow> nat \<Rightarrow> u32" where "flag_if b n = (if b then flag n else 0)"

lemma has_flag_bit: "has_flag m n \<longleftrightarrow> bit m n"
proof -
  have "and m (flag n) = (if bit m n then flag n else 0)"
    unfolding flag_def by (rule bit_word_eqI) (auto simp: bit_simps)
  moreover have "flag n \<noteq> 0" if "bit m n"
  proof -
    have "n < 32" using bit_imp_le_length [OF that] by simp
    then have "bit (flag n) n" by (simp add: flag_def bit_simps)
    then show ?thesis by auto
  qed
  ultimately show ?thesis by (simp add: has_flag_def)
qed

lemma has_flag_flag [simp]: "has_flag (flag n) k \<longleftrightarrow> n = k \<and> n < 32"
  by (auto simp: has_flag_bit flag_def bit_simps)

lemma has_flag_or [simp]: "has_flag (or a b) n \<longleftrightarrow> has_flag a n \<or> has_flag b n"
  by (simp add: has_flag_bit bit_or_iff)

lemma has_flag_0 [simp]: "\<not> has_flag 0 n"
  by (simp add: has_flag_def)

lemma has_flag_set [simp]: "has_flag (set_flag m n) k \<longleftrightarrow> has_flag m k \<or> n = k \<and> n < 32"
  by (simp add: set_flag_def)

lemma has_flag_if [simp]: "has_flag (flag_if b n) k \<longleftrightarrow> b \<and> n = k \<and> n < 32"
  by (simp add: flag_if_def)

lemma set_flag_nonzero [simp]: "n < 32 \<Longrightarrow> set_flag m n \<noteq> 0"
  using has_flag_set [of m n n] by fastforce

lemma or_eq_0 [simp]: "or a b = (0 :: u32) \<longleftrightarrow> a = 0 \<and> b = 0"
  by (auto simp: bit_eq_iff bit_or_iff)

lemma flag_if_eq_0 [simp]: "n < 32 \<Longrightarrow> flag_if b n = 0 \<longleftrightarrow> \<not> b"
  using has_flag_if [of b n n] by (cases b) (auto simp: flag_if_def simp del: has_flag_if has_flag_flag dest: has_flag_flag [THEN iffD2])

text \<open>A counter that stops at the largest value and reports it.\<close>

definition saturating_succ :: "u64 \<Rightarrow> u64 \<times> bool" where
  "saturating_succ x = (if x = 0xFFFFFFFFFFFFFFFF then (x, True) else (x + 1, False))"

subsection \<open>Decimal text\<close>

text \<open>\<open>std::to_chars\<close> and \<open>std::to_string\<close> on an integer.\<close>

definition digit_char :: "nat \<Rightarrow> char" where "digit_char d = char_of (48 + d)"

fun decimal :: "nat \<Rightarrow> string" where
  "decimal n = (if n < 10 then [digit_char n] else decimal (n div 10) @ [digit_char (n mod 10)])"

declare decimal.simps [simp del]

definition decimal_int :: "int \<Rightarrow> string" where
  "decimal_int i = (if i < 0 then CHR ''-'' # decimal (nat (- i)) else decimal (nat i))"

definition number_value :: "string \<Rightarrow> nat" where
  "number_value s = foldl (\<lambda>v c. 10 * v + digit_value c) 0 s"

lemma digit_char_is_digit [simp]: "d < 10 \<Longrightarrow> is_digit (digit_char d)"
  by (simp add: is_digit_of_char digit_char_def)

lemma digit_value_char [simp]: "d < 10 \<Longrightarrow> digit_value (digit_char d) = d"
  by (simp add: digit_value_def digit_char_def)

lemma decimal_digits: "c \<in> set (decimal n) \<Longrightarrow> is_digit c"
  by (induction n rule: decimal.induct) (subst (asm) (2) decimal.simps, auto split: if_splits)

lemma number_value_decimal [simp]: "number_value (decimal n) = n"
proof (induction n rule: decimal.induct)
  case (1 n)
  then show ?case by (subst decimal.simps) (simp add: number_value_def)
qed

lemma decimal_nonempty [simp]: "decimal n \<noteq> []"
  by (subst decimal.simps) simp

lemma decimal_inject [simp]: "decimal m = decimal n \<longleftrightarrow> m = n"
  by (metis number_value_decimal)

lemma number_value_snoc [simp]: "number_value (s @ [c]) = 10 * number_value s + digit_value c"
  by (simp add: number_value_def)

lemma digit_char_value: "is_digit c \<Longrightarrow> digit_char (digit_value c) = c"
  by (simp add: is_digit_of_char digit_char_def digit_value_def)

lemma digit_char_0: "digit_char 0 = CHR ''0''"
  by code_simp

lemma decimal_snoc: "0 < n \<Longrightarrow> d < 10 \<Longrightarrow> decimal (10 * n + d) = decimal n @ [digit_char d]"
  by (subst decimal.simps) simp

lemma number_value_positive:
  assumes "list_all is_digit s" "s \<noteq> []" "hd s \<noteq> CHR ''0''"
  shows "0 < number_value s"
  using assms
proof (induction s rule: rev_induct)
  case (snoc c s)
  show ?case
  proof (cases "s = []")
    case True
    with snoc.prems have "is_digit c" "c \<noteq> CHR ''0''" by simp_all
    then have "digit_value c \<noteq> 0"
      using digit_char_value [of c] digit_char_0 by (metis)
    with True show ?thesis by (simp add: number_value_def)
  next
    case False
    with snoc show ?thesis by simp
  qed
qed simp

text \<open>A digit text without leading zero is the decimal text of its value, and conversely.\<close>

lemma decimal_number_value:
  assumes "list_all is_digit s" "s \<noteq> []" "length s > 1 \<Longrightarrow> hd s \<noteq> CHR ''0''"
  shows "decimal (number_value s) = s"
  using assms
proof (induction s rule: rev_induct)
  case (snoc c s)
  have c: "is_digit c" "digit_value c < 10"
    using snoc.prems is_digit_value [of c] by auto
  show ?case
  proof (cases "s = []")
    case True
    with c show ?thesis by (subst decimal.simps) (simp add: number_value_def digit_char_value)
  next
    case False
    with snoc.prems have s: "list_all is_digit s" "hd s \<noteq> CHR ''0''" by simp_all
    then have "decimal (number_value s) = s" using snoc.IH False by simp
    with c False s show ?thesis
      by (simp add: decimal_snoc number_value_positive digit_char_value)
  qed
qed simp

lemma decimal_no_leading_zero: "length (decimal n) > 1 \<Longrightarrow> hd (decimal n) \<noteq> CHR ''0''"
proof (induction n rule: decimal.induct)
  case (1 n)
  show ?case
  proof (cases "n < 10")
    case True
    with "1.prems" show ?thesis by (simp add: decimal.simps [of n])
  next
    case False
    then have e: "decimal n = decimal (n div 10) @ [digit_char (n mod 10)]" by (simp add: decimal.simps [of n])
    show ?thesis
    proof (cases "n div 10 < 10")
      case True
      then have "decimal (n div 10) = [digit_char (n div 10)]" by (simp add: decimal.simps)
      moreover have "digit_char (n div 10) \<noteq> CHR ''0''"
        using digit_value_char [OF True] False by (auto simp: digit_value_def)
      ultimately show ?thesis by (simp add: e)
    next
      case t: False
      then have "length (decimal (n div 10)) > 1" by (simp add: decimal.simps [of "n div 10"])
      with "1.IH" [OF False] show ?thesis by (simp add: e hd_append)
    qed
  qed
qed

lemma decimal_all_digits: "list_all is_digit (decimal n)"
  by (simp add: list_all_iff decimal_digits)

lemma decimal_length3: "n < 1000 \<Longrightarrow> length (decimal n) \<le> 3"
  by (simp add: decimal.simps [of n] decimal.simps [of "n div 10"] decimal.simps [of "n div 10 div 10"])

end
