(* ===== verification/LauncherProfile.thy ===== *)
theory LauncherProfile
  imports Prelude
begin

section \<open>Launcher profile policy (\<open>mcla_launcher_profile_policy.h\<close>)\<close>

text \<open>
  The lexical policy of the launcher: opaque profile ids, labels, absolute roots, the
  profile library and its validation, selection and the launch plan. The C++ functions are
  pure; each becomes one HOL function of the same name. An enumeration whose out-of-range
  values the code rejects has one more constructor (\<open>OtherLayout\<close>, \<open>OtherTiming\<close>) for a
  value that no enumerator names. \<open>std::expected<T, Issue>\<close> is \<open>issue + 't\<close>.
\<close>

subsection \<open>Data\<close>

definition kLibraryVersion :: u32 where "kLibraryVersion = 1"
definition kMaximumProfiles :: nat where "kMaximumProfiles = 64"
definition kMaximumLabelUnits :: nat where "kMaximumLabelUnits = 80"
definition kMaximumPathUnits :: nat where "kMaximumPathUnits = 1024"

datatype layout = ManagedExternalV1 | LegacyBundleUserReadOnlyV1 | OtherLayout
datatype timing_mode = Stock | Fixed60 | Unlocked | OtherTiming
datatype issue_code = UnsupportedVersion | InvalidCount | InvalidId | InvalidLabel
  | InvalidLayout | InvalidPath | DuplicateId | DuplicateRoot | OverlappingProfileRoots
  | MissingSelection | UnknownSelection | LegacyReadOnly | RootOverlap | InvalidTiming
  | UnverifiedTiming

record issue =
  is_code :: issue_code
  is_entry :: nat
  is_other :: nat

abbreviation Issue0 :: "issue_code \<Rightarrow> issue" where
  "Issue0 c \<equiv> \<lparr>is_code = c, is_entry = 0, is_other = 0\<rparr>"

abbreviation Issue1 :: "issue_code \<Rightarrow> nat \<Rightarrow> issue" where
  "Issue1 c i \<equiv> \<lparr>is_code = c, is_entry = i, is_other = 0\<rparr>"

abbreviation Issue2 :: "issue_code \<Rightarrow> nat \<Rightarrow> nat \<Rightarrow> issue" where
  "Issue2 c i j \<equiv> \<lparr>is_code = c, is_entry = i, is_other = j\<rparr>"

record profile_entry =
  pe_id :: string
  pe_label :: u16string
  pe_root :: u16string
  pe_layout :: layout

record profile_library =
  pl_version :: u32
  pl_entries :: "profile_entry list"
  pl_selected :: string

record launch_request =
  rq_build :: u16string
  rq_game :: u16string
  rq_timing :: timing_mode

record launch_plan =
  lp_profile :: profile_entry
  lp_build :: u16string
  lp_game :: u16string
  lp_timing :: timing_mode

subsection \<open>Identifiers, labels and roots\<close>

definition id_digit :: "char \<Rightarrow> bool" where
  "id_digit c \<longleftrightarrow> (CHR ''0'' \<le> c \<and> c \<le> CHR ''9'') \<or> (CHR ''a'' \<le> c \<and> c \<le> CHR ''f'')"

fun valid_id_loop :: "string \<Rightarrow> bool \<Rightarrow> bool" where
  "valid_id_loop [] nonzero = nonzero"
| "valid_id_loop (c # cs) nonzero =
     (if \<not> id_digit c then False else valid_id_loop cs (nonzero \<or> c \<noteq> CHR ''0''))"

definition ValidOpaqueId :: "string \<Rightarrow> bool" where
  "ValidOpaqueId ident =
     (if length ident \<noteq> 32 then False else valid_id_loop ident False)"

definition FoldAscii :: "u16 \<Rightarrow> u16" where
  "FoldAscii c = (if 0x41 \<le> c \<and> c \<le> 0x5A then c + 0x20 else c)"

definition unsafe_unit :: "u16 \<Rightarrow> bool" where
  "unsafe_unit c \<longleftrightarrow> c < 0x20 \<or> (0x7f \<le> c \<and> c \<le> 0x9f) \<or> c = 0x2028 \<or> c = 0x2029
     \<or> (0x202a \<le> c \<and> c \<le> 0x202e) \<or> (0x2066 \<le> c \<and> c \<le> 0x2069)"

fun SafeUnicode :: "u16string \<Rightarrow> bool" where
  "SafeUnicode [] = True"
| "SafeUnicode (c # rest) =
     (if unsafe_unit c then False
      else if 0xd800 \<le> c \<and> c \<le> 0xdbff then
        (case rest of [] \<Rightarrow> False
         | l # rest' \<Rightarrow> if l < 0xdc00 \<or> l > 0xdfff then False else SafeUnicode rest')
      else if 0xdc00 \<le> c \<and> c \<le> 0xdfff then False
      else SafeUnicode rest)"

definition strip_trailing :: "'a \<Rightarrow> 'a list \<Rightarrow> 'a list" where
  "strip_trailing d xs = rev (dropWhile (\<lambda>x. x = d) (rev xs))"

definition ReservedComponent :: "u16string \<Rightarrow> bool" where
  "ReservedComponent component =
     (let base = strip_trailing 0x20 (fst (split_at 0x2e component)) in
      if base = u16lit ''con'' \<or> base = u16lit ''prn'' \<or> base = u16lit ''aux''
         \<or> base = u16lit ''nul'' \<or> base = u16lit ''clock$'' \<or> base = u16lit ''conin$''
         \<or> base = u16lit ''conout$'' then True
      else if length base \<noteq> 4 \<or> (take 3 base \<noteq> u16lit ''com'' \<and> take 3 base \<noteq> u16lit ''lpt'')
      then False
      else (0x31 \<le> base ! 3 \<and> base ! 3 \<le> 0x39) \<or> base ! 3 = 0x00b9 \<or> base ! 3 = 0x00b2
        \<or> base ! 3 = 0x00b3)"

definition ValidLabel :: "u16string \<Rightarrow> bool" where
  "ValidLabel l \<longleftrightarrow> l \<noteq> [] \<and> length l \<le> kMaximumLabelUnits \<and> hd l \<noteq> 0x20 \<and> last l \<noteq> 0x20
     \<and> SafeUnicode l"

text \<open>The characters \<open>: < > " | ? *\<close>, refused inside a component.\<close>

definition forbidden_unit :: "u16 \<Rightarrow> bool" where
  "forbidden_unit c \<longleftrightarrow> c = 0x3a \<or> c = 0x3c \<or> c = 0x3e \<or> c = 0x22 \<or> c = 0x7c
     \<or> c = 0x3f \<or> c = 0x2a"

definition component_ok :: "u16string \<Rightarrow> bool" where
  "component_ok component =
     (if component = [] \<or> length component > 255 \<or> component = u16lit ''.''
         \<or> component = u16lit ''..'' \<or> last component = 0x2e \<or> last component = 0x20
         \<or> ReservedComponent component then False
      else \<not> list_ex forbidden_unit component)"

text \<open>
  The component loop over the text from \<open>begin\<close> on. Reaching the end of the text at the head
  of the loop (an empty rest, after a trailing separator) leaves the loop and refuses.
\<close>

function components_ok :: "u16string \<Rightarrow> bool" where
  "components_ok rest =
     (if rest = [] then False
      else case split_at 0x2f rest of
          (component, None) \<Rightarrow> component_ok component
        | (component, Some rest') \<Rightarrow> component_ok component \<and> components_ok rest')"
  by pat_completeness auto
termination
  by (relation "measure length") (auto dest: split_at_length sym)

declare components_ok.simps [simp del]

definition is_drive_letter :: "u16 \<Rightarrow> bool" where
  "is_drive_letter c \<longleftrightarrow> (0x41 \<le> c \<and> c \<le> 0x5a) \<or> (0x61 \<le> c \<and> c \<le> 0x7a)"

definition NormalizeRoot :: "u16string \<Rightarrow> issue + u16string" where
  "NormalizeRoot path =
     (if length path < 4 \<or> length path > kMaximumPathUnits \<or> \<not> SafeUnicode path
         \<or> \<not> is_drive_letter (path ! 0) \<or> path ! 1 \<noteq> 0x3a
         \<or> (path ! 2 \<noteq> 0x2f \<and> path ! 2 \<noteq> 0x5c)
      then Inl (Issue0 InvalidPath)
      else let normalized = map (\<lambda>c. FoldAscii (if c = 0x5c then 0x2f else c)) path in
        if components_ok (drop 3 normalized) then Inr normalized
        else Inl (Issue0 InvalidPath))"

definition RootsOverlap :: "u16string \<Rightarrow> u16string \<Rightarrow> bool" where
  "RootsOverlap a b \<longleftrightarrow> a = b
     \<or> (length a < length b \<and> prefix a b \<and> b ! length a = 0x2f)
     \<or> (length b < length a \<and> prefix b a \<and> a ! length b = 0x2f)"

subsection \<open>Library validation, selection and the launch plan\<close>

text \<open>
  The inner loop over the earlier entries: \<open>earlier\<close> pairs each of \<open>library.entries[0 .. i)\<close>
  with its normalized root \<open>roots[j]\<close>.
\<close>

fun check_earlier :: "nat \<Rightarrow> profile_entry \<Rightarrow> u16string \<Rightarrow> nat \<Rightarrow>
    (profile_entry \<times> u16string) list \<Rightarrow> issue option" where
  "check_earlier i entry normalized j [] = None"
| "check_earlier i entry normalized j ((old, root) # later) =
     (if pe_id entry = pe_id old then Some (Issue2 DuplicateId i j)
      else if normalized = root then Some (Issue2 DuplicateRoot i j)
      else if RootsOverlap normalized root then Some (Issue2 OverlappingProfileRoots i j)
      else check_earlier i entry normalized (Suc j) later)"

fun validate_entries :: "string \<Rightarrow> nat \<Rightarrow> (profile_entry \<times> u16string) list \<Rightarrow> bool \<Rightarrow>
    profile_entry list \<Rightarrow> issue option" where
  "validate_entries sel i earlier found [] =
     (if \<not> found then Some (Issue0 UnknownSelection) else None)"
| "validate_entries sel i earlier found (entry # later) =
     (if \<not> ValidOpaqueId (pe_id entry) then Some (Issue1 InvalidId i)
      else if \<not> ValidLabel (pe_label entry) then Some (Issue1 InvalidLabel i)
      else if pe_layout entry \<noteq> ManagedExternalV1 \<and> pe_layout entry \<noteq> LegacyBundleUserReadOnlyV1
      then Some (Issue1 InvalidLayout i)
      else case NormalizeRoot (pe_root entry) of
          Inl _ \<Rightarrow> Some (Issue1 InvalidPath i)
        | Inr normalized \<Rightarrow>
            (case check_earlier i entry normalized 0 earlier of
               Some issue \<Rightarrow> Some issue
             | None \<Rightarrow> validate_entries sel (Suc i) (earlier @ [(entry, normalized)])
                        (found \<or> pe_id entry = sel) later))"

definition ValidateLibrary :: "profile_library \<Rightarrow> issue option" where
  "ValidateLibrary library =
     (if pl_version library \<noteq> kLibraryVersion then Some (Issue0 UnsupportedVersion)
      else if pl_entries library = [] \<or> length (pl_entries library) > kMaximumProfiles
      then Some (Issue0 InvalidCount)
      else if pl_selected library = [] then Some (Issue0 MissingSelection)
      else if \<not> ValidOpaqueId (pl_selected library) then Some (Issue0 InvalidId)
      else validate_entries (pl_selected library) 0 [] False (pl_entries library))"

definition SelectProfile :: "profile_library \<Rightarrow> string \<Rightarrow> issue + profile_library" where
  "SelectProfile library ident =
     (if \<not> ValidOpaqueId ident then Inl (Issue0 InvalidId)
      else let selected = library\<lparr>pl_selected := ident\<rparr> in
        case ValidateLibrary selected of Some issue \<Rightarrow> Inl issue | None \<Rightarrow> Inr selected)"

text \<open>
  The loop of \<open>MakeLaunchPlan\<close> over all entries. The code dereferences \<open>NormalizeRoot(entry.root)\<close>
  unchecked, after \<open>ValidateLibrary\<close> accepted the library; \<open>validate_entries_normalizes\<close> below
  shows that its error branch is never taken there.
\<close>

fun plan_entries :: "string \<Rightarrow> u16string \<Rightarrow> u16string \<Rightarrow> nat \<Rightarrow> profile_entry option \<Rightarrow>
    profile_entry list \<Rightarrow> issue + profile_entry option" where
  "plan_entries sel build game i selected [] = Inr selected"
| "plan_entries sel build game i selected (entry # later) =
     (case NormalizeRoot (pe_root entry) of
        Inl e \<Rightarrow> Inl e
      | Inr root \<Rightarrow>
          if RootsOverlap root build \<or> RootsOverlap root game then Inl (Issue1 RootOverlap i)
          else plan_entries sel build game (Suc i)
                 (if pe_id entry = sel then Some entry else selected) later)"

definition MakeLaunchPlan :: "profile_library \<Rightarrow> launch_request \<Rightarrow> issue + launch_plan" where
  "MakeLaunchPlan library request =
     (case ValidateLibrary library of Some issue \<Rightarrow> Inl issue
      | None \<Rightarrow>
        if rq_timing request = Fixed60 then Inl (Issue0 UnverifiedTiming)
        else if rq_timing request \<noteq> Stock \<and> rq_timing request \<noteq> Unlocked
        then Inl (Issue0 InvalidTiming)
        else bindE (NormalizeRoot (rq_build request)) (\<lambda>build.
          bindE (NormalizeRoot (rq_game request)) (\<lambda>game.
          if RootsOverlap build game then Inl (Issue0 RootOverlap)
          else bindE (plan_entries (pl_selected library) build game 0 None (pl_entries library))
            (\<lambda>selected. case selected of
               None \<Rightarrow> Inl (Issue0 UnknownSelection)
             | Some profile \<Rightarrow>
                 if pe_layout profile \<noteq> ManagedExternalV1 then Inl (Issue0 LegacyReadOnly)
                 else bindE (NormalizeRoot (pe_root profile)) (\<lambda>root.
                   Inr \<lparr>lp_profile = profile\<lparr>pe_root := root\<rparr>, lp_build = build,
                        lp_game = game, lp_timing = rq_timing request\<rparr>)))))"

subsection \<open>Roots: normalization and containment\<close>

definition fold_unit :: "u16 \<Rightarrow> u16" where
  "fold_unit c = FoldAscii (if c = 0x5c then 0x2f else c)"

lemmas unit_arith = word_le_nat_alt word_less_nat_alt word_unat_eq_iff

lemma unat_fold_unit:
  "unat (fold_unit c) =
     (if 65 \<le> unat c \<and> unat c \<le> 90 then unat c + 32 else if unat c = 92 then 47 else unat c)"
proof -
  have "unat (c + 0x20) = unat c + 32" if "unat c \<le> 90"
    using that by (simp add: unat_word_ariths)
  then show ?thesis
    by (auto simp: fold_unit_def FoldAscii_def unit_arith)
qed

lemma fold_unit_idem [simp]: "fold_unit (fold_unit c) = fold_unit c"
  by (simp add: word_unat_eq_iff unat_fold_unit)

lemma fold_unit_unsafe [simp]: "unsafe_unit (fold_unit c) = unsafe_unit c"
  unfolding unsafe_unit_def by (simp add: unit_arith unat_fold_unit)

lemma fold_unit_high [simp]:
  "0xd800 \<le> fold_unit c \<longleftrightarrow> 0xd800 \<le> c" "fold_unit c \<le> 0xdbff \<longleftrightarrow> c \<le> 0xdbff"
  "0xdc00 \<le> fold_unit c \<longleftrightarrow> 0xdc00 \<le> c" "fold_unit c \<le> 0xdfff \<longleftrightarrow> c \<le> 0xdfff"
  "fold_unit c < 0xdc00 \<longleftrightarrow> c < 0xdc00" "0xdfff < fold_unit c \<longleftrightarrow> 0xdfff < c"
  by (simp_all add: unit_arith unat_fold_unit)

lemma SafeUnicode_fold [simp]: "SafeUnicode (map fold_unit s) = SafeUnicode s"
  by (induction s rule: SafeUnicode.induct) (auto split: list.splits)

lemma components_ok_split_all:
  "components_ok rest = list_all component_ok (split_all 0x2f rest)"
proof (induction rest rule: components_ok.induct)
  case (1 rest)
  have empty: "\<not> component_ok []" by (simp add: component_ok_def)
  show ?case
  proof (cases "split_at 0x2f rest")
    case (Pair h t)
    with "1.IH" empty show ?thesis
      by (cases t) (auto simp: components_ok.simps [of rest] split_all.simps [of _ rest])
  qed
qed

lemma NormalizeRoot_Inr:
  "NormalizeRoot path = Inr q \<longleftrightarrow>
     4 \<le> length path \<and> length path \<le> kMaximumPathUnits \<and> SafeUnicode path
     \<and> is_drive_letter (path ! 0) \<and> path ! 1 = 0x3a \<and> (path ! 2 = 0x2f \<or> path ! 2 = 0x5c)
     \<and> q = map fold_unit path \<and> list_all component_ok (split_all 0x2f (drop 3 q))"
  by (auto simp: NormalizeRoot_def components_ok_split_all fold_unit_def [symmetric] Let_def)

lemma is_drive_letter_fold [simp]: "is_drive_letter (fold_unit c) = is_drive_letter c"
  by (auto simp: is_drive_letter_def unit_arith unat_fold_unit)

lemma NormalizeRoot_idem:
  assumes "NormalizeRoot p = Inr q"
  shows "NormalizeRoot q = Inr q"
proof -
  have q: "q = map fold_unit p" and len: "4 \<le> length p"
    using assms by (simp_all add: NormalizeRoot_Inr)
  then have nth: "q ! i = fold_unit (p ! i)" if "i < 4" for i
    using that by simp
  have again: "map fold_unit q = q" by (simp add: q)
  have safe: "SafeUnicode q" using assms by (simp add: q NormalizeRoot_Inr)
  have small: "fold_unit 0x3a = 0x3a" "fold_unit 0x2f = 0x2f" "fold_unit 0x5c = 0x2f"
    by (simp_all add: fold_unit_def FoldAscii_def)
  have "is_drive_letter (p ! 0)" "p ! 1 = 0x3a" "p ! 2 = 0x2f \<or> p ! 2 = 0x5c"
    using assms unfolding NormalizeRoot_Inr by simp_all
  then have "is_drive_letter (q ! 0)" "q ! 1 = 0x3a" "q ! 2 = 0x2f"
    by (auto simp: nth small simp del: One_nat_def)
  moreover have "4 \<le> length q" "length q \<le> kMaximumPathUnits"
      and "list_all component_ok (split_all 0x2f (drop 3 q))"
    using assms unfolding NormalizeRoot_Inr by auto
  ultimately show ?thesis
    using safe unfolding NormalizeRoot_Inr again by blast
qed

text \<open>
  What \<open>RootsOverlap\<close> decides on the text of two paths is containment of their component
  lists: one list of components is a prefix of the other.
\<close>

lemma prefix_split_all:
  "prefix (split_all d a) (split_all d b) \<longleftrightarrow> a = b \<or> (\<exists>r. b = a @ d # r)"
proof
  assume "prefix (split_all d a) (split_all d b)"
  then obtain rs where rs: "split_all d b = split_all d a @ rs" by (auto simp: prefix_def)
  show "a = b \<or> (\<exists>r. b = a @ d # r)"
  proof (cases "rs = []")
    case True
    with rs show ?thesis by (simp add: split_all_inject)
  next
    case False
    have join: "join_with d (xs @ rs) = join_with d xs @ d # join_with d rs" if "xs \<noteq> []" for xs
      using that False by (induction xs rule: join_with.induct) (simp_all add: join_with_Cons)
    have "b = join_with d (split_all d a @ rs)" by (metis rs join_split_all)
    also have "\<dots> = a @ d # join_with d rs" by (simp add: join)
    finally show ?thesis by blast
  qed
qed (auto simp: split_all_append_sep)

lemma prefix_then_sep:
  "(length a < length b \<and> prefix a b \<and> b ! length a = d) \<longleftrightarrow> (\<exists>r. b = a @ d # r)"
proof
  assume *: "length a < length b \<and> prefix a b \<and> b ! length a = d"
  then obtain s where "b = a @ s" by (auto simp: prefix_def)
  with * show "\<exists>r. b = a @ d # r" by (cases s) auto
qed auto

lemma RootsOverlap_prefix:
  "RootsOverlap a b \<longleftrightarrow> prefix (split_all 0x2f a) (split_all 0x2f b)
     \<or> prefix (split_all 0x2f b) (split_all 0x2f a)"
  unfolding RootsOverlap_def prefix_split_all prefix_then_sep by auto

lemma RootsOverlap_sym: "RootsOverlap a b = RootsOverlap b a"
  by (auto simp: RootsOverlap_prefix)

lemma RootsOverlap_refl [simp]: "RootsOverlap a a"
  by (simp add: RootsOverlap_def)

subsection \<open>What an accepted library is\<close>

definition entry_ok :: "profile_entry \<Rightarrow> bool" where
  "entry_ok e \<longleftrightarrow> ValidOpaqueId (pe_id e) \<and> ValidLabel (pe_label e) \<and> pe_layout e \<noteq> OtherLayout
     \<and> isInr (NormalizeRoot (pe_root e))"

definition canonical_root :: "profile_entry \<Rightarrow> u16string" where
  "canonical_root e = projr (NormalizeRoot (pe_root e))"

definition entries_apart :: "profile_entry \<Rightarrow> profile_entry \<Rightarrow> bool" where
  "entries_apart a b \<longleftrightarrow> pe_id a \<noteq> pe_id b \<and> \<not> RootsOverlap (canonical_root a) (canonical_root b)"

lemma entries_apart_sym: "entries_apart a b \<Longrightarrow> entries_apart b a"
  by (auto simp: entries_apart_def RootsOverlap_sym)

lemma check_earlier_None:
  "check_earlier i e n j ps = None \<longleftrightarrow>
     (\<forall>(old, root) \<in> set ps. pe_id e \<noteq> pe_id old \<and> \<not> RootsOverlap n root)"
  by (induction i e n j ps rule: check_earlier.induct) auto

lemma validate_entries_None:
  "validate_entries sel i ps found es = None \<longleftrightarrow>
     list_all entry_ok es
     \<and> (\<forall>e \<in> set es. \<forall>(old, root) \<in> set ps.
          pe_id e \<noteq> pe_id old \<and> \<not> RootsOverlap (canonical_root e) root)
     \<and> sorted_wrt (\<lambda>a b. entries_apart b a) es
     \<and> (found \<or> sel \<in> pe_id ` set es)"
proof (induction es arbitrary: i ps found)
  case Nil
  then show ?case by simp
next
  case (Cons e es)
  show ?case
  proof (cases "NormalizeRoot (pe_root e)")
    case (Inl x)
    then show ?thesis by (auto simp: entry_ok_def)
  next
    case (Inr n)
    then have can: "canonical_root e = n" by (simp add: canonical_root_def)
    have layout: "pe_layout e \<noteq> ManagedExternalV1 \<and> pe_layout e \<noteq> LegacyBundleUserReadOnlyV1
        \<longleftrightarrow> pe_layout e = OtherLayout"
      by (cases "pe_layout e") auto
    show ?thesis
    proof (cases "check_earlier i e n 0 ps")
      case None
      let ?rest = "validate_entries sel (Suc i) (ps @ [(e, n)]) (found \<or> pe_id e = sel) es"
      from None have apart: "\<forall>(old, root) \<in> set ps. pe_id e \<noteq> pe_id old \<and> \<not> RootsOverlap n root"
        by (simp add: check_earlier_None)
      have "validate_entries sel i ps found (e # es) = None \<longleftrightarrow> entry_ok e \<and> ?rest = None"
        using None Inr layout by (simp add: entry_ok_def)
      also have "?rest = None \<longleftrightarrow> list_all entry_ok es
          \<and> (\<forall>e' \<in> set es. \<forall>(old, root) \<in> set ps.
               pe_id e' \<noteq> pe_id old \<and> \<not> RootsOverlap (canonical_root e') root)
          \<and> (\<forall>e' \<in> set es. entries_apart e' e) \<and> sorted_wrt (\<lambda>a b. entries_apart b a) es
          \<and> (found \<or> sel = pe_id e \<or> sel \<in> pe_id ` set es)"
        unfolding Cons.IH by (auto simp: entries_apart_def can)
      finally show ?thesis
        using apart can by auto
    next
      case (Some x)
      then have "\<not> (\<forall>(old, root) \<in> set ps. pe_id e \<noteq> pe_id old \<and> \<not> RootsOverlap n root)"
        by (simp flip: check_earlier_None [where i = i and j = 0])
      with Inr can Some layout show ?thesis by auto
    qed
  qed
qed

lemma ValidateLibrary_None:
  "ValidateLibrary library = None \<longleftrightarrow>
     pl_version library = kLibraryVersion
     \<and> 0 < length (pl_entries library) \<and> length (pl_entries library) \<le> kMaximumProfiles
     \<and> ValidOpaqueId (pl_selected library)
     \<and> list_all entry_ok (pl_entries library)
     \<and> sorted_wrt (\<lambda>a b. entries_apart b a) (pl_entries library)
     \<and> pl_selected library \<in> pe_id ` set (pl_entries library)"
  by (auto simp: ValidateLibrary_def validate_entries_None ValidOpaqueId_def)

lemma validate_entries_normalizes:
  "ValidateLibrary library = None \<Longrightarrow> e \<in> set (pl_entries library) \<Longrightarrow>
     NormalizeRoot (pe_root e) = Inr (canonical_root e)"
  by (cases "NormalizeRoot (pe_root e)")
    (auto simp: ValidateLibrary_None list_all_iff entry_ok_def canonical_root_def)

lemma validated_ids_distinct:
  assumes "ValidateLibrary library = None"
  shows "distinct (map pe_id (pl_entries library))"
proof -
  from assms have "sorted_wrt (\<lambda>a b. pe_id a \<noteq> pe_id b) (pl_entries library)"
    unfolding ValidateLibrary_None by (auto simp: entries_apart_def elim!: sorted_wrt_mono_rel [rotated])
  then show ?thesis
    by (induction "pl_entries library" arbitrary: library rule: list.induct)
      (auto simp: distinct_map distinct_conv_nth sorted_wrt_iff_nth_less inj_on_def,
        (metis linorder_neqE_nat nth_mem in_set_conv_nth)+)
qed

subsection \<open>The launch plan\<close>

definition clear_of :: "profile_entry list \<Rightarrow> u16string \<Rightarrow> bool" where
  "clear_of es r \<longleftrightarrow> list_all (\<lambda>e. \<not> RootsOverlap (canonical_root e) r) es"

lemma plan_entries_Inr:
  "plan_entries sel b g i s es = Inr r \<longleftrightarrow>
     list_all (\<lambda>e. isInr (NormalizeRoot (pe_root e))) es \<and> clear_of es b \<and> clear_of es g
     \<and> r = fold (\<lambda>e s. if pe_id e = sel then Some e else s) es s"
proof (induction es arbitrary: i s)
  case Nil
  then show ?case by (auto simp: clear_of_def)
next
  case (Cons e es)
  then show ?case
    by (cases "NormalizeRoot (pe_root e)") (auto simp: clear_of_def canonical_root_def)
qed

lemma fold_select_none:
  "sel \<notin> pe_id ` set es \<Longrightarrow> fold (\<lambda>e s. if pe_id e = sel then Some e else s) es s = s"
  by (induction es arbitrary: s) auto

lemma fold_select:
  assumes "distinct (map pe_id es)" and "sel \<in> pe_id ` set es"
  shows "fold (\<lambda>e s. if pe_id e = sel then Some e else s) es s = Some e \<longleftrightarrow>
           e \<in> set es \<and> pe_id e = sel"
  using assms
proof (induction es arbitrary: s)
  case Nil
  then show ?case by simp
next
  case (Cons x es)
  show ?case
  proof (cases "pe_id x = sel")
    case True
    with Cons.prems have "sel \<notin> pe_id ` set es" by auto
    with True show ?thesis by (simp add: fold_select_none) (metis imageI)
  next
    case False
    with Cons show ?thesis by auto
  qed
qed

definition plan_for :: "launch_request \<Rightarrow> u16string \<Rightarrow> u16string \<Rightarrow> profile_entry \<Rightarrow> launch_plan" where
  "plan_for rq b g e = \<lparr>lp_profile = e\<lparr>pe_root := canonical_root e\<rparr>, lp_build = b, lp_game = g,
     lp_timing = rq_timing rq\<rparr>"

text \<open>The declarative counterpart of \<open>MakeLaunchPlan\<close>: what a plan for \<open>e\<close> must satisfy.\<close>

definition launchable :: "profile_library \<Rightarrow> launch_request \<Rightarrow> u16string \<Rightarrow> u16string \<Rightarrow>
    profile_entry \<Rightarrow> bool" where
  "launchable library rq b g e \<longleftrightarrow>
     ValidateLibrary library = None \<and> (rq_timing rq = Stock \<or> rq_timing rq = Unlocked)
     \<and> NormalizeRoot (rq_build rq) = Inr b \<and> NormalizeRoot (rq_game rq) = Inr g
     \<and> \<not> RootsOverlap b g \<and> clear_of (pl_entries library) b \<and> clear_of (pl_entries library) g
     \<and> e \<in> set (pl_entries library) \<and> pe_id e = pl_selected library
     \<and> pe_layout e = ManagedExternalV1"

lemma MakeLaunchPlan_launchable:
  "MakeLaunchPlan library rq = Inr plan \<longleftrightarrow>
     (\<exists>b g e. launchable library rq b g e \<and> plan = plan_for rq b g e)"
proof (cases "ValidateLibrary library = None")
  case False
  then show ?thesis by (auto simp: MakeLaunchPlan_def launchable_def)
next
  case True
  let ?es = "pl_entries library" and ?sel = "pl_selected library"
  let ?find = "fold (\<lambda>e s. if pe_id e = ?sel then Some e else s) ?es None"
  have sel: "?sel \<in> pe_id ` set ?es" and norm: "list_all (\<lambda>e. isInr (NormalizeRoot (pe_root e))) ?es"
    using True by (auto simp: ValidateLibrary_None list_all_iff entry_ok_def)
  have pick: "?find = Some e \<longleftrightarrow> e \<in> set ?es \<and> pe_id e = ?sel" for e
    using validated_ids_distinct [OF True] sel by (rule fold_select)
  have root: "NormalizeRoot (pe_root e) = Inr (canonical_root e)" if "e \<in> set ?es" for e
    using True that by (rule validate_entries_normalizes)
  from sel obtain e where e: "e \<in> set ?es" "pe_id e = ?sel" by auto
  then have find: "?find = Some e" by (simp add: pick)
  have uniq: "e' \<in> set ?es \<and> pe_id e' = ?sel \<longleftrightarrow> e' = e" for e'
    using pick [of e'] find by auto
  have plan: "plan_entries ?sel b g 0 None ?es = Inr r \<longleftrightarrow>
      clear_of ?es b \<and> clear_of ?es g \<and> r = Some e" for b g r
    using norm find by (simp add: plan_entries_Inr)
  have "MakeLaunchPlan library rq = Inr plan \<longleftrightarrow> (\<exists>b g. launchable library rq b g e \<and> plan = plan_for rq b g e)"
    using True root [OF e(1)] e
    by (cases "rq_timing rq") (auto simp: MakeLaunchPlan_def launchable_def plan expected_simps plan_for_def)
  also have "\<dots> \<longleftrightarrow> (\<exists>b g e'. launchable library rq b g e' \<and> plan = plan_for rq b g e')"
  proof -
    have "e' = e" if "launchable library rq b g e'" for b g e'
      using that uniq [of e'] by (auto simp: launchable_def)
    then show ?thesis by metis
  qed
  finally show ?thesis .
qed

subsection \<open>Properties\<close>

text \<open>Whether two roots overlap, decided by the code on their texts, is containment of
  their component lists: one list is a prefix of the other.\<close>

theorem RootsOverlap_components:
  "RootsOverlap a b \<longleftrightarrow> prefix (split_all 0x2f a) (split_all 0x2f b)
     \<or> prefix (split_all 0x2f b) (split_all 0x2f a)"
  by (rule RootsOverlap_prefix)

text \<open>A normalized root is canonical: normalizing it again gives it back, it has the length of
  the input, and each of its components after the drive is an accepted component.\<close>

theorem NormalizeRoot_canonical:
  assumes "NormalizeRoot p = Inr q"
  shows "NormalizeRoot q = Inr q \<and> length q = length p \<and> length q \<le> kMaximumPathUnits
    \<and> list_all component_ok (split_all 0x2f (drop 3 q))"
  using assms NormalizeRoot_idem [OF assms] by (auto simp: NormalizeRoot_Inr)

theorem NormalizeRoot_canonical_witness:
  "NormalizeRoot (u16lit ''C:/Games/MCLA'') = Inr (u16lit ''c:/games/mcla'')
   \<and> NormalizeRoot (u16lit ''c:/games/mcla'') = Inr (u16lit ''c:/games/mcla'')"
proof -
  have h: "NormalizeRoot (u16lit ''C:/Games/MCLA'') = Inr (u16lit ''c:/games/mcla'')"
    by code_simp
  from NormalizeRoot_canonical [OF h] h show ?thesis by simp
qed

text \<open>C3: the library validation accepts exactly the libraries of the supported version with 1 to
  64 well-formed entries, pairwise distinct ids, pairwise disjoint canonical roots, and a
  selected id that is the id of an entry.\<close>

theorem ValidateLibrary_accepts_iff:
  "ValidateLibrary library = None \<longleftrightarrow>
     pl_version library = kLibraryVersion
     \<and> 0 < length (pl_entries library) \<and> length (pl_entries library) \<le> kMaximumProfiles
     \<and> ValidOpaqueId (pl_selected library)
     \<and> list_all entry_ok (pl_entries library)
     \<and> sorted_wrt (\<lambda>a b. entries_apart b a) (pl_entries library)
     \<and> pl_selected library \<in> pe_id ` set (pl_entries library)"
  by (rule ValidateLibrary_None)

text \<open>C2: a launch plan is made exactly when the library validates, the timing is Stock or Unlocked,
  build and game roots normalize and are disjoint, neither meets the root of any profile
  (selected or not), and the selected entry is a managed one; the plan then is that entry with
  its canonical root.\<close>

theorem MakeLaunchPlan_iff:
  "MakeLaunchPlan library rq = Inr plan \<longleftrightarrow>
     (\<exists>b g e. launchable library rq b g e \<and> plan = plan_for rq b g e)"
  by (rule MakeLaunchPlan_launchable)

text \<open>An explicit selection is never replaced: the plan made after a successful
  \<open>SelectProfile\<close> is for the chosen id, from the unchanged entries.\<close>

theorem SelectProfile_then_plan:
  assumes "SelectProfile library ident = Inr chosen" and "MakeLaunchPlan chosen rq = Inr plan"
  shows "pe_id (lp_profile plan) = ident \<and> pl_entries chosen = pl_entries library
    \<and> lp_profile plan \<in> (\<lambda>e. e\<lparr>pe_root := canonical_root e\<rparr>) ` set (pl_entries library)"
proof -
  from assms(1) have "chosen = library\<lparr>pl_selected := ident\<rparr>"
    by (auto simp: SelectProfile_def Let_def split: if_splits option.splits)
  with assms(2) show ?thesis
    by (auto simp: MakeLaunchPlan_launchable launchable_def plan_for_def)
qed

definition example_id :: "char \<Rightarrow> string" where
  "example_id c = replicate 31 CHR ''0'' @ [c]"

definition example_library :: profile_library where
  "example_library = \<lparr>pl_version = 1,
     pl_entries =
       [\<lparr>pe_id = example_id CHR ''a'', pe_label = u16lit ''Main'', pe_root = u16lit ''C:/Saves/A'',
         pe_layout = ManagedExternalV1\<rparr>,
        \<lparr>pe_id = example_id CHR ''b'', pe_label = u16lit ''Second'', pe_root = u16lit ''C:/Saves/B'',
         pe_layout = ManagedExternalV1\<rparr>],
     pl_selected = example_id CHR ''a''\<rparr>"

definition example_request :: launch_request where
  "example_request = \<lparr>rq_build = u16lit ''D:/Build'', rq_game = u16lit ''D:/Game'', rq_timing = Stock\<rparr>"

theorem SelectProfile_then_plan_witness:
  "\<exists>chosen plan. SelectProfile example_library (example_id CHR ''b'') = Inr chosen
     \<and> MakeLaunchPlan chosen example_request = Inr plan
     \<and> pe_id (lp_profile plan) = example_id CHR ''b''"
proof -
  let ?chosen = "example_library\<lparr>pl_selected := example_id CHR ''b''\<rparr>"
  have s: "SelectProfile example_library (example_id CHR ''b'') = Inr ?chosen" by code_simp
  let ?e = "pl_entries example_library ! 1"
  have "launchable ?chosen example_request (u16lit ''d:/build'') (u16lit ''d:/game'') ?e"
    unfolding launchable_def
  proof (intro conjI)
    show "ValidateLibrary ?chosen = None" by code_simp
    show "NormalizeRoot (rq_build example_request) = Inr (u16lit ''d:/build'')" by code_simp
    show "NormalizeRoot (rq_game example_request) = Inr (u16lit ''d:/game'')" by code_simp
    show "\<not> RootsOverlap (u16lit ''d:/build'') (u16lit ''d:/game'')" by code_simp
    show "clear_of (pl_entries ?chosen) (u16lit ''d:/build'')"
        "clear_of (pl_entries ?chosen) (u16lit ''d:/game'')"
      by (simp_all add: clear_of_def example_library_def canonical_root_def) code_simp+
  qed (simp_all add: example_library_def example_request_def)
  then obtain plan where p: "MakeLaunchPlan ?chosen example_request = Inr plan"
    using MakeLaunchPlan_launchable by blast
  from SelectProfile_then_plan [OF s p] s p show ?thesis by blast
qed

end
