(* ===== verification/LibraryCodec.thy ===== *)
theory LibraryCodec
  imports LauncherProfile
begin

section \<open>Library codec (\<open>mcla_launcher_library_codec.h\<close>)\<close>

text \<open>
  The deterministic binary format of the profile library. A \<open>Reader\<close> is the byte span with an
  offset; each of its methods takes both and returns the value with the next offset, or the
  error with the offset the code reports. The locale \<open>field_codec\<close> is the contract between a
  writer and its reader: what is written reads back, and what reads was written, byte for byte.
  It is interpreted on the code's three field codecs and on a whole entry, and the round trip
  of the library is assembled from its facts.
\<close>

unbundle bit_operations_syntax

subsection \<open>Model\<close>

datatype codec_error_code = TooLarge | Truncated | InvalidMagic | CodecUnsupportedVersion
  | InvalidLength | CodecInvalidCount | InvalidEncoding | InvalidModel | TrailingBytes

record codec_error =
  ce_code :: codec_error_code
  ce_offset :: nat
  ce_issue :: "issue option"

abbreviation CErr :: "codec_error_code \<Rightarrow> nat \<Rightarrow> codec_error" where
  "CErr c off \<equiv> \<lparr>ce_code = c, ce_offset = off, ce_issue = None\<rparr>"

abbreviation CErrI :: "codec_error_code \<Rightarrow> nat \<Rightarrow> issue \<Rightarrow> codec_error" where
  "CErrI c off i \<equiv> \<lparr>ce_code = c, ce_offset = off, ce_issue = Some i\<rparr>"

definition kLibraryMagic :: bytes where
  "kLibraryMagic = map of_char ''MCLALIB1''"

definition kMaximumLibraryBytes :: nat where
  "kMaximumLibraryBytes = 256 * 1024"

datatype stored_selection = EmptyLibrary | Unselected | Dangling | Selected

definition GetStoredSelectionState :: "profile_library \<Rightarrow> stored_selection" where
  "GetStoredSelectionState library =
     (if pl_selected library = [] then
        (if pl_entries library = [] then EmptyLibrary else Unselected)
      else if list_ex (\<lambda>e. pe_id e = pl_selected library) (pl_entries library) then Selected
      else Dangling)"

fun ValidUtf16 :: "u16string \<Rightarrow> bool" where
  "ValidUtf16 [] = True"
| "ValidUtf16 (c # rest) =
     (if 0xd800 \<le> c \<and> c \<le> 0xdbff then
        (case rest of [] \<Rightarrow> False
         | l # rest' \<Rightarrow> if l < 0xdc00 \<or> l > 0xdfff then False else ValidUtf16 rest')
      else if 0xdc00 \<le> c \<and> c \<le> 0xdfff then False
      else ValidUtf16 rest)"

fun storage_entries :: "profile_entry list \<Rightarrow> codec_error option" where
  "storage_entries [] = None"
| "storage_entries (entry # later) =
     (if length (pe_id entry) > 32 \<or> length (pe_label entry) > kMaximumLabelUnits
         \<or> length (pe_root entry) > kMaximumPathUnits
      then Some (CErr InvalidLength 0)
      else if \<not> ValidUtf16 (pe_label entry) \<or> \<not> ValidUtf16 (pe_root entry)
      then Some (CErr InvalidEncoding 0)
      else storage_entries later)"

definition ValidateStorageModel :: "profile_library \<Rightarrow> codec_error option" where
  "ValidateStorageModel library =
     (if pl_version library \<noteq> kLibraryVersion then Some (CErr CodecUnsupportedVersion 8)
      else if length (pl_entries library) > kMaximumProfiles then Some (CErr CodecInvalidCount 12)
      else if pl_selected library \<noteq> [] \<and> \<not> ValidOpaqueId (pl_selected library)
      then Some (CErrI InvalidModel 16 (Issue0 InvalidId))
      else case storage_entries (pl_entries library) of Some e \<Rightarrow> Some e
      | None \<Rightarrow>
          if pl_entries library = [] then None
          else let inventory = library\<lparr>pl_selected := pe_id (hd (pl_entries library))\<rparr> in
            (case ValidateLibrary inventory of
               Some issue \<Rightarrow> Some (CErrI InvalidModel 0 issue) | None \<Rightarrow> None))"

definition AppendU32 :: "u32 \<Rightarrow> bytes" where
  "AppendU32 v = map (\<lambda>shift. ucast (drop_bit shift v)) [0, 8, 16, 24]"

definition AppendAscii :: "string \<Rightarrow> bytes" where
  "AppendAscii text = AppendU32 (of_nat (length text)) @ map of_char text"

fun append_units :: "u16string \<Rightarrow> bytes" where
  "append_units [] = []"
| "append_units (c # cs) = ucast c # ucast (drop_bit 8 c) # append_units cs"

definition AppendUtf16 :: "u16string \<Rightarrow> bytes" where
  "AppendUtf16 text = AppendU32 (of_nat (length text)) @ append_units text"

definition u32_at :: "bytes \<Rightarrow> nat \<Rightarrow> u32" where
  "u32_at bs off = ucast (bs ! off) OR push_bit 8 (ucast (bs ! (off + 1)))
     OR push_bit 16 (ucast (bs ! (off + 2))) OR push_bit 24 (ucast (bs ! (off + 3)))"

definition U32 :: "bytes \<Rightarrow> nat \<Rightarrow> codec_error + u32 \<times> nat" where
  "U32 bs off =
     (if length bs - off < 4 then Inl (CErr Truncated off) else Inr (u32_at bs off, off + 4))"

fun ascii_loop :: "nat \<Rightarrow> bytes \<Rightarrow> codec_error + string" where
  "ascii_loop off [] = Inr []"
| "ascii_loop off (c # cs) =
     (if c > 0x7f then Inl (CErr InvalidEncoding off)
      else bindE (ascii_loop (Suc off) cs) (\<lambda>s. Inr (char_of (unat c) # s)))"

definition Ascii :: "bytes \<Rightarrow> nat \<Rightarrow> codec_error + string \<times> nat" where
  "Ascii bs start =
     bindE (U32 bs start) (\<lambda>(count, off).
       if count > 32 then Inl (CErr InvalidLength start)
       else if unat count > length bs - off then Inl (CErr Truncated off)
       else bindE (ascii_loop off (take (unat count) (drop off bs)))
              (\<lambda>s. Inr (s, off + unat count)))"

fun read_units :: "bytes \<Rightarrow> u16string" where
  "read_units (low # high # rest) = (ucast low OR push_bit 8 (ucast high)) # read_units rest"
| "read_units _ = []"

definition Utf16 :: "bytes \<Rightarrow> nat \<Rightarrow> nat \<Rightarrow> codec_error + u16string \<times> nat" where
  "Utf16 bs start maximum =
     bindE (U32 bs start) (\<lambda>(count, off).
       if unat count > maximum then Inl (CErr InvalidLength start)
       else if unat count > (length bs - off) div 2 then Inl (CErr Truncated off)
       else let text = read_units (take (2 * unat count) (drop off bs)) in
         if \<not> ValidUtf16 text then Inl (CErr InvalidEncoding (start + 4))
         else Inr (text, off + 2 * unat count))"

definition AppendEntry :: "profile_entry \<Rightarrow> bytes" where
  "AppendEntry e = AppendAscii (pe_id e) @ AppendUtf16 (pe_label e) @ AppendUtf16 (pe_root e)
     @ AppendU32 (if pe_layout e = ManagedExternalV1 then 1 else 2)"

definition EncodeLibrary :: "profile_library \<Rightarrow> codec_error + bytes" where
  "EncodeLibrary library =
     (case ValidateStorageModel library of Some error \<Rightarrow> Inl error
      | None \<Rightarrow>
        let bs = kLibraryMagic @ AppendU32 (pl_version library)
                   @ AppendU32 (of_nat (length (pl_entries library)))
                   @ AppendAscii (pl_selected library)
                   @ concat (map AppendEntry (pl_entries library)) in
        if length bs > kMaximumLibraryBytes then Inl (CErr TooLarge 0) else Inr bs)"

definition decode_entry :: "nat \<Rightarrow> bytes \<Rightarrow> nat \<Rightarrow> codec_error + profile_entry \<times> nat" where
  "decode_entry i bs off0 =
     bindE (Ascii bs off0) (\<lambda>(ident, off1).
     bindE (Utf16 bs off1 kMaximumLabelUnits) (\<lambda>(lbl, off2).
     bindE (Utf16 bs off2 kMaximumPathUnits) (\<lambda>(rt, off3).
     bindE (U32 bs off3) (\<lambda>(layout, off4).
       if layout \<noteq> 1 \<and> layout \<noteq> 2 then Inl (CErrI InvalidModel off3 (Issue1 InvalidLayout i))
       else Inr (\<lparr>pe_id = ident, pe_label = lbl, pe_root = rt,
                  pe_layout = (if layout = 1 then ManagedExternalV1
                               else LegacyBundleUserReadOnlyV1)\<rparr>, off4)))))"

fun decode_entries :: "nat \<Rightarrow> nat \<Rightarrow> bytes \<Rightarrow> nat \<Rightarrow> codec_error + profile_entry list \<times> nat" where
  "decode_entries i 0 bs off = Inr ([], off)"
| "decode_entries i (Suc n) bs off =
     bindE (decode_entry i bs off) (\<lambda>(e, off1).
     bindE (decode_entries (Suc i) n bs off1) (\<lambda>(es, off2). Inr (e # es, off2)))"

text \<open>The magic loop: the index of the first byte that differs.\<close>

fun magic_mismatch :: "nat \<Rightarrow> bytes \<Rightarrow> bytes \<Rightarrow> nat option" where
  "magic_mismatch i (b # bs) (m # ms) =
     (if b \<noteq> m then Some i else magic_mismatch (Suc i) bs ms)"
| "magic_mismatch i _ _ = None"

definition DecodeLibrary :: "bytes \<Rightarrow> codec_error + profile_library" where
  "DecodeLibrary bs =
     (if length bs > kMaximumLibraryBytes then Inl (CErr TooLarge 0)
      else if length bs < length kLibraryMagic then Inl (CErr Truncated 0)
      else case magic_mismatch 0 bs kLibraryMagic of
        Some i \<Rightarrow> Inl (CErr InvalidMagic i)
      | None \<Rightarrow>
        bindE (U32 bs 8) (\<lambda>(version, off1).
        if version \<noteq> kLibraryVersion then Inl (CErr CodecUnsupportedVersion 8)
        else bindE (U32 bs off1) (\<lambda>(count, off2).
        if unat count > kMaximumProfiles then Inl (CErr CodecInvalidCount 12)
        else bindE (Ascii bs off2) (\<lambda>(selected, off3).
        bindE (decode_entries 0 (unat count) bs off3) (\<lambda>(es, off4).
        if off4 \<noteq> length bs then Inl (CErr TrailingBytes off4)
        else let library = \<lparr>pl_version = version, pl_entries = es, pl_selected = selected\<rparr> in
          (case ValidateStorageModel library of Some error \<Rightarrow> Inl error
           | None \<Rightarrow> Inr library))))))"

subsection \<open>The contract of a field codec\<close>

locale field_codec =
  fixes enc :: "'a \<Rightarrow> bytes"
    and dec :: "bytes \<Rightarrow> nat \<Rightarrow> codec_error + 'a \<times> nat"
    and ok :: "'a \<Rightarrow> bool"
  assumes dec_enc: "ok x \<Longrightarrow> off \<le> length bs \<Longrightarrow> drop off bs = enc x @ rest \<Longrightarrow>
      dec bs off = Inr (x, off + length (enc x))"
    and enc_dec: "off \<le> length bs \<Longrightarrow> dec bs off = Inr (x, off') \<Longrightarrow>
      ok x \<and> drop off bs = enc x @ drop off' bs \<and> off' = off + length (enc x) \<and> off' \<le> length bs"
begin

lemma enc_prefix_free:
  assumes "ok x" "ok y" "enc x @ r = enc y @ s"
  shows "x = y \<and> r = s"
proof -
  have "dec (enc x @ r) 0 = Inr (x, length (enc x))"
    using dec_enc [of x 0 "enc x @ r" r] assms(1) by simp
  moreover have "dec (enc x @ r) 0 = Inr (y, length (enc y))"
    using dec_enc [of y 0 "enc x @ r" s] assms(2,3) by simp
  ultimately have "x = y" by simp
  with assms(3) show ?thesis by simp
qed

lemma dec_next:
  assumes "ok x" "off \<le> length bs" "drop off bs = enc x @ rest"
  shows "dec bs off = Inr (x, off + length (enc x))"
    and "off + length (enc x) \<le> length bs" and "drop (off + length (enc x)) bs = rest"
proof -
  show "dec bs off = Inr (x, off + length (enc x))" by (rule dec_enc [OF assms])
  have len: "length bs - off = length (enc x) + length rest"
    using arg_cong [OF assms(3), of length] by simp
  with assms(2) show "off + length (enc x) \<le> length bs" by simp
  have "drop (off + length (enc x)) bs = drop (length (enc x)) (drop off bs)"
    by (simp add: add.commute)
  with assms(3) show "drop (off + length (enc x)) bs = rest" by simp
qed

end

subsection \<open>The field codecs\<close>

lemma u32_join:
  "ucast (ucast (drop_bit 0 v) :: u8) OR push_bit 8 (ucast (ucast (drop_bit 8 v) :: u8))
     OR push_bit 16 (ucast (ucast (drop_bit 16 v) :: u8))
     OR push_bit 24 (ucast (ucast (drop_bit 24 v) :: u8)) = (v :: u32)"
  (is "?l = v")
proof (rule bit_word_eqI)
  fix n
  assume "n < LENGTH(32)"
  then consider "n < 8" | "8 \<le> n" "n < 16" | "16 \<le> n" "n < 24" | "24 \<le> n" "n < 32"
    by (auto simp: not_less) linarith
  then show "bit ?l n = bit v n"
    by cases (auto simp: bit_simps)
qed

lemma u32_split:
  fixes b0 b1 b2 b3 :: u8
  defines "v \<equiv> (ucast b0 OR push_bit 8 (ucast b1) OR push_bit 16 (ucast b2) OR push_bit 24 (ucast b3) :: u32)"
  shows "ucast (drop_bit 0 v) = b0" "ucast (drop_bit 8 v) = b1"
    "ucast (drop_bit 16 v) = b2" "ucast (drop_bit 24 v) = b3"
  by (rule bit_word_eqI; auto simp: v_def bit_simps dest: bit_imp_le_length; fail)+

lemma u16_join:
  "ucast (ucast c :: u8) OR push_bit 8 (ucast (ucast (drop_bit 8 c) :: u8)) = (c :: u16)"
  by (rule bit_word_eqI) (auto simp: bit_simps)

lemma u16_split:
  fixes lo hi :: u8
  defines "c \<equiv> (ucast lo OR push_bit 8 (ucast hi) :: u16)"
  shows "ucast c = lo" "ucast (drop_bit 8 c) = hi"
  by (rule bit_word_eqI; auto simp: c_def bit_simps dest: bit_imp_le_length; fail)+

lemma drop4_Cons:
  assumes "off + 4 \<le> length bs"
  shows "drop off bs = [bs ! off, bs ! (off + 1), bs ! (off + 2), bs ! (off + 3)] @ drop (off + 4) bs"
  using assms by (simp add: Cons_nth_drop_Suc numeral_eq_Suc)

lemma length_AppendU32 [simp]: "length (AppendU32 v) = 4"
  by (simp add: AppendU32_def)

interpretation u32c: field_codec AppendU32 U32 "\<lambda>_. True"
proof
  fix v off bs rest
  assume le: "off \<le> length bs" and *: "drop off bs = AppendU32 v @ rest"
  from arg_cong [OF *, of length] le have len: "off + 4 \<le> length bs" by simp
  have "u32_at bs off = v"
    using * unfolding drop4_Cons [OF len]
    by (simp add: AppendU32_def u32_at_def u32_join [simplified])
  with len show "U32 bs off = Inr (v, off + length (AppendU32 v))" by (simp add: U32_def)
next
  fix v off off' bs
  assume le: "off \<le> length bs" and *: "U32 bs off = Inr (v, off')"
  then have len: "off + 4 \<le> length bs" and v: "v = u32_at bs off" and off': "off' = off + 4"
    by (auto simp: U32_def split: if_splits)
  have "AppendU32 v = [bs ! off, bs ! (off + 1), bs ! (off + 2), bs ! (off + 3)]"
    unfolding v AppendU32_def u32_at_def
    using u32_split [of "bs ! off" "bs ! (off + 1)" "bs ! (off + 2)" "bs ! (off + 3)"] by simp
  with len off' show "True \<and> drop off bs = AppendU32 v @ drop off' bs
      \<and> off' = off + length (AppendU32 v) \<and> off' \<le> length bs"
    by (simp add: drop4_Cons)
qed

definition ascii_ok :: "string \<Rightarrow> bool" where
  "ascii_ok s \<longleftrightarrow> length s \<le> 32 \<and> list_all (\<lambda>c. (of_char c :: nat) \<le> 0x7f) s"

lemma unat_of_char [simp]: "unat (of_char c :: u8) = of_char c"
proof -
  have "unat (of_nat (of_char c) :: u8) = of_char c mod 2 ^ LENGTH(8)" by (rule unat_of_nat)
  moreover have "(of_char c :: nat) < 256" by (metis of_char_of char_of_char mod_less_divisor zero_less_numeral)
  ultimately show ?thesis by (simp add: of_nat_of_char)
qed

lemma of_char_char_of_unat [simp]: "of_char (char_of (unat c)) = (c :: u8)"
proof -
  have "of_char (char_of (unat c)) = (of_nat (of_char (char_of (unat c))) :: u8)"
    by (simp only: of_nat_of_char)
  also have "\<dots> = of_nat (unat c mod 256)" by (simp only: of_char_of)
  also have "unat c mod 256 = unat c"
  proof -
    have "unat c < 2 ^ LENGTH(8)" by (rule unsigned_less)
    then show ?thesis by simp
  qed
  finally show ?thesis by simp
qed

lemma ascii_loop_Inr:
  "ascii_loop off cs = Inr s \<longleftrightarrow> list_all (\<lambda>c. (of_char c :: nat) \<le> 0x7f) s \<and> cs = map of_char s"
proof (induction cs arbitrary: off s)
  case Nil
  then show ?case by auto
next
  case (Cons c cs)
  have c: "(of_char (char_of (unat c)) :: nat) = unat c"
    by (metis of_char_char_of_unat unat_of_char)
  show ?case
    using Cons.IH
    by (cases s) (auto simp: expected_simps unit_arith c not_less)
qed

lemma unat_small_length: "n \<le> 1024 \<Longrightarrow> unat (of_nat n :: u32) = n"
  by (simp add: unat_of_nat)

interpretation asciic: field_codec AppendAscii Ascii ascii_ok
proof
  fix s off bs rest
  assume ok: "ascii_ok s" and le: "off \<le> length bs" and *: "drop off bs = AppendAscii s @ rest"
  let ?n = "of_nat (length s) :: u32"
  from ok have n: "unat ?n = length s" "\<not> ?n > 32"
    by (auto simp: ascii_ok_def unat_small_length unit_arith)
  from * have "drop off bs = AppendU32 ?n @ map of_char s @ rest" by (simp add: AppendAscii_def)
  note u = u32c.dec_next [OF TrueI le this]
  from u(3) have "length bs - (off + 4) = length s + length rest"
    by (metis length_drop length_append length_map length_AppendU32)
  moreover have "take (length s) (drop (off + 4) bs) = map of_char s" using u(3) by simp
  moreover have "ascii_loop (off + 4) (map of_char s) = Inr s"
    using ok by (simp add: ascii_loop_Inr ascii_ok_def)
  ultimately show "Ascii bs off = Inr (s, off + length (AppendAscii s))"
    using u(1) n by (simp add: Ascii_def AppendAscii_def)
next
  fix s off off' bs
  assume le: "off \<le> length bs" and *: "Ascii bs off = Inr (s, off')"
  then obtain count off1 where u: "U32 bs off = Inr (count, off1)" and c32: "\<not> count > 32"
    and cnt: "unat count \<le> length bs - off1"
    and s: "ascii_loop off1 (take (unat count) (drop off1 bs)) = Inr s" and off': "off' = off1 + unat count"
    by (auto simp: Ascii_def expected_simps split: if_splits)
  from u32c.enc_dec [OF le u] have e: "drop off bs = AppendU32 count @ drop off1 bs"
    "off1 = off + 4" "off1 \<le> length bs" by auto
  from s have sm: "take (unat count) (drop off1 bs) = map of_char s"
    and sl: "list_all (\<lambda>c. (of_char c :: nat) \<le> 0x7f) s" by (auto simp: ascii_loop_Inr)
  from arg_cong [OF sm, of length] cnt e(3) have len: "length s = unat count" by simp
  have "drop off1 bs = map of_char s @ drop off' bs"
    by (metis sm off' append_take_drop_id drop_drop add.commute)
  with e sl len c32 off' cnt show "ascii_ok s \<and> drop off bs = AppendAscii s @ drop off' bs
      \<and> off' = off + length (AppendAscii s) \<and> off' \<le> length bs"
    by (auto simp: ascii_ok_def AppendAscii_def unit_arith)
qed

lemma length_append_units [simp]: "length (append_units u) = 2 * length u"
  by (induction u) auto

lemma read_append_units [simp]: "read_units (append_units u) = u"
  by (induction u) (simp_all add: u16_join)

lemma append_read_units:
  "length bs = 2 * n \<Longrightarrow> append_units (read_units bs) = bs \<and> length (read_units bs) = n"
proof (induction n arbitrary: bs)
  case 0
  then show ?case by simp
next
  case (Suc n)
  then obtain lo hi r where bs: "bs = lo # hi # r" by (cases bs; cases "tl bs") auto
  with Suc.prems have "length r = 2 * n" by simp
  from Suc.IH [OF this] show ?case
    unfolding bs read_units.simps append_units.simps u16_split by simp
qed

definition utf16_ok :: "nat \<Rightarrow> u16string \<Rightarrow> bool" where
  "utf16_ok maximum u \<longleftrightarrow> length u \<le> maximum \<and> length u \<le> 1024 \<and> ValidUtf16 u"

interpretation utf16c: field_codec AppendUtf16 "\<lambda>bs off. Utf16 bs off (min 1024 m)" "utf16_ok m" for m
proof
  fix u off bs rest
  assume ok: "utf16_ok m u" and le: "off \<le> length bs" and *: "drop off bs = AppendUtf16 u @ rest"
  let ?n = "of_nat (length u) :: u32"
  from ok have n: "unat ?n = length u" "length u \<le> min 1024 m" "ValidUtf16 u"
    by (auto simp: utf16_ok_def unat_small_length)
  from * have "drop off bs = AppendU32 ?n @ append_units u @ rest" by (simp add: AppendUtf16_def)
  note r = u32c.dec_next [OF TrueI le this]
  from r(3) have "length bs - (off + 4) = 2 * length u + length rest"
    by (metis length_drop length_append length_append_units length_AppendU32)
  moreover have "take (2 * length u) (drop (off + 4) bs) = append_units u" using r(3) by simp
  moreover have "\<not> length u > min 1024 m" using n(2) by linarith
  ultimately show "Utf16 bs off (min 1024 m) = Inr (u, off + length (AppendUtf16 u))"
    using r(1) n(1,3) by (simp add: Utf16_def AppendUtf16_def Let_def)
next
  fix u off off' bs
  assume le: "off \<le> length bs" and *: "Utf16 bs off (min 1024 m) = Inr (u, off')"
  then obtain count off1 where r: "U32 bs off = Inr (count, off1)" and cm: "unat count \<le> min 1024 m"
    and cnt: "unat count \<le> (length bs - off1) div 2"
    and u: "u = read_units (take (2 * unat count) (drop off1 bs))" and valid: "ValidUtf16 u"
    and off': "off' = off1 + 2 * unat count"
    by (auto simp: Utf16_def expected_simps Let_def not_less split: if_splits)
  from u32c.enc_dec [OF le r] have e: "drop off bs = AppendU32 count @ drop off1 bs"
    "off1 = off + 4" "off1 \<le> length bs" by auto
  from cnt e(3) have fit: "2 * unat count \<le> length bs - off1" by linarith
  then have "length (take (2 * unat count) (drop off1 bs)) = 2 * unat count" by simp
  from append_read_units [OF this] have a: "append_units u = take (2 * unat count) (drop off1 bs)"
    "length u = unat count" by (simp_all add: u)
  have "drop off1 bs = append_units u @ drop off' bs"
    by (metis a(1) off' append_take_drop_id drop_drop add.commute)
  moreover have "AppendU32 (of_nat (length u)) = AppendU32 count" by (simp add: a(2))
  ultimately show "utf16_ok m u \<and> drop off bs = AppendUtf16 u @ drop off' bs
      \<and> off' = off + length (AppendUtf16 u) \<and> off' \<le> length bs"
    using e valid cm fit off' a(2) by (auto simp: utf16_ok_def AppendUtf16_def)
qed

definition entry_storable :: "profile_entry \<Rightarrow> bool" where
  "entry_storable e \<longleftrightarrow> ascii_ok (pe_id e) \<and> utf16_ok kMaximumLabelUnits (pe_label e)
     \<and> utf16_ok kMaximumPathUnits (pe_root e) \<and> pe_layout e \<noteq> OtherLayout"

lemma maxima [simp]: "min 1024 kMaximumLabelUnits = kMaximumLabelUnits"
    "min 1024 kMaximumPathUnits = kMaximumPathUnits"
  by (simp_all add: kMaximumLabelUnits_def kMaximumPathUnits_def)

interpretation entryc: field_codec AppendEntry "decode_entry i" entry_storable for i
proof
  fix e off bs rest
  assume ok: "entry_storable e" and le: "off \<le> length bs" and *: "drop off bs = AppendEntry e @ rest"
  let ?tag = "if pe_layout e = ManagedExternalV1 then 1 else 2 :: u32"
  from * have e0: "drop off bs = AppendAscii (pe_id e) @ AppendUtf16 (pe_label e)
      @ AppendUtf16 (pe_root e) @ AppendU32 ?tag @ rest"
    by (simp add: AppendEntry_def)
  from ok have o: "ascii_ok (pe_id e)" "utf16_ok kMaximumLabelUnits (pe_label e)"
    "utf16_ok kMaximumPathUnits (pe_root e)" and lay: "pe_layout e \<noteq> OtherLayout"
    by (auto simp: entry_storable_def)
  note a = asciic.dec_next [OF o(1) le e0]
  note b = utf16c.dec_next [OF o(2) a(2,3), simplified]
  note c = utf16c.dec_next [OF o(3) b(2,3), simplified]
  note d = u32c.dec_next [OF TrueI c(2,3)]
  note reads = a(1) b(1) c(1) d(1)
  show "decode_entry i bs off = Inr (e, off + length (AppendEntry e))"
  proof -
    have "\<lparr>pe_id = pe_id e, pe_label = pe_label e, pe_root = pe_root e,
        pe_layout = (if ?tag = 1 then ManagedExternalV1 else LegacyBundleUserReadOnlyV1)\<rparr> = e"
      using lay by (cases "pe_layout e") simp_all
    then show ?thesis
      unfolding decode_entry_def reads bindE.simps prod.case by (simp add: AppendEntry_def)
  qed
next
  fix e off off' bs
  assume le: "off \<le> length bs" and *: "decode_entry i bs off = Inr (e, off')"
  then obtain ident lbl rt lay off1 off2 off3 where
      a: "Ascii bs off = Inr (ident, off1)" and b: "Utf16 bs off1 kMaximumLabelUnits = Inr (lbl, off2)"
    and c: "Utf16 bs off2 kMaximumPathUnits = Inr (rt, off3)" and d: "U32 bs off3 = Inr (lay, off')"
    and lay: "lay = 1 \<or> lay = 2"
    and e: "e = \<lparr>pe_id = ident, pe_label = lbl, pe_root = rt,
        pe_layout = (if lay = 1 then ManagedExternalV1 else LegacyBundleUserReadOnlyV1)\<rparr>"
    by (auto simp: decode_entry_def expected_simps split: if_splits)
  from asciic.enc_dec [OF le a] have a': "ascii_ok ident" "off1 \<le> length bs"
    "drop off bs = AppendAscii ident @ drop off1 bs" "off1 = off + length (AppendAscii ident)" by auto
  from utf16c.enc_dec [of off1 bs kMaximumLabelUnits, simplified, OF a'(2) b] have b':
    "utf16_ok kMaximumLabelUnits lbl" "off2 \<le> length bs"
    "drop off1 bs = AppendUtf16 lbl @ drop off2 bs" "off2 = off1 + length (AppendUtf16 lbl)" by auto
  from utf16c.enc_dec [of off2 bs kMaximumPathUnits, simplified, OF b'(2) c] have c':
    "utf16_ok kMaximumPathUnits rt" "off3 \<le> length bs"
    "drop off2 bs = AppendUtf16 rt @ drop off3 bs" "off3 = off2 + length (AppendUtf16 rt)" by auto
  from u32c.enc_dec [OF c'(2) d] have d': "off' \<le> length bs"
    "drop off3 bs = AppendU32 lay @ drop off' bs" "off' = off3 + 4" by auto
  show "entry_storable e \<and> drop off bs = AppendEntry e @ drop off' bs
      \<and> off' = off + length (AppendEntry e) \<and> off' \<le> length bs"
    using a' b' c' d' lay by (auto simp: e entry_storable_def AppendEntry_def)
qed

subsection \<open>The whole library\<close>

lemma decode_entries_enc:
  "list_all entry_storable es \<Longrightarrow> off \<le> length bs \<Longrightarrow>
     drop off bs = concat (map AppendEntry es) @ rest \<Longrightarrow>
     decode_entries i (length es) bs off = Inr (es, off + length (concat (map AppendEntry es)))
     \<and> drop (off + length (concat (map AppendEntry es))) bs = rest
     \<and> off + length (concat (map AppendEntry es)) \<le> length bs"
proof (induction es arbitrary: i off)
  case Nil
  then show ?case by simp
next
  case (Cons e es)
  from Cons.prems have "entry_storable e"
    and "drop off bs = AppendEntry e @ concat (map AppendEntry es) @ rest" by simp_all
  note n = entryc.dec_next [OF this(1) Cons.prems(2) this(2)]
  from Cons.prems(1) have "list_all entry_storable es" by simp
  from Cons.IH [OF this n(2,3)] n(1) show ?case by (simp add: add.assoc)
qed

lemma decode_entries_dec:
  "decode_entries i n bs off = Inr (es, off') \<Longrightarrow> off \<le> length bs \<Longrightarrow>
     length es = n \<and> list_all entry_storable es
     \<and> drop off bs = concat (map AppendEntry es) @ drop off' bs
     \<and> off' = off + length (concat (map AppendEntry es)) \<and> off' \<le> length bs"
proof (induction n arbitrary: i off es)
  case 0
  then show ?case by simp
next
  case (Suc n)
  from Suc.prems(1) obtain e es1 off1 where a: "decode_entry i bs off = Inr (e, off1)"
    and b: "decode_entries (Suc i) n bs off1 = Inr (es1, off')" and es: "es = e # es1"
    by (auto simp: expected_simps)
  from entryc.enc_dec [OF Suc.prems(2) a] Suc.IH [OF b] show ?case by (simp add: es)
qed

lemma valid_id_loop_digits: "valid_id_loop s b \<Longrightarrow> list_all id_digit s"
  by (induction s b rule: valid_id_loop.induct) (auto split: if_splits)

lemma id_digit_ascii: "id_digit c \<Longrightarrow> (of_char c :: nat) \<le> 0x7f"
  by (auto simp: id_digit_def less_eq_char_def)

lemma ValidOpaqueId_ascii: "ValidOpaqueId s \<Longrightarrow> ascii_ok s"
  unfolding ascii_ok_def ValidOpaqueId_def list_all_iff
  by (metis id_digit_ascii list_all_iff order_refl valid_id_loop_digits)

lemma ascii_ok_Nil [simp]: "ascii_ok []"
  by (simp add: ascii_ok_def)

lemma storage_entries_None:
  "storage_entries es = None \<longleftrightarrow>
     list_all (\<lambda>e. length (pe_id e) \<le> 32 \<and> utf16_ok kMaximumLabelUnits (pe_label e)
        \<and> utf16_ok kMaximumPathUnits (pe_root e)) es"
  by (induction es) (auto simp: utf16_ok_def kMaximumLabelUnits_def kMaximumPathUnits_def)

lemma ValidateStorageModel_None:
  "ValidateStorageModel library = None \<longleftrightarrow>
     pl_version library = kLibraryVersion \<and> length (pl_entries library) \<le> kMaximumProfiles
     \<and> (pl_selected library = [] \<or> ValidOpaqueId (pl_selected library))
     \<and> storage_entries (pl_entries library) = None
     \<and> (pl_entries library = []
        \<or> ValidateLibrary (library\<lparr>pl_selected := pe_id (hd (pl_entries library))\<rparr>) = None)"
  by (auto simp: ValidateStorageModel_def Let_def split: option.splits)

definition storable :: "profile_library \<Rightarrow> bool" where
  "storable library \<longleftrightarrow> pl_version library = kLibraryVersion
     \<and> length (pl_entries library) \<le> kMaximumProfiles \<and> ascii_ok (pl_selected library)
     \<and> list_all entry_storable (pl_entries library)"

lemma ValidateStorageModel_storable:
  assumes "ValidateStorageModel library = None"
  shows "storable library"
proof -
  have "list_all entry_ok (pl_entries library)"
    using assms by (cases "pl_entries library") (auto simp: ValidateStorageModel_None ValidateLibrary_None)
  moreover have "ascii_ok (pl_selected library)"
    using assms by (auto simp: ValidateStorageModel_None ValidOpaqueId_ascii)
  ultimately show ?thesis
    using assms
    by (auto simp: storable_def ValidateStorageModel_None storage_entries_None list_all_iff
        entry_storable_def entry_ok_def ValidOpaqueId_ascii)
qed

definition library_bytes :: "profile_library \<Rightarrow> bytes" where
  "library_bytes library = kLibraryMagic @ AppendU32 (pl_version library)
     @ AppendU32 (of_nat (length (pl_entries library))) @ AppendAscii (pl_selected library)
     @ concat (map AppendEntry (pl_entries library))"

lemma length_AppendEntry: "entry_storable e \<Longrightarrow> length (AppendEntry e) \<le> 2256"
  by (auto simp: entry_storable_def AppendEntry_def AppendAscii_def AppendUtf16_def ascii_ok_def
      utf16_ok_def kMaximumLabelUnits_def kMaximumPathUnits_def)

lemma length_entries:
  "list_all entry_storable es \<Longrightarrow> length (concat (map AppendEntry es)) \<le> 2256 * length es"
proof (induction es)
  case (Cons e es)
  then have "length (AppendEntry e) \<le> 2256" by (intro length_AppendEntry) simp
  with Cons show ?case by simp
qed simp

lemma length_library_bytes: "storable library \<Longrightarrow> length (library_bytes library) \<le> 144436"
  using length_entries [of "pl_entries library"]
  by (auto simp: storable_def library_bytes_def AppendAscii_def ascii_ok_def kMaximumProfiles_def
      kLibraryMagic_def)

lemma EncodeLibrary_eq:
  "EncodeLibrary library =
     (case ValidateStorageModel library of Some e \<Rightarrow> Inl e | None \<Rightarrow> Inr (library_bytes library))"
proof (cases "ValidateStorageModel library")
  case None
  from length_library_bytes [OF ValidateStorageModel_storable [OF None]]
  show ?thesis
    by (simp add: EncodeLibrary_def None library_bytes_def [symmetric] Let_def kMaximumLibraryBytes_def)
qed (simp add: EncodeLibrary_def)

lemma magic_mismatch_None:
  "length ms \<le> length bs \<Longrightarrow> magic_mismatch i bs ms = None \<longleftrightarrow> take (length ms) bs = ms"
  by (induction i bs ms rule: magic_mismatch.induct) auto

lemma length_magic [simp]: "length kLibraryMagic = 8"
  by (simp add: kLibraryMagic_def)

lemma DecodeLibrary_bytes:
  assumes "ValidateStorageModel library = None"
  shows "DecodeLibrary (library_bytes library) = Inr library"
proof -
  let ?bs = "library_bytes library" and ?n = "of_nat (length (pl_entries library)) :: u32"
  have st: "storable library" by (rule ValidateStorageModel_storable [OF assms])
  then have len: "length ?bs \<le> kMaximumLibraryBytes"
    using length_library_bytes [OF st] by (simp add: kMaximumLibraryBytes_def)
  have n: "unat ?n = length (pl_entries library)" "\<not> unat ?n > kMaximumProfiles"
    using st by (auto simp: storable_def kMaximumProfiles_def unat_small_length)
  have "8 \<le> length ?bs" and d8: "drop 8 ?bs = AppendU32 (pl_version library) @ AppendU32 ?n
      @ AppendAscii (pl_selected library) @ concat (map AppendEntry (pl_entries library)) @ []"
    by (simp_all add: library_bytes_def)
  note a = u32c.dec_next [OF TrueI this]
  note b = u32c.dec_next [OF TrueI a(2,3)]
  have "ascii_ok (pl_selected library)" and es: "list_all entry_storable (pl_entries library)"
    and v: "pl_version library = kLibraryVersion" using st by (auto simp: storable_def)
  note c = asciic.dec_next [OF this(1) b(2,3)]
  note d = decode_entries_enc [OF es c(2,3), of 0]
  have magic: "magic_mismatch 0 ?bs kLibraryMagic = None"
    by (subst magic_mismatch_None) (simp_all add: library_bytes_def)
  from d have "8 + 4 + 4 + length (AppendAscii (pl_selected library))
      + length (concat (map AppendEntry (pl_entries library))) = length ?bs"
    by (simp add: library_bytes_def)
  moreover have "ValidateStorageModel \<lparr>pl_version = kLibraryVersion, pl_entries = pl_entries library,
      pl_selected = pl_selected library\<rparr> = None" using v assms by (cases library) simp
  ultimately show ?thesis
    using a(1) b(1) c(1) d v n len magic assms
    by (simp add: DecodeLibrary_def Let_def)
qed

lemma decode_steps:
  assumes "DecodeLibrary bs = Inr library"
  shows "8 \<le> length bs \<and> magic_mismatch 0 bs kLibraryMagic = None \<and>
    (\<exists>version off1 count off2 selected off3 es.
       U32 bs 8 = Inr (version, off1) \<and> U32 bs off1 = Inr (count, off2)
       \<and> Ascii bs off2 = Inr (selected, off3)
       \<and> decode_entries 0 (unat count) bs off3 = Inr (es, length bs)
       \<and> library = \<lparr>pl_version = version, pl_entries = es, pl_selected = selected\<rparr>)
    \<and> ValidateStorageModel library = None"
proof -
  from assms have "8 \<le> length bs" and magic: "magic_mismatch 0 bs kLibraryMagic = None"
    by (auto simp: DecodeLibrary_def split: if_splits option.splits)
  with assms show ?thesis
    by (clarsimp simp: DecodeLibrary_def expected_simps Let_def split: if_splits option.splits)
qed

lemma DecodeLibrary_Inr:
  assumes "DecodeLibrary bs = Inr library"
  shows "bs = library_bytes library \<and> ValidateStorageModel library = None"
proof -
  from assms obtain version off1 count off2 selected off3 es where
      len: "8 \<le> length bs" and magic: "magic_mismatch 0 bs kLibraryMagic = None"
    and a: "U32 bs 8 = Inr (version, off1)" and b: "U32 bs off1 = Inr (count, off2)"
    and c: "Ascii bs off2 = Inr (selected, off3)"
    and d: "decode_entries 0 (unat count) bs off3 = Inr (es, length bs)"
    and lib: "library = \<lparr>pl_version = version, pl_entries = es, pl_selected = selected\<rparr>"
    and ok: "ValidateStorageModel library = None"
    using decode_steps by blast
  from magic len have m: "kLibraryMagic @ drop 8 bs = bs"
    by (metis append_take_drop_id length_magic magic_mismatch_None)
  from u32c.enc_dec [OF len a] have a': "AppendU32 version @ drop off1 bs = drop 8 bs"
    "off1 \<le> length bs" by auto
  from u32c.enc_dec [OF a'(2) b] have b': "AppendU32 count @ drop off2 bs = drop off1 bs"
    "off2 \<le> length bs" by auto
  from asciic.enc_dec [OF b'(2) c] have c': "AppendAscii selected @ drop off3 bs = drop off2 bs"
    "off3 \<le> length bs" by auto
  from decode_entries_dec [OF d c'(2)] have d': "of_nat (length es) = count"
    "concat (map AppendEntry es) = drop off3 bs" by auto
  show ?thesis
    using ok by (simp add: lib library_bytes_def d' c'(1) b'(1) a'(1) m)
qed

lemma entries_prefix_free:
  "list_all entry_storable xs \<Longrightarrow> list_all entry_storable ys \<Longrightarrow> length xs = length ys \<Longrightarrow>
     concat (map AppendEntry xs) @ r = concat (map AppendEntry ys) @ s \<Longrightarrow> xs = ys \<and> r = s"
proof (induction xs arbitrary: ys)
  case Nil
  then show ?case by simp
next
  case (Cons x xs)
  then obtain y ys' where ys: "ys = y # ys'" by (cases ys) auto
  from Cons.prems ys have
    "x = y \<and> concat (map AppendEntry xs) @ r = concat (map AppendEntry ys') @ s"
    by (intro entryc.enc_prefix_free) auto
  with Cons.prems Cons.IH [of ys'] ys show ?case by simp
qed

lemma library_bytes_prefix_free:
  assumes "storable x" "storable y" "library_bytes x @ r = library_bytes y @ s"
  shows "x = y \<and> r = s"
proof -
  let ?n = "\<lambda>l. of_nat (length (pl_entries l)) :: u32"
  let ?tail = "\<lambda>l r. concat (map AppendEntry (pl_entries l)) @ r"
  from assms(3) have "AppendU32 (pl_version x) @ AppendU32 (?n x) @ AppendAscii (pl_selected x) @ ?tail x r
    = AppendU32 (pl_version y) @ AppendU32 (?n y) @ AppendAscii (pl_selected y) @ ?tail y s"
    by (simp add: library_bytes_def)
  then have "AppendU32 (?n x) @ AppendAscii (pl_selected x) @ ?tail x r
    = AppendU32 (?n y) @ AppendAscii (pl_selected y) @ ?tail y s" and v: "pl_version x = pl_version y"
    using u32c.enc_prefix_free by blast+
  then have "?n x = ?n y" and asc: "AppendAscii (pl_selected x) @ ?tail x r = AppendAscii (pl_selected y) @ ?tail y s"
    using u32c.enc_prefix_free by blast+
  from arg_cong [OF this(1), of unat] assms(1,2) have len: "length (pl_entries x) = length (pl_entries y)"
    by (simp add: storable_def kMaximumProfiles_def unat_small_length)
  from asc assms(1,2) have "pl_selected x = pl_selected y" "?tail x r = ?tail y s"
    using asciic.enc_prefix_free [of "pl_selected x" "pl_selected y"] by (auto simp: storable_def)
  with entries_prefix_free [OF _ _ len] assms(1,2) v show ?thesis
    by (simp add: storable_def)
qed
subsection \<open>Properties\<close>

text \<open>C1: encoding and decoding are inverse to each other, both ways: a byte string decodes to a
  library exactly when it is that library's encoding. The format is canonical.\<close>

theorem EncodeLibrary_DecodeLibrary:
  "EncodeLibrary library = Inr bs \<longleftrightarrow> DecodeLibrary bs = Inr library"
proof
  assume "EncodeLibrary library = Inr bs"
  then have "ValidateStorageModel library = None" "bs = library_bytes library"
    by (auto simp: EncodeLibrary_eq split: option.splits)
  then show "DecodeLibrary bs = Inr library" by (simp add: DecodeLibrary_bytes)
next
  assume "DecodeLibrary bs = Inr library"
  then show "EncodeLibrary library = Inr bs" by (auto simp: EncodeLibrary_eq dest!: DecodeLibrary_Inr)
qed

text \<open>Encoding fails only with the storage model's own error; a valid model always encodes, to at
  most 144436 bytes, so the 256 KiB limit of the format is never reached.\<close>

theorem EncodeLibrary_total:
  "case ValidateStorageModel library of
     Some e \<Rightarrow> EncodeLibrary library = Inl e
   | None \<Rightarrow> (\<exists>bs. EncodeLibrary library = Inr bs \<and> length bs \<le> 144436
       \<and> 144436 < kMaximumLibraryBytes)"
  by (auto simp: EncodeLibrary_eq kMaximumLibraryBytes_def length_library_bytes
      ValidateStorageModel_storable split: option.splits)

text \<open>C4: no strict prefix of an accepted file is accepted: a torn write is always detected.\<close>

theorem DecodeLibrary_truncated:
  assumes "DecodeLibrary bs = Inr library" and "n < length bs"
  shows "\<not> isInr (DecodeLibrary (take n bs))"
proof
  assume "isInr (DecodeLibrary (take n bs))"
  then obtain other where "DecodeLibrary (take n bs) = Inr other"
    by (cases "DecodeLibrary (take n bs)") auto
  then have o: "take n bs = library_bytes other" "storable other"
    by (auto dest!: DecodeLibrary_Inr ValidateStorageModel_storable)
  from assms(1) have l: "bs = library_bytes library" "storable library"
    by (auto dest!: DecodeLibrary_Inr ValidateStorageModel_storable)
  have "library_bytes other @ drop n bs = library_bytes library @ []"
    using o(1) l(1) by (metis append_take_drop_id append_Nil2)
  from library_bytes_prefix_free [OF o(2) l(2) this] assms(2) show False by simp
qed

lemma example_library_stored: "DecodeLibrary (library_bytes example_library) = Inr example_library"
  by (rule DecodeLibrary_bytes) code_simp

theorem DecodeLibrary_truncated_witness:
  "isInr (DecodeLibrary (library_bytes example_library))
   \<and> \<not> isInr (DecodeLibrary (take 20 (library_bytes example_library)))"
proof -
  have "20 < length (library_bytes example_library)"
    by (simp add: library_bytes_def example_library_def example_id_def AppendAscii_def)
  from DecodeLibrary_truncated [OF example_library_stored this] example_library_stored
  show ?thesis by simp
qed

text \<open>A decoded library can be launched from exactly when its stored selection is an entry: the
  repair states (empty, unselected, dangling) are the ones the launch validation refuses.\<close>

theorem decoded_selection_state:
  assumes "DecodeLibrary bs = Inr library"
  shows "ValidateLibrary library = None \<longleftrightarrow> GetStoredSelectionState library = Selected"
proof -
  from assms have ok: "ValidateStorageModel library = None" by (auto dest: DecodeLibrary_Inr)
  have nil: "\<not> ValidOpaqueId []" by (simp add: ValidOpaqueId_def)
  show ?thesis
  proof (cases "pl_entries library = []")
    case True
    then show ?thesis by (auto simp: ValidateLibrary_None GetStoredSelectionState_def)
  next
    case False
    with ok nil show ?thesis
      by (auto simp: ValidateStorageModel_None ValidateLibrary_None GetStoredSelectionState_def
          list_ex_iff image_iff) metis
  qed
qed

theorem decoded_selection_state_witness:
  "DecodeLibrary (library_bytes example_library) = Inr example_library
   \<and> GetStoredSelectionState example_library = Selected \<and> ValidateLibrary example_library = None"
proof -
  have "GetStoredSelectionState example_library = Selected" by code_simp
  with decoded_selection_state [OF example_library_stored] example_library_stored show ?thesis by simp
qed

end
