(* ===== verification/WorkerIteration.thy ===== *)
theory WorkerIteration
  imports Prelude "HOL-Library.Multiset"
begin

section \<open>Worker iteration inventory (\<open>mcla_worker_iteration_core.h\<close>)\<close>

text \<open>
  The per-worker state machine that pairs a validated wait with the render that consumes it.
  \<open>Worker\<close> is a record of its data members; each method returns the new worker and the
  \<open>Transition\<close> it reports. \<open>Check\<close> is a step of its own, because it advances the clock or
  faults before the method's own tests. 64-bit counters wrap as in the code.
\<close>

subsection \<open>Model\<close>

record wkey =
  ky_thread_epoch :: u64
  ky_worker_serial :: u64
  ky_lane_context :: u64
  ky_lane_base :: u64
  ky_owner :: u32
  ky_object_epoch :: u64

datatype outcome = OSuccess | OTimeout | OApc | OFailed | OUnknown

record validated_wait =
  vw_operation :: u64
  vw_object_epoch :: u64
  vw_outcome :: outcome
  vw_exactly_one :: bool

datatype wevent = EIgnored | EEntered | EWaitEntered | EWaitEligible | EWaitRejected
  | EDispatchEntered | ERenderConsumed | EDispatchCompleted | EExited | EFrozen | EFault

datatype reason = RNone | RInactive | RTerminal | RBadKey | RClock | RState | RIdentity | RCaller
  | RObject | RExtraOperation | RMissingOperation | ROutcome | RNullHandle | RWaitUnsuccessful
  | RUnwind | RDuplicateRender | RNextWait | RNoRender | RWorkerExit | RFreeze | RObserverFault

record transition =
  tr_event :: wevent
  tr_reason :: reason
  tr_helper :: u64
  tr_operation :: u64
  tr_dispatch :: u64
  tr_phase :: u64
  tr_retired :: u64
  tr_retire_reason :: reason
  tr_eligible :: bool
  tr_phase_bound :: bool

record wcounts =
  wc_waits :: u64
  wc_eligible :: u64
  wc_rejected :: u64
  wc_retired :: u64
  wc_renders :: u64
  wc_unbound :: u64
  wc_no_render :: u64

datatype wstate = SIdle | SWait | SDispatch

record worker =
  wk_key :: wkey
  wk_state :: wstate
  wk_last_qpc :: u64
  wk_last_helper :: u64
  wk_last_operation :: u64
  wk_last_dispatch :: u64
  wk_last_phase :: u64
  wk_helper :: u64
  wk_operation :: u64
  wk_dispatch :: u64
  wk_eligible :: u64
  wk_entered :: bool
  wk_exited :: bool
  wk_frozen :: bool
  wk_failed :: bool
  wk_null_handle :: bool
  wk_render_seen :: bool
  wk_counts :: wcounts

definition kWaitCaller :: u64 where "kWaitCaller = 0x82305EB8"
definition kRenderCaller :: u64 where "kRenderCaller = 0x82305F80"

definition new_worker :: worker where
  "new_worker = \<lparr>wk_key = \<lparr>ky_thread_epoch = 0, ky_worker_serial = 0, ky_lane_context = 0,
       ky_lane_base = 0, ky_owner = 0, ky_object_epoch = 0\<rparr>,
     wk_state = SIdle, wk_last_qpc = 0, wk_last_helper = 0, wk_last_operation = 0,
     wk_last_dispatch = 0, wk_last_phase = 0, wk_helper = 0, wk_operation = 0, wk_dispatch = 0,
     wk_eligible = 0, wk_entered = False, wk_exited = False, wk_frozen = False, wk_failed = False,
     wk_null_handle = False, wk_render_seen = False,
     wk_counts = \<lparr>wc_waits = 0, wc_eligible = 0, wc_rejected = 0, wc_retired = 0, wc_renders = 0,
       wc_unbound = 0, wc_no_render = 0\<rparr>\<rparr>"

definition terminal :: "worker \<Rightarrow> bool" where
  "terminal w \<longleftrightarrow> wk_failed w \<or> wk_frozen w \<or> wk_exited w"

definition valid_key :: "wkey \<Rightarrow> bool" where
  "valid_key k \<longleftrightarrow> ky_thread_epoch k \<noteq> 0 \<and> ky_worker_serial k \<noteq> 0 \<and> ky_lane_context k \<noteq> 0
     \<and> ky_lane_base k \<noteq> 0 \<and> ky_owner k \<noteq> 0 \<and> ky_owner k \<le> 0xFFFFFFFF - 88 \<and> ky_object_epoch k \<noteq> 0"

text \<open>\<open>Clock\<close>: \<open>None\<close> is false; otherwise the worker with the advanced clock.\<close>

definition advance_clock :: "worker \<Rightarrow> u64 \<Rightarrow> worker option" where
  "advance_clock w qpc =
     (if qpc = 0 \<or> qpc > kMaxQpc \<or> qpc < wk_last_qpc w then None else Some (w\<lparr>wk_last_qpc := qpc\<rparr>))"

definition record_tr :: "worker \<Rightarrow> wevent \<Rightarrow> reason \<Rightarrow> transition" where
  "record_tr w e r = \<lparr>tr_event = e, tr_reason = r, tr_helper = wk_helper w,
     tr_operation = wk_operation w, tr_dispatch = wk_dispatch w, tr_phase = 0, tr_retired = 0,
     tr_retire_reason = RNone, tr_eligible = (wk_eligible w \<noteq> 0), tr_phase_bound = False\<rparr>"

definition retire :: "worker \<Rightarrow> transition \<Rightarrow> reason \<Rightarrow> worker \<times> transition" where
  "retire w t r =
     (if wk_eligible w \<noteq> 0 then
        (w\<lparr>wk_counts := (wk_counts w)\<lparr>wc_retired := wc_retired (wk_counts w) + 1\<rparr>, wk_eligible := 0\<rparr>,
         t\<lparr>tr_retired := wk_eligible w, tr_retire_reason := r\<rparr>)
      else (w, t))"

definition clear_wait :: "worker \<Rightarrow> worker" where
  "clear_wait w = w\<lparr>wk_helper := 0, wk_operation := 0, wk_null_handle := False\<rparr>"

definition fault :: "worker \<Rightarrow> reason \<Rightarrow> worker \<times> transition" where
  "fault w r =
     (if terminal w then (w, record_tr w EIgnored RTerminal)
      else case retire w (record_tr w EFault r) r of
        (w', t) \<Rightarrow> (w'\<lparr>wk_failed := True\<rparr>, t\<lparr>tr_eligible := False\<rparr>))"

definition check :: "worker \<Rightarrow> wkey \<Rightarrow> u64 \<Rightarrow> (worker \<times> transition) + worker" where
  "check w key qpc =
     (if terminal w then Inl (w, record_tr w EIgnored RTerminal)
      else if \<not> wk_entered w then Inl (fault w RInactive)
      else if key \<noteq> wk_key w then Inl (fault w RBadKey)
      else case advance_clock w qpc of None \<Rightarrow> Inl (fault w RClock) | Some w' \<Rightarrow> Inr w')"

definition worker_enter :: "worker \<Rightarrow> wkey \<Rightarrow> u64 \<Rightarrow> worker \<times> transition" where
  "worker_enter w key qpc =
     (if wk_entered w \<or> wk_failed w \<or> wk_frozen w \<or> wk_exited w then fault w RState
      else if \<not> valid_key key then fault w RBadKey
      else case advance_clock w qpc of
        None \<Rightarrow> fault w RClock
      | Some w' \<Rightarrow>
          let w'' = w'\<lparr>wk_key := key, wk_entered := True\<rparr> in (w'', record_tr w'' EEntered RNone))"

definition wait_enter :: "worker \<Rightarrow> wkey \<Rightarrow> u64 \<Rightarrow> u64 \<Rightarrow> u64 \<Rightarrow> u32 \<Rightarrow> worker \<times> transition" where
  "wait_enter w0 key qpc helper_id caller_lr guest_handle =
     (case check w0 key qpc of Inl failure \<Rightarrow> failure
      | Inr w \<Rightarrow>
        if wk_state w \<noteq> SIdle then fault w RState
        else if caller_lr \<noteq> kWaitCaller then fault w RCaller
        else if helper_id = 0 \<or> helper_id \<le> wk_last_helper w then fault w RIdentity
        else case retire w (record_tr w EWaitEntered RNone) RNextWait of
          (w1, t) \<Rightarrow>
            (w1\<lparr>wk_helper := helper_id, wk_last_helper := helper_id, wk_operation := 0,
                wk_null_handle := (guest_handle = 0), wk_state := SWait,
                wk_counts := (wk_counts w1)\<lparr>wc_waits := wc_waits (wk_counts w1) + 1\<rparr>\<rparr>,
             t\<lparr>tr_helper := helper_id, tr_operation := 0, tr_eligible := False\<rparr>))"

text \<open>The tests of \<open>WaitExit\<close> on a supplied observation of a non-null handle.\<close>

definition observation_fault :: "worker \<Rightarrow> validated_wait option \<Rightarrow> reason option" where
  "observation_fault w observation =
     (case observation of
        None \<Rightarrow> Some RMissingOperation
      | Some v \<Rightarrow>
          if \<not> vw_exactly_one v then Some RExtraOperation
          else if vw_object_epoch v \<noteq> ky_object_epoch (wk_key w) then Some RObject
          else if vw_operation v = 0 \<or> vw_operation v \<le> wk_last_operation w then Some RIdentity
          else if vw_outcome v = OUnknown then Some ROutcome
          else None)"

definition wait_exit :: "worker \<Rightarrow> wkey \<Rightarrow> u64 \<Rightarrow> u64 \<Rightarrow> bool \<Rightarrow> validated_wait option \<Rightarrow>
    worker \<times> transition" where
  "wait_exit w0 key qpc helper_id normal_return observation =
     (case check w0 key qpc of Inl failure \<Rightarrow> failure
      | Inr w \<Rightarrow>
        if wk_state w \<noteq> SWait \<or> helper_id \<noteq> wk_helper w then fault w RState
        else if \<not> normal_return then fault w RUnwind
        else if wk_null_handle w \<and> observation \<noteq> None then fault w RObject
        else case (if wk_null_handle w then None else observation_fault w observation) of
          Some r \<Rightarrow> fault w r
        | None \<Rightarrow>
          let op = (case observation of None \<Rightarrow> 0 | Some v \<Rightarrow> vw_operation v);
              w1 = (if wk_null_handle w then w else w\<lparr>wk_operation := op, wk_last_operation := op\<rparr>);
              w2 = w1\<lparr>wk_state := SIdle\<rparr> in
          if wk_null_handle w2 \<or> map_option vw_outcome observation \<noteq> Some OSuccess then
            let w3 = w2\<lparr>wk_counts := (wk_counts w2)\<lparr>wc_rejected := wc_rejected (wk_counts w2) + 1\<rparr>\<rparr> in
            (clear_wait w3, record_tr w3 EWaitRejected
               (if wk_null_handle w3 then RNullHandle else RWaitUnsuccessful))
          else
            let w3 = w2\<lparr>wk_eligible := wk_operation w2,
                        wk_counts := (wk_counts w2)\<lparr>wc_eligible := wc_eligible (wk_counts w2) + 1\<rparr>\<rparr> in
            (w3, record_tr w3 EWaitEligible RNone))"

definition dispatch_enter :: "worker \<Rightarrow> wkey \<Rightarrow> u64 \<Rightarrow> u64 \<Rightarrow> u64 \<Rightarrow> u32 \<Rightarrow> worker \<times> transition" where
  "dispatch_enter w0 key qpc dispatch_id caller_lr closure_address =
     (case check w0 key qpc of Inl failure \<Rightarrow> failure
      | Inr w \<Rightarrow>
        if wk_state w \<noteq> SIdle then fault w RState
        else if caller_lr \<noteq> kRenderCaller then fault w RCaller
        else if closure_address \<noteq> ky_owner (wk_key w) + 88 then fault w RObject
        else if dispatch_id = 0 \<or> dispatch_id \<le> wk_last_dispatch w then fault w RIdentity
        else let w1 = w\<lparr>wk_dispatch := dispatch_id, wk_last_dispatch := dispatch_id,
                        wk_state := SDispatch, wk_render_seen := False\<rparr> in
          (w1, record_tr w1 EDispatchEntered RNone))"

definition render :: "worker \<Rightarrow> wkey \<Rightarrow> u64 \<Rightarrow> u64 \<Rightarrow> u64 \<Rightarrow> worker \<times> transition" where
  "render w0 key qpc phase_call_id caller_lr =
     (case check w0 key qpc of Inl failure \<Rightarrow> failure
      | Inr w \<Rightarrow>
        if wk_state w \<noteq> SDispatch then fault w RState
        else if caller_lr \<noteq> kRenderCaller then fault w RCaller
        else if wk_render_seen w then fault w RDuplicateRender
        else if phase_call_id \<noteq> 0 \<and> phase_call_id \<le> wk_last_phase w then fault w RIdentity
        else
          let w1 = (if phase_call_id \<noteq> 0 then w\<lparr>wk_last_phase := phase_call_id\<rparr> else w);
              w2 = w1\<lparr>wk_render_seen := True,
                      wk_counts := (wk_counts w1)\<lparr>wc_renders := wc_renders (wk_counts w1) + 1\<rparr>\<rparr>;
              bound = (wk_eligible w2 \<noteq> 0 \<and> phase_call_id \<noteq> 0);
              t = (record_tr w2 ERenderConsumed RNone)
                    \<lparr>tr_operation := wk_eligible w2, tr_phase := phase_call_id, tr_phase_bound := bound,
                     tr_eligible := (wk_eligible w2 \<noteq> 0)\<rparr>;
              w3 = (if \<not> bound
                    then w2\<lparr>wk_counts := (wk_counts w2)\<lparr>wc_unbound := wc_unbound (wk_counts w2) + 1\<rparr>\<rparr>
                    else w2) in
          (w3\<lparr>wk_eligible := 0\<rparr>, t))"

definition dispatch_exit :: "worker \<Rightarrow> wkey \<Rightarrow> u64 \<Rightarrow> u64 \<Rightarrow> bool \<Rightarrow> worker \<times> transition" where
  "dispatch_exit w0 key qpc dispatch_id normal_return =
     (case check w0 key qpc of Inl failure \<Rightarrow> failure
      | Inr w \<Rightarrow>
        if wk_state w \<noteq> SDispatch \<or> dispatch_id \<noteq> wk_dispatch w then fault w RState
        else if \<not> normal_return then fault w RUnwind
        else
          let t = record_tr w EDispatchCompleted RNone in
          case (if \<not> wk_render_seen w
                then retire (w\<lparr>wk_counts := (wk_counts w)\<lparr>wc_no_render := wc_no_render (wk_counts w) + 1\<rparr>\<rparr>)
                       t RNoRender
                else (w, t)) of
            (w1, t1) \<Rightarrow> (clear_wait (w1\<lparr>wk_state := SIdle, wk_dispatch := 0\<rparr>), t1\<lparr>tr_eligible := False\<rparr>))"

definition worker_exit :: "worker \<Rightarrow> wkey \<Rightarrow> u64 \<Rightarrow> bool \<Rightarrow> worker \<times> transition" where
  "worker_exit w0 key qpc normal_return =
     (case check w0 key qpc of Inl failure \<Rightarrow> failure
      | Inr w \<Rightarrow>
        if \<not> normal_return then fault w RUnwind
        else if wk_state w \<noteq> SIdle then fault w RState
        else case retire w (record_tr w EExited RNone) RWorkerExit of
          (w1, t) \<Rightarrow> ((clear_wait w1)\<lparr>wk_exited := True\<rparr>, t\<lparr>tr_eligible := False\<rparr>))"

definition freeze :: "worker \<Rightarrow> wkey \<Rightarrow> u64 \<Rightarrow> worker \<times> transition" where
  "freeze w0 key qpc =
     (case check w0 key qpc of Inl failure \<Rightarrow> failure
      | Inr w \<Rightarrow>
        case retire w (record_tr w EFrozen RNone) RFreeze of
          (w1, t) \<Rightarrow> (w1\<lparr>wk_frozen := True\<rparr>, t\<lparr>tr_eligible := False\<rparr>))"

definition observer_fault :: "worker \<Rightarrow> worker \<times> transition" where
  "observer_fault w = fault w RObserverFault"

subsection \<open>Call sequences and the ledger of waits\<close>

datatype wcall =
    CallEnter wkey u64
  | CallWaitEnter wkey u64 u64 u64 u32
  | CallWaitExit wkey u64 u64 bool "validated_wait option"
  | CallDispatchEnter wkey u64 u64 u64 u32
  | CallRender wkey u64 u64 u64
  | CallDispatchExit wkey u64 u64 bool
  | CallExit wkey u64 bool
  | CallFreeze wkey u64
  | CallObserverFault

fun worker_call :: "worker \<Rightarrow> wcall \<Rightarrow> worker \<times> transition" where
  "worker_call w (CallEnter k q) = worker_enter w k q"
| "worker_call w (CallWaitEnter k q h c g) = wait_enter w k q h c g"
| "worker_call w (CallWaitExit k q h n v) = wait_exit w k q h n v"
| "worker_call w (CallDispatchEnter k q d c a) = dispatch_enter w k q d c a"
| "worker_call w (CallRender k q p c) = render w k q p c"
| "worker_call w (CallDispatchExit k q d n) = dispatch_exit w k q d n"
| "worker_call w (CallExit k q n) = worker_exit w k q n"
| "worker_call w (CallFreeze k q) = freeze w k q"
| "worker_call w CallObserverFault = observer_fault w"

definition worker_step :: "worker \<times> transition list \<Rightarrow> wcall \<Rightarrow> worker \<times> transition list" where
  "worker_step s c = (case worker_call (fst s) c of (w, t) \<Rightarrow> (w, snd s @ [t]))"

definition eligible_of :: "transition \<Rightarrow> u64 list" where
  "eligible_of t = (if tr_event t = EWaitEligible then [tr_operation t] else [])"

definition consumed_of :: "transition \<Rightarrow> u64 list" where
  "consumed_of t = (if tr_event t = ERenderConsumed \<and> tr_eligible t then [tr_operation t] else [])"

definition retired_of :: "transition \<Rightarrow> u64 list" where
  "retired_of t = (if tr_retired t \<noteq> 0 then [tr_retired t] else [])"

definition pending_of :: "worker \<Rightarrow> u64 list" where
  "pending_of w = (if wk_eligible w \<noteq> 0 then [wk_eligible w] else [])"

definition tick :: "bool \<Rightarrow> u64" where
  "tick b = (if b then 1 else 0)"

text \<open>What one call does to the waits: the slots before plus a newly eligible wait are the slots
  after plus what the transition consumed and retired; the counters follow the transition.\<close>

definition call_ok :: "worker \<Rightarrow> worker \<times> transition \<Rightarrow> bool" where
  "call_ok w r \<longleftrightarrow> (case r of (w', t) \<Rightarrow>
     mset (pending_of w) + mset (eligible_of t)
       = mset (consumed_of t) + mset (retired_of t) + mset (pending_of w')
     \<and> (\<forall>x \<in> set (eligible_of t). wk_last_operation w < x \<and> x = wk_last_operation w')
     \<and> wk_last_operation w \<le> wk_last_operation w'
     \<and> (wk_state w' = SWait \<longrightarrow> wk_eligible w' = 0)
     \<and> wc_waits (wk_counts w') = wc_waits (wk_counts w) + tick (tr_event t = EWaitEntered)
     \<and> wc_eligible (wk_counts w') = wc_eligible (wk_counts w) + tick (tr_event t = EWaitEligible)
     \<and> wc_rejected (wk_counts w') = wc_rejected (wk_counts w) + tick (tr_event t = EWaitRejected)
     \<and> wc_retired (wk_counts w') = wc_retired (wk_counts w) + tick (tr_retired t \<noteq> 0)
     \<and> wc_renders (wk_counts w') = wc_renders (wk_counts w) + tick (tr_event t = ERenderConsumed))"

definition idle_slot :: "worker \<Rightarrow> bool" where
  "idle_slot w \<longleftrightarrow> (wk_state w = SWait \<longrightarrow> wk_eligible w = 0)"

lemmas call_defs = call_ok_def eligible_of_def consumed_of_def retired_of_def pending_of_def tick_def
  record_tr_def retire_def

lemma fault_ok: "idle_slot w \<Longrightarrow> call_ok w (fault w r)"
  by (auto simp: fault_def call_defs idle_slot_def)

lemma clock_frame:
  "advance_clock w q = Some w' \<Longrightarrow> w' = w\<lparr>wk_last_qpc := q\<rparr>"
  by (auto simp: advance_clock_def split: if_splits)

lemma call_ok_clock [simp]:
  "call_ok (w\<lparr>wk_last_qpc := q\<rparr>) r = call_ok w r" "idle_slot (w\<lparr>wk_last_qpc := q\<rparr>) = idle_slot w"
  by (simp_all add: call_defs idle_slot_def)

lemma ignored_ok: "idle_slot w \<Longrightarrow> call_ok w (w, record_tr w EIgnored RTerminal)"
  by (auto simp: call_defs idle_slot_def)

lemma check_Inl: "idle_slot w \<Longrightarrow> check w k q = Inl r \<Longrightarrow> call_ok w r"
  by (auto simp: check_def fault_ok ignored_ok split: if_splits option.splits)

lemma check_Inr: "check w k q = Inr w' \<Longrightarrow> w' = w\<lparr>wk_last_qpc := q\<rparr> \<and> \<not> terminal w \<and> k = wk_key w"
  by (auto simp: check_def clock_frame split: if_splits option.splits)

text \<open>A method that starts with \<open>Check\<close> only has to be examined after it.\<close>

lemma checked_ok:
  assumes "idle_slot w" and "\<And>w'. w' = w\<lparr>wk_last_qpc := q\<rparr> \<Longrightarrow> call_ok w' (body w')"
  shows "call_ok w (case check w k q of Inl failure \<Rightarrow> failure | Inr w' \<Rightarrow> body w')"
  using assms by (auto dest: check_Inl check_Inr split: sum.splits)

lemma if_call: "(c \<Longrightarrow> call_ok w a) \<Longrightarrow> (\<not> c \<Longrightarrow> call_ok w b) \<Longrightarrow> call_ok w (if c then a else b)"
  by simp

lemma dispatch_body_ok:
  "call_ok w (w\<lparr>wk_dispatch := d, wk_last_dispatch := d, wk_state := SDispatch, wk_render_seen := False\<rparr>,
     record_tr (w\<lparr>wk_dispatch := d, wk_last_dispatch := d, wk_state := SDispatch, wk_render_seen := False\<rparr>)
       EDispatchEntered RNone)"
  by (simp add: call_defs)

lemma render_body_ok:
  "call_ok w (let w1 = (if p \<noteq> 0 then w\<lparr>wk_last_phase := p\<rparr> else w);
              w2 = w1\<lparr>wk_render_seen := True,
                      wk_counts := (wk_counts w1)\<lparr>wc_renders := wc_renders (wk_counts w1) + 1\<rparr>\<rparr>;
              bound = (wk_eligible w2 \<noteq> 0 \<and> p \<noteq> 0);
              t = (record_tr w2 ERenderConsumed RNone)
                    \<lparr>tr_operation := wk_eligible w2, tr_phase := p, tr_phase_bound := bound,
                     tr_eligible := (wk_eligible w2 \<noteq> 0)\<rparr>;
              w3 = (if \<not> bound
                    then w2\<lparr>wk_counts := (wk_counts w2)\<lparr>wc_unbound := wc_unbound (wk_counts w2) + 1\<rparr>\<rparr>
                    else w2) in
          (w3\<lparr>wk_eligible := 0\<rparr>, t))"
  by (cases "p = 0"; cases "wk_eligible w = 0") (simp_all add: call_defs Let_def)

lemma dispatch_exit_body_ok:
  "call_ok w (let t = record_tr w EDispatchCompleted RNone in
          case (if \<not> wk_render_seen w
                then retire (w\<lparr>wk_counts := (wk_counts w)\<lparr>wc_no_render := wc_no_render (wk_counts w) + 1\<rparr>\<rparr>)
                       t RNoRender
                else (w, t)) of
            (w1, t1) \<Rightarrow> (clear_wait (w1\<lparr>wk_state := SIdle, wk_dispatch := 0\<rparr>), t1\<lparr>tr_eligible := False\<rparr>))"
  by (cases "wk_render_seen w"; cases "wk_eligible w = 0") (simp_all add: call_defs clear_wait_def Let_def)

lemma exit_body_ok:
  "idle_slot w \<Longrightarrow> call_ok w (case retire w (record_tr w EExited RNone) RWorkerExit of
     (w1, t) \<Rightarrow> ((clear_wait w1)\<lparr>wk_exited := True\<rparr>, t\<lparr>tr_eligible := False\<rparr>))"
  by (cases "wk_eligible w = 0") (simp_all add: call_defs clear_wait_def idle_slot_def)

lemma freeze_body_ok:
  "idle_slot w \<Longrightarrow> call_ok w (case retire w (record_tr w EFrozen RNone) RFreeze of
     (w1, t) \<Rightarrow> (w1\<lparr>wk_frozen := True\<rparr>, t\<lparr>tr_eligible := False\<rparr>))"
  by (cases "wk_eligible w = 0") (simp_all add: call_defs idle_slot_def)

lemma worker_call_ok:
  assumes "idle_slot w"
  shows "call_ok w (worker_call w c)"
proof (cases c)
  case (CallEnter k q)
  with assms show ?thesis
    by (auto simp: worker_enter_def fault_ok Let_def dest!: clock_frame split: option.splits)
      (auto simp: call_defs idle_slot_def)
next
  case (CallWaitEnter k q h a g)
  show ?thesis
    unfolding CallWaitEnter worker_call.simps wait_enter_def
  proof (intro checked_ok assms)
    fix w'
    assume "w' = w\<lparr>wk_last_qpc := q\<rparr>"
    with assms have idle: "idle_slot w'" by simp
    let ?r = "case retire w' (record_tr w' EWaitEntered RNone) RNextWait of
          (w1, t) \<Rightarrow>
            (w1\<lparr>wk_helper := h, wk_last_helper := h, wk_operation := 0,
                wk_null_handle := (g = 0), wk_state := SWait,
                wk_counts := (wk_counts w1)\<lparr>wc_waits := wc_waits (wk_counts w1) + 1\<rparr>\<rparr>,
             t\<lparr>tr_helper := h, tr_operation := 0, tr_eligible := False\<rparr>)"
    have "call_ok w' ?r"
      by (cases "wk_eligible w' = 0") (simp_all add: call_defs)
    then show "call_ok w' (if wk_state w' \<noteq> SIdle then fault w' RState
        else if a \<noteq> kWaitCaller then fault w' RCaller
        else if h = 0 \<or> h \<le> wk_last_helper w' then fault w' RIdentity else ?r)"
      using fault_ok [OF idle] by simp
  qed
next
  case (CallWaitExit k q h n v)
  show ?thesis
    unfolding CallWaitExit worker_call.simps wait_exit_def
  proof (intro checked_ok assms)
    fix w'
    assume "w' = w\<lparr>wk_last_qpc := q\<rparr>"
    with assms have idle: "idle_slot w'" by simp
    then have free: "wk_state w' = SWait \<Longrightarrow> wk_eligible w' = 0" by (simp add: idle_slot_def)
    show "call_ok w' (if wk_state w' \<noteq> SWait \<or> h \<noteq> wk_helper w' then fault w' RState
        else if \<not> n then fault w' RUnwind
        else if wk_null_handle w' \<and> v \<noteq> None then fault w' RObject
        else case (if wk_null_handle w' then None else observation_fault w' v) of
          Some r \<Rightarrow> fault w' r
        | None \<Rightarrow>
          let op = (case v of None \<Rightarrow> 0 | Some v \<Rightarrow> vw_operation v);
              w1 = (if wk_null_handle w' then w' else w'\<lparr>wk_operation := op, wk_last_operation := op\<rparr>);
              w2 = w1\<lparr>wk_state := SIdle\<rparr> in
          if wk_null_handle w2 \<or> map_option vw_outcome v \<noteq> Some OSuccess then
            let w3 = w2\<lparr>wk_counts := (wk_counts w2)\<lparr>wc_rejected := wc_rejected (wk_counts w2) + 1\<rparr>\<rparr> in
            (clear_wait w3, record_tr w3 EWaitRejected
               (if wk_null_handle w3 then RNullHandle else RWaitUnsuccessful))
          else
            let w3 = w2\<lparr>wk_eligible := wk_operation w2,
                        wk_counts := (wk_counts w2)\<lparr>wc_eligible := wc_eligible (wk_counts w2) + 1\<rparr>\<rparr> in
            (w3, record_tr w3 EWaitEligible RNone))"
    proof (cases "wk_null_handle w'")
      case True
      then show ?thesis
        using fault_ok [OF idle] free by (simp add: Let_def) (simp add: call_defs clear_wait_def)
    next
      case False
      show ?thesis
      proof (cases "observation_fault w' v")
        case (Some r)
        then show ?thesis using fault_ok [OF idle] False by simp
      next
        case None
        then obtain x where "v = Some x" "wk_last_operation w' < vw_operation x" "vw_operation x \<noteq> 0"
          by (auto simp: observation_fault_def split: option.splits if_splits)
        with None show ?thesis
          using fault_ok [OF idle] free False
          by (simp add: Let_def) (simp add: call_defs clear_wait_def less_imp_le)
      qed
    qed
  qed
next
  case (CallDispatchEnter k q d a x)
  show ?thesis
    unfolding CallDispatchEnter worker_call.simps dispatch_enter_def Let_def
    by (intro checked_ok assms if_call fault_ok) (simp_all only: assms call_ok_clock dispatch_body_ok)
next
  case (CallRender k q p a)
  show ?thesis
    unfolding CallRender worker_call.simps render_def
    by (intro checked_ok assms if_call fault_ok) (simp_all only: assms call_ok_clock render_body_ok)
next
  case (CallDispatchExit k q d n)
  show ?thesis
    unfolding CallDispatchExit worker_call.simps dispatch_exit_def
    by (intro checked_ok assms if_call fault_ok) (simp_all only: assms call_ok_clock dispatch_exit_body_ok)
next
  case (CallExit k q n)
  show ?thesis
    unfolding CallExit worker_call.simps worker_exit_def
    by (intro checked_ok assms if_call fault_ok exit_body_ok) (simp_all only: assms call_ok_clock)
next
  case (CallFreeze k q)
  show ?thesis
    unfolding CallFreeze worker_call.simps freeze_def
    by (intro checked_ok assms if_call fault_ok freeze_body_ok) (simp_all only: assms call_ok_clock)
next
  case CallObserverFault
  with assms show ?thesis by (simp add: observer_fault_def fault_ok)
qed

definition eligible_ops :: "transition list \<Rightarrow> u64 list" where
  "eligible_ops h = concat (map eligible_of h)"

definition consumed_ops :: "transition list \<Rightarrow> u64 list" where
  "consumed_ops h = concat (map consumed_of h)"

definition retired_ops :: "transition list \<Rightarrow> u64 list" where
  "retired_ops h = concat (map retired_of h)"

definition count_events :: "wevent \<Rightarrow> transition list \<Rightarrow> u64" where
  "count_events e h = of_nat (length (filter (\<lambda>t. tr_event t = e) h))"

definition worker_inv :: "worker \<times> transition list \<Rightarrow> bool" where
  "worker_inv s \<longleftrightarrow> (case s of (w, h) \<Rightarrow>
     idle_slot w
     \<and> mset (eligible_ops h) = mset (consumed_ops h) + mset (retired_ops h) + mset (pending_of w)
     \<and> sorted_wrt (<) (eligible_ops h) \<and> (\<forall>x \<in> set (eligible_ops h). x \<le> wk_last_operation w)
     \<and> wc_waits (wk_counts w) = count_events EWaitEntered h
     \<and> wc_eligible (wk_counts w) = count_events EWaitEligible h
     \<and> wc_rejected (wk_counts w) = count_events EWaitRejected h
     \<and> wc_retired (wk_counts w) = of_nat (length (retired_ops h))
     \<and> wc_renders (wk_counts w) = count_events ERenderConsumed h)"

lemma ops_snoc:
  "eligible_ops (h @ [t]) = eligible_ops h @ eligible_of t"
  "consumed_ops (h @ [t]) = consumed_ops h @ consumed_of t"
  "retired_ops (h @ [t]) = retired_ops h @ retired_of t"
  by (simp_all add: eligible_ops_def consumed_ops_def retired_ops_def)

lemma count_events_snoc: "count_events e (h @ [t]) = count_events e h + tick (tr_event t = e)"
  by (simp add: count_events_def tick_def)

lemma worker_inv_init: "worker_inv (new_worker, [])"
  by (simp add: worker_inv_def new_worker_def idle_slot_def eligible_ops_def consumed_ops_def
      retired_ops_def pending_of_def count_events_def)

lemma worker_step_inv:
  assumes "worker_inv s"
  shows "worker_inv (worker_step s c)"
proof -
  obtain w h where s: "s = (w, h)" by (cases s)
  obtain w' t where call: "worker_call w c = (w', t)" by (cases "worker_call w c")
  have ok: "call_ok w (w', t)"
    using assms worker_call_ok [of w c] by (simp add: s worker_inv_def call)
  have shape: "eligible_of t = [] \<or> (\<exists>x. eligible_of t = [x])" by (simp add: eligible_of_def)
  have ret: "of_nat (length (retired_of t)) = tick (tr_retired t \<noteq> 0)"
    by (simp add: retired_of_def tick_def)
  have waits: "mset (eligible_ops h) + mset (eligible_of t)
      = mset (consumed_ops h) + mset (consumed_of t) + (mset (retired_ops h) + mset (retired_of t))
        + mset (pending_of w')"
    using assms ok by (simp add: s worker_inv_def call_ok_def add_ac)
  have bound: "\<forall>x \<in> set (eligible_ops h). x \<le> wk_last_operation w"
    and lastop: "wk_last_operation w \<le> wk_last_operation w'"
    and new: "\<forall>x \<in> set (eligible_of t). wk_last_operation w < x \<and> x = wk_last_operation w'"
    using assms ok by (auto simp: s worker_inv_def call_ok_def)
  have sorted: "sorted_wrt (<) (eligible_ops h @ eligible_of t)"
    using assms shape bound new by (auto simp: s worker_inv_def sorted_wrt_append)
  have bound': "\<forall>x \<in> set (eligible_ops h @ eligible_of t). x \<le> wk_last_operation w'"
    using bound lastop new by auto
  have idle: "idle_slot w'" using ok by (simp add: call_ok_def idle_slot_def)
  show ?thesis
    using assms ok idle sorted bound' waits ret
    by (simp add: s worker_step_def call worker_inv_def call_ok_def ops_snoc count_events_snoc)
qed

lemma terminal_call: "terminal w \<Longrightarrow> worker_call w c = (w, record_tr w EIgnored RTerminal)"
  by (cases c)
    (auto simp: worker_enter_def wait_enter_def wait_exit_def dispatch_enter_def render_def
      dispatch_exit_def worker_exit_def freeze_def observer_fault_def check_def fault_def terminal_def)

interpretation workers: latching_machine worker_step worker_inv "\<lambda>s. terminal (fst s)"
  by unfold_locales (rule worker_step_inv, assumption, simp add: worker_step_def terminal_call)

lemma terminal_run: "terminal w \<Longrightarrow> fst (run_events worker_step (w, h) cs) = w"
  by (induction cs arbitrary: h) (simp_all add: worker_step_def terminal_call)

subsection \<open>Properties\<close>

text \<open>C20: in every call sequence, every wait reported eligible is exactly once either consumed by a
  render, or retired with a reason, or still pending; operation ids are fresh and increasing,
  so no successful wait is credited to two renders.\<close>

theorem worker_waits_conserved:
  "case run_events worker_step (new_worker, []) cs of (w, h) \<Rightarrow>
     mset (eligible_ops h) = mset (consumed_ops h) + mset (retired_ops h) + mset (pending_of w)
     \<and> sorted_wrt (<) (eligible_ops h) \<and> distinct (consumed_ops h @ retired_ops h @ pending_of w)"
proof -
  obtain w h where r: "run_events worker_step (new_worker, []) cs = (w, h)" by force
  with workers.inv_run [OF worker_inv_init, of cs] have inv: "worker_inv (w, h)" by simp
  then have m: "mset (eligible_ops h) = mset (consumed_ops h @ retired_ops h @ pending_of w)"
    and s: "sorted_wrt (<) (eligible_ops h)" by (simp_all add: worker_inv_def)
  from s have "distinct (eligible_ops h)" by (simp add: strict_sorted_iff)
  with m have "distinct (consumed_ops h @ retired_ops h @ pending_of w)"
    by (metis distinct_count_atmost_1 set_mset_mset mset_eq_setD)
  with m s show ?thesis by (simp add: r)
qed

text \<open>The public counters agree with the reported transitions, modulo their 64-bit width.\<close>

theorem worker_counts_exact:
  "case run_events worker_step (new_worker, []) cs of (w, h) \<Rightarrow>
     wc_waits (wk_counts w) = count_events EWaitEntered h
     \<and> wc_eligible (wk_counts w) = count_events EWaitEligible h
     \<and> wc_rejected (wk_counts w) = count_events EWaitRejected h
     \<and> wc_retired (wk_counts w) = of_nat (length (retired_ops h))
     \<and> wc_renders (wk_counts w) = count_events ERenderConsumed h"
  using workers.inv_run [OF worker_inv_init, of cs]
  by (auto simp: worker_inv_def split: prod.splits)

text \<open>Once exited, frozen or failed, a worker ignores every further call and never changes.\<close>

theorem worker_terminal_final:
  assumes "terminal w"
  shows "fst (run_events worker_step (w, h) cs) = w
    \<and> worker_call w c = (w, record_tr w EIgnored RTerminal)"
  using assms by (simp add: terminal_run terminal_call)

theorem worker_terminal_final_witness:
  "terminal (fst (observer_fault new_worker))
   \<and> fst (run_events worker_step (fst (observer_fault new_worker), []) [CallObserverFault])
       = fst (observer_fault new_worker)"
proof -
  have t: "terminal (fst (observer_fault new_worker))"
    by (simp add: observer_fault_def fault_def terminal_def new_worker_def retire_def)
  from worker_terminal_final [OF t] t show ?thesis by blast
qed

end
