(* ===== verification/SwapEmission.thy ===== *)
theory SwapEmission
  imports Prelude
begin

section \<open>Swap emission tokens (\<open>mcla_swap_emission_core.h\<close>)\<close>

text \<open>
  The word packet that carries a swap token through the command ring, and the ledger that
  issues each token once and admits it at most once. Arrays are lists of their fixed length;
  \<open>Capacity\<close> is an argument of the ledger. Each method returns the new ledger, its result and
  its output parameter.
\<close>

subsection \<open>Model\<close>

definition kStockWords :: nat where "kStockWords = 4"
definition kFetchWords :: nat where "kFetchWords = 6"
definition kExtendedWords :: nat where "kExtendedWords = 11"
definition kMaximumPayloadWords :: nat where "kMaximumPayloadWords = 56"
definition kMagic :: u32 where "kMagic = 0x4D535750"
definition kVersion :: u32 where "kVersion = 1"

lemmas swap_consts = kStockWords_def kFetchWords_def kExtendedWords_def kMaximumPayloadWords_def

datatype swap_result =
    LegacyDisabled | LegacyPacket | ExtendedPacket | TokenIssued | TokenMatched
  | InvalidStockWordCount | InvalidFetchWordCount | PayloadTooLong
  | UnsupportedPayloadLength | UnknownMagic | UnknownVersion
  | DeclaredLengthMismatch | ZeroToken | InvalidEpoch
  | CapacityExhausted | UnissuedToken | TokenEpochMismatch
  | Replay | StockMismatch | FetchMismatch

datatype snapshot_result = SnapAvailable | SnapUnavailable | SnapInvalidQpc | SnapMissingIdentity

record token =
  tk_epoch :: u64
  tk_serial :: u64

record snapshot =
  sn_qpc_before :: u64
  sn_qpc_after :: u64
  sn_native_thread_id :: u32
  sn_guest_caller_lr :: u32
  sn_timer_address :: u32
  sn_timer_counter :: u32
  sn_timer_delta_bits :: u32
  sn_available :: bool
  sn_callback_id :: u64

record payload =
  pl_words :: "u32 list"
  pl_length :: nat

record decoded =
  dc_stock :: "u32 list"
  dc_token :: token
  dc_extended :: bool

record emission =
  em_payload :: payload
  em_token :: token
  em_snapshot :: snapshot
  em_result :: snapshot_result

record match =
  mt_token :: token
  mt_snapshot :: snapshot
  mt_result :: snapshot_result

text \<open>The value-initialised objects.\<close>

definition no_token :: token where "no_token = \<lparr>tk_epoch = 0, tk_serial = 0\<rparr>"

definition no_snapshot :: snapshot where
  "no_snapshot = \<lparr>sn_qpc_before = 0, sn_qpc_after = 0, sn_native_thread_id = 0,
     sn_guest_caller_lr = 0, sn_timer_address = 0, sn_timer_counter = 0, sn_timer_delta_bits = 0,
     sn_available = False, sn_callback_id = 0\<rparr>"

definition no_payload :: payload where
  "no_payload = \<lparr>pl_words = replicate kMaximumPayloadWords 0, pl_length = 0\<rparr>"

definition no_decoded :: decoded where
  "no_decoded = \<lparr>dc_stock = replicate kStockWords 0, dc_token = no_token, dc_extended = False\<rparr>"

definition no_emission :: emission where
  "no_emission = \<lparr>em_payload = no_payload, em_token = no_token, em_snapshot = no_snapshot,
     em_result = SnapUnavailable\<rparr>"

definition no_match :: match where
  "no_match = \<lparr>mt_token = no_token, mt_snapshot = no_snapshot, mt_result = SnapUnavailable\<rparr>"

definition view :: "payload \<Rightarrow> u32 list" where
  "view p = (if pl_length p \<le> kMaximumPayloadWords then take (pl_length p) (pl_words p) else [])"

definition NormalizeSnapshot :: "snapshot \<Rightarrow> snapshot_result \<times> snapshot" where
  "NormalizeSnapshot s =
     (if \<not> sn_available s then (SnapUnavailable, no_snapshot)
      else if sn_qpc_before s = 0 \<or> sn_qpc_before s > sn_qpc_after s \<or> sn_qpc_after s > kMaxQpc
      then (SnapInvalidQpc, no_snapshot)
      else if sn_native_thread_id s = 0 \<or> sn_guest_caller_lr s = 0 \<or> sn_timer_address s = 0
      then (SnapMissingIdentity, no_snapshot)
      else (SnapAvailable, s))"

definition Encode :: "u32 list \<Rightarrow> token \<Rightarrow> bool \<Rightarrow> swap_result \<times> payload" where
  "Encode stock tok enabled =
     (if length stock \<noteq> kStockWords then (InvalidStockWordCount, no_payload)
      else if enabled \<and> (tk_epoch tok = 0 \<or> tk_serial tok = 0) then (ZeroToken, no_payload)
      else
        let words = stock @ drop kStockWords (pl_words no_payload);
            p = \<lparr>pl_words = words, pl_length = (if enabled then kExtendedWords else kStockWords)\<rparr> in
        if \<not> enabled then (LegacyDisabled, p)
        else (TokenIssued, p\<lparr>pl_words := words[
               4 := kMagic, 5 := kVersion, 6 := of_nat kExtendedWords,
               7 := ucast (drop_bit 32 (tk_epoch tok)), 8 := ucast (tk_epoch tok),
               9 := ucast (drop_bit 32 (tk_serial tok)), 10 := ucast (tk_serial tok)]\<rparr>))"

definition join_halves :: "u32 \<Rightarrow> u32 \<Rightarrow> u64" where
  "join_halves hi lo = or (push_bit 32 (ucast hi)) (ucast lo)"

definition Decode :: "u32 list \<Rightarrow> swap_result \<times> decoded" where
  "Decode payload =
     (let count = length payload in
      if count > kMaximumPayloadWords then (PayloadTooLong, no_decoded)
      else if count \<noteq> kStockWords \<and> count \<noteq> kExtendedWords then (UnsupportedPayloadLength, no_decoded)
      else if count = kStockWords then (LegacyPacket, no_decoded\<lparr>dc_stock := payload\<rparr>)
      else if payload ! 4 \<noteq> kMagic then (UnknownMagic, no_decoded)
      else if payload ! 5 \<noteq> kVersion then (UnknownVersion, no_decoded)
      else if payload ! 6 \<noteq> of_nat kExtendedWords then (DeclaredLengthMismatch, no_decoded)
      else
        let tok = \<lparr>tk_epoch = join_halves (payload ! 7) (payload ! 8),
                   tk_serial = join_halves (payload ! 9) (payload ! 10)\<rparr> in
        if tk_epoch tok = 0 \<or> tk_serial tok = 0 then (ZeroToken, no_decoded)
        else (ExtendedPacket, \<lparr>dc_stock = take kStockWords payload, dc_token = tok,
                               dc_extended = True\<rparr>))"

record swap_entry =
  se_stock :: "u32 list"
  se_fetch :: "u32 list"
  se_snapshot :: snapshot
  se_result :: snapshot_result
  se_issued :: bool
  se_consumed :: bool

record ledger =
  lg_epoch :: u64
  lg_enabled :: bool
  lg_entries :: "swap_entry list"
  lg_issued :: nat

definition no_entry :: swap_entry where
  "no_entry = \<lparr>se_stock = replicate kStockWords 0, se_fetch = replicate kFetchWords 0,
     se_snapshot = no_snapshot, se_result = SnapUnavailable, se_issued = False, se_consumed = False\<rparr>"

definition new_ledger :: "nat \<Rightarrow> u64 \<Rightarrow> bool \<Rightarrow> ledger" where
  "new_ledger capacity epoch enabled = \<lparr>lg_epoch = epoch, lg_enabled = enabled,
     lg_entries = replicate capacity no_entry, lg_issued = 0\<rparr>"

definition issue_swap :: "ledger \<Rightarrow> u32 list \<Rightarrow> u32 list \<Rightarrow> snapshot \<Rightarrow>
    ledger \<times> swap_result \<times> emission" where
  "issue_swap l stock fetch supplied =
     (if length stock \<noteq> kStockWords then (l, InvalidStockWordCount, no_emission)
      else if \<not> lg_enabled l then
        (case Encode stock no_token False of (r, p) \<Rightarrow> (l, r, no_emission\<lparr>em_payload := p\<rparr>))
      else if length fetch \<noteq> kFetchWords then (l, InvalidFetchWordCount, no_emission)
      else if lg_epoch l = 0 then (l, InvalidEpoch, no_emission)
      else if lg_issued l = length (lg_entries l) then (l, CapacityExhausted, no_emission)
      else
        let tok = \<lparr>tk_epoch = lg_epoch l, tk_serial = of_nat (lg_issued l) + 1\<rparr>;
            snap = NormalizeSnapshot supplied;
            entry = \<lparr>se_stock = stock, se_fetch = fetch, se_snapshot = snd snap,
                     se_result = fst snap, se_issued = True, se_consumed = False\<rparr> in
        (l\<lparr>lg_entries := (lg_entries l)[lg_issued l := entry], lg_issued := lg_issued l + 1\<rparr>,
         TokenIssued,
         \<lparr>em_payload = snd (Encode stock tok True), em_token = tok, em_snapshot = snd snap,
          em_result = fst snap\<rparr>))"

definition consume :: "ledger \<Rightarrow> u32 list \<Rightarrow> u32 list \<Rightarrow> ledger \<times> swap_result \<times> match" where
  "consume l payload fetch =
     (case Decode payload of (d, packet) \<Rightarrow>
      if d \<noteq> ExtendedPacket then (l, d, no_match)
      else if \<not> lg_enabled l \<or> tk_epoch (dc_token packet) \<noteq> lg_epoch l
      then (l, TokenEpochMismatch, no_match)
      else if tk_serial (dc_token packet) = 0 \<or> unat (tk_serial (dc_token packet)) > lg_issued l
      then (l, UnissuedToken, no_match)
      else
        let i = unat (tk_serial (dc_token packet) - 1); entry = lg_entries l ! i in
        if \<not> se_issued entry then (l, UnissuedToken, no_match)
        else if se_consumed entry then (l, Replay, no_match)
        else
          let l' = l\<lparr>lg_entries := (lg_entries l)[i := entry\<lparr>se_consumed := True\<rparr>]\<rparr> in
          if length fetch \<noteq> kFetchWords then (l', InvalidFetchWordCount, no_match)
          else if dc_stock packet \<noteq> se_stock entry then (l', StockMismatch, no_match)
          else if fetch \<noteq> se_fetch entry then (l', FetchMismatch, no_match)
          else (l', TokenMatched, \<lparr>mt_token = dc_token packet, mt_snapshot = se_snapshot entry,
                  mt_result = se_result entry\<rparr>))"

subsection \<open>The packet codec\<close>

lemma join_halves_split [simp]: "join_halves (ucast (drop_bit 32 (x :: u64))) (ucast x) = x"
  unfolding join_halves_def
  by (rule bit_word_eqI) (auto simp: bit_simps)

lemma join_halves_hi [simp]: "ucast (drop_bit 32 (join_halves hi lo)) = hi"
  unfolding join_halves_def
  by (rule bit_word_eqI) (auto simp: bit_simps dest: bit_imp_le_length)

lemma join_halves_lo [simp]: "ucast (join_halves hi lo) = lo"
  unfolding join_halves_def
  by (rule bit_word_eqI) (auto simp: bit_simps)

lemma view_Encode:
  assumes "length stock = kStockWords" "tk_epoch tok \<noteq> 0" "tk_serial tok \<noteq> 0"
  shows "Encode stock tok True = (TokenIssued, snd (Encode stock tok True))"
    and "view (snd (Encode stock tok True)) = stock @ [kMagic, kVersion, of_nat kExtendedWords,
       ucast (drop_bit 32 (tk_epoch tok)), ucast (tk_epoch tok),
       ucast (drop_bit 32 (tk_serial tok)), ucast (tk_serial tok)]"
proof -
  from assms(1) obtain a b c d where s: "stock = [a, b, c, d]"
    by (auto simp: swap_consts length_Suc_conv numeral_eq_Suc)
  show "Encode stock tok True = (TokenIssued, snd (Encode stock tok True))"
    using assms by (simp add: Encode_def Let_def)
  show "view (snd (Encode stock tok True)) = stock @ [kMagic, kVersion, of_nat kExtendedWords,
       ucast (drop_bit 32 (tk_epoch tok)), ucast (tk_epoch tok),
       ucast (drop_bit 32 (tk_serial tok)), ucast (tk_serial tok)]"
    using assms by (simp add: s Encode_def Let_def view_def no_payload_def swap_consts
        numeral_eq_Suc)
qed

lemma length_11:
  "length p = 11 \<longleftrightarrow> (\<exists>a b c d e f g h i j k. p = [a, b, c, d, e, f, g, h, i, j, k])"
proof
  assume "length p = 11"
  then have "length p = Suc (Suc (Suc (Suc (Suc (Suc (Suc (Suc (Suc (Suc (Suc 0))))))))))" by simp
  then show "\<exists>a b c d e f g h i j k. p = [a, b, c, d, e, f, g, h, i, j, k]"
    unfolding length_Suc_conv length_0_conv by blast
qed auto

lemma eleven_words:
  assumes "length p = kExtendedWords"
  shows "p = take kStockWords p @ [p ! 4, p ! 5, p ! 6, p ! 7, p ! 8, p ! 9, p ! 10]"
proof -
  from assms obtain a b c d e f g h i j k where "p = [a, b, c, d, e, f, g, h, i, j, k]"
    by (simp only: swap_consts length_11) blast
  then show ?thesis by (simp add: swap_consts)
qed

definition extended_words :: "u32 list \<Rightarrow> bool" where
  "extended_words p \<longleftrightarrow> length p = kExtendedWords \<and> p ! 4 = kMagic \<and> p ! 5 = kVersion
     \<and> p ! 6 = of_nat kExtendedWords
     \<and> join_halves (p ! 7) (p ! 8) \<noteq> 0 \<and> join_halves (p ! 9) (p ! 10) \<noteq> 0"

lemma Decode_Extended_fst: "fst (Decode p) = ExtendedPacket \<longleftrightarrow> extended_words p"
  by (simp add: Decode_def Let_def extended_words_def swap_consts)

lemma Decode_Extended:
  assumes "extended_words p"
  shows "Decode p = (ExtendedPacket, \<lparr>dc_stock = take kStockWords p,
             dc_token = \<lparr>tk_epoch = join_halves (p ! 7) (p ! 8),
                         tk_serial = join_halves (p ! 9) (p ! 10)\<rparr>, dc_extended = True\<rparr>)"
  using assms by (simp add: Decode_def Let_def extended_words_def swap_consts)

lemma Decode_Encode:
  assumes "length stock = kStockWords" "tk_epoch tok \<noteq> 0" "tk_serial tok \<noteq> 0"
  shows "Decode (view (snd (Encode stock tok True)))
     = (ExtendedPacket, \<lparr>dc_stock = stock, dc_token = tok, dc_extended = True\<rparr>)"
proof -
  let ?p = "view (snd (Encode stock tok True))"
  from assms(1) obtain a b c d where s: "stock = [a, b, c, d]"
    by (auto simp: swap_consts length_Suc_conv numeral_eq_Suc)
  note v = view_Encode(2) [OF assms]
  have p: "?p = [a, b, c, d, kMagic, kVersion, of_nat kExtendedWords,
       ucast (drop_bit 32 (tk_epoch tok)), ucast (tk_epoch tok),
       ucast (drop_bit 32 (tk_serial tok)), ucast (tk_serial tok)]"
    unfolding v by (simp add: s)
  have "extended_words ?p"
    unfolding p using assms(2,3) by (simp add: extended_words_def swap_consts)
  from Decode_Extended [OF this] show ?thesis
    unfolding p by (simp add: s swap_consts)
qed

lemma Decode_is_Encode:
  assumes "Decode p = (ExtendedPacket, d)"
  shows "length (dc_stock d) = kStockWords \<and> tk_epoch (dc_token d) \<noteq> 0 \<and> tk_serial (dc_token d) \<noteq> 0
     \<and> dc_extended d \<and> p = view (snd (Encode (dc_stock d) (dc_token d) True))"
proof -
  have ext: "extended_words p" using assms Decode_Extended_fst [of p] by simp
  then obtain a b c e f g h i j k l where p: "p = [a, b, c, e, f, g, h, i, j, k, l]"
    by (auto simp: extended_words_def kExtendedWords_def length_11)
  have d: "d = \<lparr>dc_stock = [a, b, c, e], dc_token = \<lparr>tk_epoch = join_halves i j,
      tk_serial = join_halves k l\<rparr>, dc_extended = True\<rparr>"
    using Decode_Extended [OF ext] assms by (simp add: p swap_consts)
  have w: "f = kMagic" "g = kVersion" "h = of_nat kExtendedWords" "join_halves i j \<noteq> 0" "join_halves k l \<noteq> 0"
    using ext by (simp_all add: extended_words_def p)
  show ?thesis
    unfolding d using w by (simp add: view_Encode(2) kStockWords_def p)
qed

subsection \<open>Runs of a ledger\<close>

datatype swap_event =
    SwapIssue "u32 list" "u32 list" snapshot
  | SwapConsume "u32 list" "u32 list"

text \<open>What one issue hands out, or one match reports: the token with everything bound to it.\<close>

record binding =
  bd_token :: token
  bd_stock :: "u32 list"
  bd_fetch :: "u32 list"
  bd_snapshot :: snapshot
  bd_result :: snapshot_result

type_synonym swap_log = "ledger \<times> binding list \<times> binding list"

fun swap_step :: "swap_log \<Rightarrow> swap_event \<Rightarrow> swap_log" where
  "swap_step (l, issued, matched) (SwapIssue stock fetch snap) =
     (case issue_swap l stock fetch snap of (l', r, em) \<Rightarrow>
        (l', (if r = TokenIssued
              then issued @ [\<lparr>bd_token = em_token em, bd_stock = stock, bd_fetch = fetch,
                              bd_snapshot = em_snapshot em, bd_result = em_result em\<rparr>]
              else issued), matched))"
| "swap_step (l, issued, matched) (SwapConsume p fetch) =
     (case consume l p fetch of (l', r, m) \<Rightarrow>
        (l', issued, (if r = TokenMatched
              then matched @ [\<lparr>bd_token = mt_token m, bd_stock = dc_stock (snd (Decode p)),
                               bd_fetch = fetch, bd_snapshot = mt_snapshot m,
                               bd_result = mt_result m\<rparr>]
              else matched)))"

definition entry_token :: "ledger \<Rightarrow> nat \<Rightarrow> token" where
  "entry_token l i = \<lparr>tk_epoch = lg_epoch l, tk_serial = of_nat i + 1\<rparr>"

definition binding_of :: "ledger \<Rightarrow> nat \<Rightarrow> binding" where
  "binding_of l i = (let e = lg_entries l ! i in
     \<lparr>bd_token = entry_token l i, bd_stock = se_stock e, bd_fetch = se_fetch e,
      bd_snapshot = se_snapshot e, bd_result = se_result e\<rparr>)"

definition swap_inv :: "swap_log \<Rightarrow> bool" where
  "swap_inv s \<longleftrightarrow> (case s of (l, issued, matched) \<Rightarrow>
     lg_issued l \<le> length (lg_entries l) \<and> length (lg_entries l) \<le> 4096
     \<and> (\<forall>i < lg_issued l. se_issued (lg_entries l ! i))
     \<and> issued = map (binding_of l) [0..<lg_issued l]
     \<and> (\<exists>js. matched = map (binding_of l) js \<and> distinct js
          \<and> (\<forall>j \<in> set js. j < lg_issued l \<and> se_consumed (lg_entries l ! j))))"

definition attempt_results :: "swap_result set" where
  "attempt_results = {TokenMatched, InvalidFetchWordCount, StockMismatch, FetchMismatch}"

lemma Decode_not_attempt: "fst (Decode p) \<notin> attempt_results"
  unfolding attempt_results_def
  by (simp add: Decode_def Let_def)

lemma consume_cases [consumes 1, case_names unchanged attempt]:
  assumes inv: "swap_inv (l, issued, matched)"
  obtains (unchanged) "fst (consume l p f) = l" "fst (snd (consume l p f)) \<notin> attempt_results"
  | (attempt) i where "i < lg_issued l" "fst (Decode p) = ExtendedPacket"
      "dc_token (snd (Decode p)) = entry_token l i"
      "\<not> se_consumed (lg_entries l ! i)"
      "fst (consume l p f) = l\<lparr>lg_entries := (lg_entries l)[i := (lg_entries l ! i)\<lparr>se_consumed := True\<rparr>]\<rparr>"
      "fst (snd (consume l p f)) = TokenMatched \<Longrightarrow> dc_stock (snd (Decode p)) = se_stock (lg_entries l ! i)
         \<and> f = se_fetch (lg_entries l ! i)
         \<and> snd (snd (consume l p f)) = \<lparr>mt_token = entry_token l i,
             mt_snapshot = se_snapshot (lg_entries l ! i), mt_result = se_result (lg_entries l ! i)\<rparr>"
proof -
  obtain r d where dec: "Decode p = (r, d)" by (cases "Decode p")
  define i where "i = unat (tk_serial (dc_token d) - 1)"
  define known where "known \<longleftrightarrow> tk_serial (dc_token d) \<noteq> 0 \<and> unat (tk_serial (dc_token d)) \<le> lg_issued l"
  have unfold: "consume l p f = (if r \<noteq> ExtendedPacket then (l, r, no_match)
      else if \<not> lg_enabled l \<or> tk_epoch (dc_token d) \<noteq> lg_epoch l then (l, TokenEpochMismatch, no_match)
      else if \<not> known then (l, UnissuedToken, no_match)
      else if \<not> se_issued (lg_entries l ! i) then (l, UnissuedToken, no_match)
      else if se_consumed (lg_entries l ! i) then (l, Replay, no_match)
      else let l' = l\<lparr>lg_entries := (lg_entries l)[i := (lg_entries l ! i)\<lparr>se_consumed := True\<rparr>]\<rparr> in
          if length f \<noteq> kFetchWords then (l', InvalidFetchWordCount, no_match)
          else if dc_stock d \<noteq> se_stock (lg_entries l ! i) then (l', StockMismatch, no_match)
          else if f \<noteq> se_fetch (lg_entries l ! i) then (l', FetchMismatch, no_match)
          else (l', TokenMatched, \<lparr>mt_token = dc_token d, mt_snapshot = se_snapshot (lg_entries l ! i),
                  mt_result = se_result (lg_entries l ! i)\<rparr>))"
    unfolding consume_def dec Let_def prod.case known_def i_def de_Morgan_conj not_not not_le by simp
  show thesis
  proof (cases "r = ExtendedPacket \<and> lg_enabled l \<and> tk_epoch (dc_token d) = lg_epoch l
      \<and> known \<and> se_issued (lg_entries l ! i) \<and> \<not> se_consumed (lg_entries l ! i)")
    case False
    then show thesis
      using Decode_not_attempt [of p] by (intro unchanged) (auto simp: unfold dec attempt_results_def)
  next
    case True
    then have s: "tk_serial (dc_token d) \<noteq> 0" "unat (tk_serial (dc_token d)) \<le> lg_issued l"
      by (simp_all add: known_def)
    have i: "i < lg_issued l" using serial_index(1) [OF s(1)] s(2) by (simp add: i_def)
    have tok: "dc_token d = entry_token l i"
      using True serial_index(2) [OF s(1)] by (simp add: entry_token_def i_def)
    show thesis
      using True i by (intro attempt [of i]) (simp_all add: unfold Let_def dec tok split: if_split_asm)
  qed
qed

lemma binding_consumed [simp]:
  "binding_of (l\<lparr>lg_entries := (lg_entries l)[i := (lg_entries l ! i)\<lparr>se_consumed := True\<rparr>]\<rparr>) j = binding_of l j"
  by (cases "i < length (lg_entries l)"; cases "i = j")
    (simp_all add: binding_of_def entry_token_def Let_def list_update_beyond)

lemma consume_inv:
  assumes inv: "swap_inv (l, issued, matched)"
  shows "swap_inv (swap_step (l, issued, matched) (SwapConsume p f))"
using inv proof (cases rule: consume_cases [of l issued matched p f])
  case unchanged
  with inv show ?thesis by (cases "consume l p f") (auto simp: attempt_results_def)
next
  case (attempt i)
  obtain r m where c: "consume l p f =
      (l\<lparr>lg_entries := (lg_entries l)[i := (lg_entries l ! i)\<lparr>se_consumed := True\<rparr>]\<rparr>, r, m)"
    using attempt(5) by (cases "consume l p f") auto
  from inv obtain js where js: "matched = map (binding_of l) js" "distinct js"
      "\<forall>j \<in> set js. j < lg_issued l \<and> se_consumed (lg_entries l ! j)"
    by (auto simp: swap_inv_def)
  have fresh: "i \<notin> set js" using js(3) attempt(4) by blast
  let ?l = "l\<lparr>lg_entries := (lg_entries l)[i := (lg_entries l ! i)\<lparr>se_consumed := True\<rparr>]\<rparr>"
  have keep: "\<forall>j < lg_issued l. se_issued (lg_entries ?l ! j)"
    and cons: "\<forall>j \<in> set js. j < lg_issued l \<and> se_consumed (lg_entries ?l ! j)"
    and me: "se_consumed (lg_entries ?l ! i)"
    using inv js(3) attempt(1) by (auto simp: swap_inv_def nth_list_update)
  have step: "swap_step (l, issued, matched) (SwapConsume p f)
      = (?l, issued, map (binding_of l) (if r = TokenMatched then js @ [i] else js))"
    using attempt(6) c js(1) by (auto simp: binding_of_def Let_def entry_token_def)
  show ?thesis
    unfolding step using inv keep cons me js(2) fresh attempt(1)
    by (auto simp: swap_inv_def intro!: exI [of _ "if r = TokenMatched then js @ [i] else js"])
qed

lemma issue_inv:
  assumes inv: "swap_inv (l, issued, matched)"
  shows "swap_inv (swap_step (l, issued, matched) (SwapIssue stock fetch snap))"
proof (cases "length stock = kStockWords \<and> lg_enabled l \<and> length fetch = kFetchWords
    \<and> lg_epoch l \<noteq> 0 \<and> lg_issued l \<noteq> length (lg_entries l)")
  case False
  then have "fst (issue_swap l stock fetch snap) = l"
    "fst (snd (issue_swap l stock fetch snap)) \<noteq> TokenIssued"
    by (auto simp: issue_swap_def Encode_def Let_def)
  with inv show ?thesis by (cases "issue_swap l stock fetch snap") auto
next
  case True
  let ?e = "\<lparr>se_stock = stock, se_fetch = fetch, se_snapshot = snd (NormalizeSnapshot snap),
             se_result = fst (NormalizeSnapshot snap), se_issued = True, se_consumed = False\<rparr>"
  let ?l = "l\<lparr>lg_entries := (lg_entries l)[lg_issued l := ?e], lg_issued := Suc (lg_issued l)\<rparr>"
  from inv obtain js where js: "matched = map (binding_of l) js" "distinct js"
      "\<forall>j \<in> set js. j < lg_issued l \<and> se_consumed (lg_entries l ! j)"
    by (auto simp: swap_inv_def)
  have room: "lg_issued l < length (lg_entries l)" using True inv by (simp add: swap_inv_def)
  have old: "binding_of ?l i = binding_of l i" if "i < lg_issued l" for i
    using that by (simp add: binding_of_def entry_token_def)
  have step: "swap_step (l, issued, matched) (SwapIssue stock fetch snap)
      = (?l, issued @ [binding_of ?l (lg_issued l)], matched)"
    using True room by (simp add: issue_swap_def Let_def binding_of_def entry_token_def)
  have "map (binding_of ?l) [0..<lg_issued l] = map (binding_of l) [0..<lg_issued l]"
    by (rule map_cong) (simp_all add: old)
  then have iss: "issued = map (binding_of ?l) [0..<lg_issued l]"
    using inv by (simp add: swap_inv_def)
  have "map (binding_of ?l) js = map (binding_of l) js"
    using js(3) by (intro map_cong) (simp_all add: old)
  with js(1) have mat: "matched = map (binding_of ?l) js" by simp
  have all: "\<forall>i < lg_issued ?l. se_issued (lg_entries ?l ! i)"
    and used: "\<forall>j \<in> set js. j < lg_issued ?l \<and> se_consumed (lg_entries ?l ! j)"
    using inv room js(3) by (auto simp: swap_inv_def less_Suc_eq)
  have iss': "issued @ [binding_of ?l (lg_issued l)] = map (binding_of ?l) [0..<lg_issued ?l]"
    using iss by simp
  show ?thesis
    unfolding step swap_inv_def prod.case
  proof (intro conjI)
    show "\<exists>js. matched = map (binding_of ?l) js \<and> distinct js
        \<and> (\<forall>j \<in> set js. j < lg_issued ?l \<and> se_consumed (lg_entries ?l ! j))"
      using mat js(2) used by blast
  qed (use all iss' inv room in \<open>simp_all add: swap_inv_def\<close>)
qed

lemma swap_step_inv: "swap_inv s \<Longrightarrow> swap_inv (swap_step s e)"
  by (cases s; cases e) (simp_all only: issue_inv consume_inv)

interpretation swaps: machine swap_step swap_inv
  by unfold_locales (rule swap_step_inv)

lemma swap_inv_new: "capacity \<le> 4096 \<Longrightarrow> swap_inv (new_ledger capacity epoch enabled, [], [])"
  by (simp add: swap_inv_def new_ledger_def)

lemma entry_token_inject:
  assumes "i < 4096" "j < 4096"
  shows "entry_token l i = entry_token l j \<longleftrightarrow> i = j"
proof -
  have "(of_nat i :: u64) = of_nat j \<longleftrightarrow> i = j"
    using assms by (simp add: of_nat_inverse word_unat_eq_iff unat_of_nat)
  then show ?thesis by (simp add: entry_token_def)
qed

lemma swap_run_inv:
  assumes "capacity \<le> 4096"
  shows "swap_inv (run_events swap_step (new_ledger capacity epoch enabled, [], []) es)"
  by (rule swaps.inv_run [OF swap_inv_new [OF assms]])

lemma distinct_tokens:
  assumes "distinct js" "\<forall>j \<in> set js. j < n" "n \<le> 4096"
  shows "distinct (map (entry_token l) js)"
proof -
  have "inj_on (entry_token l) (set js)"
    using assms(2,3) by (intro inj_onI) (metis entry_token_inject less_le_trans)
  with assms(1) show ?thesis by (simp add: distinct_map)
qed

lemma binding_token [simp]: "bd_token (binding_of l i) = entry_token l i"
  by (simp add: binding_of_def Let_def)

text \<open>A token recognised once is spent: its entry stays consumed.\<close>

definition spent :: "ledger \<Rightarrow> nat \<Rightarrow> bool" where
  "spent l i \<longleftrightarrow> i < lg_issued l \<and> se_consumed (lg_entries l ! i)"

lemma issue_frame:
  obtains (same) "fst (issue_swap l stock fetch snap) = l"
  | (next_entry) e where "fst (issue_swap l stock fetch snap)
      = l\<lparr>lg_entries := (lg_entries l)[lg_issued l := e], lg_issued := lg_issued l + 1\<rparr>"
proof (cases "length stock = kStockWords \<and> lg_enabled l \<and> length fetch = kFetchWords
    \<and> lg_epoch l \<noteq> 0 \<and> lg_issued l \<noteq> length (lg_entries l)")
  case True
  then show ?thesis by (intro next_entry) (simp add: issue_swap_def Let_def)
next
  case False
  then show ?thesis by (intro same) (auto simp: issue_swap_def Encode_def Let_def)
qed

lemma spent_step:
  assumes "swap_inv s" "spent (fst s) i"
  shows "spent (fst (swap_step s e)) i \<and> lg_epoch (fst (swap_step s e)) = lg_epoch (fst s)"
proof -
  obtain l issued matched where s: "s = (l, issued, matched)" by (cases s)
  show ?thesis
  proof (cases e)
    case (SwapIssue stock fetch snap)
    then have f: "fst (swap_step s e) = fst (issue_swap l stock fetch snap)"
      by (simp add: s split: prod.splits)
    show ?thesis
      unfolding f using assms(2)
      by (cases rule: issue_frame [of l stock fetch snap]) (simp_all add: s spent_def)
  next
    case (SwapConsume p f)
    then have step: "fst (swap_step s e) = fst (consume l p f)"
      by (simp add: s split: prod.splits)
    show ?thesis
      unfolding step using assms(1) [unfolded s]
    proof (cases rule: consume_cases [of l issued matched p f])
      case unchanged
      then show "spent (fst (consume l p f)) i \<and> lg_epoch (fst (consume l p f)) = lg_epoch (fst s)"
        using assms(2) by (simp add: s)
    next
      case (attempt k)
      have "k < length (lg_entries l)" using attempt(1) assms(1) by (simp add: s swap_inv_def)
      then show "spent (fst (consume l p f)) i \<and> lg_epoch (fst (consume l p f)) = lg_epoch (fst s)"
        using assms(2) attempt(4) by (simp add: s attempt(5) spent_def nth_list_update)
    qed
  qed
qed

lemma spent_run:
  "swap_inv s \<Longrightarrow> spent (fst s) i \<Longrightarrow>
   spent (fst (run_events swap_step s es)) i \<and> lg_epoch (fst (run_events swap_step s es)) = lg_epoch (fst s)"
proof (induction es arbitrary: s)
  case (Cons e es)
  from Cons.IH [OF swap_step_inv [OF Cons.prems(1)], of e] spent_step [OF Cons.prems, of e]
  show ?case by simp
qed simp

lemma spent_never_matches:
  assumes "swap_inv (l, issued, matched)" "spent l i" "dc_token (snd (Decode p)) = entry_token l i"
  shows "fst (snd (consume l p f)) \<noteq> TokenMatched \<and> fst (consume l p f) = l"
  using assms(1)
proof (cases rule: consume_cases [of l issued matched p f])
  case unchanged
  then show "fst (snd (consume l p f)) \<noteq> TokenMatched \<and> fst (consume l p f) = l"
    by (auto simp: attempt_results_def)
next
  case (attempt k)
  have "lg_issued l \<le> 4096" using assms(1) by (simp add: swap_inv_def)
  then have "k = i"
    using attempt(1,3) assms(2,3) by (simp add: spent_def entry_token_inject)
  with attempt(4) assms(2) show "fst (snd (consume l p f)) \<noteq> TokenMatched \<and> fst (consume l p f) = l"
    by (simp add: spent_def)
qed

definition holds_entry :: "swap_log \<Rightarrow> u64 \<Rightarrow> nat \<Rightarrow> swap_entry \<Rightarrow> bool" where
  "holds_entry s epoch i e \<longleftrightarrow> (case s of (l, _) \<Rightarrow>
     lg_enabled l \<and> lg_epoch l = epoch \<and> i < lg_issued l \<and> i < length (lg_entries l)
     \<and> lg_entries l ! i = e)"

lemma holds_step:
  assumes "holds_entry s epoch i e" and inv: "swap_inv s"
    and "\<And>p f. ev = SwapConsume p f \<Longrightarrow> dc_token (snd (Decode p)) \<noteq> \<lparr>tk_epoch = epoch, tk_serial = of_nat i + 1\<rparr>"
  shows "holds_entry (swap_step s ev) epoch i e"
proof -
  obtain l r where s: "s = (l, r)" by (cases s)
  show ?thesis
  proof (cases ev)
    case (SwapIssue stock fetch snap)
    then have f: "fst (swap_step s ev) = fst (issue_swap l stock fetch snap)"
      by (cases r) (simp add: s split: prod.splits)
    show ?thesis
      unfolding holds_entry_def case_prod_beta f using assms(1)
      by (cases rule: issue_frame [of l stock fetch snap]) (simp_all add: s holds_entry_def issue_swap_def)
  next
    case (SwapConsume p f)
    then have step: "fst (swap_step s ev) = fst (consume l p f)"
      by (cases r) (simp add: s split: prod.splits)
    obtain issued matched where sp: "s = (l, issued, matched)" using s by (cases r) simp
    show ?thesis
      unfolding holds_entry_def case_prod_beta step using inv [unfolded sp]
    proof (cases rule: consume_cases [of l issued matched p f])
      case unchanged
      show "lg_enabled (fst (consume l p f)) \<and> lg_epoch (fst (consume l p f)) = epoch
          \<and> i < lg_issued (fst (consume l p f)) \<and> i < length (lg_entries (fst (consume l p f)))
          \<and> lg_entries (fst (consume l p f)) ! i = e"
        unfolding unchanged(1) using assms(1) by (simp add: s holds_entry_def)
    next
      case (attempt k)
      have "k \<noteq> i"
        using attempt(3) assms(1,3) SwapConsume by (auto simp: s holds_entry_def entry_token_def)
      then show "lg_enabled (fst (consume l p f)) \<and> lg_epoch (fst (consume l p f)) = epoch
          \<and> i < lg_issued (fst (consume l p f)) \<and> i < length (lg_entries (fst (consume l p f)))
          \<and> lg_entries (fst (consume l p f)) ! i = e"
        unfolding attempt(5) using assms(1) by (simp add: s holds_entry_def)
    qed
  qed
qed

lemma holds_run:
  assumes "holds_entry s epoch i e" and "swap_inv s"
    and "\<And>p f. SwapConsume p f \<in> set es \<Longrightarrow> dc_token (snd (Decode p)) \<noteq> \<lparr>tk_epoch = epoch, tk_serial = of_nat i + 1\<rparr>"
  shows "holds_entry (run_events swap_step s es) epoch i e"
  using assms
proof (induction es arbitrary: s)
  case (Cons ev es)
  have "holds_entry (swap_step s ev) epoch i e"
    using Cons.prems by (intro holds_step) auto
  moreover have "swap_inv (swap_step s ev)" by (rule swap_step_inv [OF Cons.prems(2)])
  ultimately have "holds_entry (run_events swap_step (swap_step s ev) es) epoch i e"
    by (rule Cons.IH) (use Cons.prems(3) in auto)
  then show ?case by simp
qed simp

subsection \<open>Properties\<close>

text \<open>The token packet is a lossless code: a payload decodes as an extended packet exactly when it
  is the view of what \<open>Encode\<close> writes for that stock and that token, with four stock words and
  both token halves nonzero; every other payload is rejected or read as a legacy packet.\<close>

theorem swap_packet_roundtrip:
  "Decode p = (ExtendedPacket, \<lparr>dc_stock = stock, dc_token = tok, dc_extended = True\<rparr>) \<longleftrightarrow>
     length stock = kStockWords \<and> tk_epoch tok \<noteq> 0 \<and> tk_serial tok \<noteq> 0
     \<and> p = view (snd (Encode stock tok True))"
  using Decode_Encode [of stock tok] Decode_is_Encode [of p] by fastforce

text \<open>C22: over every sequence of issues and consumes, the tokens issued are numbered without
  repetition, every match reports exactly what was bound to that token when it was issued (stock
  words, fetch words and snapshot), and no token is matched twice.\<close>

theorem swap_tokens_matched_once:
  assumes "capacity \<le> 4096"
  shows "case run_events swap_step (new_ledger capacity epoch enabled, [], []) es of (l, issued, matched) \<Rightarrow>
     length issued \<le> capacity \<and> distinct (map bd_token issued)
     \<and> set matched \<subseteq> set issued \<and> distinct (map bd_token matched)"
proof -
  have len: "length (lg_entries (fst (swap_step s e))) = length (lg_entries (fst s))" for s e
    by (cases s; cases e) (simp_all add: issue_swap_def consume_def Let_def split: prod.splits if_splits)
  have "length (lg_entries (fst (run_events swap_step s es))) = length (lg_entries (fst s))" for s
    by (induction es arbitrary: s) (simp_all add: len)
  from this [of "(new_ledger capacity epoch enabled, [], [])"]
  have cap: "length (lg_entries (fst (run_events swap_step (new_ledger capacity epoch enabled, [], []) es))) = capacity"
    by (simp add: new_ledger_def)
  obtain l issued matched where r:
    "run_events swap_step (new_ledger capacity epoch enabled, [], []) es = (l, issued, matched)"
    by (metis prod_cases3)
  have inv: "swap_inv (l, issued, matched)" using swap_run_inv [OF assms, of epoch enabled es] by (simp add: r)
  then obtain js where js: "matched = map (binding_of l) js" "distinct js" "\<forall>j \<in> set js. j < lg_issued l"
    by (auto simp: swap_inv_def)
  have iss: "issued = map (binding_of l) [0..<lg_issued l]" and n: "lg_issued l \<le> 4096" "lg_issued l \<le> capacity"
    using inv cap by (simp_all add: swap_inv_def r)
  have "distinct (map (entry_token l) js)" "distinct (map (entry_token l) [0..<lg_issued l])"
    using js n by (auto intro!: distinct_tokens)
  then show ?thesis
    using js n by (auto simp: r iss comp_def)
qed

theorem swap_tokens_matched_once_witness:
  "case run_events swap_step (new_ledger 2 7 True, [], [])
      [SwapIssue [1, 2, 3, 4] [1, 2, 3, 4, 5, 6] no_snapshot] of (l, issued, matched) \<Rightarrow>
     length issued \<le> 2 \<and> distinct (map bd_token issued) \<and> set matched \<subseteq> set issued
     \<and> distinct (map bd_token matched)"
  by (rule swap_tokens_matched_once) simp

text \<open>A recognised token gets one attempt. After a consume that was matched, or refused for its
  fetch count, its stock or its fetch words, no later consume of a packet with that token is ever
  matched or changes the ledger, whatever happens in between.\<close>

theorem swap_one_attempt:
  assumes "swap_inv (l, issued, matched)"
    and "fst (snd (consume l p f)) \<in> attempt_results"
    and "dc_token (snd (Decode p')) = dc_token (snd (Decode p))"
  shows "case run_events swap_step (swap_step (l, issued, matched) (SwapConsume p f)) es of (l', _) \<Rightarrow>
     fst (snd (consume l' p' f')) \<noteq> TokenMatched \<and> fst (consume l' p' f') = l'"
proof -
  let ?s = "swap_step (l, issued, matched) (SwapConsume p f)"
  have fst_s: "fst ?s = fst (consume l p f)" by (simp split: prod.splits)
  have inv: "swap_inv ?s" using assms(1) by (rule swap_step_inv)
  obtain i where i: "spent (fst ?s) i" "dc_token (snd (Decode p)) = entry_token (fst ?s) i"
    using assms(1)
  proof (cases rule: consume_cases [of l issued matched p f])
    case unchanged
    with assms(2) show thesis by simp
  next
    case (attempt k)
    then have "k < length (lg_entries l)" using assms(1) by (simp add: swap_inv_def)
    with attempt have "spent (fst ?s) k" "dc_token (snd (Decode p)) = entry_token (fst ?s) k"
      by (simp_all only: fst_s) (simp_all add: spent_def entry_token_def)
    then show thesis by (rule that)
  qed
  obtain l' is' ms' where r: "run_events swap_step ?s es = (l', is', ms')" by (metis prod_cases3)
  have "swap_inv (l', is', ms')" using swaps.inv_run [OF inv, of es] by (simp only: r)
  moreover have "spent l' i" "lg_epoch l' = lg_epoch (fst ?s)"
    using spent_run [OF inv i(1), of es] by (simp_all only: r fst_conv)
  moreover have "dc_token (snd (Decode p')) = entry_token l' i"
    using assms(3) i(2) calculation(3) by (simp only: entry_token_def)
  ultimately show ?thesis
    unfolding r prod.case using spent_never_matches [of l' is' ms' i p' f'] attempt_results_def by blast
qed

definition example_ledger :: ledger where
  "example_ledger = new_ledger 1 7 True"

definition example_swap :: "u32 list" where "example_swap = [1, 2, 3, 4]"
definition example_fetch :: "u32 list" where "example_fetch = [1, 2, 3, 4, 5, 6]"

definition example_issued :: ledger where
  "example_issued = fst (issue_swap example_ledger example_swap example_fetch no_snapshot)"

definition example_packet :: "u32 list" where
  "example_packet = view (snd (Encode example_swap \<lparr>tk_epoch = 7, tk_serial = 1\<rparr> True))"

lemma example_issue:
  "issue_swap example_ledger example_swap example_fetch no_snapshot
     = (example_issued, TokenIssued, \<lparr>em_payload = snd (Encode example_swap \<lparr>tk_epoch = 7, tk_serial = 1\<rparr> True),
          em_token = \<lparr>tk_epoch = 7, tk_serial = 1\<rparr>, em_snapshot = no_snapshot, em_result = SnapUnavailable\<rparr>)"
  by (simp add: example_issued_def issue_swap_def example_ledger_def new_ledger_def example_swap_def
      example_fetch_def swap_consts NormalizeSnapshot_def no_snapshot_def Let_def)

lemma example_inv: "swap_inv (example_ledger, [], [])"
  unfolding example_ledger_def by (rule swap_inv_new) simp

theorem swap_one_attempt_witness:
  "fst (snd (consume example_issued example_packet [])) = InvalidFetchWordCount
   \<and> fst (snd (consume (fst (consume example_issued example_packet [])) example_packet example_fetch)) \<noteq> TokenMatched"
proof -
  have "swap_inv (swap_step (example_ledger, [], []) (SwapIssue example_swap example_fetch no_snapshot))"
    by (rule swap_step_inv [OF example_inv])
  then obtain is' where inv: "swap_inv (example_issued, is', [])"
    by (auto simp: example_issue)
  have r: "fst (snd (consume example_issued example_packet [])) = InvalidFetchWordCount" by code_simp
  then have "fst (snd (consume example_issued example_packet [])) \<in> attempt_results"
    by (simp add: attempt_results_def)
  from swap_one_attempt [OF inv this refl, where es = "[]" and f' = example_fetch] r show ?thesis
    by (simp split: prod.splits)
qed

text \<open>An issued token is admissible: unless some consume presented it in between, consuming the
  emitted payload with the fetch words it was issued for is matched, and hands back the snapshot and
  its status as they were normalised at issue.\<close>

theorem swap_issue_then_match:
  assumes inv: "swap_inv (l, issued, matched)"
    and issue: "issue_swap l stock fetch snap = (l1, TokenIssued, em)"
    and quiet: "\<forall>p f. SwapConsume p f \<in> set es \<longrightarrow> dc_token (snd (Decode p)) \<noteq> em_token em"
  shows "case run_events swap_step (swap_step (l, issued, matched) (SwapIssue stock fetch snap)) es of (l', _) \<Rightarrow>
     snd (consume l' (view (em_payload em)) fetch)
       = (TokenMatched, \<lparr>mt_token = em_token em, mt_snapshot = em_snapshot em, mt_result = em_result em\<rparr>)"
proof -
  have ok: "length stock = kStockWords \<and> lg_enabled l \<and> length fetch = kFetchWords
    \<and> lg_epoch l \<noteq> 0 \<and> lg_issued l < length (lg_entries l)"
    using inv issue by (auto simp: swap_inv_def issue_swap_def Encode_def Let_def split: if_splits)
  let ?n = "NormalizeSnapshot snap" and ?tok = "entry_token l (lg_issued l)"
  let ?e = "\<lparr>se_stock = stock, se_fetch = fetch, se_snapshot = snd ?n, se_result = fst ?n,
     se_issued = True, se_consumed = False\<rparr>"
  have l1: "l1 = l\<lparr>lg_entries := (lg_entries l)[lg_issued l := ?e], lg_issued := lg_issued l + 1\<rparr>"
    and em: "em = \<lparr>em_payload = snd (Encode stock ?tok True), em_token = ?tok, em_snapshot = snd ?n,
        em_result = fst ?n\<rparr>"
    using issue ok by (auto simp: issue_swap_def Let_def entry_token_def)
  have small: "lg_issued l < 4096" using ok inv by (simp add: swap_inv_def)
  let ?s = "swap_step (l, issued, matched) (SwapIssue stock fetch snap)"
  have fst_s: "fst ?s = l1" using issue by simp
  have "holds_entry ?s (lg_epoch l) (lg_issued l) ?e"
    unfolding holds_entry_def case_prod_beta fst_s using ok by (simp add: l1)
  then have "holds_entry (run_events swap_step ?s es) (lg_epoch l) (lg_issued l) ?e"
    by (rule holds_run) (rule swap_step_inv [OF inv], use quiet in \<open>auto simp: em entry_token_def\<close>)
  then obtain l' r where run: "run_events swap_step ?s es = (l', r)"
    and h: "lg_enabled l'" "lg_epoch l' = lg_epoch l" "lg_issued l < lg_issued l'"
      "lg_issued l < length (lg_entries l')" "lg_entries l' ! lg_issued l = ?e"
    by (cases "run_events swap_step ?s es") (auto simp: holds_entry_def)
  have u: "unat (of_nat (lg_issued l) + 1 :: u64) = lg_issued l + 1" "unat (of_nat (lg_issued l) :: u64) = lg_issued l"
    using small by (simp_all add: unat_word_ariths unat_of_nat)
  then have nz: "tk_serial ?tok \<noteq> 0" by (auto simp: entry_token_def)
  have dec: "Decode (view (em_payload em)) = (ExtendedPacket, \<lparr>dc_stock = stock, dc_token = ?tok, dc_extended = True\<rparr>)"
    unfolding em emission.select_convs
    by (rule Decode_Encode) (use ok nz in \<open>simp_all add: entry_token_def\<close>)
  have i: "unat (tk_serial ?tok - 1) = lg_issued l" "unat (tk_serial ?tok) \<le> lg_issued l'"
    "tk_epoch ?tok = lg_epoch l"
    using u h(3) by (simp_all add: entry_token_def)
  show ?thesis
    unfolding run prod.case consume_def dec Let_def using i h nz ok
    by (simp add: em)
qed

theorem swap_issue_then_match_witness:
  "fst (snd (consume example_issued example_packet example_fetch)) = TokenMatched"
  using swap_issue_then_match [OF example_inv example_issue, of "[]"]
  by (simp add: example_issue example_packet_def)

end
