(* ===== verification/TimerJournal.thy ===== *)
theory TimerJournal
  imports Prelude
begin

section \<open>Timer journal (\<open>mcla_timer_journal.h\<close>)\<close>

text \<open>
  Append-only storage of supplied timer observations with conservative issue flags. \<open>Journal\<close> is
  a record of its data members; the array of records is the list of the \<open>size_\<close> used ones and
  \<open>Capacity\<close> is an argument. Issue sets are flag words (see \<open>Prelude\<close>).
\<close>

subsection \<open>Model\<close>

definition kMaxFrequency :: u64 where "kMaxFrequency = 10000000000"
definition kMaxWindowSeconds :: u64 where "kMaxWindowSeconds = 12"

record window =
  wn_begin :: u64
  wn_end :: u64
  wn_frequency :: u64

definition window_valid :: "window \<Rightarrow> bool" where
  "window_valid w \<longleftrightarrow> wn_begin w \<noteq> 0 \<and> wn_begin w < wn_end w \<and> wn_end w \<le> kMaxQpc
     \<and> wn_frequency w \<noteq> 0 \<and> wn_frequency w \<le> kMaxFrequency
     \<and> wn_end w - wn_begin w \<le> kMaxWindowSeconds * wn_frequency w"

record identity =
  idn_timer :: u32
  idn_caller :: u32
  idn_thread :: u64

definition identity_valid :: "identity \<Rightarrow> bool" where
  "identity_valid i \<longleftrightarrow> idn_timer i \<noteq> 0 \<and> idn_caller i \<noteq> 0 \<and> idn_thread i \<noteq> 0"

definition kWordOffsets :: "u32 list" where
  "kWordOffsets = [8, 16, 20, 24, 28, 32, 36, 40, 44, 48, 52, 60, 84, 88, 92, 96, 100, 104]"
definition kByteOffsets :: "u32 list" where "kByteOffsets = [56, 58, 72]"
definition kQwordOffsets :: "u32 list" where "kQwordOffsets = [64]"

record timer_state =
  ts_words :: "u32 list"
  ts_bytes :: "u8 list"
  ts_qwords :: "u64 list"

definition no_state :: timer_state where
  "no_state = \<lparr>ts_words = replicate (length kWordOffsets) 0, ts_bytes = replicate (length kByteOffsets) 0,
     ts_qwords = replicate (length kQwordOffsets) 0\<rparr>"

record observation =
  ob_identity :: identity
  ob_entry :: u64
  ob_exit :: u64
  ob_r5 :: u8
  ob_f1 :: u64
  ob_before :: timer_state
  ob_after :: timer_state
  ob_before_available :: bool
  ob_after_available :: bool

datatype timer_issue = InvalidWindow | InvalidClock | MissingIdentity | MissingState
  | StraddlesBegin | StraddlesEnd | OutsideBefore | OutsideAfter | IntervalsOverlap
  | SharedAddress | EntryRegressed | ExitRegressed | StorageOverflow | CounterSaturated

fun issue_bit :: "timer_issue \<Rightarrow> nat" where
  "issue_bit InvalidWindow = 0"
| "issue_bit InvalidClock = 1"
| "issue_bit MissingIdentity = 2"
| "issue_bit MissingState = 3"
| "issue_bit StraddlesBegin = 4"
| "issue_bit StraddlesEnd = 5"
| "issue_bit OutsideBefore = 6"
| "issue_bit OutsideAfter = 7"
| "issue_bit IntervalsOverlap = 8"
| "issue_bit SharedAddress = 9"
| "issue_bit EntryRegressed = 10"
| "issue_bit ExitRegressed = 11"
| "issue_bit StorageOverflow = 12"
| "issue_bit CounterSaturated = 13"

record timer_row =
  tr_observation :: observation
  tr_ordinal :: u64
  tr_issues :: u32
  tr_inside :: bool

record journal =
  jn_window :: window
  jn_records :: "timer_row list"
  jn_observed :: u64
  jn_issues :: u32
  jn_previous_entry :: u64
  jn_previous_exit :: u64
  jn_have_previous :: bool

definition new_journal :: "window \<Rightarrow> journal" where
  "new_journal w = \<lparr>jn_window = w, jn_records = [], jn_observed = 0,
     jn_issues = flag_if (\<not> window_valid w) (issue_bit InvalidWindow),
     jn_previous_entry = 0, jn_previous_exit = 0, jn_have_previous = False\<rparr>"

definition valid_clock :: "observation \<Rightarrow> bool" where
  "valid_clock ob \<longleftrightarrow> ob_entry ob \<noteq> 0 \<and> ob_entry ob \<le> ob_exit ob \<and> ob_exit ob \<le> kMaxQpc"

text \<open>The flags an observation gets from itself and the window.\<close>

definition own_issues :: "window \<Rightarrow> observation \<Rightarrow> u32" where
  "own_issues w ob =
     (let clock_valid = valid_clock ob; placed = clock_valid \<and> window_valid w in
      or (flag_if (\<not> window_valid w) (issue_bit InvalidWindow))
      (or (flag_if (\<not> clock_valid) (issue_bit InvalidClock))
      (or (flag_if (\<not> identity_valid (ob_identity ob)) (issue_bit MissingIdentity))
      (or (flag_if (\<not> ob_before_available ob \<or> \<not> ob_after_available ob) (issue_bit MissingState))
      (or (flag_if (placed \<and> ob_exit ob < wn_begin w) (issue_bit OutsideBefore))
      (or (flag_if (placed \<and> ob_entry ob \<ge> wn_end w) (issue_bit OutsideAfter))
      (or (flag_if (placed \<and> ob_entry ob < wn_begin w \<and> ob_exit ob \<ge> wn_begin w) (issue_bit StraddlesBegin))
          (flag_if (placed \<and> ob_entry ob < wn_end w \<and> ob_exit ob \<ge> wn_end w) (issue_bit StraddlesEnd)))))))))"

definition wholly_inside :: "window \<Rightarrow> observation \<Rightarrow> bool" where
  "wholly_inside w ob \<longleftrightarrow> valid_clock ob \<and> window_valid w
     \<and> ob_entry ob \<ge> wn_begin w \<and> ob_exit ob < wn_end w"

text \<open>The flags one earlier observation and the new one give each other.\<close>

definition overlap_issues :: "observation \<Rightarrow> observation \<Rightarrow> u32" where
  "overlap_issues ob previous =
     (if valid_clock previous \<and> ob_entry ob \<le> ob_exit previous \<and> ob_entry previous \<le> ob_exit ob then
        or (flag (issue_bit IntervalsOverlap))
           (flag_if (idn_timer (ob_identity ob) \<noteq> 0
                \<and> idn_timer (ob_identity ob) = idn_timer (ob_identity previous)) (issue_bit SharedAddress))
      else 0)"

fun overlap_loop :: "observation \<Rightarrow> u32 \<Rightarrow> timer_row list \<Rightarrow> u32 \<times> timer_row list" where
  "overlap_loop ob row_issues [] = (row_issues, [])"
| "overlap_loop ob row_issues (old # rest) =
     (let overlap = overlap_issues ob (tr_observation old) in
      case overlap_loop ob (or row_issues overlap) rest of
        (issues, rest') \<Rightarrow> (issues, old\<lparr>tr_issues := or (tr_issues old) overlap\<rparr> # rest'))"

definition observe :: "nat \<Rightarrow> journal \<Rightarrow> observation \<Rightarrow> journal \<times> bool" where
  "observe capacity j0 ob =
     (let j = (if jn_observed j0 \<noteq> 0xFFFFFFFFFFFFFFFF then j0\<lparr>jn_observed := jn_observed j0 + 1\<rparr>
               else j0\<lparr>jn_issues := set_flag (jn_issues j0) (issue_bit CounterSaturated)\<rparr>) in
      if length (jn_records j) = capacity
      then (j\<lparr>jn_issues := set_flag (jn_issues j) (issue_bit StorageOverflow)\<rparr>, False)
      else
        let clock_valid = valid_clock ob;
            own = own_issues (jn_window j) ob;
            (overlapped, old) = (if clock_valid then overlap_loop ob own (jn_records j)
                                 else (own, jn_records j));
            ordered = clock_valid \<and> jn_have_previous j;
            issues = or overlapped
              (or (flag_if (ordered \<and> ob_entry ob < jn_previous_entry j) (issue_bit EntryRegressed))
                  (flag_if (ordered \<and> ob_exit ob < jn_previous_exit j) (issue_bit ExitRegressed)));
            row = \<lparr>tr_observation = ob, tr_ordinal = jn_observed j, tr_issues = issues,
                   tr_inside = wholly_inside (jn_window j) ob\<rparr>;
            j' = (if clock_valid
                  then j\<lparr>jn_previous_entry := ob_entry ob, jn_previous_exit := ob_exit ob,
                         jn_have_previous := True\<rparr>
                  else j) in
        (j'\<lparr>jn_issues := or (jn_issues j') issues, jn_records := old @ [row]\<rparr>, True))"

definition overflowed :: "journal \<Rightarrow> bool" where
  "overflowed j \<longleftrightarrow> has_flag (jn_issues j) (issue_bit StorageOverflow)"

subsection \<open>Appending\<close>

lemma issue_bit_inject [simp]: "issue_bit a = issue_bit b \<longleftrightarrow> a = b"
  by (cases a; cases b) simp_all

lemma issue_bit_less [simp]: "issue_bit a < 32"
  by (cases a) simp_all

lemma overlap_loop_map:
  "overlap_loop ob m rows =
     (fold (\<lambda>old k. or k (overlap_issues ob (tr_observation old))) rows m,
      map (\<lambda>old. old\<lparr>tr_issues := or (tr_issues old) (overlap_issues ob (tr_observation old))\<rparr>) rows)"
  by (induction rows arbitrary: m) (simp_all add: Let_def)

lemma has_flag_fold:
  "has_flag (fold (\<lambda>x k. or k (f x)) xs m) n \<longleftrightarrow> has_flag m n \<or> (\<exists>x \<in> set xs. has_flag (f x) n)"
  by (induction xs arbitrary: m) auto

definition touches :: "observation \<Rightarrow> observation \<Rightarrow> bool" where
  "touches a b \<longleftrightarrow> valid_clock a \<and> valid_clock b \<and> ob_entry a \<le> ob_exit b \<and> ob_entry b \<le> ob_exit a"

definition shares_timer :: "observation \<Rightarrow> observation \<Rightarrow> bool" where
  "shares_timer a b \<longleftrightarrow> idn_timer (ob_identity a) \<noteq> 0
     \<and> idn_timer (ob_identity a) = idn_timer (ob_identity b)"

lemma touches_sym: "touches a b \<longleftrightarrow> touches b a"
  by (auto simp: touches_def)

lemma shares_timer_sym: "shares_timer a b \<longleftrightarrow> shares_timer b a"
  by (auto simp: shares_timer_def)

lemma overlap_flags:
  assumes "valid_clock ob"
  shows "has_flag (overlap_issues ob p) (issue_bit i) \<longleftrightarrow>
     touches ob p \<and> (i = IntervalsOverlap \<or> i = SharedAddress \<and> shares_timer ob p)"
  using assms by (cases i) (auto simp: overlap_issues_def touches_def shares_timer_def)

lemma own_flags:
  "has_flag (own_issues w ob) (issue_bit i) \<longleftrightarrow> (case i of
      InvalidWindow \<Rightarrow> \<not> window_valid w
    | InvalidClock \<Rightarrow> \<not> valid_clock ob
    | MissingIdentity \<Rightarrow> \<not> identity_valid (ob_identity ob)
    | MissingState \<Rightarrow> \<not> ob_before_available ob \<or> \<not> ob_after_available ob
    | OutsideBefore \<Rightarrow> valid_clock ob \<and> window_valid w \<and> ob_exit ob < wn_begin w
    | OutsideAfter \<Rightarrow> valid_clock ob \<and> window_valid w \<and> ob_entry ob \<ge> wn_end w
    | StraddlesBegin \<Rightarrow> valid_clock ob \<and> window_valid w \<and> ob_entry ob < wn_begin w \<and> ob_exit ob \<ge> wn_begin w
    | StraddlesEnd \<Rightarrow> valid_clock ob \<and> window_valid w \<and> ob_entry ob < wn_end w \<and> ob_exit ob \<ge> wn_end w
    | _ \<Rightarrow> False)"
  by (cases i) (simp_all add: own_issues_def Let_def)

text \<open>One call, by its two outcomes.\<close>

lemma observe_cases:
  obtains (full) "length (jn_records j) = capacity" "snd (observe capacity j ob) = False"
      "jn_records (fst (observe capacity j ob)) = jn_records j"
      "has_flag (jn_issues (fst (observe capacity j ob))) (issue_bit StorageOverflow)"
  | (stored) row where "length (jn_records j) \<noteq> capacity" "snd (observe capacity j ob) = True"
      "jn_records (fst (observe capacity j ob)) =
        (if valid_clock ob
         then map (\<lambda>old. old\<lparr>tr_issues := or (tr_issues old) (overlap_issues ob (tr_observation old))\<rparr>) (jn_records j)
         else jn_records j) @ [row]"
      "tr_observation row = ob" "tr_ordinal row = jn_observed (fst (observe capacity j ob))"
      "tr_inside row = wholly_inside (jn_window j) ob"
      "\<And>i. i \<noteq> EntryRegressed \<Longrightarrow> i \<noteq> ExitRegressed \<Longrightarrow>
         has_flag (tr_issues row) (issue_bit i) \<longleftrightarrow> has_flag (own_issues (jn_window j) ob) (issue_bit i)
          \<or> valid_clock ob \<and> (\<exists>old \<in> set (jn_records j). has_flag (overlap_issues ob (tr_observation old)) (issue_bit i))"
      "has_flag (jn_issues (fst (observe capacity j ob))) (issue_bit StorageOverflow)
        \<longleftrightarrow> has_flag (jn_issues j) (issue_bit StorageOverflow)"
proof (cases "length (jn_records j) = capacity")
  case True
  then show ?thesis by (intro full) (simp_all add: observe_def Let_def)
next
  case False
  let ?row = "last (jn_records (fst (observe capacity j ob)))"
  have no: "\<not> has_flag (overlap_issues ob p) (issue_bit StorageOverflow)" for p
    by (simp add: overlap_issues_def)
  show ?thesis
    using False
    by (intro stored [of ?row])
      (auto simp: observe_def Let_def overlap_loop_map has_flag_fold own_flags no
        simp del: issue_bit.simps split: prod.splits)
qed

lemma observe_frame [simp]:
  "jn_window (fst (observe capacity j ob)) = jn_window j"
  "jn_observed (fst (observe capacity j ob)) = fst (saturating_succ (jn_observed j))"
  by (simp_all add: observe_def Let_def saturating_succ_def split: prod.splits)

subsection \<open>Runs\<close>

definition touching :: "observation list \<Rightarrow> nat \<Rightarrow> (observation \<Rightarrow> observation \<Rightarrow> bool) \<Rightarrow> bool" where
  "touching obs k P \<longleftrightarrow> (\<exists>m < length obs. m \<noteq> k \<and> touches (obs ! k) (obs ! m) \<and> P (obs ! k) (obs ! m))"

definition row_ok :: "window \<Rightarrow> observation list \<Rightarrow> nat \<Rightarrow> timer_row \<Rightarrow> bool" where
  "row_ok w obs k r \<longleftrightarrow> tr_observation r = obs ! k \<and> tr_ordinal r = of_nat k + 1
     \<and> tr_inside r = wholly_inside w (obs ! k)
     \<and> (\<forall>i. i \<noteq> EntryRegressed \<longrightarrow> i \<noteq> ExitRegressed \<longrightarrow>
          (has_flag (tr_issues r) (issue_bit i) \<longleftrightarrow> has_flag (own_issues w (obs ! k)) (issue_bit i)
             \<or> i = IntervalsOverlap \<and> touching obs k (\<lambda>_ _. True)
             \<or> i = SharedAddress \<and> touching obs k shares_timer))"

definition journal_inv :: "nat \<Rightarrow> window \<Rightarrow> journal \<times> observation list \<Rightarrow> bool" where
  "journal_inv capacity w s \<longleftrightarrow> (case s of (j, obs) \<Rightarrow>
     jn_window j = w \<and> length (jn_records j) = min capacity (length obs)
     \<and> unat (jn_observed j) = min (length obs) (2 ^ 64 - 1)
     \<and> (\<forall>k < length (jn_records j). row_ok w (take capacity obs) k (jn_records j ! k))
     \<and> (overflowed j \<longleftrightarrow> length obs > capacity))"

definition journal_step :: "nat \<Rightarrow> journal \<times> observation list \<Rightarrow> observation \<Rightarrow> journal \<times> observation list" where
  "journal_step capacity s ob = (fst (observe capacity (fst s) ob), snd s @ [ob])"

lemma touching_snoc:
  assumes "k < length obs"
  shows "touching (obs @ [ob]) k P \<longleftrightarrow> touching obs k P \<or> touches (obs ! k) ob \<and> P (obs ! k) ob"
proof -
  have "touching (obs @ [ob]) k P \<longleftrightarrow> (\<exists>m < length obs. m \<noteq> k \<and> touches (obs ! k) ((obs @ [ob]) ! m)
      \<and> P (obs ! k) ((obs @ [ob]) ! m)) \<or> touches (obs ! k) ob \<and> P (obs ! k) ob"
    using assms unfolding touching_def length_append_singleton Ex_less_Suc by (auto simp: nth_append)
  also have "(\<exists>m < length obs. m \<noteq> k \<and> touches (obs ! k) ((obs @ [ob]) ! m)
      \<and> P (obs ! k) ((obs @ [ob]) ! m)) \<longleftrightarrow> touching obs k P"
    unfolding touching_def by (intro ex_cong) (simp add: nth_append)
  finally show ?thesis .
qed

lemma touching_last:
  "touching (obs @ [ob]) (length obs) P \<longleftrightarrow> (\<exists>p \<in> set obs. touches ob p \<and> P ob p)"
proof -
  have "touching (obs @ [ob]) (length obs) P
      \<longleftrightarrow> (\<exists>m < length obs. touches ob ((obs @ [ob]) ! m) \<and> P ob ((obs @ [ob]) ! m))"
    unfolding touching_def length_append_singleton Ex_less_Suc by auto
  also have "\<dots> \<longleftrightarrow> (\<exists>m < length obs. touches ob (obs ! m) \<and> P ob (obs ! m))"
    by (intro ex_cong) (simp add: nth_append)
  finally show ?thesis by (simp add: in_set_conv_nth Bex_def) blast
qed

lemma saturating_unat:
  "unat (fst (saturating_succ x)) = min (unat x + 1) (2 ^ 64 - 1)"
proof (cases "x = 0xFFFFFFFFFFFFFFFF")
  case True
  then show ?thesis by (simp add: saturating_succ_def)
next
  case False
  then have "x \<noteq> - 1" by auto
  then have "x < x + 1" by (rule word_succ_greater)
  then have "unat (x + 1) = unat x + 1"
    by (metis Suc_eq_plus1 unatSuc word_less_nat_alt less_nat_zero_code unat_0 add.commute)
  moreover have "unat (x + 1) < 2 ^ 64" using unsigned_less [of "x + 1"] by simp
  ultimately show ?thesis using False by (simp add: saturating_succ_def)
qed

lemma row_ok_observed:
  assumes "row_ok w obs k r" "k < length obs"
  shows "row_ok w (obs @ [ob]) k (if valid_clock ob
     then r\<lparr>tr_issues := or (tr_issues r) (overlap_issues ob (tr_observation r))\<rparr> else r)"
proof (cases "valid_clock ob")
  case False
  then have "\<not> touches (obs ! k) ob" by (simp add: touches_def)
  then show ?thesis
    using assms False by (simp add: row_ok_def nth_append touching_snoc)
next
  case True
  then show ?thesis
    using assms
    by (auto simp: row_ok_def nth_append touching_snoc overlap_flags touches_sym [of ob] shares_timer_sym [of ob])
qed

lemma journal_inv_new: "0 < capacity \<Longrightarrow> journal_inv capacity w (new_journal w, [])"
  by (simp add: journal_inv_def new_journal_def overflowed_def)

lemma new_row_ok:
  assumes recs: "length (jn_records j) = length obs"
      "\<forall>k < length (jn_records j). row_ok w obs k (jn_records j ! k)"
    and row: "tr_observation row = ob" "tr_ordinal row = of_nat (length obs) + 1"
      "tr_inside row = wholly_inside w ob"
      "\<And>i. i \<noteq> EntryRegressed \<Longrightarrow> i \<noteq> ExitRegressed \<Longrightarrow>
         has_flag (tr_issues row) (issue_bit i) \<longleftrightarrow> has_flag (own_issues w ob) (issue_bit i)
          \<or> valid_clock ob \<and> (\<exists>old \<in> set (jn_records j). has_flag (overlap_issues ob (tr_observation old)) (issue_bit i))"
  shows "row_ok w (obs @ [ob]) (length obs) row"
proof -
  have "tr_observation ` set (jn_records j) = set obs"
  proof -
    have "map tr_observation (jn_records j) = obs"
      using recs by (auto simp: row_ok_def intro: nth_equalityI)
    then show ?thesis by (metis set_map)
  qed
  then have ex: "(\<exists>old \<in> set (jn_records j). Q (tr_observation old)) \<longleftrightarrow> (\<exists>p \<in> set obs. Q p)" for Q
    by (auto simp: Bex_def image_def set_eq_iff) metis+
  have over: "(valid_clock ob \<and> (\<exists>old \<in> set (jn_records j). has_flag (overlap_issues ob (tr_observation old)) (issue_bit i)))
     \<longleftrightarrow> i = IntervalsOverlap \<and> (\<exists>p \<in> set obs. touches ob p)
        \<or> i = SharedAddress \<and> (\<exists>p \<in> set obs. touches ob p \<and> shares_timer ob p)" for i
  proof (cases "valid_clock ob")
    case True
    have "(\<exists>old \<in> set (jn_records j). has_flag (overlap_issues ob (tr_observation old)) (issue_bit i))
        \<longleftrightarrow> (\<exists>p \<in> set obs. touches ob p \<and> (i = IntervalsOverlap \<or> i = SharedAddress \<and> shares_timer ob p))"
      unfolding overlap_flags [OF True] by (rule ex)
    with True show ?thesis by blast
  next
    case False
    then show ?thesis by (simp add: touches_def)
  qed
  show ?thesis
    unfolding row_ok_def
  proof (intro conjI allI impI)
    fix i
    assume i: "i \<noteq> EntryRegressed" "i \<noteq> ExitRegressed"
    show "has_flag (tr_issues row) (issue_bit i) \<longleftrightarrow>
        has_flag (own_issues w ((obs @ [ob]) ! length obs)) (issue_bit i)
         \<or> i = IntervalsOverlap \<and> touching (obs @ [ob]) (length obs) (\<lambda>_ _. True)
         \<or> i = SharedAddress \<and> touching (obs @ [ob]) (length obs) shares_timer"
      unfolding row(4) [OF i] over touching_last by simp
  qed (simp_all add: row)
qed

lemma journal_step_inv:
  assumes inv: "journal_inv capacity w (j, obs)" and cap: "capacity \<le> 4096"
  shows "journal_inv capacity w (journal_step capacity (j, obs) ob)"
proof (cases rule: observe_cases [of j capacity ob])
  case full
  then have len: "capacity \<le> length obs" using inv by (simp add: journal_inv_def min_def split: if_splits)
  show ?thesis
    using inv full len
    by (simp add: journal_inv_def journal_step_def overflowed_def saturating_unat min_def)
next
  case (stored row)
  then have len: "length obs < capacity" and recs: "length (jn_records j) = length obs"
    using inv by (auto simp: journal_inv_def)
  then have obs: "take capacity obs = obs" by simp
  from inv have rows: "\<forall>k < length (jn_records j). row_ok w obs k (jn_records j ! k)"
    and w: "jn_window j = w" and n: "unat (jn_observed j) = length obs"
    using recs len cap by (simp_all add: journal_inv_def obs)
  have "unat (fst (saturating_succ (jn_observed j))) = length obs + 1"
    using n len cap by (simp add: saturating_unat)
  then have ord: "fst (saturating_succ (jn_observed j)) = of_nat (length obs) + 1"
    by (metis of_nat_unat ucast_id of_nat_1 of_nat_add)
  have new: "row_ok w (obs @ [ob]) (length obs) row"
    by (rule new_row_ok [OF recs rows]) (use stored(4-7) w ord in simp_all)
  define old where "old = (if valid_clock ob
         then map (\<lambda>old. old\<lparr>tr_issues := or (tr_issues old) (overlap_issues ob (tr_observation old))\<rparr>) (jn_records j)
         else jn_records j)"
  have oldlen: "length old = length obs" by (simp add: old_def recs)
  have rowk: "row_ok w (obs @ [ob]) k ((old @ [row]) ! k)" if "k < length obs + 1" for k
  proof (cases "k = length obs")
    case True
    then show ?thesis using new oldlen by (simp add: nth_append)
  next
    case False
    with that have "k < length obs" by simp
    then show ?thesis
      using row_ok_observed [of w obs k "jn_records j ! k" ob] rows recs oldlen
      by (cases "valid_clock ob") (simp_all add: nth_append old_def)
  qed
  have res: "jn_records (fst (observe capacity j ob)) = old @ [row]" using stored(3) by (simp add: old_def)
  show ?thesis
    using inv len cap rowk stored(8)
    by (simp add: journal_inv_def journal_step_def overflowed_def res oldlen saturating_unat min_def)
qed

interpretation journals: machine "journal_step (min capacity 4096)" "journal_inv (min capacity 4096) w"
  for capacity w
  by unfold_locales (metis journal_step_inv min.cobounded2 surj_pair)

lemma journal_run_obs:
  "snd (run_events (journal_step capacity) s obs) = snd s @ obs"
  by (induction obs arbitrary: s) (simp_all add: journal_step_def)

definition journal_of :: "nat \<Rightarrow> window \<Rightarrow> observation list \<Rightarrow> journal" where
  "journal_of capacity w obs = foldl (\<lambda>j ob. fst (observe capacity j ob)) (new_journal w) obs"

lemma journal_of_run:
  "fst (run_events (journal_step capacity) (j, h) obs) = foldl (\<lambda>j ob. fst (observe capacity j ob)) j obs"
  by (induction obs arbitrary: j h) (simp_all add: journal_step_def)

lemma journal_of_inv:
  assumes "0 < capacity" "capacity \<le> 4096"
  shows "journal_inv capacity w (journal_of capacity w obs, obs)"
proof -
  have "journal_inv capacity w (run_events (journal_step capacity) (new_journal w, []) obs)"
    using journals.inv_run [of capacity w "(new_journal w, [])" obs] journal_inv_new [of capacity w] assms
    by (simp add: min_absorb1)
  moreover have "run_events (journal_step capacity) (new_journal w, []) obs = (journal_of capacity w obs, obs)"
    by (rule prod_eqI) (simp_all add: journal_of_run journal_run_obs journal_of_def)
  ultimately show ?thesis by simp
qed

lemma position_logic:
  fixes e :: "'a::linorder"
  assumes "e \<le> x"
  shows "b \<le> e \<and> x < n \<longleftrightarrow> \<not> (x < b \<or> e \<ge> n \<or> e < b \<and> x \<ge> b \<or> e < n \<and> x \<ge> n)"
  using assms by auto

subsection \<open>The journal's issue word covers its records\<close>

definition issues_covered :: "journal \<Rightarrow> bool" where
  "issues_covered j \<longleftrightarrow> (\<forall>r \<in> set (jn_records j). \<forall>n. has_flag (tr_issues r) n \<longrightarrow> has_flag (jn_issues j) n)"

lemma covered_observe:
  assumes "issues_covered j"
  shows "issues_covered (fst (observe capacity j ob))"
proof -
  have f: "has_flag (fold (\<lambda>old k. or k (overlap_issues ob (tr_observation old))) rows m) n"
    if "r \<in> set rows" "has_flag (overlap_issues ob (tr_observation r)) n" for r rows m n
    using that by (auto simp: has_flag_fold)
  show ?thesis
    using assms by (auto simp: issues_covered_def observe_def Let_def overlap_loop_map
        intro: f split: prod.splits)
qed

lemma covered_journal: "issues_covered (journal_of capacity w obs)"
proof -
  have "issues_covered j \<Longrightarrow> issues_covered (foldl (\<lambda>j ob. fst (observe capacity j ob)) j obs)" for j
    by (induction obs arbitrary: j) (simp_all add: covered_observe)
  moreover have "issues_covered (new_journal w)" by (simp add: issues_covered_def new_journal_def)
  ultimately show ?thesis by (simp add: journal_of_def)
qed

lemma window_flag_kept: "\<not> window_valid w \<Longrightarrow> has_flag (jn_issues (journal_of capacity w obs)) 0"
proof -
  have "has_flag (jn_issues j) 0 \<Longrightarrow>
      has_flag (jn_issues (foldl (\<lambda>j ob. fst (observe capacity j ob)) j obs)) 0" for j
    by (induction obs arbitrary: j) (auto simp: observe_def Let_def split: prod.splits)
  then show "\<not> window_valid w \<Longrightarrow> has_flag (jn_issues (journal_of capacity w obs)) 0"
    by (simp add: journal_of_def new_journal_def)
qed

subsection \<open>Properties\<close>

text \<open>A journal of capacity at most 4096 keeps the first observations in order, numbered from 1, and
  drops the others with the sticky overflow flag; the call counter saturates.\<close>

theorem journal_keeps_first:
  assumes "0 < capacity" "capacity \<le> 4096"
  shows "map tr_observation (jn_records (journal_of capacity w obs)) = take capacity obs
    \<and> map tr_ordinal (jn_records (journal_of capacity w obs)) = map (\<lambda>k. of_nat k + 1) [0..<min capacity (length obs)]
    \<and> unat (jn_observed (journal_of capacity w obs)) = min (length obs) (2 ^ 64 - 1)
    \<and> (overflowed (journal_of capacity w obs) \<longleftrightarrow> length obs > capacity)"
  using journal_of_inv [OF assms, of w obs]
  by (auto simp: journal_inv_def row_ok_def intro!: nth_equalityI)

lemma journal_overlaps:
  assumes "0 < capacity" "capacity \<le> 4096" "k < length (jn_records (journal_of capacity w obs))"
  shows "(has_flag (tr_issues (jn_records (journal_of capacity w obs) ! k)) (issue_bit IntervalsOverlap)
      \<longleftrightarrow> (\<exists>m < min capacity (length obs). m \<noteq> k \<and> touches (obs ! k) (obs ! m)))
    \<and> (has_flag (tr_issues (jn_records (journal_of capacity w obs) ! k)) (issue_bit SharedAddress)
      \<longleftrightarrow> (\<exists>m < min capacity (length obs). m \<noteq> k \<and> touches (obs ! k) (obs ! m) \<and> shares_timer (obs ! k) (obs ! m)))"
proof -
  note inv = journal_of_inv [OF assms(1,2), of w obs]
  then have k: "k < length (take capacity obs)" using assms(3) by (simp add: journal_inv_def)
  have "row_ok w (take capacity obs) k (jn_records (journal_of capacity w obs) ! k)"
    using inv assms(3) by (simp add: journal_inv_def)
  then show ?thesis
    using k by (auto simp: row_ok_def own_flags touching_def simp del: issue_bit.simps)
qed

text \<open>The overlap flags are exact: a stored call is flagged as overlapping exactly when its closed
  witness interval meets that of another stored call (both with usable clocks, whichever came
  first), and as sharing its timer exactly when such a call has the same nonzero timer address.\<close>

theorem journal_overlaps_exact:
  assumes "0 < capacity" "capacity \<le> 4096" "k < length (jn_records (journal_of capacity w obs))"
  shows "(has_flag (tr_issues (jn_records (journal_of capacity w obs) ! k)) (issue_bit IntervalsOverlap)
      \<longleftrightarrow> (\<exists>m < min capacity (length obs). m \<noteq> k \<and> touches (obs ! k) (obs ! m)))
    \<and> (has_flag (tr_issues (jn_records (journal_of capacity w obs) ! k)) (issue_bit SharedAddress)
      \<longleftrightarrow> (\<exists>m < min capacity (length obs). m \<noteq> k \<and> touches (obs ! k) (obs ! m) \<and> shares_timer (obs ! k) (obs ! m)))"
  using assms by (rule journal_overlaps)

lemma journal_position:
  assumes "0 < capacity" "capacity \<le> 4096" "k < length (jn_records (journal_of capacity w obs))"
  shows "let r = jn_records (journal_of capacity w obs) ! k in
     tr_inside r \<longleftrightarrow> \<not> (\<exists>i \<in> {InvalidWindow, InvalidClock, OutsideBefore, OutsideAfter, StraddlesBegin, StraddlesEnd}.
        has_flag (tr_issues r) (issue_bit i))"
proof -
  note inv = journal_of_inv [OF assms(1,2), of w obs]
  have "row_ok w (take capacity obs) k (jn_records (journal_of capacity w obs) ! k)"
    using inv assms(3) by (simp add: journal_inv_def)
  then have r: "tr_inside (jn_records (journal_of capacity w obs) ! k) = wholly_inside w (take capacity obs ! k)"
    and f: "i \<notin> {EntryRegressed, ExitRegressed, IntervalsOverlap, SharedAddress} \<Longrightarrow>
      has_flag (tr_issues (jn_records (journal_of capacity w obs) ! k)) (issue_bit i)
        = has_flag (own_issues w (take capacity obs ! k)) (issue_bit i)" for i
    by (auto simp: row_ok_def simp del: issue_bit.simps)
  define ob where "ob = take capacity obs ! k"
  have pos: "wholly_inside w ob \<longleftrightarrow> window_valid w \<and> \<not> (ob_exit ob < wn_begin w
      \<or> ob_entry ob \<ge> wn_end w \<or> ob_entry ob < wn_begin w \<and> ob_exit ob \<ge> wn_begin w
      \<or> ob_entry ob < wn_end w \<and> ob_exit ob \<ge> wn_end w)" if "valid_clock ob"
  proof -
    from that have "ob_entry ob \<le> ob_exit ob" by (simp add: valid_clock_def)
    from position_logic [OF this, of "wn_begin w" "wn_end w"] that show ?thesis
      unfolding wholly_inside_def by (simp only: simp_thms conj_ac)
  qed
  have out: "\<not> valid_clock ob \<Longrightarrow> \<not> wholly_inside w ob" "\<not> window_valid w \<Longrightarrow> \<not> wholly_inside w ob"
    by (simp_all add: wholly_inside_def)
  show ?thesis
    unfolding Let_def r f ob_def [symmetric]
    by (cases "valid_clock ob"; cases "window_valid w")
      (simp_all add: f own_flags ob_def [symmetric] pos out del: issue_bit.simps)
qed

text \<open>A stored call counts as wholly inside the window exactly when its clocks and the window are
  usable and it carries none of the four position flags.\<close>

theorem journal_window_position:
  assumes "0 < capacity" "capacity \<le> 4096" "k < length (jn_records (journal_of capacity w obs))"
  shows "let r = jn_records (journal_of capacity w obs) ! k in
     tr_inside r \<longleftrightarrow> \<not> (\<exists>i \<in> {InvalidWindow, InvalidClock, OutsideBefore, OutsideAfter, StraddlesBegin, StraddlesEnd}.
        has_flag (tr_issues r) (issue_bit i))"
  using assms by (rule journal_position)


definition example_window :: window where
  "example_window = \<lparr>wn_begin = 10, wn_end = 20, wn_frequency = 100\<rparr>"

definition example_observation :: "u64 \<Rightarrow> u64 \<Rightarrow> observation" where
  "example_observation b e = \<lparr>ob_identity = \<lparr>idn_timer = 1, idn_caller = 2, idn_thread = 3\<rparr>,
     ob_entry = b, ob_exit = e, ob_r5 = 0, ob_f1 = 0, ob_before = no_state, ob_after = no_state,
     ob_before_available = True, ob_after_available = True\<rparr>"

definition example_journal :: journal where
  "example_journal = journal_of 2 example_window [example_observation 12 15, example_observation 15 19]"

lemma example_journal_length: "length (jn_records example_journal) = 2"
  using journal_of_inv [of 2 example_window "[example_observation 12 15, example_observation 15 19]"]
  by (simp add: journal_inv_def example_journal_def)

theorem journal_keeps_first_witness:
  "map tr_observation (jn_records (journal_of 1 example_window [example_observation 12 15, example_observation 15 19]))
     = [example_observation 12 15]
   \<and> overflowed (journal_of 1 example_window [example_observation 12 15, example_observation 15 19])"
  using journal_keeps_first [of 1 example_window "[example_observation 12 15, example_observation 15 19]"] by simp

theorem journal_overlaps_exact_witness:
  "has_flag (tr_issues (jn_records example_journal ! 0)) (issue_bit IntervalsOverlap)"
proof -
  have "touches (example_observation 12 15) (example_observation 15 19)"
    by (simp add: touches_def valid_clock_def example_observation_def kMaxQpc_def)
  then have "\<exists>m < min 2 (length [example_observation 12 15, example_observation 15 19]). m \<noteq> 0
      \<and> touches ([example_observation 12 15, example_observation 15 19] ! 0)
          ([example_observation 12 15, example_observation 15 19] ! m)"
    by (intro exI [of _ 1]) simp
  moreover have "0 < length (jn_records (journal_of 2 example_window [example_observation 12 15, example_observation 15 19]))"
    using example_journal_length by (simp add: example_journal_def)
  ultimately show ?thesis
    using journal_overlaps_exact [of 2 0 example_window "[example_observation 12 15, example_observation 15 19]"]
    unfolding example_journal_def by (simp only: simp_thms zero_less_numeral numeral_le_iff semiring_norm)
qed

theorem journal_window_position_witness:
  "tr_inside (jn_records example_journal ! 1) \<longleftrightarrow>
     \<not> (\<exists>i \<in> {InvalidWindow, InvalidClock, OutsideBefore, OutsideAfter, StraddlesBegin, StraddlesEnd}.
        has_flag (tr_issues (jn_records example_journal ! 1)) (issue_bit i))"
  using journal_window_position [of 2 1 example_window "[example_observation 12 15, example_observation 15 19]"]
    example_journal_length
  unfolding example_journal_def Let_def by (simp only: one_less_numeral_iff semiring_norm)

end
