(* ===== verification/TimerObserver.thy ===== *)
theory TimerObserver
  imports TimerJournal
begin

section \<open>Timer observer (\<open>mcla_timer_observer_core.h\<close>)\<close>

text \<open>
  The concurrent seam around the journal. Threads enter \<open>invoke\<close>, reserve a slot under the
  mutex, run the original call, and publish one record under the mutex on the way out. The
  observer is a record of its members; each critical section is one function, and the
  interleavings of threads are the step relation \<open>observer_step\<close>. What the injected callbacks
  and the mutex do is an argument: \<open>None\<close> where a callback throws, \<open>False\<close> where the lock does.
\<close>

subsection \<open>Model\<close>

datatype callback_issue = EntryClockFailed | ExitClockFailed | BeforeStateFailed
  | AfterStateFailed | OriginalUnwound

fun callback_bit :: "callback_issue \<Rightarrow> nat" where
  "callback_bit EntryClockFailed = 0"
| "callback_bit ExitClockFailed = 1"
| "callback_bit BeforeStateFailed = 2"
| "callback_bit AfterStateFailed = 3"
| "callback_bit OriginalUnwound = 4"

record raw_record =
  rr_observation :: observation
  rr_ordinal :: u64
  rr_callback_issues :: u32

record observer_counts =
  oc_observed :: u64
  oc_admitted :: u64
  oc_stored :: u64
  oc_completed :: u64
  oc_overflow :: u64
  oc_outside_before :: u64
  oc_outside_after :: u64
  oc_saturated :: bool
  oc_failed :: bool

definition kObserverFailure :: nat where "kObserverFailure = 30"
definition kRecordedInvocationDiagnostic :: nat where "kRecordedInvocationDiagnostic = 29"

record observer =
  os_window :: window
  os_accepting :: bool
  os_records :: "raw_record list"
  os_in_flight :: nat
  os_failed :: bool
  os_counts :: observer_counts

definition no_counts :: observer_counts where
  "no_counts = \<lparr>oc_observed = 0, oc_admitted = 0, oc_stored = 0, oc_completed = 0, oc_overflow = 0,
     oc_outside_before = 0, oc_outside_after = 0, oc_saturated = False, oc_failed = False\<rparr>"

definition new_observer :: "window \<Rightarrow> bool \<Rightarrow> observer" where
  "new_observer w enabled = \<lparr>os_window = w, os_accepting = enabled, os_records = [],
     os_in_flight = 0, os_failed = False, os_counts = no_counts\<rparr>"

text \<open>\<open>increment(count, counts_.counter_saturated)\<close> on the field that \<open>get\<close> and \<open>put\<close> name.\<close>

definition increment :: "(observer_counts \<Rightarrow> u64) \<Rightarrow> ((u64 \<Rightarrow> u64) \<Rightarrow> observer_counts \<Rightarrow> observer_counts) \<Rightarrow>
    observer_counts \<Rightarrow> observer_counts" where
  "increment get put c =
     (if get c = 0xFFFFFFFFFFFFFFFF then c\<lparr>oc_saturated := True\<rparr> else put (\<lambda>_. get c + 1) c)"

text \<open>\<open>reserve\<close>. \<open>loaded\<close> is what the load of \<open>accepting_\<close> before the mutex has returned, possibly long ago, and
  \<open>lock_ok\<close> is false where taking the mutex throws; \<open>invoke\<close> turns that into the failure flag and no slot.\<close>

definition reserve :: "nat \<Rightarrow> observer \<Rightarrow> bool \<Rightarrow> bool \<Rightarrow> observer \<times> u64 option" where
  "reserve capacity b loaded lock_ok =
     (if \<not> loaded then (b, None)
      else if \<not> lock_ok then (b\<lparr>os_failed := True\<rparr>, None)
      else if \<not> os_accepting b then (b, None)
      else
        let c = increment oc_observed oc_observed_update (os_counts b) in
        if length (os_records b) + os_in_flight b \<ge> capacity
        then (b\<lparr>os_counts := increment oc_overflow oc_overflow_update c\<rparr>, None)
        else (b\<lparr>os_in_flight := os_in_flight b + 1,
                os_counts := increment oc_admitted oc_admitted_update c\<rparr>, Some (oc_observed c)))"

definition discardable :: "window \<Rightarrow> raw_record \<Rightarrow> bool" where
  "discardable w row \<longleftrightarrow> (let call = rr_observation row in
     window_valid w \<and> ob_entry call \<noteq> 0 \<and> ob_entry call \<le> ob_exit call \<and> ob_exit call \<le> kMaxQpc
     \<and> identity_valid (ob_identity call) \<and> ob_before_available call \<and> ob_after_available call
     \<and> rr_callback_issues row = 0)"

definition complete :: "observer \<Rightarrow> raw_record \<Rightarrow> bool \<Rightarrow> observer" where
  "complete b row lock_ok =
     (if \<not> lock_ok then b\<lparr>os_failed := True, os_in_flight := os_in_flight b - 1\<rparr>
      else
        let c = os_counts b;
            (records, c') =
              (if discardable (os_window b) row \<and> ob_exit (rr_observation row) < wn_begin (os_window b)
               then (os_records b, increment oc_outside_before oc_outside_before_update c)
               else if discardable (os_window b) row \<and> ob_entry (rr_observation row) \<ge> wn_end (os_window b)
               then (os_records b, increment oc_outside_after oc_outside_after_update c)
               else (os_records b @ [row], increment oc_stored oc_stored_update c)) in
        b\<lparr>os_records := records, os_counts := increment oc_completed oc_completed_update c',
          os_in_flight := os_in_flight b - 1\<rparr>)"

text \<open>\<open>Completion\<close>: what the guard records of one admitted call, from what the callbacks return
  (\<open>None\<close> where one throws) and from whether the original unwound.\<close>

definition clock_callback :: "u64 option \<Rightarrow> callback_issue \<Rightarrow> u64 \<times> u32" where
  "clock_callback reading failed =
     (case reading of Some t \<Rightarrow> (t, 0) | None \<Rightarrow> (0, flag (callback_bit failed)))"

definition state_callback :: "(bool \<times> timer_state) option \<Rightarrow> callback_issue \<Rightarrow> bool \<times> timer_state \<times> u32" where
  "state_callback reading failed =
     (case reading of
        Some (available, st) \<Rightarrow> (available, if available then st else no_state, 0)
      | None \<Rightarrow> (False, no_state, flag (callback_bit failed)))"

record callbacks =
  cb_entry_clock :: "u64 option"
  cb_before :: "(bool \<times> timer_state) option"
  cb_unwound :: bool
  cb_after :: "(bool \<times> timer_state) option"
  cb_exit_clock :: "u64 option"

definition completion_row :: "u64 \<Rightarrow> identity \<Rightarrow> u8 \<Rightarrow> u64 \<Rightarrow> callbacks \<Rightarrow> raw_record" where
  "completion_row ordinal who r5 f1 cb =
     (case clock_callback (cb_entry_clock cb) EntryClockFailed of (entry, i1) \<Rightarrow>
      case state_callback (cb_before cb) BeforeStateFailed of (before_ok, before, i2) \<Rightarrow>
      case state_callback (cb_after cb) AfterStateFailed of (after_ok, after, i3) \<Rightarrow>
      case clock_callback (cb_exit_clock cb) ExitClockFailed of (exit, i4) \<Rightarrow>
        \<lparr>rr_observation = \<lparr>ob_identity = who, ob_entry = entry, ob_exit = exit, ob_r5 = r5, ob_f1 = f1,
           ob_before = before, ob_after = after, ob_before_available = before_ok,
           ob_after_available = after_ok\<rparr>,
         rr_ordinal = ordinal,
         rr_callback_issues = or i1 (or i2 (or (flag_if (cb_unwound cb) (callback_bit OriginalUnwound)) (or i3 i4)))\<rparr>)"

definition stop_admissions :: "observer \<Rightarrow> observer" where
  "stop_admissions b = b\<lparr>os_accepting := False\<rparr>"

record observer_snapshot =
  sp_window :: window
  sp_records :: "raw_record list"
  sp_counts :: observer_counts

text \<open>\<open>owned\<close> is the outcome of \<open>try_lock\<close>, \<open>None\<close> where it throws.\<close>

definition try_freeze :: "observer \<Rightarrow> bool option \<Rightarrow> observer \<times> observer_snapshot option" where
  "try_freeze b0 owned =
     (let b = stop_admissions b0 in
      case owned of
        None \<Rightarrow> (b\<lparr>os_failed := True\<rparr>, None)
      | Some own \<Rightarrow>
          if \<not> own \<or> os_in_flight b \<noteq> 0 then (b, None)
          else (b, Some \<lparr>sp_window = os_window b, sp_records = os_records b,
                         sp_counts = (os_counts b)\<lparr>oc_failed := os_failed b\<rparr>\<rparr>))"

record offline_report =
  or_journal :: journal
  or_counts :: observer_counts
  or_callback_issues :: u32

definition classify_offline :: "nat \<Rightarrow> observer_snapshot \<Rightarrow> offline_report" where
  "classify_offline capacity s =
     (let rows = sort_key rr_ordinal (sp_records s) in
      \<lparr>or_journal = foldl (\<lambda>j row. fst (observe capacity j (rr_observation row))) (new_journal (sp_window s)) rows,
       or_counts = sp_counts s,
       or_callback_issues = fold (\<lambda>row m. or m (rr_callback_issues row)) rows 0\<rparr>)"

definition report_issues :: "offline_report \<Rightarrow> u32" where
  "report_issues r =
     or (jn_issues (or_journal r))
     (or (flag_if (oc_overflow (or_counts r) \<noteq> 0) (issue_bit StorageOverflow))
     (or (flag_if (oc_saturated (or_counts r)) (issue_bit CounterSaturated))
     (or (flag_if (oc_failed (or_counts r)) kObserverFailure)
         (flag_if (or_callback_issues r \<noteq> 0) kRecordedInvocationDiagnostic))))"

subsection \<open>Interleavings\<close>

text \<open>A configuration pairs the observer with the ordinals of the admitted calls that have not
  published yet. Any thread may enter (with any value it loaded before), any admitted one may finish with whatever its callbacks
  returned, and any owner may stop or poll for a snapshot, at any time.\<close>

inductive observer_step :: "nat \<Rightarrow> observer \<times> u64 list \<Rightarrow> observer \<times> u64 list \<Rightarrow> bool" for capacity where
  enter_admitted: "reserve capacity b loaded lock_ok = (b', Some ordinal) \<Longrightarrow>
     observer_step capacity (b, flying) (b', flying @ [ordinal])"
| enter_refused: "reserve capacity b loaded lock_ok = (b', None) \<Longrightarrow>
     observer_step capacity (b, flying) (b', flying)"
| finish: "ordinal \<in> set flying \<Longrightarrow> rr_ordinal row = ordinal \<Longrightarrow>
     observer_step capacity (b, flying) (complete b row lock_ok, remove1 ordinal flying)"
| stop: "observer_step capacity (b, flying) (stop_admissions b, flying)"
| poll: "observer_step capacity (b, flying) (fst (try_freeze b owned), flying)"

inductive observer_reachable :: "nat \<Rightarrow> window \<Rightarrow> bool \<Rightarrow> observer \<times> u64 list \<Rightarrow> bool"
  for capacity w enabled where
  start: "observer_reachable capacity w enabled (new_observer w enabled, [])"
| step: "observer_reachable capacity w enabled s \<Longrightarrow> observer_step capacity s s' \<Longrightarrow>
     observer_reachable capacity w enabled s'"

inductive_cases observer_stepE: "observer_step capacity s s'"

subsection \<open>Counters\<close>

lemma increment_ok:
  assumes "\<not> oc_saturated (increment get put c)" "\<And>f. oc_saturated (put f c) = oc_saturated c"
  shows "\<not> oc_saturated c" "increment get put c = put (\<lambda>_. get c + 1) c"
    "unat (get c + 1) = Suc (unat (get c))"
proof -
  from assms(1) have ne: "get c \<noteq> 0xFFFFFFFFFFFFFFFF" by (auto simp: increment_def)
  then show inc: "increment get put c = put (\<lambda>_. get c + 1) c" by (simp add: increment_def)
  show "\<not> oc_saturated c" using assms by (simp add: inc)
  have "unat (fst (saturating_succ (get c))) = min (unat (get c) + 1) (2 ^ 64 - 1)"
    by (rule saturating_unat)
  moreover from ne have "unat (get c) \<noteq> 2 ^ 64 - 1" by (simp add: word_unat_eq_iff)
  moreover have "unat (get c) < 2 ^ 64" using unsigned_less [of "get c"] by simp
  ultimately show "unat (get c + 1) = Suc (unat (get c))" using ne by (simp add: saturating_succ_def)
qed

lemma increment_saturated [simp]:
  "oc_saturated c \<Longrightarrow> (\<And>f. oc_saturated (put f c) = oc_saturated c) \<Longrightarrow> oc_saturated (increment get put c)"
  by (simp add: increment_def)

definition exact_sums :: "observer \<times> u64 list \<Rightarrow> bool" where
  "exact_sums s \<longleftrightarrow> (case s of (b, flying) \<Rightarrow>
     unat (oc_observed (os_counts b)) = unat (oc_admitted (os_counts b)) + unat (oc_overflow (os_counts b))
     \<and> unat (oc_completed (os_counts b)) = unat (oc_stored (os_counts b))
          + unat (oc_outside_before (os_counts b)) + unat (oc_outside_after (os_counts b))
     \<and> unat (oc_stored (os_counts b)) = length (os_records b)
     \<and> unat (oc_completed (os_counts b)) + length flying \<le> unat (oc_admitted (os_counts b))
     \<and> (\<not> os_failed b \<longrightarrow>
          unat (oc_completed (os_counts b)) + length flying = unat (oc_admitted (os_counts b))))"

definition fresh_ordinals :: "observer \<times> u64 list \<Rightarrow> bool" where
  "fresh_ordinals s \<longleftrightarrow> (case s of (b, flying) \<Rightarrow>
     distinct (map rr_ordinal (os_records b) @ flying)
     \<and> (\<forall>x \<in> set (map rr_ordinal (os_records b) @ flying). unat x \<le> unat (oc_observed (os_counts b))))"

definition exact_counts :: "observer \<times> u64 list \<Rightarrow> bool" where
  "exact_counts s \<longleftrightarrow> exact_sums s \<and> fresh_ordinals s"

lemma exact_countsI: "exact_sums s \<Longrightarrow> fresh_ordinals s \<Longrightarrow> exact_counts s"
  by (simp add: exact_counts_def)

definition observer_inv :: "nat \<Rightarrow> window \<Rightarrow> observer \<times> u64 list \<Rightarrow> bool" where
  "observer_inv capacity w s \<longleftrightarrow> (case s of (b, flying) \<Rightarrow>
     os_window b = w \<and> length flying = os_in_flight b
     \<and> length (os_records b) + os_in_flight b \<le> capacity
     \<and> (\<not> oc_saturated (os_counts b) \<longrightarrow> exact_counts s))"

lemma observer_inv_accepting:
  "observer_inv capacity w (b\<lparr>os_accepting := x\<rparr>, flying) = observer_inv capacity w (b, flying)"
  by (simp add: observer_inv_def exact_counts_def exact_sums_def fresh_ordinals_def)

lemma observer_inv_failed:
  "observer_inv capacity w (b, flying) \<Longrightarrow> observer_inv capacity w (b\<lparr>os_failed := True\<rparr>, flying)"
  by (simp add: observer_inv_def exact_counts_def exact_sums_def) (auto simp: fresh_ordinals_def)

lemmas observer_inv_flags = observer_inv_accepting observer_inv_failed

lemma observer_inv_new: "observer_inv capacity w (new_observer w enabled, [])"
  by (simp add: observer_inv_def new_observer_def exact_counts_def exact_sums_def fresh_ordinals_def no_counts_def)

lemma reserve_inv:
  assumes "observer_inv capacity w (b, flying)"
  shows "observer_inv capacity w (case reserve capacity b loaded lock_ok of (b', r) \<Rightarrow>
     (b', flying @ (case r of None \<Rightarrow> [] | Some x \<Rightarrow> [x])))"
proof (cases "loaded \<and> lock_ok \<and> os_accepting b")
  case False
  then have "reserve capacity b loaded lock_ok = (b, None)
      \<or> reserve capacity b loaded lock_ok = (b\<lparr>os_failed := True\<rparr>, None)"
    by (auto simp: reserve_def)
  with assms show ?thesis by (auto simp: observer_inv_flags)
next
  case True
  let ?c = "os_counts b"
  let ?c1 = "increment oc_observed oc_observed_update ?c"
  show ?thesis
  proof (cases "length (os_records b) + os_in_flight b \<ge> capacity")
    case full: True
    let ?c2 = "increment oc_overflow oc_overflow_update ?c1"
    have "exact_counts (b\<lparr>os_counts := ?c2\<rparr>, flying)" if "\<not> oc_saturated ?c2"
    proof -
      note i2 = increment_ok [OF that, simplified]
      note i1 = increment_ok [OF i2(1), simplified]
      from assms i1 have e: "exact_counts (b, flying)" by (simp add: observer_inv_def)
      from e have "exact_sums (b\<lparr>os_counts := ?c2\<rparr>, flying)"
        using i1 i2 by (auto simp: exact_counts_def exact_sums_def)
      moreover from e have "fresh_ordinals (b\<lparr>os_counts := ?c2\<rparr>, flying)"
        using i1 i2 by (auto simp: exact_counts_def fresh_ordinals_def intro: le_SucI)
      ultimately show ?thesis by (rule exact_countsI)
    qed
    with True full assms show ?thesis by (simp add: reserve_def observer_inv_def Let_def)
  next
    case room: False
    let ?c2 = "increment oc_admitted oc_admitted_update ?c1"
    have "exact_counts (b\<lparr>os_in_flight := os_in_flight b + 1, os_counts := ?c2\<rparr>, flying @ [oc_observed ?c1])"
      if "\<not> oc_saturated ?c2"
    proof -
      note i2 = increment_ok [OF that, simplified]
      note i1 = increment_ok [OF i2(1), simplified]
      from assms i1 have e: "exact_counts (b, flying)" by (simp add: observer_inv_def)
      have new: "unat (oc_observed ?c1) = Suc (unat (oc_observed ?c))" using i1 by simp
      from e have "\<forall>x \<in> set (map rr_ordinal (os_records b) @ flying). unat x \<le> unat (oc_observed ?c)"
        unfolding exact_counts_def fresh_ordinals_def prod.case by blast
      with new have "oc_observed ?c1 \<notin> set (map rr_ordinal (os_records b) @ flying)"
        by (metis Suc_n_not_le_n)
      with e have "fresh_ordinals (b\<lparr>os_in_flight := os_in_flight b + 1, os_counts := ?c2\<rparr>, flying @ [oc_observed ?c1])"
        using new i1 i2 by (auto simp: exact_counts_def fresh_ordinals_def intro: le_SucI)
      moreover from e have "exact_sums (b\<lparr>os_in_flight := os_in_flight b + 1, os_counts := ?c2\<rparr>, flying @ [oc_observed ?c1])"
        using i1 i2 by (auto simp: exact_counts_def exact_sums_def)
      ultimately show ?thesis by (intro exact_countsI)
    qed
    with True room assms show ?thesis by (simp add: reserve_def observer_inv_def Let_def)
  qed
qed

lemma publish_inv:
  assumes inv: "observer_inv capacity w (b, flying)" and ord: "rr_ordinal row \<in> set flying"
    and recs: "recs = os_records b \<or> recs = os_records b @ [row]"
    and c1: "\<not> oc_saturated c1 \<Longrightarrow> \<not> oc_saturated (os_counts b)
      \<and> oc_observed c1 = oc_observed (os_counts b) \<and> oc_admitted c1 = oc_admitted (os_counts b)
      \<and> oc_overflow c1 = oc_overflow (os_counts b) \<and> oc_completed c1 = oc_completed (os_counts b)
      \<and> unat (oc_stored c1) + length (os_records b) = unat (oc_stored (os_counts b)) + length recs
      \<and> unat (oc_stored c1) + unat (oc_outside_before c1) + unat (oc_outside_after c1)
          = Suc (unat (oc_stored (os_counts b)) + unat (oc_outside_before (os_counts b))
                 + unat (oc_outside_after (os_counts b)))"
  shows "observer_inv capacity w
     (b\<lparr>os_records := recs, os_counts := increment oc_completed oc_completed_update c1,
        os_in_flight := os_in_flight b - 1\<rparr>, remove1 (rr_ordinal row) flying)"
proof -
  let ?c2 = "increment oc_completed oc_completed_update c1"
  let ?b = "b\<lparr>os_records := recs, os_counts := ?c2, os_in_flight := os_in_flight b - 1\<rparr>"
  have pos: "os_in_flight b = Suc (length (remove1 (rr_ordinal row) flying))"
    using inv ord by (simp add: observer_inv_def length_remove1) (metis Suc_pred length_pos_if_in_set)
  have "exact_counts (?b, remove1 (rr_ordinal row) flying)" if "\<not> oc_saturated ?c2"
  proof -
    note i2 = increment_ok [OF that, simplified]
    note i1 = c1 [OF i2(1)]
    from inv i1 have e: "exact_counts (b, flying)" by (simp add: observer_inv_def)
    from e have "distinct (map rr_ordinal (os_records b) @ flying)"
      and le: "\<forall>x \<in> set (map rr_ordinal (os_records b) @ flying). unat x \<le> unat (oc_observed (os_counts b))"
      unfolding exact_counts_def fresh_ordinals_def prod.case by blast+
    then have d: "distinct (map rr_ordinal recs @ remove1 (rr_ordinal row) flying)"
      and sub: "set (map rr_ordinal recs @ remove1 (rr_ordinal row) flying)
        \<subseteq> set (map rr_ordinal (os_records b) @ flying)"
      using recs ord set_remove1_subset [of "rr_ordinal row" flying]
      by (auto simp: disjoint_iff) (metis image_eqI)+
    have len: "length flying = Suc (length (remove1 (rr_ordinal row) flying))"
      using inv pos by (simp add: observer_inv_def)
    have "fresh_ordinals (?b, remove1 (rr_ordinal row) flying)"
      using d sub le i1 i2(2) by (auto simp: fresh_ordinals_def)
    moreover have "exact_sums (?b, remove1 (rr_ordinal row) flying)"
      using e i1 i2(2,3) len by (auto simp: exact_counts_def exact_sums_def)
    ultimately show ?thesis by (intro exact_countsI)
  qed
  with inv pos recs show ?thesis by (auto simp: observer_inv_def)
qed

lemma complete_inv:
  assumes inv: "observer_inv capacity w (b, flying)" and ord: "rr_ordinal row \<in> set flying"
  shows "observer_inv capacity w (complete b row lock_ok, remove1 (rr_ordinal row) flying)"
proof (cases lock_ok)
  case False
  have "os_in_flight b = Suc (length (remove1 (rr_ordinal row) flying))"
    using inv ord by (simp add: observer_inv_def length_remove1) (metis Suc_pred length_pos_if_in_set)
  moreover have "set (remove1 (rr_ordinal row) flying) \<subseteq> set flying" by (rule set_remove1_subset)
  ultimately show ?thesis
    using False inv ord
    by (auto simp: observer_inv_def complete_def exact_counts_def exact_sums_def fresh_ordinals_def)
next
  case True
  let ?b = "\<lambda>recs c. b\<lparr>os_records := recs, os_counts := increment oc_completed oc_completed_update c,
     os_in_flight := os_in_flight b - 1\<rparr>"
  consider "complete b row lock_ok
        = ?b (os_records b) (increment oc_outside_before oc_outside_before_update (os_counts b))"
    | "complete b row lock_ok
        = ?b (os_records b) (increment oc_outside_after oc_outside_after_update (os_counts b))"
    | "complete b row lock_ok
        = ?b (os_records b @ [row]) (increment oc_stored oc_stored_update (os_counts b))"
    by (cases "discardable (os_window b) row \<and> ob_exit (rr_observation row) < wn_begin (os_window b)";
        cases "discardable (os_window b) row \<and> ob_entry (rr_observation row) \<ge> wn_end (os_window b)")
      (simp_all only: complete_def True Let_def if_True if_False prod.case simp_thms)
  then show ?thesis
  proof cases
    case 1
    have "\<not> oc_saturated (os_counts b) \<and> increment oc_outside_before oc_outside_before_update (os_counts b)
          = (os_counts b)\<lparr>oc_outside_before := oc_outside_before (os_counts b) + 1\<rparr>
        \<and> unat (oc_outside_before (os_counts b) + 1) = Suc (unat (oc_outside_before (os_counts b)))"
      if "\<not> oc_saturated (increment oc_outside_before oc_outside_before_update (os_counts b))"
      using increment_ok [OF that] by simp
    then show ?thesis
      unfolding 1 by (intro publish_inv [OF inv ord]) auto
  next
    case 2
    have "\<not> oc_saturated (os_counts b) \<and> increment oc_outside_after oc_outside_after_update (os_counts b)
          = (os_counts b)\<lparr>oc_outside_after := oc_outside_after (os_counts b) + 1\<rparr>
        \<and> unat (oc_outside_after (os_counts b) + 1) = Suc (unat (oc_outside_after (os_counts b)))"
      if "\<not> oc_saturated (increment oc_outside_after oc_outside_after_update (os_counts b))"
      using increment_ok [OF that] by simp
    then show ?thesis
      unfolding 2 by (intro publish_inv [OF inv ord]) auto
  next
    case 3
    have "\<not> oc_saturated (os_counts b) \<and> increment oc_stored oc_stored_update (os_counts b)
          = (os_counts b)\<lparr>oc_stored := oc_stored (os_counts b) + 1\<rparr>
        \<and> unat (oc_stored (os_counts b) + 1) = Suc (unat (oc_stored (os_counts b)))"
      if "\<not> oc_saturated (increment oc_stored oc_stored_update (os_counts b))"
      using increment_ok [OF that] by simp
    then show ?thesis
      unfolding 3 by (intro publish_inv [OF inv ord]) auto
  qed
qed

lemma observer_step_inv:
  assumes "observer_step capacity s s'" "observer_inv capacity w s"
  shows "observer_inv capacity w s'"
  using assms
proof (cases rule: observer_step.cases)
  case (enter_admitted b loaded lock_ok b' ordinal flying)
  then show ?thesis using reserve_inv [of capacity w b flying loaded lock_ok] assms(2) by simp
next
  case (enter_refused b loaded lock_ok b' flying)
  then show ?thesis using reserve_inv [of capacity w b flying loaded lock_ok] assms(2) by simp
next
  case (finish ordinal flying row b lock_ok)
  then show ?thesis using complete_inv [of capacity w b flying row lock_ok] assms(2) by simp
next
  case (stop b flying)
  then show ?thesis
    using assms(2) by (simp add: stop_admissions_def observer_inv_flags)
next
  case (poll b flying owned)
  have "fst (try_freeze b owned) = b\<lparr>os_accepting := False\<rparr>
      \<or> fst (try_freeze b owned) = b\<lparr>os_accepting := False, os_failed := True\<rparr>"
    by (cases owned) (simp_all add: try_freeze_def Let_def stop_admissions_def)
  then show ?thesis
    using assms(2) poll observer_inv_failed [of capacity w "b\<lparr>os_accepting := False\<rparr>" flying]
    by (auto simp: observer_inv_accepting)
qed

lemma observer_reachable_inv:
  "observer_reachable capacity w enabled s \<Longrightarrow> observer_inv capacity w s"
  by (induction rule: observer_reachable.induct) (auto intro: observer_inv_new observer_step_inv)

text \<open>Once admissions are stopped and the flights are drained, nothing changes any more except the
  failure flag.\<close>

definition settled :: "observer \<Rightarrow> observer_snapshot \<Rightarrow> bool" where
  "settled b sp \<longleftrightarrow> \<not> os_accepting b \<and> os_window b = sp_window sp \<and> os_records b = sp_records sp
     \<and> (os_counts b)\<lparr>oc_failed := oc_failed (sp_counts sp)\<rparr> = sp_counts sp"

lemma settled_step:
  assumes "observer_step capacity (b, []) s'" "settled b sp"
  shows "\<exists>b'. s' = (b', []) \<and> settled b' sp"
  using assms
  by (cases rule: observer_step.cases)
    (auto simp: settled_def reserve_def stop_admissions_def try_freeze_def Let_def split: option.splits if_splits)


inductive observer_runs :: "nat \<Rightarrow> observer \<times> u64 list \<Rightarrow> observer \<times> u64 list \<Rightarrow> bool" for capacity where
  refl: "observer_runs capacity s s"
| trans: "observer_runs capacity s t \<Longrightarrow> observer_step capacity t u \<Longrightarrow> observer_runs capacity s u"

lemma settled_runs:
  assumes "observer_runs capacity s s'" "s = (b, [])" "settled b sp"
  shows "\<exists>b'. s' = (b', []) \<and> settled b' sp"
  using assms
proof (induction rule: observer_runs.induct)
  case (trans s t u)
  then show ?case using settled_step by blast
qed simp

lemma try_freeze_Some:
  assumes "try_freeze b owned = (b', Some sp)"
  shows "os_in_flight b = 0 \<and> settled b' sp \<and> sp_window sp = os_window b \<and> sp_records sp = os_records b
    \<and> sp_counts sp = (os_counts b)\<lparr>oc_failed := os_failed b\<rparr>"
  using assms
  by (auto simp: try_freeze_def Let_def stop_admissions_def settled_def split: option.splits if_splits)

lemma classify_journal:
  "or_journal (classify_offline capacity sp)
     = journal_of capacity (sp_window sp) (map rr_observation (sort_key rr_ordinal (sp_records sp)))"
proof -
  have "foldl (\<lambda>j row. fst (observe capacity j (rr_observation row))) j rows
      = foldl (\<lambda>j ob. fst (observe capacity j ob)) j (map rr_observation rows)" for j rows
    by (induction rows arbitrary: j) simp_all
  then show ?thesis by (simp add: classify_offline_def Let_def journal_of_def)
qed

lemma callback_fold:
  "fold (\<lambda>row m. or m (rr_callback_issues row)) rows k = 0 \<longleftrightarrow> k = 0 \<and> (\<forall>r \<in> set rows. rr_callback_issues r = 0)"
  by (induction rows arbitrary: k) auto

subsection \<open>Properties\<close>

text \<open>C24: under every interleaving of threads entering, finishing, stopping and polling, the stored
  records and the calls in flight never exceed the capacity, so the record array is never written
  out of bounds; and while no counter has saturated every entry is accounted for exactly once, as
  overflowed, in flight, stored or discarded outside the window, or lost with the failure flag set.\<close>

theorem observer_accounts_for_calls:
  assumes "observer_reachable capacity w enabled (b, flying)"
  shows "length (os_records b) + length flying \<le> capacity \<and> os_in_flight b = length flying
     \<and> (\<not> oc_saturated (os_counts b) \<longrightarrow> exact_counts (b, flying))"
  using observer_reachable_inv [OF assms] by (simp add: observer_inv_def)

text \<open>A successful freeze is final: it happens only with no call in flight, and no later step of
  any thread changes the window, the records or the counters it copied.\<close>

theorem observer_freeze_final:
  assumes "observer_reachable capacity w enabled (b, flying)"
    and "try_freeze b owned = (b', Some sp)" and "observer_runs capacity (b', flying) (b'', flying'')"
  shows "flying = [] \<and> flying'' = [] \<and> sp_window sp = w \<and> os_records b'' = sp_records sp
     \<and> (os_counts b'')\<lparr>oc_failed := oc_failed (sp_counts sp)\<rparr> = sp_counts sp"
proof -
  note inv = observer_reachable_inv [OF assms(1)] and fr = try_freeze_Some [OF assms(2)]
  then have none: "flying = []" by (auto simp: observer_inv_def)
  obtain c where "(b'', flying'') = (c, [])" "settled c sp"
    using settled_runs [OF assms(3), of b' sp] none fr by blast
  then show ?thesis
    using none fr inv by (simp add: settled_def observer_inv_def)
qed

text \<open>C23: a clean offline report is a guarantee: when the classification of a frozen snapshot of a
  capacity of at most 4096 reports no issue, every admitted call was completed and none overflowed,
  and every retained call has its callbacks intact, lies wholly inside the valid window and touches
  no other retained call.\<close>

theorem offline_report_clean:
  assumes "observer_reachable capacity w enabled (b, flying)" and "try_freeze b owned = (b', Some sp)"
    and "0 < capacity" "capacity \<le> 4096"
    and clean: "report_issues (classify_offline capacity sp) = 0"
  shows "oc_admitted (sp_counts sp) = oc_completed (sp_counts sp) \<and> oc_overflow (sp_counts sp) = 0
     \<and> window_valid w
     \<and> (\<forall>r \<in> set (sp_records sp). rr_callback_issues r = 0 \<and> wholly_inside w (rr_observation r))
     \<and> (\<forall>r \<in> set (sp_records sp). \<forall>q \<in> set (sp_records sp). r \<noteq> q
          \<longrightarrow> \<not> touches (rr_observation r) (rr_observation q))"
proof -
  note fr = try_freeze_Some [OF assms(2)]
  let ?rows = "sort_key rr_ordinal (sp_records sp)"
  let ?obs = "map rr_observation ?rows" and ?r = "classify_offline capacity sp"
  let ?j = "journal_of capacity w (map rr_observation (sort_key rr_ordinal (sp_records sp)))"
  note inv = observer_reachable_inv [OF assms(1)]
  have w: "sp_window sp = w" using inv fr by (simp add: observer_inv_def)
  have j: "or_journal ?r = ?j" by (simp add: classify_journal w)
  have counts: "or_counts ?r = sp_counts sp" by (simp add: classify_offline_def Let_def)
  from clean have c: "jn_issues ?j = 0" "oc_overflow (sp_counts sp) = 0" "\<not> oc_saturated (sp_counts sp)"
      "\<not> oc_failed (sp_counts sp)" "or_callback_issues ?r = 0"
    by (simp_all add: report_issues_def j counts kObserverFailure_def kRecordedInvocationDiagnostic_def)
  have cb: "\<forall>r \<in> set (sp_records sp). rr_callback_issues r = 0"
    using c(5) by (simp add: classify_offline_def Let_def callback_fold)
  have acc: "oc_admitted (sp_counts sp) = oc_completed (sp_counts sp)"
    using inv fr c(3,4) by (auto simp: observer_inv_def exact_counts_def exact_sums_def word_unat_eq_iff)
  have fits: "length ?obs \<le> capacity" using inv fr by (auto simp: observer_inv_def)
  note jinv = journal_of_inv [OF assms(3,4), of w ?obs]
  have len: "length (jn_records ?j) = length ?obs" using jinv fits by (simp add: journal_inv_def)
  have noflag: "\<not> has_flag (tr_issues (jn_records ?j ! k)) n" if "k < length ?obs" for k n
    using covered_journal [of capacity w ?obs] that len c(1) by (fastforce simp: issues_covered_def)
  have inside: "wholly_inside w (?obs ! k)" if k: "k < length ?obs" for k
  proof -
    have "row_ok w ?obs k (jn_records ?j ! k)" using jinv k fits by (simp add: journal_inv_def)
    then have "tr_inside (jn_records ?j ! k) = wholly_inside w (?obs ! k)" by (simp only: row_ok_def)
    moreover have "tr_inside (jn_records ?j ! k)"
      using journal_position [OF assms(3,4), of k w ?obs] k len noflag [OF k] by (simp only: Let_def) blast
    ultimately show ?thesis by simp
  qed
  have apart: "\<not> touches (?obs ! k) (?obs ! m)" if "k < length ?obs" "m < length ?obs" "m \<noteq> k" for k m
    using journal_overlaps [OF assms(3,4), of k w ?obs] noflag [OF that(1)] that len fits by auto
  have set_rows: "set (sp_records sp) = set ?rows" by simp
  have all_inside: "\<forall>r \<in> set (sp_records sp). wholly_inside w (rr_observation r)"
    unfolding set_rows using inside by (auto simp: all_set_conv_all_nth simp del: set_sort)
  have pairs: "\<not> touches (rr_observation (?rows ! k)) (rr_observation (?rows ! m))"
    if "k < length ?rows" "m < length ?rows" "?rows ! k \<noteq> ?rows ! m" for k m
    using apart [of k m] that by auto
  have all_apart: "\<forall>r \<in> set (sp_records sp). \<forall>q \<in> set (sp_records sp). r \<noteq> q
          \<longrightarrow> \<not> touches (rr_observation r) (rr_observation q)"
    unfolding set_rows all_set_conv_all_nth using pairs by blast
  have "window_valid w" using c(1) window_flag_kept [of w capacity ?obs] by auto
  with acc c(2) cb all_inside all_apart show ?thesis by blast
qed

subsection \<open>A complete run\<close>

definition example_row :: raw_record where
  "example_row = completion_row 1 \<lparr>idn_timer = 1, idn_caller = 2, idn_thread = 3\<rparr> 0 0
     \<lparr>cb_entry_clock = Some 12, cb_before = Some (True, no_state), cb_unwound = False,
      cb_after = Some (True, no_state), cb_exit_clock = Some 15\<rparr>"

definition example_entered :: observer where
  "example_entered = fst (reserve 1 (new_observer example_window True) True True)"

definition example_done :: observer where
  "example_done = complete example_entered example_row True"

definition example_snapshot :: observer_snapshot where
  "example_snapshot = \<lparr>sp_window = os_window example_done, sp_records = os_records example_done,
     sp_counts = (os_counts example_done)\<lparr>oc_failed := os_failed example_done\<rparr>\<rparr>"

lemma example_run: "observer_reachable 1 example_window True (example_done, [])"
proof -
  have r: "reserve 1 (new_observer example_window True) True True = (example_entered, Some 1)"
    by (simp add: example_entered_def reserve_def new_observer_def no_counts_def increment_def)
  have "observer_reachable 1 example_window True (example_entered, [] @ [1])"
    by (rule observer_reachable.step [OF observer_reachable.start observer_step.enter_admitted [OF r]])
  moreover have "rr_ordinal example_row = 1" by (simp add: example_row_def completion_row_def clock_callback_def state_callback_def)
  ultimately have "observer_reachable 1 example_window True (example_done, remove1 1 [1])"
    unfolding example_done_def
    by (intro observer_reachable.step [OF _ observer_step.finish]) simp_all
  then show ?thesis by simp
qed

lemma example_freeze:
  "try_freeze example_done (Some True) = (stop_admissions example_done, Some example_snapshot)"
proof -
  have "os_in_flight example_done = 0" by code_simp
  then show ?thesis by (simp add: try_freeze_def example_snapshot_def stop_admissions_def Let_def)
qed

theorem observer_accounts_for_calls_witness:
  "length (os_records example_done) = 1 \<and> length (os_records example_done) \<le> 1 \<and> os_in_flight example_done = 0
   \<and> exact_counts (example_done, [])"
proof -
  have "length (os_records example_done) = 1" "\<not> oc_saturated (os_counts example_done)" by code_simp+
  with observer_accounts_for_calls [OF example_run] show ?thesis by simp
qed

theorem observer_freeze_final_witness:
  "os_records example_done = sp_records example_snapshot \<and> sp_window example_snapshot = example_window"
  using observer_freeze_final [OF example_run example_freeze observer_runs.refl]
  by (simp add: stop_admissions_def)

theorem offline_report_clean_witness:
  "example_row \<in> set (sp_records example_snapshot) \<and> wholly_inside example_window (rr_observation example_row)"
proof -
  have clean: "report_issues (classify_offline 1 example_snapshot) = 0" by code_simp
  have "os_records example_done = [example_row]" by code_simp
  then have "example_row \<in> set (sp_records example_snapshot)" by (simp add: example_snapshot_def)
  moreover note offline_report_clean [OF example_run example_freeze _ _ clean]
  ultimately show ?thesis by simp
qed

end
