(* ===== verification/FrameContext.thy ===== *)
theory FrameContext
  imports Prelude
begin

section \<open>Frame context tracker (\<open>mcla_frame_context_core.h\<close>)\<close>

text \<open>
  The per-thread bookkeeping of nested render scopes. A \<open>Tracker\<close> is a record with one field
  per data member; the fixed two-slot stack with \<open>depth_\<close> is the list of its live entries,
  outermost first. Every method returns the new tracker with its result. A violation poisons
  the tracker for good. The last section follows whole call sequences.
\<close>

subsection \<open>Model\<close>

record fid =
  fi_epoch :: u64
  fi_serial :: u64

abbreviation no_id :: fid where
  "no_id \<equiv> \<lparr>fi_epoch = 0, fi_serial = 0\<rparr>"

definition id_valid :: "fid \<Rightarrow> bool" where
  "id_valid i \<longleftrightarrow> fi_epoch i \<noteq> 0 \<and> fi_serial i \<noteq> 0"

record lane =
  la_context :: u64
  la_base :: u64

datatype fkind = KUpdate | KCoordinator | KSyncRender | KWorkerRender | KOther

record fcontext =
  fc_invocation :: fid
  fc_update :: fid
  fc_wait :: u64
  fc_coordinator :: u64
  fc_kind :: fkind

definition no_context :: fcontext where
  "no_context = \<lparr>fc_invocation = no_id, fc_update = no_id, fc_wait = 0, fc_coordinator = 0,
     fc_kind = KUpdate\<rparr>"

record lease =
  le_id :: fid
  le_begin :: u64
  le_depth :: nat

definition no_lease :: lease where
  "no_lease = \<lparr>le_id = no_id, le_begin = 0, le_depth = 0\<rparr>"

record fentry =
  fe_context :: fcontext
  fe_begin :: u64

record tracker =
  tk_epoch :: u64
  tk_lane :: lane
  tk_next :: u64
  tk_last_qpc :: u64
  tk_update :: fid
  tk_wait :: u64
  tk_wait_coordinator :: u64
  tk_last_wait :: u64
  tk_stack :: "fentry list"
  tk_failed :: bool

definition new_tracker :: "u64 \<Rightarrow> lane \<Rightarrow> u64 \<Rightarrow> tracker" where
  "new_tracker thread_epoch l initial_serial =
     \<lparr>tk_epoch = thread_epoch, tk_lane = l, tk_next = initial_serial, tk_last_qpc = 0,
      tk_update = no_id, tk_wait = 0, tk_wait_coordinator = 0, tk_last_wait = 0, tk_stack = [],
      tk_failed = (thread_epoch = 0 \<or> la_context l = 0 \<or> la_base l = 0)\<rparr>"

definition current :: "tracker \<Rightarrow> fcontext" where
  "current t = (if \<not> tk_failed t \<and> tk_stack t \<noteq> [] then fe_context (last (tk_stack t)) else no_context)"

definition pending_update :: "tracker \<Rightarrow> fid" where
  "pending_update t = (if tk_failed t then no_id else tk_update t)"

definition poison :: "tracker \<Rightarrow> tracker" where
  "poison t = t\<lparr>tk_failed := True, tk_update := no_id, tk_wait := 0, tk_wait_coordinator := 0\<rparr>"

text \<open>\<open>check_lane\<close> is this condition; where it fails the callers poison the tracker.\<close>

definition lane_ok :: "tracker \<Rightarrow> lane \<Rightarrow> bool" where
  "lane_ok t l \<longleftrightarrow> \<not> (tk_failed t \<or> l \<noteq> tk_lane t)"

definition worker_credit :: "tracker \<Rightarrow> lane \<Rightarrow> u64 \<Rightarrow> u64 \<Rightarrow> bool \<Rightarrow> tracker \<times> bool" where
  "worker_credit t l operation coordinator_epoch expected_success =
     (if \<not> lane_ok t l \<or> tk_stack t \<noteq> [] \<or> id_valid (tk_update t) \<or> \<not> expected_success
         \<or> operation \<le> tk_last_wait t \<or> coordinator_epoch = 0 \<or> tk_wait t \<noteq> 0
      then (poison t, False)
      else (t\<lparr>tk_wait := operation, tk_last_wait := operation,
              tk_wait_coordinator := coordinator_epoch\<rparr>, True))"

text \<open>
  The \<open>switch\<close> of \<open>enter\<close>: \<open>None\<close> is \<open>reject()\<close>, otherwise the context (without its
  invocation id) and the tracker with the consumed slots cleared.
\<close>

definition enter_kind :: "tracker \<Rightarrow> fkind \<Rightarrow> u64 \<Rightarrow> (tracker \<times> fcontext) option" where
  "enter_kind t kind coordinator_epoch =
     (let c = no_context\<lparr>fc_kind := kind\<rparr> in
      case kind of
        KUpdate \<Rightarrow>
          if tk_stack t \<noteq> [] \<or> id_valid (tk_update t) \<or> tk_wait t \<noteq> 0 \<or> coordinator_epoch \<noteq> 0
          then None else Some (t, c)
      | KCoordinator \<Rightarrow>
          if tk_stack t \<noteq> [] \<or> \<not> id_valid (tk_update t) \<or> tk_wait t \<noteq> 0 \<or> coordinator_epoch = 0
          then None
          else Some (t\<lparr>tk_update := no_id\<rparr>,
                 c\<lparr>fc_update := tk_update t, fc_coordinator := coordinator_epoch\<rparr>)
      | KSyncRender \<Rightarrow>
          if length (tk_stack t) \<noteq> 1 \<or> fc_kind (fe_context (tk_stack t ! 0)) \<noteq> KCoordinator
             \<or> coordinator_epoch = 0
             \<or> coordinator_epoch \<noteq> fc_coordinator (fe_context (tk_stack t ! 0))
          then None
          else Some (t, c\<lparr>fc_update := fc_update (fe_context (tk_stack t ! 0)),
                        fc_coordinator := coordinator_epoch\<rparr>)
      | KWorkerRender \<Rightarrow>
          if tk_stack t \<noteq> [] \<or> id_valid (tk_update t) \<or> tk_wait t = 0 \<or> coordinator_epoch = 0
             \<or> coordinator_epoch \<noteq> tk_wait_coordinator t
          then None
          else Some (t\<lparr>tk_wait := 0, tk_wait_coordinator := 0\<rparr>,
                 c\<lparr>fc_wait := tk_wait t, fc_coordinator := tk_wait_coordinator t\<rparr>)
      | KOther \<Rightarrow> None)"

definition enter :: "tracker \<Rightarrow> lane \<Rightarrow> fkind \<Rightarrow> bool \<Rightarrow> u64 \<Rightarrow> u64 \<Rightarrow> tracker \<times> lease" where
  "enter t l kind expected_caller qpc coordinator_epoch =
     (if \<not> lane_ok t l \<or> \<not> expected_caller \<or> qpc = 0 \<or> qpc > kMaxQpc \<or> qpc < tk_last_qpc t
         \<or> length (tk_stack t) = 2 \<or> tk_next t = 0xFFFFFFFFFFFFFFFF
      then (poison t, no_lease)
      else case enter_kind t kind coordinator_epoch of
        None \<Rightarrow> (poison t, no_lease)
      | Some (t', c) \<Rightarrow>
          let ident = \<lparr>fi_epoch = tk_epoch t, fi_serial = tk_next t + 1\<rparr>;
              entry = \<lparr>fe_context = c\<lparr>fc_invocation := ident\<rparr>, fe_begin = qpc\<rparr> in
          (t'\<lparr>tk_next := tk_next t + 1, tk_stack := tk_stack t @ [entry], tk_last_qpc := qpc\<rparr>,
           \<lparr>le_id = ident, le_begin = qpc, le_depth = length (tk_stack t) + 1\<rparr>))"

definition leave :: "tracker \<Rightarrow> lane \<Rightarrow> lease \<Rightarrow> u64 \<Rightarrow> bool \<Rightarrow> tracker \<times> bool" where
  "leave t l ls qpc completed =
     (if \<not> lane_ok t l \<or> \<not> id_valid (le_id ls) \<or> tk_stack t = [] \<or> le_depth ls \<noteq> length (tk_stack t)
         \<or> le_id ls \<noteq> fc_invocation (fe_context (last (tk_stack t)))
         \<or> le_begin ls \<noteq> fe_begin (last (tk_stack t)) \<or> qpc < tk_last_qpc t \<or> qpc > kMaxQpc
      then (poison t, False)
      else let c = fe_context (last (tk_stack t));
               t' = t\<lparr>tk_stack := butlast (tk_stack t), tk_last_qpc := qpc\<rparr> in
        if \<not> completed then (poison t', False)
        else ((if fc_kind c = KUpdate then t'\<lparr>tk_update := fc_invocation c\<rparr> else t'), True))"

subsection \<open>Call sequences\<close>

datatype fevent =
    Credit lane u64 u64 bool
  | Enter lane fkind bool u64 u64
  | Leave lane lease u64 bool

text \<open>A run keeps, beside the tracker, the contexts of all successful entries in order.\<close>

fun tracked :: "tracker \<times> fcontext list \<Rightarrow> fevent \<Rightarrow> tracker \<times> fcontext list" where
  "tracked (t, h) (Credit l operation ce ok) = (fst (worker_credit t l operation ce ok), h)"
| "tracked (t, h) (Enter l kind ok qpc ce) =
     (case enter t l kind ok qpc ce of
        (t', ls) \<Rightarrow> (t', if id_valid (le_id ls) then h @ [current t'] else h))"
| "tracked (t, h) (Leave l ls qpc done) = (fst (leave t l ls qpc done), h)"

definition invocations :: "fcontext list \<Rightarrow> u64 list" where
  "invocations h = map (fi_serial \<circ> fc_invocation) h"

definition consumed_updates :: "fcontext list \<Rightarrow> u64 list" where
  "consumed_updates h = map (fi_serial \<circ> fc_update) (filter (\<lambda>c. fc_kind c = KCoordinator) h)"

definition consumed_waits :: "fcontext list \<Rightarrow> u64 list" where
  "consumed_waits h = map fc_wait (filter (\<lambda>c. fc_kind c = KWorkerRender) h)"

lemmas history_defs = invocations_def consumed_updates_def consumed_waits_def

definition updates_known :: "fcontext list \<Rightarrow> bool" where
  "updates_known h \<longleftrightarrow> (\<forall>c \<in> set h. fc_kind c = KCoordinator \<longrightarrow>
     (\<exists>d \<in> set h. fc_kind d = KUpdate \<and> fc_invocation d = fc_update c))"

definition stack_shape :: "fkind list \<Rightarrow> bool" where
  "stack_shape ks \<longleftrightarrow> ks = [] \<or> ks = [KUpdate] \<or> ks = [KCoordinator] \<or> ks = [KCoordinator, KSyncRender]
     \<or> ks = [KWorkerRender]"

text \<open>What a live tracker holds: at most one unconsumed slot, and only between scopes.\<close>

definition slots_ok :: "tracker \<Rightarrow> fcontext list \<Rightarrow> bool" where
  "slots_ok t h \<longleftrightarrow> tk_epoch t \<noteq> 0 \<and> stack_shape (map (fc_kind \<circ> fe_context) (tk_stack t))
     \<and> (id_valid (tk_update t) \<longrightarrow> tk_stack t = [] \<and> tk_wait t = 0
          \<and> (\<exists>d \<in> set h. fc_kind d = KUpdate \<and> fc_invocation d = tk_update t)
          \<and> (\<forall>u \<in> set (consumed_updates h). u < fi_serial (tk_update t)))
     \<and> (tk_wait t \<noteq> 0 \<longrightarrow> tk_stack t = [] \<and> tk_wait t \<le> tk_last_wait t
          \<and> (\<forall>w \<in> set (consumed_waits h). w < tk_wait t))
     \<and> (\<forall>e. tk_stack t = [e] \<and> fc_kind (fe_context e) = KUpdate \<longrightarrow> tk_wait t = 0
          \<and> (\<forall>u \<in> set (consumed_updates h). u < fi_serial (fc_invocation (fe_context e))))"

definition tracker_inv :: "tracker \<times> fcontext list \<Rightarrow> bool" where
  "tracker_inv s \<longleftrightarrow> (case s of (t, h) \<Rightarrow>
     sorted_wrt (<) (invocations h) \<and> sorted_wrt (<) (consumed_updates h)
     \<and> sorted_wrt (<) (consumed_waits h) \<and> updates_known h
     \<and> (\<forall>i \<in> set (invocations h). i \<le> tk_next t)
     \<and> (\<forall>w \<in> set (consumed_waits h). w \<le> tk_last_wait t)
     \<and> (\<forall>e \<in> set (tk_stack t). fe_context e \<in> set h)
     \<and> (\<not> tk_failed t \<longrightarrow> slots_ok t h))"

lemma history_snoc [simp]:
  "invocations (h @ [c]) = invocations h @ [fi_serial (fc_invocation c)]"
  "consumed_updates (h @ [c]) = consumed_updates h
     @ (if fc_kind c = KCoordinator then [fi_serial (fc_update c)] else [])"
  "consumed_waits (h @ [c]) = consumed_waits h @ (if fc_kind c = KWorkerRender then [fc_wait c] else [])"
  by (simp_all add: history_defs)

lemma updates_known_snoc [simp]:
  "updates_known h \<Longrightarrow> updates_known (h @ [c]) \<longleftrightarrow>
     (fc_kind c = KCoordinator \<longrightarrow> (\<exists>d \<in> set h. fc_kind d = KUpdate \<and> fc_invocation d = fc_update c))"
  by (auto simp: updates_known_def)

lemma updates_known_le:
  assumes "updates_known h" "u \<in> set (consumed_updates h)"
  shows "u \<in> set (invocations h)"
proof -
  from assms(2) obtain c where c: "c \<in> set h" "fc_kind c = KCoordinator" "u = fi_serial (fc_update c)"
    by (auto simp: consumed_updates_def)
  with assms(1) obtain d where "d \<in> set h" "fc_invocation d = fc_update c"
    by (auto simp: updates_known_def)
  with c show ?thesis by (force simp: invocations_def)
qed

lemma tracker_inv_init: "tracker_inv (new_tracker te l n, [])"
  by (auto simp: tracker_inv_def new_tracker_def history_defs updates_known_def slots_ok_def
      stack_shape_def id_valid_def)

lemma tracker_inv_poison: "tracker_inv (t, h) \<Longrightarrow> tracker_inv (poison t, h)"
  by (simp add: tracker_inv_def poison_def)

lemma worker_credit_inv:
  assumes "tracker_inv (t, h)"
  shows "tracker_inv (fst (worker_credit t l operation ce ok), h)"
proof (cases "snd (worker_credit t l operation ce ok)")
  case False
  then show ?thesis
    using tracker_inv_poison [OF assms] by (auto simp: worker_credit_def split: if_splits)
next
  case True
  with assms show ?thesis
    by (fastforce simp: worker_credit_def tracker_inv_def slots_ok_def lane_ok_def not_le
        split: if_splits)
qed

lemma enter_result:
  obtains (rejected) "enter t l kind ok qpc ce = (poison t, no_lease)"
  | (entered) t' c ident where "enter_kind t kind ce = Some (t', c)" "\<not> tk_failed t"
      "tk_next t < tk_next t + 1" "ident = \<lparr>fi_epoch = tk_epoch t, fi_serial = tk_next t + 1\<rparr>"
      "enter t l kind ok qpc ce =
        (t'\<lparr>tk_next := tk_next t + 1,
            tk_stack := tk_stack t @ [\<lparr>fe_context = c\<lparr>fc_invocation := ident\<rparr>, fe_begin = qpc\<rparr>],
            tk_last_qpc := qpc\<rparr>,
         \<lparr>le_id = ident, le_begin = qpc, le_depth = length (tk_stack t) + 1\<rparr>)"
proof (cases "\<not> lane_ok t l \<or> \<not> ok \<or> qpc = 0 \<or> qpc > kMaxQpc \<or> qpc < tk_last_qpc t
         \<or> length (tk_stack t) = 2 \<or> tk_next t = 0xFFFFFFFFFFFFFFFF")
  case True
  then show ?thesis using rejected by (simp add: enter_def)
next
  case False
  then have live: "\<not> tk_failed t" "tk_next t \<noteq> - 1" by (auto simp: lane_ok_def)
  show ?thesis
  proof (cases "enter_kind t kind ce")
    case None
    with False show ?thesis using rejected by (simp add: enter_def)
  next
    case (Some p)
    obtain t' c where p: "p = (t', c)" by (cases p)
    show ?thesis
      using entered [OF _ live(1) word_succ_greater [OF live(2)] refl, of t' c] Some False
      by (simp add: enter_def p Let_def)
  qed
qed

lemma enter_kind_frame:
  assumes "enter_kind t kind ce = Some (t', c)"
  shows "tk_stack t' = tk_stack t \<and> tk_failed t' = tk_failed t \<and> tk_epoch t' = tk_epoch t
    \<and> tk_last_wait t' = tk_last_wait t \<and> fc_kind c = kind \<and> kind \<noteq> KOther"
  using assms by (auto simp: enter_kind_def no_context_def Let_def split: fkind.splits if_splits)

lemma enter_inv:
  assumes inv: "tracker_inv (t, h)"
  shows "tracker_inv (tracked (t, h) (Enter l kind ok qpc ce))"
proof (cases rule: enter_result [of t l kind ok qpc ce])
  case rejected
  then show ?thesis
    using tracker_inv_poison [OF inv] by (simp add: no_lease_def id_valid_def)
next
  case (entered t' c ident)
  let ?c = "c\<lparr>fc_invocation := ident\<rparr>"
  have slots: "slots_ok t h" using inv entered(2) by (simp add: tracker_inv_def)
  note frame = enter_kind_frame [OF entered(1)]
  have zero: "tk_next t + 1 \<noteq> 0" using entered(3) by auto
  have valid: "id_valid ident" using slots zero by (simp add: entered(4) id_valid_def slots_ok_def)
  have step: "tracked (t, h) (Enter l kind ok qpc ce) =
      (t'\<lparr>tk_next := tk_next t + 1, tk_stack := tk_stack t @ [\<lparr>fe_context = ?c, fe_begin = qpc\<rparr>],
          tk_last_qpc := qpc\<rparr>, h @ [?c])"
    using valid frame entered(2) by (simp add: entered(5) current_def)
  have new: "\<forall>i \<in> set (invocations h). i < tk_next t + 1"
    using inv entered(3) by (auto simp: tracker_inv_def intro: le_less_trans)
  then have newu: "\<forall>u \<in> set (consumed_updates h). u < tk_next t + 1"
    using updates_known_le inv by (auto simp: tracker_inv_def)
  have base: "sorted_wrt (<) (invocations h)" "sorted_wrt (<) (consumed_updates h)"
      "sorted_wrt (<) (consumed_waits h)" "updates_known h"
      "\<forall>w \<in> set (consumed_waits h). w \<le> tk_last_wait t"
      "\<forall>e \<in> set (tk_stack t). fe_context e \<in> set h"
    using inv by (auto simp: tracker_inv_def)
  have le: "\<forall>i \<in> set (invocations h). i \<le> tk_next t + 1" using new by (auto intro: less_imp_le)
  have ser: "fi_serial ident = tk_next t + 1" by (simp add: entered(4))
  note facts = tracker_inv_def sorted_wrt_append base new le ser frame
  show ?thesis
  proof (cases kind)
    case KUpdate
    with entered(1) have k: "t' = t" "tk_stack t = []" "\<not> id_valid (tk_update t)" "tk_wait t = 0"
      by (auto simp: enter_kind_def split: if_splits)
    show ?thesis
      unfolding step using slots k KUpdate newu
      by (simp add: facts slots_ok_def stack_shape_def)
  next
    case KCoordinator
    with entered(1) have k: "t' = t\<lparr>tk_update := no_id\<rparr>" "fc_update c = tk_update t" "tk_stack t = []"
        "id_valid (tk_update t)" "tk_wait t = 0"
      by (auto simp: enter_kind_def Let_def split: if_splits)
    show ?thesis
      unfolding step using slots k KCoordinator
      by (simp add: facts slots_ok_def stack_shape_def id_valid_def)
  next
    case KSyncRender
    with entered(1) obtain e where k: "t' = t" "tk_stack t = [e]" "fc_kind (fe_context e) = KCoordinator"
      by (cases "tk_stack t") (auto simp: enter_kind_def Let_def split: if_splits)
    show ?thesis
      unfolding step using slots k KSyncRender
      by (simp add: facts slots_ok_def stack_shape_def)
  next
    case KWorkerRender
    with entered(1) have k: "t' = t\<lparr>tk_wait := 0, tk_wait_coordinator := 0\<rparr>" "fc_wait c = tk_wait t"
        "tk_stack t = []" "\<not> id_valid (tk_update t)" "tk_wait t \<noteq> 0"
      by (auto simp: enter_kind_def Let_def split: if_splits)
    show ?thesis
      unfolding step using slots k KWorkerRender
      by (simp add: facts slots_ok_def stack_shape_def)
  next
    case KOther
    with frame show ?thesis by simp
  qed
qed

lemma stack_cases:
  assumes "stack_shape (map f xs)" "xs \<noteq> []"
  shows "(\<exists>x. xs = [x] \<and> f x \<in> {KUpdate, KCoordinator, KWorkerRender})
     \<or> (\<exists>x y. xs = [x, y] \<and> f x = KCoordinator \<and> f y = KSyncRender)"
  using assms by (cases xs; cases "tl xs") (auto simp: stack_shape_def)

lemma leave_inv:
  assumes inv: "tracker_inv (t, h)"
  shows "tracker_inv (fst (leave t l ls qpc ok), h)"
proof (cases "snd (leave t l ls qpc ok)")
  case False
  have "tracker_inv (poison (t\<lparr>tk_stack := butlast (tk_stack t), tk_last_qpc := qpc\<rparr>), h)"
    using inv by (auto simp: tracker_inv_def poison_def dest: in_set_butlastD)
  with False tracker_inv_poison [OF inv] show ?thesis
    by (auto simp: leave_def Let_def split: if_splits)
next
  case True
  then have live: "\<not> tk_failed t" and ne: "tk_stack t \<noteq> []"
    by (auto simp: leave_def lane_ok_def split: if_splits)
  let ?c = "fe_context (last (tk_stack t))" and ?t = "t\<lparr>tk_stack := butlast (tk_stack t), tk_last_qpc := qpc\<rparr>"
  from True have res: "fst (leave t l ls qpc ok) =
      (if fc_kind ?c = KUpdate then ?t\<lparr>tk_update := fc_invocation ?c\<rparr> else ?t)"
    by (auto simp: leave_def Let_def split: if_splits)
  have slots: "slots_ok t h" using inv live by (simp add: tracker_inv_def)
  have sub: "\<forall>e \<in> set (butlast (tk_stack t)). fe_context e \<in> set h" and lasth: "?c \<in> set h"
    using inv ne by (auto simp: tracker_inv_def dest: in_set_butlastD)
  have "stack_shape (map (fc_kind \<circ> fe_context) (tk_stack t))" using slots by (simp add: slots_ok_def)
  from stack_cases [OF this ne] consider
      e where "tk_stack t = [e]" "fc_kind (fe_context e) \<in> {KUpdate, KCoordinator, KWorkerRender}"
    | d e where "tk_stack t = [d, e]" "fc_kind (fe_context d) = KCoordinator"
        "fc_kind (fe_context e) = KSyncRender"
    by auto
  then show ?thesis
  proof cases
    case 1
    then show ?thesis
      unfolding res using inv slots sub lasth live
      by (auto simp: tracker_inv_def slots_ok_def stack_shape_def)
  next
    case 2
    then show ?thesis
      unfolding res using inv slots sub lasth live
      by (auto simp: tracker_inv_def slots_ok_def stack_shape_def)
  qed
qed

lemma tracked_inv: "tracker_inv s \<Longrightarrow> tracker_inv (tracked s e)"
  by (cases s; cases e) (simp_all add: worker_credit_inv enter_inv leave_inv del: tracked.simps(2))

lemma tracked_failed:
  assumes "tk_failed (fst s)"
  shows "tk_failed (fst (tracked s e)) \<and> snd (tracked s e) = snd s"
  using assms
  by (cases s; cases e)
    (auto simp: worker_credit_def enter_def leave_def lane_ok_def poison_def no_lease_def id_valid_def)

interpretation frames: latching_machine tracked tracker_inv "\<lambda>s. tk_failed (fst s)"
  by unfold_locales (simp_all add: tracked_inv tracked_failed)

lemma failed_history: "tk_failed (fst s) \<Longrightarrow> snd (run_events tracked s es) = snd s"
  by (induction es arbitrary: s) (simp_all add: tracked_failed)

subsection \<open>What a run consumes\<close>

text \<open>
  The accepted calls of a run, in order: a credit with its operation and coordinator epoch, an entry with
  the context it received, and an exit with the context it closed and whether the caller reported it as
  completed. \<open>traced\<close> records them beside the tracker from the calls and their results.
\<close>

datatype scope_event = Credited u64 u64 | Entered fcontext | Left fcontext bool

fun traced :: "tracker \<times> scope_event list \<Rightarrow> fevent \<Rightarrow> tracker \<times> scope_event list" where
  "traced (t, tr) (Credit l operation ce ok) =
     (case worker_credit t l operation ce ok of
        (t', accepted) \<Rightarrow> (t', if accepted then tr @ [Credited operation ce] else tr))"
| "traced (t, tr) (Enter l kind ok qpc ce) =
     (case enter t l kind ok qpc ce of
        (t', ls) \<Rightarrow> (t', if id_valid (le_id ls) then tr @ [Entered (current t')] else tr))"
| "traced (t, tr) (Leave l ls qpc done) =
     (case leave t l ls qpc done of
        (t', accepted) \<Rightarrow> (t', if accepted then tr @ [Left (current t) done] else tr))"

definition entries_of :: "scope_event list \<Rightarrow> fcontext list" where
  "entries_of tr = concat (map (\<lambda>x. case x of Entered c \<Rightarrow> [c] | _ \<Rightarrow> []) tr)"

text \<open>The state of the protocol after a trace, read off the trace alone: the open scopes (outermost
  first), the update that completed and that no coordinator has taken yet, and the credit that no worker
  render has taken yet.\<close>

fun open_step :: "fcontext list \<Rightarrow> scope_event \<Rightarrow> fcontext list" where
  "open_step cs (Entered c) = cs @ [c]"
| "open_step cs (Left c done) = butlast cs"
| "open_step cs (Credited operation ce) = cs"

fun update_step :: "fid \<Rightarrow> scope_event \<Rightarrow> fid" where
  "update_step u (Left c done) = (if fc_kind c = KUpdate then (if done then fc_invocation c else no_id) else u)"
| "update_step u (Entered c) = (if fc_kind c = KCoordinator then no_id else u)"
| "update_step u (Credited operation ce) = u"

fun credit_step :: "u64 \<times> u64 \<Rightarrow> scope_event \<Rightarrow> u64 \<times> u64" where
  "credit_step w (Credited operation ce) = (operation, ce)"
| "credit_step w (Entered c) = (if fc_kind c = KWorkerRender then (0, 0) else w)"
| "credit_step w (Left c done) = w"

definition open_scopes :: "scope_event list \<Rightarrow> fcontext list" where "open_scopes tr = foldl open_step [] tr"
definition waiting_update :: "scope_event list \<Rightarrow> fid" where "waiting_update tr = foldl update_step no_id tr"
definition waiting_credit :: "scope_event list \<Rightarrow> u64 \<times> u64" where "waiting_credit tr = foldl credit_step (0, 0) tr"

text \<open>What the protocol allows after \<open>past\<close>, with the inputs each kind of scope is handed.\<close>

fun allowed :: "scope_event list \<Rightarrow> scope_event \<Rightarrow> bool" where
  "allowed past (Credited operation ce) \<longleftrightarrow> open_scopes past = [] \<and> \<not> id_valid (waiting_update past)
     \<and> fst (waiting_credit past) = 0 \<and> operation \<noteq> 0 \<and> ce \<noteq> 0"
| "allowed past (Left c done) \<longleftrightarrow> done \<and> open_scopes past \<noteq> [] \<and> c = last (open_scopes past)"
| "allowed past (Entered c) \<longleftrightarrow>
     (case fc_kind c of
        KUpdate \<Rightarrow> open_scopes past = [] \<and> \<not> id_valid (waiting_update past) \<and> fst (waiting_credit past) = 0
          \<and> fc_update c = no_id \<and> fc_wait c = 0 \<and> fc_coordinator c = 0
      | KCoordinator \<Rightarrow> open_scopes past = [] \<and> id_valid (waiting_update past) \<and> fst (waiting_credit past) = 0
          \<and> fc_update c = waiting_update past \<and> fc_wait c = 0 \<and> fc_coordinator c \<noteq> 0
      | KSyncRender \<Rightarrow> (case open_scopes past of
            [d] \<Rightarrow> fc_kind d = KCoordinator \<and> fc_update c = fc_update d \<and> fc_wait c = 0 \<and> fc_coordinator c = fc_coordinator d
          | _ \<Rightarrow> False)
      | KWorkerRender \<Rightarrow> open_scopes past = [] \<and> \<not> id_valid (waiting_update past)
          \<and> fst (waiting_credit past) \<noteq> 0 \<and> (fc_wait c, fc_coordinator c) = waiting_credit past \<and> fc_update c = no_id
      | KOther \<Rightarrow> False)"

fun allowed_after :: "scope_event list \<Rightarrow> scope_event list \<Rightarrow> bool" where
  "allowed_after past [] \<longleftrightarrow> True"
| "allowed_after past (x # tr) \<longleftrightarrow> allowed past x \<and> allowed_after (past @ [x]) tr"

lemma allowed_after_snoc [simp]: "allowed_after past (tr @ [x]) \<longleftrightarrow> allowed_after past tr \<and> allowed (past @ tr) x"
  by (induction tr arbitrary: past) auto

lemma trace_snoc [simp]:
  "entries_of (tr @ [Entered c]) = entries_of tr @ [c]" "entries_of (tr @ [Left c done]) = entries_of tr"
  "entries_of (tr @ [Credited operation ce]) = entries_of tr"
  "open_scopes (tr @ [x]) = open_step (open_scopes tr) x"
  "waiting_update (tr @ [x]) = update_step (waiting_update tr) x"
  "waiting_credit (tr @ [x]) = credit_step (waiting_credit tr) x"
  by (simp_all add: entries_of_def open_scopes_def waiting_update_def waiting_credit_def)

text \<open>A live tracker is at the state of its trace.\<close>

definition at_trace :: "tracker \<Rightarrow> scope_event list \<Rightarrow> bool" where
  "at_trace t tr \<longleftrightarrow> open_scopes tr = map fe_context (tk_stack t) \<and> waiting_update tr = tk_update t
     \<and> waiting_credit tr = (tk_wait t, tk_wait_coordinator t)"

definition trace_inv :: "tracker \<times> scope_event list \<Rightarrow> bool" where
  "trace_inv s \<longleftrightarrow> (case s of (t, tr) \<Rightarrow> tracker_inv (t, entries_of tr) \<and> allowed_after [] tr
     \<and> (\<not> tk_failed t \<longrightarrow> at_trace t tr))"

lemma traced_tracked: "tracked (t, entries_of tr) e = (fst (traced (t, tr) e), entries_of (snd (traced (t, tr) e)))"
  by (cases e) (simp_all split: prod.split)

lemma credit_allowed:
  assumes "worker_credit t l operation ce ok = (t', True)" "at_trace t tr"
  shows "allowed tr (Credited operation ce) \<and> at_trace t' (tr @ [Credited operation ce])"
proof -
  have "tk_last_wait t < operation" using assms(1) by (auto simp: worker_credit_def split: if_splits)
  then have "operation \<noteq> 0" by auto
  then show ?thesis using assms by (auto simp: worker_credit_def at_trace_def split: if_splits)
qed

lemma leave_allowed:
  assumes "leave t l ls qpc done = (t', True)" "at_trace t tr"
  shows "allowed tr (Left (current t) done) \<and> at_trace t' (tr @ [Left (current t) done])"
  using assms
  by (auto simp: leave_def at_trace_def current_def lane_ok_def Let_def last_map map_butlast split: if_splits)

lemma enter_allowed:
  assumes "enter t l kind ok qpc ce = (t', ls)" "id_valid (le_id ls)" "at_trace t tr"
  shows "allowed tr (Entered (current t')) \<and> at_trace t' (tr @ [Entered (current t')])"
proof (cases rule: enter_result [of t l kind ok qpc ce])
  case rejected
  with assms(1,2) have False by (auto simp: no_lease_def id_valid_def)
  then show ?thesis ..
next
  case (entered u c ident)
  note frame = enter_kind_frame [OF entered(1)]
  have cur: "current t' = c\<lparr>fc_invocation := ident\<rparr>" "tk_stack t' = tk_stack t @ [\<lparr>fe_context = c\<lparr>fc_invocation := ident\<rparr>, fe_begin = qpc\<rparr>]"
    "tk_update t' = tk_update u" "tk_wait t' = tk_wait u" "tk_wait_coordinator t' = tk_wait_coordinator u"
    using assms(1) frame entered(2,5) by (auto simp: current_def)
  have "allowed tr (Entered (c\<lparr>fc_invocation := ident\<rparr>))
      \<and> at_trace t' (tr @ [Entered (c\<lparr>fc_invocation := ident\<rparr>)])"
    using entered(1) assms(3) cur frame
    by (cases kind; cases "tk_stack t")
      (auto simp: enter_kind_def at_trace_def no_context_def Let_def split: if_splits list.splits)
  then show ?thesis by (simp only: cur(1))
qed

lemma traced_inv: "trace_inv s \<Longrightarrow> trace_inv (traced s e)"
proof (cases s)
  fix t tr
  assume s: "s = (t, tr)" and inv: "trace_inv s"
  obtain t' tr' where step: "traced s e = (t', tr')" by fastforce
  have known: "tracker_inv (t', entries_of tr')"
    using tracked_inv [of "(t, entries_of tr)" e] inv s step by (simp add: trace_inv_def traced_tracked)
  have live: "\<not> tk_failed t" if "\<not> tk_failed t' \<or> tr' \<noteq> tr"
  proof
    assume f: "tk_failed t"
    have "worker_credit t l operation ce ok = (poison t, False)" "enter t l kind ok qpc ce = (poison t, no_lease)"
      "leave t l ls qpc done = (poison t, False)" for l operation ce ok kind qpc ls "done"
      using f by (simp_all add: worker_credit_def enter_def leave_def lane_ok_def)
    then show False using that step s f
      by (cases e) (auto simp: poison_def no_lease_def id_valid_def)
  qed
  have "tr' = tr \<and> tk_failed t' \<or> (\<exists>x. tr' = tr @ [x] \<and> allowed tr x \<and> at_trace t' tr')"
  proof (cases "tk_failed t")
    case True
    then show ?thesis using live by blast
  next
    case False
    then have a: "at_trace t tr" and epoch: "tk_epoch t \<noteq> 0"
      using inv s by (simp_all add: trace_inv_def tracker_inv_def slots_ok_def)
    show ?thesis
    proof (cases e)
      case (Credit l operation ce ok)
      then show ?thesis using step s credit_allowed [OF _ a, of l operation ce ok]
        by (cases "snd (worker_credit t l operation ce ok)")
          (auto simp: worker_credit_def poison_def split: prod.splits if_splits)
    next
      case (Enter l kind ok qpc ce)
      then show ?thesis using step s enter_allowed [OF _ _ a, of l kind ok qpc ce] epoch
        by (cases rule: enter_result [of t l kind ok qpc ce])
          (auto simp: no_lease_def id_valid_def poison_def split: prod.splits if_splits)
    next
      case (Leave l ls qpc ok)
      then show ?thesis using step s leave_allowed [OF _ a, of l ls qpc ok]
        by (cases "snd (leave t l ls qpc ok)")
          (auto simp: leave_def poison_def Let_def split: prod.splits if_splits)
    qed
  qed
  with known inv s step show "trace_inv (traced s e)" by (auto simp: trace_inv_def)
qed

interpretation traces: machine traced trace_inv
  by unfold_locales (rule traced_inv)

lemma trace_inv_init: "trace_inv (new_tracker te l n, [])"
  using tracker_inv_init [of te l n]
  by (simp add: trace_inv_def entries_of_def at_trace_def open_scopes_def waiting_update_def waiting_credit_def new_tracker_def)

subsection \<open>Properties\<close>

text \<open>C21: in every sequence of calls on a fresh tracker, whatever the calls pass, the accepted ones follow the
  protocol. Invocation serials strictly increase; a scope is closed only if its caller reports that it
  completed; a coordinator is handed the update that completed last before it and that no coordinator has
  taken, a synchronous render the update and epoch of the one open coordinator around it, a worker
  render the waiting credit with the epoch of its coordinator; no update and no credit is taken twice. What
  the tracker shows as its current scope and pending update is what these calls imply, and nothing once it failed.\<close>

theorem tracker_consumes_once:
  "case run_events traced (new_tracker thread_epoch l serial, []) es of (t, tr) \<Rightarrow>
     let h = entries_of tr in
     sorted_wrt (<) (invocations h) \<and> distinct (consumed_updates h) \<and> distinct (consumed_waits h)
     \<and> updates_known h \<and> allowed_after [] tr
     \<and> current t = (if tk_failed t \<or> open_scopes tr = [] then no_context else last (open_scopes tr))
     \<and> pending_update t = (if tk_failed t then no_id else waiting_update tr)"
proof -
  let ?r = "run_events traced (new_tracker thread_epoch l serial, []) es"
  have inv: "trace_inv ?r" by (rule traces.inv_run [OF trace_inv_init])
  obtain t tr where r: "?r = (t, tr)" by fastforce
  then have t: "tracker_inv (t, entries_of tr)" "allowed_after [] tr" "\<not> tk_failed t \<Longrightarrow> at_trace t tr"
    using inv by (simp_all add: trace_inv_def)
  then show ?thesis unfolding r
    by (auto simp: tracker_inv_def strict_sorted_iff Let_def current_def pending_update_def at_trace_def last_map)
qed

text \<open>A protocol violation poisons a tracker for good: afterwards every sequence of calls leaves it
  failed, records no further scope and reports neither a current scope nor a pending update.\<close>

theorem tracker_poison_permanent:
  assumes "tk_failed t" and "tracker_inv (t, h)"
  shows "case run_events tracked (t, h) es of (t', h') \<Rightarrow>
     tk_failed t' \<and> h' = h \<and> current t' = no_context \<and> pending_update t' = no_id"
  using frames.dead_run [OF assms(2), of es] failed_history [of "(t, h)" es] assms(1)
  by (cases "run_events tracked (t, h) es") (simp add: current_def pending_update_def)

definition example_tracker :: tracker where
  "example_tracker = fst (worker_credit (new_tracker 1 \<lparr>la_context = 2, la_base = 3\<rparr> 0)
     \<lparr>la_context = 9, la_base = 3\<rparr> 1 1 True)"

theorem tracker_poison_permanent_witness:
  "tk_failed example_tracker
   \<and> current (fst (run_events tracked (example_tracker, []) [Enter \<lparr>la_context = 2, la_base = 3\<rparr> KUpdate True 5 0]))
     = no_context"
proof -
  have f: "tk_failed example_tracker" by code_simp
  have i: "tracker_inv (example_tracker, [])"
    unfolding example_tracker_def by (intro worker_credit_inv tracker_inv_init)
  from tracker_poison_permanent [OF f i, of "[Enter \<lparr>la_context = 2, la_base = 3\<rparr> KUpdate True 5 0]"] f
  show ?thesis by (simp split: prod.splits)
qed

end
