(* ===== verification/SemaphoreJournal.thy ===== *)
theory SemaphoreJournal
  imports FrameContext
begin

section \<open>Semaphore observation journal (\<open>mcla_semaphore_observer_core.h\<close>)\<close>

text \<open>
  Bookkeeping of supplied semaphore observations: epochs (lifetimes of observed objects),
  operations begun and completed under a ticket, sticky issue flags, and the claim
  \<open>history_complete\<close>. \<open>Journal\<close> is a record of its members, its arrays the lists of their used
  prefix, the address of the object a number; each method returns the new journal and its result.
  A C++ enum may hold a value outside its enumerators, for which \<open>Name\<close> is empty: the
  constructors \<open>...Other\<close> stand for those.
\<close>

subsection \<open>Data\<close>

definition kEpochCapacity :: nat where "kEpochCapacity = 64"
definition kOperationCapacity :: nat where "kOperationCapacity = 32768"
definition kMaxCount :: u32 where "kMaxCount = 0x7FFFFFFF"

definition AllocateJournalGeneration :: "u64 \<Rightarrow> u64 \<times> u64" where
  "AllocateJournalGeneration issued =
     (if issued = 0xFFFFFFFFFFFFFFFF then (issued, 0) else (issued + 1, issued + 1))"

record sem_window =
  sw_begin :: u64
  sw_end :: u64
  sw_frequency :: u64

datatype origin = Fresh | Native | Restored | UnknownOrigin | OtherOrigin int
datatype sem_kind = Release | Wait | WaitMultiple | SignalAndWait | Save | Restore | LifecycleGap
  | UnknownKind | OtherKind int
datatype context_kind = ContextUpdate | ContextControl | ContextUnknown | ContextOther int
datatype timeout_kind = TimeoutZero | TimeoutFinite | TimeoutInfinite | TimeoutOther int
datatype wait_result = WaitSuccess | WaitTimeout | WaitApc | WaitAlerted | WaitAbandoned
  | WaitFailed | WaitUnknown | WaitOther int
datatype disposition = Recorded | Disabled | Stopped | UnknownObject | CapacityExhausted
  | InvalidArgument | InvalidTicket | AlreadyCompleted

datatype sem_issue = InvalidConfiguration | IssueUnknownObject | IssueInvalidArgument | IssueInvalidClock
  | OutsideWindow | DuplicateCreation | AmbiguousReuse | EpochOverflow | OperationOverflow
  | IncompleteCut | Unsupported | CompletionMismatch | LifetimeBoundary | CounterOverflow
  | EarlyCut | StoppedObservation | NonfreshOrigin | InitialCredits | ExternalFailure
  | IdentityExhausted

fun sem_bit :: "sem_issue \<Rightarrow> nat" where
  "sem_bit InvalidConfiguration = 0" | "sem_bit IssueUnknownObject = 1"
| "sem_bit IssueInvalidArgument = 2" | "sem_bit IssueInvalidClock = 3"
| "sem_bit OutsideWindow = 4" | "sem_bit DuplicateCreation = 5"
| "sem_bit AmbiguousReuse = 6" | "sem_bit EpochOverflow = 7"
| "sem_bit OperationOverflow = 8" | "sem_bit IncompleteCut = 9"
| "sem_bit Unsupported = 10" | "sem_bit CompletionMismatch = 11"
| "sem_bit LifetimeBoundary = 12" | "sem_bit CounterOverflow = 13"
| "sem_bit EarlyCut = 14" | "sem_bit StoppedObservation = 15"
| "sem_bit NonfreshOrigin = 16" | "sem_bit InitialCredits = 17"
| "sem_bit ExternalFailure = 18" | "sem_bit IdentityExhausted = 19"

fun origin_name :: "origin \<Rightarrow> string" where
  "origin_name Fresh = ''fresh''" | "origin_name Native = ''native''"
| "origin_name Restored = ''restored''" | "origin_name UnknownOrigin = ''unknown''"
| "origin_name (OtherOrigin _) = []"

fun kind_name :: "sem_kind \<Rightarrow> string" where
  "kind_name Release = ''release''" | "kind_name Wait = ''wait''"
| "kind_name WaitMultiple = ''wait_multiple''" | "kind_name SignalAndWait = ''signal_and_wait''"
| "kind_name Save = ''save''" | "kind_name Restore = ''restore''"
| "kind_name LifecycleGap = ''lifecycle_gap''" | "kind_name UnknownKind = ''unknown''"
| "kind_name (OtherKind _) = []"

fun context_name :: "context_kind \<Rightarrow> string" where
  "context_name ContextUpdate = ''update''" | "context_name ContextControl = ''control''"
| "context_name ContextUnknown = ''unknown''" | "context_name (ContextOther _) = []"

fun timeout_name :: "timeout_kind \<Rightarrow> string" where
  "timeout_name TimeoutZero = ''zero''" | "timeout_name TimeoutFinite = ''finite''"
| "timeout_name TimeoutInfinite = ''infinite''" | "timeout_name (TimeoutOther _) = []"

fun wait_name :: "wait_result \<Rightarrow> string" where
  "wait_name WaitSuccess = ''success''" | "wait_name WaitTimeout = ''timeout''"
| "wait_name WaitApc = ''apc''" | "wait_name WaitAlerted = ''alerted''"
| "wait_name WaitAbandoned = ''abandoned''" | "wait_name WaitFailed = ''failed''"
| "wait_name WaitUnknown = ''unknown''" | "wait_name (WaitOther _) = []"

record release_context =
  rc_kind :: context_kind
  rc_generation :: fid

record sem_counts =
  sc_observed :: u64
  sc_stored :: u64
  sc_completed :: u64
  sc_overflow :: u64

record sem_diagnostics =
  sd_unknown :: u64
  sd_rejected :: u64
  sd_stopped :: u64

record sem_epoch =
  ep_id :: u64
  ep_cookie :: u64
  ep_creation :: u64
  ep_destroy :: "u64 option"
  ep_initial :: u32
  ep_maximum :: u32
  ep_pending :: u32
  ep_origin :: origin
  ep_complete :: bool

record sem_op =
  op_id :: u64
  op_epoch :: u64
  op_entry :: u64
  op_exit :: u64
  op_thread :: u32
  op_handle :: "u32 option"
  op_kind :: sem_kind
  op_completed :: bool
  op_count :: u32
  op_context :: release_context
  op_success :: bool
  op_previous :: "32 word option"
  op_timeout :: timeout_kind
  op_wait :: wait_result

record ticket =
  ti_owner :: "nat option"
  ti_generation :: u64
  ti_op :: u64
  ti_epoch :: u64

definition no_ticket :: ticket where
  "no_ticket = \<lparr>ti_owner = None, ti_generation = 0, ti_op = 0, ti_epoch = 0\<rparr>"

definition ticket_valid :: "ticket \<Rightarrow> bool" where
  "ticket_valid t \<longleftrightarrow> ti_owner t \<noteq> None \<and> ti_generation t \<noteq> 0 \<and> ti_op t \<noteq> 0 \<and> ti_epoch t \<noteq> 0"

definition no_release_context :: release_context where
  "no_release_context = \<lparr>rc_kind = ContextUnknown, rc_generation = no_id\<rparr>"

definition no_op :: sem_op where
  "no_op = \<lparr>op_id = 0, op_epoch = 0, op_entry = 0, op_exit = 0, op_thread = 0, op_handle = None,
     op_kind = UnknownKind, op_completed = False, op_count = 0, op_context = no_release_context,
     op_success = False, op_previous = None, op_timeout = TimeoutInfinite, op_wait = WaitUnknown\<rparr>"

record sem_journal =
  sj_self :: nat
  sj_window :: sem_window
  sj_generation :: u64
  sj_enabled :: bool
  sj_configured :: bool
  sj_stopped :: bool
  sj_malformed :: bool
  sj_mutated :: bool
  sj_issues :: u32
  sj_pending :: u32
  sj_cut :: "u64 option"
  sj_counts :: sem_counts
  sj_diagnostics :: sem_diagnostics
  sj_completion :: disposition
  sj_last_exit :: "u64 list"
  sj_epochs :: "sem_epoch list"
  sj_ops :: "sem_op list"

subsection \<open>Private helpers\<close>

definition sem_mark :: "sem_issue \<Rightarrow> sem_journal \<Rightarrow> sem_journal" where
  "sem_mark i j = j\<lparr>sj_issues := set_flag (sj_issues j) (sem_bit i)\<rparr>"

definition note_mutation :: "sem_journal \<Rightarrow> sem_journal" where
  "note_mutation j = (if sj_enabled j \<and> sj_stopped j then j\<lparr>sj_mutated := True\<rparr> else j)"

text \<open>\<open>increment(diagnostics_.x)\<close>\<close>

definition increment_diagnostic :: "(sem_diagnostics \<Rightarrow> u64) \<Rightarrow>
    ((u64 \<Rightarrow> u64) \<Rightarrow> sem_diagnostics \<Rightarrow> sem_diagnostics) \<Rightarrow> sem_journal \<Rightarrow> sem_journal" where
  "increment_diagnostic get put j =
     (if get (sj_diagnostics j) = 0xFFFFFFFFFFFFFFFF then sem_mark CounterOverflow j
      else j\<lparr>sj_diagnostics := put (\<lambda>x. x + 1) (sj_diagnostics j)\<rparr>)"

definition reject_argument :: "sem_journal \<Rightarrow> sem_journal" where
  "reject_argument j = increment_diagnostic sd_rejected sd_rejected_update
     (sem_mark IssueInvalidArgument (j\<lparr>sj_malformed := True\<rparr>))"

definition sem_valid_clock :: "u64 \<Rightarrow> bool" where
  "sem_valid_clock qpc \<longleftrightarrow> qpc \<noteq> 0 \<and> qpc \<le> kMaxQpc"

definition sem_clock :: "sem_journal \<Rightarrow> u64 \<Rightarrow> sem_journal \<times> bool" where
  "sem_clock j qpc =
     (if \<not> sem_valid_clock qpc then
        (let j' = sem_mark IssueInvalidClock j in
         (if qpc > kMaxQpc then j'\<lparr>sj_malformed := True\<rparr> else j', False))
      else if qpc < sw_begin (sj_window j) \<or> qpc \<ge> sw_end (sj_window j)
      then (sem_mark OutsideWindow j, False)
      else (j, True))"

definition admission :: "sem_journal \<Rightarrow> u64 \<Rightarrow> sem_journal \<times> disposition option" where
  "admission j qpc =
     (if \<not> sj_enabled j then (j, Some Disabled)
      else if \<not> sj_configured j then (j, Some InvalidArgument)
      else if sj_generation j = 0 then (j, Some CapacityExhausted)
      else if sj_stopped j then
        (let j' = increment_diagnostic sd_stopped sd_stopped_update j in
         (if \<not> sem_valid_clock qpc \<or> qpc < sw_end (sj_window j) then sem_mark StoppedObservation j' else j',
          Some Stopped))
      else (j, None))"

text \<open>\<open>lookup\<close>: the id of the latest live epoch with that cookie, 0 if there is none.\<close>

definition lookup :: "sem_journal \<Rightarrow> u64 \<Rightarrow> u64" where
  "lookup j cookie =
     (case find (\<lambda>e. ep_cookie e = cookie \<and> ep_destroy e = None) (rev (sj_epochs j)) of
        None \<Rightarrow> 0 | Some e \<Rightarrow> ep_id e)"

definition epoch_index :: "sem_journal \<Rightarrow> u64 \<Rightarrow> nat option" where
  "epoch_index j cookie = (let i = lookup j cookie in if i = 0 then None else Some (unat (i - 1)))"

definition update_epoch :: "nat \<Rightarrow> (sem_epoch \<Rightarrow> sem_epoch) \<Rightarrow> sem_journal \<Rightarrow> sem_journal" where
  "update_epoch i f j = j\<lparr>sj_epochs := (sj_epochs j)[i := f (sj_epochs j ! i)]\<rparr>"

definition update_op :: "nat \<Rightarrow> (sem_op \<Rightarrow> sem_op) \<Rightarrow> sem_journal \<Rightarrow> sem_journal" where
  "update_op i f j = j\<lparr>sj_ops := (sj_ops j)[i := f (sj_ops j ! i)]\<rparr>"

definition sem_unknown :: "sem_journal \<Rightarrow> sem_journal" where
  "sem_unknown j = sem_mark IssueUnknownObject (increment_diagnostic sd_unknown sd_unknown_update j)"

text \<open>\<open>epoch->history_complete = false; mark(kLifetimeBoundary)\<close>\<close>

definition break_lifetime :: "nat \<Rightarrow> sem_journal \<Rightarrow> sem_journal" where
  "break_lifetime i j = sem_mark LifetimeBoundary (update_epoch i (\<lambda>e. e\<lparr>ep_complete := False\<rparr>) j)"

text \<open>\<open>begin\<close> after its admission, lookup and capacity tests: store the row of epoch \<open>e\<close>.\<close>

definition begin_row :: "sem_journal \<Rightarrow> nat \<Rightarrow> u32 \<Rightarrow> u32 option \<Rightarrow> u64 \<Rightarrow> sem_kind \<Rightarrow> sem_op" where
  "begin_row j e tid handle qpc kind = no_op\<lparr>op_id := sc_observed (sj_counts j),
     op_epoch := ep_id (sj_epochs j ! e), op_kind := kind, op_thread := tid, op_handle := handle,
     op_entry := qpc\<rparr>"

definition store_op :: "sem_journal \<Rightarrow> nat \<Rightarrow> sem_op \<Rightarrow> sem_journal" where
  "store_op j e row =
     (let j2 = j\<lparr>sj_ops := sj_ops j @ [row],
                 sj_counts := (sj_counts j)\<lparr>sc_stored := sc_stored (sj_counts j) + 1\<rparr>\<rparr>;
          j3 = (if op_thread row = 0 \<or> op_handle row = Some 0 then reject_argument j2 else j2);
          (j4, inside) = sem_clock j3 (op_entry row);
          j5 = (if \<not> inside \<or> op_entry row \<le> ep_creation (sj_epochs j4 ! e) then break_lifetime e j4 else j4);
          j6 = update_epoch e (\<lambda>r. r\<lparr>ep_pending := ep_pending r + 1\<rparr>) j5 in
      j6\<lparr>sj_pending := sj_pending j6 + 1\<rparr>)"

definition sem_begin :: "sem_journal \<Rightarrow> u64 \<Rightarrow> u32 \<Rightarrow> u32 option \<Rightarrow> u64 \<Rightarrow> sem_kind \<Rightarrow>
    sem_journal \<times> disposition \<times> ticket" where
  "sem_begin j0 cookie tid handle qpc kind =
     (case admission j0 qpc of
        (j, Some rejected) \<Rightarrow> (j, rejected, no_ticket)
      | (j, None) \<Rightarrow>
        case epoch_index j cookie of
          None \<Rightarrow> (sem_unknown j, UnknownObject, no_ticket)
        | Some e \<Rightarrow>
          if sc_observed (sj_counts j) = 0xFFFFFFFFFFFFFFFF
          then (sem_mark CounterOverflow j, CapacityExhausted, no_ticket)
          else
            let j1 = j\<lparr>sj_counts := (sj_counts j)\<lparr>sc_observed := sc_observed (sj_counts j) + 1\<rparr>\<rparr> in
            if unat (sc_stored (sj_counts j1)) = kOperationCapacity then
              (sem_mark OperationOverflow (update_epoch e (\<lambda>r. r\<lparr>ep_complete := False\<rparr>)
                 (j1\<lparr>sj_counts := (sj_counts j1)\<lparr>sc_overflow := sc_overflow (sj_counts j1) + 1\<rparr>\<rparr>)),
               CapacityExhausted, no_ticket)
            else
              let row = begin_row j1 e tid handle qpc kind in
              (store_op j1 e row, Recorded,
               \<lparr>ti_owner = Some (sj_self j1), ti_generation = sj_generation j1, ti_op = op_id row,
                ti_epoch = op_epoch row\<rparr>))"

definition owns :: "sem_journal \<Rightarrow> ticket \<Rightarrow> bool" where
  "owns j t \<longleftrightarrow> ti_owner t = Some (sj_self j) \<and> sj_generation j \<noteq> 0 \<and> ti_generation t = sj_generation j
     \<and> ti_op t \<noteq> 0 \<and> ti_op t \<le> sc_stored (sj_counts j)
     \<and> op_epoch (sj_ops j ! unat (ti_op t - 1)) = ti_epoch t"

text \<open>\<open>completion\<close> after its tests, for row \<open>k\<close>.\<close>

definition close_op :: "sem_journal \<Rightarrow> nat \<Rightarrow> u64 \<Rightarrow> sem_journal" where
  "close_op j k qpc =
     (let e = unat (op_epoch (sj_ops j ! k) - 1);
          j1 = update_op k (\<lambda>r. r\<lparr>op_completed := True, op_exit := qpc\<rparr>) j;
          j2 = update_epoch e (\<lambda>r. r\<lparr>ep_pending := ep_pending r - 1\<rparr>)
                 (j1\<lparr>sj_counts := (sj_counts j1)\<lparr>sc_completed := sc_completed (sj_counts j1) + 1\<rparr>,
                     sj_pending := sj_pending j1 - 1\<rparr>);
          j3 = (if qpc > sj_last_exit j2 ! e then j2\<lparr>sj_last_exit := (sj_last_exit j2)[e := qpc]\<rparr> else j2);
          (j4, inside) = sem_clock j3 qpc;
          entry = op_entry (sj_ops j4 ! k) in
      if \<not> inside \<or> qpc < entry
         \<or> (case ep_destroy (sj_epochs j4 ! e) of None \<Rightarrow> False | Some d \<Rightarrow> qpc \<ge> d)
      then (if qpc < entry then sem_mark IssueInvalidClock (break_lifetime e j4) else break_lifetime e j4)
      else j4)"

text \<open>The index of the completed row, or \<open>None\<close> for the null pointer.\<close>

definition completion :: "sem_journal \<Rightarrow> ticket \<Rightarrow> u64 \<Rightarrow> sem_kind \<Rightarrow> sem_journal \<times> nat option" where
  "completion j t qpc kind =
     (let k = unat (ti_op t - 1) in
      if \<not> owns j t \<or> op_kind (sj_ops j ! k) \<noteq> kind
      then ((sem_mark CompletionMismatch j)\<lparr>sj_completion := InvalidTicket\<rparr>, None)
      else if op_completed (sj_ops j ! k)
      then ((sem_mark CompletionMismatch j)\<lparr>sj_completion := AlreadyCompleted\<rparr>, None)
      else (close_op j k qpc, Some k))"

subsection \<open>Operations\<close>

definition new_sem_journal :: "nat \<Rightarrow> u64 \<Rightarrow> sem_window \<Rightarrow> bool \<Rightarrow> sem_journal" where
  "new_sem_journal self issued window enabled =
     (let configured = (sw_begin window \<noteq> 0 \<and> sw_begin window < sw_end window
            \<and> sw_end window \<le> kMaxQpc \<and> sw_frequency window \<noteq> 0 \<and> sw_frequency window \<le> kMaxQpc);
          j = \<lparr>sj_self = self, sj_window = window, sj_generation = 0, sj_enabled = enabled,
               sj_configured = configured, sj_stopped = False, sj_malformed = False, sj_mutated = False,
               sj_issues = 0, sj_pending = 0, sj_cut = None,
               sj_counts = \<lparr>sc_observed = 0, sc_stored = 0, sc_completed = 0, sc_overflow = 0\<rparr>,
               sj_diagnostics = \<lparr>sd_unknown = 0, sd_rejected = 0, sd_stopped = 0\<rparr>,
               sj_completion = InvalidTicket, sj_last_exit = replicate kEpochCapacity 0,
               sj_epochs = [], sj_ops = []\<rparr>;
          j1 = (if enabled \<and> \<not> configured then sem_mark InvalidConfiguration j else j) in
      if enabled \<and> configured then
        (let j2 = j1\<lparr>sj_generation := snd (AllocateJournalGeneration issued)\<rparr> in
         if sj_generation j2 = 0 then sem_mark IdentityExhausted j2 else j2)
      else j1)"

text \<open>The reuse test of \<open>create\<close> against the latest epoch with the cookie.\<close>

definition reuse_issue :: "sem_journal \<Rightarrow> u64 \<Rightarrow> u64 \<Rightarrow> sem_issue option" where
  "reuse_issue j cookie qpc =
     (case find (\<lambda>e. ep_cookie e = cookie) (rev (sj_epochs j)) of
        None \<Rightarrow> None
      | Some old \<Rightarrow>
          (case ep_destroy old of
             None \<Rightarrow> Some DuplicateCreation
           | Some d \<Rightarrow> if \<not> sem_valid_clock d \<or> d \<le> ep_creation old \<or> qpc \<le> d
                       then Some AmbiguousReuse else None))"

definition create :: "sem_journal \<Rightarrow> u64 \<Rightarrow> u64 \<Rightarrow> u32 \<Rightarrow> u32 \<Rightarrow> origin \<Rightarrow> sem_journal \<times> disposition \<times> u64" where
  "create j0 cookie qpc initial maximum orig =
     (case admission (note_mutation j0) qpc of
        (j, Some rejected) \<Rightarrow> (j, rejected, 0)
      | (j, None) \<Rightarrow>
        if cookie = 0 \<or> maximum = 0 \<or> maximum > kMaxCount \<or> initial > maximum \<or> origin_name orig = []
        then (reject_argument j, InvalidArgument, 0)
        else case reuse_issue j cookie qpc of
          Some issue \<Rightarrow> (sem_mark issue j, InvalidArgument, 0)
        | None \<Rightarrow>
          if length (sj_epochs j) = kEpochCapacity then (sem_mark EpochOverflow j, CapacityExhausted, 0)
          else
            let (j1, inside) = sem_clock j qpc;
                row = \<lparr>ep_id = of_nat (length (sj_epochs j)) + 1, ep_cookie = cookie, ep_creation = qpc,
                       ep_destroy = None, ep_initial = initial, ep_maximum = maximum, ep_pending = 0,
                       ep_origin = orig, ep_complete = (inside \<and> orig = Fresh)\<rparr>;
                j2 = j1\<lparr>sj_epochs := sj_epochs j1 @ [row]\<rparr>;
                j3 = (if orig \<noteq> Fresh then sem_mark NonfreshOrigin j2 else j2);
                j4 = (if initial \<noteq> 0 then sem_mark InitialCredits j3 else j3) in
            (j4, Recorded, ep_id row))"

definition destroy :: "sem_journal \<Rightarrow> u64 \<Rightarrow> u64 \<Rightarrow> sem_journal \<times> disposition" where
  "destroy j0 cookie qpc =
     (case admission (note_mutation j0) qpc of
        (j, Some rejected) \<Rightarrow> (j, rejected)
      | (j, None) \<Rightarrow>
        case epoch_index j cookie of
          None \<Rightarrow> (sem_unknown j, UnknownObject)
        | Some e \<Rightarrow>
          let j1 = update_epoch e (\<lambda>r. r\<lparr>ep_destroy := Some qpc\<rparr>) j;
              (j2, inside) = sem_clock j1 qpc;
              row = sj_epochs j2 ! e in
          (if \<not> inside \<or> qpc \<le> ep_creation row \<or> ep_pending row \<noteq> 0
              \<or> qpc \<le> sj_last_exit j2 ! unat (ep_id row - 1)
           then break_lifetime e j2 else j2, Recorded))"

definition begin_release :: "sem_journal \<Rightarrow> u64 \<Rightarrow> u32 \<Rightarrow> u32 option \<Rightarrow> u64 \<Rightarrow> u32 \<Rightarrow> release_context \<Rightarrow>
    sem_journal \<times> disposition \<times> ticket" where
  "begin_release j0 cookie tid handle qpc count context =
     (case sem_begin (note_mutation j0) cookie tid handle qpc Release of (j, d, t) \<Rightarrow>
        if ticket_valid t then
          let j1 = update_op (unat (ti_op t - 1)) (\<lambda>r. r\<lparr>op_count := count, op_context := context\<rparr>) j in
          (if count = 0 \<or> count > kMaxCount \<or> context_name (rc_kind context) = []
              \<or> (if rc_kind context = ContextUpdate then \<not> id_valid (rc_generation context)
                 else rc_generation context \<noteq> no_id)
           then reject_argument j1 else j1, d, t)
        else (j, d, t))"

definition begin_wait :: "sem_journal \<Rightarrow> u64 \<Rightarrow> u32 \<Rightarrow> u32 option \<Rightarrow> u64 \<Rightarrow> timeout_kind \<Rightarrow>
    sem_journal \<times> disposition \<times> ticket" where
  "begin_wait j0 cookie tid handle qpc timeout =
     (case sem_begin (note_mutation j0) cookie tid handle qpc Wait of (j, d, t) \<Rightarrow>
        if ticket_valid t then
          let j1 = update_op (unat (ti_op t - 1)) (\<lambda>r. r\<lparr>op_timeout := timeout\<rparr>) j in
          (if timeout_name timeout = [] then reject_argument j1 else j1, d, t)
        else (j, d, t))"

definition begin_unsupported :: "sem_journal \<Rightarrow> u64 \<Rightarrow> u32 \<Rightarrow> u32 option \<Rightarrow> u64 \<Rightarrow> sem_kind \<Rightarrow>
    sem_journal \<times> disposition \<times> ticket" where
  "begin_unsupported j0 cookie tid handle qpc kind =
     (let jn = note_mutation j0 in
      if \<not> sj_enabled jn then (jn, Disabled, no_ticket)
      else if kind_name kind = [] \<or> kind = Release \<or> kind = Wait
      then (reject_argument jn, InvalidArgument, no_ticket)
      else case sem_begin jn cookie tid handle qpc kind of (j, d, t) \<Rightarrow>
        if ticket_valid t
        then (sem_mark Unsupported (update_epoch (unat (ti_epoch t - 1)) (\<lambda>r. r\<lparr>ep_complete := False\<rparr>) j), d, t)
        else (j, d, t))"

definition end_release :: "sem_journal \<Rightarrow> ticket \<Rightarrow> u64 \<Rightarrow> bool \<Rightarrow> 32 word option \<Rightarrow> sem_journal \<times> disposition" where
  "end_release j0 t qpc success previous =
     (let jn = note_mutation j0 in
      if \<not> sj_enabled jn then (jn, Disabled)
      else case completion jn t qpc Release of
        (j, None) \<Rightarrow> (j, sj_completion j)
      | (j, Some k) \<Rightarrow>
          let j1 = update_op k (\<lambda>r. r\<lparr>op_success := success,
                     op_previous := (if success then previous else None)\<rparr>) j;
              maximum = ep_maximum (sj_epochs j1 ! unat (op_epoch (sj_ops j1 ! k) - 1)) in
          (if success \<and> (case previous of None \<Rightarrow> True | Some p \<Rightarrow> sint p < 0 \<or> p > maximum)
           then reject_argument j1 else j1, Recorded))"

definition end_wait :: "sem_journal \<Rightarrow> ticket \<Rightarrow> u64 \<Rightarrow> wait_result \<Rightarrow> sem_journal \<times> disposition" where
  "end_wait j0 t qpc r =
     (let jn = note_mutation j0 in
      if \<not> sj_enabled jn then (jn, Disabled)
      else case completion jn t qpc Wait of
        (j, None) \<Rightarrow> (j, sj_completion j)
      | (j, Some k) \<Rightarrow>
          let j1 = update_op k (\<lambda>row. row\<lparr>op_wait := r\<rparr>) j;
              j2 = (if wait_name r = [] then reject_argument j1 else j1) in
          (if r = WaitAbandoned \<or> r = WaitFailed \<or> r = WaitUnknown then sem_mark Unsupported j2 else j2,
           Recorded))"

definition end_unsupported :: "sem_journal \<Rightarrow> ticket \<Rightarrow> u64 \<Rightarrow> sem_journal \<times> disposition" where
  "end_unsupported j0 t qpc =
     (let jn = note_mutation j0; kind = op_kind (sj_ops jn ! unat (ti_op t - 1)) in
      if \<not> sj_enabled jn then (jn, Disabled)
      else if \<not> owns jn t \<or> kind = Release \<or> kind = Wait
      then (sem_mark CompletionMismatch jn, InvalidTicket)
      else case completion jn t qpc kind of
        (j, None) \<Rightarrow> (j, sj_completion j) | (j, Some _) \<Rightarrow> (j, Recorded))"

definition sem_fail :: "sem_journal \<Rightarrow> sem_journal" where
  "sem_fail j0 = (let j = note_mutation j0 in if sj_enabled j then sem_mark ExternalFailure j else j)"

definition sem_stop :: "sem_journal \<Rightarrow> u64 \<Rightarrow> sem_journal" where
  "sem_stop j qpc =
     (if \<not> sj_enabled j \<or> sj_stopped j then j
      else
        let j1 = j\<lparr>sj_stopped := True, sj_cut := Some qpc\<rparr>;
            j2 = (if \<not> sem_valid_clock qpc then sem_mark IssueInvalidClock j1 else j1);
            j3 = (if qpc < sw_end (sj_window j2) then sem_mark EarlyCut j2 else j2) in
        if sj_pending j3 \<noteq> 0 then sem_mark IncompleteCut j3 else j3)"

definition drained :: "sem_journal \<Rightarrow> bool" where "drained j \<longleftrightarrow> sj_pending j = 0"

definition history_complete :: "sem_journal \<Rightarrow> bool" where
  "history_complete j \<longleftrightarrow> sj_enabled j \<and> sj_configured j \<and> sj_generation j \<noteq> 0 \<and> sj_stopped j
     \<and> drained j \<and> sj_issues j = 0"

definition audit_v1_shape_compatible :: "sem_journal \<Rightarrow> bool" where
  "audit_v1_shape_compatible j \<longleftrightarrow> \<not> (\<not> sj_enabled j \<or> \<not> sj_configured j \<or> sj_generation j = 0
     \<or> sj_epochs j = [] \<or> \<not> drained j \<or> sj_malformed j
     \<or> sc_completed (sj_counts j) < sc_stored (sj_counts j))"

subsection \<open>What the helpers leave alone\<close>

text \<open>The part of a journal that flags, diagnostics and the clock test never touch.\<close>

definition core_of :: "sem_journal \<Rightarrow> nat \<times> sem_window \<times> u64 \<times> bool \<times> bool \<times> bool \<times> u32 \<times> u64 option
    \<times> sem_counts \<times> u64 list \<times> sem_epoch list \<times> sem_op list" where
  "core_of j = (sj_self j, sj_window j, sj_generation j, sj_enabled j, sj_configured j, sj_stopped j,
     sj_pending j, sj_cut j, sj_counts j, sj_last_exit j, sj_epochs j, sj_ops j)"

lemma core_helpers [simp]:
  "core_of (sem_mark i j) = core_of j"
  "core_of (j\<lparr>sj_malformed := m\<rparr>) = core_of j"
  "core_of (j\<lparr>sj_completion := d\<rparr>) = core_of j"
  "core_of (note_mutation j) = core_of j"
  "core_of (increment_diagnostic get put j) = core_of j"
  "core_of (reject_argument j) = core_of j"
  "core_of (sem_unknown j) = core_of j"
  "core_of (fst (sem_clock j q)) = core_of j"
  "core_of (fst (admission j q)) = core_of j"
  by (simp_all add: core_of_def sem_mark_def note_mutation_def increment_diagnostic_def
      reject_argument_def sem_unknown_def sem_clock_def admission_def Let_def)

lemma core_fields:
  assumes "core_of j = core_of j'"
  shows "sj_self j = sj_self j'" "sj_window j = sj_window j'" "sj_generation j = sj_generation j'"
    "sj_enabled j = sj_enabled j'" "sj_configured j = sj_configured j'" "sj_stopped j = sj_stopped j'"
    "sj_pending j = sj_pending j'" "sj_cut j = sj_cut j'" "sj_counts j = sj_counts j'"
    "sj_last_exit j = sj_last_exit j'" "sj_epochs j = sj_epochs j'" "sj_ops j = sj_ops j'"
  using assms by (simp_all add: core_of_def)

lemmas core_simps [simp] = core_fields [OF core_helpers(1)] core_fields [OF core_helpers(4)]
  core_fields [OF core_helpers(5)] core_fields [OF core_helpers(6)] core_fields [OF core_helpers(7)]
  core_fields [OF core_helpers(8)] core_fields [OF core_helpers(9)]

text \<open>Flags are sticky, so an empty issue word speaks for the whole past.\<close>

definition clean :: "sem_journal \<Rightarrow> bool" where
  "clean j \<longleftrightarrow> sj_issues j = 0"

definition in_window :: "sem_window \<Rightarrow> u64 \<Rightarrow> bool" where
  "in_window w q \<longleftrightarrow> sem_valid_clock q \<and> sw_begin w \<le> q \<and> q < sw_end w"

lemma sem_bit_less [simp]: "sem_bit i < 32"
  by (cases i) simp_all

lemma clean_helpers [simp]:
  "\<not> clean (sem_mark i j)"
  "clean (j\<lparr>sj_malformed := m\<rparr>) = clean j"
  "clean (j\<lparr>sj_completion := d\<rparr>) = clean j"
  "clean (note_mutation j) = clean j"
  "\<not> clean (reject_argument j)"
  "\<not> clean (sem_unknown j)"
  "clean (fst (sem_clock j q)) \<longleftrightarrow> clean j \<and> in_window (sj_window j) q"
  by (auto simp: clean_def sem_mark_def note_mutation_def increment_diagnostic_def
      reject_argument_def sem_unknown_def sem_clock_def in_window_def Let_def not_le)

lemma clean_increment: "clean (increment_diagnostic get put j) \<Longrightarrow> clean j"
  by (auto simp: increment_diagnostic_def clean_def sem_mark_def split: if_splits)

lemma sem_clock_result [simp]: "snd (sem_clock j q) = in_window (sj_window j) q"
  by (auto simp: sem_clock_def in_window_def Let_def)

lemma admission_None:
  "admission j q = (j', None) \<longleftrightarrow> j' = j \<and> sj_enabled j \<and> sj_configured j \<and> sj_generation j \<noteq> 0 \<and> \<not> sj_stopped j"
  by (auto simp: admission_def Let_def)

lemma admission_clean: "admission j q = (j', r) \<Longrightarrow> clean j' \<Longrightarrow> clean j"
  by (auto simp: admission_def Let_def dest: clean_increment split: if_splits)

lemma admission_core: "admission j q = (j', r) \<Longrightarrow> core_of j' = core_of j"
  using core_helpers(9) [of j q] by simp

subsection \<open>Shape of the rows\<close>

definition open_ops :: "sem_op list \<Rightarrow> u64 \<Rightarrow> nat" where
  "open_ops ops e = length (filter (\<lambda>r. \<not> op_completed r \<and> op_epoch r = e) ops)"

definition shape :: "sem_journal \<Rightarrow> bool" where
  "shape j \<longleftrightarrow>
     length (sj_epochs j) \<le> kEpochCapacity \<and> length (sj_ops j) \<le> kOperationCapacity
     \<and> length (sj_last_exit j) = kEpochCapacity
     \<and> (\<forall>i < length (sj_epochs j). ep_id (sj_epochs j ! i) = of_nat i + 1
          \<and> unat (ep_pending (sj_epochs j ! i)) = open_ops (sj_ops j) (of_nat i + 1))
     \<and> (\<forall>k < length (sj_ops j). op_id (sj_ops j ! k) = of_nat k + 1
          \<and> op_epoch (sj_ops j ! k) \<noteq> 0 \<and> unat (op_epoch (sj_ops j ! k)) \<le> length (sj_epochs j)
          \<and> (op_completed (sj_ops j ! k) \<longrightarrow>
               op_exit (sj_ops j ! k) \<le> sj_last_exit j ! unat (op_epoch (sj_ops j ! k) - 1)))
     \<and> unat (sc_stored (sj_counts j)) = length (sj_ops j)
     \<and> unat (sc_observed (sj_counts j)) = length (sj_ops j) + unat (sc_overflow (sj_counts j))
     \<and> (sc_overflow (sj_counts j) \<noteq> 0 \<longrightarrow> length (sj_ops j) = kOperationCapacity)
     \<and> unat (sc_completed (sj_counts j)) = length (filter op_completed (sj_ops j))
     \<and> unat (sj_pending j) = length (filter (\<lambda>r. \<not> op_completed r) (sj_ops j))"

lemma shape_core: "core_of j = core_of j' \<Longrightarrow> shape j = shape j'"
  by (simp add: core_of_def shape_def)

lemma shape_new: "shape (new_sem_journal self issued w enabled)"
  by (simp add: new_sem_journal_def Let_def shape_def sem_mark_def)

lemma epoch_index_Some:
  assumes "shape j" "epoch_index j cookie = Some e"
  shows "e < length (sj_epochs j)" "ep_destroy (sj_epochs j ! e) = None" "ep_cookie (sj_epochs j ! e) = cookie"
proof -
  from assms(2) obtain r where r: "find (\<lambda>e. ep_cookie e = cookie \<and> ep_destroy e = None) (rev (sj_epochs j)) = Some r"
    "e = unat (ep_id r - 1)"
    by (auto simp: epoch_index_def lookup_def Let_def split: option.splits if_splits)
  then have p: "r \<in> set (sj_epochs j)" "ep_cookie r = cookie" "ep_destroy r = None"
    by (auto simp: find_Some_iff) (metis nth_mem length_rev set_rev)
  then obtain i where i: "i < length (sj_epochs j)" "sj_epochs j ! i = r" by (auto simp: in_set_conv_nth)
  with assms(1) have "ep_id r = of_nat i + 1" "i < 64" by (auto simp: shape_def kEpochCapacity_def)
  then have "e = i" using r(2) by (simp add: unat_of_nat)
  with i p show "e < length (sj_epochs j)" "ep_destroy (sj_epochs j ! e) = None" "ep_cookie (sj_epochs j ! e) = cookie"
    by simp_all
qed

text \<open>What the freeze guard looks at: mutation after the cut and the incomplete-cut flag.\<close>

definition cut_state :: "sem_journal \<Rightarrow> bool \<times> bool" where
  "cut_state j = (sj_mutated j, has_flag (sj_issues j) (sem_bit IncompleteCut))"

lemma sem_bit_inject [simp]: "sem_bit a = sem_bit b \<longleftrightarrow> a = b"
  by (cases a; cases b) simp_all

subsection \<open>Outcomes of a begin and of a completion\<close>

definition begun :: "sem_journal \<Rightarrow> sem_journal \<Rightarrow> nat \<Rightarrow> sem_op \<Rightarrow> bool" where
  "begun j j' e row \<longleftrightarrow> e < length (sj_epochs j) \<and> ep_destroy (sj_epochs j ! e) = None
     \<and> length (sj_ops j) < kOperationCapacity
     \<and> op_id row = sc_observed (sj_counts j) + 1 \<and> op_epoch row = ep_id (sj_epochs j ! e)
     \<and> \<not> op_completed row
     \<and> sj_epochs j' = (sj_epochs j)[e := (sj_epochs j ! e)\<lparr>ep_complete := ep_complete (sj_epochs j' ! e),
          ep_pending := ep_pending (sj_epochs j ! e) + 1\<rparr>]
     \<and> (clean j' \<longrightarrow> ep_complete (sj_epochs j' ! e) = ep_complete (sj_epochs j ! e))
     \<and> sj_ops j' = sj_ops j @ [row]
     \<and> sj_counts j' = (sj_counts j)\<lparr>sc_observed := sc_observed (sj_counts j) + 1,
          sc_stored := sc_stored (sj_counts j) + 1\<rparr>
     \<and> sj_pending j' = sj_pending j + 1 \<and> sj_last_exit j' = sj_last_exit j
     \<and> sj_self j' = sj_self j \<and> sj_window j' = sj_window j \<and> sj_generation j' = sj_generation j
     \<and> sj_enabled j' = sj_enabled j \<and> sj_configured j' = sj_configured j \<and> sj_stopped j' = sj_stopped j
     \<and> sj_cut j' = sj_cut j \<and> cut_state j' = cut_state j
     \<and> \<not> sj_stopped j \<and> sj_enabled j \<and> sj_configured j \<and> sj_generation j \<noteq> 0
     \<and> (clean j' \<longrightarrow> clean j \<and> op_thread row \<noteq> 0 \<and> op_handle row \<noteq> Some 0
          \<and> in_window (sj_window j) (op_entry row) \<and> ep_creation (sj_epochs j ! e) < op_entry row)"

lemma cut_state_helpers [simp]:
  "i \<noteq> IncompleteCut \<Longrightarrow> cut_state (sem_mark i j) = cut_state j"
  "cut_state (increment_diagnostic get put j) = cut_state j"
  "cut_state (reject_argument j) = cut_state j"
  "cut_state (sem_unknown j) = cut_state j"
  "cut_state (fst (sem_clock j q)) = cut_state j"
  "cut_state (j\<lparr>sj_completion := d\<rparr>) = cut_state j"
  "cut_state (j\<lparr>sj_ops := a\<rparr>) = cut_state j" "cut_state (j\<lparr>sj_epochs := b\<rparr>) = cut_state j"
  "cut_state (j\<lparr>sj_counts := c\<rparr>) = cut_state j" "cut_state (j\<lparr>sj_pending := n\<rparr>) = cut_state j"
  "cut_state (j\<lparr>sj_last_exit := l\<rparr>) = cut_state j" "cut_state (update_epoch e f j) = cut_state j"
  "cut_state (update_op k g j) = cut_state j" "cut_state (break_lifetime e j) = cut_state j"
  by (auto simp: cut_state_def sem_mark_def increment_diagnostic_def reject_argument_def sem_unknown_def
      sem_clock_def update_epoch_def update_op_def break_lifetime_def Let_def simp del: sem_bit.simps)

lemma clean_updates [simp]:
  "clean (j\<lparr>sj_ops := a\<rparr>) = clean j" "clean (j\<lparr>sj_epochs := b\<rparr>) = clean j"
  "clean (j\<lparr>sj_counts := c\<rparr>) = clean j" "clean (j\<lparr>sj_pending := d\<rparr>) = clean j"
  "clean (j\<lparr>sj_last_exit := l\<rparr>) = clean j" "clean (update_epoch i f j) = clean j"
  "clean (update_op i g j) = clean j" "\<not> clean (break_lifetime i j)"
  by (simp_all add: clean_def update_epoch_def update_op_def break_lifetime_def sem_mark_def)

lemma store_op_begun:
  assumes "e < length (sj_epochs j)" "ep_destroy (sj_epochs j ! e) = None" "length (sj_ops j) < kOperationCapacity"
    "\<not> sj_stopped j" "sj_enabled j" "sj_configured j" "sj_generation j \<noteq> 0"
    "op_id row = sc_observed (sj_counts j) + 1" "op_epoch row = ep_id (sj_epochs j ! e)" "\<not> op_completed row"
  shows "begun j (store_op (j\<lparr>sj_counts := (sj_counts j)\<lparr>sc_observed := sc_observed (sj_counts j) + 1\<rparr>\<rparr>) e row) e row"
proof -
  define j2 where "j2 = j\<lparr>sj_ops := sj_ops j @ [row], sj_counts := (sj_counts j)\<lparr>
     sc_observed := sc_observed (sj_counts j) + 1, sc_stored := sc_stored (sj_counts j) + 1\<rparr>\<rparr>"
  define j3 where "j3 = (if op_thread row = 0 \<or> op_handle row = Some 0 then reject_argument j2 else j2)"
  define j4 where "j4 = fst (sem_clock j3 (op_entry row))"
  define bad where "bad \<longleftrightarrow> \<not> in_window (sj_window j) (op_entry row) \<or> op_entry row \<le> ep_creation (sj_epochs j ! e)"
  define j6 where "j6 = update_epoch e (\<lambda>r. r\<lparr>ep_pending := ep_pending r + 1\<rparr>)
     (if bad then break_lifetime e j4 else j4)"
  have res: "store_op (j\<lparr>sj_counts := (sj_counts j)\<lparr>sc_observed := sc_observed (sj_counts j) + 1\<rparr>\<rparr>) e row
      = j6\<lparr>sj_pending := sj_pending j6 + 1\<rparr>"
    by (cases "op_thread row = 0 \<or> op_handle row = Some 0")
      (simp_all add: store_op_def Let_def case_prod_beta j6_def bad_def j4_def j3_def j2_def)
  have c3: "core_of j3 = core_of j2" by (simp add: j3_def)
  have c4: "core_of j4 = core_of j2" using c3 by (simp add: j4_def)
  note f4 = core_fields [OF c4, unfolded j2_def, simplified]
  have w3: "sj_window j3 = sj_window j" using core_fields(2) [OF c3] by (simp add: j2_def)
  have m: "cut_state j4 = cut_state j" by (simp add: j4_def j3_def j2_def)
  have cl: "clean j6 \<longleftrightarrow> \<not> bad \<and> clean j \<and> op_thread row \<noteq> 0 \<and> op_handle row \<noteq> Some 0"
    by (auto simp: j6_def j4_def j3_def bad_def w3 j2_def)
  show ?thesis
    unfolding begun_def res using assms
    by (cases bad) (simp_all add: f4 m cl, simp_all add: j6_def update_epoch_def break_lifetime_def
        f4 m bad_def w3, auto)
qed

lemma sem_begin_cases [consumes 1, case_names refused overflow begun]:
  assumes shape: "shape j0"
  obtains (refused) "core_of (fst (sem_begin j0 cookie tid handle qpc kind)) = core_of j0"
      "cut_state (fst (sem_begin j0 cookie tid handle qpc kind)) = cut_state j0"
      "\<not> ticket_valid (snd (snd (sem_begin j0 cookie tid handle qpc kind)))"
      "clean (fst (sem_begin j0 cookie tid handle qpc kind)) \<Longrightarrow> clean j0"
  | (overflow) e j1 where "sem_begin j0 cookie tid handle qpc kind = (j1, CapacityExhausted, no_ticket)"
      "\<not> clean j1" "e < length (sj_epochs j0)" "length (sj_ops j0) = kOperationCapacity"
      "core_of j1 = core_of (j0\<lparr>sj_epochs := (sj_epochs j0)[e := (sj_epochs j0 ! e)\<lparr>ep_complete := False\<rparr>],
         sj_counts := (sj_counts j0)\<lparr>sc_observed := sc_observed (sj_counts j0) + 1,
           sc_overflow := sc_overflow (sj_counts j0) + 1\<rparr>\<rparr>)"
      "sc_observed (sj_counts j0) \<noteq> 0xFFFFFFFFFFFFFFFF" "\<not> sj_stopped j0" "cut_state j1 = cut_state j0"
  | (begun) e j1 where "begun j0 j1 e (begin_row (j0\<lparr>sj_counts := (sj_counts j0)\<lparr>
         sc_observed := sc_observed (sj_counts j0) + 1\<rparr>\<rparr>) e tid handle qpc kind)"
      "sem_begin j0 cookie tid handle qpc kind = (j1, Recorded, \<lparr>ti_owner = Some (sj_self j0),
         ti_generation = sj_generation j0, ti_op = sc_observed (sj_counts j0) + 1,
         ti_epoch = ep_id (sj_epochs j0 ! e)\<rparr>)"
proof (cases "admission j0 qpc")
  case (Pair j r)
  note adm = this
  have no: "\<not> ticket_valid no_ticket" by (simp add: ticket_valid_def no_ticket_def)
  show ?thesis
  proof (cases r)
    case (Some d)
    have "cut_state j = cut_state j0"
      using adm by (auto simp: admission_def Let_def split: if_splits)
    with Some adm no show ?thesis
      by (intro refused) (simp_all add: sem_begin_def admission_core [OF adm] admission_clean [OF adm])
  next
    case None
    with adm have j: "j = j0" and avail: "sj_enabled j0" "sj_configured j0" "sj_generation j0 \<noteq> 0" "\<not> sj_stopped j0"
      by (simp_all add: admission_None)
    show ?thesis
    proof (cases "epoch_index j0 cookie")
      case None
      with adm j \<open>r = None\<close> no show ?thesis by (intro refused) (simp_all add: sem_begin_def)
    next
      case (Some e)
      note e = epoch_index_Some [OF shape Some]
      have len: "unat (sc_stored (sj_counts j0)) = length (sj_ops j0)" "length (sj_ops j0) \<le> kOperationCapacity"
        using shape by (simp_all add: shape_def)
      consider "sc_observed (sj_counts j0) = 0xFFFFFFFFFFFFFFFF"
        | "sc_observed (sj_counts j0) \<noteq> 0xFFFFFFFFFFFFFFFF" "length (sj_ops j0) = kOperationCapacity"
        | "sc_observed (sj_counts j0) \<noteq> 0xFFFFFFFFFFFFFFFF" "length (sj_ops j0) < kOperationCapacity"
        using len by linarith
      then show ?thesis
      proof cases
        case 1
        with adm j \<open>r = None\<close> Some no show ?thesis by (intro refused) (simp_all add: sem_begin_def)
      next
        case 2
        with adm j \<open>r = None\<close> Some no len e avail show ?thesis
          by (intro overflow [where e = e and ?j1.0 = "fst (sem_begin j0 cookie tid handle qpc kind)"])
            (simp_all add: sem_begin_def Let_def core_of_def update_epoch_def)
      next
        case 3
        let ?row = "begin_row (j0\<lparr>sj_counts := (sj_counts j0)\<lparr>sc_observed := sc_observed (sj_counts j0) + 1\<rparr>\<rparr>)
           e tid handle qpc kind"
        have "begun j0 (store_op (j0\<lparr>sj_counts := (sj_counts j0)\<lparr>sc_observed := sc_observed (sj_counts j0) + 1\<rparr>\<rparr>) e ?row) e ?row"
          by (rule store_op_begun) (use e avail 3 in \<open>simp_all add: begin_row_def no_op_def\<close>)
        then show ?thesis
          by (rule begun)
            (use adm j \<open>r = None\<close> Some len 3 in \<open>simp add: sem_begin_def Let_def begin_row_def no_op_def\<close>)
      qed
    qed
  qed
qed

definition finished :: "sem_journal \<Rightarrow> sem_journal \<Rightarrow> nat \<Rightarrow> nat \<Rightarrow> u64 \<Rightarrow> bool" where
  "finished j j' k e qpc \<longleftrightarrow> k < length (sj_ops j) \<and> \<not> op_completed (sj_ops j ! k)
     \<and> e < length (sj_epochs j) \<and> op_epoch (sj_ops j ! k) = of_nat e + 1
     \<and> sj_ops j' = (sj_ops j)[k := (sj_ops j ! k)\<lparr>op_completed := True, op_exit := qpc\<rparr>]
     \<and> sj_epochs j' = (sj_epochs j)[e := (sj_epochs j ! e)\<lparr>ep_pending := ep_pending (sj_epochs j ! e) - 1,
          ep_complete := ep_complete (sj_epochs j' ! e)\<rparr>]
     \<and> (clean j' \<longrightarrow> ep_complete (sj_epochs j' ! e) = ep_complete (sj_epochs j ! e))
     \<and> sj_counts j' = (sj_counts j)\<lparr>sc_completed := sc_completed (sj_counts j) + 1\<rparr>
     \<and> sj_pending j' = sj_pending j - 1
     \<and> sj_last_exit j' = (sj_last_exit j)[e := max (sj_last_exit j ! e) qpc]
     \<and> sj_self j' = sj_self j \<and> sj_window j' = sj_window j \<and> sj_generation j' = sj_generation j
     \<and> sj_enabled j' = sj_enabled j \<and> sj_configured j' = sj_configured j \<and> sj_stopped j' = sj_stopped j
     \<and> sj_cut j' = sj_cut j \<and> cut_state j' = cut_state j
     \<and> (clean j' \<longrightarrow> clean j \<and> in_window (sj_window j) qpc \<and> op_entry (sj_ops j ! k) \<le> qpc
          \<and> (\<forall>d. ep_destroy (sj_epochs j ! e) = Some d \<longrightarrow> qpc < d))"

lemma close_op_finished:
  assumes k: "k < length (sj_ops j)" "\<not> op_completed (sj_ops j ! k)"
    and e: "e < length (sj_epochs j)" "op_epoch (sj_ops j ! k) = of_nat e + 1" "e < 64"
    and le: "length (sj_last_exit j) = 64"
  shows "finished j (close_op j k qpc) k e qpc"
proof -
  have ei: "unat (op_epoch (sj_ops j ! k) - 1) = e" using e by (simp add: unat_of_nat)
  define j2 where "j2 = j\<lparr>sj_ops := (sj_ops j)[k := (sj_ops j ! k)\<lparr>op_completed := True, op_exit := qpc\<rparr>],
     sj_counts := (sj_counts j)\<lparr>sc_completed := sc_completed (sj_counts j) + 1\<rparr>,
     sj_pending := sj_pending j - 1,
     sj_epochs := (sj_epochs j)[e := (sj_epochs j ! e)\<lparr>ep_pending := ep_pending (sj_epochs j ! e) - 1\<rparr>],
     sj_last_exit := (sj_last_exit j)[e := max (sj_last_exit j ! e) qpc]\<rparr>"
  define j4 where "j4 = fst (sem_clock j2 qpc)"
  define late where "late \<longleftrightarrow> qpc < op_entry (sj_ops j ! k)"
  define bad where "bad \<longleftrightarrow> \<not> in_window (sj_window j) qpc \<or> late
     \<or> (case ep_destroy (sj_epochs j ! e) of None \<Rightarrow> False | Some d \<Rightarrow> qpc \<ge> d)"
  define j5 where "j5 = (if bad then (if late then sem_mark IssueInvalidClock (break_lifetime e j4) else break_lifetime e j4) else j4)"
  have c4: "core_of j4 = core_of j2" by (simp add: j4_def)
  note f4 = core_fields [OF c4, unfolded j2_def, simplified]
  have keep: "(sj_last_exit j)[e := max (sj_last_exit j ! e) qpc] = sj_last_exit j" if "\<not> sj_last_exit j ! e < qpc"
    using that by (simp add: max_def not_less)
  have res: "close_op j k qpc = j5"
  proof (cases "sj_last_exit j ! e < qpc")
    case True
    then have "max (sj_last_exit j ! e) qpc = qpc" by simp
    then show ?thesis
      using k e(1) True by (simp add: close_op_def Let_def case_prod_beta ei update_op_def update_epoch_def j5_def
          bad_def late_def j4_def j2_def)
  next
    case False
    then show ?thesis
      using k e(1) keep by (simp add: close_op_def Let_def case_prod_beta ei update_op_def update_epoch_def j5_def
          bad_def late_def j4_def j2_def)
  qed
  have m: "cut_state j4 = cut_state j" by (simp add: j4_def j2_def)
  have cl: "clean j5 \<longleftrightarrow> \<not> bad \<and> clean j"
    by (auto simp: j5_def j4_def bad_def j2_def)
  have good: "\<not> bad \<Longrightarrow> in_window (sj_window j) qpc \<and> op_entry (sj_ops j ! k) \<le> qpc
      \<and> (\<forall>d. ep_destroy (sj_epochs j ! e) = Some d \<longrightarrow> qpc < d)"
    by (auto simp: bad_def late_def not_less not_le)
  show ?thesis
    unfolding finished_def res using k e good
    by (cases bad; cases late) (simp_all add: f4 m cl, simp_all add: j5_def update_epoch_def break_lifetime_def f4 m)
qed

lemma owns_index:
  assumes "shape j" "owns j t"
  shows "unat (ti_op t - 1) < length (sj_ops j)" "sj_generation j \<noteq> 0"
proof -
  have t: "ti_op t \<noteq> 0" "ti_op t \<le> sc_stored (sj_counts j)" and g: "sj_generation j \<noteq> 0"
    using assms(2) by (simp_all add: owns_def)
  have "unat (ti_op t) \<le> unat (sc_stored (sj_counts j))" using t(2) by (simp add: word_le_nat_alt)
  also have "\<dots> = length (sj_ops j)" using assms(1) by (simp add: shape_def)
  finally show "unat (ti_op t - 1) < length (sj_ops j)" using serial_index(1) [OF t(1)] by linarith
  show "sj_generation j \<noteq> 0" by (rule g)
qed

lemma completion_cases [consumes 1, case_names rejected completed]:
  assumes shape: "shape j"
  obtains (rejected) j' where "completion j t qpc kind = (j', None)" "core_of j' = core_of j"
      "cut_state j' = cut_state j" "\<not> clean j'"
  | (completed) k e where "completion j t qpc kind = (close_op j k qpc, Some k)" "k = unat (ti_op t - 1)"
      "finished j (close_op j k qpc) k e qpc" "op_kind (sj_ops j ! k) = kind" "owns j t"
proof (cases "owns j t \<and> op_kind (sj_ops j ! unat (ti_op t - 1)) = kind \<and> \<not> op_completed (sj_ops j ! unat (ti_op t - 1))")
  case False
  show ?thesis
    by (rule rejected [of "fst (completion j t qpc kind)"])
      (use False in \<open>auto simp: completion_def Let_def\<close>)
next
  case True
  let ?k = "unat (ti_op t - 1)"
  have k: "?k < length (sj_ops j)" using owns_index [OF shape] True by blast
  define e where "e = unat (op_epoch (sj_ops j ! ?k) - 1)"
  have "op_epoch (sj_ops j ! ?k) \<noteq> 0" "unat (op_epoch (sj_ops j ! ?k)) \<le> length (sj_epochs j)"
    using shape k by (auto simp: shape_def)
  then have e1: "e < length (sj_epochs j)" "op_epoch (sj_ops j ! ?k) = of_nat e + 1"
    using serial_index [of "op_epoch (sj_ops j ! ?k)"] by (simp_all add: e_def)
  have e2: "e < 64" "length (sj_last_exit j) = 64" using e1 shape by (auto simp: shape_def kEpochCapacity_def)
  show ?thesis
    by (rule completed [of ?k e])
      (use True k e1 e2 close_op_finished in \<open>auto simp: completion_def Let_def\<close>)
qed

subsection \<open>Every call keeps the shape\<close>

lemma of_nat_serial [simp]:
  assumes "i < 64" "e < 64"
  shows "(of_nat i :: u64) = of_nat e \<longleftrightarrow> i = e"
  using assms by (simp add: word_unat_eq_iff unat_of_nat)

lemma open_ops_le: "open_ops ops e \<le> length ops"
  by (simp add: open_ops_def)

lemma open_ops_snoc: "open_ops (ops @ [r]) e = open_ops ops e + (if \<not> op_completed r \<and> op_epoch r = e then 1 else 0)"
  by (simp add: open_ops_def)

lemma shapeD:
  assumes "shape j"
  shows "length (sj_epochs j) \<le> 64" "length (sj_ops j) \<le> 32768" "length (sj_last_exit j) = 64"
    "unat (sc_stored (sj_counts j)) = length (sj_ops j)"
    "unat (sc_observed (sj_counts j)) = length (sj_ops j) + unat (sc_overflow (sj_counts j))"
    "unat (sc_completed (sj_counts j)) = length (filter op_completed (sj_ops j))"
    "unat (sj_pending j) = length (filter (\<lambda>r. \<not> op_completed r) (sj_ops j))"
  using assms unfolding shape_def kEpochCapacity_def kOperationCapacity_def by blast+

text \<open>The two outcomes as rewrite rules; the epoch list separately, with its new flag named.\<close>

lemma begunD:
  assumes "begun j j' e row"
  shows "e < length (sj_epochs j)" "ep_destroy (sj_epochs j ! e) = None" "length (sj_ops j) < 32768"
    "op_id row = sc_observed (sj_counts j) + 1" "op_epoch row = ep_id (sj_epochs j ! e)"
    "\<not> op_completed row" "sj_ops j' = sj_ops j @ [row]"
    "sj_counts j' = (sj_counts j)\<lparr>sc_observed := sc_observed (sj_counts j) + 1,
          sc_stored := sc_stored (sj_counts j) + 1\<rparr>"
    "sj_pending j' = sj_pending j + 1" "sj_last_exit j' = sj_last_exit j"
    "sj_self j' = sj_self j" "sj_window j' = sj_window j" "sj_generation j' = sj_generation j"
    "sj_enabled j' = sj_enabled j" "sj_configured j' = sj_configured j" "sj_stopped j' = sj_stopped j"
    "sj_cut j' = sj_cut j" "cut_state j' = cut_state j" "\<not> sj_stopped j" "sj_generation j \<noteq> 0"
    "clean j' \<Longrightarrow> clean j \<and> op_thread row \<noteq> 0 \<and> op_handle row \<noteq> Some 0
          \<and> in_window (sj_window j) (op_entry row) \<and> ep_creation (sj_epochs j ! e) < op_entry row"
  using assms unfolding begun_def kOperationCapacity_def by blast+

lemma begun_epochs:
  assumes "begun j j' e row"
  obtains c where "sj_epochs j' = (sj_epochs j)[e := (sj_epochs j ! e)\<lparr>ep_complete := c,
      ep_pending := ep_pending (sj_epochs j ! e) + 1\<rparr>]"
    "clean j' \<Longrightarrow> c = ep_complete (sj_epochs j ! e)"
  using assms unfolding begun_def by blast

lemma finishedD:
  assumes "finished j j' k e qpc"
  shows "k < length (sj_ops j)" "\<not> op_completed (sj_ops j ! k)" "e < length (sj_epochs j)"
    "op_epoch (sj_ops j ! k) = of_nat e + 1"
    "sj_ops j' = (sj_ops j)[k := (sj_ops j ! k)\<lparr>op_completed := True, op_exit := qpc\<rparr>]"
    "sj_counts j' = (sj_counts j)\<lparr>sc_completed := sc_completed (sj_counts j) + 1\<rparr>"
    "sj_pending j' = sj_pending j - 1"
    "sj_last_exit j' = (sj_last_exit j)[e := max (sj_last_exit j ! e) qpc]"
    "sj_self j' = sj_self j" "sj_window j' = sj_window j" "sj_generation j' = sj_generation j"
    "sj_enabled j' = sj_enabled j" "sj_configured j' = sj_configured j" "sj_stopped j' = sj_stopped j"
    "sj_cut j' = sj_cut j" "cut_state j' = cut_state j"
    "clean j' \<Longrightarrow> clean j \<and> in_window (sj_window j) qpc \<and> op_entry (sj_ops j ! k) \<le> qpc
          \<and> (\<forall>d. ep_destroy (sj_epochs j ! e) = Some d \<longrightarrow> qpc < d)"
  using assms unfolding finished_def by blast+

lemma finished_epochs:
  assumes "finished j j' k e qpc"
  obtains c where "sj_epochs j' = (sj_epochs j)[e := (sj_epochs j ! e)\<lparr>
      ep_pending := ep_pending (sj_epochs j ! e) - 1, ep_complete := c\<rparr>]"
    "clean j' \<Longrightarrow> c = ep_complete (sj_epochs j ! e)"
  using assms unfolding finished_def by blast

lemma shape_begun:
  assumes shape: "shape j" and b: "begun j j' e row"
  shows "shape j'"
proof -
  let ?n = "length (sj_ops j)"
  note d = begunD [OF b]
  obtain c where ep': "sj_epochs j' = (sj_epochs j)[e := (sj_epochs j ! e)\<lparr>ep_complete := c,
      ep_pending := ep_pending (sj_epochs j ! e) + 1\<rparr>]"
    using begun_epochs [OF b] by blast
  have e: "e < length (sj_epochs j)" "length (sj_epochs j) \<le> 64" "ep_id (sj_epochs j ! e) = of_nat e + 1"
    and n: "?n < 32768"
    using d(1,3) shape shapeD(1) [OF shape] by (simp_all add: shape_def)
  have ov: "sc_overflow (sj_counts j) = 0" and obs: "unat (sc_observed (sj_counts j)) = ?n"
    using shape n by (auto simp: shape_def kOperationCapacity_def)
  have obs_w: "sc_observed (sj_counts j) = of_nat ?n" using obs by (metis of_nat_unat ucast_id)
  have ep: "op_epoch row = of_nat e + 1" "\<not> op_completed row" using d(5,6) e by simp_all
  have une: "unat (of_nat e + 1 :: u64) = e + 1"
    using e by (subst unat_succ) (simp_all add: unat_of_nat)
  have cnt: "unat (sc_observed (sj_counts j) + 1) = ?n + 1" "unat (sc_stored (sj_counts j) + 1) = ?n + 1"
    using n obs shape by (simp_all add: unat_succ shape_def)
  have pend: "unat (sj_pending j + 1) = length (filter (\<lambda>r. \<not> op_completed r) (sj_ops j)) + 1"
  proof -
    have "length (filter (\<lambda>r. \<not> op_completed r) (sj_ops j)) < 4294967295"
      using n length_filter_le [of "\<lambda>r. \<not> op_completed r" "sj_ops j"] by linarith
    then show ?thesis using n shape by (subst unat_succ) (simp_all add: shape_def)
  qed
  have epend: "unat (ep_pending (sj_epochs j ! e) + 1) = open_ops (sj_ops j) (of_nat e + 1) + 1"
    using n open_ops_le [of "sj_ops j" "of_nat e + 1"] shape e by (subst unat_succ) (simp_all add: shape_def)
  have eps: "\<forall>i < length (sj_epochs j'). ep_id (sj_epochs j' ! i) = of_nat i + 1
      \<and> unat (ep_pending (sj_epochs j' ! i)) = open_ops (sj_ops j') (of_nat i + 1)"
  proof (intro allI impI)
    fix i assume "i < length (sj_epochs j')"
    then have i: "i < length (sj_epochs j)" using ep' by simp
    then have "i < 64" "e < 64" using e by simp_all
    note i = i this
    show "ep_id (sj_epochs j' ! i) = of_nat i + 1
      \<and> unat (ep_pending (sj_epochs j' ! i)) = open_ops (sj_ops j') (of_nat i + 1)"
      using i e epend shape ep
      by (cases "i = e") (simp_all add: ep' d(7) open_ops_snoc shape_def)
  qed
  have ops: "\<forall>k < length (sj_ops j'). op_id (sj_ops j' ! k) = of_nat k + 1
      \<and> op_epoch (sj_ops j' ! k) \<noteq> 0 \<and> unat (op_epoch (sj_ops j' ! k)) \<le> length (sj_epochs j')
      \<and> (op_completed (sj_ops j' ! k) \<longrightarrow>
           op_exit (sj_ops j' ! k) \<le> sj_last_exit j' ! unat (op_epoch (sj_ops j' ! k) - 1))"
  proof (intro allI impI)
    fix k assume k: "k < length (sj_ops j')"
    show "op_id (sj_ops j' ! k) = of_nat k + 1
      \<and> op_epoch (sj_ops j' ! k) \<noteq> 0 \<and> unat (op_epoch (sj_ops j' ! k)) \<le> length (sj_epochs j')
      \<and> (op_completed (sj_ops j' ! k) \<longrightarrow>
           op_exit (sj_ops j' ! k) \<le> sj_last_exit j' ! unat (op_epoch (sj_ops j' ! k) - 1))"
    proof (cases "k = ?n")
      case True
      then have "sj_ops j' ! k = row" by (simp add: d(7))
      moreover have "op_epoch row \<noteq> 0" using ep une by force
      ultimately show ?thesis
        using True ep une e obs_w d(4) by (simp add: ep')
    next
      case False
      then have "k < ?n" "sj_ops j' ! k = sj_ops j ! k" using k by (auto simp: d(7) nth_append)
      then show ?thesis using shape by (simp add: ep' d(10) shape_def)
    qed
  qed
  show ?thesis
    unfolding shape_def using eps ops shapeD [OF shape] cnt pend ep n obs ov
    by (simp add: ep' d(7-10) kEpochCapacity_def kOperationCapacity_def)
qed

lemma open_ops_update:
  assumes "k < length ops" "\<not> op_completed (ops ! k)" "op_completed r"
  shows "open_ops (ops[k := r]) e = open_ops ops e - (if op_epoch (ops ! k) = e then 1 else 0)"
    and "op_epoch (ops ! k) = e \<Longrightarrow> 0 < open_ops ops e"
  using length_filter_update [OF assms(1), of "\<lambda>r. \<not> op_completed r \<and> op_epoch r = e" r] assms(2,3)
  by (auto simp: open_ops_def split: if_splits)

lemma shape_finished:
  assumes shape: "shape j" and f: "finished j j' k e qpc"
  shows "shape j'"
proof -
  let ?n = "length (sj_ops j)" and ?r = "(sj_ops j ! k)\<lparr>op_completed := True, op_exit := qpc\<rparr>"
  note d = finishedD [OF f]
  obtain c where ep': "sj_epochs j' = (sj_epochs j)[e := (sj_epochs j ! e)\<lparr>
      ep_pending := ep_pending (sj_epochs j ! e) - 1, ep_complete := c\<rparr>]"
    using finished_epochs [OF f] by blast
  have k: "k < ?n" "\<not> op_completed (sj_ops j ! k)" and e: "e < length (sj_epochs j)" "length (sj_epochs j) \<le> 64"
    "length (sj_last_exit j) = 64"
    and ek: "op_epoch (sj_ops j ! k) = of_nat e + 1" and n: "?n \<le> 32768"
    and ops': "sj_ops j' = (sj_ops j)[k := ?r]"
    using d(1-5) shapeD(1-3) [OF shape] by simp_all
  have une: "unat (of_nat e :: u64) = e" using e by (simp add: unat_of_nat)
  have une1: "unat (of_nat e + 1 :: u64) = e + 1" using e une by (subst unat_succ) simp_all
  then have nz: "(of_nat e + 1 :: u64) \<noteq> 0" by force
  have c1: "length (filter op_completed (sj_ops j')) = length (filter op_completed (sj_ops j)) + 1"
    and c2: "length (filter (\<lambda>r. \<not> op_completed r) (sj_ops j')) + 1 = length (filter (\<lambda>r. \<not> op_completed r) (sj_ops j))"
    using length_filter_update [OF k(1), of op_completed ?r]
      length_filter_update [OF k(1), of "\<lambda>r. \<not> op_completed r" ?r] k(2)
    by (simp_all add: ops')
  have le: "length (filter op_completed (sj_ops j)) < 18446744073709551615"
    using n length_filter_le [of op_completed "sj_ops j"] by linarith
  have u1: "unat (sc_completed (sj_counts j) + 1) = length (filter op_completed (sj_ops j'))"
    using le n shape c1 by (subst unat_succ) (simp_all add: shape_def)
  have p: "unat (sj_pending j) = Suc (length (filter (\<lambda>r. \<not> op_completed r) (sj_ops j')))"
    using c2 shapeD(7) [OF shape] by simp
  then have "sj_pending j \<noteq> 0" by force
  from unat_pred [OF this] p have u2: "unat (sj_pending j - 1) = length (filter (\<lambda>r. \<not> op_completed r) (sj_ops j'))"
    by simp
  note oo = open_ops_update [OF k, of ?r]
  have u3: "unat (ep_pending (sj_epochs j ! e) - 1) = open_ops (sj_ops j') (of_nat e + 1)"
  proof -
    have "unat (ep_pending (sj_epochs j ! e)) = open_ops (sj_ops j) (of_nat e + 1)"
      using shape e by (simp add: shape_def)
    moreover from this have "ep_pending (sj_epochs j ! e) \<noteq> 0" using oo(2) [of "of_nat e + 1"] ek by auto
    ultimately show ?thesis using oo(1) [of "of_nat e + 1"] ek by (simp add: unat_pred ops')
  qed
  have eps: "\<forall>i < length (sj_epochs j'). ep_id (sj_epochs j' ! i) = of_nat i + 1
      \<and> unat (ep_pending (sj_epochs j' ! i)) = open_ops (sj_ops j') (of_nat i + 1)"
  proof (intro allI impI)
    fix i assume "i < length (sj_epochs j')"
    then have i: "i < length (sj_epochs j)" "i < 64" using e by (auto simp: ep')
    show "ep_id (sj_epochs j' ! i) = of_nat i + 1
      \<and> unat (ep_pending (sj_epochs j' ! i)) = open_ops (sj_ops j') (of_nat i + 1)"
    proof (cases "i = e")
      case True
      then show ?thesis using i u3 shape by (simp add: ep' shape_def)
    next
      case False
      then have "open_ops (sj_ops j') (of_nat i + 1) = open_ops (sj_ops j) (of_nat i + 1)"
        using oo(1) [of "of_nat i + 1"] ek i e by (simp add: ops')
      then show ?thesis using False i shape by (simp add: ep' shape_def)
    qed
  qed
  have last_le: "sj_last_exit j ! m \<le> sj_last_exit j' ! m" for m
    using e by (cases "m = e") (simp_all add: d(8))
  have ops: "\<forall>m < length (sj_ops j'). op_id (sj_ops j' ! m) = of_nat m + 1
      \<and> op_epoch (sj_ops j' ! m) \<noteq> 0 \<and> unat (op_epoch (sj_ops j' ! m)) \<le> length (sj_epochs j')
      \<and> (op_completed (sj_ops j' ! m) \<longrightarrow>
           op_exit (sj_ops j' ! m) \<le> sj_last_exit j' ! unat (op_epoch (sj_ops j' ! m) - 1))"
  proof (intro allI impI)
    fix m assume m: "m < length (sj_ops j')"
    show "op_id (sj_ops j' ! m) = of_nat m + 1
      \<and> op_epoch (sj_ops j' ! m) \<noteq> 0 \<and> unat (op_epoch (sj_ops j' ! m)) \<le> length (sj_epochs j')
      \<and> (op_completed (sj_ops j' ! m) \<longrightarrow>
           op_exit (sj_ops j' ! m) \<le> sj_last_exit j' ! unat (op_epoch (sj_ops j' ! m) - 1))"
    proof (cases "m = k")
      case True
      then have "sj_ops j' ! m = ?r" using k by (simp add: ops')
      moreover have "sj_last_exit j' ! e = max (sj_last_exit j ! e) qpc" using e by (simp add: d(8))
      ultimately show ?thesis using True shape k ek une une1 nz e(1) by (simp add: ep' shape_def)
    next
      case False
      then have same: "m < ?n" "sj_ops j' ! m = sj_ops j ! m" using m by (simp_all add: ops')
      then show ?thesis using shape last_le order.trans by (fastforce simp: ep' shape_def)
    qed
  qed
  show ?thesis
    unfolding shape_def using eps ops shapeD [OF shape] shape u1 u2
    by (simp add: ep' d(5-8) ops' shape_def)
qed

subsection \<open>Creation and destruction\<close>

lemma create_cases [case_names refused created]:
  obtains (refused) "core_of (fst (create j0 cookie qpc initial maximum orig)) = core_of j0"
      "cut_state (fst (create j0 cookie qpc initial maximum orig)) = cut_state (note_mutation j0)"
      "clean (fst (create j0 cookie qpc initial maximum orig)) \<Longrightarrow> clean j0"
  | (created) row j' where "fst (create j0 cookie qpc initial maximum orig) = j'"
      "core_of j' = core_of (j0\<lparr>sj_epochs := sj_epochs j0 @ [row]\<rparr>)"
      "cut_state j' = cut_state (note_mutation j0)" "\<not> sj_stopped j0" "length (sj_epochs j0) < 64 \<or> length (sj_epochs j0) > 64"
      "row = \<lparr>ep_id = of_nat (length (sj_epochs j0)) + 1, ep_cookie = cookie, ep_creation = qpc,
         ep_destroy = None, ep_initial = initial, ep_maximum = maximum, ep_pending = 0,
         ep_origin = orig, ep_complete = (in_window (sj_window j0) qpc \<and> orig = Fresh)\<rparr>"
      "cookie \<noteq> 0" "maximum \<noteq> 0" "maximum \<le> kMaxCount" "initial \<le> maximum"
      "clean j' \<Longrightarrow> clean j0 \<and> in_window (sj_window j0) qpc \<and> orig = Fresh \<and> initial = 0"
proof (cases "admission (note_mutation j0) qpc")
  case (Pair j r)
  note adm = this
  have cut: "cut_state j = cut_state (note_mutation j0)"
    using adm by (auto simp: admission_def Let_def split: if_splits)
  have cl: "clean j \<Longrightarrow> clean j0" using admission_clean [OF adm] by simp
  have core: "core_of j = core_of j0" using admission_core [OF adm] by simp
  show ?thesis
  proof (cases r)
    case (Some d)
    with adm cut cl core show ?thesis by (intro refused) (simp_all add: create_def)
  next
    case None
    let ?bad = "cookie = 0 \<or> maximum = 0 \<or> maximum > kMaxCount \<or> initial > maximum \<or> origin_name orig = []"
    show ?thesis
    proof (cases "?bad \<or> reuse_issue j cookie qpc \<noteq> None \<or> length (sj_epochs j) = kEpochCapacity")
      case True
      have r: "i \<noteq> IncompleteCut" if "reuse_issue j cookie qpc = Some i" for i
        using that by (auto simp: reuse_issue_def split: option.splits if_splits)
      have "fst (create j0 cookie qpc initial maximum orig) = reject_argument j
          \<or> (\<exists>i. i \<noteq> IncompleteCut \<and> fst (create j0 cookie qpc initial maximum orig) = sem_mark i j)"
      proof (cases "?bad")
        case True
        then show ?thesis using adm None by (simp add: create_def)
      next
        case good: False
        then show ?thesis
          using adm None True r by (cases "reuse_issue j cookie qpc") (auto simp: create_def)
      qed
      then show ?thesis
        using cut core by (intro refused) auto
    next
      case False
      let ?j' = "fst (create j0 cookie qpc initial maximum orig)"
      define row where "row = \<lparr>ep_id = of_nat (length (sj_epochs j0)) + 1, ep_cookie = cookie, ep_creation = qpc,
         ep_destroy = None, ep_initial = initial, ep_maximum = maximum, ep_pending = 0,
         ep_origin = orig, ep_complete = (in_window (sj_window j0) qpc \<and> orig = Fresh)\<rparr>"
      define j2 where "j2 = (fst (sem_clock j qpc))\<lparr>sj_epochs := sj_epochs j @ [row]\<rparr>"
      note jf = core_fields [OF core]
      from False have f: "\<not> ?bad" "reuse_issue j cookie qpc = None" "length (sj_epochs j) \<noteq> kEpochCapacity" by auto
      have res: "?j' = (let j3 = (if orig \<noteq> Fresh then sem_mark NonfreshOrigin j2 else j2) in
          if initial \<noteq> 0 then sem_mark InitialCredits j3 else j3)"
        using f adm None unfolding create_def j2_def row_def
        by (simp add: Let_def case_prod_beta jf)
      have c2: "core_of j2 = core_of (j0\<lparr>sj_epochs := sj_epochs j0 @ [row]\<rparr>)"
        using core_helpers(8) [of j qpc] jf by (simp add: j2_def core_of_def)
      have "core_of ?j' = core_of (j0\<lparr>sj_epochs := sj_epochs j0 @ [row]\<rparr>)"
        by (simp add: res Let_def c2)
      moreover have "cut_state ?j' = cut_state (note_mutation j0)"
        by (simp add: res Let_def j2_def cut)
      moreover have "clean ?j' \<Longrightarrow> clean j0 \<and> in_window (sj_window j0) qpc \<and> orig = Fresh \<and> initial = 0"
        using cl by (auto simp: res Let_def j2_def jf split: if_splits)
      moreover have "\<not> sj_stopped j0" using adm None admission_None [of "note_mutation j0" qpc j] by simp
      ultimately show ?thesis
        using f jf by (intro created [of ?j' row]) (auto simp: row_def kEpochCapacity_def)
    qed
  qed
qed

lemma destroy_cases [consumes 1, case_names refused destroyed]:
  assumes shape: "shape j0"
  obtains (refused) "core_of (fst (destroy j0 cookie qpc)) = core_of j0"
      "cut_state (fst (destroy j0 cookie qpc)) = cut_state (note_mutation j0)"
      "clean (fst (destroy j0 cookie qpc)) \<Longrightarrow> clean j0"
  | (destroyed) e c j' where "fst (destroy j0 cookie qpc) = j'" "e < length (sj_epochs j0)"
      "ep_destroy (sj_epochs j0 ! e) = None" "\<not> sj_stopped j0"
      "core_of j' = core_of (j0\<lparr>sj_epochs := (sj_epochs j0)[e := (sj_epochs j0 ! e)\<lparr>ep_destroy := Some qpc,
         ep_complete := c\<rparr>]\<rparr>)"
      "cut_state j' = cut_state (note_mutation j0)"
      "clean j' \<Longrightarrow> clean j0 \<and> c = ep_complete (sj_epochs j0 ! e) \<and> in_window (sj_window j0) qpc
         \<and> ep_creation (sj_epochs j0 ! e) < qpc \<and> ep_pending (sj_epochs j0 ! e) = 0 \<and> sj_last_exit j0 ! e < qpc"
proof (cases "admission (note_mutation j0) qpc")
  case (Pair j r)
  note adm = this
  have cut: "cut_state j = cut_state (note_mutation j0)"
    using adm by (auto simp: admission_def Let_def split: if_splits)
  have cl: "clean j \<Longrightarrow> clean j0" using admission_clean [OF adm] by simp
  have core: "core_of j = core_of j0" using admission_core [OF adm] by simp
  have shape_j: "shape j" using shape shape_core [OF core] by simp
  note jf = core_fields [OF core]
  show ?thesis
  proof (cases "r = None \<and> epoch_index j cookie \<noteq> None")
    case False
    with adm cut cl core show ?thesis by (intro refused) (auto simp: destroy_def split: option.splits)
  next
    case True
    then obtain e where r: "r = None" and e: "epoch_index j cookie = Some e" by blast
    note ei = epoch_index_Some [OF shape_j e]
    let ?j' = "fst (destroy j0 cookie qpc)"
    define j2 where "j2 = fst (sem_clock (update_epoch e (\<lambda>r. r\<lparr>ep_destroy := Some qpc\<rparr>) j) qpc)"
    have u: "unat (ep_id (sj_epochs j ! e) - 1) = e"
      using shape_j ei(1) by (simp add: shape_def kEpochCapacity_def unat_of_nat)
    define bad where "bad \<longleftrightarrow> \<not> in_window (sj_window j) qpc \<or> qpc \<le> ep_creation (sj_epochs j ! e)
       \<or> ep_pending (sj_epochs j ! e) \<noteq> 0 \<or> qpc \<le> sj_last_exit j ! e"
    have res: "?j' = (if bad then break_lifetime e j2 else j2)"
      using adm r e ei u
      by (simp add: destroy_def Let_def case_prod_beta j2_def bad_def update_epoch_def)
    define c where "c = (\<not> bad \<and> ep_complete (sj_epochs j ! e))"
    have "core_of ?j' = core_of (j0\<lparr>sj_epochs := (sj_epochs j0)[e := (sj_epochs j0 ! e)\<lparr>ep_destroy := Some qpc,
         ep_complete := c\<rparr>]\<rparr>)"
      using ei(1) jf unfolding res
      by (cases bad) (simp_all add: j2_def break_lifetime_def update_epoch_def core_of_def c_def)
    moreover have "cut_state ?j' = cut_state (note_mutation j0)"
      by (simp add: res j2_def cut)
    moreover have "clean ?j' \<Longrightarrow> clean j0 \<and> \<not> bad"
      using cl by (auto simp: res j2_def split: if_splits)
    moreover have "\<not> sj_stopped j0" using adm r admission_None [of "note_mutation j0" qpc j] by simp
    ultimately show ?thesis
      using ei jf by (intro destroyed [of ?j' e c]) (auto simp: bad_def c_def not_le)
  qed
qed

subsection \<open>Rows behind an empty issue word\<close>

definition good_epoch :: "sem_window \<Rightarrow> sem_epoch \<Rightarrow> bool" where
  "good_epoch w e \<longleftrightarrow> ep_complete e \<and> ep_origin e = Fresh \<and> ep_initial e = 0 \<and> ep_cookie e \<noteq> 0
     \<and> ep_maximum e \<noteq> 0 \<and> ep_maximum e \<le> kMaxCount \<and> in_window w (ep_creation e)
     \<and> (\<forall>d. ep_destroy e = Some d \<longrightarrow> in_window w d \<and> ep_creation e < d)"

definition good_times :: "sem_window \<Rightarrow> sem_epoch \<Rightarrow> sem_op \<Rightarrow> bool" where
  "good_times w e r \<longleftrightarrow> op_thread r \<noteq> 0 \<and> op_handle r \<noteq> Some 0 \<and> in_window w (op_entry r)
     \<and> ep_creation e < op_entry r
     \<and> (op_completed r \<longrightarrow> in_window w (op_exit r) \<and> op_entry r \<le> op_exit r
          \<and> (\<forall>d. ep_destroy e = Some d \<longrightarrow> op_exit r < d))
     \<and> (\<not> op_completed r \<longrightarrow> ep_destroy e = None)"

definition good_release :: "sem_op \<Rightarrow> bool" where
  "good_release r \<longleftrightarrow> op_count r \<noteq> 0 \<and> op_count r \<le> kMaxCount \<and> context_name (rc_kind (op_context r)) \<noteq> []
     \<and> (if rc_kind (op_context r) = ContextUpdate then id_valid (rc_generation (op_context r))
        else rc_generation (op_context r) = no_id)"

definition good_args :: "sem_epoch \<Rightarrow> sem_op \<Rightarrow> bool" where
  "good_args e r \<longleftrightarrow>
     (op_kind r = Release \<and> good_release r
        \<and> (op_completed r \<and> op_success r \<longrightarrow>
             (\<exists>p. op_previous r = Some p \<and> 0 \<le> sint p \<and> p \<le> ep_maximum e)))
     \<or> (op_kind r = Wait \<and> timeout_name (op_timeout r) \<noteq> []
        \<and> (op_completed r \<longrightarrow> op_wait r \<in> {WaitSuccess, WaitTimeout, WaitApc, WaitAlerted}))"

definition epoch_of :: "sem_journal \<Rightarrow> sem_op \<Rightarrow> sem_epoch" where
  "epoch_of j r = sj_epochs j ! unat (op_epoch r - 1)"

text \<open>Times first, arguments second: between the two steps of a begin or an end only the former hold
  of the row being written.\<close>

definition good_rows :: "sem_journal \<Rightarrow> bool" where
  "good_rows j \<longleftrightarrow> (\<forall>e \<in> set (sj_epochs j). good_epoch (sj_window j) e)
     \<and> (\<forall>r \<in> set (sj_ops j). good_times (sj_window j) (epoch_of j r) r)"

definition good_arguments :: "sem_journal \<Rightarrow> bool" where
  "good_arguments j \<longleftrightarrow> (\<forall>r \<in> set (sj_ops j). good_args (epoch_of j r) r)"

lemma good_core:
  assumes "core_of j = core_of j'"
  shows "good_rows j = good_rows j'" "good_arguments j = good_arguments j'"
  using core_fields [OF assms] by (simp_all add: good_rows_def good_arguments_def epoch_of_def)

lemma epoch_of_index:
  assumes "shape j" "r \<in> set (sj_ops j)"
  obtains e where "e < length (sj_epochs j)" "op_epoch r = of_nat e + 1" "epoch_of j r = sj_epochs j ! e"
    "unat (op_epoch r - 1) = e"
proof -
  let ?e = "unat (op_epoch r - 1)"
  obtain k where k: "k < length (sj_ops j)" "r = sj_ops j ! k" using assms(2) by (auto simp: in_set_conv_nth)
  then have nz: "op_epoch r \<noteq> 0" and le: "unat (op_epoch r) \<le> length (sj_epochs j)"
    using assms(1) by (simp_all add: shape_def)
  from serial_index [OF nz] le show ?thesis by (intro that [of ?e]) (simp_all add: epoch_of_def)
qed

text \<open>Two epoch rows an operation row cannot tell apart.\<close>

definition same_epoch :: "sem_epoch \<Rightarrow> sem_epoch \<Rightarrow> bool" where
  "same_epoch a b \<longleftrightarrow> ep_creation a = ep_creation b \<and> ep_destroy a = ep_destroy b
     \<and> ep_maximum a = ep_maximum b"

lemma same_epoch_good:
  assumes "same_epoch a b"
  shows "good_times w a r = good_times w b r" "good_args a r = good_args b r"
  using assms by (simp_all add: same_epoch_def good_times_def good_args_def)

lemma same_epoch_update:
  assumes "same_epoch (xs ! e) y"
  shows "same_epoch (xs ! i) (xs[e := y] ! i)"
  using assms by (cases "e < length xs"; cases "i = e") (simp_all add: same_epoch_def list_update_beyond)

lemma good_begun:
  assumes shape: "shape j" and b: "begun j j' e row" and clean: "clean j'" and good: "good_rows j"
  shows "good_rows j'"
    and "good_arguments j \<Longrightarrow> \<forall>k < length (sj_ops j). good_args (epoch_of j' (sj_ops j' ! k)) (sj_ops j' ! k)"
proof -
  note d = begunD [OF b] and c = begunD(21) [OF b clean]
  obtain x where ep: "sj_epochs j' = (sj_epochs j)[e := (sj_epochs j ! e)\<lparr>ep_complete := x,
      ep_pending := ep_pending (sj_epochs j ! e) + 1\<rparr>]" "x = ep_complete (sj_epochs j ! e)"
    using begun_epochs [OF b] clean by blast
  have same: "same_epoch (epoch_of j r) (epoch_of j' r)" for r
    unfolding epoch_of_def ep(1) by (rule same_epoch_update) (simp add: same_epoch_def)
  have e_good: "\<forall>a \<in> set (sj_epochs j'). good_epoch (sj_window j') a"
  proof
    fix a assume "a \<in> set (sj_epochs j')"
    then have "a \<in> set (sj_epochs j) \<or> a = (sj_epochs j ! e)\<lparr>ep_complete := x,
        ep_pending := ep_pending (sj_epochs j ! e) + 1\<rparr>"
      using set_update_subset_insert [of "sj_epochs j"] unfolding ep(1) by blast
    moreover have "good_epoch (sj_window j) (sj_epochs j ! e)" using good d(1) by (simp add: good_rows_def)
    ultimately show "good_epoch (sj_window j') a"
      using good ep(2) by (auto simp: good_rows_def good_epoch_def d(12))
  qed
  have u: "unat (op_epoch row - 1) = e"
    using shape d(1,5) shapeD(1) [OF shape] by (simp add: shape_def unat_of_nat)
  have "same_epoch (sj_epochs j ! e) (epoch_of j' row)" using same [of row] by (simp add: epoch_of_def u)
  then have "good_times (sj_window j') (epoch_of j' row) row"
    using c d(2,6) by (simp add: same_epoch_def good_times_def d(12))
  then have "\<forall>r \<in> set (sj_ops j'). good_times (sj_window j') (epoch_of j' r) r"
    using good same_epoch_good(1) [OF same] by (auto simp: d(7,12) good_rows_def)
  with e_good show "good_rows j'" by (simp add: good_rows_def)
  show "good_arguments j \<Longrightarrow> \<forall>k < length (sj_ops j). good_args (epoch_of j' (sj_ops j' ! k)) (sj_ops j' ! k)"
    using same_epoch_good(2) [OF same] by (simp add: good_arguments_def d(7) nth_append)
qed

lemma good_finished:
  assumes shape: "shape j" and f: "finished j j' k e qpc" and clean: "clean j'" and good: "good_rows j"
  shows "good_rows j'"
    and "good_arguments j \<Longrightarrow> \<forall>i < length (sj_ops j). i \<noteq> k \<longrightarrow> good_args (epoch_of j' (sj_ops j' ! i)) (sj_ops j' ! i)"
    and "same_epoch (sj_epochs j ! e) (epoch_of j' (sj_ops j' ! k))"
proof -
  note d = finishedD [OF f] and c = finishedD(17) [OF f clean]
  obtain x where ep: "sj_epochs j' = (sj_epochs j)[e := (sj_epochs j ! e)\<lparr>
      ep_pending := ep_pending (sj_epochs j ! e) - 1, ep_complete := x\<rparr>]" "x = ep_complete (sj_epochs j ! e)"
    using finished_epochs [OF f] clean by blast
  have same: "same_epoch (epoch_of j r) (epoch_of j' r)" for r
    unfolding epoch_of_def ep(1) by (rule same_epoch_update) (simp add: same_epoch_def)
  have e_good: "\<forall>a \<in> set (sj_epochs j'). good_epoch (sj_window j') a"
  proof
    fix a assume "a \<in> set (sj_epochs j')"
    then have "a \<in> set (sj_epochs j) \<or> a = (sj_epochs j ! e)\<lparr>
        ep_pending := ep_pending (sj_epochs j ! e) - 1, ep_complete := x\<rparr>"
      using set_update_subset_insert [of "sj_epochs j"] unfolding ep(1) by blast
    moreover have "good_epoch (sj_window j) (sj_epochs j ! e)" using good d(3) by (simp add: good_rows_def)
    ultimately show "good_epoch (sj_window j') a"
      using good ep(2) by (auto simp: good_rows_def good_epoch_def d(10))
  qed
  let ?r = "(sj_ops j ! k)\<lparr>op_completed := True, op_exit := qpc\<rparr>"
  have u: "unat (op_epoch (sj_ops j ! k) - 1) = e"
    using d(3,4) shapeD(1) [OF shape] by (simp add: unat_of_nat)
  have k: "sj_ops j' ! k = ?r" using d(1) by (simp add: d(5))
  show sk: "same_epoch (sj_epochs j ! e) (epoch_of j' (sj_ops j' ! k))"
    using same [of "sj_ops j' ! k"] by (simp add: epoch_of_def k u)
  have "good_times (sj_window j) (sj_epochs j ! e) (sj_ops j ! k)"
    using good d(1) nth_mem [OF d(1)] u by (auto simp: good_rows_def epoch_of_def)
  then have "good_times (sj_window j) (sj_epochs j ! e) ?r"
    using c by (auto simp: good_times_def)
  then have row: "good_times (sj_window j') (epoch_of j' (sj_ops j' ! k)) (sj_ops j' ! k)"
    using same_epoch_good(1) [OF sk] by (simp add: k d(10))
  have "good_times (sj_window j') (epoch_of j' (sj_ops j' ! i)) (sj_ops j' ! i)" if "i < length (sj_ops j)" for i
  proof (cases "i = k")
    case True
    with row show ?thesis by simp
  next
    case False
    then have "sj_ops j' ! i = sj_ops j ! i" by (simp add: d(5))
    then show ?thesis
      using that good same_epoch_good(1) [OF same] by (simp add: good_rows_def d(10))
  qed
  with e_good show "good_rows j'" by (auto simp: good_rows_def in_set_conv_nth d(5))
  show "good_arguments j \<Longrightarrow> \<forall>i < length (sj_ops j). i \<noteq> k \<longrightarrow> good_args (epoch_of j' (sj_ops j' ! i)) (sj_ops j' ! i)"
    using same_epoch_good(2) [OF same] by (simp add: good_arguments_def d(5))
qed

lemma shape_overflow:
  assumes shape: "shape j" and e: "e < length (sj_epochs j)" and n: "length (sj_ops j) = kOperationCapacity"
    and obs: "sc_observed (sj_counts j) \<noteq> 0xFFFFFFFFFFFFFFFF"
    and core: "core_of j' = core_of (j\<lparr>sj_epochs := (sj_epochs j)[e := (sj_epochs j ! e)\<lparr>ep_complete := False\<rparr>],
         sj_counts := (sj_counts j)\<lparr>sc_observed := sc_observed (sj_counts j) + 1,
           sc_overflow := sc_overflow (sj_counts j) + 1\<rparr>\<rparr>)"
  shows "shape j'"
proof -
  let ?j = "j\<lparr>sj_epochs := (sj_epochs j)[e := (sj_epochs j ! e)\<lparr>ep_complete := False\<rparr>],
         sj_counts := (sj_counts j)\<lparr>sc_observed := sc_observed (sj_counts j) + 1,
           sc_overflow := sc_overflow (sj_counts j) + 1\<rparr>\<rparr>"
  from obs have "sc_observed (sj_counts j) \<noteq> - 1" by auto
  from word_succ_greater [OF this] have lt: "unat (sc_observed (sj_counts j)) < unat (sc_observed (sj_counts j) + 1)"
    by (simp add: word_less_nat_alt)
  then have "unat (sc_observed (sj_counts j)) + 1 < 2 ^ 64"
    using unsigned_less [of "sc_observed (sj_counts j) + 1", where ?'a = nat] by simp
  then have u1: "unat (sc_observed (sj_counts j) + 1) = unat (sc_observed (sj_counts j)) + 1"
    and u2: "unat (sc_overflow (sj_counts j) + 1) = unat (sc_overflow (sj_counts j)) + 1"
    using shapeD(5) [OF shape] by (simp_all add: unat_succ)
  have ep: "\<forall>i < length (sj_epochs j). ep_id (sj_epochs ?j ! i) = ep_id (sj_epochs j ! i)
      \<and> ep_pending (sj_epochs ?j ! i) = ep_pending (sj_epochs j ! i)"
    using e by (auto simp: nth_list_update)
  have "shape ?j"
    using shape u1 u2 n ep by (simp add: shape_def)
  with core show ?thesis using shape_core by blast
qed

lemma shape_created:
  assumes shape: "shape j" and core: "core_of j' = core_of (j\<lparr>sj_epochs := sj_epochs j @ [row]\<rparr>)"
    and room: "length (sj_epochs j) < 64"
    and row: "ep_id row = of_nat (length (sj_epochs j)) + 1" "ep_pending row = 0"
  shows "shape j'"
proof -
  let ?j = "j\<lparr>sj_epochs := sj_epochs j @ [row]\<rparr>" and ?n = "length (sj_epochs j)"
  have "op_epoch r \<noteq> of_nat ?n + 1" if "r \<in> set (sj_ops j)" for r
    using epoch_of_index [OF shape that] room by force
  then have "filter (\<lambda>r. \<not> op_completed r \<and> op_epoch r = of_nat ?n + 1) (sj_ops j) = []"
    by (auto simp: filter_empty_conv)
  then have none: "open_ops (sj_ops j) (of_nat ?n + 1) = 0" by (simp add: open_ops_def)
  have ep: "\<forall>i < length (sj_epochs ?j). ep_id (sj_epochs ?j ! i) = of_nat i + 1
      \<and> unat (ep_pending (sj_epochs ?j ! i)) = open_ops (sj_ops ?j) (of_nat i + 1)"
    using shape none row by (auto simp: shape_def nth_append less_Suc_eq)
  have ops: "\<forall>k < length (sj_ops ?j). op_id (sj_ops ?j ! k) = of_nat k + 1
      \<and> op_epoch (sj_ops ?j ! k) \<noteq> 0 \<and> unat (op_epoch (sj_ops ?j ! k)) \<le> length (sj_epochs ?j)
      \<and> (op_completed (sj_ops ?j ! k) \<longrightarrow>
           op_exit (sj_ops ?j ! k) \<le> sj_last_exit ?j ! unat (op_epoch (sj_ops ?j ! k) - 1))"
    using shape by (auto simp: shape_def le_SucI)
  have "shape ?j"
    unfolding shape_def using ep ops shape room by (simp add: shape_def kEpochCapacity_def)
  with core show ?thesis using shape_core by blast
qed

lemma shape_destroyed:
  assumes shape: "shape j" and e: "e < length (sj_epochs j)"
    and core: "core_of j' = core_of (j\<lparr>sj_epochs := (sj_epochs j)[e := (sj_epochs j ! e)\<lparr>ep_destroy := Some qpc,
         ep_complete := c\<rparr>]\<rparr>)"
  shows "shape j'"
proof -
  let ?j = "j\<lparr>sj_epochs := (sj_epochs j)[e := (sj_epochs j ! e)\<lparr>ep_destroy := Some qpc, ep_complete := c\<rparr>]\<rparr>"
  have "\<forall>i < length (sj_epochs j). ep_id (sj_epochs ?j ! i) = ep_id (sj_epochs j ! i)
      \<and> ep_pending (sj_epochs ?j ! i) = ep_pending (sj_epochs j ! i)"
    using e by (auto simp: nth_list_update)
  with shape have "shape ?j" by (simp add: shape_def)
  with core show ?thesis using shape_core by blast
qed

text \<open>Rewriting the arguments of a row, as the public methods do after a begin or a completion.\<close>

definition args_only :: "(sem_op \<Rightarrow> sem_op) \<Rightarrow> bool" where
  "args_only f \<longleftrightarrow> (\<forall>r. op_id (f r) = op_id r \<and> op_epoch (f r) = op_epoch r \<and> op_entry (f r) = op_entry r
     \<and> op_exit (f r) = op_exit r \<and> op_thread (f r) = op_thread r \<and> op_handle (f r) = op_handle r
     \<and> op_completed (f r) = op_completed r \<and> op_kind (f r) = op_kind r)"

lemma shape_args:
  assumes shape: "shape j" and k: "k < length (sj_ops j)" and f: "args_only f"
  shows "shape (update_op k f j)"
proof -
  let ?r = "sj_ops j ! k"
  note fr = f [unfolded args_only_def, THEN spec, of ?r]
  have cnt: "length (filter P ((sj_ops j)[k := f ?r])) = length (filter P (sj_ops j))" if "P (f ?r) = P ?r" for P
    using length_filter_update [OF k, of P "f ?r"] that by (simp split: if_splits)
  have "open_ops ((sj_ops j)[k := f ?r]) e = open_ops (sj_ops j) e" for e
    unfolding open_ops_def by (rule cnt) (simp add: fr)
  moreover have "length (filter op_completed ((sj_ops j)[k := f ?r])) = length (filter op_completed (sj_ops j))"
    by (rule cnt) (simp add: fr)
  moreover have "length (filter (\<lambda>r. \<not> op_completed r) ((sj_ops j)[k := f ?r]))
      = length (filter (\<lambda>r. \<not> op_completed r) (sj_ops j))"
    by (rule cnt) (simp add: fr)
  moreover have "\<forall>i < length (sj_ops j). op_id ((sj_ops j)[k := f ?r] ! i) = op_id (sj_ops j ! i)
      \<and> op_epoch ((sj_ops j)[k := f ?r] ! i) = op_epoch (sj_ops j ! i)
      \<and> op_completed ((sj_ops j)[k := f ?r] ! i) = op_completed (sj_ops j ! i)
      \<and> op_exit ((sj_ops j)[k := f ?r] ! i) = op_exit (sj_ops j ! i)"
    using k fr by (auto simp: nth_list_update)
  ultimately show ?thesis using shape by (simp add: shape_def update_op_def)
qed

lemma good_args_update:
  assumes k: "k < length (sj_ops j)" and f: "args_only f" and good: "good_rows j"
    and others: "\<forall>i < length (sj_ops j). i \<noteq> k \<longrightarrow> good_args (epoch_of j (sj_ops j ! i)) (sj_ops j ! i)"
    and new: "good_args (epoch_of j (sj_ops j ! k)) (f (sj_ops j ! k))"
  shows "good_rows (update_op k f j) \<and> good_arguments (update_op k f j)"
proof -
  let ?r = "sj_ops j ! k" and ?j = "update_op k f j"
  note fr = f [unfolded args_only_def, THEN spec, of ?r]
  have ops: "sj_ops ?j = (sj_ops j)[k := f ?r]" and rest: "sj_epochs ?j = sj_epochs j" "sj_window ?j = sj_window j"
    by (simp_all add: update_op_def)
  have ep: "epoch_of ?j r = epoch_of j r" for r by (simp add: epoch_of_def rest)
  have eq: "epoch_of j (f ?r) = epoch_of j ?r" by (simp add: epoch_of_def fr)
  have t: "good_times w e (f ?r) = good_times w e ?r" for w e by (simp add: good_times_def fr)
  have "\<forall>i < length (sj_ops j). good_times (sj_window j) (epoch_of j (sj_ops j ! i)) (sj_ops j ! i)"
    using good by (simp add: good_rows_def)
  then have "\<forall>r \<in> set (sj_ops ?j). good_times (sj_window j) (epoch_of j r) r"
    using k t eq by (auto simp: ops in_set_conv_nth nth_list_update)
  moreover have "\<forall>r \<in> set (sj_ops ?j). good_args (epoch_of j r) r"
    using k new others eq by (auto simp: ops in_set_conv_nth nth_list_update)
  ultimately show ?thesis
    using good by (simp add: good_rows_def good_arguments_def rest ep)
qed

subsection \<open>The invariant of all calls\<close>

definition cut_ok :: "sem_journal \<Rightarrow> bool" where
  "cut_ok j \<longleftrightarrow> (sj_cut j = None \<longleftrightarrow> \<not> sj_stopped j) \<and> (sj_stopped j \<longrightarrow> sj_enabled j)
     \<and> (\<not> sj_stopped j \<longrightarrow> cut_state j = (False, False))
     \<and> (sj_stopped j \<and> \<not> fst (cut_state j) \<longrightarrow> (snd (cut_state j) \<longleftrightarrow> sj_pending j \<noteq> 0))
     \<and> (sj_stopped j \<and> clean j \<longrightarrow> (\<forall>q. sj_cut j = Some q \<longrightarrow> sem_valid_clock q \<and> sw_end (sj_window j) \<le> q))"

definition sem_inv :: "sem_journal \<Rightarrow> bool" where
  "sem_inv j \<longleftrightarrow> shape j \<and> cut_ok j
     \<and> (clean j \<longrightarrow> good_rows j \<and> good_arguments j \<and> sc_overflow (sj_counts j) = 0)"

text \<open>Any call other than a stop leaves the cut alone, and marks a stopped journal as mutated.\<close>

lemma cut_ok_call:
  assumes "cut_ok j" "cut_state j' = cut_state (note_mutation j)" "sj_cut j' = sj_cut j"
    "sj_stopped j' = sj_stopped j" "sj_enabled j' = sj_enabled j" "sj_window j' = sj_window j"
    "clean j' \<Longrightarrow> clean j"
  shows "cut_ok j'"
proof (cases "sj_stopped j")
  case True
  then have "fst (cut_state (note_mutation j))"
    using assms(1) by (simp add: cut_ok_def cut_state_def note_mutation_def)
  with True assms show ?thesis by (auto simp: cut_ok_def)
next
  case False
  then have "note_mutation j = j" by (simp add: note_mutation_def)
  with False assms show ?thesis by (auto simp: cut_ok_def)
qed

lemma note_mutation_core:
  "core_of (note_mutation j) = core_of j" "clean (note_mutation j) = clean j"
  by simp_all

lemma sem_inv_refused:
  assumes "sem_inv j" "core_of j' = core_of j" "cut_state j' = cut_state (note_mutation j)" "clean j' \<Longrightarrow> clean j"
  shows "sem_inv j'"
  using assms shape_core [OF assms(2)] good_core [OF assms(2)] core_fields [OF assms(2)]
    cut_ok_call [of j j']
  by (simp add: sem_inv_def)

subsection \<open>Each call keeps the invariant\<close>

lemma create_inv:
  assumes inv: "sem_inv j"
  shows "sem_inv (fst (create j cookie qpc initial maximum orig))"
proof (cases rule: create_cases [of j cookie qpc initial maximum orig])
  case refused
  then show ?thesis by (rule sem_inv_refused [OF inv])
next
  case (created row j')
  have shape: "shape j" using inv by (simp add: sem_inv_def)
  note cf = core_fields [OF created(2), simplified]
  have room: "length (sj_epochs j) < 64" using created(5) shapeD(1) [OF shape] by simp
  have sh: "shape j'"
    by (rule shape_created [OF shape created(2) room]) (simp_all add: created(6))
  have cut: "cut_ok j'"
  proof (rule cut_ok_call [of j])
    show "cut_ok j" using inv by (simp only: sem_inv_def)
  qed (simp_all add: cf created(3), use created(11) in blast)
  have "good_rows j' \<and> good_arguments j' \<and> sc_overflow (sj_counts j') = 0" if c: "clean j'"
  proof -
    note cl = created(11) [OF c]
    have g: "good_rows j" "good_arguments j" "sc_overflow (sj_counts j) = 0"
      using inv cl by (simp_all add: sem_inv_def)
    have ep: "epoch_of j' r = epoch_of j r" if "r \<in> set (sj_ops j)" for r
      using epoch_of_index [OF shape that] by (metis cf(11) epoch_of_def nth_append)
    have "good_epoch (sj_window j') row"
      using cl created(7-10) by (simp add: created(6) good_epoch_def cf(2))
    then show ?thesis
      using g ep by (auto simp: good_rows_def good_arguments_def cf)
  qed
  with sh cut show ?thesis unfolding created(1) sem_inv_def by blast
qed

lemma destroy_inv:
  assumes inv: "sem_inv j"
  shows "sem_inv (fst (destroy j cookie qpc))"
proof -
  have shape: "shape j" using inv by (simp add: sem_inv_def)
  show ?thesis
    using shape
  proof (cases rule: destroy_cases [of j cookie qpc])
    case refused
    then show "sem_inv (fst (destroy j cookie qpc))" by (rule sem_inv_refused [OF inv])
  next
    case (destroyed e c j')
    note cf = core_fields [OF destroyed(5), simplified]
    have sh: "shape j'" by (rule shape_destroyed [OF shape destroyed(2,5)])
    have cut: "cut_ok j'"
    proof (rule cut_ok_call [of j])
      show "cut_ok j" using inv by (simp only: sem_inv_def)
    qed (simp_all add: cf destroyed(6), use destroyed(7) in blast)
    have "good_rows j' \<and> good_arguments j' \<and> sc_overflow (sj_counts j') = 0" if cl: "clean j'"
    proof -
      note d = destroyed(7) [OF cl]
      have g: "good_rows j" "good_arguments j" "sc_overflow (sj_counts j) = 0"
        using inv d by (simp_all add: sem_inv_def)
      let ?y = "(sj_epochs j ! e)\<lparr>ep_destroy := Some qpc, ep_complete := c\<rparr>"
      have "good_epoch (sj_window j) (sj_epochs j ! e)" using g destroyed(2) by (simp add: good_rows_def)
      then have "good_epoch (sj_window j) ?y" using d by (simp add: good_epoch_def)
      then have eps: "\<forall>a \<in> set (sj_epochs j'). good_epoch (sj_window j') a"
        using g set_update_subset_insert [of "sj_epochs j" e ?y] by (auto simp: good_rows_def cf)
      have ops: "good_times (sj_window j) (epoch_of j' r) r \<and> good_args (epoch_of j' r) r"
        if r: "r \<in> set (sj_ops j)" for r
      proof -
        obtain i where i: "i < length (sj_epochs j)" "op_epoch r = of_nat i + 1" "epoch_of j r = sj_epochs j ! i"
          "unat (op_epoch r - 1) = i" using epoch_of_index [OF shape r] by blast
        have t: "good_times (sj_window j) (sj_epochs j ! i) r" "good_args (sj_epochs j ! i) r"
          using g r i(3) by (auto simp: good_rows_def good_arguments_def)
        show ?thesis
        proof (cases "i = e")
          case False
          then show ?thesis using t by (simp add: epoch_of_def i(4) cf)
        next
          case True
          have "unat (ep_pending (sj_epochs j ! e)) = open_ops (sj_ops j) (of_nat e + 1)"
            using shape destroyed(2) by (simp add: shape_def)
          then have "open_ops (sj_ops j) (of_nat e + 1) = 0" using d by simp
          then have comp: "op_completed r" using r i(2) True by (auto simp: open_ops_def filter_empty_conv)
          obtain k where k: "k < length (sj_ops j)" "r = sj_ops j ! k" using r by (auto simp: in_set_conv_nth)
          then have "op_exit r \<le> sj_last_exit j ! e" using shape comp i(4) True by (auto simp: shape_def)
          then have "op_exit r < qpc" using d by (auto intro: le_less_trans)
          then show ?thesis
            using t True comp destroyed(2)
            by (simp add: epoch_of_def i(4) cf good_times_def good_args_def)
        qed
      qed
      show ?thesis
        using eps ops g(3) by (simp add: good_rows_def good_arguments_def cf)
    qed
    with sh cut show "sem_inv (fst (destroy j cookie qpc))" unfolding destroyed(1) sem_inv_def by blast
  qed
qed

text \<open>A begin, followed by the rewrite of the new row's arguments and possibly some flags.\<close>

lemma begin_inv:
  assumes inv: "sem_inv j0" and b: "begun (note_mutation j0) j1 e row" and f: "args_only f"
    and core: "core_of j' = core_of (update_op (length (sj_ops j0)) f j1)"
    and cut: "cut_state j' = cut_state j1"
    and cl: "clean j' \<Longrightarrow> clean j1 \<and> good_args (epoch_of j1 row) (f row)"
  shows "sem_inv j'"
proof -
  let ?j = "note_mutation j0" and ?k = "length (sj_ops j0)"
  have shape: "shape ?j" using inv shape_core [of ?j j0] by (simp add: sem_inv_def)
  have sh1: "shape j1" by (rule shape_begun [OF shape b])
  note d = begunD [OF b]
  have k: "?k < length (sj_ops j1)" "sj_ops j1 ! ?k = row" by (simp_all add: d(7))
  have sh: "shape j'" using shape_core [OF core] shape_args [OF sh1 k(1) f] by simp
  note cf = core_fields [OF core, unfolded update_op_def, simplified]
  have cut': "cut_ok j'"
  proof (rule cut_ok_call [of j0])
    show "cut_ok j0" using inv by (simp only: sem_inv_def)
  qed (simp_all add: cf cut d(12,14,16-18), use d(21) cl in auto)
  have "good_rows j' \<and> good_arguments j' \<and> sc_overflow (sj_counts j') = 0" if c: "clean j'"
  proof -
    have c1: "clean j1" and new: "good_args (epoch_of j1 row) (f row)" using cl [OF c] by simp_all
    have c0: "clean j0" using d(21) [OF c1] by simp
    have g: "good_rows ?j" "good_arguments ?j" "sc_overflow (sj_counts ?j) = 0"
      using inv c0 good_core [of ?j j0] by (simp_all add: sem_inv_def)
    note gb = good_begun [OF shape b c1 g(1)]
    have "good_rows (update_op ?k f j1) \<and> good_arguments (update_op ?k f j1)"
      by (rule good_args_update [OF k(1) f gb(1)])
        (use gb(2) [OF g(2)] new k in \<open>simp_all add: d(7)\<close>)
    then show ?thesis using good_core [OF core] g(3) by (simp add: cf d(8))
  qed
  with sh cut' show ?thesis unfolding sem_inv_def by blast
qed

lemma overflow_inv:
  assumes inv: "sem_inv j0" and e: "e < length (sj_epochs (note_mutation j0))"
    and n: "length (sj_ops (note_mutation j0)) = kOperationCapacity"
    and obs: "sc_observed (sj_counts (note_mutation j0)) \<noteq> 0xFFFFFFFFFFFFFFFF"
    and core: "core_of j1 = core_of ((note_mutation j0)\<lparr>
         sj_epochs := (sj_epochs (note_mutation j0))[e := (sj_epochs (note_mutation j0) ! e)\<lparr>ep_complete := False\<rparr>],
         sj_counts := (sj_counts (note_mutation j0))\<lparr>sc_observed := sc_observed (sj_counts (note_mutation j0)) + 1,
           sc_overflow := sc_overflow (sj_counts (note_mutation j0)) + 1\<rparr>\<rparr>)"
    and cut: "cut_state j1 = cut_state (note_mutation j0)" and cl: "\<not> clean j1"
  shows "sem_inv j1"
proof -
  have shape: "shape (note_mutation j0)" using inv shape_core [of "note_mutation j0" j0] by (simp add: sem_inv_def)
  have "shape j1" by (rule shape_overflow [OF shape e n obs core])
  moreover have "cut_ok j1"
  proof (rule cut_ok_call [of j0])
    show "cut_ok j0" using inv by (simp only: sem_inv_def)
  qed (simp_all add: core_fields [OF core, simplified] cut cl)
  ultimately show ?thesis using cl by (simp add: sem_inv_def)
qed


text \<open>The same for an end.\<close>

lemma end_inv:
  assumes inv: "sem_inv j0" and fin: "finished (note_mutation j0) j1 k e qpc" and f: "args_only f"
    and core: "core_of j' = core_of (update_op k f j1)"
    and cut: "cut_state j' = cut_state j1"
    and cl: "\<And>ep. clean j' \<Longrightarrow> same_epoch (sj_epochs j0 ! e) ep \<Longrightarrow> good_args ep (sj_ops j0 ! k) \<Longrightarrow>
      clean j1 \<and> good_args ep (f ((sj_ops j0 ! k)\<lparr>op_completed := True, op_exit := qpc\<rparr>))"
    and cl1: "clean j' \<Longrightarrow> clean j1"
  shows "sem_inv j'"
proof -
  let ?j = "note_mutation j0"
  have shape: "shape ?j" using inv shape_core [of ?j j0] by (simp add: sem_inv_def)
  have sh1: "shape j1" by (rule shape_finished [OF shape fin])
  note d = finishedD [OF fin]
  have k: "k < length (sj_ops j1)" "k < length (sj_ops j0)" using d(1) by (simp_all add: d(5))
  have row: "sj_ops j1 ! k = (sj_ops j0 ! k)\<lparr>op_completed := True, op_exit := qpc\<rparr>" using k by (simp add: d(5))
  have sh: "shape j'" using shape_core [OF core] shape_args [OF sh1 k(1) f] by simp
  note cf = core_fields [OF core, unfolded update_op_def, simplified]
  have cut': "cut_ok j'"
  proof (rule cut_ok_call [of j0])
    show "cut_ok j0" using inv by (simp only: sem_inv_def)
  qed (simp_all add: cf cut d(10,12,14-16), use d(17) cl1 in auto)
  have "good_rows j' \<and> good_arguments j' \<and> sc_overflow (sj_counts j') = 0" if c: "clean j'"
  proof -
    have c1: "clean j1" by (rule cl1 [OF c])
    have c0: "clean j0" using d(17) [OF c1] by simp
    have g: "good_rows ?j" "good_arguments ?j" "sc_overflow (sj_counts ?j) = 0"
      using inv c0 good_core [of ?j j0] by (simp_all add: sem_inv_def)
    note gf = good_finished [OF shape fin c1 g(1)]
    have same: "same_epoch (sj_epochs j0 ! e) (epoch_of j1 (sj_ops j1 ! k))" using gf(3) by simp
    have "good_args (epoch_of ?j (sj_ops j0 ! k)) (sj_ops j0 ! k)" using g(2) k(2) by (simp add: good_arguments_def)
    moreover have "epoch_of ?j (sj_ops j0 ! k) = sj_epochs j0 ! e"
      using d(3,4) shapeD(1) [OF shape] by (simp add: epoch_of_def unat_of_nat)
    ultimately have "good_args (epoch_of j1 (sj_ops j1 ! k)) (sj_ops j0 ! k)"
      using same_epoch_good(2) [OF same] by simp
    from cl [OF c same this] have new: "good_args (epoch_of j1 (sj_ops j1 ! k)) (f (sj_ops j1 ! k))"
      by (simp add: row)
    have "good_rows (update_op k f j1) \<and> good_arguments (update_op k f j1)"
      by (rule good_args_update [OF k(1) f gf(1) _ new])
        (use gf(2) [OF g(2)] in \<open>simp add: d(5)\<close>)
    then show ?thesis using good_core [OF core] g(3) by (simp add: cf d(6))
  qed
  with sh cut' show ?thesis unfolding sem_inv_def by blast
qed

lemma update_op_core: "core_of j = core_of j' \<Longrightarrow> core_of (update_op k f j) = core_of (update_op k f j')"
  by (simp add: core_of_def update_op_def)

lemma shape_mutation: "sem_inv j \<Longrightarrow> shape (note_mutation j)"
  using shape_core [of "note_mutation j" j] by (simp add: sem_inv_def)

lemma shape_op:
  assumes "shape j" "k < length (sj_ops j)"
  shows "op_id (sj_ops j ! k) = of_nat k + 1" "op_epoch (sj_ops j ! k) \<noteq> 0"
  using assms by (simp_all add: shape_def)

lemma begun_ticket:
  assumes "shape j" "begun j j' e row"
  shows "unat (op_id row - 1) = length (sj_ops j)" "unat (op_epoch row - 1) = e"
    "ep_id (sj_epochs j ! e) \<noteq> 0" "op_id row \<noteq> 0"
proof -
  note d = begunD [OF assms(2)]
  have sh: "shape j'" by (rule shape_begun [OF assms])
  have "op_id (sj_ops j' ! length (sj_ops j)) = of_nat (length (sj_ops j)) + 1"
    "op_epoch (sj_ops j' ! length (sj_ops j)) \<noteq> 0"
    using shape_op [OF sh, of "length (sj_ops j)"] by (simp_all add: d(7))
  then have id: "op_id row = of_nat (length (sj_ops j)) + 1" and ep: "op_epoch row \<noteq> 0" by (simp_all add: d(7))
  show "unat (op_id row - 1) = length (sj_ops j)" using id d(3) by (simp add: unat_of_nat)
  show "unat (op_epoch row - 1) = e"
    using d(1,5) assms(1) shapeD(1) [OF assms(1)] by (simp add: shape_def unat_of_nat)
  show "ep_id (sj_epochs j ! e) \<noteq> 0" using ep d(5) by simp
  have "unat (op_id row) = length (sj_ops j) + 1"
    unfolding id using d(3) by (subst unat_succ) (simp_all add: unat_of_nat)
  then show "op_id row \<noteq> 0" by force
qed


lemma sem_begin_inv:
  fixes cookie tid handle qpc kind
  defines "r \<equiv> \<lambda>j. sem_begin (note_mutation j) cookie tid handle qpc kind"
  assumes inv: "sem_inv j"
    and refused: "\<not> ticket_valid (snd (snd (r j))) \<Longrightarrow> result = fst (r j)"
    and begun: "\<And>row j1. ticket_valid (snd (snd (r j))) \<Longrightarrow> j1 = fst (r j) \<Longrightarrow>
       unat (ti_op (snd (snd (r j))) - 1) = length (sj_ops j) \<Longrightarrow>
       op_kind row = kind \<Longrightarrow> op_completed row = False \<Longrightarrow>
       \<exists>f. args_only f \<and> core_of result = core_of (update_op (length (sj_ops j)) f j1)
         \<and> cut_state result = cut_state j1 \<and> (clean result \<longrightarrow> clean j1 \<and> (\<forall>ep. good_args ep (f row)))"
  shows "sem_inv result"
  using shape_mutation [OF inv]
proof (cases rule: sem_begin_cases [of "note_mutation j" cookie tid handle qpc kind])
  case 1: refused
  have res: "result = fst (r j)" using refused 1(3) by (simp add: r_def)
  show "sem_inv result"
    unfolding res r_def by (rule sem_inv_refused [OF inv]) (use 1 in simp_all)
next
  case (overflow e j1)
  have "result = j1" using refused overflow(1) by (simp add: r_def ticket_valid_def no_ticket_def)
  then show "sem_inv result"
    using overflow_inv [OF inv overflow(3,4,6,5,8,2)] by simp
next
  case 3: (begun e j1)
  note t = begun_ticket [OF shape_mutation [OF inv] 3(1)] and d = begunD [OF 3(1)]
  let ?row = "begin_row ((note_mutation j)\<lparr>sj_counts := (sj_counts (note_mutation j))\<lparr>
         sc_observed := sc_observed (sj_counts (note_mutation j)) + 1\<rparr>\<rparr>) e tid handle qpc kind"
  have id: "op_id ?row = sc_observed (sj_counts j) + 1" by (simp add: begin_row_def no_op_def)
  have valid: "ticket_valid (snd (snd (r j)))"
    using 3(2) t(3,4) d(20) id by (simp add: r_def ticket_valid_def)
  have "unat (ti_op (snd (snd (r j))) - 1) = length (sj_ops j)"
    using t(1) id 3(2) by (simp add: r_def)
  moreover have "j1 = fst (r j)" using 3(2) by (simp add: r_def)
  ultimately obtain f where "args_only f" "core_of result = core_of (update_op (length (sj_ops j)) f j1)"
      "cut_state result = cut_state j1" "clean result \<Longrightarrow> clean j1 \<and> (\<forall>ep. good_args ep (f ?row))"
    using begun [OF valid, of j1 ?row] by (auto simp: begin_row_def no_op_def)
  then show "sem_inv result"
    by (intro begin_inv [OF inv 3(1)]) auto
qed

lemma begin_release_inv:
  assumes inv: "sem_inv j"
  shows "sem_inv (fst (begin_release j cookie tid handle qpc count context))"
proof (rule sem_begin_inv [OF inv, of cookie tid handle qpc Release])
  let ?r = "sem_begin (note_mutation j) cookie tid handle qpc Release"
  let ?res = "fst (begin_release j cookie tid handle qpc count context)"
  show "\<not> ticket_valid (snd (snd ?r)) \<Longrightarrow> ?res = fst ?r"
    by (cases ?r) (simp add: begin_release_def)
  fix row :: sem_op and j1
  assume t: "ticket_valid (snd (snd ?r))" "j1 = fst ?r" "unat (ti_op (snd (snd ?r)) - 1) = length (sj_ops j)"
    and row: "op_kind row = Release" "op_completed row = False"
  let ?f = "\<lambda>r. r\<lparr>op_count := count, op_context := context\<rparr>"
  have res: "?res = (if count = 0 \<or> count > kMaxCount \<or> context_name (rc_kind context) = []
              \<or> (if rc_kind context = ContextUpdate then \<not> id_valid (rc_generation context)
                 else rc_generation context \<noteq> no_id)
           then reject_argument (update_op (length (sj_ops j)) ?f j1) else update_op (length (sj_ops j)) ?f j1)"
    using t by (cases ?r) (simp add: begin_release_def Let_def)
  have "args_only ?f" by (simp add: args_only_def)
  moreover have "core_of ?res = core_of (update_op (length (sj_ops j)) ?f j1)" "cut_state ?res = cut_state j1"
    by (simp_all add: res)
  moreover have "clean ?res \<longrightarrow> clean j1 \<and> (\<forall>ep. good_args ep (?f row))"
    using row by (auto simp: res good_args_def good_release_def not_less split: if_splits)
  ultimately show "\<exists>f. args_only f \<and> core_of ?res = core_of (update_op (length (sj_ops j)) f j1)
         \<and> cut_state ?res = cut_state j1 \<and> (clean ?res \<longrightarrow> clean j1 \<and> (\<forall>ep. good_args ep (f row)))"
    by blast
qed

lemma begin_wait_inv:
  assumes inv: "sem_inv j"
  shows "sem_inv (fst (begin_wait j cookie tid handle qpc timeout))"
proof (rule sem_begin_inv [OF inv, of cookie tid handle qpc Wait])
  let ?r = "sem_begin (note_mutation j) cookie tid handle qpc Wait"
  let ?res = "fst (begin_wait j cookie tid handle qpc timeout)"
  show "\<not> ticket_valid (snd (snd ?r)) \<Longrightarrow> ?res = fst ?r"
    by (cases ?r) (simp add: begin_wait_def)
  fix row :: sem_op and j1
  assume t: "ticket_valid (snd (snd ?r))" "j1 = fst ?r" "unat (ti_op (snd (snd ?r)) - 1) = length (sj_ops j)"
    and row: "op_kind row = Wait" "op_completed row = False"
  let ?f = "\<lambda>r. r\<lparr>op_timeout := timeout\<rparr>"
  have res: "?res = (if timeout_name timeout = []
           then reject_argument (update_op (length (sj_ops j)) ?f j1) else update_op (length (sj_ops j)) ?f j1)"
    using t by (cases ?r) (simp add: begin_wait_def Let_def)
  have "args_only ?f" by (simp add: args_only_def)
  moreover have "core_of ?res = core_of (update_op (length (sj_ops j)) ?f j1)" "cut_state ?res = cut_state j1"
    by (simp_all add: res)
  moreover have "clean ?res \<longrightarrow> clean j1 \<and> (\<forall>ep. good_args ep (?f row))"
    using row by (auto simp: res good_args_def split: if_splits)
  ultimately show "\<exists>f. args_only f \<and> core_of ?res = core_of (update_op (length (sj_ops j)) f j1)
         \<and> cut_state ?res = cut_state j1 \<and> (clean ?res \<longrightarrow> clean j1 \<and> (\<forall>ep. good_args ep (f row)))"
    by blast
qed

text \<open>An unsupported begin also withdraws its epoch's completeness, under the unsupported flag.\<close>

lemma shape_incomplete: "shape j \<Longrightarrow> e < length (sj_epochs j) \<Longrightarrow>
    shape (sem_mark i (update_epoch e (\<lambda>r. r\<lparr>ep_complete := False\<rparr>) j))"
  by (auto simp: shape_def update_epoch_def sem_mark_def nth_list_update)

lemma begin_unsupported_inv:
  assumes inv: "sem_inv j"
  shows "sem_inv (fst (begin_unsupported j cookie tid handle qpc kind))"
proof -
  let ?jn = "note_mutation j"
  let ?res = "fst (begin_unsupported j cookie tid handle qpc kind)"
  consider "?res = ?jn" | "?res = reject_argument ?jn"
    | "begin_unsupported j cookie tid handle qpc kind =
        (case sem_begin ?jn cookie tid handle qpc kind of (j1, d, t) \<Rightarrow>
          if ticket_valid t
          then (sem_mark Unsupported (update_epoch (unat (ti_epoch t - 1)) (\<lambda>r. r\<lparr>ep_complete := False\<rparr>) j1), d, t)
          else (j1, d, t))"
  proof (cases "sj_enabled ?jn \<and> \<not> (kind_name kind = [] \<or> kind = Release \<or> kind = Wait)")
    case True
    then show ?thesis by (intro that(3)) (simp add: begin_unsupported_def Let_def)
  next
    case False
    then show ?thesis
      by (cases "sj_enabled ?jn") (rule that(2), simp add: begin_unsupported_def Let_def,
        rule that(1), simp add: begin_unsupported_def Let_def)
  qed
  then show ?thesis
  proof cases
    case 1
    show ?thesis unfolding 1 by (rule sem_inv_refused [OF inv]) simp_all
  next
    case 2
    show ?thesis unfolding 2 by (rule sem_inv_refused [OF inv]) simp_all
  next
    case def: 3
    show ?thesis
      using shape_mutation [OF inv]
    proof (cases rule: sem_begin_cases [of ?jn cookie tid handle qpc kind])
      case 1: refused
      have res: "?res = fst (sem_begin ?jn cookie tid handle qpc kind)"
        using 1(3) by (cases "sem_begin ?jn cookie tid handle qpc kind") (simp add: def)
      show "sem_inv ?res"
        unfolding res by (rule sem_inv_refused [OF inv]) (use 1 in simp_all)
    next
      case (overflow e j1)
      have "?res = j1" using overflow(1) by (simp add: def ticket_valid_def no_ticket_def)
      then show "sem_inv ?res"
        using overflow_inv [OF inv overflow(3,4,6,5,8,2)] by simp
    next
      case 3: (begun e j1)
      note t = begun_ticket [OF shape_mutation [OF inv] 3(1)] and d = begunD [OF 3(1)]
      have sh1: "shape j1" by (rule shape_begun [OF shape_mutation [OF inv] 3(1)])
      obtain c where "sj_epochs j1 = (sj_epochs ?jn)[e := c]" using begun_epochs [OF 3(1)] by metis
      then have e: "e < length (sj_epochs j1)" using d(1) by simp
      have "ticket_valid \<lparr>ti_owner = Some (sj_self ?jn), ti_generation = sj_generation ?jn,
          ti_op = sc_observed (sj_counts ?jn) + 1, ti_epoch = ep_id (sj_epochs ?jn ! e)\<rparr>"
        using t(3,4) d(4,20) by (simp add: ticket_valid_def)
      moreover have "unat (ep_id (sj_epochs ?jn ! e) - 1) = e" using t(2) d(5) by simp
      ultimately have res: "?res = sem_mark Unsupported (update_epoch e (\<lambda>r. r\<lparr>ep_complete := False\<rparr>) j1)"
        by (simp add: def 3(2))
      have "cut_ok ?res"
      proof (rule cut_ok_call [of j])
        show "cut_ok j" using inv by (simp only: sem_inv_def)
      qed (simp_all add: res update_epoch_def d(12,14,16-18))
      then show "sem_inv ?res"
        unfolding sem_inv_def res using shape_incomplete [OF sh1 e] by simp
    qed
  qed
qed

lemma end_release_inv:
  assumes inv: "sem_inv j"
  shows "sem_inv (fst (end_release j t qpc success previous))"
proof (cases "sj_enabled (note_mutation j)")
  case False
  then have "fst (end_release j t qpc success previous) = note_mutation j" by (simp add: end_release_def Let_def)
  then show ?thesis using sem_inv_refused [OF inv, of "note_mutation j"] by simp
next
  case True
  let ?res = "fst (end_release j t qpc success previous)"
  show ?thesis
    using shape_mutation [OF inv]
  proof (cases rule: completion_cases [of "note_mutation j" t qpc Release])
    case (rejected j')
    have "?res = j'" using True rejected(1) by (simp add: end_release_def)
    then show "sem_inv ?res" using sem_inv_refused [OF inv, of j'] rejected by simp
  next
    case (completed k e)
    let ?j1 = "close_op (note_mutation j) k qpc"
    let ?f = "\<lambda>r. r\<lparr>op_success := success, op_previous := (if success then previous else None)\<rparr>"
    note d = finishedD [OF completed(3)]
    define maximum where "maximum = ep_maximum (sj_epochs (update_op k ?f ?j1) ! unat (op_epoch (sj_ops (update_op k ?f ?j1) ! k) - 1))"
    obtain c where ep: "sj_epochs ?j1 = (sj_epochs (note_mutation j))[e := (sj_epochs (note_mutation j) ! e)\<lparr>
        ep_pending := ep_pending (sj_epochs (note_mutation j) ! e) - 1, ep_complete := c\<rparr>]"
      using finished_epochs [OF completed(3)] by blast
    have mx: "maximum = ep_maximum (sj_epochs j ! e)"
      using d(1,3,4) shapeD(1) [OF shape_mutation [OF inv]]
      by (simp add: maximum_def update_op_def ep d(5) unat_of_nat)
    have res: "?res = (if success \<and> (case previous of None \<Rightarrow> True | Some p \<Rightarrow> sint p < 0 \<or> p > maximum)
           then reject_argument (update_op k ?f ?j1) else update_op k ?f ?j1)"
      unfolding end_release_def Let_def maximum_def using True completed(1) by simp
    show "sem_inv ?res"
    proof (rule end_inv [OF inv completed(3), of ?f])
      show "args_only ?f" by (simp add: args_only_def)
      show "core_of ?res = core_of (update_op k ?f ?j1)" "cut_state ?res = cut_state ?j1"
        by (simp_all add: res)
      show "clean ?res \<Longrightarrow> clean ?j1" by (simp add: res split: if_splits)
      fix ep
      assume c: "clean ?res" "same_epoch (sj_epochs j ! e) ep" "good_args ep (sj_ops j ! k)"
      have m: "ep_maximum ep = maximum" using c(2) by (simp add: same_epoch_def mx)
      have ok: "success \<longrightarrow> (\<exists>p. previous = Some p \<and> 0 \<le> sint p \<and> p \<le> ep_maximum ep)"
        using c(1) m by (auto simp: res not_less split: if_splits option.splits)
      have cl1: "clean ?j1" using c(1) by (simp add: res split: if_splits)
      have "op_kind (sj_ops j ! k) = Release" using completed(4) by simp
      with c(3) ok have "good_args ep (?f ((sj_ops j ! k)\<lparr>op_completed := True, op_exit := qpc\<rparr>))"
        by (simp add: good_args_def good_release_def)
      with cl1 show "clean ?j1 \<and> good_args ep (?f ((sj_ops j ! k)\<lparr>op_completed := True, op_exit := qpc\<rparr>))" by blast
    qed
  qed
qed

lemma end_wait_inv:
  assumes inv: "sem_inv j"
  shows "sem_inv (fst (end_wait j t qpc r))"
proof (cases "sj_enabled (note_mutation j)")
  case False
  then have "fst (end_wait j t qpc r) = note_mutation j" by (simp add: end_wait_def Let_def)
  then show ?thesis using sem_inv_refused [OF inv, of "note_mutation j"] by simp
next
  case True
  let ?res = "fst (end_wait j t qpc r)"
  show ?thesis
    using shape_mutation [OF inv]
  proof (cases rule: completion_cases [of "note_mutation j" t qpc Wait])
    case (rejected j')
    have "?res = j'" using True rejected(1) by (simp add: end_wait_def)
    then show "sem_inv ?res" using sem_inv_refused [OF inv, of j'] rejected by simp
  next
    case (completed k e)
    let ?j1 = "close_op (note_mutation j) k qpc" and ?f = "\<lambda>row. row\<lparr>op_wait := r\<rparr>"
    have res: "?res = (let j2 = (if wait_name r = [] then reject_argument (update_op k ?f ?j1) else update_op k ?f ?j1) in
        if r = WaitAbandoned \<or> r = WaitFailed \<or> r = WaitUnknown then sem_mark Unsupported j2 else j2)"
      using True completed(1) by (simp add: end_wait_def Let_def)
    show "sem_inv ?res"
    proof (rule end_inv [OF inv completed(3), of ?f])
      show "args_only ?f" by (simp add: args_only_def)
      show "core_of ?res = core_of (update_op k ?f ?j1)" "cut_state ?res = cut_state ?j1"
        by (simp_all add: res Let_def)
      show "clean ?res \<Longrightarrow> clean ?j1" by (simp add: res Let_def split: if_splits)
      fix ep
      assume c: "clean ?res" "same_epoch (sj_epochs j ! e) ep" "good_args ep (sj_ops j ! k)"
      have "clean ?j1" using c(1) by (simp add: res Let_def split: if_splits)
      moreover have "r \<in> {WaitSuccess, WaitTimeout, WaitApc, WaitAlerted}"
      proof (cases "wait_name r = [] \<or> r = WaitAbandoned \<or> r = WaitFailed \<or> r = WaitUnknown")
        case True
        then have "\<not> clean ?res" by (auto simp: res Let_def)
        with c(1) show ?thesis by simp
      next
        case False
        then show ?thesis by (cases r) simp_all
      qed
      moreover have "op_kind (sj_ops j ! k) = Wait" using completed(4) by simp
      ultimately show "clean ?j1 \<and> good_args ep (?f ((sj_ops j ! k)\<lparr>op_completed := True, op_exit := qpc\<rparr>))"
        using c(3) by (simp add: good_args_def)
    qed
  qed
qed


lemma end_unsupported_inv:
  assumes inv: "sem_inv j"
  shows "sem_inv (fst (end_unsupported j t qpc))"
proof -
  let ?jn = "note_mutation j" and ?res = "fst (end_unsupported j t qpc)"
  define kind where "kind = op_kind (sj_ops ?jn ! unat (ti_op t - 1))"
  consider "?res = ?jn" | "?res = sem_mark CompletionMismatch ?jn"
    | "?res = fst (completion ?jn t qpc kind)" "kind \<noteq> Release" "kind \<noteq> Wait"
  proof (cases "sj_enabled ?jn")
    case False
    then show ?thesis by (intro that(1)) (simp add: end_unsupported_def Let_def)
  next
    case en: True
    show ?thesis
    proof (cases "\<not> owns ?jn t \<or> kind = Release \<or> kind = Wait")
      case True
      with en show ?thesis by (intro that(2)) (simp add: end_unsupported_def Let_def kind_def)
    next
      case False
      have "?res = fst (completion ?jn t qpc kind)"
        using en False by (cases "completion ?jn t qpc kind"; cases "snd (completion ?jn t qpc kind)")
          (simp_all add: end_unsupported_def Let_def kind_def)
      with False show ?thesis by (intro that(3)) simp_all
    qed
  qed
  then show ?thesis
  proof cases
    case 1
    show ?thesis unfolding 1 by (rule sem_inv_refused [OF inv]) simp_all
  next
    case 2
    show ?thesis unfolding 2 by (rule sem_inv_refused [OF inv]) simp_all
  next
    case un: 3
    show ?thesis
      using shape_mutation [OF inv]
    proof (cases rule: completion_cases [of ?jn t qpc kind])
      case (rejected j')
      then show "sem_inv ?res" using sem_inv_refused [OF inv, of j'] un(1) by simp
    next
      case (completed k e)
      have res: "?res = close_op ?jn k qpc" using un(1) completed(1) by simp
      have nop: "update_op k (\<lambda>r. r) x = x" for x by (simp add: update_op_def)
      show "sem_inv ?res"
      proof (rule end_inv [OF inv completed(3), of "\<lambda>r. r"])
        fix ep
        assume "good_args ep (sj_ops j ! k)"
        then show "clean (close_op ?jn k qpc) \<and> good_args ep ((sj_ops j ! k)\<lparr>op_completed := True, op_exit := qpc\<rparr>)"
          using un completed(4) by (simp add: good_args_def)
      qed (simp_all add: res nop args_only_def)
    qed
  qed
qed

lemma sem_fail_inv: "sem_inv j \<Longrightarrow> sem_inv (sem_fail j)"
  by (rule sem_inv_refused [of j]) (simp_all add: sem_fail_def Let_def split: if_splits)

lemma sem_stop_inv:
  assumes inv: "sem_inv j"
  shows "sem_inv (sem_stop j qpc)"
proof (cases "\<not> sj_enabled j \<or> sj_stopped j")
  case True
  with inv show ?thesis by (simp add: sem_stop_def)
next
  case False
  let ?j1 = "j\<lparr>sj_stopped := True, sj_cut := Some qpc\<rparr>"
  have res: "sem_stop j qpc = (let
        j2 = (if \<not> sem_valid_clock qpc then sem_mark IssueInvalidClock ?j1 else ?j1);
        j3 = (if qpc < sw_end (sj_window j2) then sem_mark EarlyCut j2 else j2) in
        if sj_pending j3 \<noteq> 0 then sem_mark IncompleteCut j3 else j3)"
    using False by (simp add: sem_stop_def Let_def)
  have core: "core_of (sem_stop j qpc) = core_of ?j1" by (simp add: res Let_def)
  note cf = core_fields [OF core, simplified]
  have "shape ?j1 = shape j" by (simp add: shape_def)
  then have sh: "shape (sem_stop j qpc)" using inv shape_core [OF core] by (simp add: sem_inv_def)
  have c1: "clean ?j1 = clean j" by (simp add: clean_def)
  have cl: "clean (sem_stop j qpc) \<Longrightarrow> clean j \<and> sem_valid_clock qpc \<and> sw_end (sj_window j) \<le> qpc"
    by (auto simp: res Let_def c1 not_less split: if_splits)
  have ct0: "cut_state ?j1 = (False, False)" using inv False by (simp add: sem_inv_def cut_ok_def cut_state_def)
  have mark: "cut_state (sem_mark IncompleteCut x) = (fst (cut_state x), True)" for x
    by (simp add: cut_state_def sem_mark_def)
  have ct: "cut_state (sem_stop j qpc) = (False, sj_pending j \<noteq> 0)"
    by (simp add: res Let_def mark ct0)
  have cut: "cut_ok (sem_stop j qpc)"
    using False ct cl by (auto simp: cut_ok_def cf)
  have rows: "good_rows ?j1 = good_rows j" "good_arguments ?j1 = good_arguments j"
    by (simp_all add: good_rows_def good_arguments_def epoch_of_def)
  show ?thesis
    using sh cut cl inv good_core [OF core] rows by (auto simp: sem_inv_def cf)
qed

subsection \<open>Call sequences\<close>

datatype sem_call =
    SemCreate u64 u64 u32 u32 origin
  | SemDestroy u64 u64
  | SemBeginRelease u64 u32 "u32 option" u64 u32 release_context
  | SemBeginWait u64 u32 "u32 option" u64 timeout_kind
  | SemBeginUnsupported u64 u32 "u32 option" u64 sem_kind
  | SemEndRelease ticket u64 bool "32 word option"
  | SemEndWait ticket u64 wait_result
  | SemEndUnsupported ticket u64
  | SemFail
  | SemStop u64

fun sem_step :: "sem_journal \<Rightarrow> sem_call \<Rightarrow> sem_journal" where
  "sem_step j (SemCreate c q i m og) = fst (create j c q i m og)"
| "sem_step j (SemDestroy c q) = fst (destroy j c q)"
| "sem_step j (SemBeginRelease c t h q n x) = fst (begin_release j c t h q n x)"
| "sem_step j (SemBeginWait c t h q x) = fst (begin_wait j c t h q x)"
| "sem_step j (SemBeginUnsupported c t h q k) = fst (begin_unsupported j c t h q k)"
| "sem_step j (SemEndRelease t q s p) = fst (end_release j t q s p)"
| "sem_step j (SemEndWait t q r) = fst (end_wait j t q r)"
| "sem_step j (SemEndUnsupported t q) = fst (end_unsupported j t q)"
| "sem_step j SemFail = sem_fail j"
| "sem_step j (SemStop q) = sem_stop j q"

lemmas sem_call_invs = create_inv destroy_inv begin_release_inv begin_wait_inv begin_unsupported_inv
  end_release_inv end_wait_inv end_unsupported_inv sem_fail_inv sem_stop_inv

lemma sem_step_inv: "sem_inv j \<Longrightarrow> sem_inv (sem_step j c)"
  by (cases c) (simp_all only: sem_step.simps sem_call_invs)

interpretation semaphores: machine sem_step sem_inv
  by unfold_locales (rule sem_step_inv)

lemma sem_inv_new: "sem_inv (new_sem_journal self issued w enabled)"
proof -
  have "good_rows (new_sem_journal self issued w enabled)" "good_arguments (new_sem_journal self issued w enabled)"
    "cut_ok (new_sem_journal self issued w enabled)" "sc_overflow (sj_counts (new_sem_journal self issued w enabled)) = 0"
    by (simp_all add: new_sem_journal_def Let_def good_rows_def good_arguments_def cut_ok_def cut_state_def
        sem_mark_def)
  then show ?thesis using shape_new by (simp add: sem_inv_def)
qed

definition sem_run :: "nat \<Rightarrow> u64 \<Rightarrow> sem_window \<Rightarrow> bool \<Rightarrow> sem_call list \<Rightarrow> sem_journal" where
  "sem_run self issued w enabled cs = run_events sem_step (new_sem_journal self issued w enabled) cs"

lemma sem_run_inv: "sem_inv (sem_run self issued w enabled cs)"
  unfolding sem_run_def by (rule semaphores.inv_run [OF sem_inv_new])

subsection \<open>Completed rows are final\<close>

text \<open>Every call keeps the completed rows as they are and only appends behind them.\<close>

definition rows_kept :: "sem_journal \<Rightarrow> sem_journal \<Rightarrow> bool" where
  "rows_kept j j' \<longleftrightarrow> length (sj_ops j) \<le> length (sj_ops j')
     \<and> (\<forall>k < length (sj_ops j). op_completed (sj_ops j ! k) \<longrightarrow> sj_ops j' ! k = sj_ops j ! k)"

lemma rows_kept_core: "core_of j' = core_of j \<Longrightarrow> rows_kept j j'"
  by (simp add: core_of_def rows_kept_def)

lemma rows_kept_same: "sj_ops j' = sj_ops j \<Longrightarrow> rows_kept j j'"
  by (simp add: rows_kept_def)

lemma rows_kept_begin:
  assumes "begun (note_mutation j) j1 e row" "sj_ops j' = (sj_ops j1)[length (sj_ops j) := r]"
  shows "rows_kept j j'"
  using begunD(7) [OF assms(1)] assms(2) by (simp add: rows_kept_def nth_append)

lemma rows_kept_end:
  assumes "finished (note_mutation j) j1 k e qpc" "sj_ops j' = (sj_ops j1)[k := r]"
  shows "rows_kept j j'"
  using finishedD(1,2,5) [OF assms(1)] assms(2) by (auto simp: rows_kept_def nth_list_update)

lemma rows_kept_sem_begin:
  assumes "sem_inv j"
  obtains (plain) "sj_ops (fst (sem_begin (note_mutation j) cookie tid handle qpc kind)) = sj_ops j"
      "\<not> ticket_valid (snd (snd (sem_begin (note_mutation j) cookie tid handle qpc kind)))"
  | (stored) row where "sj_ops (fst (sem_begin (note_mutation j) cookie tid handle qpc kind)) = sj_ops j @ [row]"
      "unat (ti_op (snd (snd (sem_begin (note_mutation j) cookie tid handle qpc kind))) - 1) = length (sj_ops j)"
  using shape_mutation [OF assms]
proof (cases rule: sem_begin_cases [of "note_mutation j" cookie tid handle qpc kind])
  case refused
  then show thesis using core_fields(12) [OF refused(1)] by (intro plain) simp_all
next
  case (overflow e j1)
  then show thesis
    using core_fields(12) [OF overflow(5)] by (intro plain) (simp_all add: ticket_valid_def no_ticket_def)
next
  case (begun e j1)
  note d = begunD [OF begun(1)] and t = begun_ticket [OF shape_mutation [OF assms] begun(1)]
  show thesis
    by (rule stored) (use begun(2) d(7) t(1) in \<open>simp_all add: begin_row_def no_op_def\<close>)
qed

lemma rows_kept_append: "sj_ops j' = (sj_ops j @ [row])[length (sj_ops j) := r] \<Longrightarrow> rows_kept j j'"
  by (simp add: rows_kept_def nth_append)

lemma rows_kept_step:
  assumes inv: "sem_inv j"
  shows "rows_kept j (sem_step j c)"
proof (cases c)
  case (SemCreate c' q i m og)
  show ?thesis
  proof (cases rule: create_cases [of j c' q i m og])
    case refused
    then show ?thesis by (simp add: SemCreate rows_kept_core)
  next
    case (created row j')
    then show ?thesis using core_fields(12) [OF created(2)] by (simp add: SemCreate rows_kept_same)
  qed
next
  case (SemDestroy c' q)
  have "shape j" using inv by (simp add: sem_inv_def)
  then show ?thesis
  proof (cases rule: destroy_cases [of j c' q])
    case refused
    then show ?thesis by (simp add: SemDestroy rows_kept_core)
  next
    case (destroyed e c j')
    then show ?thesis using core_fields(12) [OF destroyed(5)] by (simp add: SemDestroy rows_kept_same)
  qed
next
  case (SemBeginRelease c' t h q n x)
  show ?thesis
    using inv
  proof (cases rule: rows_kept_sem_begin [of j c' t h q Release])
    case plain
    then show ?thesis
      by (intro rows_kept_same) (cases "sem_begin (note_mutation j) c' t h q Release", simp add: SemBeginRelease begin_release_def)
  next
    case (stored row)
    then show ?thesis
      by (cases "sem_begin (note_mutation j) c' t h q Release")
        (auto simp: SemBeginRelease begin_release_def Let_def update_op_def rows_kept_def nth_append nth_list_update)
  qed
next
  case (SemBeginWait c' t h q x)
  show ?thesis
    using inv
  proof (cases rule: rows_kept_sem_begin [of j c' t h q Wait])
    case plain
    then show ?thesis
      by (intro rows_kept_same) (cases "sem_begin (note_mutation j) c' t h q Wait", simp add: SemBeginWait begin_wait_def)
  next
    case (stored row)
    then show ?thesis
      by (cases "sem_begin (note_mutation j) c' t h q Wait")
        (auto simp: SemBeginWait begin_wait_def Let_def update_op_def rows_kept_def nth_append nth_list_update)
  qed
next
  case (SemBeginUnsupported c' t h q kind)
  show ?thesis
    using inv
  proof (cases rule: rows_kept_sem_begin [of j c' t h q kind])
    case plain
    then show ?thesis
      by (intro rows_kept_same) (cases "sem_begin (note_mutation j) c' t h q kind",
        simp add: SemBeginUnsupported begin_unsupported_def Let_def)
  next
    case (stored row)
    then show ?thesis
      by (cases "sem_begin (note_mutation j) c' t h q kind")
        (auto simp: SemBeginUnsupported begin_unsupported_def Let_def update_epoch_def rows_kept_def nth_append)
  qed
next
  case (SemEndRelease t q s p)
  show ?thesis
    using shape_mutation [OF inv]
  proof (cases rule: completion_cases [of "note_mutation j" t q Release])
    case (rejected j')
    then show ?thesis
      using core_fields(12) [OF rejected(2)]
      by (intro rows_kept_same) (simp add: SemEndRelease end_release_def Let_def)
  next
    case (completed k e)
    then show ?thesis
      using finishedD(1,2,5) [OF completed(3)]
      by (auto simp: SemEndRelease end_release_def Let_def update_op_def rows_kept_def nth_list_update)
  qed
next
  case (SemEndWait t q r)
  show ?thesis
    using shape_mutation [OF inv]
  proof (cases rule: completion_cases [of "note_mutation j" t q Wait])
    case (rejected j')
    then show ?thesis
      using core_fields(12) [OF rejected(2)]
      by (intro rows_kept_same) (simp add: SemEndWait end_wait_def Let_def)
  next
    case (completed k e)
    then show ?thesis
      using finishedD(1,2,5) [OF completed(3)]
      by (auto simp: SemEndWait end_wait_def Let_def update_op_def rows_kept_def nth_list_update)
  qed
next
  case (SemEndUnsupported t q)
  define kind where "kind = op_kind (sj_ops j ! unat (ti_op t - 1))"
  show ?thesis
    using shape_mutation [OF inv]
  proof (cases rule: completion_cases [of "note_mutation j" t q kind])
    case (rejected j')
    then show ?thesis
      using core_fields(12) [OF rejected(2)]
      by (intro rows_kept_same) (simp add: SemEndUnsupported end_unsupported_def Let_def kind_def)
  next
    case (completed k e)
    then show ?thesis
      using finishedD(1,2,5) [OF completed(3)]
      by (auto simp: SemEndUnsupported end_unsupported_def Let_def kind_def rows_kept_def nth_list_update)
  qed
next
  case SemFail
  then show ?thesis by (intro rows_kept_same) (simp add: sem_fail_def Let_def)
next
  case (SemStop q)
  then show ?thesis by (intro rows_kept_same) (simp add: sem_stop_def Let_def)
qed

lemma rows_kept_run: "sem_inv j \<Longrightarrow> rows_kept j (run_events sem_step j cs)"
proof (induction cs arbitrary: j)
  case (Cons c cs)
  then show ?case
    using rows_kept_step [OF Cons.prems, of c] Cons.IH [OF sem_step_inv [OF Cons.prems, of c]]
    by (auto simp: rows_kept_def)
qed (simp add: rows_kept_def)


lemma sem_run_rows:
  fixes self issued w enabled cs
  defines "j \<equiv> sem_run self issued w enabled cs"
  shows "length (sj_epochs j) \<le> kEpochCapacity \<and> length (sj_ops j) \<le> kOperationCapacity
     \<and> (\<forall>k < length (sj_ops j). op_id (sj_ops j ! k) = of_nat k + 1)
     \<and> unat (sc_stored (sj_counts j)) = length (sj_ops j)
     \<and> unat (sc_observed (sj_counts j)) = length (sj_ops j) + unat (sc_overflow (sj_counts j))
     \<and> unat (sc_completed (sj_counts j)) = length (filter op_completed (sj_ops j))
     \<and> unat (sj_pending j) = length (filter (\<lambda>r. \<not> op_completed r) (sj_ops j))
     \<and> (\<forall>i < length (sj_epochs j).
          unat (ep_pending (sj_epochs j ! i)) = open_ops (sj_ops j) (ep_id (sj_epochs j ! i)))"
  using sem_run_inv [of self issued w enabled cs] by (simp add: j_def sem_inv_def shape_def)

subsection \<open>Properties\<close>

text \<open>C26: after every sequence of calls, with any tickets whatsoever, the journal accounts for every
  admitted begin: the rows are numbered in order within the fixed capacities, what is observed is
  stored or counted as overflow, and the completed and pending counters, of the journal and of each
  epoch, are exactly those of the rows.\<close>

theorem semaphore_rows_conserved:
  "let j = sem_run self issued w enabled cs in
     length (sj_epochs j) \<le> kEpochCapacity \<and> length (sj_ops j) \<le> kOperationCapacity
     \<and> map op_id (sj_ops j) = map (\<lambda>k. of_nat k + 1) [0..<length (sj_ops j)]
     \<and> unat (sc_stored (sj_counts j)) = length (sj_ops j)
     \<and> unat (sc_observed (sj_counts j)) = length (sj_ops j) + unat (sc_overflow (sj_counts j))
     \<and> unat (sc_completed (sj_counts j)) = length (filter op_completed (sj_ops j))
     \<and> unat (sj_pending j) = length (filter (\<lambda>r. \<not> op_completed r) (sj_ops j))
     \<and> map (\<lambda>e. unat (ep_pending e)) (sj_epochs j) = map (\<lambda>e. open_ops (sj_ops j) (ep_id e)) (sj_epochs j)"
  unfolding Let_def using sem_run_rows [of self issued w enabled cs]
  by (intro conjI nth_equalityI; elim conjE) (simp_all only: length_map length_upt nth_map nth_upt add_0 diff_zero)

text \<open>C25: a claim of complete history is sound: if it holds after any sequence of calls, the journal was
  stopped at or after the end of its window, every operation it admitted is stored and completed,
  each inside the window, after its object's creation and before its destruction, with well-formed
  arguments and a definite outcome, and every object was created fresh without credits.\<close>

theorem history_complete_sound:
  assumes "history_complete (sem_run self issued w enabled cs)"
  shows "let j = sem_run self issued w enabled cs in
     (\<exists>q. sj_cut j = Some q \<and> sw_end (sj_window j) \<le> q)
     \<and> unat (sc_observed (sj_counts j)) = length (sj_ops j)
     \<and> (\<forall>e \<in> set (sj_epochs j). good_epoch (sj_window j) e)
     \<and> (\<forall>r \<in> set (sj_ops j). op_completed r \<and> good_times (sj_window j) (epoch_of j r) r
          \<and> good_args (epoch_of j r) r)"
proof -
  let ?j = "sem_run self issued w enabled cs"
  have inv: "sem_inv ?j" by (rule sem_run_inv)
  from assms have c: "clean ?j" "sj_stopped ?j" "sj_pending ?j = 0"
    by (simp_all add: history_complete_def clean_def drained_def)
  have shape: "shape ?j" and g: "good_rows ?j" "good_arguments ?j" "sc_overflow (sj_counts ?j) = 0"
    and cut: "cut_ok ?j"
    using inv c(1) by (simp_all add: sem_inv_def)
  have "length (filter (\<lambda>r. \<not> op_completed r) (sj_ops ?j)) = 0" using shapeD(7) [OF shape] c(3) by simp
  then have closed: "\<forall>r \<in> set (sj_ops ?j). op_completed r" by (simp add: filter_empty_conv)
  have "\<exists>q. sj_cut ?j = Some q \<and> sw_end (sj_window ?j) \<le> q"
    using cut c by (cases "sj_cut ?j") (simp_all add: cut_ok_def)
  with closed g shapeD(5) [OF shape] show ?thesis
    by (simp add: Let_def good_rows_def good_arguments_def)
qed

definition example_sem_calls :: "sem_call list" where
  "example_sem_calls = [SemCreate 7 110 0 5 Fresh, SemBeginWait 7 3 (Some 4) 120 TimeoutFinite,
     SemEndWait \<lparr>ti_owner = Some 0, ti_generation = 1, ti_op = 1, ti_epoch = 1\<rparr> 130 WaitSuccess,
     SemStop 200]"

definition example_sem :: sem_journal where
  "example_sem = sem_run 0 0 \<lparr>sw_begin = 100, sw_end = 200, sw_frequency = 10\<rparr> True example_sem_calls"

lemma example_sem_ends: "list_all (\<lambda>j. history_complete j \<and> length (sj_ops j) = 1 \<and> op_completed (sj_ops j ! 0)) [example_sem]"
  by code_simp

theorem history_complete_sound_witness:
  "history_complete example_sem \<and> unat (sc_observed (sj_counts example_sem)) = 1"
proof -
  have h: "history_complete example_sem" "length (sj_ops example_sem) = 1" using example_sem_ends by simp_all
  with history_complete_sound [OF h(1) [unfolded example_sem_def]] h show ?thesis
    by (simp add: Let_def example_sem_def [symmetric])
qed

text \<open>A completed operation is final: no later sequence of calls, with whatever tickets, changes its
  row in any way, so in particular it is never completed twice.\<close>

theorem completed_rows_final:
  assumes "k < length (sj_ops (sem_run self issued w enabled cs))"
    and "op_completed (sj_ops (sem_run self issued w enabled cs) ! k)"
  shows "sj_ops (sem_run self issued w enabled (cs @ ds)) ! k = sj_ops (sem_run self issued w enabled cs) ! k"
  using rows_kept_run [OF sem_run_inv [of self issued w enabled cs], of ds] assms
  by (simp add: rows_kept_def sem_run_def)

theorem completed_rows_final_witness:
  "sj_ops (sem_run 0 0 \<lparr>sw_begin = 100, sw_end = 200, sw_frequency = 10\<rparr> True (example_sem_calls @ [SemFail])) ! 0
     = sj_ops example_sem ! 0"
proof -
  have "0 < length (sj_ops example_sem)" "op_completed (sj_ops example_sem ! 0)"
    using example_sem_ends by simp_all
  then show ?thesis unfolding example_sem_def by (rule completed_rows_final)
qed

end
