(* ===== verification/SemaphoreSnapshot.thy ===== *)
theory SemaphoreSnapshot
  imports SemaphoreJournal
begin

section \<open>Semaphore prefix snapshot (\<open>mcla_semaphore_prefix_snapshot.h\<close>)\<close>

text \<open>
  The offline copy of a stopped semaphore journal, and its two JSON texts. \<open>Capture\<close> is a
  function to an error or a snapshot; a failed allocation is the argument \<open>alloc_ok\<close>. The JSON
  writer is a record of its text and its overflow flag, each of its methods a function on it.
\<close>

subsection \<open>Capture\<close>

definition kMaxJsonBytes :: nat where "kMaxJsonBytes = 32 * 1024 * 1024"

datatype coverage = CoverageUnknown | CompleteThroughFreeze | CoverageOther int

record epoch_coverage =
  ec_epoch :: u64
  ec_cookie :: u64
  ec_creation :: u64
  ec_creation_coverage :: coverage
  ec_operations_coverage :: coverage

record admission_coverage =
  ac_token :: string
  ac_begin :: u64
  ac_frequency :: u64
  ac_freeze :: u64
  ac_inventory :: coverage
  ac_gap :: bool
  ac_failed :: bool
  ac_epochs :: "epoch_coverage list"

datatype snap_error = ErrToken | ErrScopeBinding | ErrCoverageBinding | ErrCounts
  | ErrNotFreezeSnapshot | ErrUnrepresentable | ErrTooLarge | ErrAllocation

definition lower_hex :: "char \<Rightarrow> bool" where
  "lower_hex c \<longleftrightarrow> (CHR ''0'' \<le> c \<and> c \<le> CHR ''9'') \<or> (CHR ''a'' \<le> c \<and> c \<le> CHR ''f'')"

definition snap_token :: "string \<Rightarrow> bool" where
  "snap_token t \<longleftrightarrow> length t = 32 \<and> list_all lower_hex t"

definition coverage_valid :: "coverage \<Rightarrow> bool" where
  "coverage_valid c \<longleftrightarrow> c = CoverageUnknown \<or> c = CompleteThroughFreeze"

record sem_snapshot =
  ss_token :: string
  ss_window :: sem_window
  ss_freeze :: u64
  ss_counts :: sem_counts
  ss_diagnostics :: sem_diagnostics
  ss_issues :: u32
  ss_pending :: u32
  ss_history :: bool
  ss_failed :: bool
  ss_mutated :: bool
  ss_gap :: bool
  ss_coverage_failed :: bool
  ss_inventory :: coverage
  ss_coverage :: "epoch_coverage list"
  ss_epochs :: "sem_epoch list"
  ss_ops :: "sem_op list"

text \<open>The search of one epoch's claim: \<open>None\<close> is the binding error.\<close>

fun bind_claim :: "sem_epoch \<Rightarrow> epoch_coverage option \<Rightarrow> epoch_coverage list \<Rightarrow> epoch_coverage option" where
  "bind_claim e found [] = found"
| "bind_claim e found (c # claims) =
     (if \<not> coverage_valid (ec_creation_coverage c) \<or> \<not> coverage_valid (ec_operations_coverage c) then None
      else if ec_epoch c \<noteq> ep_id e then bind_claim e found claims
      else if found \<noteq> None \<or> ec_cookie c \<noteq> ep_cookie e \<or> ec_creation c \<noteq> ep_creation e then None
      else bind_claim e (Some c) claims)"

fun bind_claims :: "sem_epoch list \<Rightarrow> epoch_coverage list \<Rightarrow> epoch_coverage list option" where
  "bind_claims [] claims = Some []"
| "bind_claims (e # es) claims =
     (case bind_claim e None claims of
        None \<Rightarrow> None
      | Some c \<Rightarrow> (case bind_claims es claims of None \<Rightarrow> None | Some cs \<Rightarrow> Some (c # cs)))"

definition scope_bound :: "sem_journal \<Rightarrow> admission_coverage \<Rightarrow> u64 \<Rightarrow> bool" where
  "scope_bound j cov stop_qpc \<longleftrightarrow> (let w = sj_window j in
     sj_stopped j \<and> stop_qpc = ac_freeze cov \<and> ac_begin cov = sw_begin w \<and> ac_frequency cov = sw_frequency w
     \<and> sw_begin w \<noteq> 0 \<and> sw_begin w < stop_qpc \<and> stop_qpc < sw_end w \<and> sw_end w \<le> kMaxQpc
     \<and> sw_frequency w \<noteq> 0 \<and> sw_frequency w \<le> kMaxQpc)"

definition counts_consistent :: "sem_journal \<Rightarrow> bool" where
  "counts_consistent j \<longleftrightarrow> (let c = sj_counts j in
     sj_epochs j \<noteq> [] \<and> length (sj_epochs j) \<le> kEpochCapacity
     \<and> unat (sc_stored c) \<le> kOperationCapacity
     \<and> sc_completed c \<le> sc_stored c \<and> sc_observed c \<ge> sc_stored c
     \<and> sc_observed c - sc_stored c = sc_overflow c
     \<and> sc_stored c - sc_completed c = ucast (sj_pending j))"

definition observer_failed :: "sem_journal \<Rightarrow> bool" where
  "observer_failed j \<longleftrightarrow> sj_issues j \<noteq> 0"

text \<open>\<open>operations()\<close> is the stored prefix of the array, so \<open>ops.size()\<close> is \<open>stored_operations\<close>.\<close>

definition Capture :: "bool \<Rightarrow> sem_journal \<Rightarrow> string \<Rightarrow> admission_coverage \<Rightarrow> snap_error + sem_snapshot" where
  "Capture alloc_ok j expected cov =
     (if \<not> snap_token expected \<or> ac_token cov \<noteq> expected then Inl ErrToken
      else case sj_cut j of None \<Rightarrow> Inl ErrScopeBinding | Some stop_qpc \<Rightarrow>
        if \<not> scope_bound j cov stop_qpc then Inl ErrScopeBinding
        else if sj_mutated j then Inl ErrNotFreezeSnapshot
        else if \<not> counts_consistent j then Inl ErrCounts
        else if has_flag (sj_issues j) (sem_bit IncompleteCut) \<noteq> (sj_pending j \<noteq> 0) then Inl ErrNotFreezeSnapshot
        else if \<not> coverage_valid (ac_inventory cov) \<or> length (ac_epochs cov) \<noteq> length (sj_epochs j)
        then Inl ErrCoverageBinding
        else case bind_claims (sj_epochs j) (ac_epochs cov) of
          None \<Rightarrow> Inl ErrCoverageBinding
        | Some bound \<Rightarrow>
          if \<not> alloc_ok then Inl ErrAllocation
          else Inr \<lparr>ss_token = expected, ss_window = sj_window j, ss_freeze = stop_qpc, ss_counts = sj_counts j,
             ss_diagnostics = sj_diagnostics j, ss_issues = sj_issues j, ss_pending = sj_pending j,
             ss_history = history_complete j, ss_failed = observer_failed j, ss_mutated = sj_mutated j,
             ss_gap = ac_gap cov, ss_coverage_failed = ac_failed cov, ss_inventory = ac_inventory cov,
             ss_coverage = bound, ss_epochs = sj_epochs j,
             ss_ops = take (unat (sc_stored (sj_counts j))) (sj_ops j)\<rparr>)"

subsection \<open>What the prefix schema can represent\<close>

definition expected_issues :: u32 where
  "expected_issues = or (flag (sem_bit EarlyCut)) (or (flag (sem_bit IncompleteCut))
     (or (flag (sem_bit Unsupported)) (or (flag (sem_bit NonfreshOrigin))
     (or (flag (sem_bit InitialCredits)) (flag (sem_bit OperationOverflow))))))"

definition Fatal :: "sem_snapshot \<Rightarrow> bool" where
  "Fatal s \<longleftrightarrow> and (ss_issues s) (not expected_issues) \<noteq> 0 \<or> sd_unknown (ss_diagnostics s) \<noteq> 0
     \<or> sd_rejected (ss_diagnostics s) \<noteq> 0 \<or> sd_stopped (ss_diagnostics s) \<noteq> 0"

definition epoch_representable :: "sem_snapshot \<Rightarrow> sem_epoch \<Rightarrow> bool" where
  "epoch_representable s e \<longleftrightarrow> \<not> (ep_id e = 0 \<or> ep_cookie e = 0 \<or> ep_creation e \<ge> ss_freeze s
     \<or> ep_maximum e = 0 \<or> ep_maximum e > kMaxCount \<or> ep_initial e > ep_maximum e
     \<or> origin_name (ep_origin e) = []
     \<or> (case ep_destroy e of None \<Rightarrow> False | Some d \<Rightarrow> d \<le> ep_creation e \<or> d > ss_freeze s))"

definition release_representable :: "sem_epoch \<Rightarrow> sem_op \<Rightarrow> bool" where
  "release_representable e r \<longleftrightarrow>
     \<not> (op_count r = 0 \<or> op_count r > kMaxCount \<or> context_name (rc_kind (op_context r)) = []
        \<or> (if rc_kind (op_context r) = ContextUpdate then \<not> id_valid (rc_generation (op_context r))
           else rc_generation (op_context r) \<noteq> no_id))
     \<and> \<not> (op_completed r \<and> op_success r \<and>
          (case op_previous r of None \<Rightarrow> True
           | Some p \<Rightarrow> sint p < 0 \<or> p > ep_maximum e \<or> op_count r > ep_maximum e - p))
     \<and> \<not> ((\<not> op_completed r \<or> \<not> op_success r) \<and> op_previous r \<noteq> None)"

text \<open>One turn of the loop over operations: row \<open>i\<close>, after the entries seen so far.\<close>

definition op_representable :: "sem_snapshot \<Rightarrow> nat \<Rightarrow> u64 \<Rightarrow> sem_op \<Rightarrow> bool" where
  "op_representable s i last_entry r \<longleftrightarrow>
     \<not> (op_id r \<noteq> of_nat i + 1 \<or> op_epoch r = 0 \<or> unat (op_epoch r) > length (ss_epochs s) \<or> op_thread r = 0
        \<or> op_handle r = Some 0 \<or> kind_name (op_kind r) = [] \<or> op_entry r > kMaxQpc \<or> op_exit r > kMaxQpc)
     \<and> (let e = ss_epochs s ! unat (op_epoch r - 1) in
        \<not> (op_entry r \<noteq> 0 \<and> (op_entry r < sw_begin (ss_window s) \<or> op_entry r > ss_freeze s
             \<or> op_entry r \<le> ep_creation e \<or> op_entry r < last_entry
             \<or> (case ep_destroy e of None \<Rightarrow> False | Some d \<Rightarrow> op_entry r \<ge> d)))
        \<and> \<not> (\<not> op_completed r \<and> (op_exit r \<noteq> 0 \<or> ep_destroy e \<noteq> None))
        \<and> \<not> (op_completed r \<and> (op_exit r > ss_freeze s
             \<or> (op_exit r \<noteq> 0 \<and> ((op_entry r \<noteq> 0 \<and> op_exit r < op_entry r)
                  \<or> (case ep_destroy e of None \<Rightarrow> False | Some d \<Rightarrow> op_exit r \<ge> d)))))
        \<and> (if op_kind r = Release then release_representable e r
           else \<not> (op_kind r = Wait \<and> (timeout_name (op_timeout r) = [] \<or> wait_name (op_wait r) = []))))"

fun ops_representable :: "sem_snapshot \<Rightarrow> nat \<Rightarrow> u64 \<Rightarrow> u64 \<Rightarrow> sem_op list \<Rightarrow> u64 option" where
  "ops_representable s i last_entry completed [] = Some completed"
| "ops_representable s i last_entry completed (r # rows) =
     (if \<not> op_representable s i last_entry r then None
      else ops_representable s (i + 1) (if op_entry r \<noteq> 0 then op_entry r else last_entry)
             (if op_completed r then completed + 1 else completed) rows)"

definition Representable :: "sem_snapshot \<Rightarrow> bool" where
  "Representable s \<longleftrightarrow> list_all (epoch_representable s) (ss_epochs s)
     \<and> (case ops_representable s 0 0 0 (ss_ops s) of None \<Rightarrow> False
        | Some completed \<Rightarrow> completed = sc_completed (ss_counts s))"

subsection \<open>The JSON writer\<close>

text \<open>
  \<open>Raw\<close> is the writer's only access to its text; every other method is a sequence of \<open>Raw\<close>
  calls, modelled as the list of their arguments.
\<close>

record writer =
  wr_text :: string
  wr_too_large :: bool

definition new_writer :: writer where "new_writer = \<lparr>wr_text = [], wr_too_large = False\<rparr>"

definition Raw :: "writer \<Rightarrow> string \<Rightarrow> writer" where
  "Raw w s = (if length s > kMaxJsonBytes - length (wr_text w) then w\<lparr>wr_too_large := True\<rparr>
     else if \<not> wr_too_large w then w\<lparr>wr_text := wr_text w @ s\<rparr> else w)"

definition jS :: "string \<Rightarrow> string list" where "jS s = [''\"'', s, ''\"'']"
definition jU :: "u64 \<Rightarrow> string list" where "jU x = [decimal (unat x)]"
definition jI :: "int \<Rightarrow> string list" where "jI i = [decimal_int i]"
definition jB :: "bool \<Rightarrow> string list" where "jB b = [if b then ''true'' else ''false'']"
definition jKey :: "string \<Rightarrow> string list" where "jKey n = ['',''] @ jS n @ ['':'']"
definition jUInt :: "string \<Rightarrow> u64 \<Rightarrow> string list" where "jUInt n x = jKey n @ jU x"
definition jBool :: "string \<Rightarrow> bool \<Rightarrow> string list" where "jBool n b = jKey n @ jB b"
definition jText :: "string \<Rightarrow> string \<Rightarrow> string list" where "jText n s = jKey n @ jS s"
definition jClock :: "u64 \<Rightarrow> string list" where "jClock q = (if q \<noteq> 0 then jU q else [''null''])"
definition jPrevious :: "32 word option \<Rightarrow> string list" where
  "jPrevious p = (case p of None \<Rightarrow> [''null''] | Some v \<Rightarrow> jI (sint v))"

text \<open>\<open>if (x) w.U( *x); else w.Raw("null");\<close> on an optional clock or handle.\<close>

definition jOptional :: "u64 option \<Rightarrow> string list" where
  "jOptional q = (case q of None \<Rightarrow> [''null''] | Some v \<Rightarrow> jU v)"

text \<open>The loops that put a comma before every row but the first.\<close>

fun jRows :: "('a \<Rightarrow> string list) \<Rightarrow> 'a list \<Rightarrow> string list" where
  "jRows f [] = []"
| "jRows f [x] = f x"
| "jRows f (x # xs) = f x @ [('','')] @ jRows f xs"

definition Finish :: "string list \<Rightarrow> snap_error + string" where
  "Finish pieces = (let w = foldl Raw new_writer pieces in
     if wr_too_large w then Inl ErrTooLarge else Inr (wr_text w))"

definition Proofs :: "bool \<Rightarrow> string list" where
  "Proofs is_prefix =
     ['',\"native_admitted\":false,\"simulation_proven\":false,\"render_proven\":false,\"fps_proven\":false,\"frame_to_step_mapping_proven\":false,\"object_identity_proven\":false,\"object_lifetime_proven\":false'']
     @ (if is_prefix then ['',\"prefix_history_proven\":false,\"update_causality_proven\":false''] else [])"

definition Header :: "sem_snapshot \<Rightarrow> string \<Rightarrow> string list" where
  "Header s schema = [''{\"schema\":''] @ jS schema @ jText ''token'' (ss_token s)
     @ jText ''clock'' ''win32-query-performance-counter''
     @ jUInt ''qpc_frequency'' (sw_frequency (ss_window s))"

subsection \<open>The prefix journal text\<close>

definition EpochJson :: "sem_epoch \<Rightarrow> bool \<Rightarrow> string list" where
  "EpochJson row covered = [''{\"epoch_id\":''] @ jU (ep_id row) @ jUInt ''object_cookie'' (ep_cookie row)
     @ jUInt ''creation_qpc'' (ep_creation row) @ jKey ''destroy_qpc'' @ jOptional (ep_destroy row)
     @ jUInt ''initial_count'' (ucast (ep_initial row)) @ jUInt ''maximum_count'' (ucast (ep_maximum row))
     @ jText ''origin'' (origin_name (ep_origin row)) @ jBool ''history_complete'' covered @ [''}'']"

definition release_payload :: "sem_op \<Rightarrow> string list" where
  "release_payload row = [''\"count\":''] @ jU (ucast (op_count row)) @ jKey ''success''
     @ (if op_completed row then jB (op_success row) else [''null''])
     @ jKey ''previous_count'' @ (if op_completed row then jPrevious (op_previous row) else [''null''])
     @ ['',\"context\":{\"kind\":''] @ jS (context_name (rc_kind (op_context row))) @ jKey ''generation''
     @ (if rc_kind (op_context row) = ContextUpdate
        then [''{\"thread_epoch\":''] @ jU (fi_epoch (rc_generation (op_context row)))
          @ jUInt ''serial'' (fi_serial (rc_generation (op_context row))) @ [''}'']
        else [''null''])
     @ [''}'']"

definition wait_payload :: "sem_op \<Rightarrow> string list" where
  "wait_payload row = [''\"result\":''] @ (if op_completed row then jS (wait_name (op_wait row)) else [''null''])
     @ jText ''timeout_kind'' (timeout_name (op_timeout row))"

definition PrefixOperation :: "sem_op \<Rightarrow> string list" where
  "PrefixOperation row = [''{\"op_id\":''] @ jU (op_id row) @ jUInt ''epoch_id'' (op_epoch row)
     @ jUInt ''native_thread_id'' (ucast (op_thread row))
     @ jKey ''guest_handle'' @ jOptional (map_option ucast (op_handle row))
     @ jKey ''entry_qpc'' @ jClock (op_entry row)
     @ jKey ''exit_qpc'' @ (if op_completed row then jClock (op_exit row) else [''null''])
     @ jText ''kind'' (kind_name (op_kind row)) @ jBool ''completed'' (op_completed row)
     @ ['',\"payload\":{'']
     @ (if op_kind row = Release then release_payload row
        else if op_kind row = Wait then wait_payload row else [])
     @ [''}}'']"

definition prefix_counts :: "sem_snapshot \<Rightarrow> string list" where
  "prefix_counts s = ['',\"counts\":{\"observed_operations\":''] @ jU (sc_observed (ss_counts s))
     @ jUInt ''stored_operations'' (sc_stored (ss_counts s))
     @ jUInt ''completed_operations'' (sc_completed (ss_counts s))
     @ jUInt ''pending_operations'' (ucast (ss_pending s))
     @ jUInt ''lost_operations'' (sc_overflow (ss_counts s)) @ [''}'']"

definition prefix_epochs :: "sem_snapshot \<Rightarrow> string list" where
  "prefix_epochs s = jRows (\<lambda>(e, c). EpochJson e (ec_creation_coverage c = CompleteThroughFreeze
     \<and> ec_operations_coverage c = CompleteThroughFreeze)) (zip (ss_epochs s) (ss_coverage s))"

definition loss_ranges :: "sem_snapshot \<Rightarrow> string list" where
  "loss_ranges s = (if sc_overflow (ss_counts s) \<noteq> 0
     then [''{\"first_op_id\":''] @ jU (sc_stored (ss_counts s) + 1)
       @ jUInt ''last_op_id'' (sc_observed (ss_counts s))
       @ ['',\"entry_lower_bound_qpc\":null,\"kind\":\"overflow\"}''] else [])"

definition prefix_pieces :: "sem_snapshot \<Rightarrow> string list" where
  "prefix_pieces s = (let fatal = Fatal s in
     Header s ''mcla-semaphore-prefix-journal-v2''
     @ jUInt ''observer_begin_qpc'' (sw_begin (ss_window s)) @ jUInt ''freeze_qpc'' (ss_freeze s)
     @ jUInt ''capacity'' (of_nat kOperationCapacity)
     @ jBool ''admission_inventory_complete'' (ss_inventory s = CompleteThroughFreeze \<and> \<not> fatal)
     @ jBool ''observer_failed'' (ss_coverage_failed s \<or> fatal)
     @ jBool ''unknown_coverage_gap'' (ss_gap s \<or> fatal)
     @ Proofs True @ prefix_counts s
     @ ['',\"epochs\":[''] @ prefix_epochs s
     @ [''],\"operations\":[''] @ jRows PrefixOperation (ss_ops s)
     @ [''],\"loss_ranges\":[''] @ loss_ranges s @ ['']}''])"

definition PrefixJson :: "sem_snapshot \<Rightarrow> snap_error + string" where
  "PrefixJson s = (if \<not> Representable s then Inl ErrUnrepresentable else Finish (prefix_pieces s))"

subsection \<open>The raw core text\<close>

text \<open>\<open>int(value)\<close> of the enumerations.\<close>

fun origin_enum :: "origin \<Rightarrow> int" where
  "origin_enum Fresh = 0" | "origin_enum Native = 1" | "origin_enum Restored = 2"
| "origin_enum UnknownOrigin = 3" | "origin_enum (OtherOrigin n) = n"

fun kind_enum :: "sem_kind \<Rightarrow> int" where
  "kind_enum Release = 0" | "kind_enum Wait = 1" | "kind_enum WaitMultiple = 2"
| "kind_enum SignalAndWait = 3" | "kind_enum Save = 4" | "kind_enum Restore = 5"
| "kind_enum LifecycleGap = 6" | "kind_enum UnknownKind = 7" | "kind_enum (OtherKind n) = n"

fun context_enum :: "context_kind \<Rightarrow> int" where
  "context_enum ContextUpdate = 0" | "context_enum ContextControl = 1"
| "context_enum ContextUnknown = 2" | "context_enum (ContextOther n) = n"

fun timeout_enum :: "timeout_kind \<Rightarrow> int" where
  "timeout_enum TimeoutZero = 0" | "timeout_enum TimeoutFinite = 1"
| "timeout_enum TimeoutInfinite = 2" | "timeout_enum (TimeoutOther n) = n"

fun wait_enum :: "wait_result \<Rightarrow> int" where
  "wait_enum WaitSuccess = 0" | "wait_enum WaitTimeout = 1" | "wait_enum WaitApc = 2"
| "wait_enum WaitAlerted = 3" | "wait_enum WaitAbandoned = 4" | "wait_enum WaitFailed = 5"
| "wait_enum WaitUnknown = 6" | "wait_enum (WaitOther n) = n"

definition raw_claim :: "epoch_coverage \<Rightarrow> string list" where
  "raw_claim c = [''{\"epoch_id\":''] @ jU (ec_epoch c) @ jUInt ''cookie'' (ec_cookie c)
     @ jUInt ''creation_qpc'' (ec_creation c)
     @ jBool ''creation_covered'' (ec_creation_coverage c = CompleteThroughFreeze)
     @ jBool ''operations_covered'' (ec_operations_coverage c = CompleteThroughFreeze) @ [''}'']"

definition raw_epoch :: "sem_epoch \<Rightarrow> string list" where
  "raw_epoch row = [''{\"epoch_id\":''] @ jU (ep_id row) @ jUInt ''object_cookie'' (ep_cookie row)
     @ jUInt ''creation_qpc'' (ep_creation row) @ jKey ''destroy_qpc'' @ jOptional (ep_destroy row)
     @ jUInt ''initial_count'' (ucast (ep_initial row)) @ jUInt ''maximum_count'' (ucast (ep_maximum row))
     @ jKey ''origin_enum'' @ jI (origin_enum (ep_origin row))
     @ jUInt ''pending_operations'' (ucast (ep_pending row))
     @ jBool ''history_complete'' (ep_complete row) @ [''}'']"

definition raw_op :: "sem_op \<Rightarrow> string list" where
  "raw_op row = [''{\"op_id\":''] @ jU (op_id row) @ jUInt ''epoch_id'' (op_epoch row)
     @ jUInt ''entry_qpc'' (op_entry row) @ jUInt ''exit_qpc'' (op_exit row)
     @ jUInt ''native_thread_id'' (ucast (op_thread row))
     @ jKey ''guest_handle'' @ jOptional (map_option ucast (op_handle row))
     @ jKey ''kind_enum'' @ jI (kind_enum (op_kind row)) @ jBool ''completed'' (op_completed row)
     @ jUInt ''release_count'' (ucast (op_count row))
     @ jKey ''context_kind_enum'' @ jI (context_enum (rc_kind (op_context row)))
     @ jUInt ''thread_epoch'' (fi_epoch (rc_generation (op_context row)))
     @ jUInt ''serial'' (fi_serial (rc_generation (op_context row)))
     @ jBool ''release_success'' (op_success row)
     @ jKey ''previous_count'' @ jPrevious (op_previous row)
     @ jKey ''timeout_kind_enum'' @ jI (timeout_enum (op_timeout row))
     @ jKey ''wait_result_enum'' @ jI (wait_enum (op_wait row)) @ [''}'']"

definition raw_pieces :: "sem_snapshot \<Rightarrow> string list" where
  "raw_pieces s = Header s ''mcla-semaphore-raw-core-snapshot-v1''
     @ jUInt ''begin_qpc'' (sw_begin (ss_window s)) @ jUInt ''end_qpc_exclusive'' (sw_end (ss_window s))
     @ jUInt ''freeze_qpc'' (ss_freeze s) @ jUInt ''issues'' (ucast (ss_issues s))
     @ jBool ''history_complete'' (ss_history s) @ jBool ''observer_failed'' (ss_failed s)
     @ jBool ''post_stop_mutated'' (ss_mutated s)
     @ jUInt ''pending_operations'' (ucast (ss_pending s)) @ Proofs False
     @ ['',\"counts\":{\"observed_operations\":''] @ jU (sc_observed (ss_counts s))
     @ jUInt ''stored_operations'' (sc_stored (ss_counts s))
     @ jUInt ''completed_operations'' (sc_completed (ss_counts s))
     @ jUInt ''overflow_operations'' (sc_overflow (ss_counts s)) @ [''}'']
     @ ['',\"diagnostics\":{\"unknown_object_attempts\":''] @ jU (sd_unknown (ss_diagnostics s))
     @ jUInt ''rejected_attempts'' (sd_rejected (ss_diagnostics s))
     @ jUInt ''stopped_attempts'' (sd_stopped (ss_diagnostics s)) @ [''}'']
     @ ['',\"coverage_claims\":{\"inventory_complete\":''] @ jB (ss_inventory s = CompleteThroughFreeze)
     @ jBool ''unknown_coverage_gap'' (ss_gap s) @ jBool ''observer_failed'' (ss_coverage_failed s)
     @ ['',\"epochs\":[''] @ jRows raw_claim (ss_coverage s)
     @ ['']},\"epochs\":[''] @ jRows raw_epoch (ss_epochs s)
     @ [''],\"operations\":[''] @ jRows raw_op (ss_ops s) @ ['']}'']"

definition RawCoreJson :: "sem_snapshot \<Rightarrow> snap_error + string" where
  "RawCoreJson s = Finish (raw_pieces s)"

subsection \<open>The writer never truncates\<close>

lemma Raw_text:
  assumes "length (wr_text w) \<le> kMaxJsonBytes"
  shows "wr_too_large w \<Longrightarrow> Raw w p = w"
    "\<not> wr_too_large w \<Longrightarrow> length (wr_text w) + length p \<le> kMaxJsonBytes \<Longrightarrow> Raw w p = w\<lparr>wr_text := wr_text w @ p\<rparr>"
    "\<not> wr_too_large w \<Longrightarrow> length (wr_text w) + length p > kMaxJsonBytes \<Longrightarrow> Raw w p = w\<lparr>wr_too_large := True\<rparr>"
  using assms by (auto simp: Raw_def)

lemma Raw_latched: "wr_too_large w \<Longrightarrow> wr_too_large (foldl Raw w ps)"
  by (induction ps arbitrary: w) (simp_all add: Raw_def)

lemma Raw_run:
  assumes "\<not> wr_too_large w" "length (wr_text w) \<le> kMaxJsonBytes"
  shows "if length (wr_text w) + length (concat ps) \<le> kMaxJsonBytes
     then foldl Raw w ps = w\<lparr>wr_text := wr_text w @ concat ps\<rparr>
     else wr_too_large (foldl Raw w ps)"
  using assms
proof (induction ps arbitrary: w)
  case Nil
  then show ?case by simp
next
  case (Cons p ps)
  show ?case
  proof (cases "length (wr_text w) + length p \<le> kMaxJsonBytes")
    case True
    with Cons.prems have w: "Raw w p = w\<lparr>wr_text := wr_text w @ p\<rparr>" by (simp add: Raw_text)
    from Cons.IH [of "Raw w p"] Cons.prems True show ?thesis unfolding w by (simp add: w add.assoc split: if_splits)
  next
    case False
    with Cons.prems have "Raw w p = w\<lparr>wr_too_large := True\<rparr>" by (simp add: Raw_text)
    with False show ?thesis by (simp add: Raw_latched)
  qed
qed

lemma Finish_eq: "Finish ps = (if length (concat ps) \<le> kMaxJsonBytes then Inr (concat ps) else Inl ErrTooLarge)"
  using Raw_run [of new_writer ps] by (auto simp: Finish_def new_writer_def Let_def split: if_splits)

text \<open>The size-limited writer refines plain concatenation: a snapshot's JSON text is either every
  piece the serialiser wrote, in order, or the too-large error, exactly when the pieces exceed
  \<open>kMaxJsonBytes\<close>; a truncated text is never returned, and the prefix text is refused beforehand
  unless the snapshot is representable.\<close>

theorem snapshot_json_complete:
  "RawCoreJson s = (let t = concat (raw_pieces s) in
       if length t \<le> kMaxJsonBytes then Inr t else Inl ErrTooLarge)
   \<and> PrefixJson s = (let t = concat (prefix_pieces s) in
       if \<not> Representable s then Inl ErrUnrepresentable
       else if length t \<le> kMaxJsonBytes then Inr t else Inl ErrTooLarge)"
  by (simp add: RawCoreJson_def PrefixJson_def Finish_eq Let_def)

subsection \<open>What a capture binds\<close>

text \<open>A claim names the epoch's lifetime: its id, cookie and creation time, with valid values.\<close>

definition claims_epoch :: "epoch_coverage \<Rightarrow> sem_epoch \<Rightarrow> bool" where
  "claims_epoch c e \<longleftrightarrow> ec_epoch c = ep_id e \<and> ec_cookie c = ep_cookie e \<and> ec_creation c = ep_creation e
     \<and> coverage_valid (ec_creation_coverage c) \<and> coverage_valid (ec_operations_coverage c)"

lemma bind_claim_found:
  "bind_claim e (Some c) cl = Some c' \<Longrightarrow> c' = c \<and> (\<forall>x \<in> set cl. ec_epoch x \<noteq> ep_id e)"
  by (induction cl) (auto split: if_splits)

lemma bind_claim_Some:
  "bind_claim e None cl = Some c \<Longrightarrow> claims_epoch c e \<and> filter (\<lambda>x. ec_epoch x = ep_id e) cl = [c]"
proof (induction cl)
  case (Cons x cl)
  show ?case
  proof (cases "ec_epoch x = ep_id e")
    case True
    with Cons.prems have "bind_claim e (Some x) cl = Some c" "claims_epoch x e"
      by (auto simp: claims_epoch_def split: if_splits)
    with True show ?thesis by (auto dest!: bind_claim_found simp: filter_empty_conv)
  next
    case False
    with Cons show ?thesis by (auto split: if_splits)
  qed
qed simp

lemma bind_claims_Some:
  "bind_claims es cl = Some cs \<Longrightarrow> length cs = length es
     \<and> (\<forall>i < length es. claims_epoch (cs ! i) (es ! i) \<and> filter (\<lambda>x. ec_epoch x = ep_id (es ! i)) cl = [cs ! i])"
proof (induction es arbitrary: cs)
  case (Cons e es)
  then obtain c ds where cs: "bind_claim e None cl = Some c" "bind_claims es cl = Some ds" "cs = c # ds"
    by (auto split: option.splits)
  from bind_claim_Some [OF cs(1)] Cons.IH [OF cs(2)] show ?case
    by (auto simp: cs(3) nth_Cons split: nat.splits)
qed simp

text \<open>The counters of a journal in shape always pass the capture's arithmetic.\<close>

lemma shape_counts:
  assumes "shape j"
  shows "counts_consistent j \<longleftrightarrow> sj_epochs j \<noteq> []"
proof -
  let ?c = "sj_counts j"
  have n: "length (sj_epochs j) \<le> kEpochCapacity" "length (sj_ops j) \<le> kOperationCapacity"
    "unat (sc_stored ?c) = length (sj_ops j)"
    "unat (sc_observed ?c) = length (sj_ops j) + unat (sc_overflow ?c)"
    "unat (sc_completed ?c) = length (filter op_completed (sj_ops j))"
    "unat (sj_pending j) = length (filter (\<lambda>r. \<not> op_completed r) (sj_ops j))"
    using assms by (simp_all add: shape_def)
  have le: "sc_completed ?c \<le> sc_stored ?c" "sc_stored ?c \<le> sc_observed ?c"
    by (simp_all add: word_le_nat_alt n length_filter_le)
  have "unat (sc_observed ?c - sc_stored ?c) = unat (sc_overflow ?c)"
    using le(2) by (simp add: unat_sub n)
  moreover have "unat (sc_stored ?c - sc_completed ?c) = unat (sj_pending j)"
    using le(1) n sum_length_filter_compl [of op_completed "sj_ops j"] by (simp add: unat_sub)
  moreover have "unat (ucast (sj_pending j) :: u64) = unat (sj_pending j)"
    using unsigned_less [of "sj_pending j", where ?'a = nat] by (simp add: unsigned_ucast_eq take_bit_nat_eq_self)
  ultimately have "sc_observed ?c - sc_stored ?c = sc_overflow ?c"
    "sc_stored ?c - sc_completed ?c = ucast (sj_pending j)"
    by (simp_all add: word_unat_eq_iff)
  with n le show ?thesis by (simp add: counts_consistent_def Let_def)
qed

lemma Capture_Inr:
  assumes "Capture a j tok cov = Inr s"
  obtains q bound where "sj_cut j = Some q" "scope_bound j cov q" "\<not> sj_mutated j"
    "bind_claims (sj_epochs j) (ac_epochs cov) = Some bound"
    "ss_freeze s = q" "ss_coverage s = bound" "ss_epochs s = sj_epochs j"
    "ss_ops s = take (unat (sc_stored (sj_counts j))) (sj_ops j)" "ss_history s = history_complete j"
    "ss_failed s = observer_failed j" "ss_mutated s = sj_mutated j" "ss_pending s = sj_pending j"
proof (cases "sj_cut j")
  case None
  with assms show ?thesis by (simp add: Capture_def split: if_splits)
next
  case q: (Some q)
  show ?thesis
  proof (cases "bind_claims (sj_epochs j) (ac_epochs cov)")
    case None
    with q assms show ?thesis by (simp add: Capture_def split: if_splits)
  next
    case (Some bound)
    with q assms show ?thesis by (intro that [of q bound]) (auto simp: Capture_def split: if_splits)
  qed
qed

text \<open>A cut before the end of the window always leaves an issue behind.\<close>

lemma early_cut_issues:
  assumes "sem_inv j" "sj_cut j = Some q" "scope_bound j cov q"
  shows "sj_issues j \<noteq> 0"
proof
  assume "sj_issues j = 0"
  moreover have "cut_ok j" "sj_stopped j" "q < sw_end (sj_window j)"
    using assms by (auto simp: sem_inv_def scope_bound_def Let_def)
  ultimately have "sw_end (sj_window j) \<le> q" using assms(2) by (simp add: cut_ok_def clean_def)
  with \<open>q < sw_end (sj_window j)\<close> show False by simp
qed

text \<open>C27: a snapshot captured from any reachable journal is honest about what it is: a copy of all the
  rows of a stopped and since then untouched journal, whose raw flags say that its history is not
  complete and that the observer reported an issue (the cut lies inside the window), with one and
  only one coverage claim, of the same id, cookie and creation time, bound to each epoch.\<close>

theorem capture_honest:
  assumes "Capture alloc_ok (sem_run self issued w enabled cs) tok cov = Inr s"
  shows "let j = sem_run self issued w enabled cs in
     \<not> ss_history s \<and> ss_failed s \<and> \<not> ss_mutated s \<and> sj_stopped j \<and> sj_cut j = Some (ss_freeze s)
     \<and> ss_ops s = sj_ops j \<and> ss_epochs s = sj_epochs j
     \<and> unat (ss_pending s) = length (filter (\<lambda>r. \<not> op_completed r) (ss_ops s))
     \<and> length (ss_coverage s) = length (ss_epochs s)
     \<and> (\<forall>i < length (ss_epochs s). claims_epoch (ss_coverage s ! i) (ss_epochs s ! i)
          \<and> filter (\<lambda>c. ec_epoch c = ep_id (ss_epochs s ! i)) (ac_epochs cov) = [ss_coverage s ! i])"
proof -
  let ?j = "sem_run self issued w enabled cs"
  have inv: "sem_inv ?j" by (rule sem_run_inv)
  then have shape: "shape ?j" by (simp add: sem_inv_def)
  obtain q bound where c: "sj_cut ?j = Some q" "scope_bound ?j cov q" "\<not> sj_mutated ?j"
    "bind_claims (sj_epochs ?j) (ac_epochs cov) = Some bound"
    "ss_freeze s = q" "ss_coverage s = bound" "ss_epochs s = sj_epochs ?j"
    "ss_ops s = take (unat (sc_stored (sj_counts ?j))) (sj_ops ?j)" "ss_history s = history_complete ?j"
    "ss_failed s = observer_failed ?j" "ss_mutated s = sj_mutated ?j" "ss_pending s = sj_pending ?j"
    using assms by (rule Capture_Inr)
  have i: "sj_issues ?j \<noteq> 0" by (rule early_cut_issues [OF inv c(1,2)])
  have "ss_ops s = sj_ops ?j" using shape by (simp add: c shape_def)
  moreover have "unat (ss_pending s) = length (filter (\<lambda>r. \<not> op_completed r) (sj_ops ?j))"
    using shape by (simp add: c shape_def)
  moreover have "sj_stopped ?j" using c(2) by (simp add: scope_bound_def Let_def)
  ultimately show ?thesis
    using bind_claims_Some [OF c(4)] i c by (simp add: Let_def history_complete_def observer_failed_def)
qed

definition example_frozen :: sem_journal where
  "example_frozen = sem_run 0 0 \<lparr>sw_begin = 100, sw_end = 200, sw_frequency = 10\<rparr> True
     [SemCreate 7 110 0 5 Fresh, SemBeginWait 7 3 (Some 4) 120 TimeoutFinite, SemStop 150]"

definition example_claim :: admission_coverage where
  "example_claim = \<lparr>ac_token = replicate 32 (CHR ''a''), ac_begin = 100, ac_frequency = 10, ac_freeze = 150,
     ac_inventory = CompleteThroughFreeze, ac_gap = False, ac_failed = False,
     ac_epochs = [\<lparr>ec_epoch = 1, ec_cookie = 7, ec_creation = 110,
       ec_creation_coverage = CompleteThroughFreeze, ec_operations_coverage = CoverageUnknown\<rparr>]\<rparr>"

definition example_prefix_snapshot :: sem_snapshot where
  "example_prefix_snapshot = projr (Capture True example_frozen (replicate 32 (CHR ''a'')) example_claim)"

lemma example_captured: "case Capture True example_frozen (replicate 32 (CHR ''a'')) example_claim of
    Inl _ \<Rightarrow> False | Inr s \<Rightarrow> length (ss_ops s) = 1"
  by code_simp

theorem capture_honest_witness:
  "\<not> ss_history example_prefix_snapshot \<and> length (ss_ops example_prefix_snapshot) = 1"
proof -
  have c: "Capture True example_frozen (replicate 32 (CHR ''a'')) example_claim = Inr example_prefix_snapshot"
    using example_captured unfolding example_prefix_snapshot_def by (auto split: sum.splits)
  have "length (ss_ops example_prefix_snapshot) = 1" using example_captured c by simp
  with capture_honest [OF c [unfolded example_frozen_def]] show ?thesis by (simp add: Let_def)
qed

text \<open>On a reachable journal the capture has no spurious refusal: given memory, it succeeds exactly
  if the token is well formed and matches, the journal is stopped with a cut inside its own window
  that the claim names, nothing was attempted since, there is an epoch, and the coverage claims are
  valid, one for each epoch. In particular the counter test never refuses an observed journal.\<close>

theorem capture_accepts_iff:
  "isInr (Capture True (sem_run self issued w enabled cs) tok cov) \<longleftrightarrow>
     (let j = sem_run self issued w enabled cs in
      snap_token tok \<and> ac_token cov = tok \<and> (\<exists>q. sj_cut j = Some q \<and> scope_bound j cov q)
      \<and> \<not> sj_mutated j \<and> sj_epochs j \<noteq> [] \<and> coverage_valid (ac_inventory cov)
      \<and> length (ac_epochs cov) = length (sj_epochs j)
      \<and> bind_claims (sj_epochs j) (ac_epochs cov) \<noteq> None)"
proof -
  let ?j = "sem_run self issued w enabled cs"
  have inv: "sem_inv ?j" by (rule sem_run_inv)
  then have "counts_consistent ?j \<longleftrightarrow> sj_epochs ?j \<noteq> []" by (simp add: sem_inv_def shape_counts)
  moreover have "has_flag (sj_issues ?j) (sem_bit IncompleteCut) \<longleftrightarrow> sj_pending ?j \<noteq> 0"
    if "sj_cut ?j = Some q" "\<not> sj_mutated ?j" for q
    using inv that by (simp add: sem_inv_def cut_ok_def cut_state_def)
  ultimately show ?thesis
    by (cases "sj_cut ?j") (auto simp: Capture_def Let_def simp del: sem_bit.simps split: option.splits)
qed

end
