(* ===== verification/DiagnosticTrigger.thy ===== *)
theory DiagnosticTrigger
  imports Prelude
begin

section \<open>Diagnostic snapshot triggers (\<open>mcla_diagnostic_trigger.h\<close>)\<close>

text \<open>
  The pure policy of diagnostic snapshots: the wheel button setting, the edge and hold triggers, the
  ring of active-device transitions, the minidump decision, the bounded log buckets, and the JSON and
  report texts of a package. Each class is a record of its members and each method a function on it.
\<close>

subsection \<open>Wheel button setting\<close>

record wheel_buttons =
  wb_l2 :: int
  wb_r2 :: int

definition is_blank :: "char \<Rightarrow> bool" where "is_blank c \<longleftrightarrow> c = CHR '' '' \<or> c = CHR 0x09"

definition trim_blanks :: "string \<Rightarrow> string" where
  "trim_blanks t = rev (dropWhile is_blank (rev (dropWhile is_blank t)))"

text \<open>The digit loop: \<open>None\<close> at the first character that is not a digit.\<close>

fun digit_loop :: "int \<Rightarrow> string \<Rightarrow> int option" where
  "digit_loop v [] = Some v"
| "digit_loop v (c # cs) = (if \<not> is_digit c then None else digit_loop (v * 10 + int (digit_value c)) cs)"

definition ParseButtonIndex :: "string \<Rightarrow> int option" where
  "ParseButtonIndex t0 =
     (let t = trim_blanks t0 in
      if t = ''-1'' then Some (- 1)
      else if t = [] \<or> length t > 3 then None
      else case digit_loop 0 t of None \<Rightarrow> None
      | Some v \<Rightarrow> if v > 255 \<or> (length t > 1 \<and> hd t = CHR ''0'') then None else Some v)"

definition ParseWheelButtons :: "string \<Rightarrow> wheel_buttons option" where
  "ParseWheelButtons t =
     (case split_at (CHR '','') t of
        (_, None) \<Rightarrow> None
      | (h, Some r) \<Rightarrow>
          if CHR '','' \<in> set r then None
          else case (ParseButtonIndex h, ParseButtonIndex r) of
            (Some l2, Some r2) \<Rightarrow> if l2 \<ge> 0 \<and> l2 = r2 then None else Some \<lparr>wb_l2 = l2, wb_r2 = r2\<rparr>
          | _ \<Rightarrow> None)"

subsection \<open>One package for each press\<close>

record edge_trigger =
  et_held :: bool
  et_device :: u32

definition new_edge :: edge_trigger where "new_edge = \<lparr>et_held = False, et_device = 0\<rparr>"

definition edge_down :: "edge_trigger \<Rightarrow> u32 \<Rightarrow> edge_trigger \<times> bool" where
  "edge_down t d = (if et_held t then (t, False) else (t\<lparr>et_held := True, et_device := d\<rparr>, True))"

definition edge_up :: "edge_trigger \<Rightarrow> u32 \<Rightarrow> edge_trigger" where
  "edge_up t d = (if et_held t \<and> d = et_device t then t\<lparr>et_held := False\<rparr> else t)"

definition edge_removed :: "edge_trigger \<Rightarrow> u32 \<Rightarrow> edge_trigger" where
  "edge_removed t d = edge_up t d"

subsection \<open>Start and Back held together\<close>

datatype pad_button = StartButton | BackButton

record pad =
  pd_used :: bool
  pd_device :: u32
  pd_start :: bool
  pd_back :: bool

definition no_pad :: pad where
  "no_pad = \<lparr>pd_used = False, pd_device = 0, pd_start = False, pd_back = False\<rparr>"

record combo =
  cb_hold :: u32
  cb_pads :: "pad list"
  cb_armed :: bool
  cb_fired :: bool
  cb_owner :: u32
  cb_deadline :: u64

definition new_combo :: "u32 \<Rightarrow> combo" where
  "new_combo hold = \<lparr>cb_hold = hold, cb_pads = replicate 8 no_pad, cb_armed = False, cb_fired = False,
     cb_owner = 0, cb_deadline = 0\<rparr>"

text \<open>The index of the first cell that satisfies a test.\<close>

fun first_index :: "('a \<Rightarrow> bool) \<Rightarrow> 'a list \<Rightarrow> nat option" where
  "first_index P [] = None"
| "first_index P (x # xs) = (if P x then Some 0 else map_option Suc (first_index P xs))"

text \<open>\<open>Find\<close>: the table, perhaps with a fresh cell, and the index of the device's cell.\<close>

definition Find :: "pad list \<Rightarrow> u32 \<Rightarrow> bool \<Rightarrow> pad list \<times> nat option" where
  "Find pads d mk =
     (case first_index (\<lambda>p. pd_used p \<and> pd_device p = d) pads of
        Some i \<Rightarrow> (pads, Some i)
      | None \<Rightarrow>
          if \<not> mk then (pads, None)
          else case first_index (\<lambda>p. \<not> pd_used p) pads of
            Some i \<Rightarrow> (pads[i := \<lparr>pd_used = True, pd_device = d, pd_start = False, pd_back = False\<rparr>], Some i)
          | None \<Rightarrow> (pads, None))"

definition press :: "pad_button \<Rightarrow> bool \<Rightarrow> pad \<Rightarrow> pad" where
  "press b pressed p = (if b = StartButton then p\<lparr>pd_start := pressed\<rparr> else p\<lparr>pd_back := pressed\<rparr>)"

definition OnButton :: "combo \<Rightarrow> u32 \<Rightarrow> pad_button \<Rightarrow> bool \<Rightarrow> u64 \<Rightarrow> combo \<times> bool" where
  "OnButton c d b pressed now =
     (case Find (cb_pads c) d pressed of
        (pads, None) \<Rightarrow> (c\<lparr>cb_pads := pads\<rparr>, False)
      | (pads, Some i) \<Rightarrow>
          let p = press b pressed (pads ! i); c1 = c\<lparr>cb_pads := pads[i := p]\<rparr> in
          if \<not> pressed then
            let c2 = (if cb_armed c1 \<and> cb_owner c1 = d then c1\<lparr>cb_armed := False\<rparr> else c1);
                c3 = (if cb_fired c2 \<and> cb_owner c2 = d then c2\<lparr>cb_fired := False\<rparr> else c2) in
            (if \<not> pd_start p \<and> \<not> pd_back p then c3\<lparr>cb_pads := (cb_pads c3)[i := no_pad]\<rparr> else c3, False)
          else if pd_start p \<and> pd_back p \<and> \<not> cb_armed c1 \<and> \<not> cb_fired c1
          then (c1\<lparr>cb_armed := True, cb_owner := d, cb_deadline := now + ucast (cb_hold c1)\<rparr>, True)
          else (c1, False))"

definition Poll :: "combo \<Rightarrow> u64 \<Rightarrow> combo \<times> bool" where
  "Poll c now = (if \<not> cb_armed c \<or> now < cb_deadline c then (c, False)
     else (c\<lparr>cb_armed := False, cb_fired := True\<rparr>, True))"

definition combo_removed :: "combo \<Rightarrow> u32 \<Rightarrow> combo" where
  "combo_removed c d =
     (let c1 = c\<lparr>cb_pads := map (\<lambda>p. if pd_used p \<and> pd_device p = d then no_pad else p) (cb_pads c)\<rparr> in
      if (cb_armed c1 \<or> cb_fired c1) \<and> cb_owner c1 = d
      then c1\<lparr>cb_armed := False, cb_fired := False\<rparr> else c1)"

subsection \<open>Active device transitions\<close>

datatype input_source = Joystick | Gamepad

definition InputSourceName :: "input_source \<Rightarrow> string" where
  "InputSourceName s = (if s = Gamepad then ''gamepad'' else ''joystick'')"

record device_transition =
  tr_time :: u64
  tr_from :: int
  tr_to :: u32
  tr_source :: input_source

definition no_transition :: device_transition where
  "no_transition = \<lparr>tr_time = 0, tr_from = - 1, tr_to = 0, tr_source = Joystick\<rparr>"

definition kCapacity :: nat where "kCapacity = 16"

record device_tracker =
  dt_ring :: "device_transition list"
  dt_next :: nat
  dt_count :: nat
  dt_total :: u64
  dt_has_latest :: bool
  dt_latest :: u32
  dt_source :: input_source
  dt_time :: u64

definition new_device_tracker :: device_tracker where
  "new_device_tracker = \<lparr>dt_ring = replicate kCapacity no_transition, dt_next = 0, dt_count = 0,
     dt_total = 0, dt_has_latest = False, dt_latest = 0, dt_source = Joystick, dt_time = 0\<rparr>"

definition OnActivity :: "device_tracker \<Rightarrow> u32 \<Rightarrow> input_source \<Rightarrow> u64 \<Rightarrow> device_tracker \<times> bool" where
  "OnActivity t d s now =
     (if dt_has_latest t \<and> dt_latest t = d then (t\<lparr>dt_time := now\<rparr>, False)
      else (t\<lparr>dt_ring := (dt_ring t)[dt_next t := \<lparr>tr_time = now,
                tr_from = (if dt_has_latest t then int (unat (dt_latest t)) else - 1), tr_to = d, tr_source = s\<rparr>],
              dt_next := (dt_next t + 1) mod kCapacity,
              dt_count := (if dt_count t < kCapacity then dt_count t + 1 else dt_count t),
              dt_total := dt_total t + 1, dt_has_latest := True, dt_latest := d, dt_source := s, dt_time := now\<rparr>,
            True))"

definition Transitions :: "device_tracker \<Rightarrow> device_transition list" where
  "Transitions t = (let start = (dt_next t + kCapacity - dt_count t) mod kCapacity in
     map (\<lambda>i. dt_ring t ! ((start + i) mod kCapacity)) [0 ..< dt_count t])"

subsection \<open>Snapshot identity and the minidump policy\<close>

definition kCategoryGeneral :: string where "kCategoryGeneral = ''general''"

record joystick_state =
  js_instance :: u32
  js_name :: string
  js_guid :: string
  js_vendor :: u16
  js_product :: u16
  js_type :: int
  js_gamepad :: bool
  js_wheel :: bool
  js_opened :: bool
  js_haptic :: bool
  js_axes :: "16 word list"
  js_buttons :: bytes
  js_hats :: bytes

record wheel_state =
  ws_buttons :: wheel_buttons
  ws_trigger :: "u32 option"
  ws_devices :: "joystick_state list"
  ws_latest_known :: bool
  ws_latest :: u32
  ws_latest_source :: input_source
  ws_latest_time :: u64
  ws_total :: u64
  ws_transitions :: "device_transition list"
  ws_controller_log :: "string list"
  ws_ffb_log :: "string list"
  ws_device_log :: "string list"

record snapshot_trigger =
  st_category :: string
  st_source :: string
  st_wheel :: "wheel_state option"

definition ShouldSnapshotGuestExit :: "bool \<Rightarrow> bool \<Rightarrow> bool \<Rightarrow> bool" where
  "ShouldSnapshotGuestExit close_requested snapshot_probe native_crash_probe \<longleftrightarrow>
     \<not> close_requested \<and> \<not> snapshot_probe \<and> \<not> native_crash_probe"

definition kReasonProbe :: string where "kReasonProbe = ''probe''"
definition kReasonUnexpectedGuestExit :: string where
  "kReasonUnexpectedGuestExit = ''unexpected-guest-exit''"
definition kReasonHang :: string where "kReasonHang = ''hang''"

datatype minidump_policy = RequiredByReason | EnabledBySwitch | SkippedByDefault

definition LiveMinidumpRequiredByReason :: "string \<Rightarrow> bool" where
  "LiveMinidumpRequiredByReason reason \<longleftrightarrow>
     reason = kReasonProbe \<or> reason = kReasonUnexpectedGuestExit \<or> reason = kReasonHang"

definition DecideLiveMinidump :: "string \<Rightarrow> bool \<Rightarrow> minidump_policy" where
  "DecideLiveMinidump reason enabled =
     (if LiveMinidumpRequiredByReason reason then RequiredByReason
      else if enabled then EnabledBySwitch else SkippedByDefault)"

definition ShouldWriteLiveMinidump :: "minidump_policy \<Rightarrow> bool" where
  "ShouldWriteLiveMinidump policy \<longleftrightarrow> policy \<noteq> SkippedByDefault"

fun LiveMinidumpPolicyName :: "minidump_policy \<Rightarrow> string" where
  "LiveMinidumpPolicyName RequiredByReason = ''required-by-reason''"
| "LiveMinidumpPolicyName EnabledBySwitch = ''enabled-by-switch''"
| "LiveMinidumpPolicyName SkippedByDefault = ''skipped-by-default''"

subsection \<open>Bounded log buckets\<close>

definition kMaxSdkLogLinesPerKind :: nat where "kMaxSdkLogLinesPerKind = 32"
definition kMaxSdkLogLineBytes :: nat where "kMaxSdkLogLineBytes = 512"

datatype log_kind = LogNone | LogActiveController | LogForceFeedback | LogDevice

text \<open>\<open>line.find(marker) != npos\<close>\<close>

fun contains :: "string \<Rightarrow> string \<Rightarrow> bool" where
  "contains marker [] \<longleftrightarrow> marker = []"
| "contains marker (c # cs) \<longleftrightarrow> prefix marker (c # cs) \<or> contains marker cs"

definition ClassifySdkInputLogLine :: "string \<Rightarrow> log_kind" where
  "ClassifySdkInputLogLine line =
     (if contains ''SDL_ACTIVE_CONTROLLER'' line then LogActiveController
      else if contains ''SDL_WHEEL_FFB'' line \<or> contains ''SDL wheel FFB'' line
        \<or> contains ''SDL wheel does not support'' line \<or> contains ''SDL wheel rumble'' line then LogForceFeedback
      else if contains ''SDL_WHEEL_CONNECTED'' line \<or> contains ''SDL wheel '' line
        \<or> contains ''SDL OnControllerDeviceAdded'' line \<or> contains ''removed from physical slot'' line
        \<or> contains ''SDL_HOTPLUG'' line \<or> contains ''SDL_XINPUT'' line then LogDevice
      else LogNone)"

text \<open>The target vector after one more line: shortened, the oldest dropped when it is full.\<close>

definition append_line :: "string \<Rightarrow> string list \<Rightarrow> string list" where
  "append_line line target =
     (let text = (if length line > kMaxSdkLogLineBytes then take kMaxSdkLogLineBytes line else line) in
      (if length target = kMaxSdkLogLinesPerKind then tl target else target) @ [text])"

definition AddSdkInputLogLine :: "wheel_state \<Rightarrow> string \<Rightarrow> wheel_state" where
  "AddSdkInputLogLine w line =
     (case ClassifySdkInputLogLine line of
        LogActiveController \<Rightarrow> w\<lparr>ws_controller_log := append_line line (ws_controller_log w)\<rparr>
      | LogForceFeedback \<Rightarrow> w\<lparr>ws_ffb_log := append_line line (ws_ffb_log w)\<rparr>
      | LogDevice \<Rightarrow> w\<lparr>ws_device_log := append_line line (ws_device_log w)\<rparr>
      | LogNone \<Rightarrow> w)"

subsection \<open>JSON texts\<close>

text \<open>\<open>%04x\<close> and \<open>%04X\<close> of \<open>snprintf\<close>.\<close>

definition hex_lower :: "nat \<Rightarrow> char" where
  "hex_lower d = (if d < 10 then digit_char d else char_of (87 + d))"

definition hex_upper :: "nat \<Rightarrow> char" where
  "hex_upper d = (if d < 10 then digit_char d else char_of (55 + d))"

definition hex4 :: "(nat \<Rightarrow> char) \<Rightarrow> nat \<Rightarrow> string" where
  "hex4 f n = [f (n div 4096 mod 16), f (n div 256 mod 16), f (n div 16 mod 16), f (n mod 16)]"

definition escape_char :: "char \<Rightarrow> string" where
  "escape_char c =
     (if c = CHR 0x5C then [CHR 0x5C, CHR 0x5C]
      else if c = CHR 0x22 then [CHR 0x5C, CHR 0x22]
      else if (of_char c :: nat) < 0x20 \<or> (of_char c :: nat) = 0x7F
      then CHR 0x5C # CHR ''u'' # hex4 hex_lower (of_char c)
      else [c])"

definition TriggerJsonEscape :: "string \<Rightarrow> string" where
  "TriggerJsonEscape s = concat (map escape_char s)"

definition BuildTriggerJson :: "snapshot_trigger \<Rightarrow> string" where
  "BuildTriggerJson t = ''{\"category\": \"'' @ TriggerJsonEscape (st_category t)
     @ ''\", \"source\": \"'' @ TriggerJsonEscape (st_source t) @ ''\"}''"

text \<open>The loops that put a separator between the texts of the elements.\<close>

fun separated :: "string \<Rightarrow> string list \<Rightarrow> string" where
  "separated sep [] = []"
| "separated sep [x] = x"
| "separated sep (x # xs) = x @ sep @ separated sep xs"

definition JsonNumberArray :: "int list \<Rightarrow> string" where
  "JsonNumberArray xs = ''['' @ separated '', '' (map decimal_int xs) @ '']''"

definition newline :: string where "newline = [CHR 0x0A]"

definition JsonStringArray :: "string list \<Rightarrow> string \<Rightarrow> string" where
  "JsonStringArray xs ind =
     (if xs = [] then ''[]''
      else ''['' @ newline
        @ separated ('','' @ newline) (map (\<lambda>x. ind @ ''  \"'' @ TriggerJsonEscape x @ ''\"'') xs) @ newline
        @ ind @ '']'')"

definition Hex16 :: "u16 \<Rightarrow> string" where "Hex16 x = ''0x'' @ hex4 hex_upper (unat x)"

definition bool_text :: "bool \<Rightarrow> string" where "bool_text b = (if b then ''true'' else ''false'')"

definition device_json :: "joystick_state \<Rightarrow> string" where
  "device_json d = ''      {\"instance_id\": '' @ decimal (unat (js_instance d))
     @ '', \"name\": \"'' @ TriggerJsonEscape (js_name d)
     @ ''\", \"guid\": \"'' @ TriggerJsonEscape (js_guid d)
     @ ''\", \"vendor_id\": \"'' @ Hex16 (js_vendor d)
     @ ''\", \"product_id\": \"'' @ Hex16 (js_product d)
     @ ''\", \"joystick_type\": '' @ decimal_int (js_type d)
     @ '', \"gamepad\": '' @ bool_text (js_gamepad d) @ '', \"wheel\": '' @ bool_text (js_wheel d)
     @ '', \"opened\": '' @ bool_text (js_opened d) @ '', \"haptic\": '' @ bool_text (js_haptic d)
     @ '', \"axes\": '' @ JsonNumberArray (map sint (js_axes d))
     @ '', \"buttons\": '' @ JsonNumberArray (map uint (js_buttons d))
     @ '', \"hats\": '' @ JsonNumberArray (map uint (js_hats d)) @ ''}''"

definition transition_json :: "device_transition \<Rightarrow> string" where
  "transition_json t = ''      {\"timestamp_ms\": '' @ decimal (unat (tr_time t))
     @ '', \"from\": '' @ decimal_int (tr_from t) @ '', \"to\": '' @ decimal (unat (tr_to t))
     @ '', \"source\": \"'' @ InputSourceName (tr_source t) @ ''\"}''"

text \<open>The bracketed list of rows, each row after a line break.\<close>

definition rows_json :: "string list \<Rightarrow> string" where
  "rows_json rows = (if rows = [] then [] else newline @ separated ('','' @ newline) rows)
     @ (if rows = [] then ''],'' @ newline else newline @ ''    ],'' @ newline)"

definition latest_json :: "wheel_state \<Rightarrow> string" where
  "latest_json w = (if ws_latest_known w
     then ''{\"instance_id\": '' @ decimal (unat (ws_latest w))
       @ '', \"source\": \"'' @ InputSourceName (ws_latest_source w)
       @ ''\", \"timestamp_ms\": '' @ decimal (unat (ws_latest_time w)) @ ''}''
     else ''null'')"

definition BuildWheelStateJson :: "wheel_state \<Rightarrow> string" where
  "BuildWheelStateJson w = ''{'' @ newline
     @ ''    \"schema\": \"mcla-wheel-state-v1\",'' @ newline
     @ ''    \"config\": {\"l2_button\": '' @ decimal_int (wb_l2 (ws_buttons w))
     @ '', \"r2_button\": '' @ decimal_int (wb_r2 (ws_buttons w)) @ ''},'' @ newline
     @ ''    \"trigger_device\": ''
     @ (case ws_trigger w of None \<Rightarrow> ''null'' | Some d \<Rightarrow> decimal (unat d)) @ '','' @ newline
     @ ''    \"devices\": ['' @ rows_json (map device_json (ws_devices w))
     @ ''    \"host_latest_active\": '' @ latest_json w
     @ '','' @ newline @ ''    \"host_total_transitions\": '' @ decimal (unat (ws_total w)) @ '','' @ newline
     @ ''    \"host_transitions\": ['' @ rows_json (map transition_json (ws_transitions w))
     @ ''    \"sdk_active_controller_log\": '' @ JsonStringArray (ws_controller_log w) ''    '' @ '','' @ newline
     @ ''    \"force_feedback\": {\"source\": \"sdk-log\", \"effect_table\": \"not-exposed-by-sdk\", \"log\": ''
     @ JsonStringArray (ws_ffb_log w) ''    '' @ ''},'' @ newline
     @ ''    \"sdk_device_log\": '' @ JsonStringArray (ws_device_log w) ''    '' @ newline
     @ ''  }''"

subsection \<open>The report text\<close>

definition kPackageReportPendingLine :: string where
  "kPackageReportPendingLine =
     ''launcher_session pending: the launcher adds build, mode and resolution after the game closes''"

definition kMaxReportFieldBytes :: nat where "kMaxReportFieldBytes = 128"

definition printable :: "char \<Rightarrow> bool" where
  "printable c \<longleftrightarrow> (of_char c :: nat) \<ge> 0x20 \<and> (of_char c :: nat) < 0x7F"

definition ReportField :: "string \<Rightarrow> string" where
  "ReportField value =
     (let out = map (\<lambda>c. if printable c then c else CHR ''?'') (take kMaxReportFieldBytes value) in
      if out = [] then ''unknown'' else out)"

text \<open>The loop over the devices keeps the last match of the trigger device, the first wheel.\<close>

definition report_device :: "wheel_state \<Rightarrow> joystick_state option" where
  "report_device w =
     (let triggered = (case ws_trigger w of None \<Rightarrow> None
        | Some d \<Rightarrow> find (\<lambda>j. js_instance j = d) (rev (ws_devices w))) in
      case triggered of Some j \<Rightarrow> Some j | None \<Rightarrow> find js_wheel (ws_devices w))"

definition WheelReportLine :: "wheel_state option \<Rightarrow> string" where
  "WheelReportLine wheel =
     (case wheel of None \<Rightarrow> ''not-recorded (wheel L2 records the wheel)''
      | Some w \<Rightarrow> (case report_device w of
          None \<Rightarrow> ''unknown''
        | Some d \<Rightarrow> ReportField (js_name d) @ '' | VID '' @ Hex16 (js_vendor d) @ '' PID ''
            @ Hex16 (js_product d) @ '' | GUID '' @ ReportField (js_guid d)))"

record report_facts =
  rf_package :: string
  rf_kind :: string
  rf_created :: string
  rf_version :: string
  rf_category :: string
  rf_source :: string
  rf_window :: string
  rf_wheel :: string

definition BuildPackageReportText :: "report_facts \<Rightarrow> string" where
  "BuildPackageReportText f = ''MCLA-R TEST REPORT'' @ newline @ newline
     @ ''Written by the game when this report was recorded. Please answer the four'' @ newline
     @ ''questions below, save this file, and send this whole folder to the owner by'' @ newline
     @ ''hand. Nothing is uploaded automatically.'' @ newline @ newline
     @ ''package '' @ ReportField (rf_package f) @ newline @ ''kind '' @ ReportField (rf_kind f)
     @ newline @ ''created_utc '' @ ReportField (rf_created f)
     @ newline @ ''mcla_version '' @ ReportField (rf_version f)
     @ newline @ ''category '' @ ReportField (rf_category f)
     @ newline @ ''source '' @ ReportField (rf_source f)
     @ newline @ ''wheel '' @ (if rf_wheel f = [] then ''unknown'' else rf_wheel f)
     @ newline @ ''window '' @ ReportField (rf_window f) @ newline
     @ kPackageReportPendingLine
     @ newline @ newline @ ''1. What were you doing?'' @ newline @ newline @ newline
     @ ''2. Steps to make it happen again (if you know):'' @ newline @ newline @ newline
     @ ''3. What went wrong?'' @ newline @ newline @ newline
     @ ''4. What did you expect instead?'' @ newline @ newline"

subsection \<open>The button setting is canonical decimal text\<close>

lemma digit_loop_value:
  "digit_loop v s = (if list_all is_digit s then Some (v * 10 ^ length s + int (number_value s)) else None)"
proof (induction s rule: rev_induct)
  case Nil
  then show ?case by (simp add: number_value_def)
next
  case (snoc c s)
  have "digit_loop v (s @ [c]) = (case digit_loop v s of None \<Rightarrow> None | Some x \<Rightarrow> digit_loop x [c])" for v
    by (induction s arbitrary: v) auto
  with snoc show ?case by (auto simp: algebra_simps)
qed

lemma decimal_int_minus1: "decimal_int (- 1) = ''-1''"
  by code_simp

lemma decimal_int_digits: "0 \<le> v \<Longrightarrow> decimal_int v = decimal (nat v)"
  by (simp add: decimal_int_def)

lemma ParseButtonIndex_iff:
  "ParseButtonIndex t = Some v \<longleftrightarrow> - 1 \<le> v \<and> v \<le> 255 \<and> trim_blanks t = decimal_int v"
proof
  assume p: "ParseButtonIndex t = Some v"
  let ?s = "trim_blanks t"
  show "- 1 \<le> v \<and> v \<le> 255 \<and> ?s = decimal_int v"
  proof (cases "?s = ''-1''")
    case True
    with p have "v = - 1" by (simp add: ParseButtonIndex_def)
    with True show ?thesis by (simp add: decimal_int_minus1)
  next
    case False
    with p have s: "list_all is_digit ?s" "?s \<noteq> []" "v = int (number_value ?s)" "v \<le> 255"
      "length ?s > 1 \<Longrightarrow> hd ?s \<noteq> CHR ''0''"
      by (auto simp: ParseButtonIndex_def Let_def digit_loop_value split: if_splits option.splits)
    then have "decimal (number_value ?s) = ?s" by (intro decimal_number_value)
    with s show ?thesis by (simp add: decimal_int_digits)
  qed
next
  assume a: "- 1 \<le> v \<and> v \<le> 255 \<and> trim_blanks t = decimal_int v"
  show "ParseButtonIndex t = Some v"
  proof (cases "v = - 1")
    case True
    with a show ?thesis by (simp add: ParseButtonIndex_def decimal_int_minus1)
  next
    case False
    with a have v: "0 \<le> v" "v \<le> 255" by auto
    let ?d = "decimal (nat v)"
    have s: "trim_blanks t = ?d" using a v by (simp add: decimal_int_digits)
    have "list_all is_digit ?d" "?d \<noteq> []" by (simp_all add: decimal_all_digits)
    moreover have "?d \<noteq> ''-1''" using decimal_digits [of "CHR ''-''" "nat v"] by (auto simp: is_digit_of_char)
    moreover have "length ?d \<le> 3" using v by (intro decimal_length3) simp
    moreover have "length ?d > 1 \<Longrightarrow> hd ?d \<noteq> CHR ''0''" by (rule decimal_no_leading_zero)
    ultimately show ?thesis
      using v by (simp add: ParseButtonIndex_def s digit_loop_value Let_def)
  qed
qed

text \<open>The wheel button setting is accepted exactly when it is two fields around one comma, each,
  blanks at its ends aside, the canonical decimal text of a button index from -1 (disabled) to 255,
  and the two indices differ unless both are disabled; the result holds exactly those indices.\<close>

theorem ParseWheelButtons_iff:
  "ParseWheelButtons t = Some w \<longleftrightarrow>
     (\<exists>h r. t = h @ CHR '','' # r \<and> CHR '','' \<notin> set h \<and> CHR '','' \<notin> set r
        \<and> trim_blanks h = decimal_int (wb_l2 w) \<and> trim_blanks r = decimal_int (wb_r2 w))
     \<and> - 1 \<le> wb_l2 w \<and> wb_l2 w \<le> 255 \<and> - 1 \<le> wb_r2 w \<and> wb_r2 w \<le> 255
     \<and> \<not> (wb_l2 w = wb_r2 w \<and> wb_l2 w \<noteq> - 1)"
proof (cases "split_at (CHR '','') t")
  case (Pair h x)
  show ?thesis
  proof (cases x)
    case None
    with Pair have "CHR '','' \<notin> set t" by (simp add: split_at_None)
    with Pair None show ?thesis by (auto simp: ParseWheelButtons_def)
  next
    case (Some r)
    with Pair have t: "t = h @ CHR '','' # r" "CHR '','' \<notin> set h" by (simp_all add: split_at_Some)
    have u: "h' = h \<and> r' = r" if "t = h' @ CHR '','' # r'" "CHR '','' \<notin> set h'" for h' r'
      using split_at_append_sep [OF that(2), of r'] that(1) Pair Some by simp
    have e1: "ParseWheelButtons t = Some w \<longleftrightarrow> CHR '','' \<notin> set r
        \<and> ParseButtonIndex h = Some (wb_l2 w) \<and> ParseButtonIndex r = Some (wb_r2 w)
        \<and> \<not> (wb_l2 w \<ge> 0 \<and> wb_l2 w = wb_r2 w)"
      using Pair Some
      by (cases "ParseButtonIndex h"; cases "ParseButtonIndex r")
        (auto simp: ParseWheelButtons_def split: if_splits)
    have e2: "(\<exists>h' r'. t = h' @ CHR '','' # r' \<and> CHR '','' \<notin> set h' \<and> CHR '','' \<notin> set r'
        \<and> trim_blanks h' = decimal_int (wb_l2 w) \<and> trim_blanks r' = decimal_int (wb_r2 w))
      \<longleftrightarrow> CHR '','' \<notin> set r \<and> trim_blanks h = decimal_int (wb_l2 w) \<and> trim_blanks r = decimal_int (wb_r2 w)"
      using t u by blast
    show ?thesis unfolding e1 e2 ParseButtonIndex_iff by auto
  qed
qed

subsection \<open>The ring of transitions refines the whole history\<close>

text \<open>The abstract history: every change of the latest device, however long ago.\<close>

type_synonym activity = "u32 \<times> input_source \<times> u64"

fun history :: "u32 option \<Rightarrow> activity list \<Rightarrow> device_transition list" where
  "history prev [] = []"
| "history prev ((d, s, now) # acts) =
     (if prev = Some d then history prev acts
      else \<lparr>tr_time = now, tr_from = (case prev of None \<Rightarrow> - 1 | Some p \<Rightarrow> int (unat p)), tr_to = d,
             tr_source = s\<rparr> # history (Some d) acts)"

definition latest_of :: "device_tracker \<Rightarrow> u32 option" where
  "latest_of t = (if dt_has_latest t then Some (dt_latest t) else None)"

fun activity_step :: "device_tracker \<Rightarrow> activity \<Rightarrow> device_tracker" where
  "activity_step t (d, s, now) = fst (OnActivity t d s now)"

text \<open>The ring holds the last cells of a history, each at its index modulo the capacity.\<close>

definition holds_history :: "device_tracker \<Rightarrow> device_transition list \<Rightarrow> bool" where
  "holds_history t xs \<longleftrightarrow> length (dt_ring t) = kCapacity \<and> dt_next t = length xs mod kCapacity
     \<and> dt_count t = min (length xs) kCapacity \<and> dt_total t = of_nat (length xs)
     \<and> (\<forall>k < length xs. length xs \<le> k + kCapacity \<longrightarrow> dt_ring t ! (k mod kCapacity) = xs ! k)"

lemma mod_window:
  fixes a b m :: nat
  assumes "a mod m = b mod m" "a < b" "b < a + m"
  shows False
proof -
  have "m dvd b - a" using assms by (simp add: mod_eq_dvd_iff_nat [symmetric])
  moreover have "0 < b - a" "b - a < m" using assms by linarith+
  ultimately show False by (simp add: nat_dvd_not_less)
qed

lemma holds_history_step:
  assumes "holds_history t xs" "dt_has_latest t \<longrightarrow> dt_latest t \<noteq> d"
  shows "holds_history (fst (OnActivity t d s now)) (xs @ history (latest_of t) [(d, s, now)])"
proof -
  let ?x = "\<lparr>tr_time = now, tr_from = (if dt_has_latest t then int (unat (dt_latest t)) else - 1), tr_to = d,
     tr_source = s\<rparr>"
  let ?t = "fst (OnActivity t d s now)" and ?n = "length xs"
  have h: "history (latest_of t) [(d, s, now)] = [?x]"
    using assms(2) by (auto simp: latest_of_def)
  have ring: "dt_ring ?t = (dt_ring t)[?n mod kCapacity := ?x]"
    using assms by (simp add: OnActivity_def holds_history_def)
  have len: "length (dt_ring t) = kCapacity" "?n mod kCapacity < kCapacity"
    using assms(1) by (simp_all add: holds_history_def kCapacity_def)
  have "dt_ring ?t ! (k mod kCapacity) = (xs @ [?x]) ! k" if k: "k < ?n + 1" "?n + 1 \<le> k + kCapacity" for k
  proof (cases "k = ?n")
    case True
    with len show ?thesis by (simp add: ring)
  next
    case False
    then have "k mod kCapacity \<noteq> ?n mod kCapacity"
      using k mod_window [of k kCapacity ?n] by auto
    moreover have "dt_ring t ! (k mod kCapacity) = xs ! k"
      using assms(1) k False by (simp add: holds_history_def)
    ultimately show ?thesis using k False by (simp add: ring nth_append)
  qed
  then show ?thesis
    using assms len unfolding h
    by (auto simp: holds_history_def OnActivity_def mod_Suc)
qed

lemma holds_history_run:
  assumes "holds_history t xs"
  shows "holds_history (run_events activity_step t acts) (xs @ history (latest_of t) acts)"
  using assms
proof (induction acts arbitrary: t xs)
  case (Cons a acts)
  obtain d s now where a: "a = (d, s, now)" by (cases a)
  let ?t = "fst (OnActivity t d s now)"
  have l: "latest_of ?t = Some d" by (simp add: latest_of_def OnActivity_def)
  show ?case
  proof (cases "latest_of t = Some d")
    case True
    then have "holds_history ?t xs"
      using Cons.prems by (auto simp: holds_history_def OnActivity_def latest_of_def split: if_splits)
    from Cons.IH [OF this] True l show ?thesis by (simp add: a)
  next
    case False
    then have "dt_has_latest t \<longrightarrow> dt_latest t \<noteq> d" by (auto simp: latest_of_def)
    note step = Cons.IH [OF holds_history_step [OF Cons.prems this]]
    have "history (latest_of t) (a # acts) = history (latest_of t) [(d, s, now)] @ history (latest_of ?t) acts"
      using False l by (simp add: a)
    with step [of s now] show ?thesis by (simp add: a del: history.simps)
  qed
qed simp

lemma Transitions_last:
  assumes "holds_history t xs"
  shows "Transitions t = drop (length xs - kCapacity) xs"
proof (rule nth_equalityI)
  let ?n = "length xs"
  have c: "dt_count t = min ?n kCapacity" "dt_next t = ?n mod kCapacity"
    using assms by (simp_all add: holds_history_def)
  then show l: "length (Transitions t) = length (drop (?n - kCapacity) xs)"
    by (simp add: Transitions_def Let_def)
  fix i assume i: "i < length (Transitions t)"
  then have i': "i < min ?n kCapacity" by (simp add: Transitions_def Let_def c)
  let ?k = "?n - kCapacity + i"
  have "((?n mod kCapacity + kCapacity - min ?n kCapacity) mod kCapacity + i) mod kCapacity = ?k mod kCapacity"
  proof (cases "?n < kCapacity")
    case True
    then show ?thesis by simp
  next
    case False
    then have "?n = (?n - kCapacity) + kCapacity" by simp
    then have "?n mod kCapacity = (?n - kCapacity) mod kCapacity" by (metis mod_add_self2)
    with False show ?thesis by (simp add: mod_simps)
  qed
  moreover have "?k < ?n" "?n \<le> ?k + kCapacity" using i' by linarith+
  then have "dt_ring t ! (?k mod kCapacity) = xs ! ?k"
    using assms unfolding holds_history_def by blast
  ultimately show "Transitions t ! i = drop (?n - kCapacity) xs ! i"
    using i' by (simp add: Transitions_def Let_def c)
qed

text \<open>C29: the ring buffer refines the unbounded history of device changes: after any sequence of
  activity reports, \<open>Transitions\<close> is the last 16 of all changes, oldest first, and the total counts
  all of them (modulo its width); the index arithmetic never loses or reorders one.\<close>

theorem transitions_refine_history:
  "let t = run_events activity_step new_device_tracker acts; xs = history None acts in
     Transitions t = drop (length xs - kCapacity) xs \<and> dt_total t = of_nat (length xs)"
proof -
  have "holds_history new_device_tracker []" "latest_of new_device_tracker = None"
    by (simp_all add: holds_history_def new_device_tracker_def latest_of_def)
  then have "holds_history (run_events activity_step new_device_tracker acts) (history None acts)"
    using holds_history_run [of new_device_tracker "[]" acts] by simp
  then show ?thesis by (simp add: Let_def Transitions_last holds_history_def)
qed

subsection \<open>The hold combination\<close>

datatype combo_event = Press u32 pad_button bool u64 | PollAt u64 | Removed u32

fun combo_step :: "combo \<Rightarrow> combo_event \<Rightarrow> combo" where
  "combo_step c (Press d b p now) = fst (OnButton c d b p now)"
| "combo_step c (PollAt now) = fst (Poll c now)"
| "combo_step c (Removed d) = combo_removed c d"

text \<open>Which buttons the events say are held, whatever the trigger makes of them.\<close>

fun held_step :: "(u32 \<Rightarrow> pad_button \<Rightarrow> bool) \<Rightarrow> combo_event \<Rightarrow> u32 \<Rightarrow> pad_button \<Rightarrow> bool" where
  "held_step h (Press d b p now) = (\<lambda>d' b'. if d' = d \<and> b' = b then p else h d' b')"
| "held_step h (PollAt now) = h"
| "held_step h (Removed d) = (\<lambda>d' b'. d' \<noteq> d \<and> h d' b')"

definition held :: "combo_event list \<Rightarrow> u32 \<Rightarrow> pad_button \<Rightarrow> bool" where
  "held es = foldl held_step (\<lambda>d b. False) es"

definition both_held :: "combo_event list \<Rightarrow> u32 \<Rightarrow> bool" where
  "both_held es d \<longleftrightarrow> held es d StartButton \<and> held es d BackButton"

text \<open>An event that releases one of the two buttons of a device.\<close>

fun releases :: "u32 \<Rightarrow> combo_event \<Rightarrow> bool" where
  "releases d (Press d' b p now) \<longleftrightarrow> d' = d \<and> \<not> p"
| "releases d (PollAt now) \<longleftrightarrow> False"
| "releases d (Removed d') \<longleftrightarrow> d' = d"

lemma held_simps [simp]:
  "held [] d b = False"
  "held (es @ [e]) = held_step (held es) e"
  by (simp_all add: held_def)

subsection \<open>The table of pads\<close>

lemma first_index_Some:
  "first_index P xs = Some i \<Longrightarrow> i < length xs \<and> P (xs ! i) \<and> (\<forall>k < i. \<not> P (xs ! k))"
proof (induction xs arbitrary: i)
  case (Cons x xs)
  then show ?case by (cases i) (auto split: if_splits simp: less_Suc_eq_0_disj)
qed simp

lemma first_index_None: "first_index P xs = None \<longleftrightarrow> (\<forall>x \<in> set xs. \<not> P x)"
  by (induction xs) auto

text \<open>Used cells belong to different devices, and show only buttons that are held.\<close>

definition pads_ok :: "pad list \<Rightarrow> (u32 \<Rightarrow> pad_button \<Rightarrow> bool) \<Rightarrow> bool" where
  "pads_ok ps h \<longleftrightarrow>
     (\<forall>i < length ps. pd_used (ps ! i) \<longrightarrow>
        (pd_start (ps ! i) \<longrightarrow> h (pd_device (ps ! i)) StartButton)
        \<and> (pd_back (ps ! i) \<longrightarrow> h (pd_device (ps ! i)) BackButton))
     \<and> (\<forall>i < length ps. \<forall>k < length ps. pd_used (ps ! i) \<and> pd_used (ps ! k)
          \<and> pd_device (ps ! i) = pd_device (ps ! k) \<longrightarrow> i = k)"

lemma Find_cases:
  obtains (absent) "Find ps d mk = (ps, None)" "\<forall>i < length ps. pd_used (ps ! i) \<longrightarrow> pd_device (ps ! i) \<noteq> d"
  | (present) i where "Find ps d mk = (ps, Some i)" "i < length ps" "pd_used (ps ! i)" "pd_device (ps ! i) = d"
  | (fresh) i where "mk" "Find ps d mk = (ps[i := \<lparr>pd_used = True, pd_device = d, pd_start = False, pd_back = False\<rparr>], Some i)"
      "i < length ps" "\<not> pd_used (ps ! i)" "\<forall>i < length ps. pd_used (ps ! i) \<longrightarrow> pd_device (ps ! i) \<noteq> d"
proof (cases "first_index (\<lambda>p. pd_used p \<and> pd_device p = d) ps")
  case (Some i)
  with present [of i] first_index_Some [OF Some] show ?thesis by (simp add: Find_def)
next
  case None
  then have n: "\<forall>i < length ps. pd_used (ps ! i) \<longrightarrow> pd_device (ps ! i) \<noteq> d"
    by (auto simp: first_index_None)
  show ?thesis
  proof (cases "first_index (\<lambda>p. \<not> pd_used p) ps")
    case None': None
    with None n absent show ?thesis by (simp add: Find_def)
  next
    case (Some i)
    with None n first_index_Some [OF Some] absent fresh [of i] show ?thesis
      by (cases mk) (simp_all add: Find_def)
  qed
qed

text \<open>Writing the cell of device \<open>d\<close>, present or fresh, with a truthful content.\<close>

lemma pads_ok_write:
  assumes ok: "pads_ok ps h" and i: "i < length ps"
    and others: "\<forall>k < length ps. k \<noteq> i \<and> pd_used (ps ! k) \<longrightarrow> pd_device (ps ! k) \<noteq> d"
    and same: "\<forall>d' b. d' \<noteq> d \<longrightarrow> h' d' b = h d' b"
    and p: "pd_used p \<Longrightarrow> pd_device p = d \<and> (pd_start p \<longrightarrow> h' d StartButton) \<and> (pd_back p \<longrightarrow> h' d BackButton)"
  shows "pads_ok (ps[i := p]) h'"
proof -
  have "\<forall>k < length ps. pd_used (ps[i := p] ! k) \<longrightarrow>
      (pd_start (ps[i := p] ! k) \<longrightarrow> h' (pd_device (ps[i := p] ! k)) StartButton)
      \<and> (pd_back (ps[i := p] ! k) \<longrightarrow> h' (pd_device (ps[i := p] ! k)) BackButton)"
  proof (intro allI impI)
    fix k assume k: "k < length ps" "pd_used (ps[i := p] ! k)"
    show "(pd_start (ps[i := p] ! k) \<longrightarrow> h' (pd_device (ps[i := p] ! k)) StartButton)
      \<and> (pd_back (ps[i := p] ! k) \<longrightarrow> h' (pd_device (ps[i := p] ! k)) BackButton)"
    proof (cases "k = i")
      case True
      with k i p show ?thesis by simp
    next
      case False
      with k have "pd_used (ps ! k)" by simp
      with False k ok others same show ?thesis by (simp add: pads_ok_def)
    qed
  qed
  moreover have "a = b" if "a < length ps" "b < length ps" "pd_used (ps[i := p] ! a)" "pd_used (ps[i := p] ! b)"
    "pd_device (ps[i := p] ! a) = pd_device (ps[i := p] ! b)" for a b
  proof -
    have q: "pd_device p = d" if "a = i \<or> b = i" using that p i \<open>pd_used (ps[i := p] ! a)\<close> \<open>pd_used (ps[i := p] ! b)\<close> by auto
    consider "a = i" "b = i" | "a = i" "b \<noteq> i" | "a \<noteq> i" "b = i" | "a \<noteq> i" "b \<noteq> i" by blast
    then show ?thesis
    proof cases
      case 2
      with that q i others show ?thesis by auto
    next
      case 3
      with that q i others show ?thesis by auto
    next
      case 4
      with that ok show ?thesis by (simp add: pads_ok_def)
    qed simp
  qed
  ultimately show ?thesis unfolding pads_ok_def by simp
qed


definition owner_pad :: "pad list \<Rightarrow> u32 \<Rightarrow> bool" where
  "owner_pad ps d \<longleftrightarrow> (\<exists>i < length ps. pd_used (ps ! i) \<and> pd_device (ps ! i) = d \<and> pd_start (ps ! i) \<and> pd_back (ps ! i))"

definition combo_inv :: "combo \<Rightarrow> (u32 \<Rightarrow> pad_button \<Rightarrow> bool) \<Rightarrow> bool" where
  "combo_inv c h \<longleftrightarrow> pads_ok (cb_pads c) h \<and> \<not> (cb_armed c \<and> cb_fired c)
     \<and> (cb_armed c \<or> cb_fired c \<longrightarrow> owner_pad (cb_pads c) (cb_owner c))"

lemma owner_pad_other: "owner_pad ps d \<Longrightarrow> i < length ps \<Longrightarrow> \<not> (pd_used (ps ! i) \<and> pd_device (ps ! i) = d)
    \<Longrightarrow> owner_pad (ps[i := p]) d"
  unfolding owner_pad_def by (metis length_list_update nth_list_update_neq)

lemma owner_pad_here: "i < length ps \<Longrightarrow> pd_used p \<and> pd_device p = d \<and> pd_start p \<and> pd_back p \<Longrightarrow> owner_pad (ps[i := p]) d"
  unfolding owner_pad_def by (metis length_list_update nth_list_update_eq)

lemma owner_pad_unique:
  assumes "owner_pad ps d" "pads_ok ps h" "i < length ps" "pd_used (ps ! i)" "pd_device (ps ! i) = d"
  shows "pd_start (ps ! i) \<and> pd_back (ps ! i)"
  using assms unfolding owner_pad_def pads_ok_def by metis

text \<open>The outcomes of a button event, in terms of the cell it wrote.\<close>

lemma OnButton_up:
  "Find (cb_pads c) d False = (ps, Some i) \<Longrightarrow> i < length ps \<Longrightarrow> p = press b False (ps ! i) \<Longrightarrow>
   fst (OnButton c d b False now) = c\<lparr>cb_pads := ps[i := if pd_start p \<or> pd_back p then p else no_pad],
     cb_armed := cb_armed c \<and> cb_owner c \<noteq> d, cb_fired := cb_fired c \<and> cb_owner c \<noteq> d\<rparr>"
  by (auto simp: OnButton_def Let_def)

lemma OnButton_down:
  "Find (cb_pads c) d True = (ps, Some i) \<Longrightarrow> i < length ps \<Longrightarrow> p = press b True (ps ! i) \<Longrightarrow>
   fst (OnButton c d b True now) =
     (if pd_start p \<and> pd_back p \<and> \<not> cb_armed c \<and> \<not> cb_fired c
      then c\<lparr>cb_pads := ps[i := p], cb_armed := True, cb_owner := d, cb_deadline := now + ucast (cb_hold c)\<rparr>
      else c\<lparr>cb_pads := ps[i := p]\<rparr>)"
  by (simp add: OnButton_def Let_def)

lemma OnButton_absent: "Find (cb_pads c) d p = (ps, None) \<Longrightarrow> fst (OnButton c d b p now) = c\<lparr>cb_pads := ps\<rparr>"
  by (simp add: OnButton_def)

lemma press_simps [simp]:
  "pd_used (press b v p) = pd_used p" "pd_device (press b v p) = pd_device p"
  "pd_start (press b v p) = (if b = StartButton then v else pd_start p)"
  "pd_back (press b v p) = (if b = BackButton then v else pd_back p)"
  by (cases b; simp add: press_def)+

lemma no_pad_unused [simp]: "\<not> pd_used no_pad"
  by (simp add: no_pad_def)

lemma pads_ok_absent:
  assumes "pads_ok ps h" "\<forall>i < length ps. pd_used (ps ! i) \<longrightarrow> pd_device (ps ! i) \<noteq> d"
    "\<forall>d' b. d' \<noteq> d \<longrightarrow> h' d' b = h d' b"
  shows "pads_ok ps h'"
  using assms unfolding pads_ok_def by metis

lemma combo_inv_up:
  assumes inv: "combo_inv c h"
  shows "combo_inv (fst (OnButton c d b False now)) (held_step h (Press d b False now))"
proof (cases rule: Find_cases [of "cb_pads c" d False])
  case absent
  then have "\<not> owner_pad (cb_pads c) d" by (auto simp: owner_pad_def)
  then have "cb_armed c \<or> cb_fired c \<Longrightarrow> owner_pad (cb_pads c) (cb_owner c)"
    using inv by (auto simp: combo_inv_def)
  moreover have "pads_ok (cb_pads c) (held_step h (Press d b False now))"
    by (rule pads_ok_absent [where h = h, OF _ absent(2)]) (use inv in \<open>simp_all add: combo_inv_def\<close>)
  ultimately show ?thesis
    using inv by (simp add: OnButton_absent [OF absent(1)] combo_inv_def)
next
  case (present i)
  let ?ps = "cb_pads c" and ?p = "press b False (cb_pads c ! i)"
  have ok: "pads_ok ?ps h" using inv by (simp add: combo_inv_def)
  have others: "\<forall>k < length ?ps. k \<noteq> i \<and> pd_used (?ps ! k) \<longrightarrow> pd_device (?ps ! k) \<noteq> d"
    using ok present unfolding pads_ok_def by metis
  have hs: "pd_start (?ps ! i) \<longrightarrow> h d StartButton" "pd_back (?ps ! i) \<longrightarrow> h d BackButton"
    using ok present unfolding pads_ok_def by metis+
  have "pads_ok (?ps[i := if pd_start ?p \<or> pd_back ?p then ?p else no_pad]) (held_step h (Press d b False now))"
    by (rule pads_ok_write [OF ok present(2) others])
      (use hs present(3,4) in \<open>auto split: if_splits\<close>)
  moreover have "owner_pad (?ps[i := q]) (cb_owner c)" if "cb_armed c \<or> cb_fired c" "cb_owner c \<noteq> d" for q
    using inv that present by (intro owner_pad_other) (auto simp: combo_inv_def)
  ultimately show ?thesis
    using inv unfolding OnButton_up [OF present(1,2) refl, of b now] combo_inv_def by auto
qed simp


text \<open>After a press, the written cell is the device's; the trigger may have been armed for it.\<close>

lemma combo_inv_write:
  assumes inv: "combo_inv c h" and ok: "pads_ok (ps[i := p]) h'" and i: "i < length ps"
    and keep: "cb_armed c \<or> cb_fired c \<Longrightarrow> owner_pad (ps[i := p]) (cb_owner c)"
    and p: "pd_used p" "pd_device p = d"
  shows "combo_inv (if pd_start p \<and> pd_back p \<and> \<not> cb_armed c \<and> \<not> cb_fired c
      then c\<lparr>cb_pads := ps[i := p], cb_armed := True, cb_owner := d, cb_deadline := q\<rparr>
      else c\<lparr>cb_pads := ps[i := p]\<rparr>) h'"
  using inv ok keep owner_pad_here [OF i, of p d] p by (simp add: combo_inv_def)

lemma combo_inv_down:
  assumes inv: "combo_inv c h"
  shows "combo_inv (fst (OnButton c d b True now)) (held_step h (Press d b True now))"
proof (cases rule: Find_cases [of "cb_pads c" d True])
  case absent
  have "pads_ok (cb_pads c) (held_step h (Press d b True now))"
    by (rule pads_ok_absent [where h = h, OF _ absent(2)]) (use inv in \<open>simp_all add: combo_inv_def\<close>)
  then show ?thesis using inv by (simp add: OnButton_absent [OF absent(1)] combo_inv_def)
next
  case (present i)
  let ?ps = "cb_pads c" and ?p = "press b True (cb_pads c ! i)"
  have ok: "pads_ok ?ps h" using inv by (simp add: combo_inv_def)
  have others: "\<forall>k < length ?ps. k \<noteq> i \<and> pd_used (?ps ! k) \<longrightarrow> pd_device (?ps ! k) \<noteq> d"
    using ok present unfolding pads_ok_def by metis
  have hs: "pd_start (?ps ! i) \<longrightarrow> h d StartButton" "pd_back (?ps ! i) \<longrightarrow> h d BackButton"
    using ok present unfolding pads_ok_def by metis+
  have w: "pads_ok (?ps[i := ?p]) (held_step h (Press d b True now))"
    by (rule pads_ok_write [OF ok present(2) others]) (use hs present(3,4) in \<open>auto split: if_splits\<close>)
  have k: "owner_pad (?ps[i := ?p]) (cb_owner c)" if a: "cb_armed c \<or> cb_fired c"
  proof (cases "cb_owner c = d")
    case True
    with inv a have "owner_pad ?ps d" by (auto simp: combo_inv_def)
    from owner_pad_unique [OF this ok present(2,3,4)] True present show ?thesis
      by (intro owner_pad_here) auto
  next
    case False
    with inv a present show ?thesis by (intro owner_pad_other) (auto simp: combo_inv_def)
  qed
  show ?thesis
    unfolding OnButton_down [OF present(1,2) refl, of b now]
    by (rule combo_inv_write [OF inv w present(2) k]) (use present in simp_all)
next
  case (fresh i)
  let ?n = "\<lparr>pd_used = True, pd_device = d, pd_start = False, pd_back = False\<rparr>"
  let ?ps = "(cb_pads c)[i := ?n]" and ?p = "press b True ?n"
  have ok: "pads_ok (cb_pads c) h" using inv by (simp add: combo_inv_def)
  have others: "\<forall>k < length (cb_pads c). k \<noteq> i \<and> pd_used (cb_pads c ! k) \<longrightarrow> pd_device (cb_pads c ! k) \<noteq> d"
    using fresh(5) by blast
  have i: "i < length ?ps" "?ps ! i = ?n" using fresh(3) by simp_all
  have w: "pads_ok (?ps[i := ?p]) (held_step h (Press d b True now))"
    unfolding list_update_overwrite
    by (rule pads_ok_write [OF ok fresh(3) others]) (auto split: if_splits)
  have k: "owner_pad (?ps[i := ?p]) (cb_owner c)" if "cb_armed c \<or> cb_fired c"
    unfolding list_update_overwrite
    using inv that fresh(3,4) by (intro owner_pad_other) (auto simp: combo_inv_def)
  show ?thesis
    using combo_inv_write [OF inv w i(1) k, of d] OnButton_down [OF fresh(2) i(1) refl, of b now]
    unfolding i(2) by simp
qed

lemma combo_inv_removed:
  assumes inv: "combo_inv c h"
  shows "combo_inv (combo_removed c d) (held_step h (Removed d))"
proof -
  let ?f = "\<lambda>p. if pd_used p \<and> pd_device p = d then no_pad else p"
  have "pads_ok (cb_pads c) h" using inv by (simp add: combo_inv_def)
  then have "pads_ok (map ?f (cb_pads c)) (held_step h (Removed d))"
    unfolding pads_ok_def by (simp split: if_splits)
  moreover have "owner_pad (map ?f (cb_pads c)) q" if "owner_pad (cb_pads c) q" "q \<noteq> d" for q
    using that unfolding owner_pad_def by force
  ultimately show ?thesis using inv by (auto simp: combo_inv_def combo_removed_def Let_def)
qed

lemma combo_inv_step: "combo_inv c h \<Longrightarrow> combo_inv (combo_step c e) (held_step h e)"
proof (cases e)
  case (Press d b p now)
  moreover assume "combo_inv c h"
  ultimately show ?thesis using combo_inv_up combo_inv_down by (cases p) auto
next
  case (PollAt now)
  moreover assume "combo_inv c h"
  ultimately show ?thesis by (auto simp: combo_inv_def Poll_def)
next
  case (Removed d)
  moreover assume "combo_inv c h"
  ultimately show ?thesis using combo_inv_removed [of c h d] by simp
qed


definition combo_run :: "u32 \<Rightarrow> combo_event list \<Rightarrow> combo" where
  "combo_run hold es = run_events combo_step (new_combo hold) es"

lemma combo_run_simps [simp]:
  "combo_run hold [] = new_combo hold"
  "combo_run hold (es @ [e]) = combo_step (combo_run hold es) e"
  by (simp_all add: combo_run_def)

lemma combo_run_inv: "combo_inv (combo_run hold es) (held es)"
proof (induction es rule: rev_induct)
  case Nil
  then show ?case by (simp add: combo_inv_def new_combo_def pads_ok_def no_pad_def nth_Cons' numeral_eq_Suc)
next
  case (snoc e es)
  then show ?case using combo_inv_step by simp
qed

lemma owner_held: "combo_inv c h \<Longrightarrow> cb_armed c \<or> cb_fired c \<Longrightarrow> h (cb_owner c) StartButton \<and> h (cb_owner c) BackButton"
  unfolding combo_inv_def pads_ok_def owner_pad_def by metis

text \<open>How a step changes the state of the combination: it arms only on a press, and what is armed or
  fired stays with its owner until a poll fires it or the owner releases.\<close>

lemma release_outcome:
  assumes "combo_inv c h"
  shows "cb_armed (fst (OnButton c d b False now)) = (cb_armed c \<and> cb_owner c \<noteq> d)
     \<and> cb_fired (fst (OnButton c d b False now)) = (cb_fired c \<and> cb_owner c \<noteq> d)
     \<and> cb_owner (fst (OnButton c d b False now)) = cb_owner c
     \<and> cb_deadline (fst (OnButton c d b False now)) = cb_deadline c
     \<and> cb_hold (fst (OnButton c d b False now)) = cb_hold c"
proof (cases rule: Find_cases [of "cb_pads c" d False])
  case absent
  then have "\<not> owner_pad (cb_pads c) d" by (auto simp: owner_pad_def)
  then have "cb_owner c = d \<Longrightarrow> \<not> cb_armed c \<and> \<not> cb_fired c"
    using assms by (auto simp: combo_inv_def)
  then show ?thesis by (auto simp: OnButton_absent [OF absent(1)])
next
  case (present i)
  show ?thesis unfolding OnButton_up [OF present(1,2) refl, of b now] by simp
qed simp

lemma press_outcome:
  obtains (unchanged) "cb_armed (fst (OnButton c d b True now)) = cb_armed c"
      "cb_fired (fst (OnButton c d b True now)) = cb_fired c"
      "cb_owner (fst (OnButton c d b True now)) = cb_owner c"
      "cb_deadline (fst (OnButton c d b True now)) = cb_deadline c"
      "cb_hold (fst (OnButton c d b True now)) = cb_hold c"
  | (arms) "\<not> cb_armed c" "\<not> cb_fired c" "cb_armed (fst (OnButton c d b True now))"
      "\<not> cb_fired (fst (OnButton c d b True now))" "cb_owner (fst (OnButton c d b True now)) = d"
      "cb_deadline (fst (OnButton c d b True now)) = now + ucast (cb_hold c)"
      "cb_hold (fst (OnButton c d b True now)) = cb_hold c"
proof -
  have w: thesis if "Find (cb_pads c) d True = (ps, Some i)" "i < length ps" for ps i
  proof (cases "pd_start (press b True (ps ! i)) \<and> pd_back (press b True (ps ! i)) \<and> \<not> cb_armed c \<and> \<not> cb_fired c")
    case True
    then show ?thesis using OnButton_down [OF that refl, of b now] by (intro arms) simp_all
  next
    case False
    then show ?thesis using OnButton_down [OF that refl, of b now] by (intro unchanged) auto
  qed
  show thesis
  proof (cases rule: Find_cases [of "cb_pads c" d True])
    case absent
    then show ?thesis by (intro unchanged) (simp_all add: OnButton_absent)
  next
    case (present i)
    then show ?thesis by (intro w)
  next
    case (fresh i)
    show ?thesis by (rule w [OF fresh(2)]) (use fresh(3) in simp)
  qed
qed

lemma step_armed [consumes 2, case_names kept armed]:
  assumes inv: "combo_inv c h" and a: "cb_armed (combo_step c e)"
  obtains (kept) "cb_armed c" "cb_owner (combo_step c e) = cb_owner c" "cb_deadline (combo_step c e) = cb_deadline c"
      "\<not> releases (cb_owner c) e"
  | (armed) b t where "e = Press (cb_owner (combo_step c e)) b True t"
      "cb_deadline (combo_step c e) = t + ucast (cb_hold c)"
proof (cases e)
  case (PollAt now)
  with a kept show ?thesis by (simp add: Poll_def split: if_splits)
next
  case (Removed d)
  with a show ?thesis by (intro kept) (auto simp: combo_removed_def Let_def split: if_splits)
next
  case (Press d b p now)
  show ?thesis
  proof (cases p)
    case True
    show ?thesis
    proof (cases rule: press_outcome [of c d b now])
      case unchanged
      with Press True a show ?thesis by (intro kept) simp_all
    next
      case arms
      with Press True show ?thesis by (intro armed [of b now]) simp_all
    qed
  next
    case False
    with Press a release_outcome [OF inv, of d b now] show ?thesis by (intro kept) auto
  qed
qed

lemma step_fired:
  assumes inv: "combo_inv c h" and f: "cb_fired c" "\<not> releases (cb_owner c) e"
  shows "cb_fired (combo_step c e) \<and> cb_owner (combo_step c e) = cb_owner c"
proof (cases e)
  case (PollAt now)
  with f show ?thesis by (simp add: Poll_def)
next
  case (Removed d)
  with f show ?thesis by (auto simp: combo_removed_def Let_def)
next
  case (Press d b p now)
  show ?thesis
  proof (cases p)
    case True
    with Press f show ?thesis by (cases rule: press_outcome [of c d b now]) simp_all
  next
    case False
    with Press f release_outcome [OF inv, of d b now] show ?thesis by auto
  qed
qed

lemma step_hold: "combo_inv c h \<Longrightarrow> cb_hold (combo_step c e) = cb_hold c"
proof (cases e)
  case (Press d b p now)
  assume inv: "combo_inv c h"
  show ?thesis
  proof (cases p)
    case True
    with Press show ?thesis by (cases rule: press_outcome [of c d b now]) simp_all
  next
    case False
    with Press release_outcome [OF inv, of d b now] show ?thesis by simp
  qed
qed (simp_all add: Poll_def combo_removed_def Let_def)

lemma run_hold: "cb_hold (combo_run hold es) = hold"
proof (induction es rule: rev_induct)
  case (snoc e es)
  then show ?case using step_hold [OF combo_run_inv [of hold es], of e] by simp
qed (simp add: new_combo_def)

text \<open>The press that armed the trigger, and what happened since.\<close>

definition held_since :: "combo_event list \<Rightarrow> u32 \<Rightarrow> u64 \<Rightarrow> bool" where
  "held_since es d t \<longleftrightarrow> (\<exists>xs b ys. es = xs @ Press d b True t # ys
     \<and> both_held (xs @ [Press d b True t]) d \<and> (\<forall>e \<in> set ys. \<not> releases d e))"

lemma held_since_snoc: "held_since es d t \<Longrightarrow> \<not> releases d e \<Longrightarrow> held_since (es @ [e]) d t"
proof -
  assume "held_since es d t" and e: "\<not> releases d e"
  then obtain xs b ys where "es = xs @ Press d b True t # ys" "both_held (xs @ [Press d b True t]) d"
    "\<forall>e \<in> set ys. \<not> releases d e"
    unfolding held_since_def by blast
  with e show ?thesis
    unfolding held_since_def by (intro exI [of _ xs] exI [of _ b] exI [of _ "ys @ [e]"]) simp
qed

lemma armed_since:
  "cb_armed (combo_run hold es) \<Longrightarrow>
   \<exists>t. cb_deadline (combo_run hold es) = t + ucast hold \<and> held_since es (cb_owner (combo_run hold es)) t"
proof (induction es rule: rev_induct)
  case Nil
  then show ?case by (simp add: new_combo_def)
next
  case (snoc e es)
  let ?c = "combo_run hold es" and ?c' = "combo_run hold (es @ [e])"
  have a: "cb_armed (combo_step ?c e)" using snoc.prems by simp
  show ?case using combo_run_inv a
  proof (cases rule: step_armed)
    case kept
    with snoc.IH obtain t where "cb_deadline ?c = t + ucast hold" "held_since es (cb_owner ?c) t" by blast
    with kept show ?thesis using held_since_snoc by auto
  next
    case (armed b t)
    have "both_held (es @ [e]) (cb_owner ?c')"
      using owner_held [OF combo_run_inv [of hold "es @ [e]"]] snoc.prems by (simp add: both_held_def)
    then have "held_since (es @ [e]) (cb_owner ?c') t"
      unfolding held_since_def using armed(1) by (intro exI [of _ es] exI [of _ b] exI [of _ "[]"]) simp
    with armed show ?thesis by (auto simp: run_hold)
  qed
qed

lemma fired_keeps:
  assumes "cb_fired (combo_run hold es)" "\<forall>e \<in> set zs. \<not> releases (cb_owner (combo_run hold es)) e"
  shows "cb_fired (combo_run hold (es @ zs)) \<and> cb_owner (combo_run hold (es @ zs)) = cb_owner (combo_run hold es)"
  using assms(2)
proof (induction zs rule: rev_induct)
  case Nil
  with assms show ?case by simp
next
  case (snoc z zs)
  then have z: "cb_fired (combo_run hold (es @ zs))" "cb_owner (combo_run hold (es @ zs)) = cb_owner (combo_run hold es)"
    by simp_all
  have "\<not> releases (cb_owner (combo_run hold (es @ zs))) z" using snoc.prems z(2) by simp
  from step_fired [OF combo_run_inv z(1) this] z(2) show ?case
    by (simp flip: append_assoc)
qed


text \<open>C28: the combination fires only for a real hold: if a poll fires at \<open>now\<close> after any sequence of
  button, poll and removal events of any number of gamepads, then one device had both buttons down
  at a press of time \<open>t\<close>, released neither (and was not removed) since, and \<open>now\<close> is at or past
  \<open>t + hold_ms\<close> (in the 64-bit arithmetic of the deadline). A tap never fires.\<close>

theorem combo_fires_after_hold:
  assumes "snd (Poll (combo_run hold es) now)"
  shows "\<exists>t. held_since es (cb_owner (combo_run hold es)) t \<and> t + ucast hold \<le> now
     \<and> both_held es (cb_owner (combo_run hold es))"
proof -
  let ?c = "combo_run hold es"
  have a: "cb_armed ?c" "cb_deadline ?c \<le> now"
    using assms by (auto simp: Poll_def split: if_splits)
  then obtain t where "cb_deadline ?c = t + ucast hold" "held_since es (cb_owner ?c) t"
    using armed_since by blast
  with a owner_held [OF combo_run_inv] show ?thesis by (auto simp: both_held_def)
qed

definition example_combo_events :: "combo_event list" where
  "example_combo_events = [Press 3 StartButton True 10, Press 4 BackButton True 15, Press 3 BackButton True 20]"

theorem combo_fires_after_hold_witness:
  "snd (Poll (combo_run 1000 example_combo_events) 1020)
   \<and> both_held example_combo_events (cb_owner (combo_run 1000 example_combo_events))"
proof -
  have p: "snd (Poll (combo_run 1000 example_combo_events) 1020)" by code_simp
  with combo_fires_after_hold [OF p] show ?thesis by blast
qed

text \<open>One hold gives one snapshot: between two polls that fire, the device that fired the first
  time released one of the two buttons or was removed, whatever else happened in between.\<close>

theorem combo_fires_once:
  assumes "snd (Poll (combo_run hold es) now)"
    and "snd (Poll (combo_run hold (es @ PollAt now # zs)) later)"
  shows "\<exists>e \<in> set zs. releases (cb_owner (combo_run hold es)) e"
proof (rule ccontr)
  assume n: "\<not> ?thesis"
  have f: "cb_fired (combo_run hold (es @ [PollAt now]))"
    "cb_owner (combo_run hold (es @ [PollAt now])) = cb_owner (combo_run hold es)"
    using assms(1) by (auto simp: Poll_def split: if_splits)
  with n have "cb_fired (combo_run hold ((es @ [PollAt now]) @ zs))"
    using fired_keeps [OF f(1), of zs] by simp
  moreover have "cb_armed (combo_run hold (es @ PollAt now # zs))"
    using assms(2) by (auto simp: Poll_def split: if_splits)
  moreover have "combo_inv (combo_run hold (es @ PollAt now # zs)) (held (es @ PollAt now # zs))"
    by (rule combo_run_inv)
  ultimately show False by (simp add: combo_inv_def)
qed

theorem combo_fires_once_witness:
  "\<exists>e \<in> set [Press 3 StartButton False 1030, Press 3 StartButton True 1040].
     releases (cb_owner (combo_run 1000 example_combo_events)) e"
proof -
  have "snd (Poll (combo_run 1000 example_combo_events) 1020)" by code_simp
  moreover have "snd (Poll (combo_run 1000 (example_combo_events @ PollAt 1020 #
      [Press 3 StartButton False 1030, Press 3 StartButton True 1040])) 2040)" by code_simp
  ultimately show ?thesis by (rule combo_fires_once)
qed

end
