(* ===== verification/Preferences.thy ===== *)
theory Preferences
  imports LibraryCodec
begin

section \<open>Launcher preferences (\<open>mcla_launcher_preferences.h\<close>, \<open>mcla_render_target_policy.h\<close>)\<close>

text \<open>
  The render target table and the preferences file, which wraps an encoded library. The file has
  three versions, chosen by the values stored; reading is a composition of the field readers of
  \<open>LibraryCodec\<close>, with the errors replaced as the code replaces them.
\<close>

subsection \<open>Render targets\<close>

record render_target =
  rt_id :: u32
  rt_width :: u32
  rt_height :: u32
  rt_guest_width :: u32
  rt_guest_height :: u32
  rt_scale :: u32

definition target_row :: "u32 \<Rightarrow> u32 \<Rightarrow> u32 \<Rightarrow> u32 \<Rightarrow> u32 \<Rightarrow> u32 \<Rightarrow> render_target" where
  "target_row i w h gw gh s = \<lparr>rt_id = i, rt_width = w, rt_height = h, rt_guest_width = gw,
     rt_guest_height = gh, rt_scale = s\<rparr>"

definition kRenderTargets :: "render_target list" where
  "kRenderTargets = [target_row 720 1280 720 1280 720 1, target_row 1080 1920 1080 960 540 2,
     target_row 1440 2560 1440 1280 720 2, target_row 2160 3840 2160 1280 720 3]"

definition FindRenderTarget :: "u32 \<Rightarrow> render_target option" where
  "FindRenderTarget i = find (\<lambda>t. rt_id t = i) kRenderTargets"

subsection \<open>Preferences\<close>

record preferences =
  pr_library :: profile_library
  pr_build_root :: u16string
  pr_game_root :: u16string
  pr_gpu_name :: u16string
  pr_target :: u32
  pr_vsync :: bool
  pr_fullscreen :: bool
  pr_timing :: timing_mode

definition kUnlockedTimingCode :: u32 where "kUnlockedTimingCode = 2"

definition FirstRunPreferences :: "bool \<Rightarrow> preferences" where
  "FirstRunPreferences under_wine = \<lparr>pr_library = \<lparr>pl_version = kLibraryVersion, pl_entries = [], pl_selected = []\<rparr>,
     pr_build_root = [], pr_game_root = [], pr_gpu_name = [], pr_target = 720, pr_vsync = True,
     pr_fullscreen = under_wine, pr_timing = Stock\<rparr>"

definition kMaximumPreferencesBytes :: nat where
  "kMaximumPreferencesBytes = kMaximumLibraryBytes + 8192"

definition ValidPreferences :: "preferences \<Rightarrow> bool" where
  "ValidPreferences p =
     (if pr_build_root p \<noteq> [] \<and> \<not> isInr (NormalizeRoot (pr_build_root p)) then False
      else if pr_game_root p \<noteq> [] \<and> \<not> isInr (NormalizeRoot (pr_game_root p)) then False
      else if length (pr_gpu_name p) > 200 \<or> \<not> SafeUnicode (pr_gpu_name p) then False
      else if pr_timing p \<noteq> Stock \<and> pr_timing p \<noteq> Unlocked then False
      else FindRenderTarget (pr_target p) \<noteq> None)"

definition kPreferencesMagic :: bytes where "kPreferencesMagic = map of_char ''MCLAPRF''"

definition flag_word :: "bool \<Rightarrow> u32" where "flag_word b = (if b then 1 else 0)"

definition EncodePreferences :: "preferences \<Rightarrow> codec_error + bytes" where
  "EncodePreferences p =
     bindE (EncodeLibrary (pr_library p)) (\<lambda>library.
       if \<not> ValidPreferences p then Inl (CErr InvalidModel 0)
       else
         let unlocked = (pr_timing p = Unlocked);
             legacy = (\<not> unlocked \<and> (pr_target p = 720 \<or> pr_target p = 1440)) in
         Inr (kPreferencesMagic @ [of_char (if unlocked then CHR ''3'' else if legacy then CHR ''1'' else CHR ''2'')]
           @ AppendU32 (of_nat (length library)) @ library
           @ AppendUtf16 (pr_build_root p) @ AppendUtf16 (pr_game_root p) @ AppendUtf16 (pr_gpu_name p)
           @ AppendU32 (if legacy then (if pr_target p = 720 then 1 else 2) else pr_target p)
           @ AppendU32 (flag_word (pr_vsync p)) @ AppendU32 (flag_word (pr_fullscreen p))
           @ (if unlocked then AppendU32 kUnlockedTimingCode else [])))"

text \<open>A failed read replaced by one error.\<close>

definition orE :: "'e \<Rightarrow> 'e + 'a \<Rightarrow> 'e + 'a" where
  "orE e r = (case r of Inl _ \<Rightarrow> Inl e | Inr x \<Rightarrow> Inr x)"

text \<open>The trailing timing code, present in version 3 only.\<close>

definition decode_timing :: "bytes \<Rightarrow> nat \<Rightarrow> codec_error + timing_mode \<times> nat" where
  "decode_timing bs off =
     (if bs ! 7 = of_char (CHR ''3'')
      then bindE (orE (CErr Truncated 0) (U32 bs off)) (\<lambda>(code, off').
        if code \<noteq> kUnlockedTimingCode then Inl (CErr InvalidModel 0) else Inr (Unlocked, off'))
      else Inr (Stock, off))"

definition decode_target :: "bytes \<Rightarrow> u32 \<Rightarrow> codec_error + u32" where
  "decode_target bs stored =
     (if bs ! 7 = of_char (CHR ''1'')
      then (if stored \<noteq> 1 \<and> stored \<noteq> 2 then Inl (CErr InvalidModel 0)
            else Inr (if stored = 1 then 720 else 1440))
      else Inr stored)"

definition DecodePreferences :: "bytes \<Rightarrow> codec_error + preferences" where
  "DecodePreferences bs =
     (if length bs > kMaximumPreferencesBytes then Inl (CErr TooLarge 0)
      else if length bs < 8 then Inl (CErr Truncated 0)
      else if take 7 bs \<noteq> kPreferencesMagic
        \<or> (bs ! 7 \<noteq> of_char (CHR ''1'') \<and> bs ! 7 \<noteq> of_char (CHR ''2'') \<and> bs ! 7 \<noteq> of_char (CHR ''3''))
      then Inl (CErr InvalidMagic 0)
      else bindE (U32 bs 8) (\<lambda>(n, off0).
      if unat n > kMaximumLibraryBytes \<or> unat n > length bs - off0 then Inl (CErr InvalidLength 0)
      else bindE (DecodeLibrary (take (unat n) (drop off0 bs))) (\<lambda>library.
      bindE (orE (CErr InvalidLength 0) (Utf16 bs (off0 + unat n) kMaximumPathUnits)) (\<lambda>(build, off1).
      bindE (orE (CErr InvalidLength 0) (Utf16 bs off1 kMaximumPathUnits)) (\<lambda>(game, off2).
      bindE (orE (CErr InvalidLength 0) (Utf16 bs off2 200)) (\<lambda>(gpu, off3).
      bindE (orE (CErr Truncated 0) (U32 bs off3)) (\<lambda>(stored, off4).
      bindE (orE (CErr Truncated 0) (U32 bs off4)) (\<lambda>(vsync, off5).
      bindE (orE (CErr Truncated 0) (U32 bs off5)) (\<lambda>(fullscreen, off6).
      bindE (decode_timing bs off6) (\<lambda>(timing, off7).
      if vsync > 1 \<or> fullscreen > 1 \<or> off7 \<noteq> length bs then Inl (CErr InvalidModel 0)
      else bindE (decode_target bs stored) (\<lambda>target.
        let p = \<lparr>pr_library = library, pr_build_root = build, pr_game_root = game, pr_gpu_name = gpu,
                 pr_target = target, pr_vsync = (vsync = 1), pr_fullscreen = (fullscreen = 1),
                 pr_timing = timing\<rparr> in
        if \<not> ValidPreferences p then Inl (CErr InvalidModel 0) else Inr p)))))))))))"

subsection \<open>Round trip\<close>

lemma SafeUnicode_ValidUtf16: "SafeUnicode u \<Longrightarrow> ValidUtf16 u"
  by (induction u rule: SafeUnicode.induct) (auto split: if_splits list.splits)

lemma utf16_ok_root:
  assumes "r \<noteq> [] \<longrightarrow> isInr (NormalizeRoot r)"
  shows "utf16_ok kMaximumPathUnits r"
proof (cases "r = []")
  case False
  with assms obtain q where "NormalizeRoot r = Inr q"
    by (cases "NormalizeRoot r") auto
  then have "length r \<le> kMaximumPathUnits" "SafeUnicode r"
    by (auto simp: NormalizeRoot_Inr)
  then show ?thesis by (simp add: utf16_ok_def SafeUnicode_ValidUtf16 kMaximumPathUnits_def)
qed (simp add: utf16_ok_def)

lemma ValidPreferences_D:
  assumes "ValidPreferences p"
  shows "utf16_ok kMaximumPathUnits (pr_build_root p)" "utf16_ok kMaximumPathUnits (pr_game_root p)"
    "utf16_ok 200 (pr_gpu_name p)" "pr_timing p = Stock \<or> pr_timing p = Unlocked"
    "pr_target p \<in> {720, 1080, 1440, 2160}"
proof -
  show "utf16_ok kMaximumPathUnits (pr_build_root p)" "utf16_ok kMaximumPathUnits (pr_game_root p)"
    using assms by (auto intro!: utf16_ok_root simp: ValidPreferences_def split: if_splits)
  show "utf16_ok 200 (pr_gpu_name p)" "pr_timing p = Stock \<or> pr_timing p = Unlocked"
    using assms by (auto simp: ValidPreferences_def utf16_ok_def SafeUnicode_ValidUtf16 split: if_splits)
  show "pr_target p \<in> {720, 1080, 1440, 2160}"
    using assms by (auto simp: ValidPreferences_def FindRenderTarget_def kRenderTargets_def target_row_def split: if_splits)
qed

lemma orE_Inr [simp]: "orE e (Inr x) = Inr x" by (simp add: orE_def)

lemma drop_append_length: "drop (length a + n) (a @ b) = drop n b"
  by simp

lemma length_AppendUtf16: "length (AppendUtf16 u) = 4 + 2 * length u"
  by (simp add: AppendUtf16_def)

lemma DecodePreferences_encoded:
  assumes "EncodePreferences p = Inr bs"
  shows "DecodePreferences bs = Inr p"
proof -
  obtain library where lib: "EncodeLibrary (pr_library p) = Inr library" and v: "ValidPreferences p"
    using assms by (auto simp: EncodePreferences_def expected_simps Let_def split: if_splits)
  let ?unlocked = "pr_timing p = Unlocked"
  let ?legacy = "\<not> ?unlocked \<and> (pr_target p = 720 \<or> pr_target p = 1440)"
  let ?ver = "of_char (if ?unlocked then CHR ''3'' else if ?legacy then CHR ''1'' else CHR ''2'') :: u8"
  let ?target = "if ?legacy then (if pr_target p = 720 then 1 else 2) else pr_target p"
  let ?code = "if ?unlocked then AppendU32 kUnlockedTimingCode else []"
  let ?head = "kPreferencesMagic @ [?ver]"
  let ?n = "of_nat (length library) :: u32"
  have bs: "bs = ?head @ AppendU32 ?n @ library @ AppendUtf16 (pr_build_root p) @ AppendUtf16 (pr_game_root p)
      @ AppendUtf16 (pr_gpu_name p) @ AppendU32 ?target @ AppendU32 (flag_word (pr_vsync p))
      @ AppendU32 (flag_word (pr_fullscreen p)) @ ?code"
    using assms lib v by (simp add: EncodePreferences_def Let_def)
  have lb: "library = library_bytes (pr_library p)" "ValidateStorageModel (pr_library p) = None"
    using lib by (auto simp: EncodeLibrary_eq split: option.splits)
  have len: "length library \<le> 144436"
    unfolding lb(1) by (rule length_library_bytes [OF ValidateStorageModel_storable [OF lb(2)]])
  then have n: "unat ?n = length library" by (simp add: unat_of_nat)
  have dl: "DecodeLibrary library = Inr (pr_library p)"
    unfolding lb(1) by (rule DecodeLibrary_bytes [OF lb(2)])
  have h: "length ?head = 8" by (simp add: kPreferencesMagic_def)
  note ok = ValidPreferences_D [OF v]
  have "8 \<le> length bs" "drop 8 bs = AppendU32 ?n @ (library @ AppendUtf16 (pr_build_root p) @ AppendUtf16 (pr_game_root p)
      @ AppendUtf16 (pr_gpu_name p) @ AppendU32 ?target @ AppendU32 (flag_word (pr_vsync p))
      @ AppendU32 (flag_word (pr_fullscreen p)) @ ?code)"
    unfolding bs using h by simp_all
  note a = u32c.dec_next [OF TrueI this]
  let ?R = "AppendUtf16 (pr_build_root p) @ AppendUtf16 (pr_game_root p)
      @ AppendUtf16 (pr_gpu_name p) @ AppendU32 ?target @ AppendU32 (flag_word (pr_vsync p))
      @ AppendU32 (flag_word (pr_fullscreen p)) @ ?code"
  let ?o = "12 + length library"
  have d12: "drop 12 bs = library @ ?R" using a(3) by simp
  have "?o \<le> length bs" using arg_cong [OF d12, of length] a(2) by simp
  moreover have "drop ?o bs = ?R" proof -
    have "drop ?o bs = drop (length library) (drop 12 bs)" by (simp add: add.commute)
    with d12 show ?thesis by simp
  qed
  ultimately have ro: "?o \<le> length bs" "drop ?o bs = ?R" .
  have tk: "take (length library) (drop 12 bs) = library" by (simp add: d12)
  note b = utf16c.dec_next [OF ok(1) ro, simplified]
  note c = utf16c.dec_next [OF ok(2) b(2,3), simplified]
  note d = utf16c.dec_next [OF ok(3) c(2,3), simplified]
  note e = u32c.dec_next [OF TrueI d(2,3), unfolded length_AppendU32]
  note f = u32c.dec_next [OF TrueI e(2,3), unfolded length_AppendU32]
  note g = u32c.dec_next [OF TrueI f(2,3), unfolded length_AppendU32]
  have hd8: "take 8 bs = ?head" unfolding bs using h by (metis append_eq_conv_conj)
  have "bs ! 7 = take 8 bs ! 7" "take 7 bs = take 7 (take 8 bs)" by simp_all
  then have ver: "bs ! 7 = ?ver" "take 7 bs = kPreferencesMagic"
    unfolding hd8 by (simp_all add: kPreferencesMagic_def)
  have vers: "(of_char (CHR ''3'') :: u8) = 0x33" "(of_char (CHR ''2'') :: u8) = 0x32" "(of_char (CHR ''1'') :: u8) = 0x31"
    by simp_all
  have size: "length bs \<le> kMaximumPreferencesBytes"
    using len ok(1-3) unfolding bs
    by (simp add: kMaximumPreferencesBytes_def kMaximumLibraryBytes_def kPreferencesMagic_def length_AppendUtf16
        utf16_ok_def kMaximumPathUnits_def kUnlockedTimingCode_def)
  have small: "\<not> unat ?n > kMaximumLibraryBytes" using len by (simp add: n kMaximumLibraryBytes_def)
  define off6 where "off6 = ?o + length (AppendUtf16 (pr_build_root p)) + length (AppendUtf16 (pr_game_root p))
    + length (AppendUtf16 (pr_gpu_name p)) + 4 + 4 + 4"
  have g': "off6 \<le> length bs" "drop off6 bs = ?code" using g(2,3) by (simp_all add: off6_def)
  have timing: "decode_timing bs off6 = Inr (pr_timing p, length bs)"
  proof (cases ?unlocked)
    case True
    then have "drop off6 bs = AppendU32 kUnlockedTimingCode @ []" using g'(2) by simp
    note h = u32c.dec_next [OF TrueI g'(1) this, unfolded length_AppendU32]
    from h(2,3) have "off6 + 4 = length bs" by simp
    with h(1) True ver show ?thesis by (simp add: decode_timing_def)
  next
    case False
    with g' have "off6 = length bs" by simp
    with False ok(4) ver show ?thesis by (auto simp: decode_timing_def)
  qed
  have target: "decode_target bs ?target = Inr (pr_target p)"
    using ver ok(5) by (auto simp: decode_target_def)
  have flags: "\<not> flag_word b > 1" "flag_word b = 1 \<longleftrightarrow> b" for b by (simp_all add: flag_word_def)
  have eta: "\<lparr>pr_library = pr_library p, pr_build_root = pr_build_root p, pr_game_root = pr_game_root p,
      pr_gpu_name = pr_gpu_name p, pr_target = pr_target p, pr_vsync = pr_vsync p,
      pr_fullscreen = pr_fullscreen p, pr_timing = pr_timing p\<rparr> = p" by simp
  have room: "\<not> unat ?n > length bs - 12" using ro(1) n by simp
  have magic: "bs ! 7 = of_char (CHR ''1'') \<or> bs ! 7 = of_char (CHR ''2'') \<or> bs ! 7 = of_char (CHR ''3'')"
    using ver(1) by auto
  have "length bs \<ge> 8" using ro(1) by linarith
  then have c1: "\<not> length bs > kMaximumPreferencesBytes" "\<not> length bs < 8"
    "\<not> (take 7 bs \<noteq> kPreferencesMagic \<or> (bs ! 7 \<noteq> of_char (CHR ''1'') \<and> bs ! 7 \<noteq> of_char (CHR ''2'') \<and> bs ! 7 \<noteq> of_char (CHR ''3'')))"
    "\<not> (unat ?n > kMaximumLibraryBytes \<or> unat ?n > length bs - 12)"
    using size magic ver(2) small room by auto
  have r1: "U32 bs 8 = Inr (?n, 12)" using a(1) by simp
  note reads = b(1) c(1) d(1) e(1) f(1) g(1) [folded off6_def]
  show ?thesis
    unfolding DecodePreferences_def if_not_P [OF c1(1)] if_not_P [OF c1(2)] if_not_P [OF c1(3)]
      r1 bindE.simps prod.case if_not_P [OF c1(4)] n tk dl reads orE_Inr timing target
    by (simp add: small [unfolded n] room [unfolded n] flags eta v Let_def)
qed


lemma EncodePreferences_total:
  assumes "ValidateStorageModel (pr_library p) = None" "ValidPreferences p"
  shows "isInr (EncodePreferences p)"
  using assms by (simp add: EncodePreferences_def EncodeLibrary_eq Let_def)

lemma DecodePreferences_valid: "DecodePreferences bs = Inr p \<Longrightarrow> ValidPreferences p"
  by (auto simp: DecodePreferences_def Let_def expected_simps split: if_splits)

text \<open>Preferences survive a save and a load, in all three file versions: every storable library
  with valid preferences encodes, what encodes reads back as exactly the same preferences, so no two
  preferences share a file, and whatever file is read, only valid preferences come out of it.\<close>

theorem preferences_roundtrip:
  "(ValidateStorageModel (pr_library p) = None \<and> ValidPreferences p \<longleftrightarrow> isInr (EncodePreferences p))
   \<and> (case EncodePreferences p of Inl _ \<Rightarrow> True
      | Inr bs \<Rightarrow> DecodePreferences bs = Inr p \<and> length bs \<le> kMaximumPreferencesBytes)
   \<and> (case DecodePreferences any of Inl _ \<Rightarrow> True | Inr q \<Rightarrow> ValidPreferences q)"
proof -
  have "isInr (EncodePreferences p) \<Longrightarrow> ValidateStorageModel (pr_library p) = None \<and> ValidPreferences p"
    by (cases "ValidateStorageModel (pr_library p)")
      (auto simp: EncodePreferences_def EncodeLibrary_eq split: if_splits)
  moreover have "length bs \<le> kMaximumPreferencesBytes" if "EncodePreferences p = Inr bs" for bs
    using DecodePreferences_encoded [OF that] by (auto simp: DecodePreferences_def split: if_splits)
  ultimately show ?thesis
    using EncodePreferences_total [of p] DecodePreferences_encoded [of p] DecodePreferences_valid [of any]
    by (auto split: sum.splits)
qed

end
