(* ===== verification/BuildLease.thy ===== *)
theory BuildLease
  imports Prelude
begin

section \<open>Test build leases (\<open>mcla_build_lease_policy.h\<close>, \<open>mcla_build_lease_policy.cpp\<close>)\<close>

text \<open>
  Signed tickets and lease lists: the envelope and its signature, the canonical text of a row, the
  capabilities line, and the two admission decisions. The Windows cryptography library is the
  argument \<open>crypto\<close>: whether a provider opens, the digest of a byte string, whether a key imports and
  whether a signature verifies. Messages are the constructors of \<open>lease_error\<close>.
\<close>

subsection \<open>Data\<close>

definition kMinimumUtc :: u64 where "kMinimumUtc = 1577836800"
definition kMaximumUtc :: u64 where "kMaximumUtc = 4102444800"
definition kGraceSeconds :: u64 where "kGraceSeconds = 1209600"
definition kMaximumEnvelopeBytes :: int where "kMaximumEnvelopeBytes = 64 * 1024"
definition kMaximumGrants :: nat where "kMaximumGrants = 256"
definition kKillSwitchOfflineSeconds :: u64 where "kKillSwitchOfflineSeconds = 259200"
definition kKillSwitchCheckSeconds :: u64 where "kKillSwitchCheckSeconds = 86400"
definition kGrant1080p :: u8 where "kGrant1080p = 1"
definition kGrant1440p :: u8 where "kGrant1440p = 2"
definition kGrant2160p :: u8 where "kGrant2160p = 4"
definition kGrantUnlocked :: u8 where "kGrantUnlocked = 8"
definition kGrantAll :: u8 where
  "kGrantAll = or (or (or kGrant1080p kGrant1440p) kGrant2160p) kGrantUnlocked"

record build_ticket =
  tk_host :: string
  tk_created :: u64
  tk_kill_switch :: bool
  tk_capabilities :: u8

record grant =
  gr_host :: string
  gr_until :: u64

record leases =
  ls_issued :: u64
  ls_grants :: "grant list"

datatype lease_error = NoncanonicalTimestamp | TimestampOverflow | TimestampRange | BadRow
  | DigestInput | DigestOpen | DigestCompute
  | EnvelopeBound | EnvelopeAscii | SignatureDelimiter | SignatureLength | SignatureHex
  | KeyTooShort | KeyBlob | KeyParameters | KeyImport | VerificationFailed
  | EmptyCapabilities | UnknownCapability | DuplicateCapability
  | TicketSchema | TicketRow | TicketExtra
  | LeasesSchema | MissingIssued | TooManyGrants | FinalLf | HostsUnsorted
  | NeedsKillSwitch | MalformedTicket | HostMismatch | ClockRange | ClockBeforeCreation
  | MalformedLeases | LeasesFromFuture | BuildExpired | NeedsV2Ticket

definition newline_char :: char where "newline_char = CHR 0x0A"

definition kTicketHeader :: string where "kTicketHeader = ''MCLA-TEST-BUILD-V1'' @ [newline_char]"
definition kKillSwitchTicketHeader :: string where
  "kKillSwitchTicketHeader = ''MCLA-TEST-BUILD-V2'' @ [newline_char]"
definition kLeasesHeader :: string where "kLeasesHeader = ''MCLA-TEST-LEASES-V1'' @ [newline_char]"
definition kSignatureMarker :: string where "kSignatureMarker = ''--SIGNATURE--'' @ [newline_char]"
definition kCapabilitiesPrefix :: string where "kCapabilitiesPrefix = ''capabilities ''"

text \<open>The cryptography library: documented behaviour of BCrypt is not assumed, only its results used.\<close>

record crypto =
  bc_open_sha256 :: bool
  bc_hash :: "bytes \<Rightarrow> bytes option"
  bc_open_rsa :: bool
  bc_import :: "bytes \<Rightarrow> bool"
  bc_verify :: "bytes \<Rightarrow> bytes \<Rightarrow> bytes \<Rightarrow> bool"

subsection \<open>Canonical fields\<close>

definition Nibble :: "char \<Rightarrow> int" where
  "Nibble c = (if CHR ''0'' \<le> c \<and> c \<le> CHR ''9'' then int (of_char c) - 48
     else if CHR ''A'' \<le> c \<and> c \<le> CHR ''F'' then int (of_char c) - 65 + 10 else - 1)"

definition HashValid :: "string \<Rightarrow> bool" where
  "HashValid hash \<longleftrightarrow> length hash = 64 \<and> list_all (\<lambda>c. Nibble c \<ge> 0) hash"

definition DateValid :: "u64 \<Rightarrow> bool" where
  "DateValid v \<longleftrightarrow> kMinimumUtc \<le> v \<and> v \<le> kMaximumUtc"

fun date_loop :: "u64 \<Rightarrow> string \<Rightarrow> lease_error + u64" where
  "date_loop v [] = Inr v"
| "date_loop v (c # cs) =
     (if \<not> is_digit c \<or> v > (0xFFFFFFFFFFFFFFFF - of_nat (digit_value c)) div 10 then Inl TimestampOverflow
      else date_loop (v * 10 + of_nat (digit_value c)) cs)"

definition Date :: "string \<Rightarrow> lease_error + u64" where
  "Date text = (if text = [] \<or> length text > 20 \<or> (length text > 1 \<and> hd text = CHR ''0'')
     then Inl NoncanonicalTimestamp
     else bindE (date_loop 0 text) (\<lambda>v. if \<not> DateValid v then Inl TimestampRange else Inr v))"

text \<open>\<open>Line\<close>: the first line and the text behind its line feed.\<close>

definition Line :: "string \<Rightarrow> (string \<times> string) option" where
  "Line text = (case split_at newline_char text of (h, Some r) \<Rightarrow> Some (h, r) | (_, None) \<Rightarrow> None)"

definition Row :: "string \<Rightarrow> lease_error + grant" where
  "Row l = (if length l < 66 \<or> l ! 64 \<noteq> CHR '' '' \<or> \<not> HashValid (take 64 l) then Inl BadRow
     else bindE (Date (drop 65 l)) (\<lambda>t. Inr \<lparr>gr_host = take 64 l, gr_until = t\<rparr>))"

subsection \<open>The signed envelope\<close>

definition Digest :: "crypto \<Rightarrow> bytes \<Rightarrow> lease_error + bytes" where
  "Digest bc bs = (if int (length bs) > 0xFFFFFFFF then Inl DigestInput
     else if \<not> bc_open_sha256 bc then Inl DigestOpen
     else case bc_hash bc bs of None \<Rightarrow> Inl DigestCompute | Some d \<Rightarrow> Inr d)"

definition upper_hex :: "u8 \<Rightarrow> string" where
  "upper_hex b = [''0123456789ABCDEF'' ! unat (drop_bit 4 b), ''0123456789ABCDEF'' ! unat (and b 15)]"

definition Sha256 :: "crypto \<Rightarrow> bytes \<Rightarrow> lease_error + string" where
  "Sha256 bc bs = bindE (Digest bc bs) (\<lambda>d. Inr (concat (map upper_hex d)))"

text \<open>\<open>find\<close> and \<open>rfind\<close> of a marker.\<close>

fun find_text :: "string \<Rightarrow> string \<Rightarrow> nat option" where
  "find_text p [] = (if p = [] then Some 0 else None)"
| "find_text p (c # cs) = (if prefix p (c # cs) then Some 0 else map_option Suc (find_text p cs))"

fun rfind_text :: "string \<Rightarrow> string \<Rightarrow> nat option" where
  "rfind_text p [] = (if p = [] then Some 0 else None)"
| "rfind_text p (c # cs) =
     (case rfind_text p cs of Some i \<Rightarrow> Some (Suc i)
      | None \<Rightarrow> if prefix p (c # cs) then Some 0 else None)"

definition admitted_char :: "char \<Rightarrow> bool" where
  "admitted_char c \<longleftrightarrow> c = newline_char \<or> (0x20 \<le> (of_char c :: nat) \<and> (of_char c :: nat) \<le> 0x7E)"

text \<open>The signature bytes from their hex digits, two for each byte.\<close>

fun hex_bytes :: "string \<Rightarrow> bytes option" where
  "hex_bytes (a # b # cs) =
     (if Nibble a < 0 \<or> Nibble b < 0 then None
      else map_option (\<lambda>r. or (push_bit 4 (of_int (Nibble a))) (of_int (Nibble b)) # r) (hex_bytes cs))"
| "hex_bytes _ = Some []"

text \<open>The little-endian 32-bit fields of \<open>BCRYPT_RSAKEY_BLOB\<close>: magic, bit length, exponent size,
  modulus size, and the sizes of the two primes.\<close>

definition blob_field :: "bytes \<Rightarrow> nat \<Rightarrow> int" where
  "blob_field k i = uint (k ! (4 * i)) + 256 * uint (k ! (4 * i + 1)) + 65536 * uint (k ! (4 * i + 2))
     + 16777216 * uint (k ! (4 * i + 3))"

definition kRsaPublicMagic :: int where "kRsaPublicMagic = 0x31415352"

definition key_blob_valid :: "bytes \<Rightarrow> bool" where
  "key_blob_valid k \<longleftrightarrow> \<not> (blob_field k 0 \<noteq> kRsaPublicMagic \<or> blob_field k 1 \<noteq> 2048 \<or> blob_field k 3 \<noteq> 256
     \<or> blob_field k 4 \<noteq> 0 \<or> blob_field k 5 \<noteq> 0 \<or> blob_field k 2 = 0 \<or> blob_field k 2 > 8
     \<or> int (length k) \<noteq> 24 + blob_field k 2 + blob_field k 3)"

definition key_parameters_valid :: "bytes \<Rightarrow> bool" where
  "key_parameters_valid k \<longleftrightarrow>
     (let ex = take (nat (blob_field k 2)) (drop 24 k); modulus = drop (24 + nat (blob_field k 2)) k;
          e = foldl (\<lambda>v b. or (push_bit 8 v) (ucast b)) (0 :: u64) ex in
      \<not> (hd ex = 0 \<or> e < 3 \<or> and e 1 = 0 \<or> and (hd modulus) 0x80 = 0 \<or> and (List.last modulus) 1 = 0))"

definition text_bytes :: "string \<Rightarrow> bytes" where "text_bytes s = map of_char s"

definition AuthenticatedPayload :: "crypto \<Rightarrow> string \<Rightarrow> bytes \<Rightarrow> lease_error + string" where
  "AuthenticatedPayload bc envelope key =
     (if envelope = [] \<or> int (length envelope) > kMaximumEnvelopeBytes then Inl EnvelopeBound
      else if \<not> list_all admitted_char envelope then Inl EnvelopeAscii
      else case find_text kSignatureMarker envelope of
        None \<Rightarrow> Inl SignatureDelimiter
      | Some marker \<Rightarrow>
          if marker = 0 \<or> envelope ! (marker - 1) \<noteq> newline_char
             \<or> rfind_text kSignatureMarker envelope \<noteq> Some marker then Inl SignatureDelimiter
          else let encoded = drop (marker + length kSignatureMarker) envelope in
          if length encoded \<noteq> 513 \<or> List.last encoded \<noteq> newline_char then Inl SignatureLength
          else case hex_bytes (take 512 encoded) of
            None \<Rightarrow> Inl SignatureHex
          | Some signature \<Rightarrow>
              if length key < 24 then Inl KeyTooShort
              else if \<not> key_blob_valid key then Inl KeyBlob
              else if \<not> key_parameters_valid key then Inl KeyParameters
              else if \<not> bc_open_rsa bc \<or> \<not> bc_import bc key then Inl KeyImport
              else let payload = take marker envelope in
                bindE (Digest bc (text_bytes payload)) (\<lambda>digest.
                  if \<not> bc_verify bc key digest signature then Inl VerificationFailed else Inr payload))"

subsection \<open>Capabilities\<close>

definition kCapabilityTokens :: "(string \<times> u8) list" where
  "kCapabilityTokens = [(''1080p'', kGrant1080p), (''1440p'', kGrant1440p), (''2160p'', kGrant2160p),
     (''unlocked'', kGrantUnlocked)]"

text \<open>The scan of the token table: the last entry with that name, 0 if there is none.\<close>

definition token_bit :: "string \<Rightarrow> u8" where
  "token_bit token = foldl (\<lambda>b (name, v). if token = name then v else b) 0 kCapabilityTokens"

text \<open>The \<open>while (true)\<close> loop with fuel; \<open>None\<close> is running out of it.\<close>

fun caps_loop :: "nat \<Rightarrow> u8 \<Rightarrow> string \<Rightarrow> (lease_error + u8) option" where
  "caps_loop 0 acc tokens = None"
| "caps_loop (Suc fuel) acc tokens =
     (case split_at (CHR '','') tokens of (token, later) \<Rightarrow>
        let b = token_bit token in
        if b = 0 then Some (Inl UnknownCapability)
        else if and acc b \<noteq> 0 then Some (Inl DuplicateCapability)
        else case later of None \<Rightarrow> Some (Inr (or acc b)) | Some rest \<Rightarrow> caps_loop fuel (or acc b) rest)"

definition ParseTicketCapabilities :: "string \<Rightarrow> lease_error + u8" where
  "ParseTicketCapabilities tokens = (if tokens = [] then Inl EmptyCapabilities
     else the (caps_loop 5 0 tokens))"

definition TicketCapabilitiesText :: "u8 \<Rightarrow> string" where
  "TicketCapabilitiesText caps = foldl (\<lambda>text (name, b). if and caps b \<noteq> 0
     then (if text \<noteq> [] then text @ '','' else text) @ name else text) [] kCapabilityTokens"

subsection \<open>Tickets and lease lists\<close>

definition parse_extra :: "string \<Rightarrow> lease_error + u8" where
  "parse_extra payload = (if payload = [] then Inr 0
     else case Line payload of None \<Rightarrow> Inl TicketExtra
     | Some (extra, rest) \<Rightarrow> if rest \<noteq> [] \<or> \<not> prefix kCapabilitiesPrefix extra then Inl TicketExtra
         else ParseTicketCapabilities (drop (length kCapabilitiesPrefix) extra))"

definition ParseTicket :: "crypto \<Rightarrow> string \<Rightarrow> bytes \<Rightarrow> lease_error + build_ticket" where
  "ParseTicket bc envelope key = bindE (AuthenticatedPayload bc envelope key) (\<lambda>payload.
     let kill_switch = prefix kKillSwitchTicketHeader payload in
     if \<not> kill_switch \<and> \<not> prefix kTicketHeader payload then Inl TicketSchema
     else case Line (drop (length (if kill_switch then kKillSwitchTicketHeader else kTicketHeader)) payload) of
       None \<Rightarrow> Inl TicketRow
     | Some (l, rest) \<Rightarrow> bindE (Row l) (\<lambda>row. bindE (parse_extra rest) (\<lambda>caps.
         Inr \<lparr>tk_host = gr_host row, tk_created = gr_until row, tk_kill_switch = kill_switch,
              tk_capabilities = caps\<rparr>)))"

text \<open>The loop over the grant rows; each turn consumes a line.\<close>

function grant_rows :: "grant list \<Rightarrow> string \<Rightarrow> lease_error + grant list" where
  "grant_rows gs payload =
     (if payload = [] then Inr gs
      else if length gs \<ge> kMaximumGrants then Inl TooManyGrants
      else case Line payload of None \<Rightarrow> Inl FinalLf
      | Some (l, rest) \<Rightarrow>
          (case Row l of Inl e \<Rightarrow> Inl e
           | Inr row \<Rightarrow> if gs \<noteq> [] \<and> gr_host (List.last gs) \<ge> gr_host row then Inl HostsUnsorted
               else grant_rows (gs @ [row]) rest))"
  by pat_completeness auto
termination
  by (relation "measure (\<lambda>(gs, payload). length payload)")
    (auto simp: Line_def split_at_Some split: option.splits prod.splits)

declare grant_rows.simps [simp del]

definition ParseLeases :: "crypto \<Rightarrow> string \<Rightarrow> bytes \<Rightarrow> lease_error + leases" where
  "ParseLeases bc envelope key = bindE (AuthenticatedPayload bc envelope key) (\<lambda>payload.
     if \<not> prefix kLeasesHeader payload then Inl LeasesSchema
     else case Line (drop (length kLeasesHeader) payload) of
       None \<Rightarrow> Inl MissingIssued
     | Some (l, rest) \<Rightarrow> bindE (Date l) (\<lambda>issued. bindE (grant_rows [] rest) (\<lambda>gs.
         Inr \<lparr>ls_issued = issued, ls_grants = gs\<rparr>)))"

subsection \<open>Admission\<close>

text \<open>The loop of \<open>ModelValid\<close> over the grants, after the host \<open>previous\<close>.\<close>

fun grants_valid :: "string \<Rightarrow> grant list \<Rightarrow> bool" where
  "grants_valid previous [] \<longleftrightarrow> True"
| "grants_valid previous (g # gs) \<longleftrightarrow>
     \<not> (\<not> HashValid (gr_host g) \<or> \<not> DateValid (gr_until g) \<or> (previous \<noteq> [] \<and> previous \<ge> gr_host g))
     \<and> grants_valid (gr_host g) gs"

definition ModelValid :: "leases \<Rightarrow> bool" where
  "ModelValid l \<longleftrightarrow> \<not> (\<not> DateValid (ls_issued l) \<or> length (ls_grants l) > kMaximumGrants)
     \<and> grants_valid [] (ls_grants l)"

definition from_future :: "leases \<Rightarrow> u64 \<Rightarrow> bool" where
  "from_future l now \<longleftrightarrow> ls_issued l > now \<and> ls_issued l - now > 300"

text \<open>The tests that \<open>Evaluate\<close> and \<open>EvaluateKillSwitch\<close> share, after the ticket version.\<close>

definition ticket_error :: "build_ticket \<Rightarrow> string \<Rightarrow> u64 \<Rightarrow> lease_error option" where
  "ticket_error t hash now =
     (if \<not> HashValid (tk_host t) \<or> \<not> DateValid (tk_created t) \<or> \<not> HashValid hash then Some MalformedTicket
      else if tk_host t \<noteq> hash then Some HostMismatch
      else if \<not> DateValid now then Some ClockRange
      else if now < tk_created t then Some ClockBeforeCreation
      else None)"

definition grants_expiry :: "string \<Rightarrow> u64 \<Rightarrow> grant list \<Rightarrow> u64" where
  "grants_expiry hash expiry gs = foldl (\<lambda>e g. if gr_host g = hash then max e (gr_until g) else e) expiry gs"

definition Evaluate :: "build_ticket \<Rightarrow> string \<Rightarrow> u64 \<Rightarrow> leases option \<Rightarrow> lease_error + u64" where
  "Evaluate t hash now ls =
     (if tk_kill_switch t then Inl NeedsKillSwitch
      else case ticket_error t hash now of Some e \<Rightarrow> Inl e
      | None \<Rightarrow>
          let expiry = tk_created t + kGraceSeconds in
          bindE (case ls of None \<Rightarrow> Inr expiry
                 | Some l \<Rightarrow> if \<not> ModelValid l then Inl MalformedLeases
                     else if from_future l now then Inl LeasesFromFuture
                     else Inr (grants_expiry hash expiry (ls_grants l)))
            (\<lambda>e. if now \<ge> e then Inl BuildExpired else Inr e))"

datatype ks_cache = Keep | Refresh | Revoke

record cached_check =
  cc_leases :: leases
  cc_checked :: u64

record ks_decision =
  kd_allowed :: bool
  kd_expires :: u64
  kd_cache :: ks_cache
  kd_reason :: string

definition withdrawn_reason :: string where
  "withdrawn_reason = ''This test build was withdrawn. Your saves are unchanged. Get the current build from the owner.''"

definition check_needed_reason :: string where
  "check_needed_reason = ''BUILD CHECK NEEDED - connect to the internet once and start again. Your saves are unchanged.''"

definition listed :: "string \<Rightarrow> leases \<Rightarrow> grant option" where
  "listed hash l = find (\<lambda>g. gr_host g = hash) (ls_grants l)"

text \<open>The verified online list, \<open>None\<close> if it counts as no answer.\<close>

definition online_answer :: "leases option \<Rightarrow> u64 \<Rightarrow> leases option" where
  "online_answer online now = (case online of None \<Rightarrow> None
     | Some l \<Rightarrow> if ModelValid l \<and> \<not> from_future l now then Some l else None)"

definition cached_expiry :: "string \<Rightarrow> u64 \<Rightarrow> cached_check option \<Rightarrow> u64 \<Rightarrow> u64" where
  "cached_expiry hash now cached expiry = (case cached of None \<Rightarrow> expiry
     | Some c \<Rightarrow> if ModelValid (cc_leases c) \<and> DateValid (cc_checked c) \<and> cc_checked c \<le> now
         then (case listed hash (cc_leases c) of None \<Rightarrow> expiry
               | Some g \<Rightarrow> max expiry (min (cc_checked c + kKillSwitchCheckSeconds) (gr_until g)))
         else expiry)"

definition EvaluateKillSwitch :: "build_ticket \<Rightarrow> string \<Rightarrow> u64 \<Rightarrow> leases option \<Rightarrow> cached_check option \<Rightarrow> bool
    \<Rightarrow> lease_error + ks_decision" where
  "EvaluateKillSwitch t hash now online cached revoked =
     (if \<not> tk_kill_switch t then Inl NeedsV2Ticket
      else case ticket_error t hash now of Some e \<Rightarrow> Inl e
      | None \<Rightarrow>
        case online_answer online now of
          Some l \<Rightarrow>
            (case listed hash l of
               Some g \<Rightarrow> if gr_until g > now
                 then Inr \<lparr>kd_allowed = True, kd_expires = min (now + kKillSwitchCheckSeconds) (gr_until g),
                           kd_cache = Refresh, kd_reason = []\<rparr>
                 else Inr \<lparr>kd_allowed = False, kd_expires = 0, kd_cache = Revoke, kd_reason = withdrawn_reason\<rparr>
             | None \<Rightarrow> Inr \<lparr>kd_allowed = False, kd_expires = 0, kd_cache = Revoke, kd_reason = withdrawn_reason\<rparr>)
        | None \<Rightarrow>
            if revoked
            then Inr \<lparr>kd_allowed = False, kd_expires = 0, kd_cache = Keep, kd_reason = withdrawn_reason\<rparr>
            else
              let expiry = cached_expiry hash now cached (tk_created t + kKillSwitchOfflineSeconds) in
              if now \<ge> expiry
              then Inr \<lparr>kd_allowed = False, kd_expires = 0, kd_cache = Keep, kd_reason = check_needed_reason\<rparr>
              else Inr \<lparr>kd_allowed = True, kd_expires = expiry, kd_cache = Keep, kd_reason = []\<rparr>)"

subsection \<open>Capabilities: termination and meaning\<close>

definition grant_bits :: "u8 list" where "grant_bits = [1, 2, 4, 8]"

text \<open>The bits not yet granted: each turn of the loop takes one away.\<close>

definition ungranted :: "u8 \<Rightarrow> nat" where
  "ungranted acc = length (filter (\<lambda>b. and acc b = 0) grant_bits)"

lemma token_bit_range: "token_bit t = 0 \<or> token_bit t \<in> set grant_bits"
  by (simp add: token_bit_def kCapabilityTokens_def grant_bits_def kGrant1080p_def kGrant1440p_def
      kGrant2160p_def kGrantUnlocked_def)

lemma token_bit_inj: "token_bit s = token_bit t \<Longrightarrow> token_bit s \<noteq> 0 \<Longrightarrow> s = t"
  by (auto simp: token_bit_def kCapabilityTokens_def kGrant1080p_def kGrant1440p_def
      kGrant2160p_def kGrantUnlocked_def split: if_splits)

lemma and_one_bit: "n < 8 \<Longrightarrow> and acc (2 ^ n) \<noteq> (0 :: u8) \<longleftrightarrow> bit acc n"
proof -
  assume n: "n < 8"
  have "and acc (2 ^ n) = (if bit acc n then 2 ^ n else 0)"
    by (rule bit_word_eqI) (auto simp: bit_simps)
  moreover have "bit (2 ^ n :: u8) n" using n by (simp add: bit_exp_iff)
  then have "2 ^ n \<noteq> (0 :: u8)" by (metis bit_0_eq bot_apply bot_bool_def)
  ultimately show ?thesis by simp
qed

lemma grant_bits_push: "b \<in> set grant_bits \<longleftrightarrow> (\<exists>n < 4. b = 2 ^ n)"
proof -
  have "{n :: nat. n < 4} = {0, 1, 2, 3}" by auto
  then have "(\<exists>n < 4. b = 2 ^ n) \<longleftrightarrow> (\<exists>n \<in> {0, 1, 2, 3}. b = 2 ^ n)" by blast
  then show ?thesis by (auto simp: grant_bits_def push_bit_eq_mult)
qed

lemma grant_bit_or:
  assumes "b \<in> set grant_bits" "d \<in> set grant_bits"
  shows "and (or acc b) d \<noteq> 0 \<longleftrightarrow> and acc d \<noteq> 0 \<or> d = b"
proof -
  from assms obtain n m where nm: "n < 4" "b = 2 ^ n" "m < 4" "d = 2 ^ m"
    unfolding grant_bits_push by blast
  have "bit b m \<longleftrightarrow> m = n" using nm by (auto simp: bit_exp_iff)
  moreover have "d = b \<longleftrightarrow> m = n"
    using nm and_one_bit [of m b] and_one_bit [of m d] \<open>bit b m \<longleftrightarrow> m = n\<close> by auto
  ultimately show ?thesis using nm by (simp add: and_one_bit bit_or_iff)
qed

lemma ungranted_less:
  assumes "b \<in> set grant_bits" "and acc b = 0"
  shows "ungranted (or acc b) < ungranted acc"
proof -
  have "filter (\<lambda>d. and (or acc b) d = 0) grant_bits = filter (\<lambda>d. d \<noteq> b) (filter (\<lambda>d. and acc d = 0) grant_bits)"
    unfolding filter_filter using grant_bit_or [OF assms(1)] by (intro filter_cong) auto
  moreover have "b \<in> set (filter (\<lambda>d. and acc d = 0) grant_bits)" using assms by simp
  ultimately show ?thesis
    unfolding ungranted_def by (simp only:) (rule length_filter_less, assumption, simp)
qed

lemma caps_loop_fuel: "ungranted acc < fuel \<Longrightarrow> \<exists>r. caps_loop fuel acc tokens = Some r"
proof (induction fuel arbitrary: acc tokens)
  case (Suc fuel)
  obtain t later where s: "split_at (CHR '','') tokens = (t, later)" by (cases "split_at (CHR '','') tokens")
  show ?case
  proof (cases "token_bit t = 0 \<or> and acc (token_bit t) \<noteq> 0")
    case True
    then show ?thesis by (auto simp: s Let_def)
  next
    case False
    then have "ungranted (or acc (token_bit t)) < fuel"
      using ungranted_less [of "token_bit t" acc] token_bit_range [of t] Suc.prems by simp
    with Suc.IH False show ?thesis by (simp add: s Let_def split: option.splits)
  qed
qed simp

lemma caps_loop_mono: "caps_loop fuel acc tokens = Some r \<Longrightarrow> fuel \<le> fuel' \<Longrightarrow> caps_loop fuel' acc tokens = Some r"
proof (induction fuel arbitrary: acc tokens fuel')
  case (Suc fuel)
  then obtain f where f: "fuel' = Suc f" "fuel \<le> f" by (cases fuel') simp_all
  show ?case
    by (cases "split_at (CHR '','') tokens") (use Suc f in \<open>auto simp: Let_def split: if_splits option.splits\<close>)
qed simp

text \<open>The capability loop, a \<open>while (true)\<close> in the code, returns on every input after at most five
  turns, since each turn that goes on grants a bit not yet granted and there are four; more fuel
  never changes its answer, so the model's fuel of five is the loop.\<close>

theorem capabilities_terminate:
  "\<exists>r. \<forall>fuel. caps_loop (5 + fuel) 0 tokens = Some r"
proof -
  have "ungranted 0 < 5" by code_simp
  then obtain r where "caps_loop 5 0 tokens = Some r" using caps_loop_fuel by blast
  then show ?thesis using caps_loop_mono by (metis le_add1)
qed

text \<open>An accepted list: the tokens before and after the part in hand.\<close>

definition granted_bits :: "string list \<Rightarrow> u8" where
  "granted_bits ts = foldl (\<lambda>acc t. or acc (token_bit t)) 0 ts"

lemma caps_loop_accepts:
  "caps_loop fuel acc tokens = Some (Inr c) \<Longrightarrow>
     let ts = split_all (CHR '','') tokens in
     c = foldl (\<lambda>a t. or a (token_bit t)) acc ts \<and> distinct ts
     \<and> (\<forall>t \<in> set ts. token_bit t \<noteq> 0 \<and> and acc (token_bit t) = 0)"
proof (induction fuel arbitrary: acc tokens)
  case (Suc fuel)
  obtain t later where s: "split_at (CHR '','') tokens = (t, later)" by (cases "split_at (CHR '','') tokens")
  have b: "token_bit t \<noteq> 0" "and acc (token_bit t) = 0"
    using Suc.prems by (auto simp: s Let_def split: if_splits)
  show ?case
  proof (cases later)
    case None
    then have "tokens = t" "split_all (CHR '','') tokens = [t]"
      using s by (auto simp: split_at_None split_all_no_sep)
    with b Suc.prems None s show ?thesis by (simp add: Let_def)
  next
    case (Some rest)
    with s have e: "split_all (CHR '','') tokens = t # split_all (CHR '','') rest"
      by (simp add: split_at_Some split_all_sep)
    let ?ts = "split_all (CHR '','') rest"
    have ih: "c = foldl (\<lambda>a t. or a (token_bit t)) (or acc (token_bit t)) ?ts" "distinct ?ts"
      "\<forall>u \<in> set ?ts. token_bit u \<noteq> 0 \<and> and (or acc (token_bit t)) (token_bit u) = 0"
      using Suc.IH [of "or acc (token_bit t)" rest] Suc.prems b Some s by (simp_all add: Let_def)
    have "token_bit u \<noteq> 0 \<and> and acc (token_bit u) = 0 \<and> u \<noteq> t" if "u \<in> set ?ts" for u
      using ih(3) that grant_bit_or [of "token_bit t" "token_bit u" acc] token_bit_range [of t] token_bit_range [of u] b
      by metis
    with ih b show ?thesis unfolding e by (auto simp: Let_def)
  qed
qed simp

lemma granted_iff:
  assumes "\<forall>t \<in> set ts. token_bit t \<noteq> 0" "d \<in> set grant_bits"
  shows "and (foldl (\<lambda>a t. or a (token_bit t)) acc ts) d \<noteq> 0 \<longleftrightarrow> and acc d \<noteq> 0 \<or> (\<exists>t \<in> set ts. token_bit t = d)"
  using assms(1)
proof (induction ts arbitrary: acc)
  case (Cons t ts)
  have "token_bit t \<in> set grant_bits" using Cons.prems token_bit_range [of t] by simp
  from grant_bit_or [OF this assms(2), of acc] Cons show ?case by auto
qed simp

definition grant_words :: "u8 list" where
  "grant_words = [1, 2, 3, 4, 5, 6, 7, 8, 9, 10, 11, 12, 13, 14, 15]"

lemma grant_words_closed: "\<forall>a \<in> set (0 # grant_words). \<forall>b \<in> set grant_bits. or a b \<in> set grant_words"
  by code_simp

lemma granted_words:
  assumes "\<forall>t \<in> set ts. token_bit t \<noteq> 0" "acc \<in> set (0 # grant_words)" "ts \<noteq> [] \<or> acc \<noteq> 0"
  shows "foldl (\<lambda>a t. or a (token_bit t)) acc ts \<in> set grant_words"
  using assms
proof (induction ts arbitrary: acc)
  case (Cons t ts)
  have b: "token_bit t \<in> set grant_bits" using Cons.prems token_bit_range [of t] by simp
  then have o: "or acc (token_bit t) \<in> set grant_words" using grant_words_closed Cons.prems(2) by blast
  moreover have "0 \<notin> set grant_words" by code_simp
  ultimately have "or acc (token_bit t) \<noteq> 0" by metis
  with Cons.IH [of "or acc (token_bit t)"] Cons.prems o show ?case by simp
qed auto

lemma grant_text_roundtrip: "\<forall>c \<in> set grant_words. ParseTicketCapabilities (TicketCapabilitiesText c) = Inr c"
  by code_simp

lemma ParseTicketCapabilities_Inr:
  assumes "ParseTicketCapabilities s = Inr c"
  shows "distinct (split_all (CHR '','') s)" "\<forall>t \<in> set (split_all (CHR '','') s). token_bit t \<noteq> 0"
    "c = foldl (\<lambda>a t. or a (token_bit t)) 0 (split_all (CHR '','') s)" "c \<in> set grant_words"
proof -
  have "ungranted 0 < 5" by code_simp
  then obtain r where "caps_loop 5 0 s = Some r" using caps_loop_fuel by blast
  with assms have "caps_loop 5 0 s = Some (Inr c)"
    by (simp add: ParseTicketCapabilities_def split: if_splits)
  from caps_loop_accepts [OF this] show a: "distinct (split_all (CHR '','') s)"
    "\<forall>t \<in> set (split_all (CHR '','') s). token_bit t \<noteq> 0"
    "c = foldl (\<lambda>a t. or a (token_bit t)) 0 (split_all (CHR '','') s)"
    by (simp_all add: Let_def)
  show "c \<in> set grant_words" unfolding a(3) by (rule granted_words [OF a(2)]) simp_all
qed

text \<open>C34: an accepted capabilities list is a duplicate-free list of known tokens, a bit is granted
  exactly if its token is listed, and the canonical text of the grant parses back to the same grant.\<close>

theorem capabilities_roundtrip:
  assumes "ParseTicketCapabilities s = Inr c"
  shows "distinct (split_all (CHR '','') s)
     \<and> set (split_all (CHR '','') s) \<subseteq> fst ` set kCapabilityTokens
     \<and> (\<forall>(name, b) \<in> set kCapabilityTokens. and c b \<noteq> 0 \<longleftrightarrow> name \<in> set (split_all (CHR '','') s))
     \<and> ParseTicketCapabilities (TicketCapabilitiesText c) = Inr c"
proof -
  note p = ParseTicketCapabilities_Inr [OF assms]
  let ?ts = "split_all (CHR '','') s"
  have known: "t \<in> fst ` set kCapabilityTokens" if "token_bit t \<noteq> 0" for t
    using that by (auto simp: token_bit_def kCapabilityTokens_def split: if_splits)
  have i: "and c b \<noteq> 0 \<longleftrightarrow> name \<in> set ?ts" if "(name, b) \<in> set kCapabilityTokens" for name b
  proof -
    have t: "token_bit name = b" "b \<in> set grant_bits" "b \<noteq> 0"
      using that by (auto simp: token_bit_def kCapabilityTokens_def grant_bits_def kGrant1080p_def
          kGrant1440p_def kGrant2160p_def kGrantUnlocked_def)
    have "and c b \<noteq> 0 \<longleftrightarrow> (\<exists>u \<in> set ?ts. token_bit u = b)"
      unfolding p(3) granted_iff [OF p(2) t(2)] by simp
    also have "\<dots> \<longleftrightarrow> name \<in> set ?ts" using token_bit_inj t by metis
    finally show ?thesis .
  qed
  have "\<forall>x \<in> set kCapabilityTokens. case x of (name, b) \<Rightarrow> and c b \<noteq> 0 \<longleftrightarrow> name \<in> set ?ts"
  proof
    fix x assume "x \<in> set kCapabilityTokens"
    then show "case x of (name, b) \<Rightarrow> and c b \<noteq> 0 \<longleftrightarrow> name \<in> set ?ts"
      unfolding case_prod_beta using i [of "fst x" "snd x"] by simp
  qed
  moreover have "set ?ts \<subseteq> fst ` set kCapabilityTokens" using p(2) known by blast
  moreover have "ParseTicketCapabilities (TicketCapabilitiesText c) = Inr c"
    using grant_text_roundtrip p(4) by blast
  ultimately show ?thesis using p(1) by blast
qed

theorem capabilities_roundtrip_witness:
  "distinct (split_all (CHR '','') ''unlocked,1080p'') \<and> ParseTicketCapabilities (TicketCapabilitiesText 9) = Inr 9"
proof -
  have "ParseTicketCapabilities ''unlocked,1080p'' = Inr 9" by code_simp
  from capabilities_roundtrip [OF this] show ?thesis by blast
qed

subsection \<open>What parsing establishes\<close>

lemma Date_Inr: "Date text = Inr v \<Longrightarrow> DateValid v"
  by (auto simp: Date_def expected_simps split: if_splits)

lemma Row_Inr: "Row l = Inr g \<Longrightarrow> HashValid (gr_host g) \<and> DateValid (gr_until g)"
  by (auto simp: Row_def expected_simps dest: Date_Inr split: if_splits)

lemma HashValid_nonempty: "HashValid h \<Longrightarrow> h \<noteq> []"
  by (auto simp: HashValid_def)

lemma grants_valid_snoc:
  "grants_valid p (gs @ [g]) \<longleftrightarrow> grants_valid p gs \<and> HashValid (gr_host g) \<and> DateValid (gr_until g)
     \<and> (let q = (if gs = [] then p else gr_host (List.last gs)) in q = [] \<or> q < gr_host g)"
  by (induction gs arbitrary: p) (auto simp: Let_def not_le)

lemma grant_rows_valid:
  "grant_rows gs payload = Inr gs' \<Longrightarrow> grants_valid [] gs \<Longrightarrow> length gs \<le> kMaximumGrants
   \<Longrightarrow> grants_valid [] gs' \<and> length gs' \<le> kMaximumGrants"
proof (induction gs payload rule: grant_rows.induct)
  case (1 gs payload)
  show ?case
  proof (cases "payload = []")
    case True
    with "1.prems" show ?thesis by (simp add: grant_rows.simps [of gs])
  next
    case False
    with "1.prems"(1) obtain l rest row where r: "length gs < kMaximumGrants" "Line payload = Some (l, rest)" "Row l = Inr row"
      "\<not> (gs \<noteq> [] \<and> gr_host (List.last gs) \<ge> gr_host row)" "grant_rows (gs @ [row]) rest = Inr gs'"
      by (subst (asm) grant_rows.simps) (auto split: if_splits option.splits sum.splits)
    have "grants_valid [] (gs @ [row])"
      using "1.prems"(2) Row_Inr [OF r(3)] r(4) by (auto simp: grants_valid_snoc Let_def not_le)
    moreover have "length (gs @ [row]) \<le> kMaximumGrants" using r(1) by simp
    ultimately show ?thesis
      using "1.IH" [OF False _ r(2) refl r(3) _ r(5)] r(1,4) by simp
  qed
qed

lemma prefix_hd: "p \<noteq> [] \<Longrightarrow> prefix p (c # cs) \<Longrightarrow> c = hd p"
  by (cases p) auto

lemma find_text_skip:
  "p \<noteq> [] \<Longrightarrow> hd p \<notin> set xs \<Longrightarrow> find_text p (xs @ s) = map_option ((+) (length xs)) (find_text p s)"
proof (induction xs)
  case (Cons c cs)
  then have "\<not> prefix p (c # cs @ s)" using prefix_hd by fastforce
  with Cons show ?case by (simp add: option.map_comp comp_def)
qed (cases "find_text p s"; simp)

lemma rfind_text_skip: "rfind_text p s = Some i \<Longrightarrow> rfind_text p (xs @ s) = Some (length xs + i)"
  by (induction xs) simp_all

lemma rfind_text_none: "p \<noteq> [] \<Longrightarrow> hd p \<notin> set ys \<Longrightarrow> rfind_text p ys = None"
  by (induction ys) (auto dest: prefix_hd)

lemma hex_bytes_zeros: "hex_bytes (replicate (2 * n) (CHR ''0'')) = Some (replicate n 0)"
  by (induction n) (simp_all add: Nibble_def)

lemma find_text_prefix: "find_text p s = Some i \<Longrightarrow> prefix p (drop i s)"
  by (induction s arbitrary: i) (auto split: if_splits)

text \<open>The envelope is a signed one: the text before the marker has a digest that verified.\<close>

definition authentic :: "crypto \<Rightarrow> string \<Rightarrow> bytes \<Rightarrow> bool" where
  "authentic bc envelope key \<longleftrightarrow> (\<exists>payload digest signature.
     prefix (payload @ kSignatureMarker) envelope \<and> length signature = 256
     \<and> bc_hash bc (text_bytes payload) = Some digest \<and> bc_verify bc key digest signature)"

lemma hex_bytes_length: "hex_bytes s = Some bs \<Longrightarrow> length bs = length s div 2"
  by (induction s arbitrary: bs rule: hex_bytes.induct) (auto split: if_splits)

lemma AuthenticatedPayload_Inr:
  assumes "AuthenticatedPayload bc envelope key = Inr payload"
  shows "authentic bc envelope key"
proof -
  from assms obtain marker signature digest where m: "find_text kSignatureMarker envelope = Some marker"
    "length (drop (marker + length kSignatureMarker) envelope) = 513"
    "hex_bytes (take 512 (drop (marker + length kSignatureMarker) envelope)) = Some signature"
    "Digest bc (text_bytes payload) = Inr digest" "bc_verify bc key digest signature" "payload = take marker envelope"
    by (auto simp: AuthenticatedPayload_def Let_def expected_simps split: if_splits option.splits)
  have "length signature = 256" using hex_bytes_length [OF m(3)] m(2) by simp
  moreover have "bc_hash bc (text_bytes payload) = Some digest"
    using m(4) by (auto simp: Digest_def split: if_splits option.splits)
  moreover have "prefix (payload @ kSignatureMarker) envelope"
  proof -
    obtain r where "drop marker envelope = kSignatureMarker @ r"
      using find_text_prefix [OF m(1)] by (auto simp: prefix_def)
    then have "envelope = payload @ kSignatureMarker @ r" using m(6) by (metis append_take_drop_id)
    then show ?thesis by (auto simp: prefix_def)
  qed
  ultimately show ?thesis using m(5) unfolding authentic_def by blast
qed

lemma parse_extra_range:
  assumes "parse_extra p = Inr c"
  shows "c \<le> kGrantAll"
proof -
  have "\<forall>c \<in> set (0 # grant_words). c \<le> kGrantAll" by code_simp
  moreover have "c \<in> set (0 # grant_words)"
    using assms ParseTicketCapabilities_Inr(4)
    by (auto simp: parse_extra_def split: if_splits option.splits prod.splits)
  ultimately show ?thesis by blast
qed

lemma ParseTicket_Inr:
  assumes "ParseTicket bc envelope key = Inr t"
  shows "HashValid (tk_host t) \<and> DateValid (tk_created t) \<and> tk_capabilities t \<le> kGrantAll \<and> authentic bc envelope key"
proof -
  from assms obtain payload l rest row c where p: "AuthenticatedPayload bc envelope key = Inr payload"
    "Row l = Inr row" "parse_extra rest = Inr c" "tk_host t = gr_host row" "tk_created t = gr_until row" "tk_capabilities t = c"
    by (auto simp: ParseTicket_def Let_def expected_simps split: if_splits option.splits prod.splits)
  then show ?thesis using Row_Inr [OF p(2)] parse_extra_range [OF p(3)] AuthenticatedPayload_Inr [OF p(1)] by simp
qed

lemma ParseLeases_Inr:
  assumes "ParseLeases bc envelope key = Inr l"
  shows "ModelValid l \<and> authentic bc envelope key"
proof -
  from assms obtain payload x rest where p: "AuthenticatedPayload bc envelope key = Inr payload"
    "Date x = Inr (ls_issued l)" "grant_rows [] rest = Inr (ls_grants l)"
    by (auto simp: ParseLeases_def expected_simps split: if_splits option.splits prod.splits)
  from grant_rows_valid [OF p(3)] Date_Inr [OF p(2)] AuthenticatedPayload_Inr [OF p(1)] show ?thesis
    by (simp add: ModelValid_def)
qed

text \<open>C33: whatever the envelope, the key and the cryptography library: a ticket that parses has a
  canonical host hash, a creation time in the admitted range and only known capabilities; a lease
  list that parses is a valid model (dates in range, at most 256 grants, hosts strictly sorted); and
  either of them only comes from an envelope whose text before the signature marker has a digest for
  which the library verified the 256-byte signature.\<close>

theorem parsed_models_valid:
  "(case ParseTicket bc envelope key of Inl _ \<Rightarrow> True
    | Inr t \<Rightarrow> HashValid (tk_host t) \<and> DateValid (tk_created t) \<and> tk_capabilities t \<le> kGrantAll
        \<and> authentic bc envelope key)
   \<and> (case ParseLeases bc envelope key of Inl _ \<Rightarrow> True
      | Inr l \<Rightarrow> ModelValid l \<and> authentic bc envelope key)"
  using ParseTicket_Inr ParseLeases_Inr by (auto split: sum.splits)

subsection \<open>What admission decides\<close>

lemma unat_max: "unat (max a b) = max (unat a) (unat b)"
  by (simp add: max_def word_le_nat_alt)

lemma unat_min: "unat (min a b) = min (unat a) (unat b)"
  by (simp add: min_def word_le_nat_alt)

lemma DateValid_add:
  assumes "DateValid d" "unat n < 2 ^ 62"
  shows "unat (d + n) = unat d + unat n"
proof -
  have "unat d \<le> unat kMaximumUtc" using assms(1) by (simp add: DateValid_def word_le_nat_alt)
  also have "unat kMaximumUtc = 4102444800" by (simp add: kMaximumUtc_def)
  finally show ?thesis using assms(2) by (intro unat_add_lem [THEN iffD1]) simp
qed

lemma Max_insert_max: "finite A \<Longrightarrow> Max (insert (max a b) A) = Max (insert a (insert b (A :: nat set)))"
  by (cases "A = {}") (simp_all add: max.assoc)

lemma grants_expiry_Max:
  "unat (grants_expiry h e gs) = Max (insert (unat e) ((\<lambda>g. unat (gr_until g)) ` {g \<in> set gs. gr_host g = h}))"
proof (induction gs arbitrary: e)
  case (Cons g gs)
  show ?case
  proof (cases "gr_host g = h")
    case True
    then have s: "{x \<in> set (g # gs). gr_host x = h} = insert g {x \<in> set gs. gr_host x = h}" by auto
    have "unat (grants_expiry h e (g # gs)) = unat (grants_expiry h (max e (gr_until g)) gs)"
      using True by (simp add: grants_expiry_def)
    also have "\<dots> = Max (insert (max (unat e) (unat (gr_until g)))
        ((\<lambda>g. unat (gr_until g)) ` {g \<in> set gs. gr_host g = h}))"
      by (simp add: Cons.IH unat_max)
    also have "\<dots> = Max (insert (unat e) ((\<lambda>g. unat (gr_until g)) ` {x \<in> set (g # gs). gr_host x = h}))"
      unfolding s image_insert by (rule Max_insert_max) simp
    finally show ?thesis .
  next
    case False
    then have s: "{x \<in> set (g # gs). gr_host x = h} = {x \<in> set gs. gr_host x = h}" by auto
    from False Cons.IH [of e] show ?thesis unfolding s by (simp add: grants_expiry_def)
  qed
qed (simp add: grants_expiry_def)

lemma ticket_error_None:
  "ticket_error t h now = None \<longleftrightarrow> HashValid h \<and> tk_host t = h \<and> DateValid (tk_created t) \<and> DateValid now
     \<and> tk_created t \<le> now"
  by (auto simp: ticket_error_def not_less)

text \<open>The times, as plain numbers, at which a lease list lets the build of a host expire.\<close>

definition expiry_times :: "build_ticket \<Rightarrow> string \<Rightarrow> leases option \<Rightarrow> nat set" where
  "expiry_times t h ls = insert (unat (tk_created t) + 1209600)
     (case ls of None \<Rightarrow> {} | Some l \<Rightarrow> (\<lambda>g. unat (gr_until g)) ` {g \<in> set (ls_grants l). gr_host g = h})"

text \<open>C32: a version 1 ticket is admitted until \<open>e\<close> exactly if it is no kill-switch ticket, names the
  measured host, all dates are in range and not before creation, a supplied list is a valid model not
  issued more than 300 seconds ahead, and \<open>e\<close>, which is in the future, is the latest of the grace
  period's end and the host's grants, computed without wrap-around.\<close>

theorem Evaluate_iff:
  "Evaluate t h now ls = Inr e \<longleftrightarrow>
     \<not> tk_kill_switch t \<and> HashValid h \<and> tk_host t = h \<and> DateValid (tk_created t) \<and> DateValid now
     \<and> tk_created t \<le> now
     \<and> (case ls of None \<Rightarrow> True | Some l \<Rightarrow> ModelValid l \<and> \<not> from_future l now)
     \<and> unat e = Max (expiry_times t h ls) \<and> now < e"
proof (cases "tk_kill_switch t \<or> ticket_error t h now \<noteq> None")
  case True
  then show ?thesis using ticket_error_None [of t h now] by (auto simp: Evaluate_def split: option.splits)
next
  case False
  then have t: "\<not> tk_kill_switch t" "ticket_error t h now = None" by simp_all
  then have v: "HashValid h \<and> tk_host t = h \<and> DateValid (tk_created t) \<and> DateValid now \<and> tk_created t \<le> now"
    by (simp add: ticket_error_None)
  let ?g = "tk_created t + kGraceSeconds"
  have g: "unat ?g = unat (tk_created t) + 1209600"
    using DateValid_add [of "tk_created t" kGraceSeconds] v by (simp add: kGraceSeconds_def)
  show ?thesis
  proof (cases ls)
    case None
    then have "Evaluate t h now ls = Inr e \<longleftrightarrow> e = ?g \<and> now < e"
      using t by (auto simp: Evaluate_def Let_def)
    also have "e = ?g \<longleftrightarrow> unat e = Max (expiry_times t h ls)"
      using None g by (simp add: expiry_times_def word_unat_eq_iff)
    finally show ?thesis using v t None by simp
  next
    case (Some l)
    let ?x = "grants_expiry h ?g (ls_grants l)"
    have "Evaluate t h now ls = Inr e \<longleftrightarrow> ModelValid l \<and> \<not> from_future l now \<and> e = ?x \<and> now < e"
      using t Some by (auto simp: Evaluate_def Let_def)
    also have "e = ?x \<longleftrightarrow> unat e = Max (expiry_times t h ls)"
      using Some g by (simp add: expiry_times_def word_unat_eq_iff grants_expiry_Max)
    finally show ?thesis using v t Some by simp
  qed
qed

lemma listed_latest: "listed h l = Some g \<Longrightarrow> g \<in> set (ls_grants l) \<and> gr_host g = h"
  by (auto simp: listed_def find_Some_iff)

lemma cached_expiry_bound:
  assumes "unat e = n"
  shows "unat (cached_expiry h now cached e) \<le> max n (unat now + 86400)"
proof (cases "cached_expiry h now cached e = e")
  case True
  with assms show ?thesis by simp
next
  case False
  then obtain c g where c: "cached = Some c" "listed h (cc_leases c) = Some g" "DateValid (cc_checked c)" "cc_checked c \<le> now"
    "cached_expiry h now cached e = max e (min (cc_checked c + kKillSwitchCheckSeconds) (gr_until g))"
    by (auto simp: cached_expiry_def split: option.splits if_splits)
  have "unat (cc_checked c + kKillSwitchCheckSeconds) = unat (cc_checked c) + 86400"
    using DateValid_add [OF c(3), of kKillSwitchCheckSeconds] by (simp add: kKillSwitchCheckSeconds_def)
  moreover have "unat (cc_checked c) \<le> unat now" using c(4) by (simp add: word_le_nat_alt)
  ultimately show ?thesis using assms by (simp add: c(5) unat_max unat_min)
qed

definition admits_online :: "string \<Rightarrow> leases \<Rightarrow> u64 \<Rightarrow> bool" where
  "admits_online h l now \<longleftrightarrow> (case listed h l of None \<Rightarrow> False | Some g \<Rightarrow> gr_until g > now)"

text \<open>C31: a kill-switch decision is bounded and never revokes by mistake: an admission expires after now
  and at most a day from now, or (with no usable online answer) three days from creation; an offline
  admission is never given to a revoked build; and the cached state is changed only by a usable
  online list, refreshed exactly if that list still grants the host and revoked exactly if not.\<close>

theorem killswitch_bounded:
  assumes "EvaluateKillSwitch t h now online cached revoked = Inr d"
  shows "let answer = online_answer online now in
     (kd_allowed d \<longrightarrow> now < kd_expires d \<and> tk_host t = h
        \<and> unat (kd_expires d) \<le> max (unat now + 86400) (if answer = None then unat (tk_created t) + 259200 else 0)
        \<and> (answer = None \<longrightarrow> \<not> revoked))
     \<and> (\<not> kd_allowed d \<longrightarrow> kd_expires d = 0 \<and> kd_reason d \<noteq> [])
     \<and> (kd_cache d = Refresh \<longleftrightarrow> (case answer of None \<Rightarrow> False | Some l \<Rightarrow> admits_online h l now))
     \<and> (kd_cache d = Revoke \<longleftrightarrow> (case answer of None \<Rightarrow> False | Some l \<Rightarrow> \<not> admits_online h l now))"
proof -
  have t: "ticket_error t h now = None"
    using assms by (auto simp: EvaluateKillSwitch_def split: if_splits option.splits)
  then have v: "tk_host t = h" "DateValid (tk_created t)" "DateValid now" by (simp_all add: ticket_error_None)
  have now: "unat (now + kKillSwitchCheckSeconds) = unat now + 86400"
    using DateValid_add [OF v(3), of kKillSwitchCheckSeconds] by (simp add: kKillSwitchCheckSeconds_def)
  have made: "unat (tk_created t + kKillSwitchOfflineSeconds) = unat (tk_created t) + 259200"
    using DateValid_add [OF v(2), of kKillSwitchOfflineSeconds] by (simp add: kKillSwitchOfflineSeconds_def)
  have reasons: "withdrawn_reason \<noteq> []" "check_needed_reason \<noteq> []"
    by (simp_all add: withdrawn_reason_def check_needed_reason_def)
  show ?thesis
  proof (cases "online_answer online now")
    case (Some l)
    show ?thesis
    proof (cases "admits_online h l now")
      case True
      then obtain g where g: "listed h l = Some g" "gr_until g > now"
        by (auto simp: admits_online_def split: option.splits)
      with assms Some t have d: "d = \<lparr>kd_allowed = True, kd_expires = min (now + kKillSwitchCheckSeconds) (gr_until g),
          kd_cache = Refresh, kd_reason = []\<rparr>"
        by (auto simp: EvaluateKillSwitch_def split: if_splits)
      have "now < min (now + kKillSwitchCheckSeconds) (gr_until g)"
        using now g(2) by (simp add: word_less_nat_alt unat_min)
      with True Some v now show ?thesis by (simp add: d Let_def unat_min)
    next
      case False
      with assms Some t have d: "d = \<lparr>kd_allowed = False, kd_expires = 0, kd_cache = Revoke, kd_reason = withdrawn_reason\<rparr>"
        by (auto simp: EvaluateKillSwitch_def admits_online_def split: if_splits option.splits)
      with False Some reasons show ?thesis by (simp add: Let_def)
    qed
  next
    case None
    let ?e = "cached_expiry h now cached (tk_created t + kKillSwitchOfflineSeconds)"
    show ?thesis
    proof (cases "revoked \<or> now \<ge> ?e")
      case True
      with assms None t reasons show ?thesis
        by (auto simp: EvaluateKillSwitch_def Let_def split: if_splits)
    next
      case False
      with assms None t have d: "d = \<lparr>kd_allowed = True, kd_expires = ?e, kd_cache = Keep, kd_reason = []\<rparr>"
        by (auto simp: EvaluateKillSwitch_def Let_def split: if_splits)
      have "unat ?e \<le> max (unat (tk_created t) + 259200) (unat now + 86400)"
        by (rule cached_expiry_bound [OF made])
      with False None v show ?thesis by (simp add: d Let_def not_le max.commute)
    qed
  qed
qed

theorem killswitch_bounded_witness:
  "let h = replicate 64 (CHR ''A'');
       t = \<lparr>tk_host = h, tk_created = 1600000000, tk_kill_switch = True, tk_capabilities = 0\<rparr>;
       d = \<lparr>kd_allowed = True, kd_expires = 1600259200, kd_cache = Keep, kd_reason = []\<rparr> in
   EvaluateKillSwitch t h 1600000100 None None False = Inr d
   \<and> unat (kd_expires d) \<le> max (unat (1600000100 :: u64) + 86400) (unat (tk_created t) + 259200)"
proof -
  let ?h = "replicate 64 (CHR ''A'')"
  let ?t = "\<lparr>tk_host = ?h, tk_created = 1600000000, tk_kill_switch = True, tk_capabilities = 0\<rparr>"
  have e: "EvaluateKillSwitch ?t ?h 1600000100 None None False
      = Inr \<lparr>kd_allowed = True, kd_expires = 1600259200, kd_cache = Keep, kd_reason = []\<rparr>" by code_simp
  from killswitch_bounded [OF e] have "unat (1600259200 :: u64) \<le> max (unat (1600000100 :: u64) + 86400)
      (if online_answer None 1600000100 = None then unat (1600000000 :: u64) + 259200 else 0)"
    by (simp only: Let_def ks_decision.simps build_ticket.simps simp_thms)
  with e show ?thesis by (simp add: Let_def online_answer_def)
qed

end
