(* ===== verification/Capabilities.thy ===== *)
theory Capabilities
  imports Preferences BuildLease
begin

section \<open>Launcher capabilities (\<open>mcla_launcher_capabilities.h\<close>)\<close>

text \<open>
  Which render target and frame-rate choice a build may be started with: the owner's admission file,
  the resolution of a request to a plan, and the record of a plan, which revalidates it. Views and
  strings are \<open>string\<close>, wide argument strings \<open>u16string\<close>.
\<close>

subsection \<open>Constants and data\<close>

definition kCapabilityPolicyVersion :: u32 where "kCapabilityPolicyVersion = 1"
definition kStockGuestRefreshHz :: u32 where "kStockGuestRefreshHz = 60"
definition kRenderTargetTestedBuild :: string where
  "kRenderTargetTestedBuild = ''9C6BEA718046F1B22D7FB9C4BEB8E03CC52DD3F466CCFB926CC585059F580BAA''"
definition kCleanRenderTargetTestedBuild :: string where
  "kCleanRenderTargetTestedBuild = ''FED35A361F4A4A10BB03A6BC45072C82924085A0D3ADB8A3298243066DB4A850''"
definition kStockTimingKey :: string where "kStockTimingKey = ''stock''"
definition kUnlockedTimingKey :: string where "kUnlockedTimingKey = ''unlocked''"
definition kFixed60UnavailableReason :: string where "kFixed60UnavailableReason = ''not yet validated''"
definition kUnlockedGuestVblankHz :: u32 where "kUnlockedGuestVblankHz = 240"
definition kUnlockedTestedBuilds :: "string list" where
  "kUnlockedTestedBuilds = [''0789DBB5F8B59C698FC269B18E87D20A9EC6EB44913709A321829A0DF36DC105'']"
definition kOwnerAdmissionHeader :: string where
  "kOwnerAdmissionHeader = ''MCLA-OWNER-ADMITTED-BUILDS-V1'' @ [newline_char]"
definition kOwnerAdmissionMaximumBytes :: nat where "kOwnerAdmissionMaximumBytes = 16 * 1024"
definition kOwnerAdmissionMaximumEntries :: nat where "kOwnerAdmissionMaximumEntries = 64"
definition kOwnerAdmissionKey :: string where "kOwnerAdmissionKey = ''owner-allowlist''"
definition kTicketGrantKey :: string where "kTicketGrantKey = ''ticket-grant''"

datatype capability_error = InvalidBuildIdentity | InvalidGameIdentity | UnverifiedTimingError
  | UnsupportedTiming | UnsupportedVsync | UnknownRenderTarget | UntestedTargetBuild
  | InconsistentPlan | UntestedUnlockedBuild

record capability_request =
  cr_build :: string
  cr_game :: string
  cr_timing :: timing_mode
  cr_target :: u32
  cr_vsync :: bool
  cr_owner :: bool
  cr_grant :: u8

record capability_plan =
  cp_build :: string
  cp_game :: string
  cp_timing :: timing_mode
  cp_target :: render_target
  cp_refresh :: u32
  cp_vblank :: u32
  cp_vsync :: bool
  cp_owner :: bool
  cp_granted :: bool
  cp_grant :: u8

definition ValidCapabilityIdentity :: "string \<Rightarrow> bool" where
  "ValidCapabilityIdentity v \<longleftrightarrow> length v = 64
     \<and> list_all (\<lambda>c. is_digit c \<or> (CHR ''A'' \<le> c \<and> c \<le> CHR ''F'')) v"

definition TimingPolicySupported :: "timing_mode \<Rightarrow> bool" where
  "TimingPolicySupported t \<longleftrightarrow> t = Stock \<or> t = Unlocked"

definition UnlockedBuildTested :: "string \<Rightarrow> bool" where
  "UnlockedBuildTested b \<longleftrightarrow> b \<in> set kUnlockedTestedBuilds"

subsection \<open>The owner admission file\<close>

record owner_rejection =
  or_reason :: string
  or_line :: nat

abbreviation Rejected :: "string \<Rightarrow> nat \<Rightarrow> owner_rejection + 'a" where
  "Rejected r n \<equiv> Inl \<lparr>or_reason = r, or_line = n\<rparr>"

definition carriage_return :: char where "carriage_return = CHR 0x0D"

text \<open>The loop that drops the carriage return of each CR LF pair.\<close>

fun drop_cr :: "string \<Rightarrow> string" where
  "drop_cr [] = []"
| "drop_cr (c # cs) = (if c = carriage_return \<and> cs \<noteq> [] \<and> hd cs = newline_char then drop_cr cs
     else c # drop_cr cs)"

definition normalise_owner :: "string \<Rightarrow> string" where
  "normalise_owner raw =
     (let text = (if prefix [CHR 0xEF, CHR 0xBB, CHR 0xBF] raw then drop 3 raw else raw);
          n = drop_cr text in
      if n \<noteq> [] \<and> List.last n \<noteq> newline_char then n @ [newline_char] else n)"

definition label_char :: "char \<Rightarrow> bool" where
  "label_char c \<longleftrightarrow> (CHR ''A'' \<le> c \<and> c \<le> CHR ''Z'') \<or> (CHR ''a'' \<le> c \<and> c \<le> CHR ''z'') \<or> is_digit c
     \<or> c = CHR ''.'' \<or> c = CHR ''_'' \<or> c = CHR ''-''"

definition owner_label_valid :: "string \<Rightarrow> bool" where
  "owner_label_valid row \<longleftrightarrow> row ! 64 = CHR '' '' \<and> drop 65 row \<noteq> [] \<and> length (drop 65 row) \<le> 32
     \<and> list_all label_char (drop 65 row)"

text \<open>The loop over the rows behind the header; \<open>n\<close> is the number of the line before.\<close>

fun owner_rows :: "string list \<Rightarrow> nat \<Rightarrow> string list \<Rightarrow> owner_rejection + string list" where
  "owner_rows builds n [] = Inr builds"
| "owner_rows builds n (row # rows) =
     (if length builds \<ge> kOwnerAdmissionMaximumEntries then Rejected ''more than 64 builds'' (n + 1)
      else if row = [] then Rejected ''empty line'' (n + 1)
      else if length row < 64 \<or> \<not> ValidCapabilityIdentity (take 64 row)
      then Rejected ''not a 64-character uppercase hex fingerprint'' (n + 1)
      else if length row > 64 \<and> \<not> owner_label_valid row
      then Rejected ''label must be one space and 1-32 of A-Z a-z 0-9 . _ -'' (n + 1)
      else if take 64 row \<in> set builds then Rejected ''duplicate fingerprint'' (n + 1)
      else owner_rows (builds @ [take 64 row]) (n + 1) rows)"

text \<open>The normalised text is empty or ends with a line feed, so its rows are the parts between line
  feeds without the empty part behind the final one.\<close>

definition CheckOwnerAdmission :: "string \<Rightarrow> owner_rejection + string list" where
  "CheckOwnerAdmission raw =
     (if length raw > kOwnerAdmissionMaximumBytes then Rejected ''file is over 16 KiB'' 0
      else let text = normalise_owner raw in
        if \<not> prefix kOwnerAdmissionHeader text
        then Rejected ''first line is not MCLA-OWNER-ADMITTED-BUILDS-V1'' 1
        else owner_rows [] 1 (butlast (split_all newline_char (drop (length kOwnerAdmissionHeader) text))))"

definition ParseOwnerAdmission :: "string \<Rightarrow> string list option" where
  "ParseOwnerAdmission text = (case CheckOwnerAdmission text of Inl _ \<Rightarrow> None | Inr builds \<Rightarrow> Some builds)"

definition OwnerAdmissionListed :: "string \<Rightarrow> string \<Rightarrow> bool" where
  "OwnerAdmissionListed text build \<longleftrightarrow>
     (case ParseOwnerAdmission text of None \<Rightarrow> False | Some builds \<Rightarrow> build \<in> set builds)"

definition OwnerAdmissionNotice :: "owner_rejection \<Rightarrow> string" where
  "OwnerAdmissionNotice r = ''Owner admission file ignored: '' @ or_reason r
     @ (if or_line r \<noteq> 0 then '' (line '' @ decimal (or_line r) @ '')'' else []) @ ''.''"

subsection \<open>Descriptions\<close>

definition StockTimingDescription :: string where
  "StockTimingDescription = (if TimingPolicySupported Stock then ''Stock only. '' else ''Stock unavailable. '')
     @ ''60 FPS unavailable: '' @ kFixed60UnavailableReason @ ''.''"

definition TimingLimitation :: "timing_mode \<Rightarrow> string" where
  "TimingLimitation t = (if t = Unlocked
     then ''Experimental: fast menus over the city, 30-40 FPS at busy junctions, night light flicker.''
     else ''Stock 30 FPS, the original pacing. Recommended.'')"

definition dec32 :: "u32 \<Rightarrow> string" where "dec32 x = decimal (unat x)"

definition CheckedStockSettingsDescription :: "u32 \<Rightarrow> string" where
  "CheckedStockSettingsDescription i = (case FindRenderTarget i of None \<Rightarrow> []
     | Some t \<Rightarrow> ''Stock timing | VSync On | render '' @ dec32 (rt_width t) @ '' x '' @ dec32 (rt_height t)
         @ '' | guest refresh '' @ dec32 kStockGuestRefreshHz @ '' Hz.'' @ [carriage_return, newline_char]
         @ ''Checked arguments, not measured FPS or world quality. Start Game rechecks.'')"

definition CheckedSettingsDescription :: "u32 \<Rightarrow> timing_mode \<Rightarrow> string" where
  "CheckedSettingsDescription i timing =
     (if timing \<noteq> Unlocked then CheckedStockSettingsDescription i
      else case FindRenderTarget i of None \<Rightarrow> []
     | Some t \<Rightarrow> ''Unlocked FPS (experimental) | VSync On | render '' @ dec32 (rt_width t) @ '' x ''
         @ dec32 (rt_height t) @ '' | guest vblank '' @ dec32 kUnlockedGuestVblankHz
         @ '' Hz after the start delay.'' @ [carriage_return, newline_char]
         @ ''Checked arguments, not measured FPS or world quality. Start Game rechecks.'')"

fun CapabilityErrorDescription :: "capability_error \<Rightarrow> string" where
  "CapabilityErrorDescription InvalidBuildIdentity = ''Build fingerprint must be canonical uppercase SHA256''"
| "CapabilityErrorDescription InvalidGameIdentity = ''Game fingerprint must be canonical uppercase SHA256''"
| "CapabilityErrorDescription UnverifiedTimingError = ''60 FPS is not yet validated''"
| "CapabilityErrorDescription UnsupportedTiming = ''Only stock timing is supported''"
| "CapabilityErrorDescription UnsupportedVsync = ''Stock launch requires VSync On''"
| "CapabilityErrorDescription UnknownRenderTarget = ''Select a supported render resolution target''"
| "CapabilityErrorDescription UntestedTargetBuild = ''1080p/2160p require the render-target-tested build''"
| "CapabilityErrorDescription InconsistentPlan = ''Resolved settings disagree with the capability policy''"
| "CapabilityErrorDescription UntestedUnlockedBuild = ''Unlocked FPS is not verified for this build; choose 30 FPS''"

definition RenderTargetLimitation :: "u32 \<Rightarrow> string" where
  "RenderTargetLimitation i = (if i = 1080 then ''experimental-960x540-guest-plus-2x;vinyl-KI-033-open''
     else if i = 2160 then ''world-sign-corruption-KI-032-open;vinyl-KI-033-open''
     else ''baseline-rendering-limitations-remain'')"

subsection \<open>Resolution\<close>

definition gated_unlocked :: "capability_request \<Rightarrow> bool" where
  "gated_unlocked r \<longleftrightarrow> cr_timing r = Unlocked \<and> \<not> UnlockedBuildTested (cr_build r)"

definition gated_target :: "capability_request \<Rightarrow> render_target \<Rightarrow> bool" where
  "gated_target r t \<longleftrightarrow> (rt_id t = 1080 \<or> rt_id t = 2160)
     \<and> cr_build r \<noteq> kRenderTargetTestedBuild \<and> cr_build r \<noteq> kCleanRenderTargetTestedBuild"

definition target_bit :: "u32 \<Rightarrow> u8" where
  "target_bit i = (if i = 1080 then kGrant1080p else if i = 2160 then kGrant2160p else 0)"

definition ResolveCapabilities :: "capability_request \<Rightarrow> capability_error + capability_plan" where
  "ResolveCapabilities r =
     (if \<not> ValidCapabilityIdentity (cr_build r) then Inl InvalidBuildIdentity
      else if \<not> ValidCapabilityIdentity (cr_game r) then Inl InvalidGameIdentity
      else if cr_timing r = Fixed60 then Inl UnverifiedTimingError
      else if \<not> TimingPolicySupported (cr_timing r) then Inl UnsupportedTiming
      else if \<not> cr_vsync r then Inl UnsupportedVsync
      else if gated_unlocked r \<and> \<not> cr_owner r \<and> \<not> and (cr_grant r) kGrantUnlocked \<noteq> 0
      then Inl UntestedUnlockedBuild
      else case FindRenderTarget (cr_target r) of None \<Rightarrow> Inl UnknownRenderTarget
      | Some t \<Rightarrow>
          let granted_target = (target_bit (rt_id t) \<noteq> 0 \<and> and (cr_grant r) (target_bit (rt_id t)) \<noteq> 0) in
          if gated_target r t \<and> \<not> cr_owner r \<and> \<not> granted_target then Inl UntestedTargetBuild
          else
            let unlocked = (cr_timing r = Unlocked);
                gated = (gated_unlocked r \<or> gated_target r t);
                owner = (gated \<and> cr_owner r) in
            Inr \<lparr>cp_build = cr_build r, cp_game = cr_game r, cp_timing = cr_timing r, cp_target = t,
                 cp_refresh = kStockGuestRefreshHz, cp_vblank = (if unlocked then kUnlockedGuestVblankHz else 0),
                 cp_vsync = True, cp_owner = owner, cp_granted = (gated \<and> \<not> owner), cp_grant = cr_grant r\<rparr>)"

definition TimingLaunchArguments :: "capability_plan \<Rightarrow> u16string list" where
  "TimingLaunchArguments p = (if cp_vblank p = 0 then []
     else [u16lit (''--mcla_guest_vblank_hz='' @ dec32 (cp_vblank p))])"

subsection \<open>The record of a plan\<close>

definition request_of :: "capability_plan \<Rightarrow> capability_request" where
  "request_of p = \<lparr>cr_build = cp_build p, cr_game = cp_game p, cr_timing = cp_timing p,
     cr_target = rt_id (cp_target p), cr_vsync = cp_vsync p, cr_owner = cp_owner p, cr_grant = cp_grant p\<rparr>"

definition plan_consistent :: "capability_plan \<Rightarrow> capability_plan \<Rightarrow> bool" where
  "plan_consistent p q \<longleftrightarrow> \<not> (cp_owner p \<noteq> cp_owner q \<or> cp_granted p \<noteq> cp_granted q
     \<or> cp_refresh p \<noteq> cp_refresh q \<or> cp_vblank p \<noteq> cp_vblank q
     \<or> rt_width (cp_target p) \<noteq> rt_width (cp_target q) \<or> rt_height (cp_target p) \<noteq> rt_height (cp_target q)
     \<or> rt_guest_width (cp_target p) \<noteq> rt_guest_width (cp_target q)
     \<or> rt_guest_height (cp_target p) \<noteq> rt_guest_height (cp_target q)
     \<or> rt_scale (cp_target p) \<noteq> rt_scale (cp_target q))"

definition line_text :: "string \<Rightarrow> string" where "line_text s = newline_char # s"

definition plan_text :: "capability_plan \<Rightarrow> string" where
  "plan_text p = ''MCLA-LAUNCHER-CAPABILITIES-V1'' @ line_text ''policy_version '' @ dec32 kCapabilityPolicyVersion
     @ line_text ''build '' @ cp_build p @ line_text ''game '' @ cp_game p
     @ line_text ''settings_scope resolved-launch-arguments'' @ line_text ''timing ''
     @ (if cp_timing p = Unlocked then kUnlockedTimingKey else kStockTimingKey)
     @ line_text ''guest_refresh_hz '' @ dec32 (cp_refresh p)
     @ (if cp_vblank p \<noteq> 0 then line_text ''guest_vblank_hz '' @ dec32 (cp_vblank p) else [])
     @ line_text ''vsync on'' @ line_text ''render_target_id '' @ dec32 (rt_id (cp_target p))
     @ line_text ''render_target '' @ dec32 (rt_width (cp_target p)) @ ''x'' @ dec32 (rt_height (cp_target p))
     @ line_text ''guest_mode '' @ dec32 (rt_guest_width (cp_target p)) @ ''x'' @ dec32 (rt_guest_height (cp_target p))
     @ line_text ''draw_scale '' @ dec32 (rt_scale (cp_target p)) @ ''x'' @ dec32 (rt_scale (cp_target p))
     @ line_text ''fixed60_available false'' @ line_text ''fixed60_reason '' @ kFixed60UnavailableReason
     @ line_text ''host_state_observed false'' @ line_text ''fps_measured false''
     @ line_text ''world_validation not-certified-by-policy'' @ line_text ''render_limitation ''
     @ RenderTargetLimitation (rt_id (cp_target p))
     @ (if cp_owner p then line_text ''admission '' @ kOwnerAdmissionKey
        else if cp_granted p then line_text ''admission '' @ kTicketGrantKey else []) @ [newline_char]"

definition SerializeCapabilities :: "capability_plan \<Rightarrow> capability_error + string" where
  "SerializeCapabilities p = bindE (ResolveCapabilities (request_of p)) (\<lambda>q.
     if \<not> plan_consistent p q then Inl InconsistentPlan else Inr (plan_text p))"

subsection \<open>What a resolved or recorded plan means\<close>

lemma FindRenderTarget_id: "FindRenderTarget i = Some t \<Longrightarrow> rt_id t = i"
  by (auto simp: FindRenderTarget_def kRenderTargets_def target_row_def split: if_splits)

lemma ResolveCapabilities_Inr:
  assumes "ResolveCapabilities r = Inr p"
  obtains t where "ValidCapabilityIdentity (cr_build r)" "ValidCapabilityIdentity (cr_game r)"
    "TimingPolicySupported (cr_timing r)" "cr_vsync r" "FindRenderTarget (cr_target r) = Some t" "rt_id t = cr_target r"
    "gated_unlocked r \<longrightarrow> cr_owner r \<or> and (cr_grant r) kGrantUnlocked \<noteq> 0"
    "gated_target r t \<longrightarrow> cr_owner r \<or> and (cr_grant r) (target_bit (cr_target r)) \<noteq> 0"
    "p = \<lparr>cp_build = cr_build r, cp_game = cr_game r, cp_timing = cr_timing r, cp_target = t,
       cp_refresh = kStockGuestRefreshHz, cp_vblank = (if cr_timing r = Unlocked then kUnlockedGuestVblankHz else 0),
       cp_vsync = True, cp_owner = ((gated_unlocked r \<or> gated_target r t) \<and> cr_owner r),
       cp_granted = ((gated_unlocked r \<or> gated_target r t) \<and> \<not> cr_owner r), cp_grant = cr_grant r\<rparr>"
proof (cases "FindRenderTarget (cr_target r)")
  case None
  with assms show ?thesis by (simp add: ResolveCapabilities_def split: if_splits)
next
  case (Some t)
  with assms FindRenderTarget_id [OF Some] show ?thesis
    by (intro that [of t]) (auto simp: ResolveCapabilities_def Let_def split: if_splits)
qed

text \<open>Every option beyond the defaults was admitted by a tested build, the owner or the grant.\<close>

definition admitted :: "capability_plan \<Rightarrow> bool \<Rightarrow> u8 \<Rightarrow> bool" where
  "admitted p owner g \<longleftrightarrow>
     (cp_timing p = Unlocked \<longrightarrow> UnlockedBuildTested (cp_build p) \<or> owner \<or> and g kGrantUnlocked \<noteq> 0)
     \<and> (rt_id (cp_target p) = 1080 \<or> rt_id (cp_target p) = 2160 \<longrightarrow>
          cp_build p = kRenderTargetTestedBuild \<or> cp_build p = kCleanRenderTargetTestedBuild
          \<or> owner \<or> and g (target_bit (rt_id (cp_target p))) \<noteq> 0)"

lemma resolved_admitted:
  assumes "ResolveCapabilities r = Inr p"
  shows "admitted p (cr_owner r) (cr_grant r)"
  using assms by (rule ResolveCapabilities_Inr) (auto simp: admitted_def gated_unlocked_def gated_target_def)

lemma resolved_again:
  assumes "ResolveCapabilities r = Inr p"
  shows "ResolveCapabilities (request_of p) = Inr p"
proof -
  obtain t where t: "ValidCapabilityIdentity (cr_build r)" "ValidCapabilityIdentity (cr_game r)"
    "TimingPolicySupported (cr_timing r)" "cr_vsync r" "FindRenderTarget (cr_target r) = Some t" "rt_id t = cr_target r"
    "gated_unlocked r \<longrightarrow> cr_owner r \<or> and (cr_grant r) kGrantUnlocked \<noteq> 0"
    "gated_target r t \<longrightarrow> cr_owner r \<or> and (cr_grant r) (target_bit (cr_target r)) \<noteq> 0"
    and p: "p = \<lparr>cp_build = cr_build r, cp_game = cr_game r, cp_timing = cr_timing r, cp_target = t,
       cp_refresh = kStockGuestRefreshHz, cp_vblank = (if cr_timing r = Unlocked then kUnlockedGuestVblankHz else 0),
       cp_vsync = True, cp_owner = ((gated_unlocked r \<or> gated_target r t) \<and> cr_owner r),
       cp_granted = ((gated_unlocked r \<or> gated_target r t) \<and> \<not> cr_owner r), cp_grant = cr_grant r\<rparr>"
    by (rule ResolveCapabilities_Inr [OF assms]) (rule that; assumption)
  define r2 where "r2 = request_of p"
  have r2: "cr_build r2 = cr_build r" "cr_game r2 = cr_game r" "cr_timing r2 = cr_timing r" "cr_target r2 = cr_target r"
    "cr_vsync r2" "cr_owner r2 = ((gated_unlocked r \<or> gated_target r t) \<and> cr_owner r)" "cr_grant r2 = cr_grant r"
    using t(6) by (simp_all add: r2_def request_of_def p)
  have g: "gated_unlocked r2 = gated_unlocked r" "gated_target r2 t = gated_target r t"
    by (simp_all add: r2 gated_unlocked_def gated_target_def)
  have b: "gated_target r t \<longrightarrow> target_bit (cr_target r) \<noteq> 0"
    using t(6) by (auto simp: gated_target_def target_bit_def kGrant1080p_def kGrant2160p_def)
  have nf: "cr_timing r \<noteq> Fixed60" using t(3) by (auto simp: TimingPolicySupported_def)
  have n1: "\<not> (gated_unlocked r2 \<and> \<not> cr_owner r2 \<and> \<not> and (cr_grant r2) kGrantUnlocked \<noteq> 0)"
    using t(7) by (auto simp: r2 g)
  have n2: "\<not> (gated_target r2 t \<and> \<not> cr_owner r2
      \<and> \<not> (target_bit (rt_id t) \<noteq> 0 \<and> and (cr_grant r2) (target_bit (rt_id t)) \<noteq> 0))"
    using t(6,8) b by (auto simp: r2 g)
  have "ResolveCapabilities r2 = Inr \<lparr>cp_build = cr_build r2, cp_game = cr_game r2, cp_timing = cr_timing r2, cp_target = t,
       cp_refresh = kStockGuestRefreshHz, cp_vblank = (if cr_timing r2 = Unlocked then kUnlockedGuestVblankHz else 0),
       cp_vsync = True, cp_owner = ((gated_unlocked r2 \<or> gated_target r2 t) \<and> cr_owner r2),
       cp_granted = ((gated_unlocked r2 \<or> gated_target r2 t) \<and> \<not> ((gated_unlocked r2 \<or> gated_target r2 t) \<and> cr_owner r2)),
       cp_grant = cr_grant r2\<rparr>"
    unfolding ResolveCapabilities_def if_not_P [OF n1] Let_def using n2 t(1-5) nf by (simp add: r2(1-5) Let_def)
  also have "\<dots> = Inr p" by (auto simp: r2 g p)
  finally have "ResolveCapabilities r2 = Inr p" .
  then show ?thesis by (simp add: r2_def)
qed

text \<open>C35: no forged plan is ever recorded: a plan serialises exactly if it is one that the policy resolves
  for its own choices, every field of it, and then each gated option in it is admitted by the build's
  tested record, the owner flag or the matching bit of the ticket's grant; a plan that the policy
  produced always serialises.\<close>

theorem serialized_plan_genuine:
  "(isInr (SerializeCapabilities p) \<longleftrightarrow> ResolveCapabilities (request_of p) = Inr p)
   \<and> (case SerializeCapabilities p of Inl _ \<Rightarrow> True
      | Inr t \<Rightarrow> t = plan_text p \<and> admitted p (cp_owner p) (cp_grant p))
   \<and> (case ResolveCapabilities r of Inl _ \<Rightarrow> True
      | Inr q \<Rightarrow> SerializeCapabilities q = Inr (plan_text q) \<and> admitted q (cr_owner r) (cr_grant r))"
proof -
  have same: "q = p" if "ResolveCapabilities (request_of p) = Inr q" "plan_consistent p q" for p q
    using that(1)
  proof (rule ResolveCapabilities_Inr)
    fix t
    assume "cr_vsync (request_of p)" "rt_id t = cr_target (request_of p)"
      and q: "q = \<lparr>cp_build = cr_build (request_of p), cp_game = cr_game (request_of p),
        cp_timing = cr_timing (request_of p), cp_target = t, cp_refresh = kStockGuestRefreshHz,
        cp_vblank = (if cr_timing (request_of p) = Unlocked then kUnlockedGuestVblankHz else 0), cp_vsync = True,
        cp_owner = ((gated_unlocked (request_of p) \<or> gated_target (request_of p) t) \<and> cr_owner (request_of p)),
        cp_granted = ((gated_unlocked (request_of p) \<or> gated_target (request_of p) t) \<and> \<not> cr_owner (request_of p)),
        cp_grant = cr_grant (request_of p)\<rparr>"
    then have e: "cp_vsync p" "rt_id t = rt_id (cp_target p)" by (simp_all add: request_of_def)
    have c: "cp_owner p = cp_owner q" "cp_granted p = cp_granted q" "cp_refresh p = cp_refresh q" "cp_vblank p = cp_vblank q"
      "rt_width (cp_target p) = rt_width (cp_target q)" "rt_height (cp_target p) = rt_height (cp_target q)"
      "rt_guest_width (cp_target p) = rt_guest_width (cp_target q)"
      "rt_guest_height (cp_target p) = rt_guest_height (cp_target q)" "rt_scale (cp_target p) = rt_scale (cp_target q)"
      using that(2) by (simp_all add: plan_consistent_def)
    have "cp_build q = cp_build p" "cp_game q = cp_game p" "cp_timing q = cp_timing p" "cp_vsync q = cp_vsync p"
      "cp_grant q = cp_grant p" "rt_id (cp_target q) = rt_id (cp_target p)"
      using e by (simp_all add: q request_of_def)
    with c show "q = p" by (simp add: capability_plan.equality render_target.equality)
  qed
  have self: "plan_consistent p p" for p by (simp add: plan_consistent_def)
  have iff: "isInr (SerializeCapabilities p) \<longleftrightarrow> ResolveCapabilities (request_of p) = Inr p" for p
    using same [of p] self [of p]
    by (cases "ResolveCapabilities (request_of p)") (auto simp: SerializeCapabilities_def)
  have whole: "t = plan_text p" if "SerializeCapabilities p = Inr t" for t p
    using that by (auto simp: SerializeCapabilities_def expected_simps split: if_splits)
  have adm: "admitted p (cp_owner p) (cp_grant p)" if "ResolveCapabilities (request_of p) = Inr p" for p
    using resolved_admitted [OF that] by (simp add: request_of_def)
  have again: "SerializeCapabilities q = Inr (plan_text q)" if "ResolveCapabilities r = Inr q" for r q
    using resolved_again [OF that] self [of q] by (simp add: SerializeCapabilities_def)
  have "case SerializeCapabilities p of Inl _ \<Rightarrow> True
      | Inr t \<Rightarrow> t = plan_text p \<and> admitted p (cp_owner p) (cp_grant p)"
  proof (cases "SerializeCapabilities p")
    case (Inr t)
    then have "ResolveCapabilities (request_of p) = Inr p" using iff [of p] by simp
    with Inr whole [OF Inr] adm show ?thesis by simp
  qed simp
  moreover have "case ResolveCapabilities r of Inl _ \<Rightarrow> True
      | Inr q \<Rightarrow> SerializeCapabilities q = Inr (plan_text q) \<and> admitted q (cr_owner r) (cr_grant r)"
  proof (cases "ResolveCapabilities r")
    case (Inr q)
    with again [OF Inr] resolved_admitted [OF Inr] show ?thesis by simp
  qed simp
  ultimately show ?thesis using iff [of p] by blast
qed

subsection \<open>What the owner file admits\<close>

lemma owner_rows_Inr:
  "owner_rows builds n rows = Inr bs \<Longrightarrow> distinct builds \<Longrightarrow> length builds \<le> kOwnerAdmissionMaximumEntries
   \<Longrightarrow> list_all ValidCapabilityIdentity builds
   \<Longrightarrow> distinct bs \<and> length bs \<le> kOwnerAdmissionMaximumEntries \<and> list_all ValidCapabilityIdentity bs
     \<and> bs = builds @ map (take 64) rows"
proof (induction builds n rows rule: owner_rows.induct)
  case (2 builds n row rows)
  then have c: "\<not> length builds \<ge> kOwnerAdmissionMaximumEntries" "row \<noteq> []"
    "\<not> (length row < 64 \<or> \<not> ValidCapabilityIdentity (take 64 row))"
    "\<not> (length row > 64 \<and> \<not> owner_label_valid row)" "take 64 row \<notin> set builds"
    "owner_rows (builds @ [take 64 row]) (n + 1) rows = Inr bs"
    by (auto split: if_splits)
  have "distinct bs \<and> length bs \<le> kOwnerAdmissionMaximumEntries \<and> list_all ValidCapabilityIdentity bs
      \<and> bs = (builds @ [take 64 row]) @ map (take 64) rows"
    by (rule "2.IH" [OF c]) (use "2.prems" c in simp_all)
  then show ?case unfolding list.map append.assoc append_Cons append_Nil by blast
qed simp

lemma ParseOwnerAdmission_Some:
  assumes "ParseOwnerAdmission text = Some bs"
  shows "distinct bs \<and> length bs \<le> kOwnerAdmissionMaximumEntries \<and> list_all ValidCapabilityIdentity bs"
  using assms owner_rows_Inr [of "[]" 1 _ bs]
  by (auto simp: ParseOwnerAdmission_def CheckOwnerAdmission_def Let_def split: if_splits sum.splits)

end
