(* ===== verification/ImportPolicy.thy ===== *)
theory ImportPolicy
  imports Prelude
begin

section \<open>Legacy bundle metadata (\<open>mcla_launcher_import_policy.h\<close>)\<close>

text \<open>
  Recognition of the metadata of an old portable bundle. The JSON library is third-party code: its
  parser is an argument, a function from the text to the callback events it raises, in order, and
  the value, if the text parses. What the code does with both is modelled in full; every exception
  ends in the one error \<open>MalformedJson\<close>.
\<close>

subsection \<open>JSON values and the parser\<close>

datatype json = JNull | JBool bool | JUnsigned u64 | JInteger int | JFloat string | JString string
  | JArray "json list" | JObject "(string \<times> json) list"

datatype parse_event = ObjectStart | ObjectEnd | KeyEvent json | ArrayStart | ArrayEnd | ValueEvent

type_synonym json_parser = "string \<Rightarrow> (int \<times> parse_event) list \<times> json option"

definition kMaximumLegacyManifestBytes :: int where "kMaximumLegacyManifestBytes = 1024 * 1024"
definition kMaximumLegacyIdBytes :: nat where "kMaximumLegacyIdBytes = 256"

definition Space :: "char \<Rightarrow> bool" where
  "Space c \<longleftrightarrow> c = CHR '' '' \<or> c = CHR 0x09 \<or> c = CHR 0x0D \<or> c = CHR 0x0A"

definition member :: "json \<Rightarrow> string \<Rightarrow> json option" where
  "member j k = (case j of JObject kvs \<Rightarrow> map_of kvs k | _ \<Rightarrow> None)"

text \<open>\<open>at(key)\<close>, used by the code only on keys that \<open>ExactKeys\<close> has found.\<close>

definition jat :: "json \<Rightarrow> string \<Rightarrow> json" where
  "jat j k = (case member j k of None \<Rightarrow> JNull | Some v \<Rightarrow> v)"

definition ExactKeys :: "json \<Rightarrow> string list \<Rightarrow> string list \<Rightarrow> bool" where
  "ExactKeys j required opt = (case j of
     JObject kvs \<Rightarrow> list_all (\<lambda>k. member j k \<noteq> None) required
       \<and> list_all (\<lambda>(k, v). k \<in> set required \<or> k \<in> set opt) kvs
   | _ \<Rightarrow> False)"

definition JText :: "json \<Rightarrow> string \<Rightarrow> string \<Rightarrow> bool" where
  "JText j k v \<longleftrightarrow> member j k = Some (JString v)"

definition Unsigned :: "json \<Rightarrow> u64 \<Rightarrow> bool" where "Unsigned j n \<longleftrightarrow> j = JUnsigned n"
definition Boolean :: "json \<Rightarrow> bool \<Rightarrow> bool" where "Boolean j b \<longleftrightarrow> j = JBool b"

definition Hex :: "string \<Rightarrow> nat \<Rightarrow> bool \<Rightarrow> bool" where
  "Hex s n lower \<longleftrightarrow> length s = n \<and> list_all (\<lambda>c. is_digit c
     \<or> (if lower then CHR ''a'' \<le> c \<and> c \<le> CHR ''f'' else CHR ''A'' \<le> c \<and> c \<le> CHR ''F'')) s"

text \<open>A test on a string value: \<open>is_string()\<close> and the test on its text.\<close>

definition on_string :: "(string \<Rightarrow> bool) \<Rightarrow> json \<Rightarrow> bool" where
  "on_string P j = (case j of JString s \<Rightarrow> P s | _ \<Rightarrow> False)"

definition Hash :: "json \<Rightarrow> bool" where "Hash j \<longleftrightarrow> on_string (\<lambda>s. Hex s 64 False) j"

subsection \<open>Field syntax\<close>

fun version_loop :: "nat \<Rightarrow> nat \<Rightarrow> nat \<Rightarrow> string \<Rightarrow> bool" where
  "version_loop groups digits component [] \<longleftrightarrow> groups = 3 \<and> digits \<noteq> 0"
| "version_loop groups digits component (c # cs) =
     (if c = CHR ''.'' then
        (if digits = 0 \<or> groups + 1 > 3 then False else version_loop (groups + 1) 0 0 cs)
      else if \<not> is_digit c \<or> digits + 1 > 5 then False
      else let v = component * 10 + digit_value c in
        if int v > 65535 then False else version_loop groups (digits + 1) v cs)"

definition version_text :: "string \<Rightarrow> bool" where
  "version_text s \<longleftrightarrow> \<not> (s = [] \<or> length s > 23) \<and> version_loop 0 0 0 s"

definition Version :: "json \<Rightarrow> bool" where "Version j \<longleftrightarrow> on_string version_text j"

definition field_number :: "string \<Rightarrow> nat \<Rightarrow> nat \<Rightarrow> nat" where
  "field_number s off n = number_value (take n (drop off s))"

definition leap_year :: "nat \<Rightarrow> bool" where
  "leap_year y \<longleftrightarrow> y mod 4 = 0 \<and> (y mod 100 \<noteq> 0 \<or> y mod 400 = 0)"

definition month_days :: "nat list" where "month_days = [31, 28, 31, 30, 31, 30, 31, 31, 30, 31, 30, 31]"

definition timestamp_text :: "string \<Rightarrow> bool" where
  "timestamp_text s =
     (if length s < 20 \<or> length s > 28 \<or> List.last s \<noteq> CHR ''Z'' \<or> s ! 4 \<noteq> CHR ''-'' \<or> s ! 7 \<noteq> CHR ''-''
         \<or> s ! 10 \<noteq> CHR ''T'' \<or> s ! 13 \<noteq> CHR '':'' \<or> s ! 16 \<noteq> CHR '':'' then False
      else if \<not> list_all (\<lambda>i. i \<in> {4, 7, 10, 13, 16} \<or> is_digit (s ! i)) [0..<19] then False
      else if length s \<noteq> 20 \<and> (s ! 19 \<noteq> CHR ''.'' \<or> length s < 22
         \<or> \<not> list_all (\<lambda>i. is_digit (s ! i)) [20..<length s - 1]) then False
      else
        let year = field_number s 0 4; month = field_number s 5 2; day = field_number s 8 2 in
        if year = 0 \<or> month = 0 \<or> month > 12 \<or> day = 0 \<or> field_number s 11 2 > 23
           \<or> field_number s 14 2 > 59 \<or> field_number s 17 2 > 59 then False
        else day \<le> month_days ! (month - 1) + (if month = 2 \<and> leap_year year then 1 else 0))"

definition UtcTimestamp :: "json \<Rightarrow> bool" where "UtcTimestamp j \<longleftrightarrow> on_string timestamp_text j"

definition safe_component :: "string \<Rightarrow> bool" where
  "safe_component s \<longleftrightarrow> \<not> (s = [] \<or> s = ''.'' \<or> s = ''..'')"

text \<open>The loop over the components of a path.\<close>

function components_safe :: "string \<Rightarrow> bool" where
  "components_safe s =
     (case split_at (CHR ''/'') s of
        (h, None) \<Rightarrow> safe_component h
      | (h, Some r) \<Rightarrow> safe_component h \<and> components_safe r)"
  by pat_completeness auto
termination
  by (relation "measure length") (auto dest: split_at_length sym)

declare components_safe.simps [simp del]

definition letter_or_digit :: "char \<Rightarrow> bool" where
  "letter_or_digit c \<longleftrightarrow> is_digit c \<or> (CHR ''a'' \<le> c \<and> c \<le> CHR ''z'') \<or> (CHR ''A'' \<le> c \<and> c \<le> CHR ''Z'')"

definition path_char :: "char \<Rightarrow> bool" where
  "path_char c \<longleftrightarrow> letter_or_digit c \<or> c = CHR ''/'' \<or> c = CHR ''-'' \<or> c = CHR ''_'' \<or> c = CHR ''.''"

definition kM7Prefix :: string where "kM7Prefix = ''private/save-archive/M7-009/''"
definition kM6Prefix :: string where "kM6Prefix = ''private/save-archive/M6-014/''"

definition snapshot_path :: "string \<Rightarrow> bool" where
  "snapshot_path path =
     (if length path > 256 then False
      else if prefix kM7Prefix path then Hex (drop (length kM7Prefix) path) 64 False
      else if \<not> prefix kM6Prefix path \<or> length path = length kM6Prefix then False
      else if \<not> list_all path_char path then False
      else components_safe path)"

definition SourceSnapshot :: "json \<Rightarrow> bool" where "SourceSnapshot j \<longleftrightarrow> on_string snapshot_path j"

subsection \<open>The parser callback\<close>

text \<open>The number of events so far, and for each open container the keys seen (\<open>None\<close> for an array).
  The result \<open>None\<close> is the exception.\<close>

type_synonym callback_state = "nat \<times> string list option list"

definition callback :: "callback_state \<Rightarrow> int \<times> parse_event \<Rightarrow> callback_state option" where
  "callback s x = (case (s, x) of ((events, containers), (depth, event)) \<Rightarrow>
     if depth > 16 \<or> int (events + 1) > 8192 then None
     else case event of
       ObjectStart \<Rightarrow> if length containers \<ge> 16 then None else Some (events + 1, Some [] # containers)
     | ArrayStart \<Rightarrow> if length containers \<ge> 16 then None else Some (events + 1, None # containers)
     | ObjectEnd \<Rightarrow> (case containers of [] \<Rightarrow> None | _ # rest \<Rightarrow> Some (events + 1, rest))
     | ArrayEnd \<Rightarrow> (case containers of [] \<Rightarrow> None | _ # rest \<Rightarrow> Some (events + 1, rest))
     | KeyEvent parsed \<Rightarrow>
         (case containers of
            Some keys # rest \<Rightarrow> (case parsed of
                JString key \<Rightarrow> if length key > 128 \<or> key \<in> set keys then None
                  else Some (events + 1, Some (key # keys) # rest)
              | _ \<Rightarrow> None)
          | _ \<Rightarrow> None)
     | ValueEvent \<Rightarrow> Some (events + 1, containers))"

fun run_callbacks :: "callback_state \<Rightarrow> (int \<times> parse_event) list \<Rightarrow> callback_state option" where
  "run_callbacks s [] = Some s"
| "run_callbacks s (x # xs) = (case callback s x of None \<Rightarrow> None | Some s' \<Rightarrow> run_callbacks s' xs)"

definition parse_manifest :: "json_parser \<Rightarrow> string \<Rightarrow> json option" where
  "parse_manifest parser text = (case parser text of (events, v) \<Rightarrow>
     if run_callbacks (0, []) events = None then None else v)"

subsection \<open>Validation\<close>

datatype legacy_error = IdBytes | IdLength | IdCharacters | ManifestBytes | ManifestFields | ManifestIdentity
  | IdVersionMismatch | IdFingerprint | CppRuntime | WindowMode | PreparedGame | SelectedSave
  | SeedProfileHash | SeedNeedsProfile | AncestryBounds | AncestryHash | WritableRoots | Retention
  | PrivateContent | InventoryCardinality | ImageCapture | MalformedJson

definition trim_space :: "string \<Rightarrow> string" where
  "trim_space s = rev (dropWhile Space (rev (dropWhile Space s)))"

definition id_char :: "char \<Rightarrow> bool" where
  "id_char c \<longleftrightarrow> letter_or_digit c \<or> c = CHR ''-'' \<or> c = CHR ''_'' \<or> c = CHR ''.''"

definition string_of :: "json \<Rightarrow> string" where
  "string_of j = (case j of JString s \<Rightarrow> s | _ \<Rightarrow> [])"

definition manifest_identity_valid :: "json \<Rightarrow> string \<Rightarrow> bool" where
  "manifest_identity_valid m i \<longleftrightarrow> JText m ''schema'' ''mcla-portable-campaign-bundle-v2'' \<and> JText m ''task'' ''M7-016''
     \<and> JText m ''bundle_id'' i \<and> JText m ''platform'' ''windows-proton''
     \<and> JText m ''architecture'' ''x86_64'' \<and> JText m ''launcher'' ''Launch-MCLA.exe''
     \<and> Version (jat m ''project_version'') \<and> Version (jat m ''sdk_version'')
     \<and> on_string (\<lambda>s. Hex s 40 True) (jat m ''sdk_commit'') \<and> UtcTimestamp (jat m ''created_utc'')"

definition fingerprint_valid :: "string \<Rightarrow> bool" where
  "fingerprint_valid s \<longleftrightarrow> \<not> (length s \<noteq> 50 \<or> s ! 16 \<noteq> CHR ''-'' \<or> s ! 33 \<noteq> CHR ''-''
     \<or> \<not> Hex (take 16 s) 16 False \<or> \<not> Hex (take 16 (drop 17 s)) 16 False \<or> \<not> Hex (drop 34 s) 16 False)"

definition runtime_valid :: "json \<Rightarrow> bool" where
  "runtime_valid j \<longleftrightarrow> ExactKeys j [''policy'', ''version''] [] \<and> JText j ''policy'' ''msvc-14.44-app-local-v1''
     \<and> JText j ''version'' ''14.44.35211.0''"

definition window_mode_valid :: "json \<Rightarrow> bool" where
  "window_mode_valid j \<longleftrightarrow> ExactKeys j [''startup_fullscreen'', ''alt_enter_toggle'', ''left_double_click_toggle''] []
     \<and> Boolean (jat j ''startup_fullscreen'') True \<and> Boolean (jat j ''alt_enter_toggle'') True
     \<and> Boolean (jat j ''left_double_click_toggle'') True"

definition game_valid :: "json \<Rightarrow> bool" where
  "game_valid j \<longleftrightarrow> ExactKeys j [''manifest_sha256'', ''file_count'', ''payload_bytes''] []
     \<and> Hash (jat j ''manifest_sha256'') \<and> Unsigned (jat j ''file_count'') 15
     \<and> Unsigned (jat j ''payload_bytes'') 6569586392"

definition save_valid :: "json \<Rightarrow> bool" where
  "save_valid j \<longleftrightarrow> ExactKeys j [''source_snapshot'', ''save_relative'', ''header_relative'', ''save_sha256'', ''header_sha256'']
       [''profile_sha256'', ''ancestor_profile_sha256'']
     \<and> JText j ''save_relative'' ''B13EBABEBABEBABE/545407F8/00000001/mc4.sav/mc4.sav''
     \<and> JText j ''header_relative'' ''B13EBABEBABEBABE/545407F8/Headers/00000001/mc4.sav.header''
     \<and> SourceSnapshot (jat j ''source_snapshot'') \<and> Hash (jat j ''save_sha256'') \<and> Hash (jat j ''header_sha256'')"

fun ancestors_valid :: "json \<Rightarrow> string list \<Rightarrow> json list \<Rightarrow> bool" where
  "ancestors_valid profile seen [] \<longleftrightarrow> True"
| "ancestors_valid profile seen (a # as) \<longleftrightarrow> \<not> (\<not> Hash a \<or> a = profile \<or> string_of a \<in> set seen)
     \<and> ancestors_valid profile (string_of a # seen) as"

text \<open>The provenance tests of the selected save: the first error, if any.\<close>

definition provenance_error :: "json \<Rightarrow> legacy_error option" where
  "provenance_error j =
     (if member j ''profile_sha256'' \<noteq> None \<and> \<not> Hash (jat j ''profile_sha256'') then Some SeedProfileHash
      else if prefix kM7Prefix (string_of (jat j ''source_snapshot'')) \<and> member j ''profile_sha256'' = None
      then Some SeedNeedsProfile
      else case member j ''ancestor_profile_sha256'' of None \<Rightarrow> None
      | Some v \<Rightarrow>
          if member j ''profile_sha256'' = None then Some AncestryBounds
          else (case v of JArray as \<Rightarrow>
              if length as > 256 then Some AncestryBounds
              else if \<not> ancestors_valid (jat j ''profile_sha256'') [] as then Some AncestryHash else None
            | _ \<Rightarrow> Some AncestryBounds))"

definition expected_roots :: json where
  "expected_roots = JArray (map JString [''user'', ''cache'', ''logs'', ''diagnostics'', ''results'', ''update'', ''metadata''])"

definition retention_valid :: "json \<Rightarrow> bool" where
  "retention_valid j \<longleftrightarrow> ExactKeys j [''completed_sessions'', ''save_snapshots_per_session''] []
     \<and> Unsigned (jat j ''completed_sessions'') 32 \<and> Unsigned (jat j ''save_snapshots_per_session'') 32"

definition privacy_valid :: "json \<Rightarrow> bool" where
  "privacy_valid j \<longleftrightarrow> ExactKeys j [''game_and_save_private'', ''source_iso_included''] []
     \<and> Boolean (jat j ''game_and_save_private'') True \<and> Boolean (jat j ''source_iso_included'') False"

definition capture_valid :: "json \<Rightarrow> bool" where
  "capture_valid j \<longleftrightarrow> ExactKeys j [''mode'', ''helper_path'', ''helper_sha256'', ''helper_bytes'', ''host_sha256''] []
     \<and> JText j ''mode'' ''window-wgc-v1'' \<and> JText j ''helper_path'' ''bin/mcla_diagnostic_image_helper.exe''
     \<and> Hash (jat j ''helper_sha256'') \<and> Hash (jat j ''host_sha256'')
     \<and> (case jat j ''helper_bytes'' of JUnsigned n \<Rightarrow> n \<noteq> 0 \<and> n \<le> 67108864 | _ \<Rightarrow> False)"

definition manifest_keys :: "string list" where
  "manifest_keys = [''schema'', ''task'', ''bundle_id'', ''project_version'', ''sdk_version'', ''sdk_commit'',
     ''created_utc'', ''platform'', ''architecture'', ''launcher'', ''cpp_runtime'', ''window_mode'',
     ''immutable_file_count'', ''game'', ''selected_save'', ''writable_roots'', ''retention'', ''private_content'']"

definition id_prefix :: "json \<Rightarrow> string" where
  "id_prefix m = ''mcla-'' @ string_of (jat m ''project_version'') @ ''-win64-''"

text \<open>The tests on the parsed manifest, in the order of the code: the first error, if any.\<close>

definition manifest_error :: "json \<Rightarrow> string \<Rightarrow> legacy_error option" where
  "manifest_error m i =
     (if \<not> ExactKeys m manifest_keys [''image_capture''] then Some ManifestFields
      else if \<not> manifest_identity_valid m i then Some ManifestIdentity
      else if \<not> prefix (id_prefix m) i then Some IdVersionMismatch
      else if \<not> fingerprint_valid (drop (length (id_prefix m)) i) then Some IdFingerprint
      else if \<not> runtime_valid (jat m ''cpp_runtime'') then Some CppRuntime
      else if \<not> window_mode_valid (jat m ''window_mode'') then Some WindowMode
      else if \<not> game_valid (jat m ''game'') then Some PreparedGame
      else if \<not> save_valid (jat m ''selected_save'') then Some SelectedSave
      else case provenance_error (jat m ''selected_save'') of Some e \<Rightarrow> Some e | None \<Rightarrow>
      if jat m ''writable_roots'' \<noteq> expected_roots then Some WritableRoots
      else if \<not> retention_valid (jat m ''retention'') then Some Retention
      else if \<not> privacy_valid (jat m ''private_content'') then Some PrivateContent
      else let image = (member m ''image_capture'' \<noteq> None) in
      if \<not> Unsigned (jat m ''immutable_file_count'') (if image then 33 else 32) then Some InventoryCardinality
      else if image \<and> \<not> capture_valid (jat m ''image_capture'') then Some ImageCapture
      else None)"

definition ValidateLegacyMetadata :: "json_parser \<Rightarrow> string \<Rightarrow> string \<Rightarrow> legacy_error + string" where
  "ValidateLegacyMetadata parser id_bytes manifest_bytes =
     (if id_bytes = [] \<or> length id_bytes > kMaximumLegacyIdBytes then Inl IdBytes
      else let i = trim_space id_bytes in
      if i = [] \<or> length i > 128 then Inl IdLength
      else if \<not> list_all id_char i then Inl IdCharacters
      else if manifest_bytes = [] \<or> int (length manifest_bytes) > kMaximumLegacyManifestBytes
         \<or> CHR 0x00 \<in> set manifest_bytes then Inl ManifestBytes
      else case parse_manifest parser manifest_bytes of None \<Rightarrow> Inl MalformedJson
      | Some m \<Rightarrow> (case manifest_error m i of Some e \<Rightarrow> Inl e | None \<Rightarrow> Inr i))"

subsection \<open>What an accepted bundle can name\<close>

lemma components_safe_split: "components_safe s \<longleftrightarrow> list_all safe_component (split_all (CHR ''/'') s)"
proof (induction "length s" arbitrary: s rule: less_induct)
  case less
  show ?case
  proof (cases "split_at (CHR ''/'') s")
    case (Pair h x)
    show ?thesis
    proof (cases x)
      case None
      with Pair show ?thesis
        by (subst components_safe.simps, subst split_all.simps) simp
    next
      case (Some r)
      then have "length r < length s" using Pair split_at_length by metis
      with less have "components_safe r \<longleftrightarrow> list_all safe_component (split_all (CHR ''/'') r)" by blast
      with Pair Some show ?thesis
        by (subst components_safe.simps, subst split_all.simps) simp
    qed
  qed
qed

lemma Hex_no_separator:
  assumes "Hex s n lower"
  shows "CHR ''/'' \<notin> set s" "list_all letter_or_digit s"
proof -
  have c: "letter_or_digit c" if "c \<in> set s" for c
  proof -
    from assms that have "is_digit c \<or> (CHR ''a'' \<le> c \<and> c \<le> CHR ''f'') \<or> (CHR ''A'' \<le> c \<and> c \<le> CHR ''F'')"
      by (auto simp: Hex_def list_all_iff split: if_splits)
    then show ?thesis by (auto simp: letter_or_digit_def less_eq_char_def)
  qed
  then show "list_all letter_or_digit s" by (simp add: list_all_iff)
  have "\<not> letter_or_digit (CHR ''/'')"
    by (simp add: letter_or_digit_def is_digit_def less_eq_char_def)
  with c show "CHR ''/'' \<notin> set s" by blast
qed

lemma snapshot_path_confined:
  assumes "snapshot_path s"
  shows "length s \<le> 256 \<and> (prefix kM7Prefix s \<or> prefix kM6Prefix s)
     \<and> list_all safe_component (split_all (CHR ''/'') s) \<and> list_all path_char s"
proof (cases "prefix kM7Prefix s")
  case True
  then obtain h where s: "s = kM7Prefix @ h" by (auto simp: prefix_def)
  with assms True have h: "Hex h 64 False" "length s \<le> 256" by (auto simp: snapshot_path_def split: if_splits)
  have parts: "kM7Prefix = ''private/save-archive/M7-009'' @ [CHR ''/'']" by (simp add: kM7Prefix_def)
  have "split_all (CHR ''/'') s = split_all (CHR ''/'') ''private/save-archive/M7-009'' @ split_all (CHR ''/'') h"
    unfolding s parts using split_all_append_sep [of "CHR ''/''" "''private/save-archive/M7-009''" h] by simp
  moreover have "split_all (CHR ''/'') h = [h]" by (rule split_all_no_sep [OF Hex_no_separator(1) [OF h(1)]])
  moreover have "list_all safe_component (split_all (CHR ''/'') ''private/save-archive/M7-009'')" by code_simp
  moreover have "safe_component h" using h(1) by (auto simp: Hex_def safe_component_def)
  moreover have "list_all path_char kM7Prefix" by code_simp
  moreover have "list_all path_char h"
    using Hex_no_separator(2) [OF h(1)] by (simp add: list_all_iff path_char_def)
  ultimately show ?thesis using True h(2) s by simp
next
  case False
  with assms show ?thesis
    by (auto simp: snapshot_path_def components_safe_split split: if_splits)
qed

lemma callback_bounds: "callback (n, cs) (d, e) = Some (n', cs') \<Longrightarrow> d \<le> 16 \<and> n' = n + 1 \<and> n' \<le> 8192"
  by (auto simp: callback_def split: if_splits parse_event.splits list.splits option.splits json.splits)

lemma run_callbacks_bounds:
  "run_callbacks (n, cs) xs = Some (n', cs') \<Longrightarrow> n \<le> 8192
   \<Longrightarrow> n' = n + length xs \<and> n' \<le> 8192 \<and> (\<forall>(d, e) \<in> set xs. d \<le> 16)"
proof (induction xs arbitrary: n cs)
  case (Cons x xs)
  obtain d e where x: "x = (d, e)" by (cases x)
  from Cons.prems x obtain n1 cs1 where s: "callback (n, cs) (d, e) = Some (n1, cs1)"
    "run_callbacks (n1, cs1) xs = Some (n', cs')"
    by (auto split: option.splits)
  from callback_bounds [OF s(1)] Cons.IH [OF s(2)] show ?case by (auto simp: x)
qed simp

text \<open>Key events within one object carry different keys: a repeated key ends the parse.\<close>

lemma repeated_key_rejected:
  assumes "callback s (d, KeyEvent (JString k)) = Some s'"
  shows "callback s' (d', KeyEvent (JString k)) = None"
  using assms by (cases s) (auto simp: callback_def split: if_splits list.splits option.splits)

lemma ValidateLegacyMetadata_Inr:
  assumes "ValidateLegacyMetadata parser id_bytes manifest_bytes = Inr i"
  obtains m where "i = trim_space id_bytes" "i \<noteq> []" "length i \<le> 128" "list_all id_char i"
    "parse_manifest parser manifest_bytes = Some m" "manifest_error m i = None"
  using assms by (auto simp: ValidateLegacyMetadata_def Let_def split: if_splits option.splits)

text \<open>C36: accepted metadata cannot name anything outside the archive: whatever the parser, the accepted id
  is the trimmed input, at most 128 letters, digits, dots, dashes and underscores, and is the id inside
  the parsed manifest; the document had at most 8192 parse events, none deeper than 16; and the source
  path of the save lies under one of the two archive prefixes, uses only safe characters and has no
  empty, \<open>.\<close> or \<open>..\<close> component.\<close>

theorem accepted_metadata_confined:
  assumes "ValidateLegacyMetadata parser id_bytes manifest_bytes = Inr i"
  shows "i = trim_space id_bytes \<and> i \<noteq> [] \<and> length i \<le> 128 \<and> list_all id_char i
     \<and> (\<exists>events m path. parser manifest_bytes = (events, Some m)
          \<and> length events \<le> 8192 \<and> (\<forall>(d, e) \<in> set events. d \<le> 16)
          \<and> member m ''bundle_id'' = Some (JString i)
          \<and> jat (jat m ''selected_save'') ''source_snapshot'' = JString path
          \<and> (prefix kM7Prefix path \<or> prefix kM6Prefix path) \<and> list_all path_char path
          \<and> list_all safe_component (split_all (CHR ''/'') path))"
proof -
  obtain m where m: "i = trim_space id_bytes" "i \<noteq> []" "length i \<le> 128" "list_all id_char i"
    "parse_manifest parser manifest_bytes = Some m" "manifest_error m i = None"
    using ValidateLegacyMetadata_Inr [OF assms] .
  obtain events where e: "parser manifest_bytes = (events, Some m)" "run_callbacks (0, []) events \<noteq> None"
    using m(5) by (auto simp: parse_manifest_def split: prod.splits if_splits)
  then obtain n cs where "run_callbacks (0, []) events = Some (n, cs)" by auto
  from run_callbacks_bounds [OF this] have b: "length events \<le> 8192" "\<forall>(d, e) \<in> set events. d \<le> 16" by simp_all
  have v: "manifest_identity_valid m i" "save_valid (jat m ''selected_save'')"
    using m(6) by (auto simp: manifest_error_def split: if_splits)
  then have "member m ''bundle_id'' = Some (JString i)" by (simp add: manifest_identity_valid_def JText_def)
  moreover obtain path where p: "jat (jat m ''selected_save'') ''source_snapshot'' = JString path" "snapshot_path path"
    using v(2) by (auto simp: save_valid_def SourceSnapshot_def on_string_def split: json.splits)
  ultimately show ?thesis
    using m e b snapshot_path_confined [OF p(2)] by blast
qed

subsection \<open>A manifest that is accepted\<close>

definition sample_hash :: json where "sample_hash = JString (replicate 64 (CHR ''A''))"

definition sample_id :: string where
  "sample_id = ''mcla-0.9.1.0-win64-'' @ replicate 16 (CHR ''1'') @ ''-'' @ replicate 16 (CHR ''2'') @ ''-'' @ replicate 16 (CHR ''3'')"

definition sample_manifest :: json where
  "sample_manifest = JObject [
     (''schema'', JString ''mcla-portable-campaign-bundle-v2''), (''task'', JString ''M7-016''),
     (''bundle_id'', JString sample_id), (''project_version'', JString ''0.9.1.0''),
     (''sdk_version'', JString ''1.2.3.4''), (''sdk_commit'', JString (replicate 40 (CHR ''a''))),
     (''created_utc'', JString ''2024-02-29T12:00:00Z''), (''platform'', JString ''windows-proton''),
     (''architecture'', JString ''x86_64''), (''launcher'', JString ''Launch-MCLA.exe''),
     (''cpp_runtime'', JObject [(''policy'', JString ''msvc-14.44-app-local-v1''), (''version'', JString ''14.44.35211.0'')]),
     (''window_mode'', JObject [(''startup_fullscreen'', JBool True), (''alt_enter_toggle'', JBool True),
        (''left_double_click_toggle'', JBool True)]),
     (''immutable_file_count'', JUnsigned 32),
     (''game'', JObject [(''manifest_sha256'', sample_hash), (''file_count'', JUnsigned 15), (''payload_bytes'', JUnsigned 6569586392)]),
     (''selected_save'', JObject [(''source_snapshot'', JString ''private/save-archive/M6-014/run-1''),
        (''save_relative'', JString ''B13EBABEBABEBABE/545407F8/00000001/mc4.sav/mc4.sav''),
        (''header_relative'', JString ''B13EBABEBABEBABE/545407F8/Headers/00000001/mc4.sav.header''),
        (''save_sha256'', sample_hash), (''header_sha256'', sample_hash)]),
     (''writable_roots'', expected_roots),
     (''retention'', JObject [(''completed_sessions'', JUnsigned 32), (''save_snapshots_per_session'', JUnsigned 32)]),
     (''private_content'', JObject [(''game_and_save_private'', JBool True), (''source_iso_included'', JBool False)])]"

definition sample_parser :: json_parser where
  "sample_parser text = ([(0, ObjectStart), (1, KeyEvent (JString ''schema'')), (1, ValueEvent), (0, ObjectEnd)], Some sample_manifest)"

theorem accepted_metadata_confined_witness:
  "list_all id_char sample_id \<and> ValidateLegacyMetadata sample_parser (sample_id @ '' '') ''x'' = Inr sample_id"
proof -
  have v: "ValidateLegacyMetadata sample_parser (sample_id @ '' '') ''x'' = Inr sample_id" by code_simp
  from accepted_metadata_confined [OF v] v show ?thesis by blast
qed

end
