(* ===== verification/ImageProtocol.thy ===== *)
theory ImageProtocol
  imports Prelude
begin

text \<open>
  The one-shot image exchange between the game and its capture helper: a request and a result in
  shared memory, both of fixed-width fields that another process may have written, and their
  structural validation. Signed fields are words read with \<open>sint\<close>. The out-parameters of
  \<open>CheckedMultiply\<close> and \<open>ImageShape\<close>, which no caller reads after a failure, are the value of an
  option.
\<close>

section \<open>The layouts\<close>

type_synonym i64 = "64 word"

definition kMagic :: u64 where "kMagic = 0x31474D49414C434D"
definition kVersion :: u64 where "kVersion = 1"
definition kMaxDimension :: u64 where "kMaxDimension = 8192"
definition kMaxPayloadBytes :: u64 where "kMaxPayloadBytes = 64 * 1024 * 1024"
definition kRequestBytes :: u64 where "kRequestBytes = 144"
definition kResultBytes :: u64 where "kResultBytes = 288"
definition kUint32Max :: u64 where "kUint32Max = 0xFFFFFFFF"

lemmas image_consts = kMagic_def kVersion_def kMaxDimension_def kMaxPayloadBytes_def kRequestBytes_def
  kResultBytes_def kUint32Max_def

type_synonym reserved_words = "u64 \<times> u64 \<times> u64 \<times> u64"

record image_request =
  rq_magic :: u64
  rq_version :: u64
  rq_header_bytes :: u64
  rq_payload_capacity :: u64
  rq_owner_pid :: u64
  rq_owner_birth :: u64
  rq_hwnd :: u64
  rq_owner_thread :: u64
  rq_client_x :: i64
  rq_client_y :: i64
  rq_client_width :: u64
  rq_client_height :: u64
  rq_dpi :: u64
  rq_request_id :: u64
  rq_reserved :: reserved_words

text \<open>The enumerations are 64-bit values another process wrote: one more constructor for all others.\<close>

datatype image_status = StatusPending | StatusSuccess | StatusFailure | OtherStatus u64

datatype image_failure = FailureNone | OwnerChanged | Unsupported | CaptureFailed | InvalidImage
  | FailureTimeout | FailureInternal | OtherFailure u64

datatype image_layout = LayoutNone | TopDownTightBgra8 | OtherImageLayout u64

record image_result =
  rs_request :: image_request
  rs_header_bytes :: u64
  rs_status :: image_status
  rs_failure :: image_failure
  rs_content_x :: i64
  rs_content_y :: i64
  rs_content_width :: u64
  rs_content_height :: u64
  rs_source_row_pitch :: u64
  rs_source_buffer_bytes :: u64
  rs_crop_x :: u64
  rs_crop_y :: u64
  rs_layout :: image_layout
  rs_output_row_pitch :: u64
  rs_payload_bytes :: u64
  rs_reserved :: reserved_words

section \<open>The checks\<close>

definition CheckedMultiply :: "u64 \<Rightarrow> u64 \<Rightarrow> u64 option" where
  "CheckedMultiply a b = (if b \<noteq> 0 \<and> a > 0xFFFFFFFFFFFFFFFF div b then None else Some (a * b))"

definition ImageShape :: "u64 \<Rightarrow> u64 \<Rightarrow> (u64 \<times> u64) option" where
  "ImageShape width height =
     (if width > 0 \<and> width \<le> kMaxDimension \<and> height > 0 \<and> height \<le> kMaxDimension
      then (case CheckedMultiply width 4 of
              None \<Rightarrow> None
            | Some row_bytes \<Rightarrow>
                (case CheckedMultiply row_bytes height of
                   None \<Rightarrow> None
                 | Some image_bytes \<Rightarrow>
                     if image_bytes \<le> kMaxPayloadBytes then Some (row_bytes, image_bytes) else None))
      else None)"

definition ZeroReserved :: "reserved_words \<Rightarrow> bool" where
  "ZeroReserved r \<longleftrightarrow> (case r of (a, b, c, d) \<Rightarrow> a = 0 \<and> b = 0 \<and> c = 0 \<and> d = 0)"

definition PhysicalAxis :: "i64 \<Rightarrow> u64 \<Rightarrow> bool" where
  "PhysicalAxis origin extent \<longleftrightarrow>
     (let low = - 0x80000000 :: i64; high = 0x7FFFFFFF :: i64 in
      sint origin \<ge> sint low \<and> sint origin \<le> sint high \<and> extent \<le> kMaxDimension \<and> extent \<le> high - origin)"

definition ValidateRequest :: "image_request \<Rightarrow> bool" where
  "ValidateRequest r \<longleftrightarrow>
     rq_magic r = kMagic \<and> rq_version r = kVersion \<and> rq_header_bytes r = kRequestBytes
     \<and> rq_owner_pid r > 0 \<and> rq_owner_pid r \<le> kUint32Max \<and> rq_owner_birth r \<noteq> 0 \<and> rq_hwnd r \<noteq> 0
     \<and> rq_owner_thread r > 0 \<and> rq_owner_thread r \<le> kUint32Max
     \<and> rq_request_id r \<noteq> 0 \<and> rq_dpi r > 0 \<and> rq_dpi r \<le> kUint32Max \<and> ZeroReserved (rq_reserved r)
     \<and> (case ImageShape (rq_client_width r) (rq_client_height r) of
          None \<Rightarrow> False
        | Some (row_bytes, image_bytes) \<Rightarrow>
            PhysicalAxis (rq_client_x r) (rq_client_width r) \<and> PhysicalAxis (rq_client_y r) (rq_client_height r)
            \<and> rq_payload_capacity r = image_bytes)"

fun KnownFailure :: "image_failure \<Rightarrow> bool" where
  "KnownFailure OwnerChanged = True"
| "KnownFailure Unsupported = True"
| "KnownFailure CaptureFailed = True"
| "KnownFailure InvalidImage = True"
| "KnownFailure FailureTimeout = True"
| "KnownFailure FailureInternal = True"
| "KnownFailure _ = False"

text \<open>The three parts of \<open>ValidateResult\<close>: the failure branch, the tests of the surface, and those of
  the crop and the output.\<close>

definition failure_empty :: "image_result \<Rightarrow> bool" where
  "failure_empty r \<longleftrightarrow> KnownFailure (rs_failure r) \<and> rs_content_x r = 0 \<and> rs_content_y r = 0
     \<and> rs_content_width r = 0 \<and> rs_content_height r = 0 \<and> rs_source_row_pitch r = 0
     \<and> rs_source_buffer_bytes r = 0 \<and> rs_crop_x r = 0 \<and> rs_crop_y r = 0 \<and> rs_layout r = LayoutNone
     \<and> rs_output_row_pitch r = 0 \<and> rs_payload_bytes r = 0"

definition surface_ok :: "image_result \<Rightarrow> bool" where
  "surface_ok r =
     (case ImageShape (rs_content_width r) (rs_content_height r) of
        None \<Rightarrow> False
      | Some (content_row_bytes, content_bytes) \<Rightarrow>
          if \<not> PhysicalAxis (rs_content_x r) (rs_content_width r)
             \<or> \<not> PhysicalAxis (rs_content_y r) (rs_content_height r)
             \<or> rs_source_row_pitch r < content_row_bytes \<or> rs_source_row_pitch r mod 4 \<noteq> 0
          then False
          else (case CheckedMultiply (rs_source_row_pitch r) (rs_content_height r) of
                  None \<Rightarrow> False
                | Some source_bytes \<Rightarrow>
                    \<not> (source_bytes > kMaxPayloadBytes \<or> rs_source_buffer_bytes r \<noteq> source_bytes)))"

definition crop_ok :: "image_request \<Rightarrow> image_result \<Rightarrow> u64 \<Rightarrow> u64 \<Rightarrow> bool" where
  "crop_ok expected r output_row_bytes output_bytes \<longleftrightarrow>
     (if rs_crop_x r > rs_content_width r \<or> rs_crop_y r > rs_content_height r
         \<or> rq_client_width expected > rs_content_width r - rs_crop_x r
         \<or> rq_client_height expected > rs_content_height r - rs_crop_y r
         \<or> sint (rq_client_x expected) < sint (rs_content_x r)
         \<or> sint (rq_client_y expected) < sint (rs_content_y r)
      then False
      else rs_crop_x r = rq_client_x expected - rs_content_x r
         \<and> rs_crop_y r = rq_client_y expected - rs_content_y r
         \<and> rs_output_row_pitch r = output_row_bytes \<and> rs_payload_bytes r = output_bytes)"

definition ValidateResult :: "image_request \<Rightarrow> image_result \<Rightarrow> u64 \<Rightarrow> bool" where
  "ValidateResult expected r available =
     (if \<not> ValidateRequest expected \<or> rs_request r \<noteq> expected \<or> rs_header_bytes r \<noteq> kResultBytes
         \<or> \<not> ZeroReserved (rs_reserved r) \<or> available \<noteq> rq_payload_capacity expected
      then False
      else if rs_status r = StatusFailure then failure_empty r
      else if rs_status r \<noteq> StatusSuccess \<or> rs_failure r \<noteq> FailureNone \<or> rs_layout r \<noteq> TopDownTightBgra8
      then False
      else if \<not> surface_ok r then False
      else (case ImageShape (rq_client_width expected) (rq_client_height expected) of
              None \<Rightarrow> False
            | Some (output_row_bytes, output_bytes) \<Rightarrow> crop_ok expected r output_row_bytes output_bytes))"

definition MatchesSurface :: "image_result \<Rightarrow> i64 \<Rightarrow> i64 \<Rightarrow> i64 \<Rightarrow> i64 \<Rightarrow> bool" where
  "MatchesSurface r x y width height \<longleftrightarrow> sint width > 0 \<and> sint height > 0
     \<and> rs_content_x r = x \<and> rs_content_y r = y \<and> rs_content_width r = width \<and> rs_content_height r = height"

section \<open>The checks read as integers\<close>

lemma CheckedMultiply_unat:
  "CheckedMultiply a b = Some c \<longleftrightarrow> c = a * b \<and> unat a * unat b < 2 ^ 64"
proof (cases "b = 0")
  case False
  then have b: "0 < unat b" by (simp add: unat_gt_0)
  have "a > 0xFFFFFFFFFFFFFFFF div b \<longleftrightarrow> unat a > 18446744073709551615 div unat b"
    by (simp add: word_less_nat_alt unat_div)
  also have "\<dots> \<longleftrightarrow> \<not> unat a * unat b < 2 ^ 64"
    using b by (simp add: not_less div_less_iff_less_mult) linarith
  finally show ?thesis using False by (auto simp: CheckedMultiply_def)
qed (auto simp: CheckedMultiply_def)

lemma unat_times:
  fixes a b :: u64
  assumes "unat a * unat b < 2 ^ 64"
  shows "unat (a * b) = unat a * unat b"
  using assms by (simp add: unat_word_ariths)

lemma CheckedMultiply_Some:
  assumes "CheckedMultiply a b = Some c"
  shows "unat c = unat a * unat b"
  using assms unat_times [of a b] by (simp add: CheckedMultiply_unat)

text \<open>The nonnegative difference of two signed values, as the unsigned one.\<close>

lemma unat_signed_diff:
  fixes a b :: i64
  assumes "sint b \<le> sint a"
  shows "int (unat (a - b)) = sint a - sint b"
proof -
  have "a - b = word_of_int (sint a - sint b)" by simp
  moreover have "sint a < 2 ^ 63" "- (2 ^ 63) \<le> sint b" using sint_lt [of a] sint_ge [of b] by simp_all
  ultimately show ?thesis using assms
    by (simp add: unat_eq_nat_uint uint_word_of_int take_bit_eq_mod mod_pos_pos_trivial del: of_int_diff)
qed

definition shape_spec :: "u64 \<Rightarrow> u64 \<Rightarrow> bool" where
  "shape_spec w h \<longleftrightarrow> 0 < unat w \<and> unat w \<le> 8192 \<and> 0 < unat h \<and> unat h \<le> 8192
     \<and> 4 * unat w * unat h \<le> 67108864"

lemma ImageShape_iff:
  "ImageShape w h = Some (row, n) \<longleftrightarrow> shape_spec w h \<and> unat row = 4 * unat w \<and> unat n = 4 * unat w * unat h"
  (is "?l \<longleftrightarrow> ?r")
proof (cases "w > 0 \<and> w \<le> kMaxDimension \<and> h > 0 \<and> h \<le> kMaxDimension")
  case True
  then have b: "0 < unat w" "unat w \<le> 8192" "0 < unat h" "unat h \<le> 8192"
    by (simp_all add: word_less_nat_alt word_le_nat_alt kMaxDimension_def)
  have u4: "unat (w * 4) = 4 * unat w" using b unat_times [of w 4] by simp
  have "4 * unat w * unat h \<le> 4 * 8192 * 8192" using b by (intro mult_le_mono) simp_all
  then have small: "4 * unat w * unat h < 2 ^ 64" by simp
  have un: "unat (w * 4 * h) = 4 * unat w * unat h" using small u4 unat_times [of "w * 4" h] by simp
  have c: "CheckedMultiply w 4 = Some (w * 4)" "CheckedMultiply (w * 4) h = Some (w * 4 * h)"
    using b small u4 by (simp_all add: CheckedMultiply_unat)
  have "?l \<longleftrightarrow> w * 4 * h \<le> kMaxPayloadBytes \<and> row = w * 4 \<and> n = w * 4 * h"
    using True c by (auto simp: ImageShape_def)
  also have "\<dots> \<longleftrightarrow> ?r"
    using b un u4 by (auto simp: shape_spec_def word_le_nat_alt kMaxPayloadBytes_def word_unat_eq_iff)
  finally show ?thesis .
next
  case False
  then have "\<not> shape_spec w h"
    by (auto simp: shape_spec_def word_less_nat_alt word_le_nat_alt kMaxDimension_def)
  with False show ?thesis by (auto simp: ImageShape_def)
qed

lemma ImageShape_None: "ImageShape w h = None \<longleftrightarrow> \<not> shape_spec w h"
proof -
  have "shape_spec w h \<Longrightarrow> ImageShape w h = Some (of_nat (4 * unat w), of_nat (4 * unat w * unat h))"
    unfolding ImageShape_iff shape_spec_def by (simp add: unat_of_nat del: of_nat_mult)
  then show ?thesis using ImageShape_iff by (cases "ImageShape w h") auto
qed

definition axis_spec :: "i64 \<Rightarrow> u64 \<Rightarrow> bool" where
  "axis_spec origin extent \<longleftrightarrow> - (2 ^ 31) \<le> sint origin \<and> unat extent \<le> 8192
     \<and> sint origin + int (unat extent) \<le> 2 ^ 31 - 1"

lemma PhysicalAxis_iff: "PhysicalAxis origin extent \<longleftrightarrow> axis_spec origin extent"
proof (cases "sint origin \<le> 2147483647")
  case True
  have high: "sint (0x7FFFFFFF :: i64) = 2147483647" and low: "sint (- 0x80000000 :: i64) = - 2147483648"
    by (simp_all add: sint_sbintrunc')
  have "int (unat (0x7FFFFFFF - origin)) = 2147483647 - sint origin"
    using unat_signed_diff [of origin "0x7FFFFFFF"] True high by simp
  then have "extent \<le> 0x7FFFFFFF - origin \<longleftrightarrow> sint origin + int (unat extent) \<le> 2147483647"
    unfolding word_le_nat_alt by linarith
  moreover have "extent \<le> kMaxDimension \<longleftrightarrow> unat extent \<le> 8192" by (simp add: word_le_nat_alt kMaxDimension_def)
  ultimately show ?thesis using True by (simp add: PhysicalAxis_def axis_spec_def high low)
next
  case False
  moreover from False have "\<not> sint origin + int (unat extent) \<le> 2147483647" by linarith
  ultimately show ?thesis by (simp add: PhysicalAxis_def axis_spec_def sint_sbintrunc')
qed

text \<open>The crop origin is the difference of the two screen origins.\<close>

lemma signed_offset:
  fixes a b c :: i64
  shows "sint b \<le> sint a \<and> c = a - b \<longleftrightarrow> sint a = sint b + int (unat c)"
proof
  assume "sint b \<le> sint a \<and> c = a - b"
  then show "sint a = sint b + int (unat c)" using unat_signed_diff [of b a] by simp
next
  assume h: "sint a = sint b + int (unat c)"
  have "a - b = word_of_int (sint a - sint b)" by simp
  also have "sint a - sint b = int (unat c)" using h by linarith
  also have "word_of_int (int (unat c)) = c" by simp
  finally show "sint b \<le> sint a \<and> c = a - b" using h by simp
qed

definition request_spec :: "image_request \<Rightarrow> bool" where
  "request_spec r \<longleftrightarrow> rq_magic r = kMagic \<and> rq_version r = 1 \<and> rq_header_bytes r = 144
     \<and> unat (rq_owner_pid r) \<in> {0<..4294967295} \<and> unat (rq_owner_thread r) \<in> {0<..4294967295}
     \<and> unat (rq_dpi r) \<in> {0<..4294967295} \<and> rq_owner_birth r \<noteq> 0 \<and> rq_hwnd r \<noteq> 0 \<and> rq_request_id r \<noteq> 0
     \<and> rq_reserved r = (0, 0, 0, 0)
     \<and> shape_spec (rq_client_width r) (rq_client_height r)
     \<and> axis_spec (rq_client_x r) (rq_client_width r) \<and> axis_spec (rq_client_y r) (rq_client_height r)
     \<and> unat (rq_payload_capacity r) = 4 * unat (rq_client_width r) * unat (rq_client_height r)"

lemma ZeroReserved_iff: "ZeroReserved r \<longleftrightarrow> r = (0, 0, 0, 0)"
  by (cases r) (simp add: ZeroReserved_def)

lemma ImageShape_cases:
  obtains (bad) "ImageShape w h = None" "\<not> shape_spec w h"
    | (good) row n where "ImageShape w h = Some (row, n)" "shape_spec w h" "unat row = 4 * unat w"
        "unat n = 4 * unat w * unat h"
  using ImageShape_None [of w h] ImageShape_iff [of w h] by (cases "ImageShape w h") auto

lemma ImageShape_good:
  "shape_spec w h \<Longrightarrow> \<exists>row n. ImageShape w h = Some (row, n) \<and> unat row = 4 * unat w \<and> unat n = 4 * unat w * unat h"
  by (rule ImageShape_cases [of w h]) auto

lemma uint32_range: "x > 0 \<and> x \<le> kUint32Max \<longleftrightarrow> unat x \<in> {0<..4294967295}"
  by (simp add: word_less_nat_alt word_le_nat_alt kUint32Max_def)

lemma ValidateRequest_iff: "ValidateRequest r \<longleftrightarrow> request_spec r"
proof -
  have "ValidateRequest r \<longleftrightarrow> rq_magic r = kMagic \<and> rq_version r = 1 \<and> rq_header_bytes r = 144
     \<and> unat (rq_owner_pid r) \<in> {0<..4294967295} \<and> unat (rq_owner_thread r) \<in> {0<..4294967295}
     \<and> unat (rq_dpi r) \<in> {0<..4294967295} \<and> rq_owner_birth r \<noteq> 0 \<and> rq_hwnd r \<noteq> 0 \<and> rq_request_id r \<noteq> 0
     \<and> rq_reserved r = (0, 0, 0, 0)
     \<and> (case ImageShape (rq_client_width r) (rq_client_height r) of None \<Rightarrow> False | Some (row, n) \<Rightarrow>
          axis_spec (rq_client_x r) (rq_client_width r) \<and> axis_spec (rq_client_y r) (rq_client_height r)
          \<and> rq_payload_capacity r = n)"
    unfolding ValidateRequest_def ZeroReserved_iff PhysicalAxis_iff kVersion_def kRequestBytes_def
      uint32_range [symmetric] by blast
  also have "\<dots> \<longleftrightarrow> request_spec r"
    by (rule ImageShape_cases [of "rq_client_width r" "rq_client_height r"])
      (auto simp: request_spec_def word_unat_eq_iff)
  finally show ?thesis .
qed

definition surface_spec :: "image_result \<Rightarrow> bool" where
  "surface_spec r \<longleftrightarrow> shape_spec (rs_content_width r) (rs_content_height r)
     \<and> axis_spec (rs_content_x r) (rs_content_width r) \<and> axis_spec (rs_content_y r) (rs_content_height r)
     \<and> 4 * unat (rs_content_width r) \<le> unat (rs_source_row_pitch r) \<and> 4 dvd unat (rs_source_row_pitch r)
     \<and> unat (rs_source_row_pitch r) * unat (rs_content_height r) \<le> 67108864
     \<and> unat (rs_source_buffer_bytes r) = unat (rs_source_row_pitch r) * unat (rs_content_height r)"

lemma pitch_bytes:
  "(case CheckedMultiply p h of None \<Rightarrow> False | Some n \<Rightarrow> \<not> (n > kMaxPayloadBytes \<or> m \<noteq> n))
     \<longleftrightarrow> unat p * unat h \<le> 67108864 \<and> unat m = unat p * unat h"
proof (cases "unat p * unat h < 2 ^ 64")
  case True
  then have "CheckedMultiply p h = Some (p * h)" by (simp add: CheckedMultiply_unat)
  then show ?thesis using unat_times [OF True]
    by (auto simp: word_less_nat_alt kMaxPayloadBytes_def word_unat_eq_iff)
next
  case False
  then have "CheckedMultiply p h = None" using CheckedMultiply_unat [of p h] by (cases "CheckedMultiply p h") auto
  then show ?thesis using False by simp
qed

lemma surface_ok_iff: "surface_ok r \<longleftrightarrow> surface_spec r"
proof -
  have m: "rs_source_row_pitch r mod 4 = 0 \<longleftrightarrow> 4 dvd unat (rs_source_row_pitch r)"
    by (simp add: word_unat_eq_iff unat_mod dvd_eq_mod_eq_0)
  show ?thesis
    by (rule ImageShape_cases [of "rs_content_width r" "rs_content_height r"])
      (auto simp: surface_ok_def surface_spec_def PhysicalAxis_iff pitch_bytes m word_less_nat_alt)
qed

text \<open>The geometry of an accepted capture: the client area lies inside the surface, at the position its
  screen coordinates say, and the output is the tight copy of it.\<close>

definition capture_spec :: "image_request \<Rightarrow> image_result \<Rightarrow> bool" where
  "capture_spec q r \<longleftrightarrow>
     sint (rq_client_x q) = sint (rs_content_x r) + int (unat (rs_crop_x r))
     \<and> sint (rq_client_y q) = sint (rs_content_y r) + int (unat (rs_crop_y r))
     \<and> unat (rs_crop_x r) + unat (rq_client_width q) \<le> unat (rs_content_width r)
     \<and> unat (rs_crop_y r) + unat (rq_client_height q) \<le> unat (rs_content_height r)
     \<and> unat (rs_output_row_pitch r) = 4 * unat (rq_client_width q)
     \<and> unat (rs_payload_bytes r) = 4 * unat (rq_client_width q) * unat (rq_client_height q)"

text \<open>The overflow-free form of the bound on one axis of the crop.\<close>

lemma crop_axis:
  fixes c w n :: u64
  shows "\<not> c > n \<and> \<not> w > n - c \<longleftrightarrow> unat c + unat w \<le> unat n"
proof (cases "c > n")
  case False
  then have "unat (n - c) = unat n - unat c" "unat c \<le> unat n" by (simp_all add: unat_sub not_less word_le_nat_alt)
  then show ?thesis using False by (auto simp: word_less_nat_alt)
qed (auto simp: word_less_nat_alt)

lemma crop_ok_iff:
  "crop_ok q r row n \<longleftrightarrow>
     (\<not> rs_crop_x r > rs_content_width r \<and> \<not> rq_client_width q > rs_content_width r - rs_crop_x r)
     \<and> (\<not> rs_crop_y r > rs_content_height r \<and> \<not> rq_client_height q > rs_content_height r - rs_crop_y r)
     \<and> (sint (rs_content_x r) \<le> sint (rq_client_x q) \<and> rs_crop_x r = rq_client_x q - rs_content_x r)
     \<and> (sint (rs_content_y r) \<le> sint (rq_client_y q) \<and> rs_crop_y r = rq_client_y q - rs_content_y r)
     \<and> rs_output_row_pitch r = row \<and> rs_payload_bytes r = n"
  unfolding crop_ok_def not_less [symmetric] by (simp only: if_bool_eq_conj) blast

lemma row_major_bij: "bij_betw (\<lambda>(y, b). y * n + b) ({..<h} \<times> {..<n :: nat}) {..<n * h}"
proof (rule bij_betw_byWitness [where f' = "\<lambda>k. (k div n, k mod n)"])
  show "(\<lambda>(y, b). y * n + b) ` ({..<h} \<times> {..<n}) \<subseteq> {..<n * h}"
  proof clarsimp
    fix y b assume "y < h" "b < n"
    then have "y * n + b < Suc y * n" and "Suc y * n \<le> h * n" by (simp, intro mult_le_mono1) simp
    then show "y * n + b < n * h" by (simp add: mult.commute)
  qed
  show "(\<lambda>k. (k div n, k mod n)) ` {..<n * h} \<subseteq> {..<h} \<times> {..<n}"
  proof clarsimp
    fix k assume k: "k < n * h"
    then have "0 < n" by (cases n) simp_all
    with k show "k div n < h \<and> k mod n < n" by (simp add: less_mult_imp_div_less mult.commute)
  qed
qed auto

text \<open>A window of \<open>n\<close> bytes at column \<open>x\<close> of rows of \<open>p\<close> bytes, from row \<open>z\<close> on.\<close>

lemma window_rows:
  fixes x n p z h m :: nat
  assumes "x + n \<le> p" "z + h \<le> m"
  shows "(\<lambda>(y, b). (z + y) * p + x + b) ` ({..<h} \<times> {..<n}) \<subseteq> {..<p * m}
     \<and> inj_on (\<lambda>(y, b). (z + y) * p + x + b) ({..<h} \<times> {..<n})"
proof
  have e: "(\<lambda>(y, b). (z + y) * p + x + b) = (\<lambda>(y, b). y * p + b) \<circ> (\<lambda>(y, b). (z + y, x + b))" by auto
  have sub: "(\<lambda>(y, b). (z + y, x + b)) ` ({..<h} \<times> {..<n}) \<subseteq> {..<m} \<times> {..<p}" using assms by auto
  note big = row_major_bij [of p m]
  show "(\<lambda>(y, b). (z + y) * p + x + b) ` ({..<h} \<times> {..<n}) \<subseteq> {..<p * m}"
    unfolding e image_comp [symmetric] bij_betw_imp_surj_on [OF big, symmetric] by (rule image_mono [OF sub])
  show "inj_on (\<lambda>(y, b). (z + y) * p + x + b) ({..<h} \<times> {..<n})"
    unfolding e
  proof (rule comp_inj_on)
    show "inj_on (\<lambda>(y, b). (z + y, x + b)) ({..<h} \<times> {..<n})" by (auto simp: inj_on_def)
    show "inj_on (\<lambda>(y, b). y * p + b) ((\<lambda>(y, b). (z + y, x + b)) ` ({..<h} \<times> {..<n}))"
      by (rule inj_on_subset [OF bij_betw_imp_inj_on [OF big] sub])
  qed
qed

section \<open>Properties\<close>

text \<open>C37: the validation of a result is exact: whatever another process left in the shared memory, it
  passes as a success exactly if, in unbounded integers, the request is well formed and repeated
  verbatim, the reserved words are zero, the surface fits its buffer and the client area sits inside the
  surface at the offset that the screen coordinates give.\<close>

theorem image_success_iff:
  "ValidateResult q r available \<and> rs_status r = StatusSuccess \<longleftrightarrow>
     request_spec q \<and> rs_request r = q \<and> rs_header_bytes r = 288 \<and> rs_reserved r = (0, 0, 0, 0)
     \<and> available = rq_payload_capacity q \<and> rs_status r = StatusSuccess \<and> rs_failure r = FailureNone
     \<and> rs_layout r = TopDownTightBgra8 \<and> surface_spec r \<and> capture_spec q r"
proof (cases "rs_status r = StatusSuccess \<and> request_spec q")
  case True
  then obtain row n where s: "ImageShape (rq_client_width q) (rq_client_height q) = Some (row, n)"
    "unat row = 4 * unat (rq_client_width q)" "unat n = 4 * unat (rq_client_width q) * unat (rq_client_height q)"
    using ImageShape_good [of "rq_client_width q" "rq_client_height q"] by (auto simp: request_spec_def)
  have out: "rs_output_row_pitch r = row \<longleftrightarrow> unat (rs_output_row_pitch r) = 4 * unat (rq_client_width q)"
    "rs_payload_bytes r = n \<longleftrightarrow> unat (rs_payload_bytes r) = 4 * unat (rq_client_width q) * unat (rq_client_height q)"
    by (simp_all only: word_unat_eq_iff s(2,3))
  have c: "crop_ok q r row n \<longleftrightarrow> capture_spec q r"
    unfolding crop_ok_iff crop_axis signed_offset capture_spec_def out by blast
  show ?thesis
    using True c by (auto simp: ValidateResult_def ValidateRequest_iff surface_ok_iff ZeroReserved_iff s(1) kResultBytes_def)
next
  case False
  then show ?thesis by (auto simp: ValidateResult_def ValidateRequest_iff)
qed

text \<open>C38: reading an accepted image stays inside both buffers: every byte of every row of the client
  area is read below the size of the surface buffer, and the bytes written are each offset of the
  available payload exactly once.\<close>

theorem image_copy_in_bounds:
  assumes "ValidateResult q r available" and "rs_status r = StatusSuccess"
  shows "let h = unat (rq_client_height q); row = 4 * unat (rq_client_width q); pitch = unat (rs_source_row_pitch r);
      source = (\<lambda>(y, b). (unat (rs_crop_y r) + y) * pitch + 4 * unat (rs_crop_x r) + b);
      target = (\<lambda>(y, b). y * unat (rs_output_row_pitch r) + b)
    in source ` ({..<h} \<times> {..<row}) \<subseteq> {..<unat (rs_source_buffer_bytes r)}
     \<and> inj_on source ({..<h} \<times> {..<row})
     \<and> bij_betw target ({..<h} \<times> {..<row}) {..<unat available}"
proof -
  have s: "surface_spec r" "capture_spec q r" "request_spec q" "available = rq_payload_capacity q"
    using assms image_success_iff [of q r available] by blast+
  then have w: "4 * unat (rs_crop_x r) + 4 * unat (rq_client_width q) \<le> unat (rs_source_row_pitch r)"
    "unat (rs_crop_y r) + unat (rq_client_height q) \<le> unat (rs_content_height r)"
    unfolding surface_spec_def capture_spec_def by linarith+
  show ?thesis
    using window_rows [OF w] row_major_bij [of "4 * unat (rq_client_width q)" "unat (rq_client_height q)"] s
    by (simp add: Let_def surface_spec_def capture_spec_def request_spec_def)
qed

definition example_image_request :: image_request where
  "example_image_request = \<lparr>rq_magic = kMagic, rq_version = 1, rq_header_bytes = 144, rq_payload_capacity = 24,
     rq_owner_pid = 7, rq_owner_birth = 8, rq_hwnd = 9, rq_owner_thread = 10, rq_client_x = - 3, rq_client_y = 5,
     rq_client_width = 3, rq_client_height = 2, rq_dpi = 96, rq_request_id = 1, rq_reserved = (0, 0, 0, 0)\<rparr>"

definition example_image_result :: image_result where
  "example_image_result = \<lparr>rs_request = example_image_request, rs_header_bytes = 288, rs_status = StatusSuccess,
     rs_failure = FailureNone, rs_content_x = - 4, rs_content_y = 4, rs_content_width = 5, rs_content_height = 4,
     rs_source_row_pitch = 32, rs_source_buffer_bytes = 128, rs_crop_x = 1, rs_crop_y = 1,
     rs_layout = TopDownTightBgra8, rs_output_row_pitch = 12, rs_payload_bytes = 24, rs_reserved = (0, 0, 0, 0)\<rparr>"

theorem image_copy_in_bounds_witness:
  "ValidateResult example_image_request example_image_result 24
   \<and> (\<lambda>(y, b). (1 + y) * 32 + 4 * 1 + b) ` ({..<2} \<times> {..<12 :: nat}) \<subseteq> {..<128 :: nat}"
proof -
  have v: "ValidateResult example_image_request example_image_result 24" by code_simp
  have "rs_status example_image_result = StatusSuccess" by (simp add: example_image_result_def)
  from image_copy_in_bounds [OF v this] v show ?thesis
    by (simp add: Let_def example_image_request_def example_image_result_def)
qed

end
