(* ===== verification/ObservationRecord.thy ===== *)
theory ObservationRecord
  imports Prelude
begin

text \<open>
  What the nested observation records share. Each is a class template with a bounded event log, a
  bounded stack of pending frames (here innermost first), a sticky fault and a freeze flag, and each
  public method is a row of tests, the first failing one naming the fault, followed by one logged
  change. \<open>record_core\<close> holds these four members; the records of the classes extend it. The
  locale \<open>logged\<close> is the contract their methods share, and its lemmas are what a reader of the log
  may rely on.
\<close>

section \<open>The shared members and the shape of a method\<close>

record ('f, 'e, 'x) record_core =
  rc_frozen :: bool
  rc_fault :: "'x option"
  rc_events :: "'e list"
  rc_stack :: "'f list"

definition Writable :: "('f, 'e, 'x, 'z) record_core_scheme \<Rightarrow> bool" where
  "Writable m \<longleftrightarrow> \<not> rc_frozen m \<and> rc_fault m = None"

definition Fail :: "'x \<Rightarrow> ('f, 'e, 'x, 'z) record_core_scheme \<Rightarrow> ('f, 'e, 'x, 'z) record_core_scheme \<times> bool" where
  "Fail x m = (if Writable m then m\<lparr>rc_fault := Some x\<rparr> else m, False)"

definition Room :: "nat \<Rightarrow> ('f, 'e, 'x, 'z) record_core_scheme \<Rightarrow> bool" where
  "Room capacity m \<longleftrightarrow> length (rc_events m) < capacity"

definition Freeze :: "('f, 'e, 'x, 'z) record_core_scheme \<Rightarrow> ('f, 'e, 'x, 'z) record_core_scheme" where
  "Freeze m = m\<lparr>rc_frozen := True\<rparr>"

text \<open>The tests of a method in their order, each with the fault it raises.\<close>

fun first_failure :: "(bool \<times> 'x) list \<Rightarrow> 'x option" where
  "first_failure [] = None"
| "first_failure ((ok, x) # tests) = (if ok then first_failure tests else Some x)"

definition attempt :: "(bool \<times> 'x) list \<Rightarrow> ('f, 'e, 'x, 'z) record_core_scheme
    \<Rightarrow> ('f, 'e, 'x, 'z) record_core_scheme \<Rightarrow> ('f, 'e, 'x, 'z) record_core_scheme \<times> bool" where
  "attempt tests m m' =
     (if \<not> Writable m then (m, False)
      else case first_failure tests of Some x \<Rightarrow> Fail x m | None \<Rightarrow> (m', True))"

text \<open>A method on the innermost frame: with none pending, or another one than named, the identity test fails.\<close>

definition on_top :: "('f \<Rightarrow> bool) \<Rightarrow> 'x \<Rightarrow> ('f \<Rightarrow> (bool \<times> 'x) list)
    \<Rightarrow> ('f \<Rightarrow> 'f list \<Rightarrow> ('f, 'e, 'x, 'z) record_core_scheme)
    \<Rightarrow> ('f, 'e, 'x, 'z) record_core_scheme \<Rightarrow> ('f, 'e, 'x, 'z) record_core_scheme \<times> bool" where
  "on_top named identity tests change m =
     (case rc_stack m of
        [] \<Rightarrow> attempt [(False, identity)] m m
      | f # fs \<Rightarrow> attempt ((named f, identity) # tests f) m (change f fs))"

text \<open>One event logged, the stack replaced.\<close>

definition logged_change :: "'e \<Rightarrow> 'f list \<Rightarrow> ('f, 'e, 'x, 'z) record_core_scheme
    \<Rightarrow> ('f, 'e, 'x, 'z) record_core_scheme" where
  "logged_change e st m = m\<lparr>rc_events := rc_events m @ [e], rc_stack := st\<rparr>"

section \<open>Outcomes\<close>

lemma first_failure_None: "first_failure tests = None \<longleftrightarrow> (\<forall>(ok, x) \<in> set tests. ok)"
  by (induction tests rule: first_failure.induct) auto

lemma attempt_True:
  "attempt tests m m' = (m'', True) \<longleftrightarrow> Writable m \<and> first_failure tests = None \<and> m'' = m'"
  by (auto simp: attempt_def Fail_def split: option.splits)

lemma attempt_False:
  "attempt tests m m' = (m'', False) \<Longrightarrow> m'' = m \<and> \<not> Writable m \<or> (\<exists>x. m'' = m\<lparr>rc_fault := Some x\<rparr>)"
  by (auto simp: attempt_def Fail_def split: if_splits option.splits)

lemma on_top_True:
  "on_top named x tests change m = (m'', True) \<longleftrightarrow>
     Writable m \<and> (\<exists>f fs. rc_stack m = f # fs \<and> named f \<and> first_failure (tests f) = None \<and> m'' = change f fs)"
  by (cases "rc_stack m") (auto simp: on_top_def attempt_True)

lemma on_top_False:
  "on_top named x tests change m = (m'', False) \<Longrightarrow> m'' = m \<and> \<not> Writable m \<or> (\<exists>x. m'' = m\<lparr>rc_fault := Some x\<rparr>)"
  unfolding on_top_def by (cases "rc_stack m") (auto dest!: attempt_False)

lemma logged_change_simps [simp]:
  "rc_events (logged_change e st m) = rc_events m @ [e]"
  "rc_stack (logged_change e st m) = st"
  "rc_frozen (logged_change e st m) = rc_frozen m"
  "rc_fault (logged_change e st m) = rc_fault m"
  by (simp_all add: logged_change_def)

section \<open>Reading a log back\<close>

fun replay :: "('s \<Rightarrow> 'e \<Rightarrow> 's option) \<Rightarrow> 's \<Rightarrow> 'e list \<Rightarrow> 's option" where
  "replay r st [] = Some st"
| "replay r st (e # es) = (case r st e of None \<Rightarrow> None | Some st' \<Rightarrow> replay r st' es)"

lemma replay_append:
  "replay r st (es @ fs) = (case replay r st es of None \<Rightarrow> None | Some st' \<Rightarrow> replay r st' fs)"
  by (induction es arbitrary: st) (auto split: option.splits)

lemma replay_snoc: "replay r st es = Some st' \<Longrightarrow> r st' e = Some st'' \<Longrightarrow> replay r st (es @ [e]) = Some st''"
  by (simp add: replay_append)

text \<open>A property of stacks that every accepted event keeps holds along the whole log.\<close>

lemma replay_keeps:
  assumes "replay r st es = Some st'" and "P st"
    and "\<And>st e st'. P st \<Longrightarrow> r st e = Some st' \<Longrightarrow> P st' \<and> Q e"
  shows "P st' \<and> (\<forall>e \<in> set es. Q e)"
  using assms(1,2) by (induction es arbitrary: st) (auto split: option.splits dest: assms(3))

lemma lanes_grow:
  assumes "list_all2 (\<le>) ks (ls :: u64 list)" and "list_all2 (<) ls ns"
  shows "list_all2 (<) ks ns \<and> list_all2 (\<le>) ks ns"
  using list_all2_trans [of "(\<le>)" "(<)" "(<)", OF _ assms] list_all2_mono [of "(<)" ks ns "(\<le>)"]
  by (auto intro: order.strict_implies_order)

text \<open>
  The contract: a refused call changes neither log nor stack, an accepted one is on a writable record
  and logs one event from which \<open>audit\<close>, a reader of the log, computes what is now \<open>pending\<close>; a record that
  is frozen or has a fault stays so; \<open>well_formed\<close> is kept; the stack stays within \<open>depth\<close>; and the serials of entries
  (one for each lane, \<open>serials\<close> of their events) only grow.
\<close>

locale logged =
  fixes step :: "('f, 'e, 'x, 'z) record_core_scheme \<Rightarrow> 'c \<Rightarrow> ('f, 'e, 'x, 'z) record_core_scheme \<times> bool"
    and audit :: "'s \<Rightarrow> 'e \<Rightarrow> 's option"
    and start :: 's
    and pending :: "('f, 'e, 'x, 'z) record_core_scheme \<Rightarrow> 's"
    and capacity depth :: nat
    and serials :: "'e \<Rightarrow> u64 list option"
    and last_serials :: "('f, 'e, 'x, 'z) record_core_scheme \<Rightarrow> u64 list"
    and well_formed :: "('f, 'e, 'x, 'z) record_core_scheme \<Rightarrow> bool"
  assumes refused: "step m c = (m', False) \<Longrightarrow> well_formed m \<Longrightarrow> well_formed m' \<and> rc_events m' = rc_events m \<and> rc_stack m' = rc_stack m
      \<and> pending m' = pending m \<and> last_serials m' = last_serials m \<and> (\<not> Writable m \<longrightarrow> \<not> Writable m')"
    and accepted: "step m c = (m', True) \<Longrightarrow> well_formed m \<Longrightarrow> well_formed m' \<and> Writable m \<and> length (rc_events m) < capacity
      \<and> (length (rc_stack m) \<le> depth \<longrightarrow> length (rc_stack m') \<le> depth)
      \<and> (\<exists>e. rc_events m' = rc_events m @ [e] \<and> audit (pending m) e = Some (pending m')
           \<and> (case serials e of None \<Rightarrow> last_serials m' = last_serials m
              | Some n \<Rightarrow> list_all2 (<) (last_serials m) n \<and> last_serials m' = n))"
begin

definition next_record :: "('f, 'e, 'x, 'z) record_core_scheme \<Rightarrow> 'c \<Rightarrow> ('f, 'e, 'x, 'z) record_core_scheme" where
  "next_record m c = fst (step m c)"

text \<open>The serials of the entries in a log.\<close>

definition entered :: "'e list \<Rightarrow> u64 list list" where "entered es = List.map_filter serials es"

lemma next_cases:
  assumes "well_formed m"
  obtains (quiet) "well_formed (next_record m c)" "rc_events (next_record m c) = rc_events m"
      "rc_stack (next_record m c) = rc_stack m" "pending (next_record m c) = pending m" "last_serials (next_record m c) = last_serials m"
      "\<not> Writable m \<longrightarrow> \<not> Writable (next_record m c)"
    | (event) e where "well_formed (next_record m c)" "Writable m" "length (rc_events m) < capacity"
      "length (rc_stack m) \<le> depth \<longrightarrow> length (rc_stack (next_record m c)) \<le> depth"
      "rc_events (next_record m c) = rc_events m @ [e]"
      "audit (pending m) e = Some (pending (next_record m c))"
      "case serials e of None \<Rightarrow> last_serials (next_record m c) = last_serials m
         | Some n \<Rightarrow> list_all2 (<) (last_serials m) n \<and> last_serials (next_record m c) = n"
proof (cases "snd (step m c)")
  case True
  then have "step m c = (next_record m c, True)" by (simp add: next_record_def prod_eq_iff)
  from accepted [OF this assms] True show ?thesis by (auto intro: event)
next
  case False
  then have "step m c = (next_record m c, False)" by (simp add: next_record_def prod_eq_iff)
  from refused [OF this assms] False show ?thesis by (auto intro: quiet)
qed

text \<open>What a log that starts empty says at any time.\<close>

definition log_ok :: "('f, 'e, 'x, 'z) record_core_scheme \<Rightarrow> bool" where
  "log_ok m \<longleftrightarrow> well_formed m \<and> replay audit start (rc_events m) = Some (pending m)
     \<and> length (rc_events m) \<le> capacity \<and> length (rc_stack m) \<le> depth
     \<and> sorted_wrt (list_all2 (<)) (entered (rc_events m))
     \<and> (\<forall>n \<in> set (entered (rc_events m)). list_all2 (\<le>) n (last_serials m))"

lemma log_ok_next:
  assumes ok: "log_ok m"
  shows "log_ok (next_record m c)"
proof -
  from ok have wf: "well_formed m" by (simp add: log_ok_def)
  from wf show ?thesis
  proof (cases rule: next_cases [of m c])
    case (event e)
    from ok have "replay audit start (rc_events m @ [e]) = Some (pending (next_record m c))"
      using event(6) by (intro replay_snoc) (auto simp: log_ok_def)
    moreover have "list_all2 (\<le>) n n" for n :: "u64 list" by (rule list_all2_refl) simp
    ultimately show ?thesis using ok event(1,3-5,7)
      by (auto simp: log_ok_def entered_def List.map_filter_def sorted_wrt_append
          dest: lanes_grow split: option.splits)
  qed (use ok in \<open>simp add: log_ok_def\<close>)
qed

lemma log_ok_run: "log_ok m \<Longrightarrow> log_ok (run_events next_record m cs)"
  by (induction cs arbitrary: m) (auto intro: log_ok_next)

lemma log_ok_new: "well_formed m \<Longrightarrow> rc_events m = [] \<Longrightarrow> rc_stack m = [] \<Longrightarrow> pending m = start
  \<Longrightarrow> log_ok m"
  by (simp add: log_ok_def entered_def List.map_filter_def)

lemma events_run:
  assumes "log_ok m"
  shows "\<exists>new. rc_events (run_events next_record m cs) = rc_events m @ new"
  using assms
proof (induction cs arbitrary: m)
  case (Cons c cs)
  obtain new where "rc_events (run_events next_record (next_record m c) cs) = rc_events (next_record m c) @ new"
    using Cons.IH [OF log_ok_next [OF Cons.prems]] by blast
  moreover have "well_formed m" using Cons.prems by (simp add: log_ok_def)
  then have "\<exists>add. rc_events (next_record m c) = rc_events m @ add"
    by (cases rule: next_cases [of m c]) auto
  ultimately show ?case by auto
qed simp

lemma dead_run:
  assumes "log_ok m" "\<not> Writable m"
  shows "rc_events (run_events next_record m cs) = rc_events m \<and> rc_stack (run_events next_record m cs) = rc_stack m"
  using assms
proof (induction cs arbitrary: m)
  case (Cons c cs)
  have "well_formed m" using Cons.prems by (simp add: log_ok_def)
  then show ?case
  proof (cases rule: next_cases [of m c])
    case quiet
    then show ?thesis using Cons.IH [OF log_ok_next [OF Cons.prems(1), of c]] Cons.prems(2) by simp
  qed (use Cons.prems(2) in simp)
qed simp

end

section \<open>Logs of snapshots\<close>

text \<open>
  In three of the records an event is its kind and a copy of the innermost frame. Their reader is one
  function of what a fresh frame is and of how a frame may change under an event: an entry opens a
  fresh frame, any other event belongs to the innermost one, an exit closes it.
\<close>

record ('k, 'f) frame_snapshot =
  sn_kind :: 'k
  sn_frame :: 'f

definition snapshot_audit :: "'k \<Rightarrow> 'k list \<Rightarrow> ('f \<Rightarrow> 'f list \<Rightarrow> bool) \<Rightarrow> ('k \<Rightarrow> 'f \<Rightarrow> 'f \<Rightarrow> bool)
    \<Rightarrow> 'f list \<Rightarrow> ('k, 'f) frame_snapshot \<Rightarrow> 'f list option" where
  "snapshot_audit entry exits fresh legal st e = (let g = sn_frame e; k = sn_kind e in
     if k = entry then (if fresh g st then Some (g # st) else None)
     else case st of
         [] \<Rightarrow> None
       | f # fs \<Rightarrow> if \<not> legal k f g then None
           else if k \<in> set exits then Some fs else Some (g # fs))"

text \<open>A property of frames that fresh ones have and legal changes keep holds of all snapshots.\<close>

lemma snapshot_frames:
  assumes "replay (snapshot_audit entry exits fresh legal) [] es = Some st"
    and "\<And>g st. fresh g st \<Longrightarrow> P g" and "\<And>k f g. legal k f g \<Longrightarrow> P f \<Longrightarrow> P g \<and> Q k g"
    and "\<And>g. P g \<Longrightarrow> Q entry g"
  shows "list_all P st \<and> (\<forall>e \<in> set es. P (sn_frame e) \<and> Q (sn_kind e) (sn_frame e))"
  by (rule replay_keeps [OF assms(1)])
    (auto simp: snapshot_audit_def Let_def dest: assms(2-4) split: if_splits list.splits)

end
