(* ===== verification/RouterDispatch.thy ===== *)
theory RouterDispatch
  imports ObservationRecord
begin

text \<open>
  The record of router dispatches: a predicate call, then either a skip or the consumer call, per
  invocation, nested. \<open>Model\<close> extends \<open>record_core\<close> by its two lane members. Each event carries a full
  snapshot of the innermost frame, so a reader can follow the frames; \<open>router_audit\<close> is that reader.
\<close>

section \<open>The data\<close>

record invocation_id =
  iv_thread :: u64
  iv_serial :: u64

definition no_invocation :: invocation_id where "no_invocation = \<lparr>iv_thread = 0, iv_serial = 0\<rparr>"

record update_binding =
  ub_phase :: u64
  ub_thread :: u64
  ub_native :: u32

record router_entry =
  re_invocation :: invocation_id
  re_update :: update_binding
  re_caller :: u64
  re_manager :: u64
  re_selector :: u64
  re_f1 :: u64

record dispatch =
  ds_r3 :: u64
  ds_table :: u64
  ds_ctr :: u64
  ds_f1 :: u64
  ds_present :: bool

definition no_dispatch :: dispatch where
  "no_dispatch = \<lparr>ds_r3 = 0, ds_table = 0, ds_ctr = 0, ds_f1 = 0, ds_present = False\<rparr>"

definition requested_target_u32 :: "dispatch \<Rightarrow> u32" where "requested_target_u32 d = ucast (ds_ctr d)"

datatype router_stage = RouterEntered | PredicateActive | PredicateReturned | RouterSkipped
  | ConsumerActive | ConsumerReturned | DispatchFailed

datatype router_kind = RouterEntry | PredicatePreEvent | PredicateReturnEvent | PredicateExceptionEvent
  | SkipEvent | ConsumerPreEvent | ConsumerReturnEvent | ConsumerExceptionEvent
  | RouterNormalExit | RouterExceptionalExit

datatype router_fault = RouterIdentity | RouterTransition | RouterCapacity | RouterDepth

record router_frame =
  rf_entry :: router_entry
  rf_parent :: invocation_id
  rf_stage :: router_stage
  rf_predicate :: dispatch
  rf_consumer :: dispatch
  rf_result :: u64
  rf_low8 :: u8
  rf_returned :: bool

type_synonym router_event = "(router_kind, router_frame) frame_snapshot"

record router_model = "(router_frame, router_event, router_fault) record_core" +
  rm_epoch :: u64
  rm_last :: u64

definition new_router :: "u64 \<Rightarrow> router_model" where
  "new_router epoch = \<lparr>rc_frozen = False, rc_fault = (if epoch = 0 then Some RouterIdentity else None),
     rc_events = [], rc_stack = [], rm_epoch = epoch, rm_last = 0\<rparr>"

section \<open>The methods\<close>

definition unbound_update :: "update_binding \<Rightarrow> bool" where
  "unbound_update b \<longleftrightarrow> ub_phase b = 0 \<and> ub_thread b = 0 \<and> ub_native b = 0"

definition bound_update :: "update_binding \<Rightarrow> bool" where
  "bound_update b \<longleftrightarrow> ub_phase b \<noteq> 0 \<and> ub_thread b \<noteq> 0 \<and> ub_native b \<noteq> 0"

definition new_router_frame :: "router_entry \<Rightarrow> router_frame list \<Rightarrow> router_frame" where
  "new_router_frame e st = \<lparr>rf_entry = e,
     rf_parent = (case st of [] \<Rightarrow> no_invocation | f # _ \<Rightarrow> re_invocation (rf_entry f)),
     rf_stage = RouterEntered, rf_predicate = no_dispatch, rf_consumer = no_dispatch, rf_result = 0,
     rf_low8 = 0, rf_returned = False\<rparr>"

text \<open>\<open>Emit\<close> after an update of the innermost frame: the event holds the frame as updated.\<close>

definition router_emit :: "router_kind \<Rightarrow> router_frame \<Rightarrow> router_frame list \<Rightarrow> router_model \<Rightarrow> router_model" where
  "router_emit k f fs m = logged_change \<lparr>sn_kind = k, sn_frame = f\<rparr> (f # fs) m"

definition router_enter :: "nat \<Rightarrow> nat \<Rightarrow> router_model \<Rightarrow> router_entry \<Rightarrow> router_model \<times> bool" where
  "router_enter capacity depth m e =
     (let iv = re_invocation e; f = new_router_frame e (rc_stack m) in
      attempt [(\<not> (iv_thread iv \<noteq> rm_epoch m \<or> iv_serial iv = 0 \<or> iv_serial iv \<le> rm_last m
                   \<or> (\<not> unbound_update (re_update e) \<and> \<not> bound_update (re_update e))), RouterIdentity),
               (length (rc_stack m) \<noteq> depth, RouterDepth), (Room capacity m, RouterCapacity)] m
        (router_emit RouterEntry f (rc_stack m) (m\<lparr>rm_last := iv_serial iv\<rparr>)))"

definition router_top :: "invocation_id \<Rightarrow> (router_frame \<Rightarrow> (bool \<times> router_fault) list)
    \<Rightarrow> (router_frame \<Rightarrow> router_frame list \<Rightarrow> router_model) \<Rightarrow> router_model \<Rightarrow> router_model \<times> bool" where
  "router_top iv = on_top (\<lambda>f. re_invocation (rf_entry f) = iv) RouterIdentity"

text \<open>\<open>At\<close>, the further tests of the method, the changed frame and its event.\<close>

definition router_at :: "nat \<Rightarrow> invocation_id \<Rightarrow> router_stage \<Rightarrow> (router_frame \<Rightarrow> bool)
    \<Rightarrow> router_kind \<Rightarrow> (router_frame \<Rightarrow> router_frame) \<Rightarrow> router_model \<Rightarrow> router_model \<times> bool" where
  "router_at capacity iv stage extra k upd m =
     router_top iv (\<lambda>f. [(rf_stage f = stage, RouterTransition), (Room capacity m, RouterCapacity),
         (extra f, RouterTransition)])
       (\<lambda>f fs. router_emit k (upd f) fs m) m"

definition predicate_pre :: "nat \<Rightarrow> router_model \<Rightarrow> invocation_id \<Rightarrow> u64 \<Rightarrow> u64 \<Rightarrow> u64 \<Rightarrow> router_model \<times> bool" where
  "predicate_pre capacity m iv r3 r10 ctr =
     router_at capacity iv RouterEntered (\<lambda>_. True) PredicatePreEvent
       (\<lambda>f. f\<lparr>rf_predicate := \<lparr>ds_r3 = r3, ds_table = r10, ds_ctr = ctr, ds_f1 = 0, ds_present = True\<rparr>,
              rf_stage := PredicateActive\<rparr>) m"

definition predicate_return :: "nat \<Rightarrow> router_model \<Rightarrow> invocation_id \<Rightarrow> u64 \<Rightarrow> router_model \<times> bool" where
  "predicate_return capacity m iv r3 =
     router_at capacity iv PredicateActive (\<lambda>_. True) PredicateReturnEvent
       (\<lambda>f. f\<lparr>rf_result := r3, rf_low8 := ucast (and r3 0xFF), rf_returned := True,
              rf_stage := PredicateReturned\<rparr>) m"

definition dispatch_exception :: "nat \<Rightarrow> router_model \<Rightarrow> invocation_id \<Rightarrow> router_stage \<Rightarrow> router_kind
    \<Rightarrow> router_model \<times> bool" where
  "dispatch_exception capacity m iv stage k =
     router_at capacity iv stage (\<lambda>_. True) k (\<lambda>f. f\<lparr>rf_stage := DispatchFailed\<rparr>) m"

definition predicate_exception :: "nat \<Rightarrow> router_model \<Rightarrow> invocation_id \<Rightarrow> router_model \<times> bool" where
  "predicate_exception capacity m iv = dispatch_exception capacity m iv PredicateActive PredicateExceptionEvent"

definition router_skip :: "nat \<Rightarrow> router_model \<Rightarrow> invocation_id \<Rightarrow> router_model \<times> bool" where
  "router_skip capacity m iv =
     router_at capacity iv PredicateReturned (\<lambda>f. rf_low8 f = 0) SkipEvent
       (\<lambda>f. f\<lparr>rf_stage := RouterSkipped\<rparr>) m"

definition consumer_pre :: "nat \<Rightarrow> router_model \<Rightarrow> invocation_id \<Rightarrow> u64 \<Rightarrow> u64 \<Rightarrow> u64 \<Rightarrow> u64
    \<Rightarrow> router_model \<times> bool" where
  "consumer_pre capacity m iv r3 r11 ctr f1 =
     router_at capacity iv PredicateReturned (\<lambda>f. rf_low8 f \<noteq> 0) ConsumerPreEvent
       (\<lambda>f. f\<lparr>rf_consumer := \<lparr>ds_r3 = r3, ds_table = r11, ds_ctr = ctr, ds_f1 = f1, ds_present = True\<rparr>,
              rf_stage := ConsumerActive\<rparr>) m"

definition consumer_return :: "nat \<Rightarrow> router_model \<Rightarrow> invocation_id \<Rightarrow> router_model \<times> bool" where
  "consumer_return capacity m iv =
     router_at capacity iv ConsumerActive (\<lambda>_. True) ConsumerReturnEvent
       (\<lambda>f. f\<lparr>rf_stage := ConsumerReturned\<rparr>) m"

definition consumer_exception :: "nat \<Rightarrow> router_model \<Rightarrow> invocation_id \<Rightarrow> router_model \<times> bool" where
  "consumer_exception capacity m iv = dispatch_exception capacity m iv ConsumerActive ConsumerExceptionEvent"

definition router_exit :: "nat \<Rightarrow> router_model \<Rightarrow> invocation_id \<Rightarrow> bool \<Rightarrow> router_model \<times> bool" where
  "router_exit capacity m iv normal =
     router_top iv (\<lambda>f. [(Room capacity m, RouterCapacity),
         (\<not> (normal \<and> rf_stage f \<noteq> RouterSkipped \<and> rf_stage f \<noteq> ConsumerReturned), RouterTransition)])
       (\<lambda>f fs. logged_change \<lparr>sn_kind = (if normal then RouterNormalExit else RouterExceptionalExit), sn_frame = f\<rparr>
                 fs m) m"

datatype router_call =
    REnter router_entry
  | RPredicatePre invocation_id u64 u64 u64
  | RPredicateReturn invocation_id u64
  | RPredicateException invocation_id
  | RSkip invocation_id
  | RConsumerPre invocation_id u64 u64 u64 u64
  | RConsumerReturn invocation_id
  | RConsumerException invocation_id
  | RExit invocation_id bool
  | RFreeze

fun router_step :: "nat \<Rightarrow> nat \<Rightarrow> router_model \<Rightarrow> router_call \<Rightarrow> router_model \<times> bool" where
  "router_step c d m (REnter e) = router_enter c d m e"
| "router_step c d m (RPredicatePre iv r3 r10 ctr) = predicate_pre c m iv r3 r10 ctr"
| "router_step c d m (RPredicateReturn iv r3) = predicate_return c m iv r3"
| "router_step c d m (RPredicateException iv) = predicate_exception c m iv"
| "router_step c d m (RSkip iv) = router_skip c m iv"
| "router_step c d m (RConsumerPre iv r3 r11 ctr f1) = consumer_pre c m iv r3 r11 ctr f1"
| "router_step c d m (RConsumerReturn iv) = consumer_return c m iv"
| "router_step c d m (RConsumerException iv) = consumer_exception c m iv"
| "router_step c d m (RExit iv normal) = router_exit c m iv normal"
| "router_step c d m RFreeze = (Freeze m, False)"

section \<open>A reader of the log\<close>

text \<open>
  The protocol, read off consecutive snapshots. An entry snapshot is a fresh frame whose parent is the
  frame around it; any other snapshot belongs to the innermost frame and may differ from its last one
  only as its kind says; an exit repeats the last snapshot and closes the frame.
\<close>

fun legal_change :: "router_kind \<Rightarrow> router_frame \<Rightarrow> router_frame \<Rightarrow> bool" where
  "legal_change PredicatePreEvent f g \<longleftrightarrow> rf_stage f = RouterEntered \<and> ds_present (rf_predicate g)
     \<and> g = f\<lparr>rf_predicate := rf_predicate g, rf_stage := PredicateActive\<rparr>"
| "legal_change PredicateReturnEvent f g \<longleftrightarrow> rf_stage f = PredicateActive \<and> rf_low8 g = ucast (rf_result g)
     \<and> g = f\<lparr>rf_result := rf_result g, rf_low8 := rf_low8 g, rf_returned := True, rf_stage := PredicateReturned\<rparr>"
| "legal_change PredicateExceptionEvent f g \<longleftrightarrow> rf_stage f = PredicateActive \<and> g = f\<lparr>rf_stage := DispatchFailed\<rparr>"
| "legal_change SkipEvent f g \<longleftrightarrow> rf_stage f = PredicateReturned \<and> rf_low8 f = 0 \<and> g = f\<lparr>rf_stage := RouterSkipped\<rparr>"
| "legal_change ConsumerPreEvent f g \<longleftrightarrow> rf_stage f = PredicateReturned \<and> rf_low8 f \<noteq> 0
     \<and> ds_present (rf_consumer g) \<and> g = f\<lparr>rf_consumer := rf_consumer g, rf_stage := ConsumerActive\<rparr>"
| "legal_change ConsumerReturnEvent f g \<longleftrightarrow> rf_stage f = ConsumerActive \<and> g = f\<lparr>rf_stage := ConsumerReturned\<rparr>"
| "legal_change ConsumerExceptionEvent f g \<longleftrightarrow> rf_stage f = ConsumerActive \<and> g = f\<lparr>rf_stage := DispatchFailed\<rparr>"
| "legal_change RouterNormalExit f g \<longleftrightarrow> g = f \<and> rf_stage f \<in> {RouterSkipped, ConsumerReturned}"
| "legal_change RouterExceptionalExit f g \<longleftrightarrow> g = f"
| "legal_change RouterEntry f g \<longleftrightarrow> False"

definition fresh_router_frame :: "router_frame \<Rightarrow> router_frame list \<Rightarrow> bool" where
  "fresh_router_frame g st \<longleftrightarrow> g = new_router_frame (rf_entry g) st"

definition router_audit :: "router_frame list \<Rightarrow> router_event \<Rightarrow> router_frame list option" where
  "router_audit = snapshot_audit RouterEntry [RouterNormalExit, RouterExceptionalExit] fresh_router_frame legal_change"

definition router_serials :: "router_event \<Rightarrow> u64 list option" where
  "router_serials e = (if sn_kind e = RouterEntry then Some [iv_serial (re_invocation (rf_entry (sn_frame e)))] else None)"

lemma and_255: "ucast (and (w :: u64) 0xFF) = (ucast w :: u8)"
proof -
  have m: "(0xFF :: u64) = mask 8" by (simp add: mask_eq_exp_minus_1)
  show ?thesis unfolding m by (auto intro: bit_word_eqI simp: bit_simps)
qed

lemmas router_methods = router_enter_def predicate_pre_def predicate_return_def predicate_exception_def
  router_skip_def consumer_pre_def consumer_return_def consumer_exception_def router_exit_def
  dispatch_exception_def router_at_def router_top_def

lemma router_refused:
  assumes "router_step c d m call = (m', False)"
  shows "rc_events m' = rc_events m \<and> rc_stack m' = rc_stack m \<and> rm_last m' = rm_last m
     \<and> (\<not> Writable m \<longrightarrow> \<not> Writable m')"
  using assms
  by (cases call) (auto simp: router_methods Let_def Freeze_def Writable_def dest!: attempt_False on_top_False)

definition router_accepts :: "nat \<Rightarrow> nat \<Rightarrow> router_model \<Rightarrow> router_model \<Rightarrow> bool" where
  "router_accepts c d m m' \<longleftrightarrow> Writable m \<and> length (rc_events m) < c
     \<and> (length (rc_stack m) \<le> d \<longrightarrow> length (rc_stack m') \<le> d)
     \<and> (\<exists>e. rc_events m' = rc_events m @ [e] \<and> router_audit (rc_stack m) e = Some (rc_stack m')
         \<and> (case router_serials e of None \<Rightarrow> [rm_last m'] = [rm_last m]
            | Some n \<Rightarrow> list_all2 (<) [rm_last m] n \<and> [rm_last m'] = n))"

lemma router_at_accepted:
  assumes "router_at c iv stage extra k upd m = (m', True)"
    and "k \<notin> {RouterEntry, RouterNormalExit, RouterExceptionalExit}"
    and "\<And>f. rf_stage f = stage \<Longrightarrow> extra f \<Longrightarrow> legal_change k f (upd f)"
  shows "router_accepts c d m m'"
proof -
  obtain f fs where "Writable m" "length (rc_events m) < c" and st: "rc_stack m = f # fs"
    and ok: "rf_stage f = stage" "extra f" and m': "m' = router_emit k (upd f) fs m"
    using assms(1) by (auto simp: router_at_def router_top_def on_top_True Room_def split: if_splits)
  moreover from st have "router_audit (rc_stack m) \<lparr>sn_kind = k, sn_frame = upd f\<rparr> = Some (upd f # fs)"
    using assms(2) assms(3) [OF ok] by (simp add: router_audit_def snapshot_audit_def)
  moreover have "rm_last m' = rm_last m" by (simp add: m' router_emit_def logged_change_def)
  ultimately show ?thesis using assms(2) by (auto simp: router_accepts_def router_emit_def router_serials_def)
qed

lemma router_enter_accepted:
  assumes "router_enter c d m e = (m', True)"
  shows "router_accepts c d m m'"
proof -
  let ?f = "new_router_frame e (rc_stack m)" and ?n = "iv_serial (re_invocation e)"
  have "Writable m" "length (rc_events m) < c" "length (rc_stack m) \<noteq> d" "rm_last m < ?n"
    and m': "m' = router_emit RouterEntry ?f (rc_stack m) (m\<lparr>rm_last := ?n\<rparr>)"
    using assms by (auto simp: router_enter_def Let_def attempt_True Room_def split: if_splits)
  moreover have "rm_last m' = ?n" by (simp add: m' router_emit_def logged_change_def)
  moreover have "rf_entry ?f = e" by (simp add: new_router_frame_def)
  ultimately show ?thesis
    by (auto simp: router_accepts_def router_audit_def router_emit_def router_serials_def snapshot_audit_def
        fresh_router_frame_def)
qed

lemma router_exit_accepted:
  assumes "router_exit c m iv normal = (m', True)"
  shows "router_accepts c d m m'"
proof -
  let ?k = "if normal then RouterNormalExit else RouterExceptionalExit"
  obtain f fs where "Writable m" "length (rc_events m) < c" and st: "rc_stack m = f # fs"
    and ok: "normal \<Longrightarrow> rf_stage f \<in> {RouterSkipped, ConsumerReturned}"
    and m': "m' = logged_change \<lparr>sn_kind = ?k, sn_frame = f\<rparr> fs m"
    using assms by (auto simp: router_exit_def router_top_def on_top_True Room_def split: if_splits)
  moreover have "router_audit (rc_stack m) \<lparr>sn_kind = ?k, sn_frame = f\<rparr> = Some fs"
    using ok by (simp add: router_audit_def snapshot_audit_def st)
  moreover have "rm_last m' = rm_last m" by (simp add: m' logged_change_def)
  ultimately show ?thesis by (auto simp: router_accepts_def router_serials_def)
qed

lemma router_accepted: "router_step c d m call = (m', True) \<Longrightarrow> router_accepts c d m m'"
  by (cases call)
    (auto simp: predicate_pre_def predicate_return_def predicate_exception_def router_skip_def
      consumer_pre_def consumer_return_def consumer_exception_def dispatch_exception_def and_255
      intro: router_enter_accepted router_exit_accepted elim!: router_at_accepted)

interpretation router: logged "router_step c d" router_audit "[]" rc_stack c d router_serials "\<lambda>m. [rm_last m]" "\<lambda>_. True" for c d
  by unfold_locales (auto dest: router_refused router_accepted simp: router_accepts_def)

section \<open>Properties\<close>

definition router_run :: "nat \<Rightarrow> nat \<Rightarrow> u64 \<Rightarrow> router_call list \<Rightarrow> router_model" where
  "router_run c d epoch calls = run_events (\<lambda>m call. fst (router_step c d m call)) (new_router epoch) calls"

lemma router_run_ok: "router.log_ok c d (router_run c d epoch calls)"
proof -
  have "router.next_record c d = (\<lambda>m call. fst (router_step c d m call))"
    by (simp add: fun_eq_iff router.next_record_def)
  then show ?thesis
    unfolding router_run_def using router.log_ok_run [OF router.log_ok_new, of "new_router epoch" c d calls]
    by (simp add: new_router_def)
qed

text \<open>What a frame holds at each stage; a completed dispatch has followed the predicate's low byte.\<close>

definition router_frame_ok :: "router_frame \<Rightarrow> bool" where
  "router_frame_ok f = (case rf_stage f of
       RouterEntered \<Rightarrow> \<not> ds_present (rf_predicate f) \<and> \<not> rf_returned f \<and> \<not> ds_present (rf_consumer f)
     | PredicateActive \<Rightarrow> ds_present (rf_predicate f) \<and> \<not> rf_returned f \<and> \<not> ds_present (rf_consumer f)
     | DispatchFailed \<Rightarrow> ds_present (rf_predicate f) \<and> rf_returned f = ds_present (rf_consumer f)
     | stage \<Rightarrow> ds_present (rf_predicate f) \<and> rf_returned f \<and> rf_low8 f = ucast (rf_result f)
         \<and> (stage = RouterSkipped \<longrightarrow> rf_low8 f = 0)
         \<and> (stage \<in> {ConsumerActive, ConsumerReturned} \<longrightarrow> rf_low8 f \<noteq> 0)
         \<and> ds_present (rf_consumer f) = (stage \<in> {ConsumerActive, ConsumerReturned}))"

lemma legal_frame_ok: "legal_change k f g \<Longrightarrow> router_frame_ok f \<Longrightarrow> router_frame_ok g"
  by (cases f; cases g; cases k) (auto simp: router_frame_ok_def split: router_stage.splits)

lemma fresh_frame_ok: "fresh_router_frame g st \<Longrightarrow> router_frame_ok g"
  unfolding fresh_router_frame_def
  by (erule ssubst) (simp add: new_router_frame_def router_frame_ok_def no_dispatch_def)

text \<open>A log of router dispatches can be trusted: whatever calls made it, its snapshots replay by the
  dispatch protocol, with every event on the innermost pending invocation, to exactly the frames still
  pending; entries carry strictly growing serials; the bounds hold; and each normal exit is of a frame
  whose predicate returned and that either skipped on a zero low byte, without a consumer dispatch, or
  returned from the consumer on a nonzero one.\<close>

theorem router_log_sound:
  "let m = router_run c d epoch calls in
     replay router_audit [] (rc_events m) = Some (rc_stack m)
     \<and> length (rc_events m) \<le> c \<and> length (rc_stack m) \<le> d
     \<and> sorted_wrt (list_all2 (<)) (List.map_filter router_serials (rc_events m))
     \<and> list_all (\<lambda>f. rf_returned f \<and> ds_present (rf_predicate f) \<and> rf_low8 f = ucast (rf_result f)
          \<and> (rf_low8 f = 0) = (rf_stage f = RouterSkipped) \<and> (rf_low8 f \<noteq> 0) = (rf_stage f = ConsumerReturned)
          \<and> ds_present (rf_consumer f) = (rf_low8 f \<noteq> 0))
        (map sn_frame (filter (\<lambda>e. sn_kind e = RouterNormalExit) (rc_events m)))"
proof -
  let ?m = "router_run c d epoch calls"
  have ok: "router.log_ok c d ?m" by (rule router_run_ok)
  then have r: "replay router_audit [] (rc_events ?m) = Some (rc_stack ?m)" by (simp add: router.log_ok_def)
  have "\<forall>e \<in> set (rc_events ?m). router_frame_ok (sn_frame e)
      \<and> (sn_kind e = RouterNormalExit \<longrightarrow> rf_stage (sn_frame e) \<in> {RouterSkipped, ConsumerReturned})"
    by (rule conjunct2 [OF snapshot_frames [OF r [unfolded router_audit_def]]])
      (auto intro: legal_frame_ok fresh_frame_ok)
  then have "list_all (\<lambda>f. router_frame_ok f \<and> rf_stage f \<in> {RouterSkipped, ConsumerReturned})
        (map sn_frame (filter (\<lambda>e. sn_kind e = RouterNormalExit) (rc_events ?m)))"
    by (auto simp: list_all_iff)
  then have "list_all (\<lambda>f. rf_returned f \<and> ds_present (rf_predicate f) \<and> rf_low8 f = ucast (rf_result f)
          \<and> (rf_low8 f = 0) = (rf_stage f = RouterSkipped) \<and> (rf_low8 f \<noteq> 0) = (rf_stage f = ConsumerReturned)
          \<and> ds_present (rf_consumer f) = (rf_low8 f \<noteq> 0))
        (map sn_frame (filter (\<lambda>e. sn_kind e = RouterNormalExit) (rc_events ?m)))"
    by (rule list.pred_mono_strong) (auto simp: router_frame_ok_def)
  with ok show ?thesis by (simp add: Let_def router.log_ok_def router.entered_def)
qed

end
