(* ===== verification/ConsumerDetail.thy ===== *)
theory ConsumerDetail
  imports RouterDispatch
begin

text \<open>
  The record of one observed consumer body: a branch and, when it is taken, three child calls in order,
  the first indirect, the others direct. Shape and conventions are those of \<open>RouterDispatch\<close>; an entry
  also names the router invocation it belongs to, whose lane has its own serials.
\<close>

section \<open>The data\<close>

definition kConsumerTarget :: u32 where "kConsumerTarget = 0x822C7870"
definition kConsumerCaller :: u64 where "kConsumerCaller = 0x822C5328"
definition kChildReturnLr :: "u64 list" where "kChildReturnLr = [0x822C78C0, 0x822C78CC, 0x822C78D8]"
definition kDirectTarget :: "u32 list" where "kDirectTarget = [0, 0x82588428, 0x82476238]"

record consumer_entry =
  ce_invocation :: invocation_id
  ce_router :: invocation_id
  ce_update :: update_binding
  ce_target :: u32
  ce_caller :: u64
  ce_r3 :: u64
  ce_f1 :: u64

datatype consumer_stage = ConsumerEntered | Branched | ChildActive | ChildReturned | ChildException

datatype child_state = ChildAbsent | ChildIsActive | ChildHasReturned | ChildHasFailed

datatype consumer_kind = ConsumerEntryEvent | BranchEvent | ChildPreEvent | ChildReturnEvent
  | ChildExceptionEvent | ConsumerNormalExit | ConsumerExceptionalExit

datatype consumer_fault = ConsumerIdentity | ConsumerTransition | ConsumerCapacity | ConsumerDepth

record child =
  ch_caller :: u64
  ch_r3 :: u64
  ch_f1 :: u64
  ch_ctr :: u64
  ch_target :: u32
  ch_state :: child_state
  ch_indirect :: bool

definition no_child :: child where
  "no_child = \<lparr>ch_caller = 0, ch_r3 = 0, ch_f1 = 0, ch_ctr = 0, ch_target = 0, ch_state = ChildAbsent,
     ch_indirect = False\<rparr>"

record consumer_frame =
  cf_entry :: consumer_entry
  cf_parent :: invocation_id
  cf_stage :: consumer_stage
  cf_branch :: u64
  cf_observed :: bool
  cf_nonzero :: bool
  cf_returned :: u8
  cf_children :: "child list"

type_synonym consumer_event = "(consumer_kind, consumer_frame) frame_snapshot"

record consumer_model = "(consumer_frame, consumer_event, consumer_fault) record_core" +
  cm_epoch :: u64
  cm_router :: u64
  cm_last :: u64
  cm_last_router :: u64

definition new_consumer :: "u64 \<Rightarrow> u64 \<Rightarrow> consumer_model" where
  "new_consumer epoch router = \<lparr>rc_frozen = False, rc_fault = (if epoch = 0 then Some ConsumerIdentity else None),
     rc_events = [], rc_stack = [], cm_epoch = epoch, cm_router = router, cm_last = 0, cm_last_router = 0\<rparr>"

section \<open>The methods\<close>

definition new_consumer_frame :: "consumer_entry \<Rightarrow> consumer_frame list \<Rightarrow> consumer_frame" where
  "new_consumer_frame e st = \<lparr>cf_entry = e,
     cf_parent = (case st of [] \<Rightarrow> no_invocation | f # _ \<Rightarrow> ce_invocation (cf_entry f)),
     cf_stage = ConsumerEntered, cf_branch = 0, cf_observed = False, cf_nonzero = False, cf_returned = 0,
     cf_children = replicate 3 no_child\<rparr>"

definition consumer_emit :: "consumer_kind \<Rightarrow> consumer_frame \<Rightarrow> consumer_frame list \<Rightarrow> consumer_model
    \<Rightarrow> consumer_model" where
  "consumer_emit k f fs m = logged_change \<lparr>sn_kind = k, sn_frame = f\<rparr> (f # fs) m"

definition consumer_enter :: "nat \<Rightarrow> nat \<Rightarrow> consumer_model \<Rightarrow> consumer_entry \<Rightarrow> consumer_model \<times> bool" where
  "consumer_enter capacity depth m e =
     (let iv = ce_invocation e; rt = ce_router e in
      attempt
        [(\<not> (iv_thread iv \<noteq> cm_epoch m \<or> iv_serial iv = 0 \<or> iv_serial iv \<le> cm_last m \<or> iv_thread rt = 0
             \<or> (cm_router m \<noteq> 0 \<and> iv_thread rt \<noteq> cm_router m) \<or> iv_serial rt = 0
             \<or> iv_serial rt \<le> cm_last_router m \<or> ce_target e \<noteq> kConsumerTarget \<or> ce_caller e \<noteq> kConsumerCaller
             \<or> (\<not> bound_update (ce_update e) \<and> \<not> unbound_update (ce_update e))), ConsumerIdentity),
         (length (rc_stack m) \<noteq> depth, ConsumerDepth), (Room capacity m, ConsumerCapacity)] m
        (consumer_emit ConsumerEntryEvent (new_consumer_frame e (rc_stack m)) (rc_stack m)
          (m\<lparr>cm_router := (if cm_router m = 0 then iv_thread rt else cm_router m),
             cm_last := iv_serial iv, cm_last_router := iv_serial rt\<rparr>)))"

definition consumer_top :: "invocation_id \<Rightarrow> (consumer_frame \<Rightarrow> (bool \<times> consumer_fault) list)
    \<Rightarrow> consumer_kind \<Rightarrow> (consumer_frame \<Rightarrow> consumer_frame) \<Rightarrow> consumer_model \<Rightarrow> consumer_model \<times> bool" where
  "consumer_top iv tests k upd m =
     on_top (\<lambda>f. ce_invocation (cf_entry f) = iv) ConsumerIdentity tests
       (\<lambda>f fs. consumer_emit k (upd f) fs m) m"

definition consumer_branch :: "nat \<Rightarrow> consumer_model \<Rightarrow> invocation_id \<Rightarrow> u64 \<Rightarrow> consumer_model \<times> bool" where
  "consumer_branch capacity m iv r11 =
     consumer_top iv (\<lambda>f. [(cf_stage f = ConsumerEntered, ConsumerTransition), (Room capacity m, ConsumerCapacity)])
       BranchEvent
       (\<lambda>f. f\<lparr>cf_branch := r11, cf_observed := True, cf_nonzero := (ucast r11 :: u32) \<noteq> 0, cf_stage := Branched\<rparr>) m"

definition child_pre :: "nat \<Rightarrow> consumer_model \<Rightarrow> invocation_id \<Rightarrow> u8 \<Rightarrow> u64 \<Rightarrow> u64 \<Rightarrow> u64 \<Rightarrow> u64
    \<Rightarrow> consumer_model \<times> bool" where
  "child_pre capacity m iv child caller r3 f1 ctr =
     consumer_top iv
       (\<lambda>f. [(\<not> (\<not> cf_observed f \<or> \<not> cf_nonzero f \<or> child \<ge> 3 \<or> child \<noteq> cf_returned f
                 \<or> (cf_stage f \<noteq> Branched \<and> cf_stage f \<noteq> ChildReturned)
                 \<or> caller \<noteq> kChildReturnLr ! unat child \<or> (child \<noteq> 0 \<and> ctr \<noteq> 0)), ConsumerTransition),
             (Room capacity m, ConsumerCapacity)])
       ChildPreEvent
       (\<lambda>f. f\<lparr>cf_children := (cf_children f)[unat child :=
                \<lparr>ch_caller = caller, ch_r3 = r3, ch_f1 = f1, ch_ctr = ctr,
                 ch_target = (if child = 0 then ucast ctr else kDirectTarget ! unat child),
                 ch_state = ChildIsActive, ch_indirect = (child = 0)\<rparr>],
              cf_stage := ChildActive\<rparr>) m"

definition child_end :: "nat \<Rightarrow> consumer_model \<Rightarrow> invocation_id \<Rightarrow> u8 \<Rightarrow> bool \<Rightarrow> consumer_model \<times> bool" where
  "child_end capacity m iv child normal =
     consumer_top iv
       (\<lambda>f. [(\<not> (cf_stage f \<noteq> ChildActive \<or> child \<ge> 3 \<or> child \<noteq> cf_returned f
                 \<or> ch_state (cf_children f ! unat child) \<noteq> ChildIsActive), ConsumerTransition),
             (Room capacity m, ConsumerCapacity)])
       (if normal then ChildReturnEvent else ChildExceptionEvent)
       (\<lambda>f. f\<lparr>cf_children := (cf_children f)[unat child := (cf_children f ! unat child)
                \<lparr>ch_state := (if normal then ChildHasReturned else ChildHasFailed)\<rparr>],
              cf_stage := (if normal then ChildReturned else ChildException),
              cf_returned := (if normal then cf_returned f + 1 else cf_returned f)\<rparr>) m"

definition child_return :: "nat \<Rightarrow> consumer_model \<Rightarrow> invocation_id \<Rightarrow> u8 \<Rightarrow> consumer_model \<times> bool" where
  "child_return capacity m iv child = child_end capacity m iv child True"

definition child_exception :: "nat \<Rightarrow> consumer_model \<Rightarrow> invocation_id \<Rightarrow> u8 \<Rightarrow> consumer_model \<times> bool" where
  "child_exception capacity m iv child = child_end capacity m iv child False"

definition consumer_exit :: "nat \<Rightarrow> consumer_model \<Rightarrow> invocation_id \<Rightarrow> bool \<Rightarrow> consumer_model \<times> bool" where
  "consumer_exit capacity m iv normal =
     on_top (\<lambda>f. ce_invocation (cf_entry f) = iv) ConsumerIdentity
       (\<lambda>f. [(\<not> (normal \<and> (\<not> cf_observed f
                 \<or> (if cf_nonzero f then cf_stage f \<noteq> ChildReturned \<or> cf_returned f \<noteq> 3
                    else cf_stage f \<noteq> Branched))), ConsumerTransition),
             (Room capacity m, ConsumerCapacity)])
       (\<lambda>f fs. logged_change
          \<lparr>sn_kind = (if normal then ConsumerNormalExit else ConsumerExceptionalExit), sn_frame = f\<rparr> fs m) m"

datatype consumer_call =
    CEnter consumer_entry
  | CBranch invocation_id u64
  | CChildPre invocation_id u8 u64 u64 u64 u64
  | CChildReturn invocation_id u8
  | CChildException invocation_id u8
  | CExit invocation_id bool
  | CFreeze

fun consumer_step :: "nat \<Rightarrow> nat \<Rightarrow> consumer_model \<Rightarrow> consumer_call \<Rightarrow> consumer_model \<times> bool" where
  "consumer_step c d m (CEnter e) = consumer_enter c d m e"
| "consumer_step c d m (CBranch iv r11) = consumer_branch c m iv r11"
| "consumer_step c d m (CChildPre iv child caller r3 f1 ctr) = child_pre c m iv child caller r3 f1 ctr"
| "consumer_step c d m (CChildReturn iv child) = child_return c m iv child"
| "consumer_step c d m (CChildException iv child) = child_exception c m iv child"
| "consumer_step c d m (CExit iv normal) = consumer_exit c m iv normal"
| "consumer_step c d m CFreeze = (Freeze m, False)"

section \<open>A reader of the log\<close>

definition admissible_entry :: "consumer_entry \<Rightarrow> bool" where
  "admissible_entry e \<longleftrightarrow> iv_serial (ce_invocation e) \<noteq> 0 \<and> iv_thread (ce_router e) \<noteq> 0 \<and> iv_serial (ce_router e) \<noteq> 0
     \<and> ce_target e = kConsumerTarget \<and> ce_caller e = kConsumerCaller
     \<and> (bound_update (ce_update e) \<or> unbound_update (ce_update e))"

definition fresh_consumer_frame :: "consumer_frame \<Rightarrow> consumer_frame list \<Rightarrow> bool" where
  "fresh_consumer_frame g st \<longleftrightarrow> g = new_consumer_frame (cf_entry g) st \<and> admissible_entry (cf_entry g)"

text \<open>A started child: its return address and target are those of its position.\<close>

definition started_child :: "nat \<Rightarrow> child \<Rightarrow> bool" where
  "started_child i c \<longleftrightarrow> ch_caller c = kChildReturnLr ! i \<and> ch_indirect c = (i = 0)
     \<and> (if i = 0 then ch_target c = ucast (ch_ctr c) else ch_ctr c = 0 \<and> ch_target c = kDirectTarget ! i)"

fun legal_child :: "consumer_kind \<Rightarrow> consumer_frame \<Rightarrow> consumer_frame \<Rightarrow> bool" where
  "legal_child BranchEvent f g \<longleftrightarrow> cf_stage f = ConsumerEntered
     \<and> g = f\<lparr>cf_branch := cf_branch g, cf_observed := True, cf_nonzero := (ucast (cf_branch g) :: u32) \<noteq> 0,
              cf_stage := Branched\<rparr>"
| "legal_child ChildPreEvent f g \<longleftrightarrow> (let i = unat (cf_returned f); c = cf_children g ! i in
     i < 3 \<and> cf_nonzero f \<and> cf_stage f \<in> {Branched, ChildReturned} \<and> started_child i c
     \<and> ch_state c = ChildIsActive \<and> g = f\<lparr>cf_children := (cf_children f)[i := c], cf_stage := ChildActive\<rparr>)"
| "legal_child ChildReturnEvent f g \<longleftrightarrow> (let i = unat (cf_returned f); c = cf_children f ! i in
     cf_stage f = ChildActive \<and> i < 3 \<and> ch_state c = ChildIsActive
     \<and> g = f\<lparr>cf_children := (cf_children f)[i := c\<lparr>ch_state := ChildHasReturned\<rparr>], cf_stage := ChildReturned,
              cf_returned := cf_returned f + 1\<rparr>)"
| "legal_child ChildExceptionEvent f g \<longleftrightarrow> (let i = unat (cf_returned f); c = cf_children f ! i in
     cf_stage f = ChildActive \<and> i < 3 \<and> ch_state c = ChildIsActive
     \<and> g = f\<lparr>cf_children := (cf_children f)[i := c\<lparr>ch_state := ChildHasFailed\<rparr>], cf_stage := ChildException\<rparr>)"
| "legal_child ConsumerNormalExit f g \<longleftrightarrow> g = f
     \<and> (if cf_nonzero f then cf_stage f = ChildReturned \<and> cf_returned f = 3 else cf_stage f = Branched)"
| "legal_child ConsumerExceptionalExit f g \<longleftrightarrow> g = f"
| "legal_child ConsumerEntryEvent f g \<longleftrightarrow> False"

definition consumer_audit :: "consumer_frame list \<Rightarrow> consumer_event \<Rightarrow> consumer_frame list option" where
  "consumer_audit = snapshot_audit ConsumerEntryEvent [ConsumerNormalExit, ConsumerExceptionalExit]
     fresh_consumer_frame legal_child"

definition consumer_serials :: "consumer_event \<Rightarrow> u64 list option" where
  "consumer_serials e = (let n = cf_entry (sn_frame e) in
     if sn_kind e = ConsumerEntryEvent then Some [iv_serial (ce_invocation n), iv_serial (ce_router n)] else None)"

abbreviation consumer_lanes :: "consumer_model \<Rightarrow> u64 list" where
  "consumer_lanes m \<equiv> [cm_last m, cm_last_router m]"

lemmas consumer_methods = consumer_enter_def consumer_branch_def child_pre_def child_return_def
  child_exception_def child_end_def consumer_exit_def consumer_top_def

text \<open>The arrays of children keep their length.\<close>

definition consumer_wf :: "consumer_model \<Rightarrow> bool" where
  "consumer_wf m \<longleftrightarrow> list_all (\<lambda>f. length (cf_children f) = 3) (rc_stack m)"

lemma consumer_refused:
  assumes "consumer_step c d m call = (m', False)"
  shows "rc_events m' = rc_events m \<and> rc_stack m' = rc_stack m \<and> consumer_lanes m' = consumer_lanes m
     \<and> (\<not> Writable m \<longrightarrow> \<not> Writable m')"
  using assms
  by (cases call) (auto simp: consumer_methods Let_def Freeze_def Writable_def dest!: attempt_False on_top_False)

definition consumer_accepts :: "nat \<Rightarrow> nat \<Rightarrow> consumer_model \<Rightarrow> consumer_model \<Rightarrow> bool" where
  "consumer_accepts c d m m' \<longleftrightarrow> consumer_wf m' \<and> Writable m \<and> length (rc_events m) < c
     \<and> (length (rc_stack m) \<le> d \<longrightarrow> length (rc_stack m') \<le> d)
     \<and> (\<exists>e. rc_events m' = rc_events m @ [e] \<and> consumer_audit (rc_stack m) e = Some (rc_stack m')
         \<and> (case consumer_serials e of None \<Rightarrow> consumer_lanes m' = consumer_lanes m
            | Some n \<Rightarrow> list_all2 (<) (consumer_lanes m) n \<and> consumer_lanes m' = n))"

lemma consumer_top_accepted:
  assumes "consumer_top iv tests k upd m = (m', True)" and "consumer_wf m"
    and "k \<notin> {ConsumerEntryEvent, ConsumerNormalExit, ConsumerExceptionalExit}"
    and "\<And>f. first_failure (tests f) = None \<Longrightarrow> length (cf_children f) = 3
      \<Longrightarrow> legal_child k f (upd f) \<and> Room c m \<and> length (cf_children (upd f)) = 3"
  shows "consumer_accepts c d m m'"
proof -
  obtain f fs where "Writable m" and st: "rc_stack m = f # fs" and ok: "first_failure (tests f) = None"
    and m': "m' = consumer_emit k (upd f) fs m"
    using assms(1) by (auto simp: consumer_top_def on_top_True)
  from st assms(2) have "length (cf_children f) = 3" by (simp add: consumer_wf_def)
  note legal = assms(4) [OF ok this]
  have "consumer_audit (rc_stack m) \<lparr>sn_kind = k, sn_frame = upd f\<rparr> = Some (upd f # fs)"
    using assms(3) legal by (simp add: consumer_audit_def snapshot_audit_def st)
  moreover have "consumer_lanes m' = consumer_lanes m" by (simp add: m' consumer_emit_def logged_change_def)
  ultimately show ?thesis using assms(2,3) legal \<open>Writable m\<close> st m'
    by (auto simp: consumer_accepts_def consumer_emit_def consumer_serials_def Room_def consumer_wf_def)
qed

lemma consumer_enter_accepted:
  assumes "consumer_enter c d m e = (m', True)" and "consumer_wf m"
  shows "consumer_accepts c d m m'"
proof -
  let ?f = "new_consumer_frame e (rc_stack m)"
  have "Writable m" "length (rc_events m) < c" "length (rc_stack m) \<noteq> d" and adm: "admissible_entry e"
    and "cm_last m < iv_serial (ce_invocation e)" "cm_last_router m < iv_serial (ce_router e)"
    and m': "m' = consumer_emit ConsumerEntryEvent ?f (rc_stack m)
      (m\<lparr>cm_router := (if cm_router m = 0 then iv_thread (ce_router e) else cm_router m),
         cm_last := iv_serial (ce_invocation e), cm_last_router := iv_serial (ce_router e)\<rparr>)"
    using assms
    by (auto simp: consumer_enter_def Let_def attempt_True Room_def admissible_entry_def split: if_splits)
  moreover have "consumer_lanes m' = [iv_serial (ce_invocation e), iv_serial (ce_router e)]"
    by (simp add: m' consumer_emit_def logged_change_def)
  moreover have "cf_entry ?f = e" "length (cf_children ?f) = 3" by (simp_all add: new_consumer_frame_def)
  ultimately show ?thesis using assms(2)
    by (auto simp: consumer_accepts_def consumer_audit_def consumer_emit_def consumer_serials_def
        snapshot_audit_def fresh_consumer_frame_def consumer_wf_def)
qed

lemma consumer_exit_accepted:
  assumes "consumer_exit c m iv normal = (m', True)" and "consumer_wf m"
  shows "consumer_accepts c d m m'"
proof -
  let ?k = "if normal then ConsumerNormalExit else ConsumerExceptionalExit"
  obtain f fs where "Writable m" "length (rc_events m) < c" and st: "rc_stack m = f # fs"
    and ok: "normal \<Longrightarrow> legal_child ConsumerNormalExit f f"
    and m': "m' = logged_change \<lparr>sn_kind = ?k, sn_frame = f\<rparr> fs m"
    using assms by (auto simp: consumer_exit_def on_top_True Room_def split: if_splits)
  moreover have "consumer_audit (rc_stack m) \<lparr>sn_kind = ?k, sn_frame = f\<rparr> = Some fs"
    using ok by (simp add: consumer_audit_def snapshot_audit_def st del: legal_child.simps(5))
  moreover have "consumer_lanes m' = consumer_lanes m" by (simp add: m' logged_change_def)
  ultimately show ?thesis using assms(2) by (auto simp: consumer_accepts_def consumer_serials_def consumer_wf_def)
qed

lemma consumer_branch_accepted:
  "consumer_branch c m iv r11 = (m', True) \<Longrightarrow> consumer_wf m \<Longrightarrow> consumer_accepts c d m m'"
  unfolding consumer_branch_def by (erule consumer_top_accepted) (auto split: if_splits)

lemma child_pre_accepted:
  "child_pre c m iv child caller r3 f1 ctr = (m', True) \<Longrightarrow> consumer_wf m \<Longrightarrow> consumer_accepts c d m m'"
  unfolding child_pre_def
  by (erule consumer_top_accepted)
    (auto simp: started_child_def Let_def word_le_nat_alt not_le unat_eq_0 split: if_splits)

lemma child_end_accepted:
  "child_end c m iv child normal = (m', True) \<Longrightarrow> consumer_wf m \<Longrightarrow> consumer_accepts c d m m'"
  unfolding child_end_def
  by (erule consumer_top_accepted) (auto simp: Let_def word_le_nat_alt not_le split: if_splits)

lemma consumer_accepted: "consumer_step c d m call = (m', True) \<Longrightarrow> consumer_wf m \<Longrightarrow> consumer_accepts c d m m'"
  by (cases call)
    (auto simp: child_return_def child_exception_def intro: consumer_enter_accepted consumer_exit_accepted
      consumer_branch_accepted child_pre_accepted child_end_accepted)

interpretation consumer: logged "consumer_step c d" consumer_audit "[]" rc_stack c d consumer_serials consumer_lanes consumer_wf
  for c d
  by unfold_locales (auto dest: consumer_refused consumer_accepted simp: consumer_accepts_def consumer_wf_def)

section \<open>Properties\<close>

definition expected_state :: "consumer_frame \<Rightarrow> nat \<Rightarrow> child_state" where
  "expected_state f i =
     (if i < unat (cf_returned f) then ChildHasReturned
      else if i > unat (cf_returned f) then ChildAbsent
      else if cf_stage f = ChildActive then ChildIsActive
      else if cf_stage f = ChildException then ChildHasFailed else ChildAbsent)"

definition child_fits :: "nat \<Rightarrow> child \<Rightarrow> bool" where
  "child_fits i c \<longleftrightarrow> (if ch_state c = ChildAbsent then c = no_child else started_child i c)"

text \<open>The children of a frame are exactly those that its stage and count say, in order.\<close>

definition consumer_frame_ok :: "consumer_frame \<Rightarrow> bool" where
  "consumer_frame_ok f \<longleftrightarrow> admissible_entry (cf_entry f) \<and> length (cf_children f) = 3
     \<and> cf_observed f = (cf_stage f \<noteq> ConsumerEntered)
     \<and> (cf_observed f \<longrightarrow> cf_nonzero f = ((ucast (cf_branch f) :: u32) \<noteq> 0))
     \<and> (cf_nonzero f \<longrightarrow> cf_observed f) \<and> (\<not> cf_nonzero f \<longrightarrow> cf_stage f \<in> {ConsumerEntered, Branched})
     \<and> unat (cf_returned f) \<le> 3 \<and> (cf_stage f \<in> {ChildActive, ChildException} \<longrightarrow> unat (cf_returned f) < 3)
     \<and> (cf_stage f \<in> {ConsumerEntered, Branched} \<longrightarrow> cf_returned f = 0)
     \<and> (\<forall>i < 3. ch_state (cf_children f ! i) = expected_state f i \<and> child_fits i (cf_children f ! i))"

lemma fresh_consumer_ok: "fresh_consumer_frame g st \<Longrightarrow> consumer_frame_ok g"
  unfolding fresh_consumer_frame_def
  by (erule conjE, erule ssubst)
    (simp add: new_consumer_frame_def consumer_frame_ok_def expected_state_def child_fits_def
      no_child_def)

lemma legal_branch_ok:
  assumes "legal_child BranchEvent f g" "consumer_frame_ok f"
  shows "consumer_frame_ok g"
proof -
  obtain b where g: "g = f\<lparr>cf_branch := b, cf_observed := True, cf_nonzero := (ucast b :: u32) \<noteq> 0, cf_stage := Branched\<rparr>"
    and "cf_stage f = ConsumerEntered"
    using assms(1) by auto
  then show ?thesis using assms(2)
    by (simp add: consumer_frame_ok_def expected_state_def)
qed

lemma legal_pre_ok:
  assumes "legal_child ChildPreEvent f g" "consumer_frame_ok f"
  shows "consumer_frame_ok g"
proof -
  let ?i = "unat (cf_returned f)"
  obtain c where g: "g = f\<lparr>cf_children := (cf_children f)[?i := c], cf_stage := ChildActive\<rparr>"
    and c: "?i < 3" "cf_nonzero f" "started_child ?i c" "ch_state c = ChildIsActive"
    using assms(1) by (auto simp: Let_def)
  then show ?thesis using assms(2)
    by (auto simp: consumer_frame_ok_def expected_state_def child_fits_def nth_list_update)
qed

lemma legal_pre_active: "legal_child ChildPreEvent f g \<Longrightarrow> cf_stage g = ChildActive"
proof -
  assume "legal_child ChildPreEvent f g"
  then obtain cs where "g = f\<lparr>cf_children := cs, cf_stage := ChildActive\<rparr>" by (auto simp: Let_def)
  then show ?thesis by simp
qed

lemma started_child_state [simp]: "started_child i (c\<lparr>ch_state := x\<rparr>) = started_child i c"
  by (simp add: started_child_def)

lemma legal_end_ok:
  assumes "k = ChildReturnEvent \<or> k = ChildExceptionEvent" "legal_child k f g" "consumer_frame_ok f"
  shows "consumer_frame_ok g"
proof -
  let ?i = "unat (cf_returned f)" and ?r = "k = ChildReturnEvent"
  let ?s = "if ?r then ChildHasReturned else ChildHasFailed"
  have g: "g = f\<lparr>cf_children := (cf_children f)[?i := (cf_children f ! ?i)\<lparr>ch_state := ?s\<rparr>],
      cf_stage := (if ?r then ChildReturned else ChildException),
      cf_returned := (if ?r then cf_returned f + 1 else cf_returned f)\<rparr>"
    and c: "cf_stage f = ChildActive" "?i < 3" "ch_state (cf_children f ! ?i) = ChildIsActive"
    using assms(1,2) by (auto simp: Let_def)
  have n: "unat (cf_returned f + 1) = ?i + 1" using c(2) by (intro unat_succ) simp
  have at: "ch_state (cf_children f ! j) = expected_state f j" "child_fits j (cf_children f ! j)" if "j < 3" for j
    using assms(3) that by (simp_all add: consumer_frame_ok_def)
  have "ch_state (cf_children g ! j) = expected_state g j \<and> child_fits j (cf_children g ! j)" if j: "j < 3" for j
  proof (cases "j = ?i")
    case True
    then have "cf_children g ! j = (cf_children f ! j)\<lparr>ch_state := ?s\<rparr>" using assms(3) c(2)
      by (simp add: g consumer_frame_ok_def)
    moreover have "started_child j (cf_children f ! j)" using at(2) [OF j] c(3) True by (simp add: child_fits_def)
    moreover have "expected_state g j = ?s" using True n assms(1) by (auto simp: g expected_state_def)
    ultimately show ?thesis by (simp add: child_fits_def)
  next
    case False
    then have "cf_children g ! j = cf_children f ! j" by (simp add: g)
    moreover have "expected_state g j = expected_state f j" using False n c(1) by (auto simp: g expected_state_def)
    ultimately show ?thesis using at [OF j] by simp
  qed
  moreover have "unat (cf_returned g) \<le> 3" using c(2) n by (simp add: g)
  moreover have "cf_entry g = cf_entry f" "length (cf_children g) = length (cf_children f)"
    "cf_observed g = cf_observed f" "cf_branch g = cf_branch f" "cf_nonzero g = cf_nonzero f"
    "cf_stage g \<in> {ChildReturned, ChildException}" "cf_stage g = ChildException \<longrightarrow> unat (cf_returned g) < 3"
    using c(2) assms(1) by (auto simp: g)
  ultimately show ?thesis using assms(3) c(1) unfolding consumer_frame_ok_def by auto
qed

lemma legal_exit_same: "legal_child ConsumerNormalExit f g \<Longrightarrow> legal_child ConsumerNormalExit g g"
  by simp

lemma legal_child_ok: "legal_child k f g \<Longrightarrow> consumer_frame_ok f \<Longrightarrow> consumer_frame_ok g"
  using legal_branch_ok [of f g] legal_pre_ok [of f g] legal_end_ok [of k f g]
  by (cases k) (simp_all del: legal_child.simps(1-4))

definition consumer_run :: "nat \<Rightarrow> nat \<Rightarrow> u64 \<Rightarrow> u64 \<Rightarrow> consumer_call list \<Rightarrow> consumer_model" where
  "consumer_run c d epoch router calls =
     run_events (\<lambda>m call. fst (consumer_step c d m call)) (new_consumer epoch router) calls"

lemma consumer_run_ok: "consumer.log_ok c d (consumer_run c d epoch router calls)"
proof -
  have "consumer.next_record c d = (\<lambda>m call. fst (consumer_step c d m call))"
    by (simp add: fun_eq_iff consumer.next_record_def)
  then show ?thesis
    unfolding consumer_run_def using consumer.log_ok_run [OF consumer.log_ok_new, of "new_consumer epoch router" c d calls]
    by (simp add: new_consumer_def consumer_wf_def)
qed

lemma consumer_run_frames:
  assumes "e \<in> set (rc_events (consumer_run c d epoch router calls))"
  shows "consumer_frame_ok (sn_frame e)
     \<and> (sn_kind e = ConsumerNormalExit \<longrightarrow> legal_child ConsumerNormalExit (sn_frame e) (sn_frame e))
     \<and> (sn_kind e = ChildPreEvent \<longrightarrow> cf_stage (sn_frame e) = ChildActive)"
proof -
  let ?m = "consumer_run c d epoch router calls"
  have r: "replay consumer_audit [] (rc_events ?m) = Some (rc_stack ?m)"
    using consumer_run_ok [of c d epoch router calls] by (simp add: consumer.log_ok_def)
  have "\<forall>e \<in> set (rc_events ?m). consumer_frame_ok (sn_frame e)
     \<and> (sn_kind e = ConsumerNormalExit \<longrightarrow> legal_child ConsumerNormalExit (sn_frame e) (sn_frame e))
     \<and> (sn_kind e = ChildPreEvent \<longrightarrow> cf_stage (sn_frame e) = ChildActive)"
    by (rule conjunct2 [OF snapshot_frames [OF r [unfolded consumer_audit_def]]])
      (auto simp del: legal_child.simps(1-5) intro: legal_child_ok fresh_consumer_ok
        dest: legal_pre_active legal_exit_same)
  then show ?thesis using assms by blast
qed

text \<open>The log of consumer bodies is sound: after any calls its snapshots replay by the protocol to the
  pending frames, own and router serials only grow, the bounds hold, and a normal exit certifies
  the body: either the branch's low word was zero and no child started, or it was not and exactly the
  three children ran, in order, each returned, from its own call site, the two direct ones to their
  fixed targets.\<close>

theorem consumer_log_sound:
  "let m = consumer_run c d epoch router calls in
     replay consumer_audit [] (rc_events m) = Some (rc_stack m)
     \<and> length (rc_events m) \<le> c \<and> length (rc_stack m) \<le> d
     \<and> sorted_wrt (list_all2 (<)) (List.map_filter consumer_serials (rc_events m))
     \<and> list_all (\<lambda>f. cf_observed f \<and>
          (if (ucast (cf_branch f) :: u32) = 0 then cf_children f = replicate 3 no_child
           else map ch_state (cf_children f) = replicate 3 ChildHasReturned
              \<and> map ch_caller (cf_children f) = kChildReturnLr
              \<and> map ch_target (tl (cf_children f)) = tl kDirectTarget
              \<and> ch_target (hd (cf_children f)) = ucast (ch_ctr (hd (cf_children f)))))
        (map sn_frame (filter (\<lambda>e. sn_kind e = ConsumerNormalExit) (rc_events m)))"
proof -
  let ?m = "consumer_run c d epoch router calls"
  have exits: "cf_observed f \<and>
          (if (ucast (cf_branch f) :: u32) = 0 then cf_children f = replicate 3 no_child
           else map ch_state (cf_children f) = replicate 3 ChildHasReturned
              \<and> map ch_caller (cf_children f) = kChildReturnLr
              \<and> map ch_target (tl (cf_children f)) = tl kDirectTarget
              \<and> ch_target (hd (cf_children f)) = ucast (ch_ctr (hd (cf_children f))))"
    if ok: "consumer_frame_ok f" and ex: "legal_child ConsumerNormalExit f f" for f
  proof -
    obtain a b c where abc: "cf_children f = [a, b, c]"
      using ok by (auto simp: consumer_frame_ok_def length_Suc_conv numeral_3_eq_3)
    have at: "ch_state (cf_children f ! i) = expected_state f i" "child_fits i (cf_children f ! i)" if "i < 3" for i
      using ok that by (simp_all add: consumer_frame_ok_def)
    show ?thesis
    proof (cases "cf_nonzero f")
      case True
      with ex have "cf_stage f = ChildReturned" "cf_returned f = 3" by simp_all
      then have "ch_state (cf_children f ! i) = ChildHasReturned \<and> started_child i (cf_children f ! i)" if "i < 3" for i
        using at [OF that] that by (simp add: expected_state_def child_fits_def)
      from this [of 0] this [of 1] this [of 2] True ok show ?thesis
        by (auto simp: abc started_child_def kChildReturnLr_def kDirectTarget_def numeral_3_eq_3 consumer_frame_ok_def)
    next
      case False
      with ex have "cf_stage f = Branched" by simp
      with ok have "cf_returned f = 0" by (simp add: consumer_frame_ok_def)
      then have "cf_children f ! i = no_child" if "i < 3" for i
        using at [OF that] \<open>cf_stage f = Branched\<close> by (simp add: expected_state_def child_fits_def)
      from this [of 0] this [of 1] this [of 2] False ok \<open>cf_stage f = Branched\<close> show ?thesis
        by (auto simp: abc numeral_3_eq_3 consumer_frame_ok_def)
    qed
  qed
  then have "list_all (\<lambda>f. cf_observed f \<and>
          (if (ucast (cf_branch f) :: u32) = 0 then cf_children f = replicate 3 no_child
           else map ch_state (cf_children f) = replicate 3 ChildHasReturned
              \<and> map ch_caller (cf_children f) = kChildReturnLr
              \<and> map ch_target (tl (cf_children f)) = tl kDirectTarget
              \<and> ch_target (hd (cf_children f)) = ucast (ch_ctr (hd (cf_children f)))))
        (map sn_frame (filter (\<lambda>e. sn_kind e = ConsumerNormalExit) (rc_events ?m)))"
    using consumer_run_frames [of _ c d epoch router calls]
    by (auto simp: list_all_iff simp del: legal_child.simps split del: if_split)
  with consumer_run_ok [of c d epoch router calls] show ?thesis
    by (simp add: Let_def consumer.log_ok_def consumer.entered_def)
qed

end
