(* ===== verification/VirtualDetail.thy ===== *)
theory VirtualDetail
  imports ConsumerDetail
begin

text \<open>
  The record of the body that a consumer's first, indirect child may lead to: three indirect calls in
  order. An entry carries the consumer entry and the active child that it claims to continue, and is
  admitted only if the two agree with it.
\<close>

section \<open>The data\<close>

definition kVirtualTarget :: u32 where "kVirtualTarget = 0x8258D1A0"
definition kVirtualCaller :: u64 where "kVirtualCaller = 0x822C78C0"
definition kCallReturnLr :: "u64 list" where "kCallReturnLr = [0x8258D1E8, 0x8258D1FC, 0x8258D214]"

record virtual_entry =
  ve_invocation :: invocation_id
  ve_parent :: consumer_entry
  ve_child :: child
  ve_target :: u32
  ve_caller :: u64
  ve_r3 :: u64
  ve_f1 :: u64

datatype virtual_stage = VirtualEntered | CallActive | CallReturned | CallException

datatype call_state = CallAbsent | CallIsActive | CallHasReturned | CallHasFailed

datatype virtual_kind = VirtualEntryEvent | CallPreEvent | CallReturnEvent | CallExceptionEvent
  | VirtualNormalExit | VirtualExceptionalExit

datatype virtual_fault = VirtualIdentity | VirtualTransition | VirtualCapacity | VirtualDepth

record vcall =
  vc_caller :: u64
  vc_r3 :: u64
  vc_f1 :: u64
  vc_ctr :: u64
  vc_target :: u32
  vc_state :: call_state

definition no_call :: vcall where
  "no_call = \<lparr>vc_caller = 0, vc_r3 = 0, vc_f1 = 0, vc_ctr = 0, vc_target = 0, vc_state = CallAbsent\<rparr>"

record virtual_frame =
  vf_entry :: virtual_entry
  vf_parent :: invocation_id
  vf_stage :: virtual_stage
  vf_returned :: u8
  vf_calls :: "vcall list"

type_synonym virtual_event = "(virtual_kind, virtual_frame) frame_snapshot"

record virtual_model = "(virtual_frame, virtual_event, virtual_fault) record_core" +
  vm_epoch :: u64
  vm_detail :: u64
  vm_router :: u64
  vm_last :: u64
  vm_last_detail :: u64
  vm_last_router :: u64

definition new_virtual :: "u64 \<Rightarrow> u64 \<Rightarrow> virtual_model" where
  "new_virtual epoch detail = \<lparr>rc_frozen = False, rc_fault = (if epoch = 0 then Some VirtualIdentity else None),
     rc_events = [], rc_stack = [], vm_epoch = epoch, vm_detail = detail, vm_router = 0, vm_last = 0,
     vm_last_detail = 0, vm_last_router = 0\<rparr>"

section \<open>The methods\<close>

definition new_virtual_frame :: "virtual_entry \<Rightarrow> virtual_frame list \<Rightarrow> virtual_frame" where
  "new_virtual_frame e st = \<lparr>vf_entry = e,
     vf_parent = (case st of [] \<Rightarrow> no_invocation | f # _ \<Rightarrow> ve_invocation (vf_entry f)),
     vf_stage = VirtualEntered, vf_returned = 0, vf_calls = replicate 3 no_call\<rparr>"

definition virtual_emit :: "virtual_kind \<Rightarrow> virtual_frame \<Rightarrow> virtual_frame list \<Rightarrow> virtual_model
    \<Rightarrow> virtual_model" where
  "virtual_emit k f fs m = logged_change \<lparr>sn_kind = k, sn_frame = f\<rparr> (f # fs) m"

text \<open>The three groups of the identity test: the lanes, the claimed parent, and the match of the two.\<close>

definition virtual_lanes_ok :: "virtual_model \<Rightarrow> virtual_entry \<Rightarrow> bool" where
  "virtual_lanes_ok m e \<longleftrightarrow> (let iv = ve_invocation e; p = ve_parent e in
     \<not> (iv_thread iv \<noteq> vm_epoch m \<or> iv_serial iv = 0 \<or> iv_serial iv \<le> vm_last m
        \<or> iv_thread (ce_invocation p) = 0 \<or> (vm_detail m \<noteq> 0 \<and> iv_thread (ce_invocation p) \<noteq> vm_detail m)
        \<or> iv_serial (ce_invocation p) = 0 \<or> iv_serial (ce_invocation p) \<le> vm_last_detail m
        \<or> iv_thread (ce_router p) = 0 \<or> (vm_router m \<noteq> 0 \<and> iv_thread (ce_router p) \<noteq> vm_router m)
        \<or> iv_serial (ce_router p) = 0 \<or> iv_serial (ce_router p) \<le> vm_last_router m))"

definition virtual_parent_ok :: "virtual_entry \<Rightarrow> bool" where
  "virtual_parent_ok e \<longleftrightarrow> (let p = ve_parent e; c = ve_child e; b = ce_update p in
     \<not> ((\<not> bound_update b \<and> \<not> unbound_update b)
        \<or> ce_target p \<noteq> kConsumerTarget \<or> ce_caller p \<noteq> kConsumerCaller
        \<or> ch_state c \<noteq> ChildIsActive \<or> \<not> ch_indirect c \<or> ch_caller c \<noteq> kVirtualCaller
        \<or> ch_target c \<noteq> kVirtualTarget \<or> (ucast (ch_ctr c) :: u32) \<noteq> kVirtualTarget
        \<or> ve_target e \<noteq> kVirtualTarget \<or> ve_caller e \<noteq> kVirtualCaller
        \<or> ve_r3 e \<noteq> ch_r3 c \<or> ve_f1 e \<noteq> ch_f1 c))"

definition virtual_enter :: "nat \<Rightarrow> nat \<Rightarrow> virtual_model \<Rightarrow> virtual_entry \<Rightarrow> virtual_model \<times> bool" where
  "virtual_enter capacity depth m e =
     (let iv = ve_invocation e; p = ve_parent e in
      attempt [(virtual_lanes_ok m e \<and> virtual_parent_ok e, VirtualIdentity),
         (length (rc_stack m) \<noteq> depth, VirtualDepth), (Room capacity m, VirtualCapacity)] m
        (virtual_emit VirtualEntryEvent (new_virtual_frame e (rc_stack m)) (rc_stack m)
          (m\<lparr>vm_detail := (if vm_detail m = 0 then iv_thread (ce_invocation p) else vm_detail m),
             vm_router := (if vm_router m = 0 then iv_thread (ce_router p) else vm_router m),
             vm_last := iv_serial iv, vm_last_detail := iv_serial (ce_invocation p),
             vm_last_router := iv_serial (ce_router p)\<rparr>)))"

definition virtual_top :: "invocation_id \<Rightarrow> (virtual_frame \<Rightarrow> (bool \<times> virtual_fault) list)
    \<Rightarrow> virtual_kind \<Rightarrow> (virtual_frame \<Rightarrow> virtual_frame) \<Rightarrow> virtual_model \<Rightarrow> virtual_model \<times> bool" where
  "virtual_top iv tests k upd m =
     on_top (\<lambda>f. ve_invocation (vf_entry f) = iv) VirtualIdentity tests (\<lambda>f fs. virtual_emit k (upd f) fs m) m"

definition call_pre :: "nat \<Rightarrow> virtual_model \<Rightarrow> invocation_id \<Rightarrow> u8 \<Rightarrow> u64 \<Rightarrow> u64 \<Rightarrow> u64 \<Rightarrow> u64
    \<Rightarrow> virtual_model \<times> bool" where
  "call_pre capacity m iv n caller r3 f1 ctr =
     virtual_top iv
       (\<lambda>f. [(\<not> (n \<ge> 3 \<or> n \<noteq> vf_returned f \<or> caller \<noteq> kCallReturnLr ! unat n
                 \<or> (vf_stage f \<noteq> VirtualEntered \<and> vf_stage f \<noteq> CallReturned)), VirtualTransition),
             (Room capacity m, VirtualCapacity)])
       CallPreEvent
       (\<lambda>f. f\<lparr>vf_calls := (vf_calls f)[unat n :=
                \<lparr>vc_caller = caller, vc_r3 = r3, vc_f1 = f1, vc_ctr = ctr, vc_target = ucast ctr,
                 vc_state = CallIsActive\<rparr>],
              vf_stage := CallActive\<rparr>) m"

definition call_end :: "nat \<Rightarrow> virtual_model \<Rightarrow> invocation_id \<Rightarrow> u8 \<Rightarrow> bool \<Rightarrow> virtual_model \<times> bool" where
  "call_end capacity m iv n normal =
     virtual_top iv
       (\<lambda>f. [(\<not> (n \<ge> 3 \<or> n \<noteq> vf_returned f \<or> vf_stage f \<noteq> CallActive
                 \<or> vc_state (vf_calls f ! unat n) \<noteq> CallIsActive), VirtualTransition),
             (Room capacity m, VirtualCapacity)])
       (if normal then CallReturnEvent else CallExceptionEvent)
       (\<lambda>f. f\<lparr>vf_calls := (vf_calls f)[unat n := (vf_calls f ! unat n)
                \<lparr>vc_state := (if normal then CallHasReturned else CallHasFailed)\<rparr>],
              vf_stage := (if normal then CallReturned else CallException),
              vf_returned := (if normal then vf_returned f + 1 else vf_returned f)\<rparr>) m"

definition call_return :: "nat \<Rightarrow> virtual_model \<Rightarrow> invocation_id \<Rightarrow> u8 \<Rightarrow> virtual_model \<times> bool" where
  "call_return capacity m iv n = call_end capacity m iv n True"

definition call_exception :: "nat \<Rightarrow> virtual_model \<Rightarrow> invocation_id \<Rightarrow> u8 \<Rightarrow> virtual_model \<times> bool" where
  "call_exception capacity m iv n = call_end capacity m iv n False"

definition virtual_exit :: "nat \<Rightarrow> virtual_model \<Rightarrow> invocation_id \<Rightarrow> bool \<Rightarrow> virtual_model \<times> bool" where
  "virtual_exit capacity m iv normal =
     on_top (\<lambda>f. ve_invocation (vf_entry f) = iv) VirtualIdentity
       (\<lambda>f. [(\<not> (normal \<and> (vf_stage f \<noteq> CallReturned \<or> vf_returned f \<noteq> 3)), VirtualTransition),
             (Room capacity m, VirtualCapacity)])
       (\<lambda>f fs. logged_change
          \<lparr>sn_kind = (if normal then VirtualNormalExit else VirtualExceptionalExit), sn_frame = f\<rparr> fs m) m"

datatype virtual_call =
    VEnter virtual_entry
  | VCallPre invocation_id u8 u64 u64 u64 u64
  | VCallReturn invocation_id u8
  | VCallException invocation_id u8
  | VExit invocation_id bool
  | VFreeze

fun virtual_step :: "nat \<Rightarrow> nat \<Rightarrow> virtual_model \<Rightarrow> virtual_call \<Rightarrow> virtual_model \<times> bool" where
  "virtual_step c d m (VEnter e) = virtual_enter c d m e"
| "virtual_step c d m (VCallPre iv n caller r3 f1 ctr) = call_pre c m iv n caller r3 f1 ctr"
| "virtual_step c d m (VCallReturn iv n) = call_return c m iv n"
| "virtual_step c d m (VCallException iv n) = call_exception c m iv n"
| "virtual_step c d m (VExit iv normal) = virtual_exit c m iv normal"
| "virtual_step c d m VFreeze = (Freeze m, False)"

section \<open>A reader of the log\<close>

text \<open>What an entry claims, apart from the lanes of the model that admits it.\<close>

definition virtual_claim :: "virtual_entry \<Rightarrow> bool" where
  "virtual_claim e \<longleftrightarrow> virtual_parent_ok e \<and> admissible_entry (ve_parent e)
     \<and> iv_thread (ce_invocation (ve_parent e)) \<noteq> 0 \<and> iv_serial (ve_invocation e) \<noteq> 0"

definition fresh_virtual_frame :: "virtual_frame \<Rightarrow> virtual_frame list \<Rightarrow> bool" where
  "fresh_virtual_frame g st \<longleftrightarrow> g = new_virtual_frame (vf_entry g) st \<and> virtual_claim (vf_entry g)"

definition started_call :: "nat \<Rightarrow> vcall \<Rightarrow> bool" where
  "started_call i c \<longleftrightarrow> vc_caller c = kCallReturnLr ! i \<and> vc_target c = ucast (vc_ctr c)"

fun legal_call :: "virtual_kind \<Rightarrow> virtual_frame \<Rightarrow> virtual_frame \<Rightarrow> bool" where
  "legal_call CallPreEvent f g \<longleftrightarrow> (let i = unat (vf_returned f); c = vf_calls g ! i in
     i < 3 \<and> vf_stage f \<in> {VirtualEntered, CallReturned} \<and> started_call i c \<and> vc_state c = CallIsActive
     \<and> g = f\<lparr>vf_calls := (vf_calls f)[i := c], vf_stage := CallActive\<rparr>)"
| "legal_call CallReturnEvent f g \<longleftrightarrow> (let i = unat (vf_returned f); c = vf_calls f ! i in
     vf_stage f = CallActive \<and> i < 3 \<and> vc_state c = CallIsActive
     \<and> g = f\<lparr>vf_calls := (vf_calls f)[i := c\<lparr>vc_state := CallHasReturned\<rparr>], vf_stage := CallReturned,
              vf_returned := vf_returned f + 1\<rparr>)"
| "legal_call CallExceptionEvent f g \<longleftrightarrow> (let i = unat (vf_returned f); c = vf_calls f ! i in
     vf_stage f = CallActive \<and> i < 3 \<and> vc_state c = CallIsActive
     \<and> g = f\<lparr>vf_calls := (vf_calls f)[i := c\<lparr>vc_state := CallHasFailed\<rparr>], vf_stage := CallException\<rparr>)"
| "legal_call VirtualNormalExit f g \<longleftrightarrow> g = f \<and> vf_stage f = CallReturned \<and> vf_returned f = 3"
| "legal_call VirtualExceptionalExit f g \<longleftrightarrow> g = f"
| "legal_call VirtualEntryEvent f g \<longleftrightarrow> False"

definition virtual_audit :: "virtual_frame list \<Rightarrow> virtual_event \<Rightarrow> virtual_frame list option" where
  "virtual_audit = snapshot_audit VirtualEntryEvent [VirtualNormalExit, VirtualExceptionalExit]
     fresh_virtual_frame legal_call"

definition virtual_serials :: "virtual_event \<Rightarrow> u64 list option" where
  "virtual_serials e = (let n = vf_entry (sn_frame e) in
     if sn_kind e = VirtualEntryEvent
     then Some [iv_serial (ve_invocation n), iv_serial (ce_invocation (ve_parent n)), iv_serial (ce_router (ve_parent n))]
     else None)"

abbreviation virtual_lanes :: "virtual_model \<Rightarrow> u64 list" where
  "virtual_lanes m \<equiv> [vm_last m, vm_last_detail m, vm_last_router m]"

lemmas virtual_methods = virtual_enter_def call_pre_def call_return_def call_exception_def call_end_def
  virtual_exit_def virtual_top_def

definition virtual_wf :: "virtual_model \<Rightarrow> bool" where
  "virtual_wf m \<longleftrightarrow> list_all (\<lambda>f. length (vf_calls f) = 3) (rc_stack m)"

lemma virtual_refused:
  assumes "virtual_step c d m call = (m', False)"
  shows "rc_events m' = rc_events m \<and> rc_stack m' = rc_stack m \<and> virtual_lanes m' = virtual_lanes m
     \<and> (\<not> Writable m \<longrightarrow> \<not> Writable m')"
  using assms
  by (cases call) (auto simp: virtual_methods Let_def Freeze_def Writable_def dest!: attempt_False on_top_False)

definition virtual_accepts :: "nat \<Rightarrow> nat \<Rightarrow> virtual_model \<Rightarrow> virtual_model \<Rightarrow> bool" where
  "virtual_accepts c d m m' \<longleftrightarrow> virtual_wf m' \<and> Writable m \<and> length (rc_events m) < c
     \<and> (length (rc_stack m) \<le> d \<longrightarrow> length (rc_stack m') \<le> d)
     \<and> (\<exists>e. rc_events m' = rc_events m @ [e] \<and> virtual_audit (rc_stack m) e = Some (rc_stack m')
         \<and> (case virtual_serials e of None \<Rightarrow> virtual_lanes m' = virtual_lanes m
            | Some n \<Rightarrow> list_all2 (<) (virtual_lanes m) n \<and> virtual_lanes m' = n))"

lemma virtual_top_accepted:
  assumes "virtual_top iv tests k upd m = (m', True)" and "virtual_wf m"
    and "k \<notin> {VirtualEntryEvent, VirtualNormalExit, VirtualExceptionalExit}"
    and "\<And>f. first_failure (tests f) = None \<Longrightarrow> length (vf_calls f) = 3
      \<Longrightarrow> legal_call k f (upd f) \<and> Room c m \<and> length (vf_calls (upd f)) = 3"
  shows "virtual_accepts c d m m'"
proof -
  obtain f fs where "Writable m" and st: "rc_stack m = f # fs" and ok: "first_failure (tests f) = None"
    and m': "m' = virtual_emit k (upd f) fs m"
    using assms(1) by (auto simp: virtual_top_def on_top_True)
  from st assms(2) have "length (vf_calls f) = 3" by (simp add: virtual_wf_def)
  note legal = assms(4) [OF ok this]
  have "virtual_audit (rc_stack m) \<lparr>sn_kind = k, sn_frame = upd f\<rparr> = Some (upd f # fs)"
    using assms(3) legal by (simp add: virtual_audit_def snapshot_audit_def st)
  moreover have "virtual_lanes m' = virtual_lanes m" by (simp add: m' virtual_emit_def logged_change_def)
  ultimately show ?thesis using assms(2,3) legal \<open>Writable m\<close> st m'
    by (auto simp: virtual_accepts_def virtual_emit_def virtual_serials_def Room_def virtual_wf_def)
qed

lemma virtual_enter_accepted:
  assumes "virtual_enter c d m e = (m', True)" and "virtual_wf m"
  shows "virtual_accepts c d m m'"
proof -
  let ?f = "new_virtual_frame e (rc_stack m)" and ?p = "ve_parent e"
  let ?n = "[iv_serial (ve_invocation e), iv_serial (ce_invocation ?p), iv_serial (ce_router ?p)]"
  have "Writable m" "length (rc_events m) < c" "length (rc_stack m) \<noteq> d" and adm: "virtual_claim e"
    and "list_all2 (<) (virtual_lanes m) ?n"
    and m': "rc_events m' = rc_events m @ [\<lparr>sn_kind = VirtualEntryEvent, sn_frame = ?f\<rparr>]"
      "rc_stack m' = ?f # rc_stack m" "virtual_lanes m' = ?n"
    using assms
    by (auto simp: virtual_enter_def virtual_emit_def logged_change_def Let_def attempt_True Room_def
        admissible_entry_def virtual_claim_def virtual_lanes_ok_def virtual_parent_ok_def split: if_splits)
  moreover have "vf_entry ?f = e" "length (vf_calls ?f) = 3" by (simp_all add: new_virtual_frame_def)
  ultimately show ?thesis using assms(2)
    by (auto simp: virtual_accepts_def virtual_audit_def virtual_serials_def
        snapshot_audit_def fresh_virtual_frame_def virtual_wf_def)
qed

lemma virtual_exit_accepted:
  assumes "virtual_exit c m iv normal = (m', True)" and "virtual_wf m"
  shows "virtual_accepts c d m m'"
proof -
  let ?k = "if normal then VirtualNormalExit else VirtualExceptionalExit"
  obtain f fs where "Writable m" "length (rc_events m) < c" and st: "rc_stack m = f # fs"
    and ok: "normal \<Longrightarrow> legal_call VirtualNormalExit f f"
    and m': "m' = logged_change \<lparr>sn_kind = ?k, sn_frame = f\<rparr> fs m"
    using assms by (auto simp: virtual_exit_def on_top_True Room_def split: if_splits)
  moreover have "virtual_audit (rc_stack m) \<lparr>sn_kind = ?k, sn_frame = f\<rparr> = Some fs"
    using ok by (simp add: virtual_audit_def snapshot_audit_def st)
  moreover have "virtual_lanes m' = virtual_lanes m" by (simp add: m' logged_change_def)
  ultimately show ?thesis using assms(2) by (auto simp: virtual_accepts_def virtual_serials_def virtual_wf_def)
qed

lemma call_pre_accepted:
  "call_pre c m iv n caller r3 f1 ctr = (m', True) \<Longrightarrow> virtual_wf m \<Longrightarrow> virtual_accepts c d m m'"
  unfolding call_pre_def
  by (erule virtual_top_accepted) (auto simp: started_call_def Let_def word_le_nat_alt not_le split: if_splits)

lemma call_end_accepted:
  "call_end c m iv n normal = (m', True) \<Longrightarrow> virtual_wf m \<Longrightarrow> virtual_accepts c d m m'"
  unfolding call_end_def
  by (erule virtual_top_accepted) (auto simp: Let_def word_le_nat_alt not_le split: if_splits)

lemma virtual_accepted: "virtual_step c d m call = (m', True) \<Longrightarrow> virtual_wf m \<Longrightarrow> virtual_accepts c d m m'"
  by (cases call)
    (auto simp: call_return_def call_exception_def intro: virtual_enter_accepted virtual_exit_accepted
      call_pre_accepted call_end_accepted)

interpretation virtual: logged "virtual_step c d" virtual_audit "[]" rc_stack c d virtual_serials virtual_lanes virtual_wf
  for c d
  by unfold_locales (auto dest: virtual_refused virtual_accepted simp: virtual_accepts_def virtual_wf_def)

section \<open>Properties\<close>

definition expected_call :: "virtual_frame \<Rightarrow> nat \<Rightarrow> call_state" where
  "expected_call f i =
     (if i < unat (vf_returned f) then CallHasReturned
      else if i > unat (vf_returned f) then CallAbsent
      else if vf_stage f = CallActive then CallIsActive
      else if vf_stage f = CallException then CallHasFailed else CallAbsent)"

definition call_fits :: "nat \<Rightarrow> vcall \<Rightarrow> bool" where
  "call_fits i c \<longleftrightarrow> (if vc_state c = CallAbsent then c = no_call else started_call i c)"

definition virtual_frame_ok :: "virtual_frame \<Rightarrow> bool" where
  "virtual_frame_ok f \<longleftrightarrow> virtual_claim (vf_entry f) \<and> length (vf_calls f) = 3 \<and> unat (vf_returned f) \<le> 3
     \<and> (vf_stage f \<in> {CallActive, CallException} \<longrightarrow> unat (vf_returned f) < 3)
     \<and> (vf_stage f = VirtualEntered \<longrightarrow> vf_returned f = 0)
     \<and> (\<forall>i < 3. vc_state (vf_calls f ! i) = expected_call f i \<and> call_fits i (vf_calls f ! i))"

lemma started_call_state [simp]: "started_call i (c\<lparr>vc_state := x\<rparr>) = started_call i c"
  by (simp add: started_call_def)

lemma fresh_virtual_ok: "fresh_virtual_frame g st \<Longrightarrow> virtual_frame_ok g"
  unfolding fresh_virtual_frame_def
  by (erule conjE, erule ssubst)
    (simp add: new_virtual_frame_def virtual_frame_ok_def expected_call_def call_fits_def no_call_def)

lemma legal_call_pre_ok:
  assumes "legal_call CallPreEvent f g" "virtual_frame_ok f"
  shows "virtual_frame_ok g \<and> vf_stage g = CallActive"
proof -
  let ?i = "unat (vf_returned f)"
  obtain c where g: "g = f\<lparr>vf_calls := (vf_calls f)[?i := c], vf_stage := CallActive\<rparr>"
    and c: "?i < 3" "started_call ?i c" "vc_state c = CallIsActive"
    using assms(1) by (auto simp: Let_def)
  then show ?thesis using assms(2)
    by (auto simp: virtual_frame_ok_def expected_call_def call_fits_def nth_list_update)
qed

lemma legal_call_end_ok:
  assumes "k = CallReturnEvent \<or> k = CallExceptionEvent" "legal_call k f g" "virtual_frame_ok f"
  shows "virtual_frame_ok g"
proof -
  let ?i = "unat (vf_returned f)" and ?r = "k = CallReturnEvent"
  let ?s = "if ?r then CallHasReturned else CallHasFailed"
  have g: "g = f\<lparr>vf_calls := (vf_calls f)[?i := (vf_calls f ! ?i)\<lparr>vc_state := ?s\<rparr>],
      vf_stage := (if ?r then CallReturned else CallException),
      vf_returned := (if ?r then vf_returned f + 1 else vf_returned f)\<rparr>"
    and c: "vf_stage f = CallActive" "?i < 3" "vc_state (vf_calls f ! ?i) = CallIsActive"
    using assms(1,2) by (auto simp: Let_def)
  have n: "unat (vf_returned f + 1) = ?i + 1" using c(2) by (intro unat_succ) simp
  have at: "vc_state (vf_calls f ! j) = expected_call f j" "call_fits j (vf_calls f ! j)" if "j < 3" for j
    using assms(3) that by (simp_all add: virtual_frame_ok_def)
  have "vc_state (vf_calls g ! j) = expected_call g j \<and> call_fits j (vf_calls g ! j)" if j: "j < 3" for j
  proof (cases "j = ?i")
    case True
    then have "vf_calls g ! j = (vf_calls f ! j)\<lparr>vc_state := ?s\<rparr>" using assms(3) c(2)
      by (simp add: g virtual_frame_ok_def)
    moreover have "started_call j (vf_calls f ! j)" using at(2) [OF j] c(3) True by (simp add: call_fits_def)
    moreover have "expected_call g j = ?s" using True n assms(1) by (auto simp: g expected_call_def)
    ultimately show ?thesis by (simp add: call_fits_def)
  next
    case False
    then have "vf_calls g ! j = vf_calls f ! j" by (simp add: g)
    moreover have "expected_call g j = expected_call f j" using False n c(1) by (auto simp: g expected_call_def)
    ultimately show ?thesis using at [OF j] by simp
  qed
  moreover have "unat (vf_returned g) \<le> 3" using c(2) n by (simp add: g)
  moreover have "vf_entry g = vf_entry f" "length (vf_calls g) = length (vf_calls f)"
    "vf_stage g \<in> {CallReturned, CallException}" "vf_stage g = CallException \<longrightarrow> unat (vf_returned g) < 3"
    using c(2) assms(1) by (auto simp: g)
  ultimately show ?thesis using assms(3) c(1) unfolding virtual_frame_ok_def by auto
qed

lemma legal_call_ok: "legal_call k f g \<Longrightarrow> virtual_frame_ok f \<Longrightarrow> virtual_frame_ok g"
  using legal_call_pre_ok [of f g] legal_call_end_ok [of k f g]
  by (cases k) (simp_all del: legal_call.simps(1-3))

definition virtual_run :: "nat \<Rightarrow> nat \<Rightarrow> u64 \<Rightarrow> u64 \<Rightarrow> virtual_call list \<Rightarrow> virtual_model" where
  "virtual_run c d epoch detail calls =
     run_events (\<lambda>m call. fst (virtual_step c d m call)) (new_virtual epoch detail) calls"

lemma virtual_run_ok: "virtual.log_ok c d (virtual_run c d epoch detail calls)"
proof -
  have "virtual.next_record c d = (\<lambda>m call. fst (virtual_step c d m call))"
    by (simp add: fun_eq_iff virtual.next_record_def)
  then show ?thesis
    unfolding virtual_run_def using virtual.log_ok_run [OF virtual.log_ok_new, of "new_virtual epoch detail" c d calls]
    by (simp add: new_virtual_def virtual_wf_def)
qed

lemma virtual_run_frames:
  assumes "e \<in> set (rc_events (virtual_run c d epoch detail calls))"
  shows "virtual_frame_ok (sn_frame e)
     \<and> (sn_kind e = VirtualNormalExit \<longrightarrow> vf_stage (sn_frame e) = CallReturned \<and> vf_returned (sn_frame e) = 3)
     \<and> (sn_kind e = CallPreEvent \<longrightarrow> vf_stage (sn_frame e) = CallActive)"
proof -
  let ?m = "virtual_run c d epoch detail calls"
  have r: "replay virtual_audit [] (rc_events ?m) = Some (rc_stack ?m)"
    using virtual_run_ok [of c d epoch detail calls] by (simp add: virtual.log_ok_def)
  have exit_fields: "legal_call VirtualNormalExit f g \<Longrightarrow> vf_stage g = CallReturned \<and> vf_returned g = 3" for f g
    by simp
  have "\<forall>e \<in> set (rc_events ?m). virtual_frame_ok (sn_frame e)
     \<and> (sn_kind e = VirtualNormalExit \<longrightarrow> vf_stage (sn_frame e) = CallReturned \<and> vf_returned (sn_frame e) = 3)
     \<and> (sn_kind e = CallPreEvent \<longrightarrow> vf_stage (sn_frame e) = CallActive)"
    by (rule conjunct2 [OF snapshot_frames [OF r [unfolded virtual_audit_def]]])
      (auto simp del: legal_call.simps(1-4) intro: legal_call_ok fresh_virtual_ok
        dest: legal_call_pre_ok exit_fields)
  then show ?thesis using assms by blast
qed

text \<open>The log of virtual bodies is sound in the same sense, over three lanes of serials; a normal exit
  certifies three calls that returned, in order, each from its own call site, and every event belongs to
  an entry whose claimed consumer child is active, indirect, started from the expected call site
  towards this body, with the operands the entry repeats.\<close>

theorem virtual_log_sound:
  "let m = virtual_run c d epoch detail calls in
     replay virtual_audit [] (rc_events m) = Some (rc_stack m)
     \<and> length (rc_events m) \<le> c \<and> length (rc_stack m) \<le> d
     \<and> sorted_wrt (list_all2 (<)) (List.map_filter virtual_serials (rc_events m))
     \<and> list_all (\<lambda>e. let c = ve_child (vf_entry (sn_frame e)) in
          ch_state c = ChildIsActive \<and> ch_indirect c \<and> ch_caller c = kVirtualCaller \<and> ch_target c = kVirtualTarget
          \<and> ve_r3 (vf_entry (sn_frame e)) = ch_r3 c \<and> ve_f1 (vf_entry (sn_frame e)) = ch_f1 c) (rc_events m)
     \<and> list_all (\<lambda>f. map vc_state (vf_calls f) = replicate 3 CallHasReturned
          \<and> map vc_caller (vf_calls f) = kCallReturnLr
          \<and> map vc_target (vf_calls f) = map (ucast \<circ> vc_ctr) (vf_calls f))
        (map sn_frame (filter (\<lambda>e. sn_kind e = VirtualNormalExit) (rc_events m)))"
proof -
  let ?m = "virtual_run c d epoch detail calls"
  have exits: "map vc_state (vf_calls f) = replicate 3 CallHasReturned \<and> map vc_caller (vf_calls f) = kCallReturnLr
      \<and> map vc_target (vf_calls f) = map (ucast \<circ> vc_ctr) (vf_calls f)"
    if ok: "virtual_frame_ok f" "vf_stage f = CallReturned" "vf_returned f = 3" for f
  proof -
    obtain a b c where abc: "vf_calls f = [a, b, c]"
      using ok by (auto simp: virtual_frame_ok_def length_Suc_conv numeral_3_eq_3)
    have "vc_state (vf_calls f ! i) = CallHasReturned \<and> started_call i (vf_calls f ! i)" if "i < 3" for i
      using ok that by (simp add: virtual_frame_ok_def expected_call_def call_fits_def)
    from this [of 0] this [of 1] this [of 2] show ?thesis
      by (auto simp: abc started_call_def kCallReturnLr_def numeral_3_eq_3)
  qed
  have "list_all (\<lambda>e. let c = ve_child (vf_entry (sn_frame e)) in
          ch_state c = ChildIsActive \<and> ch_indirect c \<and> ch_caller c = kVirtualCaller \<and> ch_target c = kVirtualTarget
          \<and> ve_r3 (vf_entry (sn_frame e)) = ch_r3 c \<and> ve_f1 (vf_entry (sn_frame e)) = ch_f1 c) (rc_events ?m)"
    using virtual_run_frames [of _ c d epoch detail calls]
    by (auto simp: list_all_iff Let_def virtual_frame_ok_def virtual_claim_def virtual_parent_ok_def)
  moreover have "list_all (\<lambda>f. map vc_state (vf_calls f) = replicate 3 CallHasReturned
          \<and> map vc_caller (vf_calls f) = kCallReturnLr
          \<and> map vc_target (vf_calls f) = map (ucast \<circ> vc_ctr) (vf_calls f))
        (map sn_frame (filter (\<lambda>e. sn_kind e = VirtualNormalExit) (rc_events ?m)))"
    using virtual_run_frames [of _ c d epoch detail calls] exits by (auto simp: list_all_iff simp del: list.map)
  ultimately show ?thesis using virtual_run_ok [of c d epoch detail calls]
    by (simp add: Let_def virtual.log_ok_def virtual.entered_def)
qed

text \<open>The entry that continues an observed child call: the frame's entry and child, repeated.\<close>

definition entry_continuing :: "invocation_id \<Rightarrow> consumer_frame \<Rightarrow> virtual_entry" where
  "entry_continuing iv f = (let c = hd (cf_children f) in
     \<lparr>ve_invocation = iv, ve_parent = cf_entry f, ve_child = c, ve_target = kVirtualTarget,
      ve_caller = kVirtualCaller, ve_r3 = ch_r3 c, ve_f1 = ch_f1 c\<rparr>)"

text \<open>The two records compose: whatever the consumer record logged as the start of its first child, if
  that child's target is the virtual body, then the entry that repeats the logged frame passes the
  identity test of any virtual record whose lanes it fits, so it is admitted whenever there is room.\<close>

theorem virtual_admits_logged_child:
  assumes "e \<in> set (rc_events (consumer_run c d epoch router calls))" "sn_kind e = ChildPreEvent"
    and "cf_returned (sn_frame e) = 0" "ch_target (hd (cf_children (sn_frame e))) = kVirtualTarget"
    and "Writable m" "virtual_lanes_ok m (entry_continuing iv (sn_frame e))"
    and "length (rc_stack m) < depth" "length (rc_events m) < capacity"
  shows "snd (virtual_enter capacity depth m (entry_continuing iv (sn_frame e)))"
proof -
  let ?f = "sn_frame e" and ?e = "entry_continuing iv (sn_frame e)"
  have ok: "consumer_frame_ok ?f" "cf_stage ?f = ChildActive"
    using consumer_run_frames [OF assms(1)] assms(2) by blast+
  then have "ch_state (cf_children ?f ! 0) = ChildIsActive" "child_fits 0 (cf_children ?f ! 0)"
    "admissible_entry (cf_entry ?f)" "cf_children ?f \<noteq> []"
    using assms(3) by (auto simp: consumer_frame_ok_def expected_state_def)
  then have "virtual_parent_ok ?e" using assms(4)
    by (auto simp: virtual_parent_ok_def entry_continuing_def Let_def hd_conv_nth child_fits_def started_child_def
        admissible_entry_def kChildReturnLr_def kVirtualCaller_def)
  then have "first_failure [(virtual_lanes_ok m ?e \<and> virtual_parent_ok ?e, VirtualIdentity),
      (length (rc_stack m) \<noteq> depth, VirtualDepth), (Room capacity m, VirtualCapacity)] = None"
    using assms(6-8) by (simp add: Room_def)
  then show ?thesis using assms(5) by (simp add: virtual_enter_def Let_def attempt_def)
qed

definition example_consumer_calls :: "consumer_call list" where
  "example_consumer_calls =
     [CEnter \<lparr>ce_invocation = \<lparr>iv_thread = 5, iv_serial = 1\<rparr>, ce_router = \<lparr>iv_thread = 6, iv_serial = 9\<rparr>,
        ce_update = \<lparr>ub_phase = 0, ub_thread = 0, ub_native = 0\<rparr>, ce_target = kConsumerTarget,
        ce_caller = kConsumerCaller, ce_r3 = 1, ce_f1 = 2\<rparr>,
      CBranch \<lparr>iv_thread = 5, iv_serial = 1\<rparr> 1,
      CChildPre \<lparr>iv_thread = 5, iv_serial = 1\<rparr> 0 0x822C78C0 77 78 0x8258D1A0]"

theorem virtual_admits_logged_child_witness:
  "snd (virtual_enter 10 2 (new_virtual 3 0) (entry_continuing \<lparr>iv_thread = 3, iv_serial = 4\<rparr>
     (sn_frame (last (rc_events (consumer_run 10 2 5 0 example_consumer_calls))))))"
proof (rule virtual_admits_logged_child)
  let ?es = "rc_events (consumer_run 10 2 5 0 example_consumer_calls)"
  have "length ?es = 3" by code_simp
  then show "last ?es \<in> set ?es" by (intro last_in_set) auto
  show "sn_kind (last ?es) = ChildPreEvent" by code_simp
  show "cf_returned (sn_frame (last ?es)) = 0" by code_simp
  show "ch_target (hd (cf_children (sn_frame (last ?es)))) = kVirtualTarget" by code_simp
  show "Writable (new_virtual 3 0)" by code_simp
  show "virtual_lanes_ok (new_virtual 3 0) (entry_continuing \<lparr>iv_thread = 3, iv_serial = 4\<rparr> (sn_frame (last ?es)))"
    by code_simp
qed (simp_all add: new_virtual_def)

end
