(* ===== verification/WorkEmission.thy ===== *)
theory WorkEmission
  imports VirtualDetail
begin

text \<open>
  The record of one work body: an entry gate, a descending scalar loop with optional cleanups, then, by a
  mode gate, an ascending job loop closed by one wait, or a descending vector loop. The entries are
  kept in an array of their own and the events hold only the operands of their step, so the reader of
  the log, \<open>work_audit\<close>, recomputes the frames.
\<close>

section \<open>The data\<close>

definition kBody :: u32 where "kBody = 0x82588490"
definition kTail :: u32 where "kTail = 0x82741010"
definition kWorkCaller :: u64 where "kWorkCaller = 0x8258D1E8"
definition kScalarLr :: u64 where "kScalarLr = 0x825885AC"
definition kCleanupLr :: u64 where "kCleanupLr = 0x825885CC"
definition kJobLr :: u64 where "kJobLr = 0x8258866C"
definition kWaitLr :: u64 where "kWaitLr = 0x82588694"
definition kVectorLr :: u64 where "kVectorLr = 0x825886F4"

record work_entry =
  we_invocation :: invocation_id
  we_virtual :: virtual_entry
  we_call :: vcall
  we_target :: u32
  we_caller :: u64
  we_r3 :: u64
  we_f1 :: u64

record work_payload =
  py_fields :: "u64 list"
  py_vector :: "u32 list"

datatype work_kind = WorkEntry | MainGateEvent | ScalarCountEvent | ScalarPreEvent | ScalarReturnEvent
  | ScalarExceptionEvent | CleanupPreEvent | CleanupReturnEvent | CleanupExceptionEvent | ModeGateEvent
  | JobInitialBoundEvent | JobPreEvent | JobReturnEvent | JobExceptionEvent | JobReloadBoundEvent
  | WaitPreEvent | WaitReturnEvent | WaitExceptionEvent | VectorCountEvent | VectorPreEvent
  | VectorReturnEvent | VectorExceptionEvent | WorkNormalExit | WorkExceptionalExit

record work_event =
  wv_invocation :: invocation_id
  wv_index :: nat
  wv_kind :: work_kind
  wv_payload :: work_payload

datatype work_stage = WorkEntered | AtScalarCount | ScalarReady | ScalarActive | CleanupRequired
  | CleanupActive | JobInitialBound | JobReady | JobActive | JobReloadBound | WaitRequired | WaitActive
  | AtVectorCount | VectorReady | VectorActive | WorkComplete | EmissionException

datatype work_fault = WorkIdentity | WorkTransition | WorkEntryCapacity | WorkEventCapacity | WorkDepth

record work_frame =
  wf_index :: nat
  wf_parent :: invocation_id
  wf_stage :: work_stage
  wf_main_observed :: bool
  wf_scalar_observed :: bool
  wf_mode_observed :: bool
  wf_bound_observed :: bool
  wf_vector_observed :: bool
  wf_main :: u64
  wf_mode :: u64
  wf_scalar_count :: u64
  wf_scalar_upper :: u64
  wf_scalar_index :: u64
  wf_scalar_return :: u64
  wf_next_job :: u64
  wf_job_bound :: u64
  wf_job_return :: u64
  wf_vector_count :: u64
  wf_next_vector :: u64
  wf_scalars :: u32
  wf_cleanups :: u32
  wf_jobs :: u32
  wf_waits :: u32
  wf_vectors :: u32

record work_model = "(work_frame, work_event, work_fault) record_core" +
  wm_entries :: "work_entry list"
  wm_epoch :: u64
  wm_virtual :: u64
  wm_detail :: u64
  wm_router :: u64
  wm_last :: u64
  wm_last_virtual :: u64
  wm_last_detail :: u64
  wm_last_router :: u64

definition new_work :: "u64 \<Rightarrow> u64 \<Rightarrow> work_model" where
  "new_work epoch parent = \<lparr>rc_frozen = False, rc_fault = (if epoch = 0 then Some WorkIdentity else None),
     rc_events = [], rc_stack = [], wm_entries = [], wm_epoch = epoch, wm_virtual = parent, wm_detail = 0,
     wm_router = 0, wm_last = 0, wm_last_virtual = 0, wm_last_detail = 0, wm_last_router = 0\<rparr>"

section \<open>The methods\<close>

definition no_vector :: "u32 list" where "no_vector = replicate 4 0"

text \<open>A payload whose first fields are given, the others zero.\<close>

definition payload_of :: "u64 list \<Rightarrow> work_payload" where
  "payload_of xs = \<lparr>py_fields = xs @ replicate (10 - length xs) 0, py_vector = no_vector\<rparr>"

definition One :: "u64 \<Rightarrow> work_payload" where "One v = payload_of [v]"

definition invocation_of :: "work_model \<Rightarrow> work_frame \<Rightarrow> invocation_id" where
  "invocation_of m f = we_invocation (wm_entries m ! wf_index f)"

definition new_work_frame :: "nat \<Rightarrow> invocation_id \<Rightarrow> work_frame" where
  "new_work_frame index parent = \<lparr>wf_index = index, wf_parent = parent, wf_stage = WorkEntered,
     wf_main_observed = False, wf_scalar_observed = False, wf_mode_observed = False, wf_bound_observed = False,
     wf_vector_observed = False, wf_main = 0, wf_mode = 0, wf_scalar_count = 0, wf_scalar_upper = 0,
     wf_scalar_index = 0, wf_scalar_return = 0, wf_next_job = 0, wf_job_bound = 0, wf_job_return = 0,
     wf_vector_count = 0, wf_next_vector = 0, wf_scalars = 0, wf_cleanups = 0, wf_jobs = 0, wf_waits = 0,
     wf_vectors = 0\<rparr>"

definition work_emit :: "work_kind \<Rightarrow> work_payload \<Rightarrow> work_frame \<Rightarrow> work_frame list \<Rightarrow> work_model \<Rightarrow> work_model" where
  "work_emit k p f st m =
     logged_change \<lparr>wv_invocation = invocation_of m f, wv_index = wf_index f, wv_kind = k, wv_payload = p\<rparr> st m"

definition work_lanes_ok :: "work_model \<Rightarrow> work_entry \<Rightarrow> bool" where
  "work_lanes_ok m e \<longleftrightarrow> (let iv = we_invocation e; v = we_virtual e; p = ve_parent v in
     \<not> (iv_thread iv \<noteq> wm_epoch m \<or> iv_serial iv = 0 \<or> iv_serial iv \<le> wm_last m
        \<or> iv_thread (ve_invocation v) = 0 \<or> (wm_virtual m \<noteq> 0 \<and> iv_thread (ve_invocation v) \<noteq> wm_virtual m)
        \<or> iv_serial (ve_invocation v) = 0 \<or> iv_serial (ve_invocation v) \<le> wm_last_virtual m
        \<or> iv_thread (ce_invocation p) = 0 \<or> (wm_detail m \<noteq> 0 \<and> iv_thread (ce_invocation p) \<noteq> wm_detail m)
        \<or> iv_serial (ce_invocation p) = 0 \<or> iv_serial (ce_invocation p) \<le> wm_last_detail m
        \<or> iv_thread (ce_router p) = 0 \<or> (wm_router m \<noteq> 0 \<and> iv_thread (ce_router p) \<noteq> wm_router m)
        \<or> iv_serial (ce_router p) = 0 \<or> iv_serial (ce_router p) \<le> wm_last_router m))"

definition work_parent_ok :: "work_entry \<Rightarrow> bool" where
  "work_parent_ok e \<longleftrightarrow> (let v = we_virtual e; p = ve_parent v; c = ve_child v; call = we_call e; b = ce_update p in
     \<not> ((\<not> unbound_update b \<and> \<not> bound_update b)
        \<or> ce_target p \<noteq> kConsumerTarget \<or> ce_caller p \<noteq> kConsumerCaller
        \<or> ch_state c \<noteq> ChildIsActive \<or> \<not> ch_indirect c \<or> ch_caller c \<noteq> kVirtualCaller
        \<or> ch_target c \<noteq> kVirtualTarget \<or> (ucast (ch_ctr c) :: u32) \<noteq> kVirtualTarget
        \<or> ve_target v \<noteq> kVirtualTarget \<or> ve_caller v \<noteq> kVirtualCaller
        \<or> ve_r3 v \<noteq> ch_r3 c \<or> ve_f1 v \<noteq> ch_f1 c
        \<or> vc_state call \<noteq> CallIsActive \<or> vc_caller call \<noteq> kWorkCaller \<or> vc_target call \<noteq> kTail
        \<or> (ucast (vc_ctr call) :: u32) \<noteq> kTail \<or> we_target e \<noteq> kBody \<or> we_caller e \<noteq> kWorkCaller
        \<or> we_r3 e \<noteq> vc_r3 call \<or> we_f1 e \<noteq> vc_f1 call))"

record work_limits =
  wl_entries :: nat
  wl_events :: nat
  wl_depth :: nat

definition work_enter :: "work_limits \<Rightarrow> work_model \<Rightarrow> work_entry \<Rightarrow> work_model \<times> bool" where
  "work_enter l m e =
     (let v = we_virtual e; p = ve_parent v;
          parent = (case rc_stack m of [] \<Rightarrow> no_invocation | f # _ \<Rightarrow> invocation_of m f);
          f = new_work_frame (length (wm_entries m)) parent in
      attempt [(work_lanes_ok m e \<and> work_parent_ok e, WorkIdentity), (length (rc_stack m) \<noteq> wl_depth l, WorkDepth),
         (length (wm_entries m) \<noteq> wl_entries l, WorkEntryCapacity), (Room (wl_events l) m, WorkEventCapacity)] m
        (work_emit WorkEntry (payload_of []) f (f # rc_stack m)
          (m\<lparr>wm_entries := wm_entries m @ [e],
             wm_virtual := (if wm_virtual m = 0 then iv_thread (ve_invocation v) else wm_virtual m),
             wm_detail := (if wm_detail m = 0 then iv_thread (ce_invocation p) else wm_detail m),
             wm_router := (if wm_router m = 0 then iv_thread (ce_router p) else wm_router m),
             wm_last := iv_serial (we_invocation e), wm_last_virtual := iv_serial (ve_invocation v),
             wm_last_detail := iv_serial (ce_invocation p), wm_last_router := iv_serial (ce_router p)\<rparr>)))"

text \<open>\<open>Top\<close>, the tests of the method and \<open>Room\<close>, the changed innermost frame and its event.\<close>

definition work_top :: "work_limits \<Rightarrow> invocation_id \<Rightarrow> (work_frame \<Rightarrow> bool) \<Rightarrow> (work_frame \<Rightarrow> work_kind)
    \<Rightarrow> work_payload \<Rightarrow> (work_frame \<Rightarrow> work_frame) \<Rightarrow> work_model \<Rightarrow> work_model \<times> bool" where
  "work_top l iv test k p upd m =
     on_top (\<lambda>f. invocation_of m f = iv) WorkIdentity
       (\<lambda>f. [(test f, WorkTransition), (Room (wl_events l) m, WorkEventCapacity)])
       (\<lambda>f fs. work_emit (k f) p f (upd f # fs) m) m"

definition work_at :: "work_limits \<Rightarrow> invocation_id \<Rightarrow> work_stage \<Rightarrow> (work_frame \<Rightarrow> bool) \<Rightarrow> work_kind
    \<Rightarrow> work_payload \<Rightarrow> (work_frame \<Rightarrow> work_frame) \<Rightarrow> work_model \<Rightarrow> work_model \<times> bool" where
  "work_at l iv stage test k p upd = work_top l iv (\<lambda>f. wf_stage f = stage \<and> test f) (\<lambda>_. k) p upd"

definition work_end :: "work_limits \<Rightarrow> invocation_id \<Rightarrow> work_stage \<Rightarrow> work_stage \<Rightarrow> work_kind \<Rightarrow> work_model
    \<Rightarrow> work_model \<times> bool" where
  "work_end l iv active following k =
     work_at l iv active (\<lambda>_. True) k (payload_of []) (\<lambda>f. f\<lparr>wf_stage := following\<rparr>)"

definition main_gate :: "work_limits \<Rightarrow> work_model \<Rightarrow> invocation_id \<Rightarrow> u64 \<Rightarrow> work_model \<times> bool" where
  "main_gate l m iv r7 =
     work_at l iv WorkEntered (\<lambda>_. r7 \<le> 255) MainGateEvent (One r7)
       (\<lambda>f. f\<lparr>wf_main_observed := True, wf_main := r7,
              wf_stage := (if r7 \<noteq> 0 then AtScalarCount else WorkComplete)\<rparr>) m"

definition scalar_count :: "work_limits \<Rightarrow> work_model \<Rightarrow> invocation_id \<Rightarrow> u64 \<Rightarrow> work_model \<times> bool" where
  "scalar_count l m iv r9 =
     work_at l iv AtScalarCount (\<lambda>_. r9 \<le> 65535) ScalarCountEvent (One r9)
       (\<lambda>f. f\<lparr>wf_scalar_observed := True, wf_scalar_count := r9, wf_scalar_upper := r9, wf_stage := ScalarReady\<rparr>) m"

definition scalar_pre :: "work_limits \<Rightarrow> work_model \<Rightarrow> invocation_id \<Rightarrow> u64 \<Rightarrow> u64 \<Rightarrow> u64 \<Rightarrow> u64 \<Rightarrow> u64 \<Rightarrow> u64
    \<Rightarrow> work_model \<times> bool" where
  "scalar_pre l m iv index r3 f1 f2 ctr lr =
     work_at l iv ScalarReady (\<lambda>f. \<not> (index \<ge> wf_scalar_upper f \<or> lr \<noteq> kScalarLr)) ScalarPreEvent
       (payload_of [lr, index, r3, f1, f2, ctr])
       (\<lambda>f. f\<lparr>wf_scalar_index := index, wf_scalar_upper := index, wf_scalars := wf_scalars f + 1,
              wf_stage := ScalarActive\<rparr>) m"

definition scalar_return :: "work_limits \<Rightarrow> work_model \<Rightarrow> invocation_id \<Rightarrow> u64 \<Rightarrow> work_model \<times> bool" where
  "scalar_return l m iv r3 =
     work_at l iv ScalarActive (\<lambda>_. True) ScalarReturnEvent (One r3)
       (\<lambda>f. f\<lparr>wf_scalar_return := r3,
              wf_stage := (if (ucast r3 :: u8) = 0 then CleanupRequired else ScalarReady)\<rparr>) m"

definition cleanup_pre :: "work_limits \<Rightarrow> work_model \<Rightarrow> invocation_id \<Rightarrow> u64 \<Rightarrow> u64 \<Rightarrow> u64 \<Rightarrow> work_model \<times> bool" where
  "cleanup_pre l m iv r3 ctr lr =
     work_at l iv CleanupRequired (\<lambda>_. lr = kCleanupLr) CleanupPreEvent (payload_of [lr, r3, ctr])
       (\<lambda>f. f\<lparr>wf_cleanups := wf_cleanups f + 1, wf_stage := CleanupActive\<rparr>) m"

definition mode_gate :: "work_limits \<Rightarrow> work_model \<Rightarrow> invocation_id \<Rightarrow> u64 \<Rightarrow> work_model \<times> bool" where
  "mode_gate l m iv r10 =
     work_at l iv ScalarReady (\<lambda>_. r10 \<le> 255) ModeGateEvent (One r10)
       (\<lambda>f. f\<lparr>wf_mode_observed := True, wf_mode := r10,
              wf_stage := (if r10 \<noteq> 0 then AtVectorCount else JobInitialBound)\<rparr>) m"

text \<open>The low word of a bound as the signed number that it is compared as.\<close>

definition signed_bound :: "u64 \<Rightarrow> int" where
  "signed_bound r11 = (if and r11 0x80000000 \<noteq> 0 then uint r11 - 0x100000000 else uint r11)"

definition job_bound :: "work_limits \<Rightarrow> work_model \<Rightarrow> invocation_id \<Rightarrow> u64 \<Rightarrow> work_model \<times> bool" where
  "job_bound l m iv r11 =
     work_top l iv
       (\<lambda>f. \<not> ((wf_stage f \<noteq> JobInitialBound \<and> wf_stage f \<noteq> JobReloadBound) \<or> r11 > 0xFFFFFFFF))
       (\<lambda>f. if wf_stage f = JobInitialBound then JobInitialBoundEvent else JobReloadBoundEvent) (One r11)
       (\<lambda>f. f\<lparr>wf_bound_observed := True, wf_job_bound := r11,
              wf_stage := (if signed_bound r11 > 0 \<and> uint (wf_next_job f) < signed_bound r11
                           then JobReady else WaitRequired)\<rparr>) m"

definition job_pre :: "work_limits \<Rightarrow> work_model \<Rightarrow> invocation_id \<Rightarrow> u64 \<Rightarrow> u64 list \<Rightarrow> u32 \<Rightarrow> u64
    \<Rightarrow> work_model \<times> bool" where
  "job_pre l m iv index regs descriptor lr =
     work_at l iv JobReady (\<lambda>f. \<not> (index \<noteq> wf_next_job f \<or> lr \<noteq> kJobLr)) JobPreEvent
       (payload_of ([lr, index] @ regs @ [ucast descriptor]))
       (\<lambda>f. f\<lparr>wf_jobs := wf_jobs f + 1, wf_stage := JobActive\<rparr>) m"

definition job_return :: "work_limits \<Rightarrow> work_model \<Rightarrow> invocation_id \<Rightarrow> u64 \<Rightarrow> work_model \<times> bool" where
  "job_return l m iv r3 =
     work_at l iv JobActive (\<lambda>_. True) JobReturnEvent (One r3)
       (\<lambda>f. f\<lparr>wf_job_return := r3, wf_next_job := wf_next_job f + 1, wf_stage := JobReloadBound\<rparr>) m"

definition wait_pre :: "work_limits \<Rightarrow> work_model \<Rightarrow> invocation_id \<Rightarrow> u64 \<Rightarrow> u64 \<Rightarrow> u64 \<Rightarrow> u64 \<Rightarrow> work_model \<times> bool" where
  "wait_pre l m iv r3 r4 r5 lr =
     work_at l iv WaitRequired (\<lambda>f. \<not> (r3 \<noteq> wf_job_bound f \<or> r5 \<noteq> 1 \<or> lr \<noteq> kWaitLr)) WaitPreEvent
       (payload_of [lr, r3, r4, r5]) (\<lambda>f. f\<lparr>wf_waits := wf_waits f + 1, wf_stage := WaitActive\<rparr>) m"

definition vector_count :: "work_limits \<Rightarrow> work_model \<Rightarrow> invocation_id \<Rightarrow> u64 \<Rightarrow> work_model \<times> bool" where
  "vector_count l m iv r10 =
     work_at l iv AtVectorCount (\<lambda>_. r10 \<le> 65535) VectorCountEvent (One r10)
       (\<lambda>f. f\<lparr>wf_vector_observed := True, wf_vector_count := r10,
              wf_next_vector := (if r10 \<noteq> 0 then r10 - 1 else 0),
              wf_stage := (if r10 \<noteq> 0 then VectorReady else WorkComplete)\<rparr>) m"

definition vector_pre :: "work_limits \<Rightarrow> work_model \<Rightarrow> invocation_id \<Rightarrow> u64 \<Rightarrow> u64 \<Rightarrow> u64 \<Rightarrow> u64 \<Rightarrow> u32 list \<Rightarrow> u64
    \<Rightarrow> work_model \<times> bool" where
  "vector_pre l m iv index r3 f1 ctr v1 lr =
     work_at l iv VectorReady (\<lambda>f. \<not> (index \<noteq> wf_next_vector f \<or> lr \<noteq> kVectorLr)) VectorPreEvent
       ((payload_of [lr, index, r3, f1, ctr])\<lparr>py_vector := v1\<rparr>)
       (\<lambda>f. f\<lparr>wf_vectors := wf_vectors f + 1, wf_stage := VectorActive\<rparr>) m"

definition vector_return :: "work_limits \<Rightarrow> work_model \<Rightarrow> invocation_id \<Rightarrow> work_model \<times> bool" where
  "vector_return l m iv =
     work_at l iv VectorActive (\<lambda>_. True) VectorReturnEvent (payload_of [])
       (\<lambda>f. if wf_next_vector f \<noteq> 0 then f\<lparr>wf_next_vector := wf_next_vector f - 1, wf_stage := VectorReady\<rparr>
            else f\<lparr>wf_stage := WorkComplete\<rparr>) m"

definition work_exit :: "work_limits \<Rightarrow> work_model \<Rightarrow> invocation_id \<Rightarrow> bool \<Rightarrow> work_model \<times> bool" where
  "work_exit l m iv normal =
     on_top (\<lambda>f. invocation_of m f = iv) WorkIdentity
       (\<lambda>f. [(\<not> (normal \<and> wf_stage f \<noteq> WorkComplete), WorkTransition), (Room (wl_events l) m, WorkEventCapacity)])
       (\<lambda>f fs. work_emit (if normal then WorkNormalExit else WorkExceptionalExit) (payload_of []) f fs m) m"

datatype work_call =
    WEnter work_entry
  | WMainGate invocation_id u64
  | WScalarCount invocation_id u64
  | WScalarPre invocation_id u64 u64 u64 u64 u64 u64
  | WScalarReturn invocation_id u64
  | WScalarException invocation_id
  | WCleanupPre invocation_id u64 u64 u64
  | WCleanupReturn invocation_id
  | WCleanupException invocation_id
  | WModeGate invocation_id u64
  | WJobBound invocation_id u64
  | WJobPre invocation_id u64 "u64 list" u32 u64
  | WJobReturn invocation_id u64
  | WJobException invocation_id
  | WWaitPre invocation_id u64 u64 u64 u64
  | WWaitReturn invocation_id
  | WWaitException invocation_id
  | WVectorCount invocation_id u64
  | WVectorPre invocation_id u64 u64 u64 u64 "u32 list" u64
  | WVectorReturn invocation_id
  | WVectorException invocation_id
  | WExit invocation_id bool
  | WFreeze

fun work_step :: "work_limits \<Rightarrow> work_model \<Rightarrow> work_call \<Rightarrow> work_model \<times> bool" where
  "work_step l m (WEnter e) = work_enter l m e"
| "work_step l m (WMainGate iv r7) = main_gate l m iv r7"
| "work_step l m (WScalarCount iv r9) = scalar_count l m iv r9"
| "work_step l m (WScalarPre iv index r3 f1 f2 ctr lr) = scalar_pre l m iv index r3 f1 f2 ctr lr"
| "work_step l m (WScalarReturn iv r3) = scalar_return l m iv r3"
| "work_step l m (WScalarException iv) = work_end l iv ScalarActive EmissionException ScalarExceptionEvent m"
| "work_step l m (WCleanupPre iv r3 ctr lr) = cleanup_pre l m iv r3 ctr lr"
| "work_step l m (WCleanupReturn iv) = work_end l iv CleanupActive ScalarReady CleanupReturnEvent m"
| "work_step l m (WCleanupException iv) = work_end l iv CleanupActive EmissionException CleanupExceptionEvent m"
| "work_step l m (WModeGate iv r10) = mode_gate l m iv r10"
| "work_step l m (WJobBound iv r11) = job_bound l m iv r11"
| "work_step l m (WJobPre iv index regs descriptor lr) = job_pre l m iv index regs descriptor lr"
| "work_step l m (WJobReturn iv r3) = job_return l m iv r3"
| "work_step l m (WJobException iv) = work_end l iv JobActive EmissionException JobExceptionEvent m"
| "work_step l m (WWaitPre iv r3 r4 r5 lr) = wait_pre l m iv r3 r4 r5 lr"
| "work_step l m (WWaitReturn iv) = work_end l iv WaitActive WorkComplete WaitReturnEvent m"
| "work_step l m (WWaitException iv) = work_end l iv WaitActive EmissionException WaitExceptionEvent m"
| "work_step l m (WVectorCount iv r10) = vector_count l m iv r10"
| "work_step l m (WVectorPre iv index r3 f1 ctr v1 lr) = vector_pre l m iv index r3 f1 ctr v1 lr"
| "work_step l m (WVectorReturn iv) = vector_return l m iv"
| "work_step l m (WVectorException iv) = work_end l iv VectorActive EmissionException VectorExceptionEvent m"
| "work_step l m (WExit iv normal) = work_exit l m iv normal"
| "work_step l m WFreeze = (Freeze m, False)"

section \<open>A reader of the log\<close>

definition bound_read :: "u64 \<Rightarrow> work_frame \<Rightarrow> work_frame" where
  "bound_read v f = f\<lparr>wf_bound_observed := True, wf_job_bound := v,
     wf_stage := (if uint (wf_next_job f) < signed_bound v then JobReady else WaitRequired)\<rparr>"

text \<open>The frame after an event, from the event's operands alone; \<open>None\<close> if the protocol forbids it.\<close>

fun work_read :: "work_kind \<Rightarrow> u64 list \<Rightarrow> work_frame \<Rightarrow> work_frame option" where
  "work_read MainGateEvent xs f =
     (if wf_stage f = WorkEntered \<and> hd xs \<le> 255
      then Some (f\<lparr>wf_main_observed := True, wf_main := hd xs,
                   wf_stage := (if hd xs = 0 then WorkComplete else AtScalarCount)\<rparr>) else None)"
| "work_read ScalarCountEvent xs f =
     (if wf_stage f = AtScalarCount \<and> hd xs \<le> 65535
      then Some (f\<lparr>wf_scalar_observed := True, wf_scalar_count := hd xs, wf_scalar_upper := hd xs,
                   wf_stage := ScalarReady\<rparr>) else None)"
| "work_read ScalarPreEvent xs f =
     (if wf_stage f = ScalarReady \<and> hd xs = kScalarLr \<and> xs ! 1 < wf_scalar_upper f
      then Some (f\<lparr>wf_scalar_index := xs ! 1, wf_scalar_upper := xs ! 1, wf_scalars := wf_scalars f + 1,
                   wf_stage := ScalarActive\<rparr>) else None)"
| "work_read ScalarReturnEvent xs f =
     (if wf_stage f = ScalarActive
      then Some (f\<lparr>wf_scalar_return := hd xs,
                   wf_stage := (if (ucast (hd xs) :: u8) = 0 then CleanupRequired else ScalarReady)\<rparr>) else None)"
| "work_read CleanupPreEvent xs f =
     (if wf_stage f = CleanupRequired \<and> hd xs = kCleanupLr
      then Some (f\<lparr>wf_cleanups := wf_cleanups f + 1, wf_stage := CleanupActive\<rparr>) else None)"
| "work_read CleanupReturnEvent xs f =
     (if wf_stage f = CleanupActive then Some (f\<lparr>wf_stage := ScalarReady\<rparr>) else None)"
| "work_read ModeGateEvent xs f =
     (if wf_stage f = ScalarReady \<and> hd xs \<le> 255
      then Some (f\<lparr>wf_mode_observed := True, wf_mode := hd xs,
                   wf_stage := (if hd xs = 0 then JobInitialBound else AtVectorCount)\<rparr>) else None)"
| "work_read JobInitialBoundEvent xs f =
     (if wf_stage f = JobInitialBound \<and> hd xs \<le> 0xFFFFFFFF then Some (bound_read (hd xs) f) else None)"
| "work_read JobReloadBoundEvent xs f =
     (if wf_stage f = JobReloadBound \<and> hd xs \<le> 0xFFFFFFFF then Some (bound_read (hd xs) f) else None)"
| "work_read JobPreEvent xs f =
     (if wf_stage f = JobReady \<and> hd xs = kJobLr \<and> xs ! 1 = wf_next_job f
      then Some (f\<lparr>wf_jobs := wf_jobs f + 1, wf_stage := JobActive\<rparr>) else None)"
| "work_read JobReturnEvent xs f =
     (if wf_stage f = JobActive
      then Some (f\<lparr>wf_job_return := hd xs, wf_next_job := wf_next_job f + 1, wf_stage := JobReloadBound\<rparr>) else None)"
| "work_read WaitPreEvent xs f =
     (if wf_stage f = WaitRequired \<and> hd xs = kWaitLr \<and> xs ! 1 = wf_job_bound f \<and> xs ! 3 = 1
      then Some (f\<lparr>wf_waits := wf_waits f + 1, wf_stage := WaitActive\<rparr>) else None)"
| "work_read WaitReturnEvent xs f =
     (if wf_stage f = WaitActive then Some (f\<lparr>wf_stage := WorkComplete\<rparr>) else None)"
| "work_read VectorCountEvent xs f =
     (if wf_stage f = AtVectorCount \<and> hd xs \<le> 65535
      then Some (f\<lparr>wf_vector_observed := True, wf_vector_count := hd xs,
                   wf_next_vector := (if hd xs = 0 then 0 else hd xs - 1),
                   wf_stage := (if hd xs = 0 then WorkComplete else VectorReady)\<rparr>) else None)"
| "work_read VectorPreEvent xs f =
     (if wf_stage f = VectorReady \<and> hd xs = kVectorLr \<and> xs ! 1 = wf_next_vector f
      then Some (f\<lparr>wf_vectors := wf_vectors f + 1, wf_stage := VectorActive\<rparr>) else None)"
| "work_read VectorReturnEvent xs f =
     (if wf_stage f \<noteq> VectorActive then None
      else if wf_next_vector f = 0 then Some (f\<lparr>wf_stage := WorkComplete\<rparr>)
      else Some (f\<lparr>wf_next_vector := wf_next_vector f - 1, wf_stage := VectorReady\<rparr>))"
| "work_read k xs f =
     (if (k, wf_stage f) \<in> {(ScalarExceptionEvent, ScalarActive), (CleanupExceptionEvent, CleanupActive),
          (JobExceptionEvent, JobActive), (WaitExceptionEvent, WaitActive), (VectorExceptionEvent, VectorActive)}
      then Some (f\<lparr>wf_stage := EmissionException\<rparr>) else None)"

type_synonym work_pending = "nat \<times> (invocation_id \<times> work_frame) list"

definition work_audit :: "work_pending \<Rightarrow> work_event \<Rightarrow> work_pending option" where
  "work_audit s e = (case s of (n, st) \<Rightarrow>
     if wv_kind e = WorkEntry
     then (if wv_index e = n
           then Some (n + 1, (wv_invocation e, new_work_frame n (case st of [] \<Rightarrow> no_invocation | (iv, _) # _ \<Rightarrow> iv)) # st)
           else None)
     else case st of
         [] \<Rightarrow> None
       | (iv, f) # r \<Rightarrow>
           if wv_invocation e \<noteq> iv \<or> wv_index e \<noteq> wf_index f then None
           else if wv_kind e = WorkNormalExit then (if wf_stage f = WorkComplete then Some (n, r) else None)
           else if wv_kind e = WorkExceptionalExit then Some (n, r)
           else map_option (\<lambda>g. (n, (iv, g) # r)) (work_read (wv_kind e) (py_fields (wv_payload e)) f))"

definition work_pending_of :: "work_model \<Rightarrow> work_pending" where
  "work_pending_of m = (length (wm_entries m), map (\<lambda>f. (invocation_of m f, f)) (rc_stack m))"

section \<open>What the frames hold\<close>

text \<open>The scalar loop: emissions are bounded by the indices passed, cleanups by the emissions.\<close>

definition scalars_ok :: "work_frame \<Rightarrow> bool" where
  "scalars_ok f \<longleftrightarrow> unat (wf_scalars f) + unat (wf_scalar_upper f) \<le> unat (wf_scalar_count f)
     \<and> unat (wf_scalar_count f) \<le> 65535
     \<and> unat (wf_cleanups f) + (if wf_stage f = CleanupRequired then 1 else 0) \<le> unat (wf_scalars f)"

definition no_later_work :: "work_frame \<Rightarrow> bool" where
  "no_later_work f \<longleftrightarrow> wf_jobs f = 0 \<and> wf_waits f = 0 \<and> wf_vectors f = 0 \<and> wf_next_job f = 0 \<and> \<not> wf_mode_observed f"

definition jobs_ok :: "work_frame \<Rightarrow> bool" where
  "jobs_ok f \<longleftrightarrow> wf_main f \<noteq> 0 \<and> wf_mode_observed f \<and> wf_mode f = 0 \<and> wf_vectors f = 0
     \<and> unat (wf_jobs f) = unat (wf_next_job f) + (if wf_stage f = JobActive then 1 else 0)
     \<and> unat (wf_next_job f) + (if wf_stage f = JobActive then 1 else 0) \<le> 2147483647
     \<and> wf_waits f = (if wf_stage f \<in> {WaitActive, WorkComplete} then 1 else 0)
     \<and> (wf_stage f = JobInitialBound \<longrightarrow> wf_next_job f = 0)
     \<and> (wf_stage f = JobReady \<longrightarrow> uint (wf_next_job f) < signed_bound (wf_job_bound f) \<and> wf_job_bound f \<le> 0xFFFFFFFF)
     \<and> (wf_stage f \<in> {WaitRequired, WaitActive, WorkComplete} \<longrightarrow> signed_bound (wf_job_bound f) \<le> uint (wf_next_job f))"

definition vectors_ok :: "work_frame \<Rightarrow> bool" where
  "vectors_ok f \<longleftrightarrow> wf_main f \<noteq> 0 \<and> wf_mode_observed f \<and> wf_mode f \<noteq> 0 \<and> wf_jobs f = 0 \<and> wf_waits f = 0
     \<and> (wf_stage f = AtVectorCount \<longrightarrow> wf_vectors f = 0)
     \<and> (wf_stage f \<noteq> AtVectorCount \<longrightarrow> unat (wf_vector_count f) \<le> 65535
         \<and> unat (wf_vectors f) + (if wf_stage f = VectorReady then unat (wf_next_vector f) + 1
            else if wf_stage f = VectorActive then unat (wf_next_vector f) else 0) = unat (wf_vector_count f))"

definition work_frame_ok :: "work_frame \<Rightarrow> bool" where
  "work_frame_ok f \<longleftrightarrow> scalars_ok f \<and> (case wf_stage f of
       WorkEntered \<Rightarrow> no_later_work f \<and> wf_scalars f = 0 \<and> wf_cleanups f = 0
     | AtScalarCount \<Rightarrow> no_later_work f \<and> wf_scalars f = 0 \<and> wf_cleanups f = 0 \<and> wf_main f \<noteq> 0
     | ScalarReady \<Rightarrow> no_later_work f \<and> wf_main f \<noteq> 0
     | ScalarActive \<Rightarrow> no_later_work f \<and> wf_main f \<noteq> 0 \<and> unat (wf_cleanups f) < unat (wf_scalars f)
     | CleanupRequired \<Rightarrow> no_later_work f \<and> wf_main f \<noteq> 0
     | CleanupActive \<Rightarrow> no_later_work f \<and> wf_main f \<noteq> 0
     | WorkComplete \<Rightarrow>
         (if wf_main f = 0 then no_later_work f \<and> wf_scalars f = 0 \<and> wf_cleanups f = 0
          else if wf_mode f = 0 then jobs_ok f else vectors_ok f)
     | EmissionException \<Rightarrow> True
     | stage \<Rightarrow> (if stage \<in> {AtVectorCount, VectorReady, VectorActive} then vectors_ok f else jobs_ok f))"

lemma work_frame_ok_new: "work_frame_ok (new_work_frame n iv)"
  by (simp add: work_frame_ok_def new_work_frame_def scalars_ok_def no_later_work_def)

lemmas frame_parts = work_frame_ok_def scalars_ok_def no_later_work_def jobs_ok_def vectors_ok_def

lemma unat_next: "unat (x :: u32) < 4294967295 \<Longrightarrow> unat (x + 1) = unat x + 1"
  by (rule unat_succ) simp

lemma unat_next64: "unat (x :: u64) < 2147483648 \<Longrightarrow> unat (x + 1) = unat x + 1"
  by (rule unat_succ) simp

lemma signed_bound_small:
  assumes "v \<le> 0xFFFFFFFF"
  shows "signed_bound v \<le> 2147483647"
proof (cases "and v 0x80000000 = 0")
  case True
  have b: "bit (0x80000000 :: u64) 31" by simp
  have "\<not> bit v 31"
  proof
    assume "bit v 31"
    with b have "bit (and v 0x80000000) 31" by (simp only: bit_and_iff)
    with True show False by simp
  qed
  then have "\<not> bit (uint v) 31" by (simp add: bit_uint_iff)
  then have "even (uint v div 2 ^ 31)" unfolding bit_iff_odd by simp
  moreover have "uint v < 2 ^ 32" using assms by (simp add: word_le_def)
  then have "uint v div 2 ^ 31 < 2" by simp
  moreover have "0 \<le> uint v div 2 ^ 31" by (simp add: pos_imp_zdiv_nonneg_iff)
  moreover have "even k \<Longrightarrow> k < 2 \<Longrightarrow> 0 \<le> k \<Longrightarrow> k = 0" for k :: int by presburger
  ultimately have "uint v div 2 ^ 31 = 0" by blast
  then show ?thesis using True by (simp add: signed_bound_def)
next
  case False
  with assms show ?thesis by (simp add: signed_bound_def word_le_def)
qed

lemma read_scalar_pre:
  assumes "work_read ScalarPreEvent xs f = Some g" "work_frame_ok f"
  shows "work_frame_ok g"
proof -
  from assms(1) have g: "g = f\<lparr>wf_scalar_index := xs ! 1, wf_scalar_upper := xs ! 1, wf_scalars := wf_scalars f + 1,
      wf_stage := ScalarActive\<rparr>" and s: "wf_stage f = ScalarReady" "xs ! 1 < wf_scalar_upper f"
    by (auto split: if_splits)
  have "unat (xs ! 1) < unat (wf_scalar_upper f)" using s(2) by (simp add: word_less_nat_alt)
  moreover from this have "unat (wf_scalars f + 1) = unat (wf_scalars f) + 1" using assms(2)
    by (intro unat_next) (simp add: frame_parts)
  ultimately show ?thesis using assms(2) s unfolding g by (auto simp: frame_parts)
qed

lemma read_job_pre:
  assumes "work_read JobPreEvent xs f = Some g" "work_frame_ok f"
  shows "work_frame_ok g"
proof -
  from assms(1) have g: "g = f\<lparr>wf_jobs := wf_jobs f + 1, wf_stage := JobActive\<rparr>" and s: "wf_stage f = JobReady"
    by (auto split: if_splits)
  from assms(2) s have j: "jobs_ok f" "scalars_ok f" by (simp_all add: work_frame_ok_def)
  then have "uint (wf_next_job f) < signed_bound (wf_job_bound f)" "wf_job_bound f \<le> 0xFFFFFFFF"
    using s by (simp_all add: jobs_ok_def)
  with signed_bound_small have "uint (wf_next_job f) < 2147483647" by (meson less_le_trans)
  then have n: "unat (wf_next_job f) < 2147483647" using uint_nat [of "wf_next_job f"] by linarith
  have same: "unat (wf_jobs f) = unat (wf_next_job f)" using j(1) s unfolding jobs_ok_def by simp
  have up: "unat (wf_jobs f + 1) = unat (wf_next_job f) + 1"
    unfolding same [symmetric] by (rule unat_next) (use n same in simp)
  have "unat (wf_next_job f) + 1 \<le> 2147483647" using n by simp
  with up j(1) s have "jobs_ok g" unfolding jobs_ok_def g by simp
  moreover have "scalars_ok g" using j(2) s by (simp add: g scalars_ok_def)
  ultimately show ?thesis by (simp add: g work_frame_ok_def)
qed

lemma read_vector_pre:
  assumes "work_read VectorPreEvent xs f = Some g" "work_frame_ok f"
  shows "work_frame_ok g"
proof -
  from assms(1) have g: "g = f\<lparr>wf_vectors := wf_vectors f + 1, wf_stage := VectorActive\<rparr>" and s: "wf_stage f = VectorReady"
    by (auto split: if_splits)
  from assms(2) s have j: "vectors_ok f" "scalars_ok f" by (simp_all add: work_frame_ok_def)
  with s have "unat (wf_vectors f + 1) = unat (wf_vectors f) + 1"
    by (intro unat_next) (simp add: vectors_ok_def)
  then have "vectors_ok g" "scalars_ok g" using j s by (auto simp: g vectors_ok_def scalars_ok_def)
  then show ?thesis by (simp add: g work_frame_ok_def)
qed

lemma read_cleanup_pre:
  assumes "work_read CleanupPreEvent xs f = Some g" "work_frame_ok f"
  shows "work_frame_ok g"
proof -
  from assms(1) have g: "g = f\<lparr>wf_cleanups := wf_cleanups f + 1, wf_stage := CleanupActive\<rparr>" and s: "wf_stage f = CleanupRequired"
    by (auto split: if_splits)
  have "unat (wf_cleanups f + 1) = unat (wf_cleanups f) + 1" using assms(2) s
    by (intro unat_next) (simp add: frame_parts)
  then show ?thesis using assms(2) s unfolding g by (auto simp: frame_parts)
qed

lemma read_returns:
  assumes "work_read k xs f = Some g" "work_frame_ok f" "k \<in> {JobReturnEvent, VectorReturnEvent}"
  shows "work_frame_ok g"
proof (cases "k = JobReturnEvent")
  case True
  with assms(1) have g: "g = f\<lparr>wf_job_return := hd xs, wf_next_job := wf_next_job f + 1, wf_stage := JobReloadBound\<rparr>"
    and s: "wf_stage f = JobActive" by (auto split: if_splits)
  from assms(2) s have j: "jobs_ok f" "scalars_ok f" by (simp_all add: work_frame_ok_def)
  with s have "unat (wf_next_job f + 1) = unat (wf_next_job f) + 1" by (intro unat_next64) (simp add: jobs_ok_def)
  then have "jobs_ok g" "scalars_ok g" using j s by (simp_all add: g jobs_ok_def scalars_ok_def)
  then show ?thesis by (simp add: g work_frame_ok_def)
next
  case False
  with assms(1,3) have s: "wf_stage f = VectorActive"
    and g: "g = (if wf_next_vector f = 0 then f\<lparr>wf_stage := WorkComplete\<rparr>
        else f\<lparr>wf_next_vector := wf_next_vector f - 1, wf_stage := VectorReady\<rparr>)"
    by (auto split: if_splits)
  from assms(2) s have j: "vectors_ok f" "scalars_ok f" by (simp_all add: work_frame_ok_def)
  then have m: "wf_main f \<noteq> 0" "wf_mode f \<noteq> 0" by (simp_all add: vectors_ok_def)
  show ?thesis
  proof (cases "wf_next_vector f = 0")
    case True
    then show ?thesis using j s m by (simp add: g work_frame_ok_def vectors_ok_def scalars_ok_def)
  next
    case False
    then have "unat (wf_next_vector f - 1) + 1 = unat (wf_next_vector f)" by (simp add: unat_pred unat_gt_0)
    then show ?thesis using False j s m by (simp add: g work_frame_ok_def vectors_ok_def scalars_ok_def)
  qed
qed

lemma read_bounds:
  assumes "work_read k xs f = Some g" "work_frame_ok f" "k \<in> {JobInitialBoundEvent, JobReloadBoundEvent}"
  shows "work_frame_ok g"
proof -
  from assms(1,3) have g: "g = bound_read (hd xs) f" and v: "hd xs \<le> 0xFFFFFFFF"
    and s: "wf_stage f \<in> {JobInitialBound, JobReloadBound}" by (auto split: if_splits)
  from assms(2) s have j: "jobs_ok f" "scalars_ok f" by (auto simp: work_frame_ok_def)
  then have "jobs_ok g" using s v by (auto simp: g jobs_ok_def bound_read_def)
  moreover have "scalars_ok g" using j s by (auto simp: g scalars_ok_def bound_read_def)
  moreover have "wf_stage g \<in> {JobReady, WaitRequired}" by (simp add: g bound_read_def)
  ultimately show ?thesis by (auto simp: work_frame_ok_def)
qed

lemma read_waits:
  assumes "work_read k xs f = Some g" "work_frame_ok f" "k \<in> {WaitPreEvent, WaitReturnEvent}"
  shows "work_frame_ok g"
proof -
  from assms(1,3) have s: "wf_stage f \<in> {WaitRequired, WaitActive}" by (auto split: if_splits)
  with assms(2) have j: "jobs_ok f" "scalars_ok f" by (auto simp: work_frame_ok_def)
  then have main: "wf_main f \<noteq> 0" "wf_mode f = 0" by (simp_all add: jobs_ok_def)
  show ?thesis
  proof (cases "k = WaitPreEvent")
    case True
    with assms(1) have g: "g = f\<lparr>wf_waits := wf_waits f + 1, wf_stage := WaitActive\<rparr>" and s: "wf_stage f = WaitRequired"
      by (auto split: if_splits)
    have "jobs_ok g" using j(1) s unfolding jobs_ok_def g by simp
    moreover have "scalars_ok g" using j(2) s unfolding scalars_ok_def g by simp
    ultimately show ?thesis by (simp add: g work_frame_ok_def)
  next
    case False
    with assms(1,3) have g: "g = f\<lparr>wf_stage := WorkComplete\<rparr>" and s: "wf_stage f = WaitActive"
      by (auto split: if_splits)
    have "jobs_ok g" using j(1) s unfolding jobs_ok_def g by simp
    moreover have "scalars_ok g" using j(2) s unfolding scalars_ok_def g by simp
    ultimately show ?thesis using main by (simp add: g work_frame_ok_def)
  qed
qed

lemma read_exceptions:
  assumes "work_read k xs f = Some g" "work_frame_ok f"
    "k \<in> {ScalarExceptionEvent, CleanupExceptionEvent, JobExceptionEvent, WaitExceptionEvent, VectorExceptionEvent}"
  shows "work_frame_ok g"
proof -
  from assms(1,3) have "g = f\<lparr>wf_stage := EmissionException\<rparr>" and s: "wf_stage f \<noteq> CleanupRequired"
    by (auto split: if_splits)
  moreover have "scalars_ok f" using assms(2) by (simp add: work_frame_ok_def)
  ultimately show ?thesis by (simp add: work_frame_ok_def scalars_ok_def)
qed

lemma read_main:
  assumes "work_read MainGateEvent xs f = Some g" "work_frame_ok f"
  shows "work_frame_ok g"
proof -
  from assms(1) have g: "g = f\<lparr>wf_main_observed := True, wf_main := hd xs,
      wf_stage := (if hd xs = 0 then WorkComplete else AtScalarCount)\<rparr>" and s: "wf_stage f = WorkEntered"
    by (auto split: if_splits)
  from assms(2) s have n: "no_later_work f" "scalars_ok f" "wf_scalars f = 0" "wf_cleanups f = 0"
    by (simp_all add: work_frame_ok_def)
  have "scalars_ok g" "no_later_work g" using n s by (simp_all add: scalars_ok_def no_later_work_def g)
  moreover have "wf_scalars g = 0" "wf_cleanups g = 0" "wf_main g = hd xs"
    "wf_stage g = (if hd xs = 0 then WorkComplete else AtScalarCount)" using n by (simp_all add: g)
  ultimately show ?thesis by (simp add: work_frame_ok_def)
qed

lemma read_scalar_count:
  assumes "work_read ScalarCountEvent xs f = Some g" "work_frame_ok f"
  shows "work_frame_ok g"
proof -
  from assms(1) have g: "g = f\<lparr>wf_scalar_observed := True, wf_scalar_count := hd xs, wf_scalar_upper := hd xs,
      wf_stage := ScalarReady\<rparr>" and s: "wf_stage f = AtScalarCount" "hd xs \<le> 65535"
    by (auto split: if_splits)
  from s(2) have c: "unat (hd xs) \<le> 65535" by (simp add: word_le_nat_alt)
  from assms(2) s have n: "no_later_work f" "wf_main f \<noteq> 0" "wf_scalars f = 0" "wf_cleanups f = 0"
    by (simp_all add: work_frame_ok_def)
  have "scalars_ok g" "no_later_work g" using n c by (simp_all add: scalars_ok_def no_later_work_def g)
  then show ?thesis using n by (simp add: g work_frame_ok_def)
qed

lemma read_scalar_end:
  assumes "work_read k xs f = Some g" "work_frame_ok f" "k \<in> {ScalarReturnEvent, CleanupReturnEvent}"
  shows "work_frame_ok g"
proof -
  from assms(1,3) obtain r st where g: "g = f\<lparr>wf_scalar_return := r, wf_stage := st\<rparr>"
    and st: "st \<in> {CleanupRequired, ScalarReady}" "st = CleanupRequired \<Longrightarrow> wf_stage f = ScalarActive"
      "wf_stage f \<in> {ScalarActive, CleanupActive}"
    by (cases f) (auto split: if_splits)
  from assms(2) st(3) have n: "no_later_work f" "wf_main f \<noteq> 0" "scalars_ok f"
    "wf_stage f = ScalarActive \<Longrightarrow> unat (wf_cleanups f) < unat (wf_scalars f)"
    by (auto simp: work_frame_ok_def)
  have "scalars_ok g" using n(3,4) st by (auto simp: scalars_ok_def g)
  moreover have "no_later_work g" using n by (simp add: no_later_work_def g)
  ultimately show ?thesis using n st by (auto simp: g work_frame_ok_def)
qed

lemma read_mode:
  assumes "work_read ModeGateEvent xs f = Some g" "work_frame_ok f"
  shows "work_frame_ok g"
proof -
  from assms(1) have g: "g = f\<lparr>wf_mode_observed := True, wf_mode := hd xs,
      wf_stage := (if hd xs = 0 then JobInitialBound else AtVectorCount)\<rparr>" and s: "wf_stage f = ScalarReady"
    by (auto split: if_splits)
  from assms(2) s have n: "no_later_work f" "wf_main f \<noteq> 0" "scalars_ok f" by (simp_all add: work_frame_ok_def)
  have sg: "scalars_ok g" using n(3) s unfolding scalars_ok_def g by simp
  show ?thesis
  proof (cases "hd xs = 0")
    case True
    then have "jobs_ok g" using n unfolding jobs_ok_def no_later_work_def g by simp
    with sg True show ?thesis by (simp add: g work_frame_ok_def)
  next
    case False
    then have "vectors_ok g" using n unfolding vectors_ok_def no_later_work_def g by simp
    with sg False show ?thesis by (simp add: g work_frame_ok_def)
  qed
qed

lemma read_vector_count:
  assumes "work_read VectorCountEvent xs f = Some g" "work_frame_ok f"
  shows "work_frame_ok g"
proof -
  from assms(1) have g: "g = f\<lparr>wf_vector_observed := True, wf_vector_count := hd xs,
      wf_next_vector := (if hd xs = 0 then 0 else hd xs - 1),
      wf_stage := (if hd xs = 0 then WorkComplete else VectorReady)\<rparr>" and s: "wf_stage f = AtVectorCount" "hd xs \<le> 65535"
    by (auto split: if_splits)
  from s(2) have c: "unat (hd xs) \<le> 65535" by (simp add: word_le_nat_alt)
  from assms(2) s have n: "vectors_ok f" "scalars_ok f" by (simp_all add: work_frame_ok_def)
  then have m: "wf_main f \<noteq> 0" "wf_mode f \<noteq> 0" by (simp_all add: vectors_ok_def)
  have sg: "scalars_ok g" using n(2) s unfolding scalars_ok_def g by simp
  show ?thesis
  proof (cases "hd xs = 0")
    case True
    then have "vectors_ok g" using n s unfolding vectors_ok_def g by simp
    with sg True m show ?thesis by (simp add: g work_frame_ok_def)
  next
    case False
    then have "unat (hd xs - 1) + 1 = unat (hd xs)" by (simp add: unat_pred unat_gt_0)
    then have "vectors_ok g" using n s c False unfolding vectors_ok_def g by simp
    with sg False show ?thesis by (simp add: g work_frame_ok_def)
  qed
qed

lemma work_read_none: "k \<in> {WorkEntry, WorkNormalExit, WorkExceptionalExit} \<Longrightarrow> work_read k xs f = None"
  by auto

lemma work_read_ok: "work_read k xs f = Some g \<Longrightarrow> work_frame_ok f \<Longrightarrow> work_frame_ok g"
proof -
  assume r: "work_read k xs f = Some g" and ok: "work_frame_ok f"
  show ?thesis
    using read_scalar_pre [of xs f g] read_job_pre [of xs f g] read_vector_pre [of xs f g] read_cleanup_pre [of xs f g]
      read_mode [of xs f g] read_vector_count [of xs f g] read_returns [of k xs f g] read_bounds [of k xs f g]
      read_waits [of k xs f g] read_exceptions [of k xs f g] read_main [of xs f g]
      read_scalar_count [of xs f g] read_scalar_end [of k xs f g] r ok work_read_none [of k xs f]
    by (cases k) (simp_all del: work_read.simps)
qed

section \<open>The invariant of the record\<close>

definition logged_steps :: "work_kind \<Rightarrow> nat \<Rightarrow> work_event list \<Rightarrow> nat" where
  "logged_steps k i es = length (filter (\<lambda>e. wv_kind e = k \<and> wv_index e = i) es)"

text \<open>The counters of a frame are the numbers of its events.\<close>

definition counts_ok :: "work_event list \<Rightarrow> work_frame \<Rightarrow> bool" where
  "counts_ok es f \<longleftrightarrow> wf_scalars f = of_nat (logged_steps ScalarPreEvent (wf_index f) es)
     \<and> wf_cleanups f = of_nat (logged_steps CleanupPreEvent (wf_index f) es)
     \<and> wf_jobs f = of_nat (logged_steps JobPreEvent (wf_index f) es)
     \<and> wf_waits f = of_nat (logged_steps WaitPreEvent (wf_index f) es)
     \<and> wf_vectors f = of_nat (logged_steps VectorPreEvent (wf_index f) es)"

definition lanes_of :: "work_entry \<Rightarrow> u64 list" where
  "lanes_of e = [iv_serial (we_invocation e), iv_serial (ve_invocation (we_virtual e)),
     iv_serial (ce_invocation (ve_parent (we_virtual e))), iv_serial (ce_router (ve_parent (we_virtual e)))]"

definition entries_ok :: "work_model \<Rightarrow> bool" where
  "entries_ok m \<longleftrightarrow> sorted_wrt (list_all2 (<)) (map lanes_of (wm_entries m))
     \<and> list_all (\<lambda>e. work_parent_ok e
          \<and> list_all2 (\<le>) (lanes_of e) [wm_last m, wm_last_virtual m, wm_last_detail m, wm_last_router m])
        (wm_entries m)"

definition events_ok :: "work_model \<Rightarrow> bool" where
  "events_ok m \<longleftrightarrow> list_all (\<lambda>e. wv_index e < length (wm_entries m)
     \<and> wv_invocation e = we_invocation (wm_entries m ! wv_index e)) (rc_events m)"

definition frames_ok :: "work_model \<Rightarrow> bool" where
  "frames_ok m \<longleftrightarrow> sorted_wrt (>) (map wf_index (rc_stack m))
     \<and> list_all (\<lambda>f. wf_index f < length (wm_entries m) \<and> work_frame_ok f \<and> counts_ok (rc_events m) f) (rc_stack m)"

definition work_wf :: "work_model \<Rightarrow> bool" where
  "work_wf m \<longleftrightarrow> entries_ok m \<and> events_ok m \<and> frames_ok m"

lemma work_read_frame:
  "work_read k xs f = Some g \<Longrightarrow> wf_index g = wf_index f
     \<and> wf_scalars g = wf_scalars f + (if k = ScalarPreEvent then 1 else 0)
     \<and> wf_cleanups g = wf_cleanups f + (if k = CleanupPreEvent then 1 else 0)
     \<and> wf_jobs g = wf_jobs f + (if k = JobPreEvent then 1 else 0)
     \<and> wf_waits g = wf_waits f + (if k = WaitPreEvent then 1 else 0)
     \<and> wf_vectors g = wf_vectors f + (if k = VectorPreEvent then 1 else 0)"
  by (cases k) (auto simp: bound_read_def split: if_splits)

lemma logged_steps_snoc:
  "logged_steps k i (es @ [e]) = logged_steps k i es + (if wv_kind e = k \<and> wv_index e = i then 1 else 0)"
  by (simp add: logged_steps_def)

lemma counts_ok_read:
  assumes "work_read k xs f = Some g" "counts_ok es f" "wv_kind e = k" "wv_index e = wf_index f"
  shows "counts_ok (es @ [e]) g"
  using assms(2-4) work_read_frame [OF assms(1)] by (auto simp: counts_ok_def logged_steps_snoc)

lemma counts_ok_other: "counts_ok es f \<Longrightarrow> wv_index e \<noteq> wf_index f \<Longrightarrow> counts_ok (es @ [e]) f"
  by (simp add: counts_ok_def logged_steps_snoc)

lemma counts_ok_new:
  assumes "\<forall>e \<in> set es. wv_index e < n" "wv_kind e = WorkEntry"
  shows "counts_ok (es @ [e]) (new_work_frame n iv)"
proof -
  have "logged_steps k n es = 0" for k using assms(1) by (auto simp: logged_steps_def filter_empty_conv)
  then show ?thesis using assms(2) by (simp add: counts_ok_def logged_steps_snoc new_work_frame_def)
qed

abbreviation work_lanes :: "work_model \<Rightarrow> u64 list" where "work_lanes m \<equiv> [wm_last m]"

definition work_serials :: "work_event \<Rightarrow> u64 list option" where
  "work_serials e = (if wv_kind e = WorkEntry then Some [iv_serial (wv_invocation e)] else None)"

definition work_accepts :: "work_limits \<Rightarrow> work_model \<Rightarrow> work_model \<Rightarrow> bool" where
  "work_accepts l m m' \<longleftrightarrow> work_wf m' \<and> Writable m \<and> length (rc_events m) < wl_events l
     \<and> (length (rc_stack m) \<le> wl_depth l \<longrightarrow> length (rc_stack m') \<le> wl_depth l)
     \<and> (\<exists>e. rc_events m' = rc_events m @ [e] \<and> work_audit (work_pending_of m) e = Some (work_pending_of m')
         \<and> (case work_serials e of None \<Rightarrow> work_lanes m' = work_lanes m
            | Some n \<Rightarrow> list_all2 (<) (work_lanes m) n \<and> work_lanes m' = n))"

lemma work_emit_simps [simp]:
  "wm_entries (work_emit k p f st m) = wm_entries m"
  "rc_stack (work_emit k p f st m) = st"
  "wm_last (work_emit k p f st m) = wm_last m"
  "wm_last_virtual (work_emit k p f st m) = wm_last_virtual m"
  "wm_last_detail (work_emit k p f st m) = wm_last_detail m"
  "wm_last_router (work_emit k p f st m) = wm_last_router m"
  "rc_events (work_emit k p f st m) = rc_events m
     @ [\<lparr>wv_invocation = invocation_of m f, wv_index = wf_index f, wv_kind = k, wv_payload = p\<rparr>]"
  by (simp_all add: work_emit_def logged_change_def)

lemma work_top_accepted:
  assumes "work_top l iv test k p upd m = (m', True)" and wf: "work_wf m"
    and read: "\<And>f. test f \<Longrightarrow> work_read (k f) (py_fields p) f = Some (upd f)"
  shows "work_accepts l m m'"
proof -
  obtain f fs where w: "Writable m" "length (rc_events m) < wl_events l" and st: "rc_stack m = f # fs"
    and "test f" and m': "m' = work_emit (k f) p f (upd f # fs) m"
    using assms(1) by (auto simp: work_top_def on_top_True Room_def split: if_splits)
  let ?e = "\<lparr>wv_invocation = invocation_of m f, wv_index = wf_index f, wv_kind = k f, wv_payload = p\<rparr>"
  note r = read [OF \<open>test f\<close>]
  then have inner: "k f \<notin> {WorkEntry, WorkNormalExit, WorkExceptionalExit}" using work_read_none by fastforce
  have idx: "wf_index (upd f) = wf_index f" using work_read_frame [OF r] by simp
  have inv: "invocation_of m' g = invocation_of m g" for g by (simp add: m' invocation_of_def)
  from wf st have f: "wf_index f < length (wm_entries m)" "work_frame_ok f" "counts_ok (rc_events m) f"
    and fs: "\<forall>g \<in> set fs. wf_index g < wf_index f \<and> wf_index g < length (wm_entries m) \<and> work_frame_ok g
      \<and> counts_ok (rc_events m) g" "sorted_wrt (>) (map wf_index fs)"
    by (auto simp: work_wf_def frames_ok_def list_all_iff)
  have "entries_ok m'" using wf by (simp add: m' work_wf_def entries_ok_def)
  moreover have "events_ok m'" using wf f(1) by (simp add: m' work_wf_def events_ok_def invocation_of_def)
  moreover have "work_frame_ok (upd f)" using work_read_ok [OF r f(2)] .
  moreover have "counts_ok (rc_events m @ [?e]) (upd f)" using counts_ok_read [OF r f(3)] by simp
  moreover have "counts_ok (rc_events m @ [?e]) g" if "g \<in> set fs" for g
    using fs(1) that by (intro counts_ok_other) auto
  ultimately have "work_wf m'" using f(1) fs idx
    by (simp add: work_wf_def frames_ok_def list_all_iff m')
  moreover have "work_audit (work_pending_of m) ?e = Some (work_pending_of m')"
    using inner r idx by (simp add: work_audit_def work_pending_of_def st m' invocation_of_def)
  ultimately show ?thesis using w inner
    by (auto simp: work_accepts_def m' st work_serials_def)
qed

lemma work_exit_accepted:
  assumes "work_exit l m iv normal = (m', True)" and wf: "work_wf m"
  shows "work_accepts l m m'"
proof -
  let ?k = "if normal then WorkNormalExit else WorkExceptionalExit"
  obtain f fs where w: "Writable m" "length (rc_events m) < wl_events l" and st: "rc_stack m = f # fs"
    and ok: "normal \<Longrightarrow> wf_stage f = WorkComplete" and m': "m' = work_emit ?k (payload_of []) f fs m"
    using assms(1) by (auto simp: work_exit_def on_top_True Room_def split: if_splits)
  let ?e = "\<lparr>wv_invocation = invocation_of m f, wv_index = wf_index f, wv_kind = ?k, wv_payload = payload_of []\<rparr>"
  from wf st have f: "wf_index f < length (wm_entries m)"
    and fs: "\<forall>g \<in> set fs. wf_index g < wf_index f \<and> wf_index g < length (wm_entries m) \<and> work_frame_ok g
      \<and> counts_ok (rc_events m) g" "sorted_wrt (>) (map wf_index fs)"
    by (auto simp: work_wf_def frames_ok_def list_all_iff)
  have "entries_ok m'" using wf by (simp add: m' work_wf_def entries_ok_def)
  moreover have "events_ok m'" using wf f by (simp add: m' work_wf_def events_ok_def invocation_of_def)
  moreover have "counts_ok (rc_events m @ [?e]) g" if "g \<in> set fs" for g
    using fs(1) that by (intro counts_ok_other) auto
  ultimately have "work_wf m'" using fs by (simp add: work_wf_def frames_ok_def list_all_iff m')
  moreover have "work_audit (work_pending_of m) ?e = Some (work_pending_of m')"
    using ok by (simp add: work_audit_def work_pending_of_def st m' invocation_of_def)
  ultimately show ?thesis using w by (auto simp: work_accepts_def m' st work_serials_def)
qed

lemma work_enter_accepted:
  assumes "work_enter l m e = (m', True)" and wf: "work_wf m"
  shows "work_accepts l m m'"
proof -
  let ?parent = "case rc_stack m of [] \<Rightarrow> no_invocation | f # _ \<Rightarrow> invocation_of m f"
  let ?n = "length (wm_entries m)"
  let ?f = "new_work_frame ?n ?parent"
  let ?e = "\<lparr>wv_invocation = we_invocation e, wv_index = ?n, wv_kind = WorkEntry, wv_payload = payload_of []\<rparr>"
  have w: "Writable m" "length (rc_events m) < wl_events l" "length (rc_stack m) \<noteq> wl_depth l"
    and adm: "work_parent_ok e" and lanes: "work_lanes_ok m e"
    and m': "rc_events m' = rc_events m @ [?e]" "rc_stack m' = ?f # rc_stack m" "wm_entries m' = wm_entries m @ [e]"
      "[wm_last m', wm_last_virtual m', wm_last_detail m', wm_last_router m'] = lanes_of e"
    using assms(1)
    by (auto simp: work_enter_def Let_def attempt_True Room_def new_work_frame_def invocation_of_def lanes_of_def
        split: if_splits)
  have grow: "list_all2 (<) [wm_last m, wm_last_virtual m, wm_last_detail m, wm_last_router m] (lanes_of e)"
    using lanes by (auto simp: work_lanes_ok_def lanes_of_def Let_def)
  have older: "list_all2 (<) (lanes_of x) (lanes_of e) \<and> list_all2 (\<le>) (lanes_of x) (lanes_of e)"
    if "x \<in> set (wm_entries m)" for x
    using lanes_grow [OF _ grow] wf that by (auto simp: work_wf_def entries_ok_def list_all_iff)
  have "list_all2 (\<le>) (lanes_of e) (lanes_of e)" by (rule list_all2_refl) simp
  then have "entries_ok m'" using wf older adm
    by (auto simp: work_wf_def entries_ok_def m' sorted_wrt_append list_all_iff)
  moreover have ev: "\<forall>x \<in> set (rc_events m). wv_index x < ?n" using wf by (auto simp: work_wf_def events_ok_def list_all_iff)
  then have "events_ok m'" using wf by (auto simp: work_wf_def events_ok_def m' nth_append list_all_iff)
  moreover have "counts_ok (rc_events m @ [?e]) ?f" using ev by (intro counts_ok_new) auto
  moreover have old: "wf_index g < ?n \<and> work_frame_ok g \<and> counts_ok (rc_events m) g" if "g \<in> set (rc_stack m)" for g
    using wf that by (auto simp: work_wf_def frames_ok_def list_all_iff)
  then have "counts_ok (rc_events m @ [?e]) g" if "g \<in> set (rc_stack m)" for g
    using that by (intro counts_ok_other) fastforce+
  moreover have "sorted_wrt (>) (map wf_index (rc_stack m))" using wf by (simp add: work_wf_def frames_ok_def)
  moreover have "wf_index ?f = ?n" by (simp add: new_work_frame_def)
  ultimately have "work_wf m'" using old work_frame_ok_new
    by (auto simp: work_wf_def frames_ok_def m' list_all_iff intro: less_SucI)
  moreover have "map (\<lambda>f. (invocation_of m' f, f)) (rc_stack m) = map (\<lambda>f. (invocation_of m f, f)) (rc_stack m)"
    using old by (auto simp: invocation_of_def m' nth_append)
  then have "work_audit (work_pending_of m) ?e = Some (work_pending_of m')"
    by (cases "rc_stack m") (simp_all add: work_audit_def work_pending_of_def m' invocation_of_def new_work_frame_def)
  moreover have "wm_last m' = iv_serial (we_invocation e)" using m'(4) by (simp add: lanes_of_def)
  ultimately show ?thesis using w grow
    by (auto simp: work_accepts_def m'(1-3) work_serials_def lanes_of_def)
qed

lemma payload_nth [simp]: "i < length xs \<Longrightarrow> py_fields (payload_of xs) ! i = xs ! i"
  by (simp add: payload_of_def nth_append)

lemma payload_hd [simp]: "xs \<noteq> [] \<Longrightarrow> hd (py_fields (payload_of xs)) = hd xs"
  by (simp add: payload_of_def)

lemma work_at_accepted:
  assumes "work_at l iv stage test k p upd m = (m', True)" and "work_wf m"
    and "\<And>f. wf_stage f = stage \<Longrightarrow> test f \<Longrightarrow> work_read k (py_fields p) f = Some (upd f)"
  shows "work_accepts l m m'"
  using assms(1) unfolding work_at_def by (rule work_top_accepted) (use assms(2,3) in auto)

lemma work_end_accepted:
  assumes "work_end l iv active following k m = (m', True)" and "work_wf m"
    and "\<And>f. wf_stage f = active \<Longrightarrow> work_read k (py_fields (payload_of [])) f = Some (f\<lparr>wf_stage := following\<rparr>)"
  shows "work_accepts l m m'"
  using assms(1) unfolding work_end_def by (rule work_at_accepted) (use assms(2,3) in auto)

lemma positive_bound: "signed_bound r > 0 \<and> uint n < signed_bound r \<longleftrightarrow> uint (n :: u64) < signed_bound r"
  using uint_ge_0 [of n] by linarith

lemma job_bound_accepted: "job_bound l m iv r11 = (m', True) \<Longrightarrow> work_wf m \<Longrightarrow> work_accepts l m m'"
  unfolding job_bound_def
  by (erule work_top_accepted) (auto simp: One_def bound_read_def positive_bound not_less)

lemma work_accepted: "work_step l m call = (m', True) \<Longrightarrow> work_wf m \<Longrightarrow> work_accepts l m m'"
proof (cases call)
  case (WEnter e)
  then show "work_step l m call = (m', True) \<Longrightarrow> work_wf m \<Longrightarrow> ?thesis" by (simp add: work_enter_accepted)
next
  case (WExit iv normal)
  then show "work_step l m call = (m', True) \<Longrightarrow> work_wf m \<Longrightarrow> ?thesis" by (simp add: work_exit_accepted)
next
  case (WJobBound iv r)
  then show "work_step l m call = (m', True) \<Longrightarrow> work_wf m \<Longrightarrow> ?thesis" by (simp add: job_bound_accepted)
qed (auto simp: main_gate_def scalar_count_def scalar_pre_def scalar_return_def cleanup_pre_def mode_gate_def
    job_pre_def job_return_def wait_pre_def vector_count_def vector_pre_def vector_return_def One_def not_le
    elim!: work_at_accepted work_end_accepted)

lemmas work_methods = work_enter_def main_gate_def scalar_count_def scalar_pre_def scalar_return_def cleanup_pre_def
  mode_gate_def job_bound_def job_pre_def job_return_def wait_pre_def vector_count_def vector_pre_def
  vector_return_def work_exit_def work_end_def work_at_def work_top_def

lemma work_refused:
  assumes "work_step l m call = (m', False)"
  shows "rc_events m' = rc_events m \<and> rc_stack m' = rc_stack m \<and> wm_entries m' = wm_entries m
     \<and> wm_last m' = wm_last m \<and> wm_last_virtual m' = wm_last_virtual m \<and> wm_last_detail m' = wm_last_detail m
     \<and> wm_last_router m' = wm_last_router m \<and> (\<not> Writable m \<longrightarrow> \<not> Writable m')"
  using assms
  by (cases call) (auto simp: work_methods Let_def Freeze_def Writable_def dest!: attempt_False on_top_False)

lemma work_wf_refused:
  assumes "work_step l m call = (m', False)" "work_wf m"
  shows "work_wf m' \<and> work_pending_of m' = work_pending_of m"
  using work_refused [OF assms(1)] assms(2)
  by (simp add: work_wf_def entries_ok_def events_ok_def frames_ok_def work_pending_of_def invocation_of_def)

interpretation work: logged "work_step l" work_audit "(0, [])" work_pending_of "wl_events l" "wl_depth l"
    work_serials work_lanes work_wf for l
  by unfold_locales (auto dest: work_refused work_wf_refused work_accepted simp: work_accepts_def)

section \<open>Properties\<close>

definition work_run :: "work_limits \<Rightarrow> u64 \<Rightarrow> u64 \<Rightarrow> work_call list \<Rightarrow> work_model" where
  "work_run l epoch parent calls = run_events (\<lambda>m call. fst (work_step l m call)) (new_work epoch parent) calls"

lemma work_run_ok: "work.log_ok l (work_run l epoch parent calls)"
proof -
  have "work.next_record l = (\<lambda>m call. fst (work_step l m call))"
    by (simp add: fun_eq_iff work.next_record_def)
  moreover have "work_wf (new_work epoch parent)" "work_pending_of (new_work epoch parent) = (0, [])"
    by (simp_all add: new_work_def work_wf_def entries_ok_def events_ok_def frames_ok_def work_pending_of_def)
  ultimately show ?thesis
    unfolding work_run_def using work.log_ok_run [OF work.log_ok_new, of "new_work epoch parent" l calls]
    by (simp add: new_work_def)
qed

text \<open>C39: the log of work bodies is enough: although its events hold only operands, reading them by the
  protocol recomputes, after any calls, every field of every pending frame and the number of entries;
  the bounds hold; each event names its entry; and the entries are admissible, with serials that
  grow in all four lanes.\<close>

theorem work_log_sound:
  "let m = work_run l epoch parent calls in
     replay work_audit (0, []) (rc_events m)
       = Some (length (wm_entries m), map (\<lambda>f. (we_invocation (wm_entries m ! wf_index f), f)) (rc_stack m))
     \<and> length (rc_events m) \<le> wl_events l \<and> length (rc_stack m) \<le> wl_depth l
     \<and> map (\<lambda>e. wv_invocation e) (rc_events m) = map (\<lambda>e. we_invocation (wm_entries m ! wv_index e)) (rc_events m)
     \<and> sorted_wrt (list_all2 (<)) (map lanes_of (wm_entries m)) \<and> list_all work_parent_ok (wm_entries m)"
  using work_run_ok [of l epoch parent calls]
  by (auto simp: Let_def work.log_ok_def work_pending_of_def invocation_of_def work_wf_def entries_ok_def
      events_ok_def list_all_iff)

text \<open>What a complete frame has done: all its work, by one of the three ways through the body.\<close>

definition completed_ok :: "work_frame \<Rightarrow> bool" where
  "completed_ok f \<longleftrightarrow> unat (wf_scalars f) \<le> unat (wf_scalar_count f) \<and> unat (wf_scalar_count f) \<le> 65535
     \<and> unat (wf_cleanups f) \<le> unat (wf_scalars f)
     \<and> (if wf_main f = 0 then wf_scalars f = 0 \<and> wf_jobs f = 0 \<and> wf_waits f = 0 \<and> wf_vectors f = 0
        else if wf_mode f = 0
        then unat (wf_jobs f) = unat (wf_next_job f) \<and> signed_bound (wf_job_bound f) \<le> int (unat (wf_jobs f))
          \<and> wf_waits f = 1 \<and> wf_vectors f = 0
        else unat (wf_vectors f) = unat (wf_vector_count f) \<and> wf_jobs f = 0 \<and> wf_waits f = 0)"

lemma frame_completed: "work_frame_ok f \<Longrightarrow> wf_stage f = WorkComplete \<Longrightarrow> completed_ok f"
  unfolding work_frame_ok_def completed_ok_def scalars_ok_def
  by (auto simp: no_later_work_def jobs_ok_def vectors_ok_def split: if_splits) (metis uint_nat)

text \<open>The emission counters of a pending body are exact: each equals the number of its logged starts,
  and a body that may exit normally has done all its work: nothing after a zero main gate; otherwise
  scalars within the count and cleanups within the scalars, and then either jobs up to the last
  bound and one wait, or one vector call for each of the vector count.\<close>

theorem work_counts_exact:
  "let m = work_run l epoch parent calls in
     list_all (\<lambda>f. let logged = (\<lambda>k. of_nat (logged_steps k (wf_index f) (rc_events m))) in
         wf_scalars f = logged ScalarPreEvent \<and> wf_cleanups f = logged CleanupPreEvent
         \<and> wf_jobs f = logged JobPreEvent \<and> wf_waits f = logged WaitPreEvent \<and> wf_vectors f = logged VectorPreEvent)
       (rc_stack m)
     \<and> list_all completed_ok (filter (\<lambda>f. wf_stage f = WorkComplete) (rc_stack m))"
  using work_run_ok [of l epoch parent calls]
  by (auto simp: Let_def work.log_ok_def work_wf_def frames_ok_def counts_ok_def list_all_iff
      intro: frame_completed)

text \<open>The work entry that continues the first call of a virtual body.\<close>

definition work_entry_continuing :: "invocation_id \<Rightarrow> virtual_frame \<Rightarrow> work_entry" where
  "work_entry_continuing iv f = (let c = hd (vf_calls f) in
     \<lparr>we_invocation = iv, we_virtual = vf_entry f, we_call = c, we_target = kBody, we_caller = kWorkCaller,
      we_r3 = vc_r3 c, we_f1 = vc_f1 c\<rparr>)"

text \<open>C40: virtual and work records compose as consumer and virtual records do: the entry that repeats a logged
  first call directed at the tail is admitted by every writable work record whose lanes it fits and that
  has room.\<close>

theorem work_admits_logged_call:
  assumes "e \<in> set (rc_events (virtual_run c d epoch detail calls))" "sn_kind e = CallPreEvent"
    and "vf_returned (sn_frame e) = 0" "vc_target (hd (vf_calls (sn_frame e))) = kTail"
    and "Writable m" "work_lanes_ok m (work_entry_continuing iv (sn_frame e))"
    and "length (rc_stack m) < wl_depth l" "length (rc_events m) < wl_events l" "length (wm_entries m) < wl_entries l"
  shows "snd (work_enter l m (work_entry_continuing iv (sn_frame e)))"
proof -
  let ?f = "sn_frame e" and ?e = "work_entry_continuing iv (sn_frame e)"
  have ok: "virtual_frame_ok ?f" "vf_stage ?f = CallActive"
    using virtual_run_frames [OF assms(1)] assms(2) by blast+
  then have "vc_state (vf_calls ?f ! 0) = CallIsActive" "call_fits 0 (vf_calls ?f ! 0)"
    "virtual_claim (vf_entry ?f)" "vf_calls ?f \<noteq> []"
    using assms(3) by (auto simp: virtual_frame_ok_def expected_call_def)
  then have "work_parent_ok ?e" using assms(4)
    by (auto simp: work_parent_ok_def work_entry_continuing_def Let_def hd_conv_nth call_fits_def started_call_def
        virtual_claim_def virtual_parent_ok_def kCallReturnLr_def kWorkCaller_def)
  then have "first_failure [(work_lanes_ok m ?e \<and> work_parent_ok ?e, WorkIdentity),
      (length (rc_stack m) \<noteq> wl_depth l, WorkDepth), (length (wm_entries m) \<noteq> wl_entries l, WorkEntryCapacity),
      (Room (wl_events l) m, WorkEventCapacity)] = None"
    using assms(6-9) by (simp add: Room_def)
  then show ?thesis using assms(5) by (simp add: work_enter_def Let_def attempt_def)
qed

definition example_virtual_calls :: "virtual_call list" where
  "example_virtual_calls =
     [VEnter (entry_continuing \<lparr>iv_thread = 3, iv_serial = 4\<rparr>
        (sn_frame (last (rc_events (consumer_run 10 2 5 0 example_consumer_calls))))),
      VCallPre \<lparr>iv_thread = 3, iv_serial = 4\<rparr> 0 0x8258D1E8 11 12 0x82741010]"

theorem work_admits_logged_call_witness:
  "snd (work_enter \<lparr>wl_entries = 4, wl_events = 20, wl_depth = 2\<rparr> (new_work 2 0)
     (work_entry_continuing \<lparr>iv_thread = 2, iv_serial = 1\<rparr>
       (sn_frame (last (rc_events (virtual_run 10 2 3 0 example_virtual_calls))))))"
proof (rule work_admits_logged_call)
  let ?es = "rc_events (virtual_run 10 2 3 0 example_virtual_calls)"
  have "length ?es = 2" by code_simp
  then show "last ?es \<in> set ?es" by (intro last_in_set) auto
  show "sn_kind (last ?es) = CallPreEvent" by code_simp
  show "vf_returned (sn_frame (last ?es)) = 0" by code_simp
  show "vc_target (hd (vf_calls (sn_frame (last ?es)))) = kTail" by code_simp
  show "Writable (new_work 2 0)" by code_simp
  show "work_lanes_ok (new_work 2 0) (work_entry_continuing \<lparr>iv_thread = 2, iv_serial = 1\<rparr> (sn_frame (last ?es)))"
    by code_simp
qed (simp_all add: new_work_def)

end
