(* ===== verification/VectorTarget.thy ===== *)
theory VectorTarget
  imports WorkEmission
begin

text \<open>
  The record of the function that the vector calls of a work body may reach: seven call sites in a fixed
  order with two forks, a flag store, a gate and a counter. Entries claim a work entry and the operands
  of one of its vector calls, and check the claim with a work record of their own.
\<close>

section \<open>The data\<close>

definition kVectorTarget :: u32 where "kVectorTarget = 0x8259F300"
definition kVectorCaller :: u64 where "kVectorCaller = 0x825886F4"

text \<open>The sites, and one constructor for the values outside the enumeration, whose caller is 0.\<close>

datatype site = DirectE790 | Slot48 | Slot28 | DirectD1E8 | Slot100 | Slot104 | Slot192 | OtherSite u8

fun Caller :: "site \<Rightarrow> u64" where
  "Caller DirectE790 = 0x8259F334"
| "Caller Slot48 = 0x8259F34C"
| "Caller Slot28 = 0x8259F364"
| "Caller DirectD1E8 = 0x8259F36C"
| "Caller Slot100 = 0x8259F474"
| "Caller Slot104 = 0x8259F48C"
| "Caller Slot192 = 0x8259F4B4"
| "Caller (OtherSite _) = 0"

record target_entry =
  te_invocation :: invocation_id
  te_work :: work_entry
  te_pre :: work_payload
  te_parent_event :: u32
  te_target :: u32
  te_caller :: u64
  te_r3 :: u64
  te_v1 :: "u32 list"

datatype target_kind = TargetEntry | InitialV126Event | SitePreEvent | SiteReturnEvent | SiteExceptionEvent
  | FlagStoreEvent | Gate100Event | CounterLoadEvent | CounterStoreEvent | TargetNormalExit | TargetExceptionalExit

record target_payload =
  tp_fields :: "u64 list"
  tp_vector :: "u32 list"

record target_event =
  tv_invocation :: invocation_id
  tv_index :: nat
  tv_kind :: target_kind
  tv_site :: site
  tv_payload :: target_payload

datatype target_stage = TargetEntered | ReadyAt site | AtFlagStore | AtGate100 | AtCounterLoad
  | AtCounterStore | TargetComplete | SiteActive | SiteException

datatype target_fault = TargetIdentity | TargetTransition | TargetEntryCapacity | TargetEventCapacity | TargetDepth

record target_frame =
  tf_index :: nat
  tf_parent :: invocation_id
  tf_stage :: target_stage
  tf_active :: site
  tf_counter :: u64

record target_model = "(target_frame, target_event, target_fault) record_core" +
  tm_entries :: "target_entry list"
  tm_epoch :: u64
  tm_work :: u64
  tm_last :: u64
  tm_last_work :: u64

definition new_target :: "u64 \<Rightarrow> u64 \<Rightarrow> target_model" where
  "new_target epoch work = \<lparr>rc_frozen = False, rc_fault = (if epoch = 0 then Some TargetIdentity else None),
     rc_events = [], rc_stack = [], tm_entries = [], tm_epoch = epoch, tm_work = work, tm_last = 0, tm_last_work = 0\<rparr>"

section \<open>The methods\<close>

definition target_payload_of :: "u64 list \<Rightarrow> u32 list \<Rightarrow> target_payload" where
  "target_payload_of xs v = \<lparr>tp_fields = xs @ replicate (4 - length xs) 0, tp_vector = v\<rparr>"

definition target_entry_of :: "target_model \<Rightarrow> target_frame \<Rightarrow> target_entry" where
  "target_entry_of m f = tm_entries m ! tf_index f"

definition new_target_frame :: "nat \<Rightarrow> invocation_id \<Rightarrow> target_frame" where
  "new_target_frame index parent = \<lparr>tf_index = index, tf_parent = parent, tf_stage = TargetEntered,
     tf_active = DirectE790, tf_counter = 0\<rparr>"

definition target_emit :: "target_kind \<Rightarrow> target_payload \<Rightarrow> site \<Rightarrow> target_frame \<Rightarrow> target_frame list
    \<Rightarrow> target_model \<Rightarrow> target_model" where
  "target_emit k p s f st m =
     logged_change \<lparr>tv_invocation = te_invocation (target_entry_of m f), tv_index = tf_index f, tv_kind = k,
       tv_site = s, tv_payload = p\<rparr> st m"

text \<open>The throw-away work record that repeats the ancestry test of the claimed work entry.\<close>

definition ancestry_ok :: "work_entry \<Rightarrow> bool" where
  "ancestry_ok w = snd (work_enter \<lparr>wl_entries = 1, wl_events = 1, wl_depth = 1\<rparr>
     (new_work (iv_thread (we_invocation w)) 0) w)"

definition target_claim_ok :: "target_entry \<Rightarrow> bool" where
  "target_claim_ok e \<longleftrightarrow> (let w = te_work e; p = py_fields (te_pre e) in
     \<not> (\<not> ancestry_ok w \<or> te_target e \<noteq> kVectorTarget \<or> te_caller e \<noteq> kVectorCaller \<or> p ! 0 \<noteq> kVectorCaller
        \<or> (ucast (p ! 4) :: u32) \<noteq> kVectorTarget \<or> p ! 1 \<ge> 65535 \<or> \<not> list_all (\<lambda>x. x = 0) (drop 5 p)
        \<or> te_r3 e \<noteq> p ! 2 \<or> te_v1 e \<noteq> py_vector (te_pre e)
        \<or> te_parent_event e = 0 \<or> te_parent_event e \<ge> 65536))"

definition target_lanes_ok :: "target_model \<Rightarrow> target_entry \<Rightarrow> bool" where
  "target_lanes_ok m e \<longleftrightarrow> (let iv = te_invocation e; w = we_invocation (te_work e) in
     \<not> (iv_thread iv \<noteq> tm_epoch m \<or> iv_serial iv = 0 \<or> iv_serial iv \<le> tm_last m
        \<or> (tm_work m \<noteq> 0 \<and> iv_thread w \<noteq> tm_work m) \<or> iv_serial w < tm_last_work m))"

text \<open>The test against the entry before: a later event, and a smaller index if the work body is the same.\<close>

definition follows_entry :: "target_model \<Rightarrow> target_entry \<Rightarrow> bool" where
  "follows_entry m e \<longleftrightarrow> (tm_entries m = [] \<or> (let old = last (tm_entries m) in
     \<not> (te_parent_event e \<le> te_parent_event old
        \<or> (iv_serial (we_invocation (te_work e)) = tm_last_work m
           \<and> (te_work e \<noteq> te_work old \<or> py_fields (te_pre e) ! 1 \<ge> py_fields (te_pre old) ! 1)))))"

definition target_enter :: "work_limits \<Rightarrow> target_model \<Rightarrow> target_entry \<Rightarrow> target_model \<times> bool" where
  "target_enter l m e =
     (let parent = (case rc_stack m of [] \<Rightarrow> no_invocation | f # _ \<Rightarrow> te_invocation (target_entry_of m f));
          f = new_target_frame (length (tm_entries m)) parent; w = we_invocation (te_work e) in
      attempt [(target_claim_ok e \<and> target_lanes_ok m e, TargetIdentity), (follows_entry m e, TargetIdentity),
         (length (rc_stack m) \<noteq> wl_depth l, TargetDepth), (length (tm_entries m) \<noteq> wl_entries l, TargetEntryCapacity),
         (Room (wl_events l) m, TargetEventCapacity)] m
        (target_emit TargetEntry (target_payload_of [] no_vector) DirectE790 f (f # rc_stack m)
          (m\<lparr>tm_entries := tm_entries m @ [e], tm_work := iv_thread w, tm_last_work := iv_serial w,
             tm_last := iv_serial (te_invocation e)\<rparr>)))"

definition target_top :: "work_limits \<Rightarrow> invocation_id \<Rightarrow> (target_entry \<Rightarrow> target_frame \<Rightarrow> bool) \<Rightarrow> target_kind
    \<Rightarrow> target_payload \<Rightarrow> site \<Rightarrow> (target_frame \<Rightarrow> target_frame) \<Rightarrow> target_model \<Rightarrow> target_model \<times> bool" where
  "target_top l iv test k p s upd m =
     on_top (\<lambda>f. te_invocation (target_entry_of m f) = iv) TargetIdentity
       (\<lambda>f. [(test (target_entry_of m f) f, TargetTransition), (Room (wl_events l) m, TargetEventCapacity)])
       (\<lambda>f fs. target_emit k p s f (upd f # fs) m) m"

definition low32 :: "u64 \<Rightarrow> u32" where "low32 x = ucast x"

definition initial_v126 :: "work_limits \<Rightarrow> target_model \<Rightarrow> invocation_id \<Rightarrow> u32 \<Rightarrow> u32 list \<Rightarrow> target_model \<times> bool" where
  "initial_v126 l m iv address lanes =
     target_top l iv (\<lambda>e f. tf_stage f = TargetEntered \<and> address = and (low32 (te_r3 e) + 400) (not 15))
       InitialV126Event (target_payload_of [ucast address] lanes) DirectE790
       (\<lambda>f. f\<lparr>tf_stage := ReadyAt DirectE790\<rparr>) m"

definition site_pre :: "work_limits \<Rightarrow> target_model \<Rightarrow> invocation_id \<Rightarrow> site \<Rightarrow> u64 \<Rightarrow> u64 \<Rightarrow> u64 \<Rightarrow> u32 list
    \<Rightarrow> target_model \<times> bool" where
  "site_pre l m iv s lr r3 ctr v1 =
     target_top l iv
       (\<lambda>e f. \<not> (Caller s = 0 \<or> tf_stage f \<noteq> ReadyAt s \<or> lr \<noteq> Caller s \<or> r3 \<noteq> te_r3 e
                 \<or> ((s = DirectE790 \<or> s = Slot48 \<or> s = Slot28 \<or> s = Slot104) \<and> v1 \<noteq> te_v1 e)))
       SitePreEvent (target_payload_of [lr, r3, ctr, 0] v1) s
       (\<lambda>f. f\<lparr>tf_active := s, tf_stage := SiteActive\<rparr>) m"

fun After :: "site \<Rightarrow> target_stage" where
  "After DirectE790 = ReadyAt Slot48"
| "After Slot48 = ReadyAt Slot28"
| "After Slot28 = ReadyAt DirectD1E8"
| "After DirectD1E8 = AtFlagStore"
| "After Slot100 = ReadyAt Slot104"
| "After Slot104 = AtCounterLoad"
| "After Slot192 = TargetComplete"
| "After (OtherSite _) = TargetEntered"

definition site_end :: "work_limits \<Rightarrow> target_model \<Rightarrow> invocation_id \<Rightarrow> site \<Rightarrow> bool \<Rightarrow> target_model \<times> bool" where
  "site_end l m iv s failed =
     target_top l iv (\<lambda>e f. tf_stage f = SiteActive \<and> tf_active f = s)
       (if failed then SiteExceptionEvent else SiteReturnEvent) (target_payload_of [] no_vector) s
       (\<lambda>f. f\<lparr>tf_stage := (if failed then SiteException else After s)\<rparr>) m"

definition flag_store :: "work_limits \<Rightarrow> target_model \<Rightarrow> invocation_id \<Rightarrow> u32 \<Rightarrow> u64 \<Rightarrow> target_model \<times> bool" where
  "flag_store l m iv address r3 =
     target_top l iv (\<lambda>e f. tf_stage f = AtFlagStore \<and> address = low32 (te_r3 e) + 657 \<and> r3 \<le> 1)
       FlagStoreEvent (target_payload_of [ucast address, r3, 0, 0] no_vector) DirectE790
       (\<lambda>f. f\<lparr>tf_stage := AtGate100\<rparr>) m"

definition gate100 :: "work_limits \<Rightarrow> target_model \<Rightarrow> invocation_id \<Rightarrow> u64 \<Rightarrow> target_model \<times> bool" where
  "gate100 l m iv r10 =
     target_top l iv (\<lambda>e f. tf_stage f = AtGate100 \<and> (r10 = 0 \<or> r10 = 16))
       Gate100Event (target_payload_of [r10] no_vector) DirectE790
       (\<lambda>f. f\<lparr>tf_stage := ReadyAt (if r10 \<noteq> 0 then Slot104 else Slot100)\<rparr>) m"

definition counter_load :: "work_limits \<Rightarrow> target_model \<Rightarrow> invocation_id \<Rightarrow> u32 \<Rightarrow> u64 \<Rightarrow> target_model \<times> bool" where
  "counter_load l m iv address loaded =
     target_top l iv (\<lambda>e f. tf_stage f = AtCounterLoad \<and> address = low32 (te_r3 e) + 664 \<and> loaded \<le> 0xFFFFFFFF)
       CounterLoadEvent (target_payload_of [ucast address, loaded, 0, 0] no_vector) DirectE790
       (\<lambda>f. f\<lparr>tf_counter := loaded, tf_stage := AtCounterStore\<rparr>) m"

definition counter_store :: "work_limits \<Rightarrow> target_model \<Rightarrow> invocation_id \<Rightarrow> u32 \<Rightarrow> u64 \<Rightarrow> u64 \<Rightarrow> target_model \<times> bool" where
  "counter_store l m iv address loaded incremented =
     target_top l iv
       (\<lambda>e f. tf_stage f = AtCounterStore \<and> \<not> (address \<noteq> low32 (te_r3 e) + 664 \<or> loaded > 0xFFFFFFFF
                 \<or> loaded \<noteq> tf_counter f \<or> incremented \<noteq> loaded + 1))
       CounterStoreEvent (target_payload_of [ucast address, loaded, incremented, 0] no_vector) DirectE790
       (\<lambda>f. f\<lparr>tf_stage := (if low32 incremented > 32 \<and> low32 incremented < 0x80000000
                          then ReadyAt Slot192 else TargetComplete)\<rparr>) m"

definition target_exit :: "work_limits \<Rightarrow> target_model \<Rightarrow> invocation_id \<Rightarrow> bool \<Rightarrow> target_model \<times> bool" where
  "target_exit l m iv normal =
     on_top (\<lambda>f. te_invocation (target_entry_of m f) = iv) TargetIdentity
       (\<lambda>f. [(\<not> (normal \<and> tf_stage f \<noteq> TargetComplete), TargetTransition), (Room (wl_events l) m, TargetEventCapacity)])
       (\<lambda>f fs. target_emit (if normal then TargetNormalExit else TargetExceptionalExit)
          (target_payload_of [] no_vector) DirectE790 f fs m) m"

datatype target_call =
    TEnter target_entry
  | TInitialV126 invocation_id u32 "u32 list"
  | TCallPre invocation_id site u64 u64 u64 "u32 list"
  | TCallReturn invocation_id site
  | TCallException invocation_id site
  | TFlagStore invocation_id u32 u64
  | TGate100 invocation_id u64
  | TCounterLoad invocation_id u32 u64
  | TCounterStore invocation_id u32 u64 u64
  | TExit invocation_id bool
  | TFreeze

fun target_step :: "work_limits \<Rightarrow> target_model \<Rightarrow> target_call \<Rightarrow> target_model \<times> bool" where
  "target_step l m (TEnter e) = target_enter l m e"
| "target_step l m (TInitialV126 iv address lanes) = initial_v126 l m iv address lanes"
| "target_step l m (TCallPre iv s lr r3 ctr v1) = site_pre l m iv s lr r3 ctr v1"
| "target_step l m (TCallReturn iv s) = site_end l m iv s False"
| "target_step l m (TCallException iv s) = site_end l m iv s True"
| "target_step l m (TFlagStore iv address r3) = flag_store l m iv address r3"
| "target_step l m (TGate100 iv r10) = gate100 l m iv r10"
| "target_step l m (TCounterLoad iv address loaded) = counter_load l m iv address loaded"
| "target_step l m (TCounterStore iv address loaded incremented) = counter_store l m iv address loaded incremented"
| "target_step l m (TExit iv normal) = target_exit l m iv normal"
| "target_step l m TFreeze = (Freeze m, False)"

section \<open>A reader of the log\<close>

fun target_read :: "target_event \<Rightarrow> target_frame \<Rightarrow> target_frame option" where
  "target_read e f = (let xs = tp_fields (tv_payload e); s = tv_site e in
     case (tv_kind e, tf_stage f) of
       (InitialV126Event, TargetEntered) \<Rightarrow> Some (f\<lparr>tf_stage := ReadyAt DirectE790\<rparr>)
     | (SitePreEvent, ReadyAt r) \<Rightarrow> if r = s \<and> hd xs = Caller s then Some (f\<lparr>tf_active := s, tf_stage := SiteActive\<rparr>) else None
     | (SiteReturnEvent, SiteActive) \<Rightarrow> if tf_active f = s then Some (f\<lparr>tf_stage := After s\<rparr>) else None
     | (SiteExceptionEvent, SiteActive) \<Rightarrow> if tf_active f = s then Some (f\<lparr>tf_stage := SiteException\<rparr>) else None
     | (FlagStoreEvent, AtFlagStore) \<Rightarrow> if xs ! 1 \<le> 1 then Some (f\<lparr>tf_stage := AtGate100\<rparr>) else None
     | (Gate100Event, AtGate100) \<Rightarrow>
         if hd xs = 0 then Some (f\<lparr>tf_stage := ReadyAt Slot100\<rparr>)
         else if hd xs = 16 then Some (f\<lparr>tf_stage := ReadyAt Slot104\<rparr>) else None
     | (CounterLoadEvent, AtCounterLoad) \<Rightarrow> Some (f\<lparr>tf_counter := xs ! 1, tf_stage := AtCounterStore\<rparr>)
     | (CounterStoreEvent, AtCounterStore) \<Rightarrow>
         if xs ! 1 = tf_counter f \<and> xs ! 2 = tf_counter f + 1
         then Some (f\<lparr>tf_stage := (if 32 < low32 (xs ! 2) \<and> low32 (xs ! 2) < 0x80000000 then ReadyAt Slot192
                                  else TargetComplete)\<rparr>)
         else None
     | _ \<Rightarrow> None)"

type_synonym target_pending = "nat \<times> (invocation_id \<times> target_frame) list"

definition target_audit :: "target_pending \<Rightarrow> target_event \<Rightarrow> target_pending option" where
  "target_audit s e = (case s of (n, st) \<Rightarrow>
     if tv_kind e = TargetEntry
     then (if tv_index e = n
           then Some (n + 1, (tv_invocation e, new_target_frame n (case st of [] \<Rightarrow> no_invocation | (iv, _) # _ \<Rightarrow> iv)) # st)
           else None)
     else case st of
         [] \<Rightarrow> None
       | (iv, f) # r \<Rightarrow>
           if tv_invocation e \<noteq> iv \<or> tv_index e \<noteq> tf_index f then None
           else if tv_kind e = TargetNormalExit then (if tf_stage f = TargetComplete then Some (n, r) else None)
           else if tv_kind e = TargetExceptionalExit then Some (n, r)
           else map_option (\<lambda>g. (n, (iv, g) # r)) (target_read e f))"

definition target_pending_of :: "target_model \<Rightarrow> target_pending" where
  "target_pending_of m = (length (tm_entries m), map (\<lambda>f. (te_invocation (target_entry_of m f), f)) (rc_stack m))"

text \<open>The operands that an event may carry, by the entry it belongs to.\<close>

definition operands_ok :: "target_entry \<Rightarrow> target_event \<Rightarrow> bool" where
  "operands_ok n e = (let xs = tp_fields (tv_payload e); v = tp_vector (tv_payload e) in
     case tv_kind e of
       InitialV126Event \<Rightarrow> xs ! 0 = ucast (and (low32 (te_r3 n) + 400) (not 15))
     | SitePreEvent \<Rightarrow> xs ! 0 = Caller (tv_site e) \<and> xs ! 1 = te_r3 n
         \<and> (v = te_v1 n \<or> tv_site e \<notin> {DirectE790, Slot48, Slot28, Slot104})
     | FlagStoreEvent \<Rightarrow> xs ! 0 = ucast (low32 (te_r3 n) + 657) \<and> xs ! 1 \<le> 1
     | CounterLoadEvent \<Rightarrow> xs ! 0 = ucast (low32 (te_r3 n) + 664) \<and> xs ! 1 \<le> 0xFFFFFFFF
     | CounterStoreEvent \<Rightarrow> xs ! 0 = ucast (low32 (te_r3 n) + 664) \<and> xs ! 1 \<le> 0xFFFFFFFF \<and> xs ! 2 = xs ! 1 + 1
     | _ \<Rightarrow> True)"

section \<open>The invariant of the record\<close>

definition target_lanes_of :: "target_entry \<Rightarrow> u64 list" where
  "target_lanes_of e = [iv_serial (te_invocation e), ucast (te_parent_event e)]"

definition target_entries_ok :: "target_model \<Rightarrow> bool" where
  "target_entries_ok m \<longleftrightarrow> sorted_wrt (list_all2 (<)) (map target_lanes_of (tm_entries m))
     \<and> list_all (\<lambda>e. target_claim_ok e \<and> iv_serial (te_invocation e) \<le> tm_last m) (tm_entries m)"

definition target_events_ok :: "target_model \<Rightarrow> bool" where
  "target_events_ok m \<longleftrightarrow> list_all (\<lambda>e. tv_index e < length (tm_entries m)
     \<and> tv_invocation e = te_invocation (tm_entries m ! tv_index e)
     \<and> operands_ok (tm_entries m ! tv_index e) e) (rc_events m)"

definition target_wf :: "target_model \<Rightarrow> bool" where
  "target_wf m \<longleftrightarrow> target_entries_ok m \<and> target_events_ok m
     \<and> list_all (\<lambda>f. tf_index f < length (tm_entries m)) (rc_stack m)"

abbreviation target_lanes :: "target_model \<Rightarrow> u64 list" where "target_lanes m \<equiv> [tm_last m]"

definition target_serials :: "target_event \<Rightarrow> u64 list option" where
  "target_serials e = (if tv_kind e = TargetEntry then Some [iv_serial (tv_invocation e)] else None)"

definition target_accepts :: "work_limits \<Rightarrow> target_model \<Rightarrow> target_model \<Rightarrow> bool" where
  "target_accepts l m m' \<longleftrightarrow> target_wf m' \<and> Writable m \<and> length (rc_events m) < wl_events l
     \<and> (length (rc_stack m) \<le> wl_depth l \<longrightarrow> length (rc_stack m') \<le> wl_depth l)
     \<and> (\<exists>e. rc_events m' = rc_events m @ [e] \<and> target_audit (target_pending_of m) e = Some (target_pending_of m')
         \<and> (case target_serials e of None \<Rightarrow> target_lanes m' = target_lanes m
            | Some n \<Rightarrow> list_all2 (<) (target_lanes m) n \<and> target_lanes m' = n))"

lemma target_emit_simps [simp]:
  "tm_entries (target_emit k p s f st m) = tm_entries m"
  "rc_stack (target_emit k p s f st m) = st"
  "tm_last (target_emit k p s f st m) = tm_last m"
  "tm_last_work (target_emit k p s f st m) = tm_last_work m"
  "rc_events (target_emit k p s f st m) = rc_events m
     @ [\<lparr>tv_invocation = te_invocation (target_entry_of m f), tv_index = tf_index f, tv_kind = k, tv_site = s,
         tv_payload = p\<rparr>]"
  by (simp_all add: target_emit_def logged_change_def)

lemma target_read_frame: "target_read e f = Some g \<Longrightarrow> tf_index g = tf_index f
    \<and> tv_kind e \<notin> {TargetEntry, TargetNormalExit, TargetExceptionalExit}"
  by (auto simp: Let_def split: target_kind.splits target_stage.splits if_splits)

lemma target_top_accepted:
  assumes "target_top l iv test k p s upd m = (m', True)" and wf: "target_wf m"
    and read: "\<And>n f i. test n f \<Longrightarrow>
      target_read \<lparr>tv_invocation = i, tv_index = tf_index f, tv_kind = k, tv_site = s, tv_payload = p\<rparr> f = Some (upd f)
      \<and> operands_ok n \<lparr>tv_invocation = i, tv_index = tf_index f, tv_kind = k, tv_site = s, tv_payload = p\<rparr>"
  shows "target_accepts l m m'"
proof -
  obtain f fs where w: "Writable m" "length (rc_events m) < wl_events l" and st: "rc_stack m = f # fs"
    and t: "test (target_entry_of m f) f" and m': "m' = target_emit k p s f (upd f # fs) m"
    using assms(1) by (auto simp: target_top_def on_top_True Room_def split: if_splits)
  let ?e = "\<lparr>tv_invocation = te_invocation (target_entry_of m f), tv_index = tf_index f, tv_kind = k, tv_site = s,
      tv_payload = p\<rparr>"
  note r = conjunct1 [OF read [OF t]] and o = conjunct2 [OF read [OF t]]
  note fr = target_read_frame [OF r]
  have f: "tf_index f < length (tm_entries m)" using wf st by (simp add: target_wf_def)
  have "target_entries_ok m'" using wf by (simp add: m' target_wf_def target_entries_ok_def)
  moreover have "target_events_ok m'" using wf f o
    by (simp add: m' target_wf_def target_events_ok_def target_entry_of_def)
  ultimately have "target_wf m'" using wf fr st by (simp add: target_wf_def m')
  moreover have "target_audit (target_pending_of m) ?e = Some (target_pending_of m')"
    using r fr by (simp add: target_audit_def target_pending_of_def st m' target_entry_of_def del: target_read.simps)
  ultimately show ?thesis using w fr by (auto simp: target_accepts_def m' st target_serials_def)
qed

lemma target_exit_accepted:
  assumes "target_exit l m iv normal = (m', True)" and wf: "target_wf m"
  shows "target_accepts l m m'"
proof -
  let ?k = "if normal then TargetNormalExit else TargetExceptionalExit" and ?p = "target_payload_of [] no_vector"
  obtain f fs where w: "Writable m" "length (rc_events m) < wl_events l" and st: "rc_stack m = f # fs"
    and ok: "normal \<Longrightarrow> tf_stage f = TargetComplete" and m': "m' = target_emit ?k ?p DirectE790 f fs m"
    using assms(1) by (auto simp: target_exit_def on_top_True Room_def split: if_splits)
  let ?e = "\<lparr>tv_invocation = te_invocation (target_entry_of m f), tv_index = tf_index f, tv_kind = ?k,
      tv_site = DirectE790, tv_payload = ?p\<rparr>"
  have f: "tf_index f < length (tm_entries m)" using wf st by (simp add: target_wf_def)
  have "target_entries_ok m'" using wf by (simp add: m' target_wf_def target_entries_ok_def)
  moreover have "target_events_ok m'" using wf f
    by (simp add: m' target_wf_def target_events_ok_def target_entry_of_def operands_ok_def)
  ultimately have "target_wf m'" using wf st by (simp add: target_wf_def m')
  moreover have "target_audit (target_pending_of m) ?e = Some (target_pending_of m')"
    using ok by (simp add: target_audit_def target_pending_of_def st m' target_entry_of_def)
  ultimately show ?thesis using w by (auto simp: target_accepts_def m' st target_serials_def)
qed

lemma ucast_less: "(a :: u32) < b \<Longrightarrow> (ucast a :: u64) < ucast b"
proof -
  have "unat x < 2 ^ 64" for x :: u32 by (rule less_trans [OF unsigned_less]) simp
  then have "unat (ucast x :: u64) = unat x" for x :: u32 by (simp add: unsigned_ucast_eq take_bit_nat_eq_self)
  then show "a < b \<Longrightarrow> ?thesis" by (simp add: word_less_nat_alt)
qed

lemma sorted_wrt_last: "sorted_wrt R xs \<Longrightarrow> x \<in> set xs \<Longrightarrow> x = last xs \<or> R x (last xs)"
  by (induction xs rule: rev_induct) (auto simp: sorted_wrt_append)

lemma target_enter_accepted:
  assumes "target_enter l m e = (m', True)" and wf: "target_wf m"
  shows "target_accepts l m m'"
proof -
  let ?parent = "case rc_stack m of [] \<Rightarrow> no_invocation | f # _ \<Rightarrow> te_invocation (target_entry_of m f)"
  let ?n = "length (tm_entries m)" and ?p = "target_payload_of [] no_vector"
  let ?f = "new_target_frame ?n ?parent"
  let ?e = "\<lparr>tv_invocation = te_invocation e, tv_index = ?n, tv_kind = TargetEntry, tv_site = DirectE790, tv_payload = ?p\<rparr>"
  have w: "Writable m" "length (rc_events m) < wl_events l" "length (rc_stack m) \<noteq> wl_depth l"
    and adm: "target_claim_ok e" and lanes: "target_lanes_ok m e" and follows: "follows_entry m e"
    and m': "rc_events m' = rc_events m @ [?e]" "rc_stack m' = ?f # rc_stack m" "tm_entries m' = tm_entries m @ [e]"
      "tm_last m' = iv_serial (te_invocation e)"
    using assms(1)
    by (auto simp: target_enter_def Let_def attempt_True Room_def new_target_frame_def target_entry_of_def
        split: if_splits)
  have grow: "tm_last m < iv_serial (te_invocation e)" using lanes by (auto simp: target_lanes_ok_def Let_def)
  have older: "list_all2 (<) (target_lanes_of x) (target_lanes_of e)" if x: "x \<in> set (tm_entries m)" for x
  proof -
    have "iv_serial (te_invocation x) < iv_serial (te_invocation e)"
      using wf x grow by (fastforce simp: target_wf_def target_entries_ok_def list_all_iff)
    moreover have "te_parent_event (last (tm_entries m)) < te_parent_event e"
      using follows x by (auto simp: follows_entry_def Let_def)
    moreover have "x = last (tm_entries m) \<or> list_all2 (<) (target_lanes_of x) (target_lanes_of (last (tm_entries m)))"
      using sorted_wrt_last [OF _ x, of "\<lambda>a b. list_all2 (<) (target_lanes_of a) (target_lanes_of b)"] wf
      by (simp add: target_wf_def target_entries_ok_def sorted_wrt_map)
    ultimately show ?thesis by (auto simp: target_lanes_of_def dest: ucast_less)
  qed
  then have "target_entries_ok m'" using wf grow adm
    by (auto simp: target_wf_def target_entries_ok_def m' sorted_wrt_append list_all_iff)
  moreover have "target_events_ok m'" using wf
    by (auto simp: target_wf_def target_events_ok_def m' nth_append list_all_iff operands_ok_def)
  moreover have old: "tf_index g < ?n" if "g \<in> set (rc_stack m)" for g
    using wf that by (auto simp: target_wf_def list_all_iff)
  moreover have "tf_index ?f = ?n" by (simp add: new_target_frame_def)
  ultimately have "target_wf m'"
    by (auto simp: target_wf_def m' list_all_iff intro: less_SucI)
  moreover have "map (\<lambda>f. (te_invocation (target_entry_of m' f), f)) (rc_stack m)
      = map (\<lambda>f. (te_invocation (target_entry_of m f), f)) (rc_stack m)"
    using old by (auto simp: target_entry_of_def m' nth_append)
  then have "target_audit (target_pending_of m) ?e = Some (target_pending_of m')"
    by (cases "rc_stack m") (simp_all add: target_audit_def target_pending_of_def m' target_entry_of_def new_target_frame_def)
  ultimately show ?thesis using w grow by (auto simp: target_accepts_def m' target_serials_def)
qed

lemma target_payload_simps [simp]:
  "i < length xs \<Longrightarrow> tp_fields (target_payload_of xs v) ! i = xs ! i"
  "xs \<noteq> [] \<Longrightarrow> hd (tp_fields (target_payload_of xs v)) = hd xs"
  "tp_vector (target_payload_of xs v) = v"
  by (simp_all add: target_payload_of_def nth_append)

lemma target_accepted: "target_step l m call = (m', True) \<Longrightarrow> target_wf m \<Longrightarrow> target_accepts l m m'"
proof (cases call)
  case (TEnter e)
  then show "target_step l m call = (m', True) \<Longrightarrow> target_wf m \<Longrightarrow> ?thesis" by (simp add: target_enter_accepted)
next
  case (TExit iv normal)
  then show "target_step l m call = (m', True) \<Longrightarrow> target_wf m \<Longrightarrow> ?thesis" by (simp add: target_exit_accepted)
qed (auto simp: initial_v126_def site_pre_def site_end_def flag_store_def gate100_def counter_load_def
    counter_store_def operands_ok_def not_less elim!: target_top_accepted)

lemmas target_methods = target_enter_def initial_v126_def site_pre_def site_end_def flag_store_def gate100_def
  counter_load_def counter_store_def target_exit_def target_top_def

lemma target_refused:
  assumes "target_step l m call = (m', False)"
  shows "rc_events m' = rc_events m \<and> rc_stack m' = rc_stack m \<and> tm_entries m' = tm_entries m
     \<and> tm_last m' = tm_last m \<and> (\<not> Writable m \<longrightarrow> \<not> Writable m')"
  using assms
  by (cases call) (auto simp: target_methods Let_def Freeze_def Writable_def dest!: attempt_False on_top_False)

lemma target_wf_refused:
  assumes "target_step l m call = (m', False)" "target_wf m"
  shows "target_wf m' \<and> target_pending_of m' = target_pending_of m"
  using target_refused [OF assms(1)] assms(2)
  by (simp add: target_wf_def target_entries_ok_def target_events_ok_def target_pending_of_def target_entry_of_def)

interpretation target: logged "target_step l" target_audit "(0, [])" target_pending_of "wl_events l" "wl_depth l"
    target_serials target_lanes target_wf for l
  by unfold_locales (auto dest: target_refused target_wf_refused target_accepted simp: target_accepts_def)

section \<open>Properties\<close>

definition target_run :: "work_limits \<Rightarrow> u64 \<Rightarrow> u64 \<Rightarrow> target_call list \<Rightarrow> target_model" where
  "target_run l epoch work calls = run_events (\<lambda>m call. fst (target_step l m call)) (new_target epoch work) calls"

lemma target_run_ok: "target.log_ok l (target_run l epoch work calls)"
proof -
  have "target.next_record l = (\<lambda>m call. fst (target_step l m call))"
    by (simp add: fun_eq_iff target.next_record_def)
  moreover have "target_wf (new_target epoch work)" "target_pending_of (new_target epoch work) = (0, [])"
    by (simp_all add: new_target_def target_wf_def target_entries_ok_def target_events_ok_def target_pending_of_def)
  ultimately show ?thesis
    unfolding target_run_def using target.log_ok_run [OF target.log_ok_new, of "new_target epoch work" l calls]
    by (simp add: new_target_def)
qed

text \<open>The log of vector targets is enough: after any calls, reading it by the seven sites, their two
  forks and the counter recomputes every pending frame and the number of entries; the bounds hold;
  each event names its entry and carries the operands that this entry determines (addresses from its
  base, the caller of the site, the vector handed in, an increment by one); and the entries are admissible
  claims, with serials and parent events that grow.\<close>

theorem target_log_sound:
  "let m = target_run l epoch work calls in
     replay target_audit (0, []) (rc_events m)
       = Some (length (tm_entries m), map (\<lambda>f. (te_invocation (tm_entries m ! tf_index f), f)) (rc_stack m))
     \<and> length (rc_events m) \<le> wl_events l \<and> length (rc_stack m) \<le> wl_depth l
     \<and> map tv_invocation (rc_events m) = map (\<lambda>e. te_invocation (tm_entries m ! tv_index e)) (rc_events m)
     \<and> list_all (\<lambda>e. operands_ok (tm_entries m ! tv_index e) e) (rc_events m)
     \<and> sorted_wrt (list_all2 (<)) (map target_lanes_of (tm_entries m)) \<and> list_all target_claim_ok (tm_entries m)"
  using target_run_ok [of l epoch work calls]
  by (auto simp: Let_def target.log_ok_def target_pending_of_def target_entry_of_def target_wf_def target_entries_ok_def
      target_events_ok_def list_all_iff)

end
