(* ===== verification/VectorStore.thy ===== *)
theory VectorStore
  imports VectorTarget
begin

text \<open>
  The record of the arithmetic and store slice that the third site of a vector target calls: three loads,
  two computed vectors, one store and a tail call. Entries claim a target entry and the operands of its
  Slot28 call, and check the claim with a target record of their own.
\<close>

section \<open>The data\<close>

definition kStoreTarget :: u32 where "kStoreTarget = 0x8259E768"
definition kStoreTail :: u32 where "kStoreTail = 0x8259D030"
definition kStoreCaller :: u64 where "kStoreCaller = 0x8259F364"

record store_entry =
  so_invocation :: invocation_id
  so_target_entry :: target_entry
  so_pre :: target_payload
  so_parent_event :: u32
  so_target :: u32
  so_caller :: u64
  so_r3 :: u64
  so_v1 :: "u32 list"

datatype store_kind = StoreEntry | OldLoadedEvent | RateLoadedEvent | ComputedEvent | AuxLoadedEvent | ScaledEvent
  | StoredEvent | TailPreEvent | TailReturnEvent | TailExceptionEvent | StoreNormalExit | StoreExceptionalExit

datatype store_stage = StoreEntered | AfterOldLoaded | AfterRateLoaded | AfterComputed | AfterAuxLoaded
  | AfterScaled | AfterStored | TailActive | TailReturned | TailRaised

datatype store_fault = StoreIdentity | StoreTransition | StoreEntryCapacity | StoreEventCapacity | StoreDepth

record store_payload =
  sp_fields :: "u64 list"
  sp_vector :: "u32 list"

record store_event =
  sv_invocation :: invocation_id
  sv_index :: nat
  sv_kind :: store_kind
  sv_payload :: store_payload

record store_frame =
  sf_index :: nat
  sf_parent :: invocation_id
  sf_stage :: store_stage
  sf_computed :: "u32 list"
  sf_scaled :: "u32 list"

record store_model = "(store_frame, store_event, store_fault) record_core" +
  sm_entries :: "store_entry list"
  sm_epoch :: u64
  sm_target :: u64
  sm_last :: u64
  sm_last_target :: u64

definition new_store :: "u64 \<Rightarrow> u64 \<Rightarrow> store_model" where
  "new_store epoch target = \<lparr>rc_frozen = False, rc_fault = (if epoch = 0 then Some StoreIdentity else None),
     rc_events = [], rc_stack = [], sm_entries = [], sm_epoch = epoch, sm_target = target, sm_last = 0,
     sm_last_target = 0\<rparr>"

section \<open>The methods\<close>

definition store_payload_of :: "u64 list \<Rightarrow> u32 list \<Rightarrow> store_payload" where
  "store_payload_of xs v = \<lparr>sp_fields = xs @ replicate (4 - length xs) 0, sp_vector = v\<rparr>"

definition store_entry_of :: "store_model \<Rightarrow> store_frame \<Rightarrow> store_entry" where
  "store_entry_of m f = sm_entries m ! sf_index f"

definition new_store_frame :: "nat \<Rightarrow> invocation_id \<Rightarrow> store_frame" where
  "new_store_frame index parent = \<lparr>sf_index = index, sf_parent = parent, sf_stage = StoreEntered,
     sf_computed = no_vector, sf_scaled = no_vector\<rparr>"

definition store_emit :: "store_kind \<Rightarrow> store_payload \<Rightarrow> store_frame \<Rightarrow> store_frame list \<Rightarrow> store_model \<Rightarrow> store_model" where
  "store_emit k p f st m =
     logged_change \<lparr>sv_invocation = so_invocation (store_entry_of m f), sv_index = sf_index f, sv_kind = k,
       sv_payload = p\<rparr> st m"

text \<open>The throw-away target record that repeats the claim of the target entry.\<close>

definition target_chain_ok :: "target_entry \<Rightarrow> bool" where
  "target_chain_ok p = snd (target_enter \<lparr>wl_entries = 1, wl_events = 1, wl_depth = 1\<rparr>
     (new_target (iv_thread (te_invocation p)) 0) p)"

definition store_claim_ok :: "store_entry \<Rightarrow> bool" where
  "store_claim_ok e \<longleftrightarrow> (let p = so_target_entry e; c = tp_fields (so_pre e) in
     \<not> (\<not> target_chain_ok p \<or> so_parent_event e = 0 \<or> so_parent_event e \<ge> 65536
        \<or> so_target e \<noteq> kStoreTarget \<or> so_caller e \<noteq> kStoreCaller \<or> so_r3 e \<noteq> te_r3 p \<or> so_v1 e \<noteq> te_v1 p
        \<or> c ! 0 \<noteq> kStoreCaller \<or> c ! 1 \<noteq> te_r3 p \<or> low32 (c ! 2) \<noteq> kStoreTarget \<or> c ! 3 \<noteq> 0
        \<or> tp_vector (so_pre e) \<noteq> te_v1 p))"

definition store_lanes_ok :: "store_model \<Rightarrow> store_entry \<Rightarrow> bool" where
  "store_lanes_ok m e \<longleftrightarrow> (let iv = so_invocation e; t = te_invocation (so_target_entry e) in
     \<not> (iv_thread iv \<noteq> sm_epoch m \<or> iv_serial iv = 0 \<or> iv_serial iv \<le> sm_last m
        \<or> (sm_target m \<noteq> 0 \<and> iv_thread t \<noteq> sm_target m) \<or> iv_serial t \<le> sm_last_target m
        \<or> (sm_entries m \<noteq> [] \<and> so_parent_event e \<le> so_parent_event (last (sm_entries m)))))"

definition store_enter :: "work_limits \<Rightarrow> store_model \<Rightarrow> store_entry \<Rightarrow> store_model \<times> bool" where
  "store_enter l m e =
     (let parent = (case rc_stack m of [] \<Rightarrow> no_invocation | f # _ \<Rightarrow> so_invocation (store_entry_of m f));
          f = new_store_frame (length (sm_entries m)) parent; t = te_invocation (so_target_entry e) in
      attempt [(store_claim_ok e \<and> store_lanes_ok m e, StoreIdentity),
         (length (rc_stack m) \<noteq> wl_depth l, StoreDepth), (length (sm_entries m) \<noteq> wl_entries l, StoreEntryCapacity),
         (Room (wl_events l) m, StoreEventCapacity)] m
        (store_emit StoreEntry (store_payload_of [] no_vector) f (f # rc_stack m)
          (m\<lparr>sm_entries := sm_entries m @ [e], sm_target := iv_thread t, sm_last_target := iv_serial t,
             sm_last := iv_serial (so_invocation e)\<rparr>)))"

definition store_top :: "work_limits \<Rightarrow> invocation_id \<Rightarrow> (store_entry \<Rightarrow> store_frame \<Rightarrow> bool) \<Rightarrow> store_kind
    \<Rightarrow> store_payload \<Rightarrow> (store_frame \<Rightarrow> store_frame) \<Rightarrow> store_model \<Rightarrow> store_model \<times> bool" where
  "store_top l iv test k p upd m =
     on_top (\<lambda>f. so_invocation (store_entry_of m f) = iv) StoreIdentity
       (\<lambda>f. [(test (store_entry_of m f) f, StoreTransition), (Room (wl_events l) m, StoreEventCapacity)])
       (\<lambda>f fs. store_emit k p f (upd f # fs) m) m"

definition Address :: "store_entry \<Rightarrow> u32 \<Rightarrow> u32" where
  "Address e offset = and (low32 (so_r3 e) + offset) (not 15)"

definition Loaded :: "work_limits \<Rightarrow> store_model \<Rightarrow> invocation_id \<Rightarrow> store_stage \<Rightarrow> store_stage \<Rightarrow> store_kind \<Rightarrow> u32
    \<Rightarrow> u32 \<Rightarrow> u32 list \<Rightarrow> store_model \<times> bool" where
  "Loaded l m iv before after k offset ea v =
     store_top l iv (\<lambda>e f. sf_stage f = before \<and> ea = Address e offset) k (store_payload_of [ucast ea] v)
       (\<lambda>f. f\<lparr>sf_stage := after\<rparr>) m"

definition old_loaded :: "work_limits \<Rightarrow> store_model \<Rightarrow> invocation_id \<Rightarrow> u32 \<Rightarrow> u32 list \<Rightarrow> store_model \<times> bool" where
  "old_loaded l m iv ea v = Loaded l m iv StoreEntered AfterOldLoaded OldLoadedEvent 256 ea v"

definition rate_loaded :: "work_limits \<Rightarrow> store_model \<Rightarrow> invocation_id \<Rightarrow> u32 \<Rightarrow> u32 list \<Rightarrow> store_model \<times> bool" where
  "rate_loaded l m iv ea v = Loaded l m iv AfterOldLoaded AfterRateLoaded RateLoadedEvent 272 ea v"

definition computed :: "work_limits \<Rightarrow> store_model \<Rightarrow> invocation_id \<Rightarrow> u32 list \<Rightarrow> store_model \<times> bool" where
  "computed l m iv v =
     store_top l iv (\<lambda>e f. sf_stage f = AfterRateLoaded) ComputedEvent (store_payload_of [] v)
       (\<lambda>f. f\<lparr>sf_computed := v, sf_stage := AfterComputed\<rparr>) m"

definition aux_loaded :: "work_limits \<Rightarrow> store_model \<Rightarrow> invocation_id \<Rightarrow> u32 \<Rightarrow> u32 list \<Rightarrow> store_model \<times> bool" where
  "aux_loaded l m iv ea v = Loaded l m iv AfterComputed AfterAuxLoaded AuxLoadedEvent 288 ea v"

definition scaled :: "work_limits \<Rightarrow> store_model \<Rightarrow> invocation_id \<Rightarrow> u32 list \<Rightarrow> store_model \<times> bool" where
  "scaled l m iv v =
     store_top l iv (\<lambda>e f. sf_stage f = AfterAuxLoaded) ScaledEvent (store_payload_of [] v)
       (\<lambda>f. f\<lparr>sf_scaled := v, sf_stage := AfterScaled\<rparr>) m"

definition stored :: "work_limits \<Rightarrow> store_model \<Rightarrow> invocation_id \<Rightarrow> u32 \<Rightarrow> u32 list \<Rightarrow> store_model \<times> bool" where
  "stored l m iv ea v =
     store_top l iv (\<lambda>e f. sf_stage f = AfterScaled \<and> ea = Address e 256 \<and> v = sf_computed f) StoredEvent
       (store_payload_of [ucast ea] v) (\<lambda>f. f\<lparr>sf_stage := AfterStored\<rparr>) m"

definition tail_pre :: "work_limits \<Rightarrow> store_model \<Rightarrow> invocation_id \<Rightarrow> u64 \<Rightarrow> u64 \<Rightarrow> u32 list \<Rightarrow> store_model \<times> bool" where
  "tail_pre l m iv lr r3 v =
     store_top l iv
       (\<lambda>e f. sf_stage f = AfterStored \<and> lr = kStoreCaller \<and> r3 = so_r3 e \<and> v = sf_scaled f) TailPreEvent
       (store_payload_of [lr, r3, ucast kStoreTail, 0] v) (\<lambda>f. f\<lparr>sf_stage := TailActive\<rparr>) m"

definition tail_return :: "work_limits \<Rightarrow> store_model \<Rightarrow> invocation_id \<Rightarrow> bool \<Rightarrow> store_model \<times> bool" where
  "tail_return l m iv failed =
     store_top l iv (\<lambda>e f. sf_stage f = TailActive) (if failed then TailExceptionEvent else TailReturnEvent)
       (store_payload_of [] no_vector) (\<lambda>f. f\<lparr>sf_stage := (if failed then TailRaised else TailReturned)\<rparr>) m"

definition store_exit :: "work_limits \<Rightarrow> store_model \<Rightarrow> invocation_id \<Rightarrow> bool \<Rightarrow> store_model \<times> bool" where
  "store_exit l m iv normal =
     on_top (\<lambda>f. so_invocation (store_entry_of m f) = iv) StoreIdentity
       (\<lambda>f. [(\<not> (normal \<and> sf_stage f \<noteq> TailReturned), StoreTransition), (Room (wl_events l) m, StoreEventCapacity)])
       (\<lambda>f fs. store_emit (if normal then StoreNormalExit else StoreExceptionalExit) (store_payload_of [] no_vector)
          f fs m) m"

datatype store_call =
    SEnter store_entry
  | SOldLoaded invocation_id u32 "u32 list"
  | SRateLoaded invocation_id u32 "u32 list"
  | SComputed invocation_id "u32 list"
  | SAuxLoaded invocation_id u32 "u32 list"
  | SScaled invocation_id "u32 list"
  | SStored invocation_id u32 "u32 list"
  | STailPre invocation_id u64 u64 "u32 list"
  | STailReturn invocation_id bool
  | SExit invocation_id bool
  | SFreeze

fun store_step :: "work_limits \<Rightarrow> store_model \<Rightarrow> store_call \<Rightarrow> store_model \<times> bool" where
  "store_step l m (SEnter e) = store_enter l m e"
| "store_step l m (SOldLoaded iv ea v) = old_loaded l m iv ea v"
| "store_step l m (SRateLoaded iv ea v) = rate_loaded l m iv ea v"
| "store_step l m (SComputed iv v) = computed l m iv v"
| "store_step l m (SAuxLoaded iv ea v) = aux_loaded l m iv ea v"
| "store_step l m (SScaled iv v) = scaled l m iv v"
| "store_step l m (SStored iv ea v) = stored l m iv ea v"
| "store_step l m (STailPre iv lr r3 v) = tail_pre l m iv lr r3 v"
| "store_step l m (STailReturn iv failed) = tail_return l m iv failed"
| "store_step l m (SExit iv normal) = store_exit l m iv normal"
| "store_step l m SFreeze = (Freeze m, False)"

section \<open>A reader of the log\<close>

fun store_read :: "store_event \<Rightarrow> store_frame \<Rightarrow> store_frame option" where
  "store_read e f = (let v = sp_vector (sv_payload e) in
     case (sv_kind e, sf_stage f) of
       (OldLoadedEvent, StoreEntered) \<Rightarrow> Some (f\<lparr>sf_stage := AfterOldLoaded\<rparr>)
     | (RateLoadedEvent, AfterOldLoaded) \<Rightarrow> Some (f\<lparr>sf_stage := AfterRateLoaded\<rparr>)
     | (ComputedEvent, AfterRateLoaded) \<Rightarrow> Some (f\<lparr>sf_computed := v, sf_stage := AfterComputed\<rparr>)
     | (AuxLoadedEvent, AfterComputed) \<Rightarrow> Some (f\<lparr>sf_stage := AfterAuxLoaded\<rparr>)
     | (ScaledEvent, AfterAuxLoaded) \<Rightarrow> Some (f\<lparr>sf_scaled := v, sf_stage := AfterScaled\<rparr>)
     | (StoredEvent, AfterScaled) \<Rightarrow> if v = sf_computed f then Some (f\<lparr>sf_stage := AfterStored\<rparr>) else None
     | (TailPreEvent, AfterStored) \<Rightarrow> if v = sf_scaled f then Some (f\<lparr>sf_stage := TailActive\<rparr>) else None
     | (TailReturnEvent, TailActive) \<Rightarrow> Some (f\<lparr>sf_stage := TailReturned\<rparr>)
     | (TailExceptionEvent, TailActive) \<Rightarrow> Some (f\<lparr>sf_stage := TailRaised\<rparr>)
     | _ \<Rightarrow> None)"

type_synonym store_pending = "nat \<times> (invocation_id \<times> store_frame) list"

definition store_audit :: "store_pending \<Rightarrow> store_event \<Rightarrow> store_pending option" where
  "store_audit s e = (case s of (n, st) \<Rightarrow>
     if sv_kind e = StoreEntry
     then (if sv_index e = n
           then Some (n + 1, (sv_invocation e, new_store_frame n (case st of [] \<Rightarrow> no_invocation | (iv, _) # _ \<Rightarrow> iv)) # st)
           else None)
     else case st of
         [] \<Rightarrow> None
       | (iv, f) # r \<Rightarrow>
           if sv_invocation e \<noteq> iv \<or> sv_index e \<noteq> sf_index f then None
           else if sv_kind e = StoreNormalExit then (if sf_stage f = TailReturned then Some (n, r) else None)
           else if sv_kind e = StoreExceptionalExit then Some (n, r)
           else map_option (\<lambda>g. (n, (iv, g) # r)) (store_read e f))"

definition store_pending_of :: "store_model \<Rightarrow> store_pending" where
  "store_pending_of m = (length (sm_entries m), map (\<lambda>f. (so_invocation (store_entry_of m f), f)) (rc_stack m))"

text \<open>The operands that an event may carry, by the entry it belongs to.\<close>

definition store_operands_ok :: "store_entry \<Rightarrow> store_event \<Rightarrow> bool" where
  "store_operands_ok n e = (let xs = sp_fields (sv_payload e) in
     case sv_kind e of
       OldLoadedEvent \<Rightarrow> xs ! 0 = ucast (Address n 256)
     | RateLoadedEvent \<Rightarrow> xs ! 0 = ucast (Address n 272)
     | AuxLoadedEvent \<Rightarrow> xs ! 0 = ucast (Address n 288)
     | StoredEvent \<Rightarrow> xs ! 0 = ucast (Address n 256)
     | TailPreEvent \<Rightarrow> xs = [kStoreCaller, so_r3 n, ucast kStoreTail, 0]
     | _ \<Rightarrow> True)"

section \<open>The invariant of the record\<close>

definition store_lanes_of :: "store_entry \<Rightarrow> u64 list" where
  "store_lanes_of e = [iv_serial (so_invocation e), iv_serial (te_invocation (so_target_entry e)), ucast (so_parent_event e)]"

definition store_entries_ok :: "store_model \<Rightarrow> bool" where
  "store_entries_ok m \<longleftrightarrow> sorted_wrt (list_all2 (<)) (map store_lanes_of (sm_entries m))
     \<and> list_all (\<lambda>e. store_claim_ok e \<and> iv_serial (so_invocation e) \<le> sm_last m
          \<and> iv_serial (te_invocation (so_target_entry e)) \<le> sm_last_target m) (sm_entries m)"

definition store_events_ok :: "store_model \<Rightarrow> bool" where
  "store_events_ok m \<longleftrightarrow> list_all (\<lambda>e. sv_index e < length (sm_entries m)
     \<and> sv_invocation e = so_invocation (sm_entries m ! sv_index e)
     \<and> store_operands_ok (sm_entries m ! sv_index e) e) (rc_events m)"

definition store_wf :: "store_model \<Rightarrow> bool" where
  "store_wf m \<longleftrightarrow> store_entries_ok m \<and> store_events_ok m
     \<and> list_all (\<lambda>f. sf_index f < length (sm_entries m)) (rc_stack m)"

abbreviation store_lanes :: "store_model \<Rightarrow> u64 list" where "store_lanes m \<equiv> [sm_last m]"

definition store_serials :: "store_event \<Rightarrow> u64 list option" where
  "store_serials e = (if sv_kind e = StoreEntry then Some [iv_serial (sv_invocation e)] else None)"

definition store_accepts :: "work_limits \<Rightarrow> store_model \<Rightarrow> store_model \<Rightarrow> bool" where
  "store_accepts l m m' \<longleftrightarrow> store_wf m' \<and> Writable m \<and> length (rc_events m) < wl_events l
     \<and> (length (rc_stack m) \<le> wl_depth l \<longrightarrow> length (rc_stack m') \<le> wl_depth l)
     \<and> (\<exists>e. rc_events m' = rc_events m @ [e] \<and> store_audit (store_pending_of m) e = Some (store_pending_of m')
         \<and> (case store_serials e of None \<Rightarrow> store_lanes m' = store_lanes m
            | Some n \<Rightarrow> list_all2 (<) (store_lanes m) n \<and> store_lanes m' = n))"

lemma store_emit_simps [simp]:
  "sm_entries (store_emit k p f st m) = sm_entries m"
  "rc_stack (store_emit k p f st m) = st"
  "sm_last (store_emit k p f st m) = sm_last m"
  "sm_last_target (store_emit k p f st m) = sm_last_target m"
  "rc_events (store_emit k p f st m) = rc_events m
     @ [\<lparr>sv_invocation = so_invocation (store_entry_of m f), sv_index = sf_index f, sv_kind = k, sv_payload = p\<rparr>]"
  by (simp_all add: store_emit_def logged_change_def)

lemma store_payload_simps [simp]:
  "i < length xs \<Longrightarrow> sp_fields (store_payload_of xs v) ! i = xs ! i"
  "sp_fields (store_payload_of [a, b, c, d] v) = [a, b, c, d]"
  "sp_vector (store_payload_of xs v) = v"
  by (simp_all add: store_payload_of_def nth_append)

lemma store_read_frame: "store_read e f = Some g \<Longrightarrow> sf_index g = sf_index f
    \<and> sv_kind e \<notin> {StoreEntry, StoreNormalExit, StoreExceptionalExit}"
  by (auto simp: Let_def split: store_kind.splits store_stage.splits if_splits)

lemma store_top_accepted:
  assumes "store_top l iv test k p upd m = (m', True)" and wf: "store_wf m"
    and read: "\<And>n f i. test n f \<Longrightarrow>
      store_read \<lparr>sv_invocation = i, sv_index = sf_index f, sv_kind = k, sv_payload = p\<rparr> f = Some (upd f)
      \<and> store_operands_ok n \<lparr>sv_invocation = i, sv_index = sf_index f, sv_kind = k, sv_payload = p\<rparr>"
  shows "store_accepts l m m'"
proof -
  obtain f fs where w: "Writable m" "length (rc_events m) < wl_events l" and st: "rc_stack m = f # fs"
    and t: "test (store_entry_of m f) f" and m': "m' = store_emit k p f (upd f # fs) m"
    using assms(1) by (auto simp: store_top_def on_top_True Room_def split: if_splits)
  let ?e = "\<lparr>sv_invocation = so_invocation (store_entry_of m f), sv_index = sf_index f, sv_kind = k, sv_payload = p\<rparr>"
  note r = conjunct1 [OF read [OF t]] and o = conjunct2 [OF read [OF t]]
  note fr = store_read_frame [OF r]
  have f: "sf_index f < length (sm_entries m)" using wf st by (simp add: store_wf_def)
  have "store_entries_ok m'" using wf by (simp add: m' store_wf_def store_entries_ok_def)
  moreover have "store_events_ok m'" using wf f o
    by (simp add: m' store_wf_def store_events_ok_def store_entry_of_def)
  ultimately have "store_wf m'" using wf fr st by (simp add: store_wf_def m')
  moreover have "store_audit (store_pending_of m) ?e = Some (store_pending_of m')"
    using r fr by (simp add: store_audit_def store_pending_of_def st m' store_entry_of_def del: store_read.simps)
  ultimately show ?thesis using w fr by (auto simp: store_accepts_def m' st store_serials_def)
qed

lemma store_exit_accepted:
  assumes "store_exit l m iv normal = (m', True)" and wf: "store_wf m"
  shows "store_accepts l m m'"
proof -
  let ?k = "if normal then StoreNormalExit else StoreExceptionalExit" and ?p = "store_payload_of [] no_vector"
  obtain f fs where w: "Writable m" "length (rc_events m) < wl_events l" and st: "rc_stack m = f # fs"
    and ok: "normal \<Longrightarrow> sf_stage f = TailReturned" and m': "m' = store_emit ?k ?p f fs m"
    using assms(1) by (auto simp: store_exit_def on_top_True Room_def split: if_splits)
  let ?e = "\<lparr>sv_invocation = so_invocation (store_entry_of m f), sv_index = sf_index f, sv_kind = ?k, sv_payload = ?p\<rparr>"
  have f: "sf_index f < length (sm_entries m)" using wf st by (simp add: store_wf_def)
  have "store_entries_ok m'" using wf by (simp add: m' store_wf_def store_entries_ok_def)
  moreover have "store_events_ok m'" using wf f
    by (simp add: m' store_wf_def store_events_ok_def store_entry_of_def store_operands_ok_def)
  ultimately have "store_wf m'" using wf st by (simp add: store_wf_def m')
  moreover have "store_audit (store_pending_of m) ?e = Some (store_pending_of m')"
    using ok by (simp add: store_audit_def store_pending_of_def st m' store_entry_of_def)
  ultimately show ?thesis using w by (auto simp: store_accepts_def m' st store_serials_def)
qed

lemma store_enter_accepted:
  assumes "store_enter l m e = (m', True)" and wf: "store_wf m"
  shows "store_accepts l m m'"
proof -
  let ?parent = "case rc_stack m of [] \<Rightarrow> no_invocation | f # _ \<Rightarrow> so_invocation (store_entry_of m f)"
  let ?n = "length (sm_entries m)" and ?p = "store_payload_of [] no_vector"
  let ?f = "new_store_frame ?n ?parent"
  let ?e = "\<lparr>sv_invocation = so_invocation e, sv_index = ?n, sv_kind = StoreEntry, sv_payload = ?p\<rparr>"
  have w: "Writable m" "length (rc_events m) < wl_events l" "length (rc_stack m) \<noteq> wl_depth l"
    and adm: "store_claim_ok e" and lanes: "store_lanes_ok m e"
    and m': "rc_events m' = rc_events m @ [?e]" "rc_stack m' = ?f # rc_stack m" "sm_entries m' = sm_entries m @ [e]"
      "sm_last m' = iv_serial (so_invocation e)" "sm_last_target m' = iv_serial (te_invocation (so_target_entry e))"
    using assms(1)
    by (auto simp: store_enter_def Let_def attempt_True Room_def new_store_frame_def store_entry_of_def
        split: if_splits)
  have grow: "sm_last m < iv_serial (so_invocation e)"
      "sm_last_target m < iv_serial (te_invocation (so_target_entry e))"
    using lanes by (auto simp: store_lanes_ok_def Let_def)
  have older: "list_all2 (<) (store_lanes_of x) (store_lanes_of e)" if x: "x \<in> set (sm_entries m)" for x
  proof -
    have "iv_serial (so_invocation x) < iv_serial (so_invocation e)"
      "iv_serial (te_invocation (so_target_entry x)) < iv_serial (te_invocation (so_target_entry e))"
      using wf x grow by (fastforce simp: store_wf_def store_entries_ok_def list_all_iff)+
    moreover have "so_parent_event (last (sm_entries m)) < so_parent_event e"
      using lanes x by (auto simp: store_lanes_ok_def Let_def)
    moreover have "x = last (sm_entries m) \<or> list_all2 (<) (store_lanes_of x) (store_lanes_of (last (sm_entries m)))"
      using sorted_wrt_last [OF _ x, of "\<lambda>a b. list_all2 (<) (store_lanes_of a) (store_lanes_of b)"] wf
      by (simp add: store_wf_def store_entries_ok_def sorted_wrt_map)
    ultimately show ?thesis by (auto simp: store_lanes_of_def dest: ucast_less)
  qed
  then have "store_entries_ok m'" using wf grow adm
    by (fastforce simp: store_wf_def store_entries_ok_def m' sorted_wrt_append list_all_iff)
  moreover have "store_events_ok m'" using wf
    by (auto simp: store_wf_def store_events_ok_def m' nth_append list_all_iff store_operands_ok_def)
  moreover have old: "sf_index g < ?n" if "g \<in> set (rc_stack m)" for g
    using wf that by (auto simp: store_wf_def list_all_iff)
  moreover have "sf_index ?f = ?n" by (simp add: new_store_frame_def)
  ultimately have "store_wf m'"
    by (auto simp: store_wf_def m' list_all_iff intro: less_SucI)
  moreover have "map (\<lambda>f. (so_invocation (store_entry_of m' f), f)) (rc_stack m)
      = map (\<lambda>f. (so_invocation (store_entry_of m f), f)) (rc_stack m)"
    using old by (auto simp: store_entry_of_def m' nth_append)
  then have "store_audit (store_pending_of m) ?e = Some (store_pending_of m')"
    by (cases "rc_stack m") (simp_all add: store_audit_def store_pending_of_def m' store_entry_of_def new_store_frame_def)
  ultimately show ?thesis using w grow by (auto simp: store_accepts_def m' store_serials_def)
qed

lemma store_accepted: "store_step l m call = (m', True) \<Longrightarrow> store_wf m \<Longrightarrow> store_accepts l m m'"
proof (cases call)
  case (SEnter e)
  then show "store_step l m call = (m', True) \<Longrightarrow> store_wf m \<Longrightarrow> ?thesis" by (simp add: store_enter_accepted)
next
  case (SExit iv normal)
  then show "store_step l m call = (m', True) \<Longrightarrow> store_wf m \<Longrightarrow> ?thesis" by (simp add: store_exit_accepted)
qed (auto simp: old_loaded_def rate_loaded_def computed_def aux_loaded_def scaled_def stored_def tail_pre_def
    tail_return_def Loaded_def store_operands_ok_def elim!: store_top_accepted)

lemmas store_methods = store_enter_def old_loaded_def rate_loaded_def computed_def aux_loaded_def scaled_def
  stored_def tail_pre_def tail_return_def store_exit_def Loaded_def store_top_def

lemma store_refused:
  assumes "store_step l m call = (m', False)"
  shows "rc_events m' = rc_events m \<and> rc_stack m' = rc_stack m \<and> sm_entries m' = sm_entries m
     \<and> sm_last m' = sm_last m \<and> sm_last_target m' = sm_last_target m \<and> (\<not> Writable m \<longrightarrow> \<not> Writable m')"
  using assms
  by (cases call) (auto simp: store_methods Let_def Freeze_def Writable_def dest!: attempt_False on_top_False)

lemma store_wf_refused:
  assumes "store_step l m call = (m', False)" "store_wf m"
  shows "store_wf m' \<and> store_pending_of m' = store_pending_of m"
  using store_refused [OF assms(1)] assms(2)
  by (simp add: store_wf_def store_entries_ok_def store_events_ok_def store_pending_of_def store_entry_of_def)

interpretation store: logged "store_step l" store_audit "(0, [])" store_pending_of "wl_events l" "wl_depth l"
    store_serials store_lanes store_wf for l
  by unfold_locales (auto dest: store_refused store_wf_refused store_accepted simp: store_accepts_def)

section \<open>Properties\<close>

definition store_run :: "work_limits \<Rightarrow> u64 \<Rightarrow> u64 \<Rightarrow> store_call list \<Rightarrow> store_model" where
  "store_run l epoch parent calls = run_events (\<lambda>m call. fst (store_step l m call)) (new_store epoch parent) calls"

lemma store_run_ok: "store.log_ok l (store_run l epoch parent calls)"
proof -
  have "store.next_record l = (\<lambda>m call. fst (store_step l m call))"
    by (simp add: fun_eq_iff store.next_record_def)
  moreover have "store_wf (new_store epoch parent)" "store_pending_of (new_store epoch parent) = (0, [])"
    by (simp_all add: new_store_def store_wf_def store_entries_ok_def store_events_ok_def store_pending_of_def)
  ultimately show ?thesis
    unfolding store_run_def using store.log_ok_run [OF store.log_ok_new, of "new_store epoch parent" l calls]
    by (simp add: new_store_def)
qed

text \<open>The log of store slices is enough: after any calls, reading it by the order of the slice recomputes every
  pending frame, the computed and scaled vectors included; a stored vector is the computed one and the
  tail gets the scaled one; the addresses are those of the entry's base, aligned; and the entries are
  admissible claims, with own serials, target serials and parent events that grow.\<close>

theorem store_log_sound:
  "let m = store_run l epoch parent calls in
     replay store_audit (0, []) (rc_events m)
       = Some (length (sm_entries m), map (\<lambda>f. (so_invocation (sm_entries m ! sf_index f), f)) (rc_stack m))
     \<and> length (rc_events m) \<le> wl_events l \<and> length (rc_stack m) \<le> wl_depth l
     \<and> map sv_invocation (rc_events m) = map (\<lambda>e. so_invocation (sm_entries m ! sv_index e)) (rc_events m)
     \<and> list_all (\<lambda>e. store_operands_ok (sm_entries m ! sv_index e) e) (rc_events m)
     \<and> sorted_wrt (list_all2 (<)) (map store_lanes_of (sm_entries m)) \<and> list_all store_claim_ok (sm_entries m)"
  using store_run_ok [of l epoch parent calls]
  by (auto simp: Let_def store.log_ok_def store_pending_of_def store_entry_of_def store_wf_def store_entries_ok_def
      store_events_ok_def list_all_iff)

end
