(* ===== verification/ShaderStore.thy ===== *)
theory ShaderStore
  imports Prelude
begin

section \<open>Merging shader stores (\<open>mcla_shader_store_seed.h\<close>)\<close>

text \<open>
  The parser of the five families of shader store files and the merger that unites several stores of
  one family in one file. The hash of the SDK's files is third-party code (xxHash) and an argument
  \<open>H\<close> here; no law is assumed of it. A span is a byte list, an offset a \<open>nat\<close>.
\<close>

subsection \<open>Formats\<close>

definition kTitleId :: u32 where "kTitleId = 0x545407F8"
definition kShaderMagic :: u32 where "kShaderMagic = 0x48534558"
definition kPipelineMagic :: u32 where "kPipelineMagic = 0x53504558"
definition kShaderVersion :: u32 where "kShaderVersion = 0x20201219"
definition kD3d12PipelineVersion :: u32 where "kD3d12PipelineVersion = 0x20260226"
definition kVulkanPipelineVersion :: u32 where "kVulkanPipelineVersion = 0x20260228"
definition kShaderRecordHeaderBytes :: nat where "kShaderRecordHeaderBytes = 12"
definition kMaxUcodeDwords :: u32 where "kMaxUcodeDwords = 0x10000"
definition kMaxFileBytes :: nat where "kMaxFileBytes = 16 * 1024 * 1024"

datatype family = Shaders | D3d12Rtv | D3d12Rov | VulkanFbo | VulkanFsi

record family_info =
  fi_file :: u16string
  fi_label :: string
  fi_header_bytes :: nat
  fi_api :: u32
  fi_version :: u32
  fi_record_bytes :: nat

definition family_row :: "string \<Rightarrow> string \<Rightarrow> nat \<Rightarrow> u32 \<Rightarrow> u32 \<Rightarrow> nat \<Rightarrow> family_info" where
  "family_row file label header api version bytes = \<lparr>fi_file = u16lit file, fi_label = label,
     fi_header_bytes = header, fi_api = api, fi_version = version, fi_record_bytes = bytes\<rparr>"

fun Info :: "family \<Rightarrow> family_info" where
  "Info Shaders = family_row ''545407F8.xsh'' ''xsh'' 8 0 kShaderVersion 0"
| "Info D3d12Rtv = family_row ''545407F8.rtv.d3d12.xpso'' ''rtv.d3d12'' 12 0x54525844 kD3d12PipelineVersion 72"
| "Info D3d12Rov = family_row ''545407F8.rov.d3d12.xpso'' ''rov.d3d12'' 12 0x4F525844 kD3d12PipelineVersion 72"
| "Info VulkanFbo = family_row ''545407F8.fbo.vk.xpso'' ''fbo.vk'' 12 0 kVulkanPipelineVersion 68"
| "Info VulkanFsi = family_row ''545407F8.fsi.vk.xpso'' ''fsi.vk'' 12 1 kVulkanPipelineVersion 68"

definition LoadLe32 :: "bytes \<Rightarrow> nat \<Rightarrow> u32" where
  "LoadLe32 p i = or (or (or (ucast (p ! i)) (push_bit 8 (ucast (p ! (i + 1))))) (push_bit 16 (ucast (p ! (i + 2)))))
     (push_bit 24 (ucast (p ! (i + 3))))"

definition LoadLe64 :: "bytes \<Rightarrow> nat \<Rightarrow> u64" where
  "LoadLe64 p i = or (ucast (LoadLe32 p i)) (push_bit 32 (ucast (LoadLe32 p (i + 4))))"

definition LoadBe32 :: "bytes \<Rightarrow> nat \<Rightarrow> u32" where
  "LoadBe32 p i = or (or (or (ucast (p ! (i + 3))) (push_bit 8 (ucast (p ! (i + 2))))) (push_bit 16 (ucast (p ! (i + 1)))))
     (push_bit 24 (ucast (p ! i)))"

definition StoreLe32 :: "u32 \<Rightarrow> bytes" where
  "StoreLe32 v = map (\<lambda>i. ucast (drop_bit (8 * i) v)) [0, 1, 2, 3]"

definition StoreBe32 :: "u32 \<Rightarrow> bytes" where
  "StoreBe32 v = map (\<lambda>i. ucast (drop_bit (8 * i) v)) [3, 2, 1, 0]"

definition StoreHeader :: "family \<Rightarrow> bytes" where
  "StoreHeader f = StoreLe32 (if f = Shaders then kShaderMagic else kPipelineMagic)
     @ (if f \<noteq> Shaders then StoreLe32 (fi_api (Info f)) else []) @ StoreBe32 (fi_version (Info f))"

datatype header_status = HeaderValid | HeaderEmpty | HeaderShort | HeaderBadMagic | HeaderBadVersion

fun HeaderStatusName :: "header_status \<Rightarrow> string" where
  "HeaderStatusName HeaderValid = ''valid''"
| "HeaderStatusName HeaderEmpty = ''empty''"
| "HeaderStatusName HeaderShort = ''short''"
| "HeaderStatusName HeaderBadMagic = ''bad-magic''"
| "HeaderStatusName HeaderBadVersion = ''bad-version''"

subsection \<open>The parser\<close>

record store_record =
  sr_offset :: nat
  sr_size :: nat
  sr_hash :: u64

record parsed_store =
  ps_header :: header_status
  ps_records :: "store_record list"
  ps_valid_bytes :: nat
  ps_stopped :: bool

text \<open>One round of the loop on the bytes that are left: size and hash of a valid record, or \<open>None\<close> for a \<open>break\<close>.\<close>

definition read_record :: "(bytes \<Rightarrow> u64) \<Rightarrow> family \<Rightarrow> bytes \<Rightarrow> (nat \<times> u64) option" where
  "read_record H f rest =
     (if f = Shaders then
        (if length rest < kShaderRecordHeaderBytes then None
         else let dwords = and (LoadLe32 rest 8) 0x7FFFFFFF in
           if dwords > kMaxUcodeDwords then None
           else let ucode = unat dwords * 4 in
             if length rest - kShaderRecordHeaderBytes < ucode then None
             else if H (take ucode (drop kShaderRecordHeaderBytes rest)) \<noteq> LoadLe64 rest 0 then None
             else Some (kShaderRecordHeaderBytes + ucode, LoadLe64 rest 0))
      else let size = fi_record_bytes (Info f) in
        if length rest < size then None
        else if H (take (size - 8) (drop 8 rest)) \<noteq> LoadLe64 rest 0 then None
        else Some (size, LoadLe64 rest 0))"

lemma record_bytes_68: "f \<noteq> Shaders \<Longrightarrow> 68 \<le> fi_record_bytes (Info f)"
  by (cases f) (simp_all add: family_row_def)

lemma read_record_size: "read_record H f rest = Some (n, h) \<Longrightarrow> 12 \<le> n \<and> n \<le> length rest \<and> h = LoadLe64 rest 0"
  using record_bytes_68 [of f]
  by (auto simp: read_record_def Let_def kShaderRecordHeaderBytes_def not_less split: if_splits)

function parse_loop :: "(bytes \<Rightarrow> u64) \<Rightarrow> family \<Rightarrow> nat \<Rightarrow> bytes \<Rightarrow> store_record list \<times> nat" where
  "parse_loop H f offset rest =
     (if rest = [] then ([], offset)
      else case read_record H f rest of
        None \<Rightarrow> ([], offset)
      | Some (n, h) \<Rightarrow>
          (case parse_loop H f (offset + n) (drop n rest) of (rs, end) \<Rightarrow>
             (\<lparr>sr_offset = offset, sr_size = n, sr_hash = h\<rparr> # rs, end)))"
  by pat_completeness auto
termination
  by (relation "measure (\<lambda>(H, f, offset, rest). length rest)") (auto dest!: read_record_size)

declare parse_loop.simps [simp del]

definition Parse :: "(bytes \<Rightarrow> u64) \<Rightarrow> family \<Rightarrow> bytes \<Rightarrow> parsed_store" where
  "Parse H f bs =
     (let refused = (\<lambda>s. \<lparr>ps_header = s, ps_records = [], ps_valid_bytes = 0, ps_stopped = False\<rparr>);
          n = fi_header_bytes (Info f); expected = StoreHeader f in
      if bs = [] then refused HeaderEmpty
      else if length bs < n then refused HeaderShort
      else if take (length expected - 4) bs \<noteq> take (length expected - 4) expected then refused HeaderBadMagic
      else if LoadBe32 bs (n - 4) \<noteq> fi_version (Info f) then refused HeaderBadVersion
      else case parse_loop H f n (drop n bs) of (rs, offset) \<Rightarrow>
        \<lparr>ps_header = HeaderValid, ps_records = rs, ps_valid_bytes = offset, ps_stopped = (offset \<noteq> length bs)\<rparr>)"

subsection \<open>The merger\<close>

record add_result =
  ar_header :: header_status
  ar_records :: nat
  ar_added :: nat
  ar_duplicates :: nat
  ar_over_bound :: nat
  ar_stopped :: bool

definition no_result :: add_result where
  "no_result = \<lparr>ar_header = HeaderEmpty, ar_records = 0, ar_added = 0, ar_duplicates = 0, ar_over_bound = 0,
     ar_stopped = False\<rparr>"

text \<open>The multimap of the class is the list of its entries.\<close>

record merger =
  mg_family :: family
  mg_max :: nat
  mg_bytes :: bytes
  mg_index :: "(u64 \<times> nat) list"
  mg_records :: nat
  mg_target_records :: nat
  mg_added :: nat
  mg_foreign :: bool
  mg_target_header :: header_status

definition new_merger :: "family \<Rightarrow> nat \<Rightarrow> merger" where
  "new_merger f maximum = \<lparr>mg_family = f, mg_max = maximum, mg_bytes = StoreHeader f, mg_index = [], mg_records = 0,
     mg_target_records = 0, mg_added = 0, mg_foreign = False, mg_target_header = HeaderEmpty\<rparr>"

definition Known :: "merger \<Rightarrow> u64 \<Rightarrow> bytes \<Rightarrow> bool" where
  "Known m h bs = (let range = filter (\<lambda>(k, offset). k = h) (mg_index m) in
     if mg_family m = Shaders then range \<noteq> []
     else list_ex (\<lambda>(k, offset). take (length bs) (drop offset (mg_bytes m)) = bs) range)"

definition add_record :: "bytes \<Rightarrow> merger \<times> add_result \<Rightarrow> store_record \<Rightarrow> merger \<times> add_result" where
  "add_record file s r = (case s of (m, result) \<Rightarrow>
     let bs = take (sr_size r) (drop (sr_offset r) file) in
     if Known m (sr_hash r) bs then (m, result\<lparr>ar_duplicates := ar_duplicates result + 1\<rparr>)
     else if length (mg_bytes m) + sr_size r > mg_max m
     then (m, result\<lparr>ar_over_bound := ar_over_bound result + 1\<rparr>)
     else (m\<lparr>mg_index := mg_index m @ [(sr_hash r, length (mg_bytes m))], mg_bytes := mg_bytes m @ bs,
             mg_records := mg_records m + 1\<rparr>,
           result\<lparr>ar_added := ar_added result + 1\<rparr>))"

definition Add :: "(bytes \<Rightarrow> u64) \<Rightarrow> merger \<Rightarrow> bytes \<Rightarrow> merger \<times> add_result" where
  "Add H m file =
     (let p = Parse H (mg_family m) file;
          result = no_result\<lparr>ar_header := ps_header p, ar_stopped := ps_stopped p\<rparr> in
      if ps_header p \<noteq> HeaderValid then (m, result)
      else foldl (add_record file) (m, result\<lparr>ar_records := length (ps_records p)\<rparr>) (ps_records p))"

definition SetTarget :: "(bytes \<Rightarrow> u64) \<Rightarrow> merger \<Rightarrow> bytes \<Rightarrow> merger \<times> add_result" where
  "SetTarget H m file = (case Add H m file of (m', result) \<Rightarrow>
     (m'\<lparr>mg_target_header := ar_header result,
         mg_foreign := (ar_header result \<noteq> HeaderValid \<and> ar_header result \<noteq> HeaderEmpty),
         mg_target_records := mg_records m'\<rparr>, result))"

definition SetTargetUnreadable :: "merger \<Rightarrow> merger" where
  "SetTargetUnreadable m = m\<lparr>mg_target_header := HeaderShort, mg_foreign := True\<rparr>"

definition AddSource :: "(bytes \<Rightarrow> u64) \<Rightarrow> merger \<Rightarrow> bytes \<Rightarrow> merger \<times> add_result" where
  "AddSource H m file =
     (if mg_foreign m then (m, no_result)
      else case Add H m file of (m', result) \<Rightarrow> (m'\<lparr>mg_added := mg_added m' + ar_added result\<rparr>, result))"

definition merged_records :: "merger \<Rightarrow> nat" where
  "merged_records m = (if mg_foreign m then mg_target_records m else mg_records m)"

definition NeedsWrite :: "merger \<Rightarrow> bool" where
  "NeedsWrite m \<longleftrightarrow> \<not> mg_foreign m \<and> mg_added m \<noteq> 0"

subsection \<open>Source folders and the summary\<close>

definition FingerprintName :: "u16string \<Rightarrow> bool" where
  "FingerprintName name \<longleftrightarrow> length name = 64
     \<and> list_all (\<lambda>c. (c \<ge> 0x30 \<and> c \<le> 0x39) \<or> (c \<ge> 0x41 \<and> c \<le> 0x46) \<or> (c \<ge> 0x61 \<and> c \<le> 0x66)) name"

datatype store_source = ColdStore | SeededStore | ExistingStore | ErrorStore

fun SourceName :: "store_source \<Rightarrow> string" where
  "SourceName ColdStore = ''cold''"
| "SourceName SeededStore = ''seeded''"
| "SourceName ExistingStore = ''existing''"
| "SourceName ErrorStore = ''error''"

record seed_summary =
  ss_enabled :: bool
  ss_error :: bool
  ss_target_shaders :: nat
  ss_target_descriptions :: nat
  ss_shaders :: nat
  ss_descriptions :: nat
  ss_added_shaders :: nat
  ss_added_descriptions :: nat
  ss_from_dirs :: nat
  ss_scanned_dirs :: nat
  ss_skipped_files :: nat
  ss_foreign_files :: nat
  ss_over_bound :: nat
  ss_read_bound :: bool
  ss_ms :: u64
  ss_bytes :: u64
  ss_read_bytes :: u64

definition Classify :: "seed_summary \<Rightarrow> store_source" where
  "Classify s =
     (if ss_error s then ErrorStore
      else if ss_added_shaders s + ss_added_descriptions s \<noteq> 0 then SeededStore
      else if ss_target_shaders s + ss_target_descriptions s \<noteq> 0 then ExistingStore else ColdStore)"

definition SummaryLine :: "seed_summary \<Rightarrow> string" where
  "SummaryLine s = ''MCLA store seed: source='' @ SourceName (Classify s) @ '' shaders='' @ decimal (ss_shaders s)
     @ '' descriptions='' @ decimal (ss_descriptions s) @ '' from_dirs='' @ decimal (ss_from_dirs s)
     @ '' ms='' @ decimal (unat (ss_ms s)) @ '' bytes='' @ decimal (unat (ss_bytes s))
     @ '' added_shaders='' @ decimal (ss_added_shaders s)
     @ '' added_descriptions='' @ decimal (ss_added_descriptions s)
     @ '' scanned_dirs='' @ decimal (ss_scanned_dirs s) @ '' skipped_files='' @ decimal (ss_skipped_files s)
     @ '' foreign_files='' @ decimal (ss_foreign_files s) @ '' over_bound='' @ decimal (ss_over_bound s)
     @ '' read_bytes='' @ decimal (unat (ss_read_bytes s))
     @ (if ss_read_bound s then '' read_bound=1'' else []) @ '' switch='' @ (if ss_enabled s then ''on'' else ''off'')"

subsection \<open>Records stand alone\<close>

text \<open>A store behind its header is a row of valid records, and reading one does not depend on what follows it.\<close>

lemma LoadLe64_append: "8 \<le> length a \<Longrightarrow> LoadLe64 (a @ b) 0 = LoadLe64 a 0"
  by (cases "a = []") (simp_all add: LoadLe64_def LoadLe32_def nth_append)

lemma LoadLe32_append: "i + 4 \<le> length a \<Longrightarrow> LoadLe32 (a @ b) i = LoadLe32 a i"
  by (simp add: LoadLe32_def nth_append)

lemma LoadLe64_take: "8 \<le> n \<Longrightarrow> LoadLe64 (take n a) 0 = LoadLe64 a 0"
  by (simp add: LoadLe64_def LoadLe32_def)

lemma LoadLe32_take: "i + 4 \<le> n \<Longrightarrow> LoadLe32 (take n a) i = LoadLe32 a i"
  by (simp add: LoadLe32_def)

definition valid_record :: "(bytes \<Rightarrow> u64) \<Rightarrow> family \<Rightarrow> bytes \<Rightarrow> bool" where
  "valid_record H f r \<longleftrightarrow> read_record H f r = Some (length r, LoadLe64 r 0)"

lemma middle_alone: "m + k \<le> n \<Longrightarrow> n \<le> length xs \<Longrightarrow> take k (drop m (take n xs @ ys)) = take k (drop m xs)"
  by (rule nth_equalityI) (auto simp: nth_append)

lemma read_record_alone:
  assumes "read_record H f rest = Some (n, h)"
  shows "read_record H f (take n rest @ tail) = Some (n, h)"
proof -
  have n: "12 \<le> n" "n \<le> length rest" using read_record_size [OF assms] by blast+
  then have le: "LoadLe64 (take n rest @ tail) 0 = LoadLe64 rest 0" "LoadLe32 (take n rest @ tail) 8 = LoadLe32 rest 8"
    by (simp_all add: LoadLe64_append LoadLe32_append LoadLe64_take LoadLe32_take)
  show ?thesis
  proof (cases "f = Shaders")
    case True
    let ?u = "unat (and (LoadLe32 rest 8) 0x7FFFFFFF) * 4"
    have u: "n = 12 + ?u" using assms True
      by (auto simp: read_record_def Let_def kShaderRecordHeaderBytes_def split: if_splits)
    with n have "take ?u (drop 12 (take n rest @ tail)) = take ?u (drop 12 rest)" by (intro middle_alone) auto
    with assms True n le u show ?thesis
      unfolding read_record_def Let_def kShaderRecordHeaderBytes_def by (simp split: if_splits)
  next
    case False
    then have k: "n = fi_record_bytes (Info f)" "8 \<le> n" using assms n by (auto simp: read_record_def Let_def split: if_splits)
    then have "take (n - 8) (drop 8 (take n rest @ tail)) = take (n - 8) (drop 8 rest)"
      using n by (intro middle_alone) auto
    with assms False n le k show ?thesis
      unfolding read_record_def Let_def by (simp split: if_splits)
  qed
qed

lemma read_record_valid: "read_record H f rest = Some (n, h) \<Longrightarrow> valid_record H f (take n rest) \<and> h = LoadLe64 (take n rest) 0"
  using read_record_alone [of H f rest n h "[]"] read_record_size [of H f rest n h]
  by (simp add: valid_record_def LoadLe64_take)

lemma valid_record_size: "valid_record H f r \<Longrightarrow> 12 \<le> length r"
  using read_record_size by (fastforce simp: valid_record_def)

lemma read_valid_record: "valid_record H f r \<Longrightarrow> read_record H f (r @ tail) = Some (length r, LoadLe64 r 0)"
  using read_record_alone [of H f r "length r" "LoadLe64 r 0" tail] by (simp add: valid_record_def)

lemma valid_record_fixed: "valid_record H f r \<Longrightarrow> f \<noteq> Shaders \<Longrightarrow> length r = fi_record_bytes (Info f)"
  by (auto simp: valid_record_def read_record_def Let_def split: if_splits)

fun records_at :: "nat \<Rightarrow> bytes list \<Rightarrow> store_record list" where
  "records_at off [] = []"
| "records_at off (r # rs) = \<lparr>sr_offset = off, sr_size = length r, sr_hash = LoadLe64 r 0\<rparr> # records_at (off + length r) rs"

lemma parse_loop_records:
  "list_all (valid_record H f) rs \<Longrightarrow> tail = [] \<or> read_record H f tail = None
   \<Longrightarrow> parse_loop H f off (concat rs @ tail) = (records_at off rs, off + length (concat rs))"
proof (induction rs arbitrary: off)
  case Nil
  then show ?case by (subst parse_loop.simps) auto
next
  case (Cons r rs)
  then have "r \<noteq> []" using valid_record_size by fastforce
  with Cons read_valid_record [of H f r "concat rs @ tail"] show ?case
    by (subst parse_loop.simps) (simp add: add.assoc)
qed

lemma rows_of: 
  obtains rs tail where "bs = concat rs @ tail" "list_all (valid_record H f) rs"
    "tail = [] \<or> read_record H f tail = None"
proof (induction "length bs" arbitrary: bs thesis rule: less_induct)
  case less
  show ?case
  proof (cases "read_record H f bs")
    case None
    then show ?thesis by (intro less.prems [of "[]" bs]) auto
  next
    case (Some p)
    then obtain n h where p: "read_record H f bs = Some (n, h)" by (cases p) auto
    have n: "0 < n" "n \<le> length bs" using read_record_size [OF p] by auto
    then have "length (drop n bs) < length bs" by simp
    from less.hyps [OF this] obtain rs tail where "drop n bs = concat rs @ tail" "list_all (valid_record H f) rs"
      "tail = [] \<or> read_record H f tail = None" by blast
    then show ?thesis using read_record_valid [OF p] append_take_drop_id [of n bs]
      by (intro less.prems [of "take n bs # rs" tail]) auto
  qed
qed

text \<open>The records of a file, as byte strings: what the merger may take from it.\<close>

definition store_rows :: "(bytes \<Rightarrow> u64) \<Rightarrow> family \<Rightarrow> bytes \<Rightarrow> bytes list" where
  "store_rows H f file = map (\<lambda>r. take (sr_size r) (drop (sr_offset r) file)) (ps_records (Parse H f file))"

lemma rows_at: "list_all (valid_record H f) rs \<Longrightarrow>
   map (\<lambda>r. take (sr_size r) (drop (sr_offset r) (pre @ concat rs @ tail))) (records_at (length pre) rs) = rs"
proof (induction rs arbitrary: pre)
  case (Cons r rs)
  have "map (\<lambda>x. take (sr_size x) (drop (sr_offset x) ((pre @ r) @ concat rs @ tail))) (records_at (length (pre @ r)) rs) = rs"
    using Cons by (intro Cons.IH) auto
  then show ?case by simp
qed simp

lemma length_Header: "length (StoreHeader f) = fi_header_bytes (Info f)"
  by (cases f) (simp_all add: StoreHeader_def StoreLe32_def StoreBe32_def family_row_def)

lemma StoreBe32_LoadBe32: "StoreBe32 (LoadBe32 xs 0) = [xs ! 0, xs ! 1, xs ! 2, xs ! 3]"
  unfolding StoreBe32_def LoadBe32_def list.map
  by (intro arg_cong2 [of _ _ _ _ Cons] refl; rule bit_word_eqI; auto simp: bit_simps numeral_2_eq_2 dest: bit_imp_le_length)

lemma LoadBe32_StoreBe32: "LoadBe32 (StoreBe32 v @ bs) 0 = v"
proof (rule bit_word_eqI)
  fix n
  assume "n < LENGTH(32)"
  then consider "n < 8" | "8 \<le> n" "n < 16" | "16 \<le> n" "n < 24" | "24 \<le> n" "n < 32"
    by (auto simp: not_less) linarith
  then show "bit (LoadBe32 (StoreBe32 v @ bs) 0) n = bit v n"
    by cases (auto simp: LoadBe32_def StoreBe32_def bit_simps)
qed

lemma Header_split:
  "StoreHeader f = take (length (StoreHeader f) - 4) (StoreHeader f) @ StoreBe32 (fi_version (Info f))"
  "length (take (length (StoreHeader f) - 4) (StoreHeader f)) = fi_header_bytes (Info f) - 4" "4 \<le> fi_header_bytes (Info f)"
  by (cases f; simp add: StoreHeader_def StoreLe32_def StoreBe32_def family_row_def)+

lemma Header_version: "LoadBe32 (StoreHeader f @ bs) (fi_header_bytes (Info f) - 4) = fi_version (Info f)"
proof -
  have at: "LoadBe32 (as @ cs) (length as) = LoadBe32 cs 0" for as cs by (simp add: LoadBe32_def nth_append numeral_2_eq_2)
  show ?thesis using at [of "take (length (StoreHeader f) - 4) (StoreHeader f)" "StoreBe32 (fi_version (Info f)) @ bs"]
      LoadBe32_StoreBe32 Header_split [of f] by (metis append.assoc)
qed

lemma Parse_rows:
  assumes "list_all (valid_record H f) rs" "tail = [] \<or> read_record H f tail = None"
  shows "Parse H f (StoreHeader f @ concat rs @ tail) = \<lparr>ps_header = HeaderValid, ps_records = records_at (length (StoreHeader f)) rs,
     ps_valid_bytes = length (StoreHeader f) + length (concat rs), ps_stopped = (tail \<noteq> [])\<rparr>"
proof -
  have "StoreHeader f \<noteq> []" by (simp add: StoreHeader_def StoreLe32_def)
  then show ?thesis using parse_loop_records [OF assms, of "length (StoreHeader f)"] Header_version [of f "concat rs @ tail"]
    by (simp add: Parse_def Let_def length_Header [symmetric])
qed


lemma take_four: "4 \<le> length xs \<Longrightarrow> take 4 xs = [xs ! 0, xs ! 1, xs ! 2, xs ! (3::nat)]"
  by (rule nth_equalityI) (auto simp: nth_Cons' less_Suc_eq numeral_eq_Suc)

text \<open>The header test accepts exactly the files that begin with the family's header.\<close>

lemma header_valid_iff: "ps_header (Parse H f bs) = HeaderValid \<longleftrightarrow> prefix (StoreHeader f) bs"
proof -
  let ?n = "fi_header_bytes (Info f)" and ?a = "take (length (StoreHeader f) - 4) (StoreHeader f)" and ?v = "fi_version (Info f)"
  note h = Header_split [of f]
  have "LoadBe32 bs (?n - 4) = ?v \<longleftrightarrow> take 4 (drop (?n - 4) bs) = StoreBe32 ?v" if "?n \<le> length bs"
  proof -
    have "LoadBe32 bs (?n - 4) = LoadBe32 (drop (?n - 4) bs) 0" using that h(3) by (simp add: LoadBe32_def add.commute)
    moreover have "take 4 (drop (?n - 4) bs) = StoreBe32 (LoadBe32 (drop (?n - 4) bs) 0)"
      using that h(3) by (subst take_four) (simp_all add: StoreBe32_LoadBe32)
    ultimately show ?thesis using LoadBe32_StoreBe32 [of _ "[]"] by (metis append_Nil2)
  qed
  moreover have "prefix (StoreHeader f) bs \<longleftrightarrow> ?n \<le> length bs \<and> take (?n - 4) bs = ?a \<and> take 4 (drop (?n - 4) bs) = StoreBe32 ?v"
  proof -
    have p: "prefix (StoreHeader f) bs \<longleftrightarrow> take ?n bs = StoreHeader f"
      by (metis length_Header append_eq_conv_conj prefix_def take_is_prefix)
    show ?thesis
    proof (cases "?n \<le> length bs")
      case True
      have "take ?n bs = take (?n - 4) bs @ take 4 (drop (?n - 4) bs)"
        using h(3) by (metis le_add_diff_inverse2 take_add)
      moreover have "length (take (?n - 4) bs) = length ?a" using h(2) True by simp
      ultimately show ?thesis unfolding p by (subst h(1)) (use True in simp)
    next
      case False
      then show ?thesis using length_Header [of f] by (auto dest: prefix_length_le)
    qed
  qed
  moreover have "?n = length (StoreHeader f)" "bs = [] \<Longrightarrow> \<not> ?n \<le> length bs" using h(3) by (auto simp: length_Header)
  ultimately show ?thesis by (auto simp: Parse_def Let_def not_less split: prod.splits)
qed

lemma Parse_valid:
  assumes "ps_header (Parse H f file) = HeaderValid"
  obtains rs tail where "drop (fi_header_bytes (Info f)) file = concat rs @ tail" "list_all (valid_record H f) rs"
    "tail = [] \<or> read_record H f tail = None" "ps_records (Parse H f file) = records_at (fi_header_bytes (Info f)) rs"
    "store_rows H f file = rs" "ps_stopped (Parse H f file) \<longleftrightarrow> tail \<noteq> []"
proof -
  let ?n = "fi_header_bytes (Info f)"
  obtain rs tail where r: "drop ?n file = concat rs @ tail" "list_all (valid_record H f) rs"
    "tail = [] \<or> read_record H f tail = None" by (rule rows_of)
  have n: "?n \<le> length file" using assms by (auto simp: Parse_def Let_def split: if_splits)
  have p: "Parse H f file = \<lparr>ps_header = HeaderValid, ps_records = records_at ?n rs,
      ps_valid_bytes = ?n + length (concat rs), ps_stopped = (?n + length (concat rs) \<noteq> length file)\<rparr>"
    using assms parse_loop_records [OF r(2,3), of ?n] r(1) by (auto simp: Parse_def Let_def split: if_splits)
  have whole: "file = take ?n file @ concat rs @ tail" "length (take ?n file) = ?n"
    using r(1) n by (metis append_take_drop_id, simp)
  have "store_rows H f file = rs"
    using rows_at [OF r(2), of "take ?n file" tail] whole by (simp add: store_rows_def p)
  moreover have "length file = ?n + length (concat rs) + length tail" by (subst whole(1)) (use whole(2) in simp)
  ultimately show ?thesis using r p by (intro that [of rs tail]) auto
qed

subsection \<open>What the merger holds\<close>

text \<open>Two records are the same: by their hash for shaders, by all their bytes for descriptions.\<close>

definition same_record :: "family \<Rightarrow> bytes \<Rightarrow> bytes \<Rightarrow> bool" where
  "same_record f a b \<longleftrightarrow> (if f = Shaders then LoadLe64 a 0 = LoadLe64 b 0 else a = b)"

lemma same_record_refl [simp]: "same_record f a a" by (simp add: same_record_def)
lemma same_record_sym: "same_record f a b \<Longrightarrow> same_record f b a" by (auto simp: same_record_def split: if_splits)
lemma same_record_trans: "same_record f a b \<Longrightarrow> same_record f b c \<Longrightarrow> same_record f a c"
  by (auto simp: same_record_def split: if_splits)

definition has_record :: "family \<Rightarrow> bytes list \<Rightarrow> bytes \<Rightarrow> bool" where
  "has_record f rs r \<longleftrightarrow> list_ex (same_record f r) rs"

text \<open>The specification: a list of records in the order of their arrival, and the records that did not fit.\<close>

fun unite :: "family \<Rightarrow> nat \<Rightarrow> bytes list \<Rightarrow> bytes list \<Rightarrow> bytes list \<times> bytes list" where
  "unite f room rs [] = (rs, [])"
| "unite f room rs (n # ns) =
     (if has_record f rs n then unite f room rs ns
      else if length (concat rs) + length n > room
      then (case unite f room rs ns of (rs', left) \<Rightarrow> (rs', n # left))
      else unite f room (rs @ [n]) ns)"

fun index_at :: "nat \<Rightarrow> bytes list \<Rightarrow> (u64 \<times> nat) list" where
  "index_at off [] = []"
| "index_at off (r # rs) = (LoadLe64 r 0, off) # index_at (off + length r) rs"

definition holds :: "(bytes \<Rightarrow> u64) \<Rightarrow> merger \<Rightarrow> bytes list \<Rightarrow> bool" where
  "holds H m rs \<longleftrightarrow> mg_bytes m = StoreHeader (mg_family m) @ concat rs
     \<and> mg_index m = index_at (length (StoreHeader (mg_family m))) rs \<and> mg_records m = length rs
     \<and> list_all (valid_record H (mg_family m)) rs \<and> sorted_wrt (\<lambda>a b. \<not> same_record (mg_family m) a b) rs"

lemma index_at_append: "index_at off (rs @ [r]) = index_at off rs @ [(LoadLe64 r 0, off + length (concat rs))]"
  by (induction rs arbitrary: off) (simp_all add: add.assoc)

lemma index_hashes: "map fst (index_at off rs) = map (\<lambda>r. LoadLe64 r 0) rs"
  by (induction rs arbitrary: off) simp_all

lemma index_lookup:
  assumes "\<forall>r \<in> set rs. length r = length bs"
  shows "(\<exists>x \<in> set (index_at (length pre) rs). fst x = LoadLe64 bs 0 \<and> take (length bs) (drop (snd x) (pre @ concat rs)) = bs)
     \<longleftrightarrow> bs \<in> set rs"
  using assms
proof (induction rs arbitrary: pre)
  case (Cons r rs)
  from Cons.IH [of "pre @ r"] Cons.prems show ?case by auto
qed simp

lemma Known_iff:
  assumes "holds H m rs" and v: "valid_record H (mg_family m) bs"
  shows "Known m (LoadLe64 bs 0) bs \<longleftrightarrow> has_record (mg_family m) rs bs"
proof (cases "mg_family m = Shaders")
  case True
  have "(\<exists>x \<in> set (mg_index m). fst x = LoadLe64 bs 0) \<longleftrightarrow> LoadLe64 bs 0 \<in> set (map fst (mg_index m))" by force
  also have "map fst (mg_index m) = map (\<lambda>r. LoadLe64 r 0) rs" using assms(1) by (simp add: holds_def index_hashes)
  also have "LoadLe64 bs 0 \<in> set (map (\<lambda>r. LoadLe64 r 0) rs) \<longleftrightarrow> (\<exists>r \<in> set rs. LoadLe64 bs 0 = LoadLe64 r 0)" by auto
  finally show ?thesis using True
    by (auto simp: Known_def Let_def has_record_def same_record_def list_ex_iff filter_empty_conv case_prod_beta)
next
  case False
  have "\<forall>r \<in> set rs. length r = length bs"
    using assms False valid_record_fixed by (fastforce simp: holds_def list_all_iff)
  from index_lookup [OF this, of "StoreHeader (mg_family m)"] assms(1)
  have "(\<exists>x \<in> set (mg_index m). fst x = LoadLe64 bs 0 \<and> take (length bs) (drop (snd x) (mg_bytes m)) = bs) \<longleftrightarrow> bs \<in> set rs"
    by (simp add: holds_def del: take_append drop_append)
  moreover have "Known m (LoadLe64 bs 0) bs
      \<longleftrightarrow> (\<exists>x \<in> set (mg_index m). fst x = LoadLe64 bs 0 \<and> take (length bs) (drop (snd x) (mg_bytes m)) = bs)"
    using False by (force simp: Known_def list_ex_iff case_prod_beta)
  ultimately show ?thesis using False by (auto simp: has_record_def same_record_def list_ex_iff)
qed


lemma unite_append: "unite f room rs (ms @ ns) =
   (case unite f room rs ms of (rs', left) \<Rightarrow> case unite f room rs' ns of (rs'', left') \<Rightarrow> (rs'', left @ left'))"
  by (induction f room rs ms rule: unite.induct) (auto split: prod.splits)

lemma unite_extends: "unite f room rs ns = (rs', left) \<Longrightarrow> \<exists>new. rs' = rs @ new \<and> set new \<subseteq> set ns \<and> set left \<subseteq> set ns
    \<and> length new + length left \<le> length ns"
  by (induction f room rs ns arbitrary: left rule: unite.induct) (fastforce split: if_splits prod.splits)+

lemma has_record_append: "has_record f (rs @ ns) r \<longleftrightarrow> has_record f rs r \<or> has_record f ns r"
  by (simp add: has_record_def)

text \<open>Every offered record is in the result, or it is left out and would not fit there either.\<close>

lemma unite_complete:
  assumes "unite f room rs ns = (rs', left)" "n \<in> set ns"
  shows "has_record f rs' n \<or> n \<in> set left \<and> room < length (concat rs') + length n"
  using assms
proof (induction f room rs ns arbitrary: left rule: unite.induct)
  case (2 f room rs k ns)
  have mono: "has_record f rs' x" if "unite f room qs ms = (rs', l)" "has_record f qs x" for qs ms l x
    using unite_extends [OF that(1)] that(2) by (auto simp: has_record_append)
  have grow: "length (concat qs) \<le> length (concat rs')" if "unite f room qs ms = (rs', l)" for qs ms l
    using unite_extends [OF that] by auto
  consider (known) "has_record f rs k" | (full) "\<not> has_record f rs k" "room < length (concat rs) + length k"
    | (new) "\<not> has_record f rs k" "\<not> room < length (concat rs) + length k" by blast
  then show ?case
  proof cases
    case known
    then show ?thesis using 2 mono by auto
  next
    case full
    then obtain l where l: "unite f room rs ns = (rs', l)" "left = k # l" using 2(4) by (auto split: prod.splits)
    show ?thesis using 2(2) [OF full l(1)] 2(5) l(2) grow [OF l(1)] full(2) by auto
  next
    case new
    then have u: "unite f room (rs @ [k]) ns = (rs', left)" using 2(4) by simp
    have "has_record f (rs @ [k]) k" by (simp add: has_record_def)
    then show ?thesis using 2(3) [OF new u] 2(5) mono [OF u] by auto
  qed
qed simp

lemma unite_fits: "unite f room rs ns = (rs', left) \<Longrightarrow> length (concat rs) + length (concat ns) \<le> room \<Longrightarrow> left = []"
  by (induction f room rs ns arbitrary: left rule: unite.induct) (auto split: if_splits prod.splits)

lemma unite_bound: "unite f room rs ns = (rs', left) \<Longrightarrow> length (concat rs) \<le> room \<Longrightarrow> length (concat rs') \<le> room"
  by (induction f room rs ns arbitrary: left rule: unite.induct) (auto split: if_splits prod.splits)

lemma unite_nothing: "\<forall>n \<in> set ns. has_record f rs n \<or> room < length (concat rs) + length n \<Longrightarrow> fst (unite f room rs ns) = rs"
  by (induction ns) (auto split: prod.splits)

lemma unite_distinct: "sorted_wrt (\<lambda>a b. \<not> same_record f a b) (rs @ ns) \<Longrightarrow> length (concat (rs @ ns)) \<le> room
    \<Longrightarrow> unite f room rs ns = (rs @ ns, [])"
proof (induction ns arbitrary: rs)
  case (Cons n ns)
  have "\<not> has_record f rs n" using Cons.prems(1)
    by (auto simp: has_record_def list_ex_iff sorted_wrt_append dest: same_record_sym)
  with Cons show ?case by simp
qed simp

subsection \<open>The merger computes the specification\<close>

text \<open>The members that only \<open>SetTarget\<close> and \<open>AddSource\<close> themselves write.\<close>

definition merger_frame :: "merger \<Rightarrow> merger \<Rightarrow> bool" where
  "merger_frame m m' \<longleftrightarrow> mg_family m' = mg_family m \<and> mg_max m' = mg_max m \<and> mg_target_records m' = mg_target_records m
     \<and> mg_added m' = mg_added m \<and> mg_foreign m' = mg_foreign m \<and> mg_target_header m' = mg_target_header m"

definition merger_room :: "merger \<Rightarrow> nat" where "merger_room m = mg_max m - length (StoreHeader (mg_family m))"

text \<open>A parsed record and its bytes in the file.\<close>

definition row_at :: "(bytes \<Rightarrow> u64) \<Rightarrow> family \<Rightarrow> bytes \<Rightarrow> store_record \<Rightarrow> bytes \<Rightarrow> bool" where
  "row_at H f src r b \<longleftrightarrow> valid_record H f b \<and> sr_size r = length b \<and> sr_hash r = LoadLe64 b 0
     \<and> take (sr_size r) (drop (sr_offset r) src) = b"

lemma add_records_unite:
  fixes m m' :: merger
  assumes "holds H m rs" "foldl (add_record src) (m, res) recs = (m', res')"
    and "\<forall>r \<in> set recs. row_at H (mg_family m) src r (row r)"
    and "unite (mg_family m) (merger_room m) rs (map row recs) = (rs', left)"
  shows "holds H m' rs' \<and> merger_frame m m' \<and> ar_added res' + length rs = ar_added res + length rs'
     \<and> ar_over_bound res' = ar_over_bound res + length left
     \<and> ar_added res' + ar_duplicates res' + ar_over_bound res'
         = ar_added res + ar_duplicates res + ar_over_bound res + length recs
     \<and> ar_header res' = ar_header res"
  using assms
proof (induction recs arbitrary: m res rs left)
  case Nil
  then show ?case by (simp add: merger_frame_def)
next
  case (Cons r recs)
  let ?f = "mg_family m" and ?b = "row r"
  have v: "valid_record H ?f ?b" and r: "sr_size r = length ?b" "sr_hash r = LoadLe64 ?b 0"
    "take (sr_size r) (drop (sr_offset r) src) = ?b" using Cons.prems(3) by (auto simp: row_at_def)
  obtain m1 res1 where s: "add_record src (m, res) r = (m1, res1)" by (cases "add_record src (m, res) r")
  then have rest: "foldl (add_record src) (m1, res1) recs = (m', res')" using Cons.prems(2) by simp
  note known = Known_iff [OF Cons.prems(1) v]
  have room: "mg_max m < length (mg_bytes m) + length ?b \<longleftrightarrow> merger_room m < length (concat rs) + length ?b"
    using Cons.prems(1) valid_record_size [OF v] by (auto simp: holds_def merger_room_def)
  show ?case
  proof (cases "has_record ?f rs ?b")
    case True
    then have m1: "m1 = m" "res1 = res\<lparr>ar_duplicates := ar_duplicates res + 1\<rparr>"
      using s known r by (auto simp: add_record_def Let_def)
    from Cons.IH [of m rs res1 left] Cons.prems True rest show ?thesis unfolding m1 by auto
  next
    case new: False
    show ?thesis
    proof (cases "merger_room m < length (concat rs) + length ?b")
      case True
      then have m1: "m1 = m" "res1 = res\<lparr>ar_over_bound := ar_over_bound res + 1\<rparr>"
        using s known new r room by (auto simp: add_record_def Let_def)
      moreover obtain l where "unite ?f (merger_room m) rs (map row recs) = (rs', l)" "left = ?b # l"
        using Cons.prems(4) new True by (auto split: prod.splits)
      ultimately show ?thesis using Cons.IH [of m rs res1 l] Cons.prems rest by auto
    next
      case False
      then have m1: "m1 = m\<lparr>mg_index := mg_index m @ [(LoadLe64 ?b 0, length (mg_bytes m))], mg_bytes := mg_bytes m @ ?b,
          mg_records := mg_records m + 1\<rparr>" "res1 = res\<lparr>ar_added := ar_added res + 1\<rparr>"
        using s known new r room by (auto simp: add_record_def Let_def)
      have "sorted_wrt (\<lambda>a b. \<not> same_record ?f a b) (rs @ [?b])" using Cons.prems(1) new
        by (auto simp: holds_def sorted_wrt_append has_record_def list_ex_iff dest: same_record_sym)
      then have "holds H m1 (rs @ [?b])" using Cons.prems(1) v
        by (simp add: holds_def m1 index_at_append)
      moreover have "unite ?f (merger_room m) (rs @ [?b]) (map row recs) = (rs', left)"
        using Cons.prems(4) new False by simp
      ultimately show ?thesis using Cons.IH [of m1 "rs @ [?b]" res1 left] Cons.prems(3) rest m1
        by (simp add: merger_room_def merger_frame_def)
    qed
  qed
qed

lemma records_at_rows: "r \<in> set (records_at off rs) \<Longrightarrow> src = pre @ concat rs @ tail \<Longrightarrow> off = length pre
  \<Longrightarrow> \<exists>b \<in> set rs. sr_size r = length b \<and> sr_hash r = LoadLe64 b 0 \<and> take (sr_size r) (drop (sr_offset r) src) = b"
proof (induction rs arbitrary: off pre)
  case (Cons b rs)
  from Cons.IH [of "off + length b" "pre @ b"] Cons.prems show ?case by auto
qed simp

lemma Add_unite:
  assumes "holds H m rs" "Add H m src = (m', res)"
    and "unite (mg_family m) (merger_room m) rs (store_rows H (mg_family m) src) = (rs', left)"
  shows "holds H m' rs' \<and> merger_frame m m' \<and> ar_added res + length rs = length rs' \<and> ar_over_bound res = length left
     \<and> ar_header res = ps_header (Parse H (mg_family m) src)"
proof (cases "ps_header (Parse H (mg_family m) src) = HeaderValid")
  case True
  let ?f = "mg_family m"
  let ?row = "\<lambda>r. take (sr_size r) (drop (sr_offset r) src)"
  obtain ns tail where p: "drop (fi_header_bytes (Info ?f)) src = concat ns @ tail" "list_all (valid_record H ?f) ns"
    "ps_records (Parse H ?f src) = records_at (fi_header_bytes (Info ?f)) ns" "store_rows H ?f src = ns"
    using Parse_valid [OF True] by metis
  have "prefix (StoreHeader ?f) src" using True by (simp add: header_valid_iff)
  then have src: "src = StoreHeader ?f @ concat ns @ tail" using p(1) length_Header [of ?f]
    by (auto simp: prefix_def)
  have "\<forall>r \<in> set (ps_records (Parse H ?f src)). row_at H ?f src r (?row r)"
    using records_at_rows [OF _ src, of _ "length (StoreHeader ?f)"] p(2) unfolding p(3) length_Header [symmetric]
    by (fastforce simp: list_all_iff row_at_def)
  from add_records_unite [OF assms(1) _ this, of _ m' res rs' left] assms(2,3) True show ?thesis
    by (simp add: Add_def Let_def no_result_def store_rows_def)
next
  case False
  then have "ps_records (Parse H (mg_family m) src) = []" by (auto simp: Parse_def Let_def split: prod.splits if_splits)
  with False assms show ?thesis by (auto simp: Add_def Let_def no_result_def store_rows_def merger_frame_def)
qed


subsection \<open>Any sequence of calls\<close>

datatype merger_call = MTarget bytes | MUnreadable | MSource bytes

fun merger_step :: "(bytes \<Rightarrow> u64) \<Rightarrow> merger \<Rightarrow> merger_call \<Rightarrow> merger" where
  "merger_step H m (MTarget src) = fst (SetTarget H m src)"
| "merger_step H m MUnreadable = SetTargetUnreadable m"
| "merger_step H m (MSource src) = fst (AddSource H m src)"

definition merger_ok :: "(bytes \<Rightarrow> u64) \<Rightarrow> family \<Rightarrow> nat \<Rightarrow> merger \<Rightarrow> bool" where
  "merger_ok H f room m \<longleftrightarrow> mg_family m = f \<and> merger_room m = room
     \<and> (\<exists>rs. holds H m rs \<and> length (concat rs) \<le> room)"

lemma merger_ok_members:
  "merger_ok H f room m \<Longrightarrow> mg_family m' = mg_family m \<Longrightarrow> mg_max m' = mg_max m \<Longrightarrow> mg_bytes m' = mg_bytes m
   \<Longrightarrow> mg_index m' = mg_index m \<Longrightarrow> mg_records m' = mg_records m \<Longrightarrow> merger_ok H f room m'"
  by (auto simp: merger_ok_def merger_room_def holds_def)

lemma Add_ok: "merger_ok H f room m \<Longrightarrow> merger_ok H f room (fst (Add H m src)) \<and> merger_frame m (fst (Add H m src))"
proof -
  assume "merger_ok H f room m"
  then obtain rs where rs: "holds H m rs" "length (concat rs) \<le> room" and m: "mg_family m = f" "merger_room m = room"
    by (auto simp: merger_ok_def)
  obtain m' res where a: "Add H m src = (m', res)" by (cases "Add H m src")
  obtain rs' left where u: "unite f room rs (store_rows H f src) = (rs', left)" by (cases "unite f room rs (store_rows H f src)")
  from Add_unite [OF rs(1) a] u m unite_bound [OF u rs(2)] show ?thesis
    by (auto simp: merger_ok_def merger_frame_def merger_room_def a)
qed

lemma merger_ok_step: "merger_ok H f room m \<Longrightarrow> merger_ok H f room (merger_step H m call)"
proof (cases call)
  case (MTarget src)
  obtain m' res where "Add H m src = (m', res)" by (cases "Add H m src")
  with MTarget show "merger_ok H f room m \<Longrightarrow> ?thesis"
    using Add_ok [of H f room m src] by (auto simp: SetTarget_def intro: merger_ok_members [of H f room m'])
next
  case (MSource src)
  obtain m' res where "Add H m src = (m', res)" by (cases "Add H m src")
  with MSource show "merger_ok H f room m \<Longrightarrow> ?thesis"
    using Add_ok [of H f room m src] by (auto simp: AddSource_def intro: merger_ok_members [of H f room m'])
qed (auto simp: SetTargetUnreadable_def elim!: merger_ok_members)

interpretation merging: machine "merger_step H" "merger_ok H f room" for H f room
  by unfold_locales (rule merger_ok_step)

lemma holds_new: "holds H (new_merger f maximum) []"
  by (simp add: holds_def new_merger_def)

lemma holds_rows: "holds H m rs \<Longrightarrow> store_rows H (mg_family m) (mg_bytes m) = rs
    \<and> Parse H (mg_family m) (mg_bytes m) = \<lparr>ps_header = HeaderValid, ps_records = records_at (length (StoreHeader (mg_family m))) rs,
        ps_valid_bytes = length (mg_bytes m), ps_stopped = False\<rparr>"
  using Parse_rows [of H "mg_family m" rs "[]"] rows_at [of H "mg_family m" rs "StoreHeader (mg_family m)" "[]"]
  by (simp add: holds_def store_rows_def)

lemma length_records_at [simp]: "length (records_at off rs) = length rs"
  by (induction rs arbitrary: off) simp_all

text \<open>C6: whatever files are merged, in whatever order of calls, the result is a store that the parser accepts
  to its last byte: the header is the family's, no bytes are left over, the number of parsed records
  is the merger's counter, no two of them are the same record, and the byte bound holds (if it has room for
  a header at all).\<close>

theorem merged_store_parses:
  "let m = run_events (merger_step H) (new_merger f maximum) calls; p = Parse H f (mg_bytes m) in
     ps_header p = HeaderValid \<and> \<not> ps_stopped p \<and> ps_valid_bytes p = length (mg_bytes m)
     \<and> length (ps_records p) = mg_records m \<and> length (mg_bytes m) \<le> max maximum (length (StoreHeader f))
     \<and> sorted_wrt (\<lambda>a b. \<not> same_record f a b) (store_rows H f (mg_bytes m))"
proof -
  let ?m = "run_events (merger_step H) (new_merger f maximum) calls"
  have "merger_ok H f (maximum - length (StoreHeader f)) (new_merger f maximum)"
    using holds_new [of H f maximum] unfolding merger_ok_def
    by (intro conjI exI [of _ "[]"]) (simp_all add: new_merger_def merger_room_def)
  from merging.inv_run [OF this] obtain rs where rs: "holds H ?m rs" "length (concat rs) \<le> maximum - length (StoreHeader f)"
    "mg_family ?m = f" by (auto simp: merger_ok_def)
  then show ?thesis using holds_rows [OF rs(1)] by (auto simp: Let_def holds_def)
qed

subsection \<open>One seeding pass\<close>

text \<open>The calls of one pass: the build's own store, then the stores of the other builds.\<close>

definition seed :: "(bytes \<Rightarrow> u64) \<Rightarrow> family \<Rightarrow> nat \<Rightarrow> bytes \<Rightarrow> bytes list \<Rightarrow> merger" where
  "seed H f maximum target sources =
     run_events (merger_step H) (new_merger f maximum) (MTarget target # map MSource sources)"

definition readable_target :: "(bytes \<Rightarrow> u64) \<Rightarrow> family \<Rightarrow> bytes \<Rightarrow> bool" where
  "readable_target H f target \<longleftrightarrow> ps_header (Parse H f target) \<in> {HeaderValid, HeaderEmpty}"

lemma sources_unite:
  assumes "holds H m rs" "\<not> mg_foreign m"
    and "unite (mg_family m) (merger_room m) rs (concat (map (store_rows H (mg_family m)) sources)) = (rs', left)"
  shows "let m' = run_events (merger_step H) m (map MSource sources) in
     holds H m' rs' \<and> mg_family m' = mg_family m \<and> \<not> mg_foreign m' \<and> mg_target_records m' = mg_target_records m
     \<and> mg_added m' + length rs = mg_added m + length rs'"
  using assms
proof (induction sources arbitrary: m rs left)
  case (Cons s sources)
  let ?f = "mg_family m"
  obtain m1 res where a: "Add H m s = (m1, res)" by (cases "Add H m s")
  obtain rs1 l1 where u: "unite ?f (merger_room m) rs (store_rows H ?f s) = (rs1, l1)"
    by (cases "unite ?f (merger_room m) rs (store_rows H ?f s)")
  then obtain l2 where u2: "unite ?f (merger_room m) rs1 (concat (map (store_rows H ?f) sources)) = (rs', l2)"
    using Cons.prems(3) by (auto simp: unite_append split: prod.splits)
  let ?m = "m1\<lparr>mg_added := mg_added m1 + ar_added res\<rparr>"
  from Add_unite [OF Cons.prems(1) a u] have m1: "holds H ?m rs1" "merger_frame m m1" "ar_added res + length rs = length rs1"
    by (auto simp: holds_def)
  then have fr: "mg_family ?m = ?f" "\<not> mg_foreign ?m" "merger_room ?m = merger_room m" "mg_added m1 = mg_added m"
    "mg_target_records m1 = mg_target_records m"
    using Cons.prems(2) by (auto simp: merger_frame_def merger_room_def)
  from Cons.IH [OF m1(1) fr(2), of l2] u2 fr m1(3) Cons.prems(2) a show ?case
    by (simp add: AddSource_def Let_def)
qed simp

lemma foreign_sources: "mg_foreign m \<Longrightarrow> run_events (merger_step H) m (map MSource sources) = m"
  by (induction sources) (simp_all add: AddSource_def)

text \<open>The outcome of a pass by the specification: the records of the target, and those that the sources add.\<close>

lemma seed_unite:
  assumes "unite f (maximum - length (StoreHeader f)) [] (store_rows H f target) = (ts, over)"
    and "unite f (maximum - length (StoreHeader f)) ts (concat (map (store_rows H f) sources)) = (rs, left)"
  shows "let m = seed H f maximum target sources in
     mg_target_records m = length ts
     \<and> (if readable_target H f target
        then \<not> mg_foreign m \<and> holds H m rs \<and> mg_family m = f \<and> mg_added m + length ts = length rs
        else mg_foreign m \<and> mg_added m = 0)"
proof -
  let ?n = "new_merger f maximum"
  obtain m1 res where a: "Add H ?n target = (m1, res)" by (cases "Add H ?n target")
  have n: "mg_family ?n = f" "merger_room ?n = maximum - length (StoreHeader f)" "mg_added ?n = 0"
    by (simp_all add: new_merger_def merger_room_def)
  note u = Add_unite [OF holds_new a, unfolded n, OF assms(1)]
  let ?m = "fst (SetTarget H ?n target)"
  have m: "holds H ?m ts" "mg_family ?m = f" "merger_room ?m = maximum - length (StoreHeader f)" "mg_added ?m = 0"
    "mg_target_records ?m = length ts" "mg_foreign ?m \<longleftrightarrow> \<not> readable_target H f target"
    using u n by (auto simp: SetTarget_def a holds_def merger_frame_def merger_room_def readable_target_def)
  have s: "seed H f maximum target sources = run_events (merger_step H) ?m (map MSource sources)" by (simp add: seed_def)
  show ?thesis
  proof (cases "readable_target H f target")
    case True
    with sources_unite [OF m(1), of sources rs left] m assms(2) show ?thesis by (simp add: s Let_def)
  next
    case False
    with m foreign_sources [of ?m H sources] show ?thesis by (simp add: s Let_def)
  qed
qed

text \<open>C5: a seeding pass computes the specification \<open>unite\<close>: with a readable target (absent, or with this
  family's header) the records of the merged file are those of the target followed by the first
  occurrence of each new one of the sources, as far as they fit; the counters are theirs; and a write is
  asked for exactly if something was added. A target of another format is never replaced.\<close>

theorem seed_refines_unite:
  "let m = seed H f maximum target sources; room = maximum - length (StoreHeader f);
       ts = fst (unite f room [] (store_rows H f target));
       rs = fst (unite f room ts (concat (map (store_rows H f) sources))) in
   if readable_target H f target
   then store_rows H f (mg_bytes m) = rs \<and> prefix ts rs \<and> mg_target_records m = length ts
     \<and> mg_added m = length rs - length ts \<and> merged_records m = length rs \<and> (NeedsWrite m \<longleftrightarrow> rs \<noteq> ts)
   else \<not> NeedsWrite m \<and> merged_records m = mg_target_records m"
proof -
  let ?room = "maximum - length (StoreHeader f)"
  obtain ts over where t: "unite f ?room [] (store_rows H f target) = (ts, over)" by (cases "unite f ?room [] (store_rows H f target)")
  obtain rs left where r: "unite f ?room ts (concat (map (store_rows H f) sources)) = (rs, left)"
    by (cases "unite f ?room ts (concat (map (store_rows H f) sources))")
  note s = seed_unite [OF t r]
  obtain new where new: "rs = ts @ new" using unite_extends [OF r] by blast
  show ?thesis
  proof (cases "readable_target H f target")
    case True
    then have "holds H (seed H f maximum target sources) rs" using s by (simp add: Let_def)
    with s t r new True holds_rows [OF this] show ?thesis
      by (auto simp: Let_def NeedsWrite_def merged_records_def holds_def)
  next
    case False
    with s show ?thesis by (simp add: Let_def NeedsWrite_def merged_records_def)
  qed
qed

text \<open>C7: a pass loses nothing and invents nothing: when it asks for a write, and the target was within the byte
  bound, every record of the target is in the merged file, every record of a source is there or
  would exceed the bound, and every record there came from one of these files.\<close>

theorem seed_conserves_records:
  assumes "NeedsWrite (seed H f maximum target sources)" "length target \<le> maximum"
  shows "let rs = store_rows H f (mg_bytes (seed H f maximum target sources)) in
     (\<forall>r \<in> set (store_rows H f target). has_record f rs r)
     \<and> (\<forall>src \<in> set sources. \<forall>r \<in> set (store_rows H f src).
          has_record f rs r \<or> maximum < length (mg_bytes (seed H f maximum target sources)) + length r)
     \<and> set rs \<subseteq> set (store_rows H f target) \<union> (\<Union>src \<in> set sources. set (store_rows H f src))"
proof -
  let ?room = "maximum - length (StoreHeader f)" and ?m = "seed H f maximum target sources"
  obtain ts over where t: "unite f ?room [] (store_rows H f target) = (ts, over)" by (cases "unite f ?room [] (store_rows H f target)")
  obtain rs left where r: "unite f ?room ts (concat (map (store_rows H f) sources)) = (rs, left)"
    by (cases "unite f ?room ts (concat (map (store_rows H f) sources))")
  note s = seed_unite [OF t r]
  have ok: "readable_target H f target" using s assms(1) by (auto simp: Let_def NeedsWrite_def split: if_splits)
  then have h: "holds H ?m rs" "mg_family ?m = f" using s by (simp_all add: Let_def)
  then have rows: "store_rows H f (mg_bytes ?m) = rs" and bytes: "mg_bytes ?m = StoreHeader f @ concat rs"
    using holds_rows [OF h(1)] by (simp_all add: holds_def)
  have len: "length (concat (store_rows H f target)) \<le> ?room"
  proof (cases "ps_header (Parse H f target) = HeaderValid")
    case True
    obtain ns tail where "drop (fi_header_bytes (Info f)) target = concat ns @ tail" "store_rows H f target = ns"
      using Parse_valid [OF True] by metis
    moreover from this(1) have "length (concat ns) \<le> length target - fi_header_bytes (Info f)"
      by (metis length_append length_drop le_add1)
    ultimately show ?thesis using assms(2) by (simp add: length_Header)
  next
    case False
    then have "ps_records (Parse H f target) = []" by (auto simp: Parse_def Let_def split: prod.splits if_splits)
    then show ?thesis by (simp add: store_rows_def)
  qed
  from unite_fits [OF t] len have "over = []" by simp
  then have "has_record f rs x" if "x \<in> set (store_rows H f target)" for x
    using unite_complete [OF t that] unite_extends [OF r] by (auto simp: has_record_append)
  moreover have "has_record f rs x \<or> maximum < length (mg_bytes ?m) + length x"
    if "src \<in> set sources" "x \<in> set (store_rows H f src)" for src x
  proof -
    have "x \<in> set (concat (map (store_rows H f) sources))" using that by auto
    from unite_complete [OF r this] show ?thesis by (auto simp: bytes)
  qed
  moreover have "set rs \<subseteq> set (store_rows H f target) \<union> (\<Union>src \<in> set sources. set (store_rows H f src))"
  proof -
    have "set ts \<subseteq> set (store_rows H f target)" using unite_extends [OF t] by auto
    moreover obtain new where "rs = ts @ new" "set new \<subseteq> (\<Union>src \<in> set sources. set (store_rows H f src))"
      using unite_extends [OF r] by auto
    ultimately show ?thesis unfolding \<open>rs = ts @ new\<close> set_append by blast
  qed
  ultimately show ?thesis unfolding Let_def rows by blast
qed

text \<open>A pass is idempotent: after its result has been written, the same pass over the new file and the
  same sources adds nothing, asks for no write, and holds the same bytes.\<close>

theorem seed_idempotent:
  assumes "NeedsWrite (seed H f maximum target sources)"
  shows "let written = mg_bytes (seed H f maximum target sources); again = seed H f maximum written sources in
     \<not> NeedsWrite again \<and> mg_bytes again = written"
proof -
  let ?room = "maximum - length (StoreHeader f)" and ?m = "seed H f maximum target sources"
  obtain ts over where t: "unite f ?room [] (store_rows H f target) = (ts, over)" by (cases "unite f ?room [] (store_rows H f target)")
  obtain rs left where r: "unite f ?room ts (concat (map (store_rows H f) sources)) = (rs, left)"
    by (cases "unite f ?room ts (concat (map (store_rows H f) sources))")
  note s = seed_unite [OF t r]
  have ok: "readable_target H f target" using s assms(1) by (auto simp: Let_def NeedsWrite_def split: if_splits)
  then have h: "holds H ?m rs" "mg_family ?m = f" using s by (simp_all add: Let_def)
  note p = holds_rows [OF h(1), unfolded h(2)]
  have "length (concat rs) \<le> ?room" using unite_bound [OF r] unite_bound [OF t] by simp
  then have t': "unite f ?room [] (store_rows H f (mg_bytes ?m)) = (rs, [])"
    using p unite_distinct [of f "[]" rs ?room] h by (simp add: holds_def)
  have "fst (unite f ?room rs (concat (map (store_rows H f) sources))) = rs"
    using unite_complete [OF r] by (intro unite_nothing) auto
  then obtain l where r': "unite f ?room rs (concat (map (store_rows H f) sources)) = (rs, l)"
    by (metis prod.collapse)
  have "readable_target H f (mg_bytes ?m)" using p by (simp add: readable_target_def)
  with seed_unite [OF t' r'] h show ?thesis by (auto simp: Let_def NeedsWrite_def holds_def)
qed

definition first_byte :: "bytes \<Rightarrow> u64" where "first_byte bs = (if bs = [] then 0 else ucast (hd bs))"

definition sample_record :: "u8 \<Rightarrow> bytes" where
  "sample_record x = x # replicate 7 0 @ [1, 0, 0, 0] @ [x, 0, 0, 0]"

definition sample_store :: "u8 list \<Rightarrow> bytes" where
  "sample_store marks = StoreHeader Shaders @ concat (map sample_record marks)"

theorem seed_conserves_records_witness:
  "let m = seed first_byte Shaders 50 (sample_store [1]) [sample_store [1, 2], sample_store [3]] in
     NeedsWrite m \<and> mg_bytes m = sample_store [1, 2]
     \<and> has_record Shaders (store_rows first_byte Shaders (mg_bytes m)) (sample_record 1)"
proof -
  let ?m = "seed first_byte Shaders 50 (sample_store [1]) [sample_store [1, 2], sample_store [3]]"
  have n: "NeedsWrite ?m" by code_simp
  have l: "length (sample_store [1]) \<le> 50" by code_simp
  have r: "sample_record 1 \<in> set (store_rows first_byte Shaders (sample_store [1]))" by code_simp
  have "mg_bytes ?m = sample_store [1, 2]" by code_simp
  with n r seed_conserves_records [OF n l] show ?thesis unfolding Let_def by blast
qed

theorem seed_idempotent_witness:
  "\<not> NeedsWrite (seed first_byte Shaders 50
     (mg_bytes (seed first_byte Shaders 50 (sample_store [1]) [sample_store [2]])) [sample_store [2]])"
proof -
  have n: "NeedsWrite (seed first_byte Shaders 50 (sample_store [1]) [sample_store [2]])" by code_simp
  from seed_idempotent [OF n] show ?thesis unfolding Let_def by blast
qed

end
