(* ===== verification/TextLines.thy ===== *)
theory TextLines
  imports Prelude
begin

section \<open>Bytes, lines and searching in texts\<close>

text \<open>
  What several components do with a \<open>std::string_view\<close>: read a byte, walk over its lines, search in it.
\<close>

subsection \<open>Bytes\<close>

definition byte :: "char \<Rightarrow> nat" where "byte c = of_char c"

lemma byte_char [simp]: "n < 256 \<Longrightarrow> byte (char_of n) = n"
  by (simp add: byte_def)

lemma byte_less [simp]: "byte c < 256"
  by (simp add: byte_def)

lemma char_byte [simp]: "char_of (byte c) = c"
  by (simp add: byte_def)

lemma byte_inject: "byte c = n \<Longrightarrow> c = char_of n"
  by auto

subsection \<open>Lines\<close>

text \<open>The loops that cut a text at each line feed: no line for the empty rest at the end.\<close>

definition text_lines :: "string \<Rightarrow> string list" where
  "text_lines content = (let parts = split_all (CHR 0x0A) content in
     if List.last parts = [] then butlast parts else parts)"

lemma split_all_length: "length (split_all d xs) \<le> Suc (length xs)"
proof (induction d xs rule: split_all.induct)
  case (1 d xs)
  show ?case
  proof (cases "split_at d xs")
    case (Pair h t)
    then show ?thesis using 1 split_at_length
      by (cases t) (subst split_all.simps, fastforce)+
  qed
qed

lemma text_lines_length: "length (text_lines content) \<le> Suc (length content)"
  using split_all_length [of "CHR 0x0A" content] by (auto simp: text_lines_def Let_def)

subsection \<open>Searching\<close>

text \<open>\<open>find(needle, from)\<close>: the least position from there at which the needle starts; past the end there is none.\<close>

definition find_from :: "string \<Rightarrow> string \<Rightarrow> nat \<Rightarrow> nat option" where
  "find_from s needle start = List.find (\<lambda>i. prefix needle (drop i s)) [start..<Suc (length s)]"

lemma find_from_Some: "find_from s needle start = Some i \<longleftrightarrow>
    start \<le> i \<and> i \<le> length s \<and> prefix needle (drop i s) \<and> (\<forall>j. start \<le> j \<and> j < i \<longrightarrow> \<not> prefix needle (drop j s))"
proof -
  have "find_from s needle start = Some i \<longleftrightarrow> (\<exists>k < Suc (length s) - start. prefix needle (drop (start + k) s) \<and> i = start + k
      \<and> (\<forall>j < k. \<not> prefix needle (drop (start + j) s)))"
    unfolding find_from_def find_Some_iff by (auto simp del: upt_Suc)
  also have "\<dots> \<longleftrightarrow> start \<le> i \<and> i \<le> length s \<and> prefix needle (drop i s) \<and> (\<forall>j. start \<le> j \<and> j < i \<longrightarrow> \<not> prefix needle (drop j s))"
  proof
    assume "start \<le> i \<and> i \<le> length s \<and> prefix needle (drop i s) \<and> (\<forall>j. start \<le> j \<and> j < i \<longrightarrow> \<not> prefix needle (drop j s))"
    then show "\<exists>k < Suc (length s) - start. prefix needle (drop (start + k) s) \<and> i = start + k
      \<and> (\<forall>j < k. \<not> prefix needle (drop (start + j) s))"
      by (intro exI [of _ "i - start"]) auto
  next
    assume "\<exists>k < Suc (length s) - start. prefix needle (drop (start + k) s) \<and> i = start + k
      \<and> (\<forall>j < k. \<not> prefix needle (drop (start + j) s))"
    then obtain k where k: "k < Suc (length s) - start" "prefix needle (drop (start + k) s)" "i = start + k"
      "\<And>j. j < k \<Longrightarrow> \<not> prefix needle (drop (start + j) s)" by blast
    have "\<not> prefix needle (drop j s)" if "start \<le> j" "j < i" for j
      using k(4) [of "j - start"] that k(3) by simp
    then show "start \<le> i \<and> i \<le> length s \<and> prefix needle (drop i s) \<and> (\<forall>j. start \<le> j \<and> j < i \<longrightarrow> \<not> prefix needle (drop j s))"
      using k(1-3) by auto
  qed
  finally show ?thesis .
qed

lemma find_from_None: "find_from s needle start = None \<longleftrightarrow>
    (\<forall>i. start \<le> i \<and> i \<le> length s \<longrightarrow> \<not> prefix needle (drop i s))"
  unfolding find_from_def find_None_iff by (auto simp del: upt_Suc)

text \<open>A text without the needle, and the decomposition at the first place of it.\<close>

lemma find_from_split:
  assumes "find_from s needle 0 = Some i"
  shows "s = take i s @ needle @ drop (i + length needle) s"
proof -
  have "prefix needle (drop i s)" using assms by (simp add: find_from_Some)
  then have "drop i s = needle @ drop (length needle) (drop i s)" by (metis append_eq_conv_conj prefix_def)
  then show ?thesis by (metis append_take_drop_id drop_drop add.commute)
qed

end
