(* ===== verification/DevOverrides.thy ===== *)
theory DevOverrides
  imports TextLines
begin

section \<open>Developer overrides (\<open>mcla_dev_overrides\<close>)\<close>

text \<open>
  The parser of the override file, the resolution of contradictory keys, and the two passes that write
  configuration variables. The variables and the directory for dumps belong to the SDK and the
  operating system: \<open>cvar_store\<close> holds their operations on an arbitrary state \<open>'s\<close>, without any law.
\<close>

subsection \<open>The table of keys\<close>

datatype override_phase = Startup | GraphicsPlugin | LauncherPhase
datatype text_source = LiteralText | XmaDumpDirectory

record key_info =
  ki_name :: string
  ki_phase :: override_phase
  ki_cvar :: string
  ki_true :: string
  ki_false :: string
  ki_source :: text_source
  ki_overrides_user :: bool

definition cvar_key :: "string \<Rightarrow> override_phase \<Rightarrow> string \<Rightarrow> string \<Rightarrow> string \<Rightarrow> key_info" where
  "cvar_key name phase cvar t f = \<lparr>ki_name = name, ki_phase = phase, ki_cvar = cvar, ki_true = t, ki_false = f,
     ki_source = LiteralText, ki_overrides_user = False\<rparr>"

definition plain_key :: "string \<Rightarrow> override_phase \<Rightarrow> key_info" where
  "plain_key name phase = cvar_key name phase [] ''true'' ''false''"

text \<open>A key is its number in the enumeration, which is its index in the table.\<close>

type_synonym key = nat

definition kKeyCount :: nat where "kKeyCount = 62"

definition kUploadAhead16 :: key where "kUploadAhead16 = 12"
definition kUploadAhead64 :: key where "kUploadAhead64 = 13"
definition kHotBlocksShadow :: key where "kHotBlocksShadow = 14"
definition kHotBlocksOn :: key where "kHotBlocksOn = 15"
definition kAudioSpeakerStereo :: key where "kAudioSpeakerStereo = 24"
definition kAudioSpeakerSurround :: key where "kAudioSpeakerSurround = 25"
definition kReadbackKick256 :: key where "kReadbackKick256 = 29"
definition kReadbackKick128 :: key where "kReadbackKick128 = 30"
definition kReadbackKick1024 :: key where "kReadbackKick1024 = 31"
definition kReadbackSteadyExempt :: key where "kReadbackSteadyExempt = 34"
definition kXmaFrameWalkFix :: key where "kXmaFrameWalkFix = 49"
definition kFenceWriteDeferred :: key where "kFenceWriteDeferred = 53"
definition kXmaFrameWalkFixOff :: key where "kXmaFrameWalkFixOff = 54"
definition kVblankHz72 :: key where "kVblankHz72 = 56"
definition kVblankHz80 :: key where "kVblankHz80 = 57"
definition kVblankHz88 :: key where "kVblankHz88 = 58"
definition kReadbackSteadyExemptOff :: key where "kReadbackSteadyExemptOff = 59"
definition kFenceWriteDeferredOff :: key where "kFenceWriteDeferredOff = 60"

definition kKeys :: "key_info list" where
  "kKeys = [
     plain_key ''mcla_readback_sync_composite'' Startup,
     plain_key ''mcla_native_d3d_refcount'' Startup,
     plain_key ''mcla_native_xapi_interlocked'' Startup,
     plain_key ''d3d12_wrm_event_wake'' GraphicsPlugin,
     plain_key ''d3d12_replay_batched_wake'' GraphicsPlugin,
     plain_key ''d3d12_readback_elide_unread'' GraphicsPlugin,
     plain_key ''mcla_gpu_backend_vulkan'' Startup,
     plain_key ''prewarm_seed_store'' LauncherPhase,
     plain_key ''d3d12_readback_sync_targeted'' GraphicsPlugin,
     plain_key ''memory_watch_census'' Startup,
     plain_key ''memory_watch_probes'' Startup,
     plain_key ''memory_watch_disarm_bridge_safe_gaps'' Startup,
     cvar_key ''shared_memory_upload_ahead_16'' GraphicsPlugin ''shared_memory_upload_ahead_pages'' ''16'' [],
     cvar_key ''shared_memory_upload_ahead_64'' GraphicsPlugin ''shared_memory_upload_ahead_pages'' ''64'' [],
     cvar_key ''shared_memory_hot_blocks_shadow'' GraphicsPlugin ''shared_memory_hot_blocks'' ''1'' [],
     cvar_key ''shared_memory_hot_blocks_on'' GraphicsPlugin ''shared_memory_hot_blocks'' ''2'' [],
     plain_key ''mcla_warp_probe'' Startup,
     cvar_key ''mcla_warp_watchdog'' Startup ''mcla_warp_watchdog_seconds'' ''15'' [],
     cvar_key ''mcla_texture_budget_soft_cap_off'' Startup ''mcla_texture_budget_soft_cap_mb'' ''0'' [],
     cvar_key ''mcla_warp_finish_fix_off'' Startup ''mcla_warp_finish_fix'' ''false'' [],
     plain_key ''mcla_album_probe'' Startup,
     plain_key ''mcla_pursuit_probe'' Startup,
     cvar_key ''xam_content_stable_creation_time_off'' Startup ''xam_content_stable_creation_time'' ''false'' [],
     cvar_key ''xam_content_trace_off'' Startup ''xam_content_trace'' ''false'' [],
     cvar_key ''audio_speaker_config_stereo'' Startup ''audio_speaker_config'' ''stereo'' [],
     cvar_key ''audio_speaker_config_surround'' Startup ''audio_speaker_config'' ''surround'' [],
     cvar_key ''audio_downmix_itu_off'' Startup ''audio_downmix_itu'' ''false'' [],
     plain_key ''audio_channel_rms_probe'' Startup,
     plain_key ''mcla_album_preview_restore'' Startup,
     cvar_key ''readback_kick_256'' GraphicsPlugin ''d3d12_readback_sync_kick_draws'' ''256'' [],
     cvar_key ''readback_kick_128'' GraphicsPlugin ''d3d12_readback_sync_kick_draws'' ''128'' [],
     cvar_key ''readback_kick_1024'' GraphicsPlugin ''d3d12_readback_sync_kick_draws'' ''1024'' [],
     cvar_key ''fetch_identity_off'' GraphicsPlugin ''d3d12_fetch_identity_cache'' ''false'' [],
     cvar_key ''fetch_identity_verify'' GraphicsPlugin ''d3d12_fetch_identity_verify'' ''true'' [],
     cvar_key ''readback_steady_exempt'' GraphicsPlugin ''d3d12_readback_sync_steady_exempt'' ''true'' [],
     cvar_key ''xma_swap_carry_packet'' Startup [] ''true'' [],
     cvar_key ''xma_valid_only_when_written'' Startup [] ''true'' [],
     cvar_key ''xma_work_lock_recheck'' Startup [] ''true'' [],
     cvar_key ''xma_swap_trace'' Startup [] ''true'' [],
     cvar_key ''xma_sibling_trace'' Startup [] ''true'' [],
     cvar_key ''xma_stall_on_invalid_next'' Startup [] ''true'' [],
     cvar_key ''xma_honor_start_skip'' Startup [] ''true'' [],
     cvar_key ''xma_reset_codec_on_clear'' Startup [] ''true'' [],
     plain_key ''mcla_xma_consume_probe'' Startup,
     cvar_key ''xma_honor_frame_trim'' Startup [] ''true'' [],
     cvar_key ''xma_frame_trim_block_granular'' Startup [] ''true'' [],
     cvar_key ''xma_dump_all_rates'' Startup [] ''true'' [],
     (cvar_key ''xma_dump_contexts_on'' Startup ''xma_dump_contexts'' ''<diagnostics>/xma-dump/<yyyyMMdd-HHmmss>'' [])\<lparr>ki_source := XmaDumpDirectory\<rparr>,
     cvar_key ''xma_frame_walk_trace'' Startup [] ''true'' [],
     cvar_key ''xma_frame_walk_fix'' Startup [] ''true'' [],
     cvar_key ''xma_dump_input'' Startup [] ''true'' [],
     plain_key ''mcla_lock_probe'' Startup,
     plain_key ''mcla_lock_readback_ensure'' Startup,
     cvar_key ''fence_write_deferred'' GraphicsPlugin ''d3d12_fence_write_deferred'' ''true'' [],
     cvar_key ''xma_frame_walk_fix_off'' Startup ''xma_frame_walk_fix'' ''false'' [],
     cvar_key ''raw_timer_off'' Startup ''mcla_raw_timer'' ''false'' [],
     (cvar_key ''vblank_hz_72'' GraphicsPlugin ''mcla_guest_vblank_hz'' ''72'' [])\<lparr>ki_overrides_user := True\<rparr>,
     (cvar_key ''vblank_hz_80'' GraphicsPlugin ''mcla_guest_vblank_hz'' ''80'' [])\<lparr>ki_overrides_user := True\<rparr>,
     (cvar_key ''vblank_hz_88'' GraphicsPlugin ''mcla_guest_vblank_hz'' ''88'' [])\<lparr>ki_overrides_user := True\<rparr>,
     cvar_key ''readback_steady_exempt_off'' GraphicsPlugin ''d3d12_readback_sync_steady_exempt'' ''false'' [],
     cvar_key ''fence_write_deferred_off'' GraphicsPlugin ''d3d12_fence_write_deferred'' ''false'' [],
     cvar_key ''fence_defer_gap_2000'' GraphicsPlugin ''d3d12_fence_defer_min_gap_us'' ''2000'' []]"

definition kConflictPairs :: "(key \<times> key) list" where
  "kConflictPairs = [
     (kUploadAhead16, kUploadAhead64),
     (kHotBlocksShadow, kHotBlocksOn),
     (kAudioSpeakerStereo, kAudioSpeakerSurround),
     (kReadbackKick256, kReadbackKick128),
     (kReadbackKick256, kReadbackKick1024),
     (kReadbackKick128, kReadbackKick1024),
     (kXmaFrameWalkFix, kXmaFrameWalkFixOff),
     (kVblankHz72, kVblankHz80),
     (kVblankHz72, kVblankHz88),
     (kVblankHz80, kVblankHz88),
     (kReadbackSteadyExempt, kReadbackSteadyExemptOff),
     (kFenceWriteDeferred, kFenceWriteDeferredOff)]"

definition CvarName :: "key_info \<Rightarrow> string" where
  "CvarName info = (if ki_cvar info = [] then ki_name info else ki_cvar info)"

definition CvarText :: "key_info \<Rightarrow> bool \<Rightarrow> string" where
  "CvarText info v = (if v then ki_true info else ki_false info)"

definition FindKey :: "string \<Rightarrow> key option" where
  "FindKey name = find (\<lambda>i. ki_name (kKeys ! i) = name) [0..<kKeyCount]"

subsection \<open>The dump stamp\<close>

fun stamp_digits :: "nat \<Rightarrow> int \<Rightarrow> string" where
  "stamp_digits 0 v = []"
| "stamp_digits (Suc width) v = stamp_digits width (v div 10) @ [digit_char (nat (v mod 10))]"

definition FormatDumpStamp :: "int \<Rightarrow> int \<Rightarrow> int \<Rightarrow> int \<Rightarrow> int \<Rightarrow> int \<Rightarrow> string" where
  "FormatDumpStamp year month day hour minute second =
     (if year < 1970 \<or> year > 9999 \<or> month < 1 \<or> month > 12 \<or> day < 1 \<or> day > 31 \<or> hour < 0
         \<or> hour > 23 \<or> minute < 0 \<or> minute > 59 \<or> second < 0 \<or> second > 60 then []
      else stamp_digits 4 year @ stamp_digits 2 month @ stamp_digits 2 day @ ''-''
        @ stamp_digits 2 hour @ stamp_digits 2 minute @ stamp_digits 2 second)"

subsection \<open>The parser\<close>

definition kMaxBytes :: nat where "kMaxBytes = 2048"
definition kMaxIssues :: nat where "kMaxIssues = 16"

datatype file_status = FileAbsent | FileRejected | FileParsed
datatype line_issue = MalformedLine | UnknownName | DuplicateName | ConflictingKeys

record override_issue =
  oi_line :: u16
  oi_issue :: line_issue

text \<open>Issues are the used prefix of the array.\<close>

record overrides =
  po_status :: file_status
  po_values :: "bool option list"
  po_lines :: "u16 list"
  po_issues :: "override_issue list"
  po_ignored :: nat

definition no_overrides :: overrides where
  "no_overrides = \<lparr>po_status = FileAbsent, po_values = replicate kKeyCount None, po_lines = replicate kKeyCount 0,
     po_issues = [], po_ignored = 0\<rparr>"

definition ValueCount :: "overrides \<Rightarrow> nat" where
  "ValueCount p = length (filter (\<lambda>v. v \<noteq> None) (po_values p))"

definition AddIssue :: "overrides \<Rightarrow> u16 \<Rightarrow> line_issue \<Rightarrow> overrides" where
  "AddIssue p line issue =
     p\<lparr>po_issues := (if length (po_issues p) < kMaxIssues then po_issues p @ [\<lparr>oi_line = line, oi_issue = issue\<rparr>]
                     else po_issues p),
       po_ignored := po_ignored p + 1\<rparr>"

definition strip_cr :: "string \<Rightarrow> string" where
  "strip_cr line = (if line \<noteq> [] \<and> List.last line = CHR 0x0D then butlast line else line)"

text \<open>The loop over the characters: the position of the one equals sign, or \<open>None\<close> where it gives up.\<close>

fun scan_line :: "nat \<Rightarrow> nat option \<Rightarrow> string \<Rightarrow> nat option option" where
  "scan_line i equals [] = Some equals"
| "scan_line i equals (c # cs) =
     (if (of_char c :: nat) < 0x21 \<or> (of_char c :: nat) > 0x7E then None
      else if c = CHR ''='' then (if equals \<noteq> None then None else scan_line (i + 1) (Some i) cs)
      else scan_line (i + 1) equals cs)"

definition ParseLine :: "overrides \<Rightarrow> u16 \<Rightarrow> string \<Rightarrow> overrides" where
  "ParseLine p number raw =
     (let line = strip_cr raw; malformed = AddIssue p number MalformedLine in
      if line = [] \<or> hd line = CHR ''#'' then p
      else case scan_line 0 None line of
        None \<Rightarrow> malformed
      | Some None \<Rightarrow> malformed
      | Some (Some equals) \<Rightarrow>
          if equals = 0 then malformed
          else let name = take equals line; text = drop (equals + 1) line in
            if text \<noteq> ''true'' \<and> text \<noteq> ''false'' then malformed
            else (case FindKey name of
                None \<Rightarrow> AddIssue p number UnknownName
              | Some k \<Rightarrow>
                  if po_values p ! k \<noteq> None then AddIssue p number DuplicateName
                  else p\<lparr>po_values := (po_values p)[k := Some (text = ''true'')], po_lines := (po_lines p)[k := number]\<rparr>))"

definition both_true :: "overrides \<Rightarrow> key \<times> key \<Rightarrow> bool" where
  "both_true p pair \<longleftrightarrow> po_values p ! fst pair = Some True \<and> po_values p ! snd pair = Some True"

definition dropped_key :: "overrides \<Rightarrow> key \<Rightarrow> bool" where
  "dropped_key p i \<longleftrightarrow> list_ex (\<lambda>pair. both_true p pair \<and> (i = fst pair \<or> i = snd pair)) kConflictPairs"

definition logged_key :: "overrides \<Rightarrow> key \<Rightarrow> bool" where
  "logged_key p i \<longleftrightarrow> list_ex (\<lambda>pair. both_true p pair
     \<and> i = (if po_lines p ! fst pair > po_lines p ! snd pair then fst pair else snd pair)) kConflictPairs"

definition next_line :: "u16 list \<Rightarrow> bool list \<Rightarrow> u16 \<Rightarrow> u16" where
  "next_line lines logged previous =
     foldl (\<lambda>next i. if logged ! i \<and> lines ! i > previous \<and> (next = 0 \<or> lines ! i < next) then lines ! i else next)
       0 [0..<kKeyCount]"

lemma next_line_greater: "next_line lines logged previous = 0 \<or> next_line lines logged previous > previous"
proof -
  have "next = 0 \<or> next > previous \<Longrightarrow>
      foldl (\<lambda>next i. if logged ! i \<and> lines ! i > previous \<and> (next = 0 \<or> lines ! i < next) then lines ! i else next) next is = 0
      \<or> foldl (\<lambda>next i. if logged ! i \<and> lines ! i > previous \<and> (next = 0 \<or> lines ! i < next) then lines ! i else next) next is > previous"
    for "next" "is"
    by (induction "is" arbitrary: "next") auto
  from this [of 0] show ?thesis unfolding next_line_def by simp
qed

text \<open>The loop that logs the conflicts in the order of their lines; the line grows, so it ends.\<close>

function log_conflicts :: "bool list \<Rightarrow> overrides \<Rightarrow> u16 \<Rightarrow> overrides" where
  "log_conflicts logged p previous =
     (let n = next_line (po_lines p) logged previous in
      if n = 0 then p else log_conflicts logged (AddIssue p n ConflictingKeys) n)"
  by pat_completeness auto
termination
proof (relation "measure (\<lambda>(logged, p, previous). 65535 - unat previous)")
  fix logged :: "bool list" and p :: overrides and previous n :: u16
  assume "n = next_line (po_lines p) logged previous" "n \<noteq> 0"
  then have "previous < n" using next_line_greater by metis
  moreover have "unat n < 65536" using unsigned_less [of n] by simp
  ultimately show "((logged, AddIssue p n ConflictingKeys, n), logged, p, previous)
      \<in> measure (\<lambda>(logged, p, previous). 65535 - unat previous)"
    by (simp add: word_less_nat_alt)
qed simp

declare log_conflicts.simps [simp del]

definition ResolveConflicts :: "overrides \<Rightarrow> overrides" where
  "ResolveConflicts p =
     (let q = log_conflicts (map (logged_key p) [0..<kKeyCount]) p 0 in
      q\<lparr>po_values := map (\<lambda>i. if dropped_key p i then None else po_values q ! i) [0..<kKeyCount]\<rparr>)"

definition accepted_file :: "string \<Rightarrow> bool" where
  "accepted_file content \<longleftrightarrow> \<not> length content > kMaxBytes \<and> list_all (\<lambda>c. (of_char c :: nat) \<le> 0x7F) content"

definition ParseOverrides :: "string \<Rightarrow> overrides" where
  "ParseOverrides content =
     (if \<not> accepted_file content then no_overrides\<lparr>po_status := FileRejected\<rparr>
      else ResolveConflicts (fst (foldl (\<lambda>(p, number) line. (ParseLine p (number + 1) line, number + 1))
        (no_overrides\<lparr>po_status := FileParsed\<rparr>, 0) (text_lines content))))"

fun LineIssueName :: "line_issue \<Rightarrow> string" where
  "LineIssueName MalformedLine = ''malformed (expected name=true or name=false)''"
| "LineIssueName UnknownName = ''unknown name''"
| "LineIssueName DuplicateName = ''repeated name (the first line wins)''"
| "LineIssueName ConflictingKeys = ''conflicting keys for one cvar (neither is applied)''"

subsection \<open>Writing the variables\<close>

datatype apply_action = ApplyValue | CvarUnavailable | UserSet | ReplaceUserSet

definition DecideApply :: "bool \<Rightarrow> bool \<Rightarrow> bool \<Rightarrow> apply_action" where
  "DecideApply registered non_default overrides_user =
     (if \<not> registered then CvarUnavailable
      else if non_default then (if overrides_user then ReplaceUserSet else UserSet) else ApplyValue)"

record 's cvar_store =
  cs_registered :: "'s \<Rightarrow> string \<Rightarrow> bool"
  cs_non_default :: "'s \<Rightarrow> string \<Rightarrow> bool"
  cs_set :: "'s \<Rightarrow> string \<Rightarrow> string \<Rightarrow> 's \<times> bool"
  cs_dump_directory :: "'s \<Rightarrow> 's \<times> string"

text \<open>The state of the passes: the store, the applied values, and the calls that set a variable so far.\<close>

record 's apply_state =
  as_store :: 's
  as_applied :: "bool option list"
  as_writes :: "(string \<times> string) list"

definition apply_key :: "'s cvar_store \<Rightarrow> overrides \<Rightarrow> override_phase \<Rightarrow> 's apply_state \<Rightarrow> key \<Rightarrow> 's apply_state" where
  "apply_key cs p phase st i = (let info = kKeys ! i in
     case po_values p ! i of
       None \<Rightarrow> st
     | Some v \<Rightarrow>
         if ki_phase info \<noteq> phase then st
         else let name = CvarName info; text = CvarText info v; s = as_store st in
           if text = [] then st
           else let registered = cs_registered cs s name; non_default = (registered \<and> cs_non_default cs s name) in
             case DecideApply registered non_default (ki_overrides_user info) of
               CvarUnavailable \<Rightarrow> st
             | UserSet \<Rightarrow> st
             | _ \<Rightarrow>
                 (case (if v \<and> ki_source info = XmaDumpDirectory then cs_dump_directory cs s else (s, text)) of (s', text') \<Rightarrow>
                   if text' = [] then st\<lparr>as_store := s'\<rparr>
                   else case cs_set cs s' name text' of (s'', ok) \<Rightarrow>
                     \<lparr>as_store = s'', as_applied = (if ok then (as_applied st)[i := Some v] else as_applied st),
                      as_writes = as_writes st @ [(name, text')]\<rparr>))"

definition ApplyPhase :: "'s cvar_store \<Rightarrow> overrides \<Rightarrow> override_phase \<Rightarrow> 's apply_state \<Rightarrow> 's apply_state" where
  "ApplyPhase cs p phase st = foldl (apply_key cs p phase) st [0..<kKeyCount]"

definition OnStartup :: "'s cvar_store \<Rightarrow> overrides \<Rightarrow> 's apply_state \<Rightarrow> 's apply_state" where
  "OnStartup cs p st = (if po_status p = FileParsed then ApplyPhase cs p Startup st else st)"

definition OnGraphicsPluginLoaded :: "'s cvar_store \<Rightarrow> overrides \<Rightarrow> 's apply_state \<Rightarrow> 's apply_state" where
  "OnGraphicsPluginLoaded cs p st = (if po_status p \<noteq> FileParsed then st else ApplyPhase cs p GraphicsPlugin st)"

subsection \<open>Facts of the table\<close>

lemma length_kKeys: "length kKeys = kKeyCount"
  by code_simp

lemma key_names_distinct: "distinct (map ki_name kKeys)"
  by code_simp

definition name_chars :: string where "name_chars = ''abcdefghijklmnopqrstuvwxyz0123456789_''"

lemma name_chars_plain: "list_all (\<lambda>c. c \<noteq> CHR ''='' \<and> c \<noteq> CHR ''#'' \<and> \<not> (of_char c :: nat) < 0x21 \<and> \<not> (of_char c :: nat) > 0x7E) name_chars"
  by (simp add: name_chars_def)

lemma key_names_chars: "list_all (\<lambda>info. ki_name info \<noteq> [] \<and> list_all (\<lambda>c. c \<in> set name_chars) (ki_name info)) kKeys"
  by code_simp

text \<open>The first key of those that write the same variable.\<close>

definition cvar_group :: "key \<Rightarrow> key" where
  "cvar_group i = (if i = 13 then 12 else if i = 15 then 14 else if i = 25 then 24 else if i = 30 \<or> i = 31 then 29
     else if i = 54 then 49 else if i = 57 \<or> i = 58 then 56 else if i = 59 then 34 else if i = 60 then 53 else i)"

lemma group_cvar: "list_all (\<lambda>i. CvarName (kKeys ! i) = CvarName (kKeys ! cvar_group i)) [0..<kKeyCount]"
  by code_simp

lemma group_cvars_distinct: "distinct (map (\<lambda>i. CvarName (kKeys ! i)) (filter (\<lambda>i. cvar_group i = i) [0..<kKeyCount]))"
  by code_simp

lemmas conflict_keys = kConflictPairs_def kUploadAhead16_def kUploadAhead64_def kHotBlocksShadow_def
  kHotBlocksOn_def kAudioSpeakerStereo_def kAudioSpeakerSurround_def kReadbackKick256_def kReadbackKick128_def
  kReadbackKick1024_def kReadbackSteadyExempt_def kXmaFrameWalkFix_def kFenceWriteDeferred_def
  kXmaFrameWalkFixOff_def kVblankHz72_def kVblankHz80_def kVblankHz88_def kReadbackSteadyExemptOff_def
  kFenceWriteDeferredOff_def

lemma group_pairs:
  assumes "i < j" "cvar_group i = cvar_group j"
  shows "(i, j) \<in> set kConflictPairs"
proof -
  have "cvar_group i \<le> i" by (simp add: cvar_group_def)
  then have "cvar_group j \<noteq> j" using assms by simp
  then have "j \<in> {13, 15, 25, 30, 31, 54, 57, 58, 59, 60}" by (auto simp: cvar_group_def split: if_splits)
  then show ?thesis using assms unfolding conflict_keys
    by (elim insertE emptyE; hypsubst; simp add: cvar_group_def split: if_splits)
qed

lemma pairs_write_true: "list_all (\<lambda>pair. ki_false (kKeys ! fst pair) = [] \<and> ki_false (kKeys ! snd pair) = []
    \<and> fst pair < kKeyCount \<and> snd pair < kKeyCount) kConflictPairs"
  by code_simp


lemma same_cvar_listed:
  assumes "i < kKeyCount" "j < kKeyCount" "i \<noteq> j" "CvarName (kKeys ! i) = CvarName (kKeys ! j)"
  shows "(i, j) \<in> set kConflictPairs \<or> (j, i) \<in> set kConflictPairs"
proof -
  let ?n = "\<lambda>i. CvarName (kKeys ! i)" and ?r = "filter (\<lambda>i. cvar_group i = i) [0..<kKeyCount]"
  have g: "?n k = ?n (cvar_group k)" "cvar_group k \<in> set ?r" if "k < kKeyCount" for k
  proof -
    show "?n k = ?n (cvar_group k)" using group_cvar that by (simp add: list_all_iff)
    have "cvar_group k \<le> k" "cvar_group (cvar_group k) = cvar_group k" by (simp_all add: cvar_group_def)
    then show "cvar_group k \<in> set ?r" using that by simp
  qed
  have "inj_on ?n (set ?r)" using group_cvars_distinct by (simp add: distinct_map)
  moreover have "?n (cvar_group i) = ?n (cvar_group j)"
    using g(1) [OF assms(1), symmetric] g(1) [OF assms(2), symmetric] assms(4) by simp
  ultimately have "cvar_group i = cvar_group j" using g(2) [OF assms(1)] g(2) [OF assms(2)] by (rule inj_onD)
  then show ?thesis using group_pairs [of i j] group_pairs [of j i] assms(3) by (auto simp: nat_neq_iff)
qed

subsection \<open>What the file says\<close>

text \<open>A line gives a key a value: its name, an equals sign, and \<open>true\<close> or \<open>false\<close>; a carriage return may follow.\<close>

definition bool_word :: "bool \<Rightarrow> string" where "bool_word b = (if b then ''true'' else ''false'')"

definition line_gives :: "key \<Rightarrow> bool \<Rightarrow> string \<Rightarrow> bool" where
  "line_gives k b raw \<longleftrightarrow> strip_cr raw = ki_name (kKeys ! k) @ ''='' @ bool_word b"

text \<open>The first line of the file that names the key decides.\<close>

definition said_value :: "string list \<Rightarrow> key \<Rightarrow> bool option" where
  "said_value ls k = (case find (\<lambda>l. line_gives k True l \<or> line_gives k False l) ls of
     None \<Rightarrow> None | Some l \<Rightarrow> Some (line_gives k True l))"

lemma bool_word_inject: "bool_word a = bool_word b \<longleftrightarrow> a = b"
  by (simp add: bool_word_def)

lemma key_name_plain: "k < kKeyCount \<Longrightarrow> ki_name (kKeys ! k) \<noteq> [] \<and> hd (ki_name (kKeys ! k)) \<noteq> CHR ''#''
   \<and> CHR ''='' \<notin> set (ki_name (kKeys ! k))
   \<and> list_all (\<lambda>c. \<not> (of_char c :: nat) < 0x21 \<and> \<not> (of_char c :: nat) > 0x7E) (ki_name (kKeys ! k))"
proof -
  assume "k < kKeyCount"
  then have "kKeys ! k \<in> set kKeys" by (simp add: length_kKeys)
  then have n: "ki_name (kKeys ! k) \<noteq> []" "\<forall>c \<in> set (ki_name (kKeys ! k)). c \<in> set name_chars"
    using key_names_chars by (auto simp: list_all_iff)
  moreover have "\<forall>c \<in> set name_chars. c \<noteq> CHR ''='' \<and> c \<noteq> CHR ''#'' \<and> \<not> (of_char c :: nat) < 0x21 \<and> \<not> (of_char c :: nat) > 0x7E"
    using name_chars_plain by (simp add: list_all_iff)
  ultimately show ?thesis using hd_in_set [of "ki_name (kKeys ! k)"] by (auto simp: list_all_iff)
qed

lemma scan_line_plain: "list_all (\<lambda>c. \<not> (of_char c :: nat) < 0x21 \<and> \<not> (of_char c :: nat) > 0x7E) s \<Longrightarrow> CHR ''='' \<notin> set s
  \<Longrightarrow> scan_line i e (s @ t) = scan_line (i + length s) e t"
  by (induction s arbitrary: i) auto

lemma scan_line_Some: "scan_line i None s = Some (Some e) \<Longrightarrow> i \<le> e \<and> e < i + length s \<and> s ! (e - i) = CHR ''=''"
proof (induction s arbitrary: i)
  case (Cons c s)
  show ?case
  proof (cases "c = CHR ''=''")
    case True
    have "scan_line j (Some n) t = Some x \<Longrightarrow> x = Some n" for j n t x
      by (induction t arbitrary: j) (auto split: if_splits)
    then show ?thesis using Cons.prems True by (fastforce split: if_splits)
  next
    case False
    then have "Suc i \<le> e \<and> e < Suc i + length s \<and> s ! (e - Suc i) = CHR ''=''"
      using Cons.IH [of "Suc i"] Cons.prems by (auto split: if_splits)
    then show ?thesis by (auto simp: nth_Cons')
  qed
qed simp

lemma FindKey_Some: "FindKey name = Some k \<longleftrightarrow> k < kKeyCount \<and> ki_name (kKeys ! k) = name"
proof -
  have unique: "i = j" if "i < kKeyCount" "j < kKeyCount" "ki_name (kKeys ! i) = ki_name (kKeys ! j)" for i j
    using that nth_eq_iff_index_eq [OF key_names_distinct, of i j] by (simp add: length_kKeys)
  show ?thesis
  proof
    assume "FindKey name = Some k"
    then show "k < kKeyCount \<and> ki_name (kKeys ! k) = name" by (auto simp: FindKey_def find_Some_iff)
  next
    assume k: "k < kKeyCount \<and> ki_name (kKeys ! k) = name"
    then have "FindKey name \<noteq> None" by (auto simp: FindKey_def find_None_iff)
    then obtain j where "FindKey name = Some j" by auto
    then show "FindKey name = Some k" using k unique by (auto simp: FindKey_def find_Some_iff)
  qed
qed

text \<open>What one line does to the values.\<close>

lemma ParseLine_values:
  assumes "length (po_values p) = kKeyCount" "k < kKeyCount"
  shows "po_values (ParseLine p n l) ! k = (if po_values p ! k \<noteq> None then po_values p ! k
     else if line_gives k True l then Some True else if line_gives k False l then Some False else None)"
proof -
  let ?s = "strip_cr l"
  have gives: "scan_line 0 None ?s = Some (Some (length (ki_name (kKeys ! k)))) \<and> ?s \<noteq> [] \<and> hd ?s \<noteq> CHR ''#''
      \<and> length (ki_name (kKeys ! k)) \<noteq> 0" if "line_gives k b l" for b
  proof -
    have s: "?s = ki_name (kKeys ! k) @ ''='' @ bool_word b" using that by (simp add: line_gives_def)
    note plain = key_name_plain [OF assms(2)]
    have "scan_line 0 None ?s = Some (Some (length (ki_name (kKeys ! k))))"
      using plain unfolding s by (subst scan_line_plain) (cases b; simp add: bool_word_def)+
    then show ?thesis using plain s by auto
  qed
  have rebuilt: "line_gives k b l" if "scan_line 0 None ?s = Some (Some e)" "drop (e + 1) ?s = bool_word b"
      "FindKey (take e ?s) = Some k" for e b
  proof -
    have "e < length ?s" "?s ! e = CHR ''=''" using scan_line_Some [OF that(1)] by simp_all
    then have "?s = take e ?s @ ''='' @ drop (e + 1) ?s" using id_take_nth_drop [of e ?s] by simp
    with that(2,3) show ?thesis by (simp add: line_gives_def FindKey_Some)
  qed
  have upd: "j = k" if "(po_values p)[j := v] ! k \<noteq> po_values p ! k" for j v
    using that by (metis nth_list_update_neq)
  consider (none) "\<not> line_gives k True l" "\<not> line_gives k False l" | (some) b where "line_gives k b l" by blast
  then show ?thesis
  proof cases
    case none
    have "po_values (ParseLine p n l) ! k = po_values p ! k"
    proof (rule ccontr)
      assume ch: "po_values (ParseLine p n l) ! k \<noteq> po_values p ! k"
      then obtain e where e: "scan_line 0 None ?s = Some (Some e)" "drop (e + 1) ?s = ''true'' \<or> drop (e + 1) ?s = ''false''"
          "FindKey (take e ?s) = Some k"
        by (auto simp: ParseLine_def Let_def AddIssue_def split: if_splits option.splits dest!: upd)
      then have "drop (e + 1) ?s = bool_word True \<or> drop (e + 1) ?s = bool_word False" by (simp add: bool_word_def)
      then show False using rebuilt [OF e(1) _ e(3)] none by blast
    qed
    then show ?thesis using none by auto
  next
    case some
    note g = gives [OF some]
    have s: "take (length (ki_name (kKeys ! k))) ?s = ki_name (kKeys ! k)"
      "drop (length (ki_name (kKeys ! k)) + 1) ?s = bool_word b"
      using some by (simp_all add: line_gives_def)
    have f: "FindKey (ki_name (kKeys ! k)) = Some k" using assms(2) by (simp add: FindKey_Some)
    have "line_gives k b' l \<longleftrightarrow> b' = b" for b' using some by (auto simp: line_gives_def bool_word_inject)
    moreover have "po_values (ParseLine p n l) ! k = (if po_values p ! k \<noteq> None then po_values p ! k else Some b)"
      using g s f assms by (cases b) (simp_all add: ParseLine_def Let_def AddIssue_def bool_word_def)
    ultimately show ?thesis by (cases b) auto
  qed
qed

lemma AddIssue_fields [simp]:
  "po_values (AddIssue p n x) = po_values p" "po_lines (AddIssue p n x) = po_lines p" "po_status (AddIssue p n x) = po_status p"
  by (simp_all add: AddIssue_def)

definition issues_ok :: "overrides \<Rightarrow> bool" where
  "issues_ok p \<longleftrightarrow> length (po_issues p) = min kMaxIssues (po_ignored p)"

lemma issues_ok_add [simp]: "issues_ok p \<Longrightarrow> issues_ok (AddIssue p n x)"
  by (auto simp: issues_ok_def AddIssue_def)

lemma ParseLine_frame: "length (po_values (ParseLine p n l)) = length (po_values p) \<and> po_status (ParseLine p n l) = po_status p
    \<and> (issues_ok p \<longrightarrow> issues_ok (ParseLine p n l))"
  by (auto simp: ParseLine_def Let_def issues_ok_def [of "_\<lparr>po_values := _, po_lines := _\<rparr>"] issues_ok_def [of p]
      split: option.splits)

lemma parse_lines:
  assumes "length (po_values p) = kKeyCount" "issues_ok p"
  shows "let q = fst (foldl (\<lambda>(p, number) line. (ParseLine p (number + 1) line, number + 1)) (p, n) ls) in
     length (po_values q) = kKeyCount \<and> issues_ok q \<and> po_status q = po_status p
     \<and> (\<forall>k < kKeyCount. po_values q ! k = (if po_values p ! k \<noteq> None then po_values p ! k else said_value ls k))"
  using assms
proof (induction ls arbitrary: p n)
  case Nil
  then show ?case by (simp add: said_value_def)
next
  case (Cons l ls)
  have v: "length (po_values (ParseLine p (n + 1) l)) = kKeyCount" "issues_ok (ParseLine p (n + 1) l)"
    "po_status (ParseLine p (n + 1) l) = po_status p"
    using Cons.prems ParseLine_frame [of p "n + 1" l] by auto
  have "said_value (l # ls) k = (if line_gives k True l then Some True else if line_gives k False l then Some False
      else said_value ls k)" for k
    by (auto simp: said_value_def line_gives_def bool_word_inject)
  then show ?case using Cons.IH [OF v(1,2), of "n + 1"] ParseLine_values [OF Cons.prems(1)] v(3)
    by (auto simp: Let_def)
qed

lemma log_conflicts_frame: "po_values (log_conflicts ls p n) = po_values p \<and> po_status (log_conflicts ls p n) = po_status p
    \<and> (issues_ok p \<longrightarrow> issues_ok (log_conflicts ls p n))"
proof (induction ls p n rule: log_conflicts.induct)
  case (1 ls p n)
  show ?case by (subst (1 2 3) log_conflicts.simps) (use 1 in \<open>auto simp: Let_def\<close>)
qed

text \<open>A key contradicts another one of its variable.\<close>

definition contradicted :: "(key \<Rightarrow> bool option) \<Rightarrow> key \<Rightarrow> bool" where
  "contradicted said k \<longleftrightarrow> list_ex (\<lambda>pair. said (fst pair) = Some True \<and> said (snd pair) = Some True
     \<and> (k = fst pair \<or> k = snd pair)) kConflictPairs"

lemma dropped_contradicted:
  assumes "\<forall>k < kKeyCount. po_values p ! k = said k"
  shows "dropped_key p k = contradicted said k"
proof -
  have "both_true p pair \<longleftrightarrow> said (fst pair) = Some True \<and> said (snd pair) = Some True" if "pair \<in> set kConflictPairs" for pair
    using that assms pairs_write_true by (auto simp: both_true_def list_all_iff)
  then show ?thesis by (auto simp: dropped_key_def contradicted_def list_ex_iff)
qed

lemma ParseOverrides_rules:
  "let p = ParseOverrides content; said = said_value (text_lines content) in
   (if accepted_file content
    then po_status p = FileParsed
      \<and> po_values p = map (\<lambda>k. if contradicted said k then None else said k) [0..<kKeyCount]
    else p = no_overrides\<lparr>po_status := FileRejected\<rparr>)
   \<and> length (po_issues p) = min kMaxIssues (po_ignored p)"
proof -
  let ?p0 = "no_overrides\<lparr>po_status := FileParsed\<rparr>" and ?ls = "text_lines content"
  let ?q = "fst (foldl (\<lambda>(p, number) line. (ParseLine p (number + 1) line, number + 1)) (?p0, 0 :: u16) ?ls)"
  have "length (po_values ?p0) = kKeyCount" "issues_ok ?p0" by (simp_all add: no_overrides_def issues_ok_def)
  from parse_lines [OF this, of 0 ?ls] have q: "length (po_values ?q) = kKeyCount" "issues_ok ?q" "po_status ?q = FileParsed"
    "\<forall>k < kKeyCount. po_values ?q ! k = said_value ?ls k"
    by (auto simp: Let_def no_overrides_def)
  have d: "dropped_key ?q k = contradicted (said_value ?ls) k" for k by (rule dropped_contradicted [OF q(4)])
  let ?r = "ResolveConflicts ?q"
  have "po_status ?r = FileParsed" "issues_ok ?r"
    "po_values ?r = map (\<lambda>k. if contradicted (said_value ?ls) k then None else said_value ?ls k) [0..<kKeyCount]"
    using q d log_conflicts_frame [of "map (logged_key ?q) [0..<kKeyCount]" ?q 0]
    by (auto simp: ResolveConflicts_def Let_def issues_ok_def)
  then show ?thesis by (simp add: ParseOverrides_def issues_ok_def no_overrides_def Let_def)
qed

subsection \<open>What the file is told about its lines\<close>

text \<open>The name of a well-formed line: one or more visible characters before \<open>=true\<close> or \<open>=false\<close>.\<close>

definition skipped_line :: "string \<Rightarrow> bool" where
  "skipped_line raw \<longleftrightarrow> strip_cr raw = [] \<or> hd (strip_cr raw) = CHR ''#''"

definition line_name :: "string \<Rightarrow> string option" where
  "line_name raw = (let s = strip_cr raw; name = takeWhile (\<lambda>c. c \<noteq> CHR ''='') s in
     if name \<noteq> [] \<and> list_all (\<lambda>c. 0x21 \<le> byte c \<and> byte c \<le> 0x7E) name
        \<and> (s = name @ ''=true'' \<or> s = name @ ''=false'') then Some name else None)"

text \<open>The issue of a line after the lines \<open>before\<close>, those of the lines of a file, and the lines of its conflicts:
  of each contradictory pair the later one, in order and once.\<close>

definition line_issue_of :: "string list \<Rightarrow> string \<Rightarrow> line_issue option" where
  "line_issue_of before raw =
     (if skipped_line raw then None
      else case line_name raw of
        None \<Rightarrow> Some MalformedLine
      | Some name \<Rightarrow> (case FindKey name of
            None \<Rightarrow> Some UnknownName
          | Some k \<Rightarrow> if said_value before k \<noteq> None then Some DuplicateName else None))"

definition issue_at :: "string list \<Rightarrow> nat \<Rightarrow> override_issue list" where
  "issue_at ls i = (case line_issue_of (take i ls) (ls ! i) of None \<Rightarrow> []
     | Some issue \<Rightarrow> [\<lparr>oi_line = of_nat (Suc i), oi_issue = issue\<rparr>])"

definition file_issues :: "string list \<Rightarrow> override_issue list" where
  "file_issues ls = concat (map (issue_at ls) [0..<length ls])"

definition names_key :: "key \<Rightarrow> string \<Rightarrow> bool" where
  "names_key k l \<longleftrightarrow> line_gives k True l \<or> line_gives k False l"

definition said_line :: "string list \<Rightarrow> key \<Rightarrow> nat" where
  "said_line ls k = Suc (length (takeWhile (\<lambda>l. \<not> names_key k l) ls))"

definition conflict_lines :: "string list \<Rightarrow> nat list" where
  "conflict_lines ls = sort (remdups (map (\<lambda>pair. max (said_line ls (fst pair)) (said_line ls (snd pair)))
     (filter (\<lambda>pair. said_value ls (fst pair) = Some True \<and> said_value ls (snd pair) = Some True) kConflictPairs)))"

definition all_issues :: "string list \<Rightarrow> override_issue list" where
  "all_issues ls = file_issues ls @ map (\<lambda>n. \<lparr>oi_line = of_nat n, oi_issue = ConflictingKeys\<rparr>) (conflict_lines ls)"

text \<open>A parse that has met \<open>all\<close> issues keeps the first sixteen and counts them all.\<close>

definition reports :: "overrides \<Rightarrow> override_issue list \<Rightarrow> bool" where
  "reports p issues \<longleftrightarrow> po_issues p = take kMaxIssues issues \<and> po_ignored p = length issues"

lemma reports_add: "reports p issues \<Longrightarrow> reports (AddIssue p n x) (issues @ [\<lparr>oi_line = n, oi_issue = x\<rparr>])"
  by (auto simp: reports_def AddIssue_def)

lemma scan_line_first: "scan_line i None s = Some (Some e) \<Longrightarrow>
    e = i + length (takeWhile (\<lambda>c. c \<noteq> CHR ''='') s) \<and> e < i + length s
    \<and> list_all (\<lambda>c. 0x21 \<le> byte c \<and> byte c \<le> 0x7E) (takeWhile (\<lambda>c. c \<noteq> CHR ''='') s)"
proof (induction s arbitrary: i)
  case (Cons c s)
  have again: "scan_line j (Some n) t = Some x \<Longrightarrow> x = Some n" for j n t x
    by (induction t arbitrary: j) (auto split: if_splits)
  show ?case
  proof (cases "c = CHR ''=''")
    case True
    then show ?thesis using Cons.prems by (auto dest: again split: if_splits)
  next
    case False
    then show ?thesis using Cons.IH [of "Suc i"] Cons.prems by (auto simp: byte_def split: if_splits)
  qed
qed simp

text \<open>One line, in these terms.\<close>

lemma ParseLine_by_name:
  "ParseLine p n raw =
     (if skipped_line raw then p
      else case line_name raw of
        None \<Rightarrow> AddIssue p n MalformedLine
      | Some name \<Rightarrow> (case FindKey name of
            None \<Rightarrow> AddIssue p n UnknownName
          | Some k \<Rightarrow> if po_values p ! k \<noteq> None then AddIssue p n DuplicateName
              else p\<lparr>po_values := (po_values p)[k := Some (strip_cr raw = name @ ''=true'')],
                     po_lines := (po_lines p)[k := n]\<rparr>))"
proof (cases "line_name raw")
  case (Some name)
  let ?s = "strip_cr raw"
  have n: "name \<noteq> []" "CHR ''='' \<notin> set name" "list_all (\<lambda>c. 0x21 \<le> byte c \<and> byte c \<le> 0x7E) name"
    using Some by (auto simp: line_name_def Let_def dest: set_takeWhileD split: if_splits)
  then have plain: "list_all (\<lambda>c. \<not> (of_char c :: nat) < 0x21 \<and> \<not> (of_char c :: nat) > 0x7E) name"
    by (auto simp: list_all_iff byte_def not_less)
  consider "?s = name @ ''=true''" | "?s = name @ ''=false''"
    using Some by (auto simp: line_name_def Let_def split: if_splits)
  then show ?thesis
  proof cases
    case 1
    then have "scan_line 0 None ?s = Some (Some (length name))" using scan_line_plain [OF plain n(2)] by simp
    then show ?thesis using 1 n(1) Some by (simp add: ParseLine_def skipped_line_def Let_def split: option.split)
  next
    case 2
    then have "scan_line 0 None ?s = Some (Some (length name))" using scan_line_plain [OF plain n(2)] by simp
    then show ?thesis using 2 n(1) Some by (simp add: ParseLine_def skipped_line_def Let_def split: option.split)
  qed
next
  case None
  let ?s = "strip_cr raw" and ?name = "takeWhile (\<lambda>c. c \<noteq> CHR ''='') (strip_cr raw)"
  have "drop (e + 1) ?s \<noteq> ''true'' \<and> drop (e + 1) ?s \<noteq> ''false''" if e: "scan_line 0 None ?s = Some (Some e)" "e \<noteq> 0" for e
  proof -
    note f = scan_line_first [OF e(1)]
    then have l: "length ?name < length ?s" and "?name \<noteq> []" using e(2) by auto
    have "?s ! length ?name = CHR ''=''" using nth_length_takeWhile [OF l] by simp
    then have "?s = ?name @ CHR ''='' # drop (e + 1) ?s"
      using f l by (metis add_0 id_take_nth_drop takeWhile_eq_take Suc_eq_plus1)
    moreover have "\<not> (?s = ?name @ ''=true'' \<or> ?s = ?name @ ''=false'')"
      using None f \<open>?name \<noteq> []\<close> by (auto simp: line_name_def Let_def split: if_splits)
    ultimately show ?thesis by auto
  qed
  then show ?thesis using None by (auto simp: ParseLine_def skipped_line_def Let_def split: option.split)
qed

lemma names_key_name:
  assumes "k < kKeyCount"
  shows "names_key k l \<longleftrightarrow> \<not> skipped_line l \<and> line_name l = Some (ki_name (kKeys ! k))"
    "names_key k l \<Longrightarrow> line_gives k True l = (strip_cr l = ki_name (kKeys ! k) @ ''=true'')"
proof -
  note plain = key_name_plain [OF assms]
  then have tw: "takeWhile (\<lambda>c. c \<noteq> CHR ''='') (ki_name (kKeys ! k) @ CHR ''='' # t) = ki_name (kKeys ! k)" for t
    by (subst takeWhile_append2) auto
  have a: "list_all (\<lambda>c. 0x21 \<le> byte c \<and> byte c \<le> 0x7E) (ki_name (kKeys ! k))"
    using plain by (auto simp: list_all_iff byte_def not_less)
  show "names_key k l \<longleftrightarrow> \<not> skipped_line l \<and> line_name l = Some (ki_name (kKeys ! k))"
  proof
    assume "names_key k l"
    then obtain b where "strip_cr l = ki_name (kKeys ! k) @ ''='' @ bool_word b" by (auto simp: names_key_def line_gives_def)
    then show "\<not> skipped_line l \<and> line_name l = Some (ki_name (kKeys ! k))"
      using plain a tw by (cases b) (simp_all add: line_name_def skipped_line_def Let_def bool_word_def)
  next
    assume "\<not> skipped_line l \<and> line_name l = Some (ki_name (kKeys ! k))"
    then show "names_key k l"
      by (auto simp: names_key_def line_gives_def line_name_def Let_def bool_word_def split: if_splits)
  qed
  show "names_key k l \<Longrightarrow> line_gives k True l = (strip_cr l = ki_name (kKeys ! k) @ ''=true'')"
    by (simp add: line_gives_def bool_word_def)
qed


text \<open>The lines read so far.\<close>

definition read_lines :: "string list \<Rightarrow> overrides \<times> u16" where
  "read_lines ls = foldl (\<lambda>(p, number) line. (ParseLine p (number + 1) line, number + 1))
     (no_overrides\<lparr>po_status := FileParsed\<rparr>, 0) ls"

lemma said_value_snoc: "said_value (ls @ [l]) k =
    (if said_value ls k \<noteq> None then said_value ls k else if names_key k l then Some (line_gives k True l) else None)"
  by (induction ls) (simp_all add: said_value_def names_key_def)

lemma said_value_None: "said_value ls k = None \<longleftrightarrow> (\<forall>l \<in> set ls. \<not> names_key k l)"
  by (induction ls) (auto simp: said_value_def names_key_def)

lemma said_line_snoc: "said_line (ls @ [l]) k = (if said_value ls k \<noteq> None then said_line ls k
    else if names_key k l then Suc (length ls) else Suc (Suc (length ls)))"
proof (cases "said_value ls k")
  case None
  then have "\<forall>x \<in> set ls. \<not> names_key k x" by (simp add: said_value_None)
  then show ?thesis using None by (simp add: said_line_def takeWhile_append)
next
  case (Some v)
  then have "\<not> (\<forall>x \<in> set ls. \<not> names_key k x)" using said_value_None [of ls k] by simp
  then show ?thesis using Some by (auto simp: said_line_def takeWhile_append)
qed

lemma said_line_le: "said_value ls k \<noteq> None \<Longrightarrow> said_line ls k \<le> length ls"
proof -
  assume "said_value ls k \<noteq> None"
  then have "takeWhile (\<lambda>l. \<not> names_key k l) ls \<noteq> ls" by (auto simp: said_value_None takeWhile_eq_all_conv)
  then show ?thesis using length_takeWhile_le [of "\<lambda>l. \<not> names_key k l" ls] takeWhile_eq_take [of "\<lambda>l. \<not> names_key k l" ls]
    by (metis Suc_leI le_neq_implies_less said_line_def take_all order_refl)
qed

lemma file_issues_snoc: "file_issues (ls @ [l]) = file_issues ls @ (case line_issue_of ls l of None \<Rightarrow> []
    | Some issue \<Rightarrow> [\<lparr>oi_line = of_nat (Suc (length ls)), oi_issue = issue\<rparr>])"
proof -
  have "map (issue_at (ls @ [l])) [0..<length ls] = map (issue_at ls) [0..<length ls]"
    by (rule map_cong) (simp_all add: issue_at_def nth_append)
  moreover have "issue_at (ls @ [l]) (length ls) = (case line_issue_of ls l of None \<Rightarrow> []
      | Some issue \<Rightarrow> [\<lparr>oi_line = of_nat (Suc (length ls)), oi_issue = issue\<rparr>])"
    by (simp add: issue_at_def)
  ultimately show ?thesis by (simp add: file_issues_def del: map_eq_conv)
qed

definition said_so_far :: "overrides \<Rightarrow> string list \<Rightarrow> bool" where
  "said_so_far p ls \<longleftrightarrow> length (po_values p) = kKeyCount \<and> length (po_lines p) = kKeyCount
     \<and> (\<forall>k < kKeyCount. po_values p ! k = said_value ls k
          \<and> (said_value ls k \<noteq> None \<longrightarrow> po_lines p ! k = of_nat (said_line ls k)))"

lemma said_step:
  assumes "said_so_far p ls"
  shows "said_so_far (ParseLine p (of_nat (Suc (length ls))) l) (ls @ [l])"
proof -
  let ?q = "ParseLine p (of_nat (Suc (length ls))) l"
  have len: "length (po_values p) = kKeyCount" "length (po_lines p) = kKeyCount" using assms by (simp_all add: said_so_far_def)
  have "length (po_lines ?q) = kKeyCount" "length (po_values ?q) = kKeyCount"
    using len by (simp_all add: ParseLine_by_name split: option.split)
  moreover have "po_values ?q ! k = said_value (ls @ [l]) k
      \<and> (said_value (ls @ [l]) k \<noteq> None \<longrightarrow> po_lines ?q ! k = of_nat (said_line (ls @ [l]) k))" if k: "k < kKeyCount" for k
  proof (cases "names_key k l \<and> said_value ls k = None")
    case True
    then have "FindKey (ki_name (kKeys ! k)) = Some k" using k by (simp add: FindKey_Some)
    then show ?thesis using True k len assms names_key_name [OF k, of l]
      by (simp add: ParseLine_by_name said_so_far_def said_value_snoc said_line_snoc)
  next
    case False
    have "po_values ?q ! k = po_values p ! k \<and> po_lines ?q ! k = po_lines p ! k"
    proof (cases "\<exists>name. \<not> skipped_line l \<and> line_name l = Some name \<and> FindKey name = Some k")
      case True
      then have "names_key k l" using names_key_name [OF k, of l] by (auto simp: FindKey_Some)
      then show ?thesis using True False k assms by (auto simp: ParseLine_by_name said_so_far_def)
    next
      case other: False
      then have "j \<noteq> k" if "\<not> skipped_line l" "line_name l = Some name" "FindKey name = Some j" for name j
        using that by blast
      then show ?thesis by (auto simp: ParseLine_by_name split: option.split)
    qed
    then show ?thesis using False k assms by (auto simp: said_so_far_def said_value_snoc said_line_snoc)
  qed
  ultimately show ?thesis by (simp add: said_so_far_def)
qed

lemma reports_step:
  assumes "said_so_far p ls" "reports p (file_issues ls)"
  shows "reports (ParseLine p (of_nat (Suc (length ls))) l) (file_issues (ls @ [l]))"
proof -
  have "po_values p ! k = said_value ls k" if "FindKey name = Some k" for name k
    using that assms(1) by (simp add: said_so_far_def FindKey_Some)
  moreover have "reports (p\<lparr>po_values := vs, po_lines := ns\<rparr>) (file_issues ls)" for vs ns
    using assms(2) by (simp add: reports_def)
  ultimately show ?thesis using assms(2)
    by (auto simp: ParseLine_by_name file_issues_snoc line_issue_of_def intro!: reports_add split: option.split)
qed

lemma read_lines_said: "said_so_far (fst (read_lines ls)) ls \<and> reports (fst (read_lines ls)) (file_issues ls)
    \<and> snd (read_lines ls) = of_nat (length ls)"
proof (induction ls rule: rev_induct)
  case Nil
  show ?case
    by (simp add: read_lines_def said_so_far_def no_overrides_def said_value_def reports_def file_issues_def)
next
  case (snoc l ls)
  have n: "of_nat (length ls) + 1 = (of_nat (Suc (length ls)) :: u16)" by simp
  have "read_lines (ls @ [l]) = (ParseLine (fst (read_lines ls)) (of_nat (Suc (length ls))) l, of_nat (Suc (length ls)))"
    using snoc n by (simp add: read_lines_def split_beta add.commute)
  then show ?case using snoc said_step reports_step by simp
qed


text \<open>The conflicts: the least line above \<open>previous\<close>, then the next one.\<close>

definition lines_above :: "u16 list \<Rightarrow> bool list \<Rightarrow> u16 \<Rightarrow> u16 set" where
  "lines_above lines logged previous = {n. \<exists>i < kKeyCount. n = lines ! i \<and> logged ! i \<and> n > previous}"

lemma lines_above_finite: "finite (lines_above lines logged previous)"
  by (simp add: lines_above_def)

lemma next_line_Min: "next_line lines logged previous =
    (if lines_above lines logged previous = {} then 0 else Min (lines_above lines logged previous))"
proof -
  let ?f = "\<lambda>next i. if logged ! i \<and> lines ! i > previous \<and> (next = 0 \<or> lines ! i < next) then lines ! i else next"
  let ?S = "\<lambda>is. {n. \<exists>i \<in> set is. n = lines ! i \<and> logged ! i \<and> n > previous}"
  have "foldl ?f 0 is = (if ?S is = {} then 0 else Min (?S is))" for "is"
  proof (induction "is" rule: rev_induct)
    case (snoc i "is")
    have fin: "finite (?S is)" by simp
    show ?case
    proof (cases "logged ! i \<and> lines ! i > previous")
      case True
      then have S: "?S (is @ [i]) = insert (lines ! i) (?S is)" by auto
      show ?thesis
      proof (cases "?S is = {}")
        case empty: True
        then have "foldl ?f 0 is = 0" using snoc by (simp only: refl if_True)
        then have "foldl ?f 0 (is @ [i]) = lines ! i" using True by simp
        then show ?thesis by (simp only: S empty insert_not_empty if_False Min_singleton)
      next
        case False
        then have "Min (?S is) \<in> ?S is" using fin by (rule Min_in [rotated])
        then have "Min (?S is) \<noteq> 0" by auto
        moreover have r: "foldl ?f 0 is = Min (?S is)" using snoc False by (simp only: if_False)
        ultimately have "foldl ?f 0 (is @ [i]) = min (lines ! i) (Min (?S is))" using True by (auto simp: min_def)
        then show ?thesis by (simp only: S insert_not_empty if_False Min_insert [OF fin False])
      qed
    next
      case False
      then have "?S (is @ [i]) = ?S is" by auto
      then show ?thesis using snoc False by auto
    qed
  qed simp
  from this [of "[0..<kKeyCount]"] show ?thesis
    by (simp add: next_line_def lines_above_def Bex_def conj_comms cong: conj_cong)
qed

lemma log_conflicts_reports: "reports p issues \<Longrightarrow>
    reports (log_conflicts logged p previous) (issues @ map (\<lambda>n. \<lparr>oi_line = n, oi_issue = ConflictingKeys\<rparr>)
      (sorted_list_of_set (lines_above (po_lines p) logged previous)))"
proof (induction logged p previous arbitrary: issues rule: log_conflicts.induct)
  case (1 logged p previous)
  let ?S = "lines_above (po_lines p) logged previous" and ?n = "next_line (po_lines p) logged previous"
  show ?case
  proof (cases "?S = {}")
    case True
    then have "log_conflicts logged p previous = p" by (subst log_conflicts.simps) (simp add: next_line_Min)
    then show ?thesis using True 1(2) by simp
  next
    case False
    then have n: "?n = Min ?S" "?n \<in> ?S" using next_line_Min lines_above_finite Min_in by metis+
    then have nz: "?n \<noteq> 0" "?n > previous" by (auto simp: lines_above_def)
    have "lines_above (po_lines p) logged ?n = ?S - {?n}"
    proof -
      have "x = ?n \<or> x > ?n" if "x \<in> ?S" for x
        using that n(1) Min_le [OF lines_above_finite that] by (auto simp: order.order_iff_strict)
      then show ?thesis using nz(2) by (auto simp: lines_above_def)
    qed
    then have "sorted_list_of_set ?S = ?n # sorted_list_of_set (lines_above (po_lines p) logged ?n)"
      using sorted_list_of_set_nonempty [OF lines_above_finite False] n(1) by simp
    moreover have "log_conflicts logged p previous = log_conflicts logged (AddIssue p ?n ConflictingKeys) ?n"
      using nz by (subst log_conflicts.simps) (simp add: Let_def)
    moreover note 1(1) [OF refl nz(1) reports_add [OF 1(2)]]
    ultimately show ?thesis by simp
  qed
qed


text \<open>The conflicting lines, as words and as numbers.\<close>

lemma conflict_lines_words:
  assumes "said_so_far p ls" "length ls < 65536"
  shows "sorted_list_of_set (lines_above (po_lines p) (map (logged_key p) [0..<kKeyCount]) 0) = map of_nat (conflict_lines ls)"
proof -
  let ?both = "\<lambda>pair. said_value ls (fst pair) = Some True \<and> said_value ls (snd pair) = Some True"
  let ?line = "\<lambda>pair. max (said_line ls (fst pair)) (said_line ls (snd pair))"
  let ?C = "set (conflict_lines ls)"
  have C: "?C = ?line ` {pair \<in> set kConflictPairs. ?both pair}" by (simp add: conflict_lines_def)
  have small: "n < 65536" if "n \<in> ?C" for n
    using that assms(2) said_line_le [of ls] unfolding C by (fastforce simp: max_def)
  have mono: "(of_nat a :: u16) < of_nat b" if "a \<in> ?C" "b \<in> ?C" "a < b" for a b
    using that small by (simp add: word_less_nat_alt unat_of_nat)
  have bounds: "fst pair < kKeyCount \<and> snd pair < kKeyCount" if "pair \<in> set kConflictPairs" for pair
    using that pairs_write_true by (auto simp: list_all_iff)
  have both: "both_true p pair = ?both pair" if "pair \<in> set kConflictPairs" for pair
    using bounds [OF that] assms(1) by (simp add: both_true_def said_so_far_def)
  have later: "(if po_lines p ! fst pair > po_lines p ! snd pair then po_lines p ! fst pair else po_lines p ! snd pair)
      = of_nat (?line pair)" if "pair \<in> set kConflictPairs" "?both pair" for pair
  proof -
    have l: "po_lines p ! fst pair = of_nat (said_line ls (fst pair))" "po_lines p ! snd pair = of_nat (said_line ls (snd pair))"
      using bounds [OF that(1)] that(2) assms(1) unfolding said_so_far_def by (metis option.distinct(1))+
    moreover have "said_line ls (fst pair) < 65536" "said_line ls (snd pair) < 65536"
      using said_line_le [of ls] that(2) assms(2) by (metis le_less_trans option.distinct(1))+
    ultimately show ?thesis by (auto simp: max_def word_less_nat_alt unat_of_nat)
  qed
  have "lines_above (po_lines p) (map (logged_key p) [0..<kKeyCount]) 0 = of_nat ` ?C"
  proof
    show "lines_above (po_lines p) (map (logged_key p) [0..<kKeyCount]) 0 \<subseteq> of_nat ` ?C"
    proof
      fix n assume "n \<in> lines_above (po_lines p) (map (logged_key p) [0..<kKeyCount]) 0"
      then obtain i pair where i: "n = po_lines p ! i" "pair \<in> set kConflictPairs" "both_true p pair"
        "i = (if po_lines p ! fst pair > po_lines p ! snd pair then fst pair else snd pair)"
        by (auto simp: lines_above_def logged_key_def list_ex_iff)
      then have "?both pair" using both by blast
      then have "?line pair \<in> ?C" "n = of_nat (?line pair)" using i later [of pair] unfolding C by (auto split: if_splits)
      then show "n \<in> of_nat ` ?C" by blast
    qed
  next
    show "of_nat ` ?C \<subseteq> lines_above (po_lines p) (map (logged_key p) [0..<kKeyCount]) 0"
    proof
      fix n assume "n \<in> (of_nat ` ?C :: u16 set)"
      then obtain pair where p: "n = of_nat (?line pair)" "pair \<in> set kConflictPairs" "?both pair" unfolding C by auto
      let ?i = "if po_lines p ! fst pair > po_lines p ! snd pair then fst pair else snd pair"
      have "?line pair \<in> ?C" using p(2,3) unfolding C by blast
      then have "?line pair < 65536" by (rule small)
      moreover have "0 < ?line pair" by (simp add: said_line_def)
      ultimately have "n > 0" using p(1) by (simp add: word_less_nat_alt unat_of_nat)
      moreover have "n = po_lines p ! ?i" using later [OF p(2,3)] p(1) by (simp split: if_splits)
      moreover have "?i < kKeyCount" using bounds [OF p(2)] by simp
      moreover have "logged_key p ?i" unfolding logged_key_def list_ex_iff using p(2,3) both by blast
      ultimately show "n \<in> lines_above (po_lines p) (map (logged_key p) [0..<kKeyCount]) 0"
        unfolding lines_above_def by (auto intro!: exI [of _ ?i])
    qed
  qed
  moreover have "sorted_wrt (<) (conflict_lines ls)"
    by (simp add: strict_sorted_iff conflict_lines_def)
  then have "sorted_wrt (<) (map of_nat (conflict_lines ls) :: u16 list)"
    unfolding sorted_wrt_map by (rule sorted_wrt_mono_rel [rotated]) (rule mono)
  then have "sorted_list_of_set (set (map of_nat (conflict_lines ls) :: u16 list)) = map of_nat (conflict_lines ls)"
    by (simp only: strict_sorted_iff sorted_list_of_set.idem_if_sorted_distinct)
  ultimately show ?thesis by simp
qed

text \<open>C17: the parser of the override file computes what its rules say: a file that is too long or not ASCII is
  rejected as a whole; otherwise a key has the value of the first line that is exactly its name, an
  equals sign and \<open>true\<close> or \<open>false\<close>, unless that value is \<open>true\<close> and so is that of another key of the same
  conflict pair; no other text in the file has an effect. The issues are those of the lines in order,
  each with its line number and kind, and after them one for the later line of each contradictory pair, by
  line; the array holds exactly the first sixteen of them, and the counter counts them all.\<close>

theorem ParseOverrides_exact:
  "let p = ParseOverrides content; ls = text_lines content; said = said_value ls in
   if accepted_file content
   then po_status p = FileParsed
     \<and> po_values p = map (\<lambda>k. if contradicted said k then None else said k) [0..<kKeyCount]
     \<and> po_issues p = take kMaxIssues (all_issues ls) \<and> po_ignored p = length (all_issues ls)
   else p = no_overrides\<lparr>po_status := FileRejected\<rparr>"
proof (cases "accepted_file content")
  case True
  let ?ls = "text_lines content"
  let ?q = "fst (read_lines ?ls)"
  have q: "said_so_far ?q ?ls" "reports ?q (file_issues ?ls)" using read_lines_said by blast+
  have "length ?ls < 65536" using True text_lines_length [of content] by (simp add: accepted_file_def kMaxBytes_def)
  from conflict_lines_words [OF q(1) this] log_conflicts_reports [OF q(2), of "map (logged_key ?q) [0..<kKeyCount]" 0]
  have "reports (log_conflicts (map (logged_key ?q) [0..<kKeyCount]) ?q 0) (all_issues ?ls)"
    by (simp add: all_issues_def comp_def)
  moreover have "ParseOverrides content = ResolveConflicts ?q"
    using True by (simp add: ParseOverrides_def read_lines_def)
  ultimately have "reports (ParseOverrides content) (all_issues ?ls)"
    by (simp add: ResolveConflicts_def Let_def reports_def)
  then show ?thesis using ParseOverrides_rules [of content] True by (simp add: Let_def reports_def)
next
  case False
  then show ?thesis using ParseOverrides_rules [of content] by (simp add: Let_def)
qed

subsection \<open>What is written\<close>

definition writes_key :: "overrides \<Rightarrow> override_phase \<Rightarrow> key \<Rightarrow> bool" where
  "writes_key p phase i \<longleftrightarrow> ki_phase (kKeys ! i) = phase
     \<and> (case po_values p ! i of None \<Rightarrow> False | Some v \<Rightarrow> CvarText (kKeys ! i) v \<noteq> [])"

text \<open>The variable and text of a key's write: its own text, or for the dump key a directory.\<close>

definition write_of :: "overrides \<Rightarrow> key \<Rightarrow> string \<times> string \<Rightarrow> bool" where
  "write_of p i w \<longleftrightarrow> fst w = CvarName (kKeys ! i)
     \<and> (po_values p ! i = Some True \<and> ki_source (kKeys ! i) = XmaDumpDirectory
        \<or> snd w = (case po_values p ! i of None \<Rightarrow> [] | Some v \<Rightarrow> CvarText (kKeys ! i) v))"

lemma apply_key_writes: "\<exists>ws. as_writes (apply_key cs p phase st i) = as_writes st @ ws
    \<and> (ws = [] \<or> (\<exists>w. ws = [w] \<and> writes_key p phase i \<and> write_of p i w))"
  by (auto simp: apply_key_def Let_def writes_key_def write_of_def split: option.splits apply_action.splits prod.splits if_splits)

lemma apply_keys_writes: "distinct is \<Longrightarrow> \<exists>ws js. as_writes (foldl (apply_key cs p phase) st is) = as_writes st @ ws
    \<and> list_all2 (write_of p) js ws \<and> distinct js \<and> set js \<subseteq> {i \<in> set is. writes_key p phase i}"
proof (induction "is" arbitrary: st)
  case (Cons i "is")
  obtain ws js where r: "as_writes (foldl (apply_key cs p phase) (apply_key cs p phase st i) is)
      = as_writes (apply_key cs p phase st i) @ ws" "list_all2 (write_of p) js ws" "distinct js"
      "set js \<subseteq> {i \<in> set is. writes_key p phase i}"
    using Cons by force
  from apply_key_writes [of cs p phase st i] obtain us where u: "as_writes (apply_key cs p phase st i) = as_writes st @ us"
    "us = [] \<or> (\<exists>w. us = [w] \<and> writes_key p phase i \<and> write_of p i w)" by blast
  show ?case
  proof (cases "us = []")
    case True
    then show ?thesis using r u by (intro exI [of _ ws] exI [of _ js]) auto
  next
    case False
    then obtain w where "us = [w]" "writes_key p phase i" "write_of p i w" using u by blast
    then show ?thesis using r u Cons.prems by (intro exI [of _ "w # ws"] exI [of _ "i # js"]) auto
  qed
qed (auto intro: exI [of _ "[]"])


text \<open>The calls of one game start: both passes over one parsed file.\<close>

definition apply_overrides :: "'s cvar_store \<Rightarrow> string \<Rightarrow> 's \<Rightarrow> 's apply_state" where
  "apply_overrides cs content s = (let p = ParseOverrides content in
     OnGraphicsPluginLoaded cs p (OnStartup cs p
       \<lparr>as_store = s, as_applied = replicate kKeyCount None, as_writes = []\<rparr>))"

lemma not_contradicted:
  assumes "po_values p = map (\<lambda>k. if contradicted said k then None else said k) [0..<kKeyCount]"
    and "(i, j) \<in> set kConflictPairs" "i < kKeyCount" "j < kKeyCount"
  shows "\<not> (po_values p ! i = Some True \<and> po_values p ! j = Some True)"
proof
  assume "po_values p ! i = Some True \<and> po_values p ! j = Some True"
  then have "said i = Some True" "said j = Some True" "\<not> contradicted said i" using assms by (auto split: if_splits)
  with assms(2) show False by (force simp: contradicted_def list_ex_iff)
qed

lemma writes_key_True:
  assumes "writes_key p phase i" "(i, j) \<in> set kConflictPairs \<or> (j, i) \<in> set kConflictPairs"
  shows "po_values p ! i = Some True"
proof -
  have "ki_false (kKeys ! i) = []" using assms(2) pairs_write_true by (auto simp: list_all_iff)
  then show ?thesis using assms(1) by (cases "the (po_values p ! i)") (auto simp: writes_key_def CvarText_def split: option.splits)
qed

lemma list_all2_member: "list_all2 P xs ys \<Longrightarrow> y \<in> set ys \<Longrightarrow> \<exists>x \<in> set xs. P x y"
  by (induction rule: list_all2_induct) auto

lemma writing_cvars:
  assumes "po_values p = map (\<lambda>k. if contradicted said k then None else said k) [0..<kKeyCount]"
  shows "inj_on (\<lambda>i. CvarName (kKeys ! i)) {i. i < kKeyCount \<and> (\<exists>phase. writes_key p phase i)}"
proof (rule inj_onI, rule ccontr)
  fix i j
  assume i: "i \<in> {i. i < kKeyCount \<and> (\<exists>phase. writes_key p phase i)}" and j: "j \<in> {i. i < kKeyCount \<and> (\<exists>phase. writes_key p phase i)}"
    and eq: "CvarName (kKeys ! i) = CvarName (kKeys ! j)" and ne: "i \<noteq> j"
  have l: "(i, j) \<in> set kConflictPairs \<or> (j, i) \<in> set kConflictPairs"
    using same_cvar_listed [of i j] i j ne eq by blast
  then have "po_values p ! i = Some True" "po_values p ! j = Some True" using writes_key_True i j by blast+
  then show False using not_contradicted [OF assms] l i j by blast
qed

text \<open>C16: no variable is set twice, and none to a text that the file did not ask for: over both passes of a
  game start, with whatever file and whatever answers of the variable store, each call that sets a
  variable names another variable, and belongs to a key of the whitelist that has a value; its text is
  the one of the table for this value, except for the dump key, whose text is the directory.\<close>

theorem overrides_set_once:
  "let p = ParseOverrides content; writes = as_writes (apply_overrides cs content s) in
     distinct (map fst writes)
     \<and> list_all (\<lambda>w. list_ex (\<lambda>i. ki_phase (kKeys ! i) \<noteq> LauncherPhase \<and> po_values p ! i \<noteq> None \<and> write_of p i w)
          [0..<kKeyCount]) writes"
proof (cases "accepted_file content")
  case False
  then show ?thesis
    by (simp add: apply_overrides_def ParseOverrides_def OnStartup_def OnGraphicsPluginLoaded_def Let_def)
next
  case True
  let ?p = "ParseOverrides content" and ?said = "said_value (text_lines content)"
  let ?s0 = "\<lparr>as_store = s, as_applied = replicate kKeyCount None, as_writes = []\<rparr>"
  have p: "po_status ?p = FileParsed"
    "po_values ?p = map (\<lambda>k. if contradicted ?said k then None else ?said k) [0..<kKeyCount]"
    using ParseOverrides_rules [of content] True by (auto simp: Let_def)
  let ?s1 = "foldl (apply_key cs ?p Startup) ?s0 [0..<kKeyCount]"
  obtain ws js where w: "as_writes ?s1 = ws" "list_all2 (write_of ?p) js ws" "distinct js"
    "set js \<subseteq> {i \<in> set [0..<kKeyCount]. writes_key ?p Startup i}"
    using apply_keys_writes [of "[0..<kKeyCount]" cs ?p Startup ?s0] by auto
  obtain us ks where u: "as_writes (foldl (apply_key cs ?p GraphicsPlugin) ?s1 [0..<kKeyCount]) = ws @ us"
    "list_all2 (write_of ?p) ks us" "distinct ks" "set ks \<subseteq> {i \<in> set [0..<kKeyCount]. writes_key ?p GraphicsPlugin i}"
    using apply_keys_writes [of "[0..<kKeyCount]" cs ?p GraphicsPlugin ?s1] w(1) by auto
  let ?is = "js @ ks" and ?ws = "ws @ us"
  have all: "as_writes (apply_overrides cs content s) = ?ws"
    using u(1) p(1) by (simp add: apply_overrides_def OnStartup_def OnGraphicsPluginLoaded_def ApplyPhase_def Let_def)
  have is2: "list_all2 (write_of ?p) ?is ?ws" using w(2) u(2) by (rule list_all2_appendI)
  have wk: "i < kKeyCount \<and> (\<exists>phase. writes_key ?p phase i \<and> phase \<noteq> LauncherPhase)" if "i \<in> set ?is" for i
    using that w(4) u(4) by auto
  have "i \<notin> set ks" if "i \<in> set js" for i
  proof -
    have "writes_key ?p Startup i" using w(4) that by auto
    moreover have "i \<in> set ks \<Longrightarrow> writes_key ?p GraphicsPlugin i" using u(4) by auto
    ultimately show ?thesis by (auto simp: writes_key_def)
  qed
  then have "set js \<inter> set ks = {}" by blast
  then have d: "distinct ?is" using w(3) u(3) by simp
  have "inj_on (\<lambda>i. CvarName (kKeys ! i)) (set ?is)"
    using writing_cvars [OF p(2)] by (rule inj_on_subset) (use wk in blast)
  moreover have "map fst ?ws = map (\<lambda>i. CvarName (kKeys ! i)) ?is"
    using is2 by (induction rule: list_all2_induct) (simp_all add: write_of_def)
  ultimately have "distinct (map fst ?ws)" using d by (simp only: distinct_map)
  moreover have "list_ex (\<lambda>i. ki_phase (kKeys ! i) \<noteq> LauncherPhase \<and> po_values ?p ! i \<noteq> None \<and> write_of ?p i x) [0..<kKeyCount]"
    if "x \<in> set ?ws" for x
  proof -
    from list_all2_member [OF is2 that] obtain i where "i \<in> set ?is" "write_of ?p i x" by blast
    moreover from this wk [of i] have "i < kKeyCount" "ki_phase (kKeys ! i) \<noteq> LauncherPhase" "po_values ?p ! i \<noteq> None"
      by (auto simp: writes_key_def split: option.splits)
    ultimately show ?thesis by (auto simp: list_ex_iff)
  qed
  ultimately show ?thesis unfolding all Let_def by (simp add: list_all_iff)
qed

end
