(* ===== verification/SpeedupDefaults.thy ===== *)
theory SpeedupDefaults
  imports DevOverrides
begin

section \<open>Speed-up defaults (\<open>mcla_m10_defaults\<close>)\<close>

text \<open>
  The table of the switches a volunteer build writes, the decision for one entry, the two passes and
  their order with the passes of the override file in a game start. The variable store is the one of
  \<open>DevOverrides\<close>, extended by reading a value and by the switch that turns the set off.
\<close>

subsection \<open>The table\<close>

datatype default_phase = DefaultStartup | DefaultGraphicsPlugin
datatype default_platform = AllPlatforms | WineOnly

record default_entry =
  df_cvar :: string
  df_value :: string
  df_phase :: default_phase
  df_diagnostic :: bool
  df_platform :: default_platform

definition default_row :: "string \<Rightarrow> string \<Rightarrow> default_phase \<Rightarrow> bool \<Rightarrow> default_platform \<Rightarrow> default_entry" where
  "default_row cvar v phase diagnostic platform = \<lparr>df_cvar = cvar, df_value = v, df_phase = phase,
     df_diagnostic = diagnostic, df_platform = platform\<rparr>"

definition kDefaults :: "default_entry list" where
  "kDefaults = [
     default_row ''memory_watch_census'' ''false'' DefaultStartup True AllPlatforms,
     default_row ''memory_watch_disarm_bridge_safe_gaps'' ''true'' DefaultStartup False WineOnly,
     default_row ''d3d12_readback_sync_targeted'' ''true'' DefaultGraphicsPlugin False AllPlatforms,
     default_row ''d3d12_readback_elide_unread'' ''true'' DefaultGraphicsPlugin False AllPlatforms,
     default_row ''d3d12_wrm_event_wake'' ''true'' DefaultGraphicsPlugin False AllPlatforms,
     default_row ''d3d12_replay_batched_wake'' ''true'' DefaultGraphicsPlugin False AllPlatforms,
     default_row ''d3d12_readback_gpu_timing'' ''false'' DefaultGraphicsPlugin True AllPlatforms,
     default_row ''shared_memory_upload_ahead_pages'' ''16'' DefaultGraphicsPlugin False WineOnly]"

definition kWineOnlyCvars :: "string list" where
  "kWineOnlyCvars = [''memory_watch_disarm_bridge_safe_gaps'', ''shared_memory_upload_ahead_pages'']"

definition kNeverWrittenCvars :: "string list" where
  "kNeverWrittenCvars = [
     ''memory_watch_probes'',
     ''mcla_readback_sync_composite'',
     ''d3d12_readback_sync_composite'',
     ''d3d12_readback_sync_kick_draws'',
     ''mcla_native_d3d_refcount'',
     ''mcla_native_xapi_interlocked'',
     ''mcla_gpu_backend_vulkan'',
     ''shared_memory_hot_blocks'',
     ''shared_memory_hot_k'',
     ''shared_memory_hot_n'',
     ''shared_memory_hot_upload_cap_kb'',
     ''shared_memory_hot_probe_frames'',
     ''mcla_warp_probe'',
     ''mcla_warp_watchdog_seconds'',
     ''mcla_warp_finish_fix'',
     ''mcla_texture_budget_soft_cap_mb'',
     ''mcla_album_probe'',
     ''mcla_pursuit_probe'',
     ''xam_content_stable_creation_time'',
     ''xam_content_trace'',
     ''audio_speaker_config'',
     ''audio_downmix_itu'',
     ''audio_channel_rms_probe'',
     ''mcla_album_preview_restore'',
     ''d3d12_fetch_identity_cache'',
     ''d3d12_fetch_identity_verify'',
     ''d3d12_readback_sync_steady_exempt'',
     ''xma_swap_carry_packet'',
     ''xma_valid_only_when_written'',
     ''xma_work_lock_recheck'',
     ''xma_swap_trace'',
     ''xma_sibling_trace'',
     ''xma_stall_on_invalid_next'',
     ''xma_honor_start_skip'',
     ''xma_reset_codec_on_clear'',
     ''mcla_xma_consume_probe'',
     ''xma_honor_frame_trim'',
     ''xma_frame_trim_block_granular'',
     ''xma_dump_contexts'',
     ''xma_dump_all_rates'',
     ''xma_frame_walk_trace'',
     ''xma_frame_walk_fix'',
     ''xma_dump_input'',
     ''mcla_lock_probe'',
     ''mcla_lock_readback_ensure'',
     ''d3d12_fence_write_deferred'',
     ''mcla_raw_timer'',
     ''mcla_guest_vblank_hz'',
     ''d3d12_fence_defer_min_gap_us'']"

definition IsNeverWritten :: "string \<Rightarrow> bool" where
  "IsNeverWritten cvar \<longleftrightarrow> list_ex (\<lambda>name. name = cvar) kNeverWrittenCvars"

definition DefaultsAvoidNeverWritten :: bool where
  "DefaultsAvoidNeverWritten \<longleftrightarrow> list_all (\<lambda>entry. \<not> IsNeverWritten (df_cvar entry)) kDefaults"

definition key_writes_cvar :: "string \<Rightarrow> key \<Rightarrow> bool" where
  "key_writes_cvar cvar i \<longleftrightarrow> ki_phase (kKeys ! i) \<noteq> LauncherPhase \<and> CvarName (kKeys ! i) = cvar"

definition HasOverrideKey :: "default_entry \<Rightarrow> bool" where
  "HasOverrideKey entry \<longleftrightarrow> list_ex (key_writes_cvar (df_cvar entry)) [0..<kKeyCount]"

definition ValueText :: "bool \<Rightarrow> string" where
  "ValueText v = (if v then ''true'' else ''false'')"

definition PlatformName :: "bool \<Rightarrow> string" where
  "PlatformName wine = (if wine then ''wine'' else ''windows'')"

subsection \<open>The decision\<close>

datatype default_action = DisabledByOption | OffBySwitch | NotThisPlatform | MeasurementBuild | DevOverride
  | DefaultUnavailable | DefaultUserSet | AlreadyHeld | ApplyDefault

record default_inputs =
  di_option_on :: bool
  di_switch_on :: bool
  di_wine :: bool
  di_measurement_build :: bool
  di_registered :: bool
  di_non_default :: bool
  di_dev_override_applied :: bool
  di_holds_value :: bool

definition DecideDefault :: "default_entry \<Rightarrow> default_inputs \<Rightarrow> default_action" where
  "DecideDefault entry inp =
     (if \<not> di_option_on inp then DisabledByOption
      else if \<not> di_switch_on inp then OffBySwitch
      else if df_platform entry = WineOnly \<and> \<not> di_wine inp then NotThisPlatform
      else if df_diagnostic entry \<and> di_measurement_build inp then MeasurementBuild
      else if HasOverrideKey entry \<and> di_dev_override_applied inp then DevOverride
      else if \<not> di_registered inp then DefaultUnavailable
      else if di_non_default inp then DefaultUserSet
      else if di_holds_value inp then AlreadyHeld
      else ApplyDefault)"

fun ActionName :: "default_action \<Rightarrow> string" where
  "ActionName DisabledByOption = ''disabled''"
| "ActionName OffBySwitch = ''switch_off''"
| "ActionName NotThisPlatform = ''wine_only''"
| "ActionName MeasurementBuild = ''measurement_build''"
| "ActionName DevOverride = ''dev_override''"
| "ActionName DefaultUnavailable = ''unavailable''"
| "ActionName DefaultUserSet = ''user_set''"
| "ActionName AlreadyHeld = ''already''"
| "ActionName ApplyDefault = ''applied''"

record tally =
  tl_counts :: "default_action \<Rightarrow> nat"
  tl_failed :: nat

definition no_tally :: tally where "no_tally = \<lparr>tl_counts = (\<lambda>_. 0), tl_failed = 0\<rparr>"

definition TallyAdd :: "tally \<Rightarrow> default_action \<Rightarrow> tally" where
  "TallyAdd t a = t\<lparr>tl_counts := (tl_counts t)(a := tl_counts t a + 1)\<rparr>"

definition TallyText :: "tally \<Rightarrow> bool \<Rightarrow> string" where
  "TallyText t wine = ''platform='' @ PlatformName wine
     @ '' applied='' @ decimal (tl_counts t ApplyDefault - tl_failed t)
     @ '' failed='' @ decimal (tl_failed t)
     @ '' user_set='' @ decimal (tl_counts t DefaultUserSet)
     @ '' dev_override='' @ decimal (tl_counts t DevOverride)
     @ '' measurement_build='' @ decimal (tl_counts t MeasurementBuild)
     @ '' wine_only='' @ decimal (tl_counts t NotThisPlatform)
     @ '' already='' @ decimal (tl_counts t AlreadyHeld)
     @ '' unavailable='' @ decimal (tl_counts t DefaultUnavailable)"

subsection \<open>The passes\<close>

text \<open>The store with the operations these passes add; the build is fixed by two options.\<close>

record 's default_store = "'s cvar_store" +
  ds_get :: "'s \<Rightarrow> string \<Rightarrow> string"
  ds_switch :: "'s \<Rightarrow> bool"
  ds_wine :: bool

record build_options =
  bo_speedup_defaults :: bool
  bo_dev_overrides :: bool

text \<open>
  One start of the game: the state of the override passes, the tally of the last pass of the defaults,
  and, for the properties, each call of a default that sets a variable with the store it found.
\<close>

record 's default_run =
  dr_overrides :: "'s apply_state"
  dr_tally :: tally
  dr_writes :: "('s \<times> string \<times> string) list"

definition explicit_off :: "overrides \<Rightarrow> key \<Rightarrow> bool" where
  "explicit_off p i \<longleftrightarrow> (case po_values p ! i of None \<Rightarrow> False | Some v \<Rightarrow> CvarText (kKeys ! i) v = [])"

definition DevOverrideApplied :: "build_options \<Rightarrow> overrides \<Rightarrow> 's apply_state \<Rightarrow> default_entry \<Rightarrow> bool" where
  "DevOverrideApplied bo p st entry \<longleftrightarrow> bo_dev_overrides bo \<and>
     list_ex (\<lambda>i. key_writes_cvar (df_cvar entry) i \<and> (as_applied st ! i \<noteq> None \<or> explicit_off p i)) [0..<kKeyCount]"

definition default_inputs_of :: "'s default_store \<Rightarrow> build_options \<Rightarrow> overrides \<Rightarrow> 's apply_state \<Rightarrow> default_entry \<Rightarrow> default_inputs" where
  "default_inputs_of ds bo p st entry = (let s = as_store st; name = df_cvar entry; registered = cs_registered ds s name in
     \<lparr>di_option_on = True, di_switch_on = ds_switch ds s, di_wine = ds_wine ds,
      di_measurement_build = bo_dev_overrides bo, di_registered = registered,
      di_non_default = (registered \<and> cs_non_default ds s name),
      di_dev_override_applied = DevOverrideApplied bo p st entry,
      di_holds_value = (registered \<and> ds_get ds s name = df_value entry)\<rparr>)"

definition apply_default ::
  "'s default_store \<Rightarrow> build_options \<Rightarrow> overrides \<Rightarrow> default_phase \<Rightarrow> 's default_run \<Rightarrow> default_entry \<Rightarrow> 's default_run" where
  "apply_default ds bo p phase r entry =
     (if df_phase entry \<noteq> phase then r
      else let st = dr_overrides r; action = DecideDefault entry (default_inputs_of ds bo p st entry);
               r' = r\<lparr>dr_tally := TallyAdd (dr_tally r) action\<rparr> in
        case action of
          ApplyDefault \<Rightarrow>
            (case cs_set ds (as_store st) (df_cvar entry) (df_value entry) of (s', ok) \<Rightarrow>
               r'\<lparr>dr_overrides := st\<lparr>as_store := s'\<rparr>,
                  dr_tally := (if ok then dr_tally r' else (dr_tally r')\<lparr>tl_failed := tl_failed (dr_tally r') + 1\<rparr>),
                  dr_writes := dr_writes r @ [(as_store st, df_cvar entry, df_value entry)]\<rparr>)
        | _ \<Rightarrow> r')"

definition ApplyDefaults :: "'s default_store \<Rightarrow> build_options \<Rightarrow> overrides \<Rightarrow> default_phase \<Rightarrow> 's default_run \<Rightarrow> 's default_run" where
  "ApplyDefaults ds bo p phase r = foldl (apply_default ds bo p phase) (r\<lparr>dr_tally := no_tally\<rparr>) kDefaults"

text \<open>\<open>m10_defaults::OnStartup\<close> and \<open>m10_defaults::OnGraphicsPluginLoaded\<close> differ in the phase and the log only.\<close>

definition DefaultsPass :: "'s default_store \<Rightarrow> build_options \<Rightarrow> overrides \<Rightarrow> default_phase \<Rightarrow> 's default_run \<Rightarrow> 's default_run" where
  "DefaultsPass ds bo p phase r =
     (if \<not> bo_speedup_defaults bo then r
      else if \<not> ds_switch ds (as_store (dr_overrides r)) then r
      else ApplyDefaults ds bo p phase r)"

text \<open>
  The order of the four passes in \<open>mcla_app.cpp\<close>; what runs between them (the texture budget, the
  performance split, the composite sync and \<open>readback_resolve\<close>) is an arbitrary change of the store.
\<close>

definition override_pass :: "build_options \<Rightarrow> ('s apply_state \<Rightarrow> 's apply_state) \<Rightarrow> 's default_run \<Rightarrow> 's default_run" where
  "override_pass bo pass r = (if bo_dev_overrides bo then r\<lparr>dr_overrides := pass (dr_overrides r)\<rparr> else r)"

definition other_code :: "('s \<Rightarrow> 's) \<Rightarrow> 's default_run \<Rightarrow> 's default_run" where
  "other_code f r = r\<lparr>dr_overrides := (dr_overrides r)\<lparr>as_store := f (as_store (dr_overrides r))\<rparr>\<rparr>"

definition game_start :: "'s default_store \<Rightarrow> build_options \<Rightarrow> ('s \<Rightarrow> 's) \<Rightarrow> ('s \<Rightarrow> 's) \<Rightarrow> overrides \<Rightarrow> 's \<Rightarrow> 's default_run" where
  "game_start ds bo between settle p s =
     (let r = \<lparr>dr_overrides = \<lparr>as_store = s, as_applied = replicate kKeyCount None, as_writes = []\<rparr>,
                dr_tally = no_tally, dr_writes = []\<rparr>;
          r = override_pass bo (OnStartup (cvar_store.truncate ds) p) r;
          r = DefaultsPass ds bo p DefaultStartup r;
          r = other_code between r;
          r = override_pass bo (OnGraphicsPluginLoaded (cvar_store.truncate ds) p) r;
          r = other_code settle r
      in DefaultsPass ds bo p DefaultGraphicsPlugin r)"

subsection \<open>Facts of the table\<close>

lemma defaults_avoid_never_written: "DefaultsAvoidNeverWritten"
  by code_simp

lemma default_cvars_distinct: "distinct (map df_cvar kDefaults)"
  by code_simp

fun override_phase_of :: "default_phase \<Rightarrow> override_phase" where
  "override_phase_of DefaultStartup = Startup"
| "override_phase_of DefaultGraphicsPlugin = GraphicsPlugin"

text \<open>Each default runs in the phase of the override keys of its variable, just after them.\<close>

lemma phases_agree: "list_all (\<lambda>d. list_all (\<lambda>info. ki_phase info = LauncherPhase \<or> CvarName info \<noteq> df_cvar d
    \<or> ki_phase info = override_phase_of (df_phase d)) kKeys) kDefaults"
  by code_simp

subsection \<open>What a pass writes\<close>

lemma applied_other_phase: "ki_phase (kKeys ! j) \<noteq> phase \<Longrightarrow> as_applied (ApplyPhase cs p phase st) ! j = as_applied st ! j"
proof -
  assume j: "ki_phase (kKeys ! j) \<noteq> phase"
  have "as_applied (apply_key cs p phase st i) ! j = as_applied st ! j" for st i
    using j by (cases "i = j") (auto simp: apply_key_def Let_def split: option.splits apply_action.splits prod.splits)
  then have "as_applied (foldl (apply_key cs p phase) st is) ! j = as_applied st ! j" for "is"
    by (induction "is" arbitrary: st) simp_all
  then show ?thesis by (simp add: ApplyPhase_def)
qed

definition overridden :: "build_options \<Rightarrow> overrides \<Rightarrow> bool option list \<Rightarrow> string \<Rightarrow> bool" where
  "overridden bo p applied name \<longleftrightarrow> bo_dev_overrides bo
     \<and> list_ex (\<lambda>i. key_writes_cvar name i \<and> (applied ! i \<noteq> None \<or> explicit_off p i)) [0..<kKeyCount]"

definition permitted :: "'s default_store \<Rightarrow> build_options \<Rightarrow> default_entry \<Rightarrow> 's \<Rightarrow> bool" where
  "permitted ds bo d s \<longleftrightarrow> (ds_wine ds \<or> df_platform d = AllPlatforms) \<and> \<not> (bo_dev_overrides bo \<and> df_diagnostic d)
     \<and> cs_registered ds s (df_cvar d) \<and> \<not> cs_non_default ds s (df_cvar d)"

lemma decide_applies:
  "DecideDefault d (default_inputs_of ds bo p st d) = ApplyDefault
    \<Longrightarrow> permitted ds bo d (as_store st) \<and> \<not> overridden bo p (as_applied st) (df_cvar d)"
  by (cases "df_platform d") (auto simp: DecideDefault_def default_inputs_of_def Let_def permitted_def overridden_def
    DevOverrideApplied_def HasOverrideKey_def list_ex_iff split: if_splits)

lemma apply_default_frame: "as_applied (dr_overrides (apply_default ds bo p phase r d)) = as_applied (dr_overrides r)"
  by (simp add: apply_default_def Let_def split: default_action.split prod.split)

lemma apply_default_writes: "\<exists>ws. dr_writes (apply_default ds bo p phase r d) = dr_writes r @ ws
    \<and> (ws = [] \<or> (\<exists>s. ws = [(s, df_cvar d, df_value d)] \<and> df_phase d = phase \<and> permitted ds bo d s
        \<and> \<not> overridden bo p (as_applied (dr_overrides r)) (df_cvar d)))"
  using decide_applies [of d ds bo p "dr_overrides r"]
  by (auto simp: apply_default_def Let_def split: default_action.splits prod.splits)

definition written_by :: "'s default_store \<Rightarrow> build_options \<Rightarrow> overrides \<Rightarrow> default_phase \<Rightarrow> bool option list
    \<Rightarrow> default_entry list \<Rightarrow> 's \<times> string \<times> string \<Rightarrow> bool" where
  "written_by ds bo p phase applied es w \<longleftrightarrow> (\<exists>s d. d \<in> set es \<and> w = (s, df_cvar d, df_value d) \<and> df_phase d = phase
     \<and> permitted ds bo d s \<and> \<not> overridden bo p applied (df_cvar d))"

lemma pass_writes: "distinct (map df_cvar es) \<Longrightarrow> \<exists>ws. dr_writes (foldl (apply_default ds bo p phase) r es) = dr_writes r @ ws
    \<and> as_applied (dr_overrides (foldl (apply_default ds bo p phase) r es)) = as_applied (dr_overrides r)
    \<and> (\<forall>w \<in> set ws. written_by ds bo p phase (as_applied (dr_overrides r)) es w) \<and> distinct (map (\<lambda>w. fst (snd w)) ws)"
proof (induction es arbitrary: r)
  case (Cons d es)
  let ?r = "apply_default ds bo p phase r d"
  obtain ws where w: "dr_writes (foldl (apply_default ds bo p phase) ?r es) = dr_writes ?r @ ws"
    "as_applied (dr_overrides (foldl (apply_default ds bo p phase) ?r es)) = as_applied (dr_overrides r)"
    "\<forall>w \<in> set ws. written_by ds bo p phase (as_applied (dr_overrides r)) es w" "distinct (map (\<lambda>w. fst (snd w)) ws)"
    using Cons.IH [of ?r] Cons.prems by (auto simp: apply_default_frame)
  obtain us where u: "dr_writes ?r = dr_writes r @ us"
    "us = [] \<or> (\<exists>s. us = [(s, df_cvar d, df_value d)] \<and> df_phase d = phase \<and> permitted ds bo d s
        \<and> \<not> overridden bo p (as_applied (dr_overrides r)) (df_cvar d))"
    using apply_default_writes [of ds bo p phase r d] by blast
  have "fst (snd w) \<noteq> df_cvar d" if "w \<in> set ws" for w
  proof -
    from that w(3) obtain s e where "e \<in> set es" "w = (s, df_cvar e, df_value e)" unfolding written_by_def by blast
    moreover have "df_cvar d \<notin> df_cvar ` set es" using Cons.prems by simp
    ultimately show ?thesis by (metis fst_conv snd_conv image_eqI)
  qed
  then have "df_cvar d \<notin> (\<lambda>w. fst (snd w)) ` set ws" by (simp add: image_iff) metis
  moreover have "written_by ds bo p phase (as_applied (dr_overrides r)) (d # es) w"
    if "w \<in> set (us @ ws)" for w
    using that w(3) u(2) unfolding written_by_def by (auto; metis)
  ultimately show ?case using u w by (intro exI [of _ "us @ ws"]) (auto simp: image_iff; force)
qed auto

lemma DefaultsPass_writes: "\<exists>ws. dr_writes (DefaultsPass ds bo p phase r) = dr_writes r @ ws
    \<and> as_applied (dr_overrides (DefaultsPass ds bo p phase r)) = as_applied (dr_overrides r)
    \<and> (\<forall>w \<in> set ws. written_by ds bo p phase (as_applied (dr_overrides r)) kDefaults w) \<and> distinct (map (\<lambda>w. fst (snd w)) ws)"
  using pass_writes [OF default_cvars_distinct, of ds bo p phase "r\<lparr>dr_tally := no_tally\<rparr>"]
  by (auto simp: DefaultsPass_def ApplyDefaults_def)

lemma overridden_stable:
  assumes "d \<in> set kDefaults" "df_phase d = DefaultStartup" "\<not> overridden bo p (as_applied st) (df_cvar d)"
  shows "\<not> overridden bo p (as_applied (OnGraphicsPluginLoaded cs p st)) (df_cvar d)"
proof -
  have "as_applied (OnGraphicsPluginLoaded cs p st) ! i = as_applied st ! i"
    if "i < kKeyCount" "key_writes_cvar (df_cvar d) i" for i
  proof -
    have "kKeys ! i \<in> set kKeys" using that(1) by (simp add: length_kKeys)
    then have "ki_phase (kKeys ! i) = override_phase_of (df_phase d)"
      using phases_agree that(2) assms(1) unfolding list_all_iff key_writes_cvar_def by blast
    then have "ki_phase (kKeys ! i) = Startup" using assms(2) by simp
    then show ?thesis using applied_other_phase [of i GraphicsPlugin cs p st] by (simp add: OnGraphicsPluginLoaded_def)
  qed
  then show ?thesis using assms(3) by (auto simp: overridden_def list_ex_iff)
qed

text \<open>C15: the speed-up defaults give way to everything else: in a game start, whatever the store answers and
  whatever the code between the passes changes, a default sets no variable twice, sets a variable only to
  the value of the table, on its platform and in its kind of build, never one of the list of
  variables it must not touch, only if the variable exists and still has its default value, and never
  one that a key of the override file has set or explicitly left off, at any time of the start.\<close>

theorem defaults_yield:
  "let r = game_start ds bo between settle p s; applied = as_applied (dr_overrides r) in
     distinct (map (\<lambda>w. fst (snd w)) (dr_writes r))
     \<and> list_all (\<lambda>(s', name, text).
          list_ex (\<lambda>d. name = df_cvar d \<and> text = df_value d \<and> permitted ds bo d s') kDefaults
          \<and> \<not> IsNeverWritten name \<and> \<not> overridden bo p applied name) (dr_writes r)"
proof -
  let ?start = "\<lparr>dr_overrides = \<lparr>as_store = s, as_applied = replicate kKeyCount None, as_writes = []\<rparr>,
      dr_tally = no_tally, dr_writes = []\<rparr>" and ?cs = "cvar_store.truncate ds"
  let ?r1 = "override_pass bo (OnStartup ?cs p) ?start"
  let ?r2 = "DefaultsPass ds bo p DefaultStartup ?r1"
  let ?r3 = "other_code settle (override_pass bo (OnGraphicsPluginLoaded ?cs p) (other_code between ?r2))"
  let ?r4 = "DefaultsPass ds bo p DefaultGraphicsPlugin ?r3"
  have r: "game_start ds bo between settle p s = ?r4" by (simp add: game_start_def Let_def)
  have s1: "dr_writes ?r1 = []" "dr_writes ?r3 = dr_writes ?r2" by (simp_all add: override_pass_def other_code_def)
  obtain us where u: "dr_writes ?r2 = us" "as_applied (dr_overrides ?r2) = as_applied (dr_overrides ?r1)"
    "\<forall>w \<in> set us. written_by ds bo p DefaultStartup (as_applied (dr_overrides ?r1)) kDefaults w" "distinct (map (\<lambda>w. fst (snd w)) us)"
    using DefaultsPass_writes [of ds bo p DefaultStartup ?r1] s1(1) by auto
  obtain ws where w: "dr_writes ?r4 = us @ ws" "as_applied (dr_overrides ?r4) = as_applied (dr_overrides ?r3)"
    "\<forall>w \<in> set ws. written_by ds bo p DefaultGraphicsPlugin (as_applied (dr_overrides ?r3)) kDefaults w" "distinct (map (\<lambda>w. fst (snd w)) ws)"
    using DefaultsPass_writes [of ds bo p DefaultGraphicsPlugin ?r3] s1(2) u(1) by auto
  have stable: "\<not> overridden bo p (as_applied (dr_overrides ?r3)) (df_cvar d)"
    if "d \<in> set kDefaults" "df_phase d = DefaultStartup" "\<not> overridden bo p (as_applied (dr_overrides ?r1)) (df_cvar d)" for d
  proof (cases "bo_dev_overrides bo")
    case True
    have "as_applied (dr_overrides ?r3) = as_applied (OnGraphicsPluginLoaded ?cs p (dr_overrides (other_code between ?r2)))"
      using True by (simp add: override_pass_def other_code_def)
    moreover have "as_applied (dr_overrides (other_code between ?r2)) = as_applied (dr_overrides ?r1)"
      using u(2) by (simp add: other_code_def)
    ultimately show ?thesis using overridden_stable [OF that(1,2), of bo p "dr_overrides (other_code between ?r2)" ?cs] that(3) by simp
  qed (simp add: overridden_def)
  have all: "\<exists>s d. d \<in> set kDefaults \<and> w = (s, df_cvar d, df_value d) \<and> permitted ds bo d s
      \<and> \<not> overridden bo p (as_applied (dr_overrides ?r4)) (df_cvar d)" if "w \<in> set (us @ ws)" for w
    using that u(3) w(2,3) stable unfolding written_by_def set_append Un_iff by metis
  have "fst (snd x) \<noteq> fst (snd y)" if x: "x \<in> set us" and y: "y \<in> set ws" for x y
  proof -
    from x u(3) obtain a d where d: "d \<in> set kDefaults" "x = (a, df_cvar d, df_value d)" "df_phase d = DefaultStartup"
      unfolding written_by_def by blast
    from y w(3) obtain b e where e: "e \<in> set kDefaults" "y = (b, df_cvar e, df_value e)" "df_phase e = DefaultGraphicsPlugin"
      unfolding written_by_def by blast
    have "df_cvar d \<noteq> df_cvar e" using d e default_cvars_distinct by (auto simp: distinct_map inj_on_def)
    then show ?thesis using d(2) e(2) by simp
  qed
  then have d: "distinct (map (\<lambda>w. fst (snd w)) (us @ ws))" using u(4) w(4) by auto
  have "\<not> IsNeverWritten (df_cvar d)" if "d \<in> set kDefaults" for d
    using defaults_avoid_never_written that by (simp add: DefaultsAvoidNeverWritten_def list_all_iff)
  then have "list_ex (\<lambda>d. name = df_cvar d \<and> v = df_value d \<and> permitted ds bo d s') kDefaults
      \<and> \<not> IsNeverWritten name \<and> \<not> overridden bo p (as_applied (dr_overrides ?r4)) name"
    if "(s', name, v) \<in> set (us @ ws)" for s' name v
    using all [OF that] unfolding list_ex_iff by (elim exE conjE) (simp, blast)
  then show ?thesis unfolding r Let_def w(1) list_all_iff using d by blast
qed

end
