(* ===== verification/MenuCap.thy ===== *)
theory MenuCap
  imports Prelude
begin

unbundle bit_operations_syntax

section \<open>Menu-state cap and wheel resync (\<open>mcla_menu_state\<close>)\<close>

text \<open>
  The controller that forces the UI cap while the game is paused and gives the threshold back, the edges
  that ask for a resync of the wheel, the checked reads of guest memory, the hook, and the shutdown.
  \<open>int32_t\<close> values are only compared and copied, and the log counter stops at 200, so they are \<open>int\<close>
  and \<open>nat\<close> here. Guest memory, the configuration variables and the SDK's resync call are inputs of a step.
\<close>

subsection \<open>Pause state\<close>

definition kForcedLow :: int where "kForcedLow = 100000"
definition kMaxLoggedTransitions :: nat where "kMaxLoggedTransitions = 200"
definition kRacerStateActive :: u32 where "kRacerStateActive = 3"

definition RacerInputOff :: "bool \<Rightarrow> u32 \<Rightarrow> u8 \<Rightarrow> u8" where
  "RacerInputOff racer_read racer_state input_off =
     (if racer_read \<and> racer_state = kRacerStateActive then input_off else 0)"

definition CapPaused :: "u8 \<Rightarrow> u8 \<Rightarrow> u8 \<Rightarrow> bool" where
  "CapPaused simulation local racer_off \<longleftrightarrow> simulation \<noteq> 0 \<or> local \<noteq> 0 \<or> racer_off \<noteq> 0"

subsection \<open>The controller\<close>

record cap_inputs =
  ci_guest_vblank_hz :: int
  ci_current_low :: int

record cap_decision =
  cd_transition :: bool
  cd_log :: bool
  cd_write_low :: "int option"

record cap_controller =
  cc_paused :: bool
  cc_forcing :: bool
  cc_wrote :: bool
  cc_stopped :: bool
  cc_saved_low :: int
  cc_logged :: nat

definition new_controller :: cap_controller where
  "new_controller = \<lparr>cc_paused = False, cc_forcing = False, cc_wrote = False, cc_stopped = False,
     cc_saved_low = 0, cc_logged = 0\<rparr>"

definition NeedsInputs :: "cap_controller \<Rightarrow> bool \<Rightarrow> bool" where
  "NeedsInputs c paused \<longleftrightarrow> \<not> cc_stopped c \<and> paused \<noteq> cc_paused c"

definition Release :: "cap_controller \<Rightarrow> int \<Rightarrow> cap_controller \<times> int option" where
  "Release c current_low =
     (let restore = (cc_forcing c \<and> cc_wrote c \<and> current_low = kForcedLow) in
      (c\<lparr>cc_forcing := False, cc_wrote := False\<rparr>, if restore then Some (cc_saved_low c) else None))"

definition ObserveCap :: "cap_controller \<Rightarrow> bool \<Rightarrow> cap_inputs \<Rightarrow> cap_controller \<times> cap_decision" where
  "ObserveCap c paused inputs =
     (if \<not> NeedsInputs c paused then (c, \<lparr>cd_transition = False, cd_log = False, cd_write_low = None\<rparr>)
      else let log = cc_logged c < kMaxLoggedTransitions;
               c = c\<lparr>cc_paused := paused, cc_logged := (if log then cc_logged c + 1 else cc_logged c)\<rparr>;
               d = \<lparr>cd_transition = True, cd_log = log, cd_write_low = None\<rparr> in
        if paused then
          (if ci_guest_vblank_hz inputs \<le> 0 \<or> ci_current_low inputs \<le> 0 then (c, d)
           else let wrote = (ci_current_low inputs \<noteq> kForcedLow) in
             (c\<lparr>cc_forcing := True, cc_saved_low := ci_current_low inputs, cc_wrote := wrote\<rparr>,
              if wrote then d\<lparr>cd_write_low := Some kForcedLow\<rparr> else d))
        else case Release c (ci_current_low inputs) of (c', w) \<Rightarrow> (c', d\<lparr>cd_write_low := w\<rparr>))"

definition ShutdownCap :: "cap_controller \<Rightarrow> int \<Rightarrow> cap_controller \<times> int option" where
  "ShutdownCap c current_low =
     (if cc_stopped c then (c, None) else Release (c\<lparr>cc_stopped := True\<rparr>) current_low)"

subsection \<open>The edges for the wheel\<close>

datatype wheel_resync = NoResync | ResumeResync | RacerActiveResync

fun WheelResyncReason :: "wheel_resync \<Rightarrow> string option" where
  "WheelResyncReason ResumeResync = Some ''host:resume''"
| "WheelResyncReason RacerActiveResync = Some ''host:racer-active''"
| "WheelResyncReason NoResync = None"

record resync_edges =
  re_seen :: bool
  re_paused :: bool
  re_racer_off :: u8

definition new_edges :: resync_edges where
  "new_edges = \<lparr>re_seen = False, re_paused = False, re_racer_off = 0\<rparr>"

definition ObserveResync :: "resync_edges \<Rightarrow> bool \<Rightarrow> u8 \<Rightarrow> resync_edges \<times> wheel_resync" where
  "ObserveResync e paused racer_off =
     (\<lparr>re_seen = True, re_paused = paused, re_racer_off = racer_off\<rparr>,
      if re_seen e then
        (if re_paused e \<and> \<not> paused then ResumeResync
         else if re_racer_off e \<noteq> 0 \<and> racer_off = 0 then RacerActiveResync else NoResync)
      else NoResync)"

subsection \<open>Checked reads of guest memory\<close>

definition kGameStatePointer :: u32 where "kGameStatePointer = 0x828CCEA0"
definition kPlayerManagerPointer :: u32 where "kPlayerManagerPointer = 0x82874374"
definition kRacerState :: u32 where "kRacerState = 656"
definition kRacerInputOff :: u32 where "kRacerInputOff = 908"

text \<open>
  What the hook sees of the guest: whether the kernel has a memory object, the heap (base and size) and the
  protection that it reports for an address, the bit for reading, and the loads.
\<close>

record guest =
  gm_memory :: bool
  gm_heap :: "u32 \<Rightarrow> (u32 \<times> u32) option"
  gm_protect :: "u32 \<Rightarrow> u32 option"
  gm_read_bit :: u32
  gm_u32 :: "u32 \<Rightarrow> u32"
  gm_u8 :: "u32 \<Rightarrow> u8"

definition readable_at :: "guest \<Rightarrow> u32 \<Rightarrow> bool" where
  "readable_at g probe \<longleftrightarrow> (case gm_heap g probe of None \<Rightarrow> False
     | Some (heap_base, heap_size) \<Rightarrow>
         if probe < heap_base \<or> probe - heap_base \<ge> heap_size then False
         else case gm_protect g probe of None \<Rightarrow> False | Some protect \<Rightarrow> protect AND gm_read_bit g \<noteq> 0)"

definition GuestReadable :: "guest \<Rightarrow> u32 \<Rightarrow> u32 \<Rightarrow> bool" where
  "GuestReadable g address span \<longleftrightarrow>
     (if \<not> gm_memory g \<or> address = 0 \<or> address > 0xFFFFFFFF - (span - 1) then False
      else list_all (readable_at g) [address, address + span - 1])"

text \<open>The value, and the spans that were loaded (for the property that each was checked).\<close>

definition ReadRacerInputOff :: "guest \<Rightarrow> bool \<Rightarrow> bool \<Rightarrow> u8 \<times> (u32 \<times> u32) list" where
  "ReadRacerInputOff g racer_wanted reads_stopped =
     (if \<not> racer_wanted \<or> reads_stopped then (0, [])
      else if \<not> GuestReadable g kPlayerManagerPointer 4 then (0, [])
      else let players = gm_u32 g kPlayerManagerPointer; l1 = [(kPlayerManagerPointer, 4)] in
        if players = 0 \<or> \<not> GuestReadable g (players + 8) 4 then (0, l1)
        else let racer = gm_u32 g (players + 8); l2 = l1 @ [(players + 8, 4)];
                 racer_read = (racer \<noteq> 0 \<and> GuestReadable g (racer + kRacerState) 4 \<and> GuestReadable g (racer + kRacerInputOff) 1) in
          (RacerInputOff racer_read (if racer_read then gm_u32 g (racer + kRacerState) else 0)
             (if racer_read then gm_u8 g (racer + kRacerInputOff) else 0),
           if racer_read then l2 @ [(racer + kRacerState, 4), (racer + kRacerInputOff, 1)] else l2))"

subsection \<open>The hook and the shutdown\<close>

text \<open>
  The state both threads share, with the threshold as the registry holds it, and the reasons passed to
  the SDK's resync call so far.
\<close>

record menu_world =
  mw_controller :: cap_controller
  mw_edges :: resync_edges
  mw_unavailable_logged :: bool
  mw_reads_stopped :: bool
  mw_low :: int
  mw_resyncs :: "string list"

definition menu_start :: "int \<Rightarrow> menu_world" where
  "menu_start low = \<lparr>mw_controller = new_controller, mw_edges = new_edges, mw_unavailable_logged = False,
     mw_reads_stopped = False, mw_low = low, mw_resyncs = []\<rparr>"

definition WriteLow :: "bool \<Rightarrow> int \<Rightarrow> menu_world \<Rightarrow> menu_world" where
  "WriteLow write_ok v w = (if write_ok then w\<lparr>mw_low := v\<rparr> else w)"

definition write_decision :: "bool \<Rightarrow> int option \<Rightarrow> menu_world \<Rightarrow> menu_world" where
  "write_decision write_ok v w = (case v of None \<Rightarrow> w | Some low \<Rightarrow> WriteLow write_ok low w)"

definition hook_resync :: "bool \<Rightarrow> u8 \<Rightarrow> bool \<Rightarrow> menu_world \<Rightarrow> menu_world" where
  "hook_resync paused racer_off resync_ok w =
     (if cc_stopped (mw_controller w) then w
      else case ObserveResync (mw_edges w) paused racer_off of (e, resync) \<Rightarrow>
        (case WheelResyncReason resync of
           None \<Rightarrow> w\<lparr>mw_edges := e\<rparr>
         | Some reason \<Rightarrow> w\<lparr>mw_edges := e, mw_resyncs := mw_resyncs w @ [reason],
             mw_unavailable_logged := (mw_unavailable_logged w \<or> \<not> resync_ok)\<rparr>))"

text \<open>The part of the hook under the lock.\<close>

definition hook_locked :: "bool \<Rightarrow> u8 \<Rightarrow> int \<Rightarrow> bool \<Rightarrow> bool \<Rightarrow> menu_world \<Rightarrow> menu_world" where
  "hook_locked paused racer_off vblank write_ok resync_ok w =
     (let w = hook_resync paused racer_off resync_ok w in
      if \<not> NeedsInputs (mw_controller w) paused then w
      else case ObserveCap (mw_controller w) paused \<lparr>ci_guest_vblank_hz = vblank, ci_current_low = mw_low w\<rparr> of
        (c, d) \<Rightarrow> write_decision write_ok (cd_write_low d) (w\<lparr>mw_controller := c\<rparr>))"

definition hook :: "guest \<Rightarrow> bool \<Rightarrow> bool \<Rightarrow> u32 \<Rightarrow> int \<Rightarrow> bool \<Rightarrow> bool \<Rightarrow> menu_world \<Rightarrow> menu_world" where
  "hook g pause_wanted racer_wanted state vblank write_ok resync_ok w =
     (if \<not> pause_wanted \<or> state = 0 \<or> state \<noteq> gm_u32 g kGameStatePointer then w
      else let racer_off = fst (ReadRacerInputOff g racer_wanted (mw_reads_stopped w));
               paused = CapPaused (gm_u8 g (state + 4)) (gm_u8 g (state + 6)) racer_off in
        hook_locked paused racer_off vblank write_ok resync_ok w)"

definition ShutdownMenuStateCap :: "bool \<Rightarrow> menu_world \<Rightarrow> menu_world" where
  "ShutdownMenuStateCap write_ok w =
     (let w = w\<lparr>mw_reads_stopped := True\<rparr>; c = mw_controller w in
      if cc_stopped c then w
      else case ShutdownCap c (if cc_forcing c then mw_low w else 0) of
        (c', restore) \<Rightarrow> write_decision write_ok restore (w\<lparr>mw_controller := c'\<rparr>))"

text \<open>
  A run: the locked part of the hook with the pause state it has read (before the lock, so possibly before
  a shutdown), a change of the threshold by the user, and the shutdown.
\<close>

datatype menu_event = MenuUpdate bool u8 int bool bool | UserSetsLow int | MenuShutdown bool

fun menu_step :: "menu_world \<Rightarrow> menu_event \<Rightarrow> menu_world" where
  "menu_step w (MenuUpdate paused racer_off vblank write_ok resync_ok) = hook_locked paused racer_off vblank write_ok resync_ok w"
| "menu_step w (UserSetsLow v) = w\<lparr>mw_low := v\<rparr>"
| "menu_step w (MenuShutdown write_ok) = ShutdownMenuStateCap write_ok w"

definition menu_run :: "int \<Rightarrow> menu_event list \<Rightarrow> menu_world" where
  "menu_run low es = foldl menu_step (menu_start low) es"

subsection \<open>The threshold belongs to the user\<close>

text \<open>The value the user has chosen last.\<close>

fun user_low :: "int \<Rightarrow> menu_event list \<Rightarrow> int" where
  "user_low low [] = low"
| "user_low low (UserSetsLow v # es) = user_low v es"
| "user_low low (_ # es) = user_low low es"

text \<open>
  The registry takes the writes, and the user does not choose the forced value itself while the game runs
  (then nothing could tell it from the forced one).
\<close>

fun benign :: "menu_event \<Rightarrow> bool" where
  "benign (MenuUpdate _ _ _ write_ok _) = write_ok"
| "benign (UserSetsLow v) = (v \<noteq> kForcedLow)"
| "benign (MenuShutdown write_ok) = write_ok"

definition cap_inv :: "menu_world \<Rightarrow> int \<Rightarrow> bool" where
  "cap_inv w user \<longleftrightarrow> (let c = mw_controller w in
     cc_logged c \<le> kMaxLoggedTransitions \<and> (cc_forcing c \<longrightarrow> cc_paused c \<and> \<not> cc_stopped c)
     \<and> (if cc_forcing c \<and> cc_wrote c
        then mw_low w = kForcedLow \<and> cc_saved_low c = user \<or> mw_low w = user \<and> user \<noteq> kForcedLow
        else mw_low w = user))"

lemma cap_inv_resync: "mw_controller (hook_resync paused racer_off resync_ok w) = mw_controller w
    \<and> mw_low (hook_resync paused racer_off resync_ok w) = mw_low w"
  by (auto simp: hook_resync_def split: prod.splits option.splits)

lemma cap_inv_observe: "cap_inv w user \<Longrightarrow> NeedsInputs (mw_controller w) paused \<Longrightarrow>
    let r = ObserveCap (mw_controller w) paused \<lparr>ci_guest_vblank_hz = vblank, ci_current_low = mw_low w\<rparr> in
    cap_inv (write_decision True (cd_write_low (snd r)) (w\<lparr>mw_controller := fst r\<rparr>)) user"
  by (cases paused)
    (auto simp: cap_inv_def ObserveCap_def NeedsInputs_def Release_def write_decision_def WriteLow_def Let_def kMaxLoggedTransitions_def split: if_splits)

lemma cap_inv_locked:
  assumes "cap_inv w user"
  shows "cap_inv (hook_locked paused racer_off vblank True resync_ok w) user"
proof -
  let ?w = "hook_resync paused racer_off resync_ok w"
  have "cap_inv ?w user" using assms by (simp only: cap_inv_def cap_inv_resync)
  then show ?thesis using cap_inv_observe [of ?w user paused vblank]
    by (simp add: hook_locked_def Let_def split_beta)
qed

lemma cap_inv_shutdown: "cap_inv w user \<Longrightarrow> cap_inv (ShutdownMenuStateCap True w) user"
  by (auto simp: ShutdownMenuStateCap_def ShutdownCap_def cap_inv_def Let_def Release_def write_decision_def WriteLow_def split: if_splits)

lemma cap_inv_run: "cap_inv w user \<Longrightarrow> list_all benign es \<Longrightarrow> cap_inv (foldl menu_step w es) (user_low user es)"
proof (induction es arbitrary: w user)
  case (Cons e es)
  then show ?case
  proof (cases e)
    case (MenuUpdate paused racer_off vblank write_ok resync_ok)
    then show ?thesis using Cons cap_inv_locked by (cases write_ok) simp_all
  next
    case (UserSetsLow v)
    then have "cap_inv (w\<lparr>mw_low := v\<rparr>) v" using Cons.prems by (auto simp: cap_inv_def Let_def)
    then show ?thesis using Cons UserSetsLow by simp
  next
    case (MenuShutdown write_ok)
    then show ?thesis using Cons cap_inv_shutdown by (cases write_ok) simp_all
  qed
qed simp

text \<open>What the events alone say: whether the last update saw a pause, and whether a shutdown came.\<close>

fun last_pause :: "bool \<Rightarrow> menu_event list \<Rightarrow> bool" where
  "last_pause p [] = p"
| "last_pause p (MenuUpdate paused _ _ _ _ # es) = last_pause paused es"
| "last_pause p (_ # es) = last_pause p es"

fun is_shutdown :: "menu_event \<Rightarrow> bool" where
  "is_shutdown (MenuShutdown _) = True"
| "is_shutdown _ = False"

text \<open>Without any assumption on the registry or the user: the flags of the controller after a run that has seen
  the pause \<open>p\<close> and, if \<open>ended\<close>, a shutdown.\<close>

definition control_ok :: "menu_world \<Rightarrow> bool \<Rightarrow> bool \<Rightarrow> bool" where
  "control_ok w p ended \<longleftrightarrow> (let c = mw_controller w in
     cc_logged c \<le> kMaxLoggedTransitions \<and> cc_stopped c = ended \<and> (\<not> ended \<longrightarrow> cc_paused c = p)
     \<and> (cc_forcing c \<longrightarrow> \<not> ended \<and> p))"

lemma control_write: "control_ok (write_decision ok v w) p ended = control_ok w p ended"
  by (simp add: control_ok_def write_decision_def WriteLow_def split: option.split)

lemma control_observe: "NeedsInputs (mw_controller w) paused \<Longrightarrow> control_ok w p ended \<Longrightarrow>
    control_ok (w\<lparr>mw_controller := fst (ObserveCap (mw_controller w) paused inputs)\<rparr>) paused ended"
  by (auto simp: control_ok_def ObserveCap_def NeedsInputs_def Release_def Let_def kMaxLoggedTransitions_def)

lemma control_locked: "control_ok w p ended \<Longrightarrow> control_ok (hook_locked paused racer_off vblank write_ok resync_ok w) paused ended"
proof -
  assume w: "control_ok w p ended"
  let ?w = "hook_resync paused racer_off resync_ok w"
  have r: "control_ok ?w p ended" using w by (simp only: control_ok_def cap_inv_resync)
  show ?thesis
  proof (cases "NeedsInputs (mw_controller ?w) paused")
    case True
    then show ?thesis using control_observe [OF True r]
      by (simp add: hook_locked_def Let_def control_write split_beta)
  next
    case False
    then have "control_ok ?w paused ended" using r by (auto simp: control_ok_def NeedsInputs_def Let_def)
    then show ?thesis using False by (simp add: hook_locked_def Let_def)
  qed
qed

lemma control_shutdown: "control_ok w p ended \<Longrightarrow> control_ok (ShutdownMenuStateCap write_ok w) p True"
  by (auto simp: ShutdownMenuStateCap_def ShutdownCap_def Release_def Let_def control_write) (auto simp: control_ok_def Let_def)

lemma control_step: "control_ok w p ended \<Longrightarrow>
    control_ok (menu_step w e) (last_pause p [e]) (ended \<or> is_shutdown e)"
  by (cases e) (simp_all add: control_locked control_shutdown, simp add: control_ok_def)

lemma control_run: "control_ok w p ended \<Longrightarrow>
    control_ok (foldl menu_step w es) (last_pause p es) (ended \<or> list_ex is_shutdown es)"
proof (induction es arbitrary: w p ended)
  case (Cons e es)
  have "last_pause (last_pause p [e]) es = last_pause p (e # es)" by (cases e) simp_all
  then show ?case using Cons.IH [OF control_step [OF Cons.prems, of e]] by (simp add: disj_assoc)
qed simp

text \<open>After the shutdown only the user changes the threshold.\<close>

lemma stopped_low: "cc_stopped (mw_controller w) \<Longrightarrow>
    cc_stopped (mw_controller (menu_step w e)) \<and> mw_low (menu_step w e) = user_low (mw_low w) [e]"
  by (cases e) (auto simp: hook_locked_def hook_resync_def NeedsInputs_def ShutdownMenuStateCap_def Let_def)

lemma stopped_low_run: "cc_stopped (mw_controller w) \<Longrightarrow> mw_low (foldl menu_step w es) = user_low (mw_low w) es"
proof (induction es arbitrary: w)
  case (Cons e es)
  have "user_low (user_low (mw_low w) [e]) es = user_low (mw_low w) (e # es)" by (cases e) simp_all
  then show ?case using Cons.IH [of "menu_step w e"] stopped_low [OF Cons.prems, of e] by simp
qed simp

lemma pause_forces:
  assumes "\<not> cc_stopped (mw_controller w)" "\<not> cc_paused (mw_controller w)" "0 < vblank" "0 < mw_low w"
  shows "let v = hook_locked True racer_off vblank True resync_ok w in cc_forcing (mw_controller v) \<and> mw_low v = kForcedLow"
  using assms
  by (simp add: hook_locked_def cap_inv_resync NeedsInputs_def ObserveCap_def Let_def write_decision_def WriteLow_def)

text \<open>C12: the forced UI cap never costs the user their setting. In every run of updates, changes by the user
  and shutdowns, in any order: (1) if the registry takes the writes and the user does not choose the forced value
  itself, the threshold is the value the user chose last, or the forced value while the cap is forced; (2) the
  cap is forced only while the last update saw a pause, and a pause after a run without one forces it if the
  refresh rate and the threshold are known; (3) once a shutdown has come the cap is not forced, whatever
  comes later, and only the user changes the threshold.\<close>

theorem menu_cap_restores_setting:
  "let w = menu_run low es; c = mw_controller w in
     (list_all benign es \<longrightarrow> mw_low w = user_low low es \<or> cc_forcing c \<and> mw_low w = kForcedLow)
     \<and> (cc_forcing c \<longrightarrow> last_pause False es)
     \<and> (\<not> last_pause False es \<and> \<not> list_ex is_shutdown es \<and> 0 < vblank \<and> 0 < mw_low w \<longrightarrow>
          (let v = menu_run low (es @ [MenuUpdate True racer_off vblank True resync_ok]) in
             cc_forcing (mw_controller v) \<and> mw_low v = kForcedLow))
     \<and> (list_ex is_shutdown es \<longrightarrow> \<not> cc_forcing c \<and> mw_low (menu_run low (es @ ds)) = user_low (mw_low w) ds)
     \<and> cc_logged c \<le> kMaxLoggedTransitions"
proof -
  let ?w = "menu_run low es"
  have "control_ok (menu_start low) False False"
    by (simp add: control_ok_def menu_start_def new_controller_def)
  from control_run [OF this, of es] have control: "control_ok ?w (last_pause False es) (list_ex is_shutdown es)"
    by (simp add: menu_run_def)
  have "cap_inv (menu_start low) low" by (simp add: cap_inv_def menu_start_def new_controller_def)
  from cap_inv_run [OF this, of es] have "cap_inv ?w (user_low low es)" if "list_all benign es"
    using that by (simp add: menu_run_def)
  moreover have "mw_low (menu_run low (es @ ds)) = user_low (mw_low ?w) ds" if "list_ex is_shutdown es"
    using stopped_low_run [of ?w ds] control that by (simp add: menu_run_def control_ok_def Let_def)
  moreover have "let v = menu_run low (es @ [MenuUpdate True racer_off vblank True resync_ok]) in
      cc_forcing (mw_controller v) \<and> mw_low v = kForcedLow"
    if "\<not> last_pause False es" "\<not> list_ex is_shutdown es" "0 < vblank" "0 < mw_low ?w"
    using pause_forces [of ?w vblank racer_off resync_ok] control that by (simp add: menu_run_def control_ok_def Let_def)
  ultimately show ?thesis using control
    unfolding control_ok_def cap_inv_def Let_def by (auto split: if_splits)
qed

text \<open>A pause forces the cap, the user changes the threshold meanwhile, and the shutdown finds it again; a
  pause after the shutdown changes nothing.\<close>

theorem menu_cap_restores_setting_witness:
  "mw_low (menu_run 400 [MenuUpdate True 0 240 True True]) = 100000
   \<and> mw_low (menu_run 400 [MenuUpdate True 0 240 True True, MenuShutdown True, MenuUpdate True 0 240 True True]) = 400
   \<and> mw_low (menu_run 400 [MenuUpdate True 0 240 True True, UserSetsLow 500, MenuUpdate False 0 240 True True]) = 500"
proof -
  let ?p = "MenuUpdate True 0 240 True True"
  let ?es = "[?p, UserSetsLow 500, MenuUpdate False 0 240 True True]" and ?fs = "[?p, MenuShutdown True]"
  have "\<not> cc_forcing (mw_controller (menu_run 400 ?es))" "list_all benign ?es" by code_simp+
  with menu_cap_restores_setting [of 400 ?es] have "mw_low (menu_run 400 ?es) = 500" by (simp add: Let_def)
  moreover have "list_ex is_shutdown ?fs" "mw_low (menu_run 400 ?fs) = 400" by code_simp+
  with menu_cap_restores_setting [of 400 ?fs _ _ _ "[?p]"] have "mw_low (menu_run 400 (?fs @ [?p])) = 400"
    by (simp add: Let_def)
  moreover have "mw_low (menu_run 400 [?p]) = 100000"
    using menu_cap_restores_setting [of 400 "[]" 240 0 True] by (simp add: Let_def menu_run_def menu_start_def kForcedLow_def)
  ultimately show ?thesis by simp
qed

subsection \<open>The wheel is resynced on exactly the edges\<close>

text \<open>The observations of the hook before the shutdown.\<close>

fun observations :: "menu_event list \<Rightarrow> (bool \<times> u8) list" where
  "observations [] = []"
| "observations (MenuUpdate paused racer_off _ _ _ # es) = (paused, racer_off) # observations es"
| "observations (UserSetsLow _ # es) = observations es"
| "observations (MenuShutdown _ # es) = []"

definition resync_between :: "bool \<times> u8 \<Rightarrow> bool \<times> u8 \<Rightarrow> string list" where
  "resync_between a b =
     (if fst a \<and> \<not> fst b then [''host:resume''] else if snd a \<noteq> 0 \<and> snd b = 0 then [''host:racer-active''] else [])"

fun resync_edges_of :: "(bool \<times> u8) list \<Rightarrow> string list" where
  "resync_edges_of (a # b # rest) = resync_between a b @ resync_edges_of (b # rest)"
| "resync_edges_of _ = []"

definition seen_of :: "resync_edges \<Rightarrow> (bool \<times> u8) list" where
  "seen_of e = (if re_seen e then [(re_paused e, re_racer_off e)] else [])"

lemma ObserveCap_stopped: "cc_stopped (fst (ObserveCap c paused inputs)) = cc_stopped c"
  by (simp add: ObserveCap_def Release_def Let_def)

lemma write_decision_frame: "mw_controller (write_decision ok v w) = mw_controller w \<and> mw_edges (write_decision ok v w) = mw_edges w
    \<and> mw_resyncs (write_decision ok v w) = mw_resyncs w"
  by (simp add: write_decision_def WriteLow_def split: option.split)

lemma hook_locked_frame:
  "let w' = hook_locked paused racer_off vblank write_ok resync_ok w; r = hook_resync paused racer_off resync_ok w in
     cc_stopped (mw_controller w') = cc_stopped (mw_controller w) \<and> mw_edges w' = mw_edges r \<and> mw_resyncs w' = mw_resyncs r"
  using ObserveCap_stopped [of "mw_controller w" paused]
  by (simp add: hook_locked_def Let_def write_decision_frame cap_inv_resync split: prod.split) (metis fst_conv)

lemma hook_resync_edges: "\<not> cc_stopped (mw_controller w) \<Longrightarrow>
    let r = hook_resync paused racer_off resync_ok w in seen_of (mw_edges r) = [(paused, racer_off)]
      \<and> mw_resyncs r = mw_resyncs w @ resync_edges_of (seen_of (mw_edges w) @ [(paused, racer_off)])"
  by (simp add: hook_resync_def ObserveResync_def Let_def seen_of_def resync_between_def)

lemma hook_resync_step: "\<not> cc_stopped (mw_controller w) \<Longrightarrow>
    let w' = hook_locked paused racer_off vblank write_ok resync_ok w in
      \<not> cc_stopped (mw_controller w') \<and> seen_of (mw_edges w') = [(paused, racer_off)]
      \<and> mw_resyncs w' = mw_resyncs w @ resync_edges_of (seen_of (mw_edges w) @ [(paused, racer_off)])"
  using hook_resync_edges [of w paused racer_off resync_ok] hook_locked_frame [of paused racer_off vblank write_ok resync_ok w]
  by (simp add: Let_def)

lemma stopped_silent: "cc_stopped (mw_controller w) \<Longrightarrow>
    cc_stopped (mw_controller (menu_step w e)) \<and> mw_resyncs (menu_step w e) = mw_resyncs w"
  by (cases e) (auto simp: hook_locked_def hook_resync_def NeedsInputs_def ShutdownMenuStateCap_def Let_def)

lemma stopped_run: "cc_stopped (mw_controller w) \<Longrightarrow> mw_resyncs (foldl menu_step w es) = mw_resyncs w"
  by (induction es arbitrary: w) (auto simp: stopped_silent)

lemma shutdown_stops: "cc_stopped (mw_controller (ShutdownMenuStateCap ok w)) \<and> mw_resyncs (ShutdownMenuStateCap ok w) = mw_resyncs w"
  by (auto simp: ShutdownMenuStateCap_def ShutdownCap_def Release_def Let_def write_decision_def WriteLow_def split: option.splits)

lemma resync_run: "\<not> cc_stopped (mw_controller w) \<Longrightarrow>
    mw_resyncs (foldl menu_step w es) = mw_resyncs w @ resync_edges_of (seen_of (mw_edges w) @ observations es)"
proof (induction es arbitrary: w)
  case Nil
  then show ?case by (simp add: seen_of_def)
next
  case (Cons e es)
  show ?case
  proof (cases e)
    case (MenuUpdate paused racer_off vblank write_ok resync_ok)
    let ?w = "hook_locked paused racer_off vblank write_ok resync_ok w"
    have s: "\<not> cc_stopped (mw_controller ?w)" "seen_of (mw_edges ?w) = [(paused, racer_off)]"
      "mw_resyncs ?w = mw_resyncs w @ resync_edges_of (seen_of (mw_edges w) @ [(paused, racer_off)])"
      using hook_resync_step [OF Cons.prems, of paused racer_off vblank write_ok resync_ok] by (simp_all add: Let_def)
    have "mw_resyncs (foldl menu_step ?w es) = mw_resyncs ?w @ resync_edges_of ((paused, racer_off) # observations es)"
      using Cons.IH [OF s(1)] s(2) by simp
    then show ?thesis using s(3) MenuUpdate by (cases "re_seen (mw_edges w)") (simp_all add: seen_of_def)
  next
    case (UserSetsLow v)
    then show ?thesis using Cons.IH [of "w\<lparr>mw_low := v\<rparr>"] Cons.prems by simp
  next
    case (MenuShutdown ok)
    then show ?thesis using stopped_run [of "ShutdownMenuStateCap ok w" es] shutdown_stops [of ok w] by (simp add: seen_of_def)
  qed
qed

text \<open>The wheel is resynced exactly when it has to be: the reasons passed to the SDK are, in order, those of
  the pairs of neighbouring observations where a pause ends, or else where the racer becomes active again,
  and nothing is asked after the shutdown.\<close>

theorem wheel_resync_exact: "mw_resyncs (menu_run low es) = resync_edges_of (observations es)"
  using resync_run [of "menu_start low" es] by (simp add: menu_run_def menu_start_def new_controller_def new_edges_def seen_of_def)

text \<open>Every load of the racer lies in a span that was found readable just before.\<close>

lemma racer_loads_checked: "list_all (\<lambda>(address, span). GuestReadable g address span) (snd (ReadRacerInputOff g wanted stopped))"
  by (auto simp: ReadRacerInputOff_def Let_def)

end
