(* ===== verification/CursorAutohide.thy ===== *)
theory CursorAutohide
  imports Prelude
begin

section \<open>Cursor autohide (\<open>mcla_cursor_autohide.h\<close>, \<open>mcla_cursor_autohide_sdl.cpp\<close>)\<close>

text \<open>
  The filter that tells deliberate input from noise, the controller that owns a hide, and the adapter
  between any number of threads that see events and the thread of the window. The adapter is a machine
  whose steps are the single accesses to its four atomic variables; the window, its queue of deferred
  calls and the removal of the observer (which returns when no call is in flight) belong to the SDK.
\<close>

subsection \<open>The filter of axis events\<close>

datatype input_activity = NoActivity | PadActivity | MouseActivity
datatype axis_source = GamepadAxis | JoystickAxis

record axis_entry =
  ax_used :: bool
  ax_source :: axis_source
  ax_axis :: u8
  ax_device :: u32
  ax_baseline :: int

definition empty_entry :: axis_entry where
  "empty_entry = \<lparr>ax_used = False, ax_source = GamepadAxis, ax_axis = 0, ax_device = 0, ax_baseline = 0\<rparr>"

definition kAxisActivityDelta :: int where "kAxisActivityDelta = 4096"
definition kAxisCapacity :: nat where "kAxisCapacity = 64"

record pad_filter =
  pf_entries :: "axis_entry list"
  pf_next_slot :: nat

definition new_filter :: pad_filter where
  "new_filter = \<lparr>pf_entries = replicate kAxisCapacity empty_entry, pf_next_slot = 0\<rparr>"

definition OnButtonDown :: input_activity where "OnButtonDown = PadActivity"

definition OnHat :: "u8 \<Rightarrow> input_activity" where
  "OnHat v = (if v \<noteq> 0 then PadActivity else NoActivity)"

type_synonym axis_key = "axis_source \<times> u32 \<times> u8"

definition matches :: "axis_key \<Rightarrow> axis_entry \<Rightarrow> bool" where
  "matches k e \<longleftrightarrow> (case k of (source, device, axis) \<Rightarrow>
     ax_used e \<and> ax_source e = source \<and> ax_device e = device \<and> ax_axis e = axis)"

definition FindAxis :: "pad_filter \<Rightarrow> axis_key \<Rightarrow> nat option" where
  "FindAxis f k = find (\<lambda>i. matches k (pf_entries f ! i)) [0..<length (pf_entries f)]"

text \<open>The baseline is a 16-bit value and the difference is computed in 32 bits, so neither overflows.\<close>

definition OnAxis :: "pad_filter \<Rightarrow> axis_key \<Rightarrow> int \<Rightarrow> pad_filter \<times> input_activity" where
  "OnAxis f k v = (case FindAxis f k of
     None \<Rightarrow> (case k of (source, device, axis) \<Rightarrow>
       (f\<lparr>pf_entries := (pf_entries f)[pf_next_slot f := \<lparr>ax_used = True, ax_source = source, ax_axis = axis,
           ax_device = device, ax_baseline = v\<rparr>],
          pf_next_slot := (pf_next_slot f + 1) mod kAxisCapacity\<rparr>, NoActivity))
   | Some i \<Rightarrow>
       if \<bar>v - ax_baseline (pf_entries f ! i)\<bar> < kAxisActivityDelta then (f, NoActivity)
       else (f\<lparr>pf_entries := (pf_entries f)[i := (pf_entries f ! i)\<lparr>ax_baseline := v\<rparr>]\<rparr>, PadActivity))"

definition OnDeviceRemoved :: "pad_filter \<Rightarrow> u32 \<Rightarrow> pad_filter" where
  "OnDeviceRemoved f device =
     f\<lparr>pf_entries := map (\<lambda>e. if ax_used e \<and> ax_device e = device then empty_entry else e) (pf_entries f)\<rparr>"

text \<open>The events of SDL that the adapter tells apart.\<close>

datatype sdl_event = PadButtonDown | HatMotion u8 | AxisMotion axis_source u32 u8 int | DeviceRemoved u32
  | MouseMotion bool | MouseButtonOrWheel | OtherEvent

fun ClassifyEvent :: "pad_filter \<Rightarrow> sdl_event \<Rightarrow> pad_filter \<times> input_activity" where
  "ClassifyEvent f PadButtonDown = (f, OnButtonDown)"
| "ClassifyEvent f (HatMotion v) = (f, OnHat v)"
| "ClassifyEvent f (AxisMotion source device axis v) = OnAxis f (source, device, axis) v"
| "ClassifyEvent f (DeviceRemoved device) = (OnDeviceRemoved f device, NoActivity)"
| "ClassifyEvent f (MouseMotion moved) = (f, if moved then MouseActivity else NoActivity)"
| "ClassifyEvent f MouseButtonOrWheel = (f, MouseActivity)"
| "ClassifyEvent f OtherEvent = (f, NoActivity)"

subsection \<open>The controller\<close>

datatype cursor_action = NoAction | HideCursor | ShowCursor

record autohide =
  ah_focused :: bool
  ah_hidden :: bool

definition OnPadActivity :: "autohide \<Rightarrow> bool \<Rightarrow> autohide \<times> cursor_action" where
  "OnPadActivity a cursor_free =
     (if \<not> ah_focused a \<or> ah_hidden a \<or> \<not> cursor_free then (a, NoAction) else (a\<lparr>ah_hidden := True\<rparr>, HideCursor))"

definition OnMouseActivity :: "autohide \<Rightarrow> bool \<Rightarrow> autohide \<times> cursor_action" where
  "OnMouseActivity a capture_active =
     (if \<not> ah_hidden a \<or> capture_active then (a, NoAction) else (a\<lparr>ah_hidden := False\<rparr>, ShowCursor))"

definition OnFocusChanged :: "autohide \<Rightarrow> bool \<Rightarrow> autohide \<times> cursor_action" where
  "OnFocusChanged a focused = (let a = a\<lparr>ah_focused := focused\<rparr> in
     if focused \<or> \<not> ah_hidden a then (a, NoAction) else (a\<lparr>ah_hidden := False\<rparr>, ShowCursor))"

definition OnShutdown :: "autohide \<Rightarrow> autohide \<times> cursor_action" where
  "OnShutdown a = (let a = a\<lparr>ah_focused := False\<rparr> in
     if \<not> ah_hidden a then (a, NoAction) else (a\<lparr>ah_hidden := False\<rparr>, ShowCursor))"

subsection \<open>The adapter\<close>

datatype visibility = CursorVisible | CursorHidden | CursorOther
datatype ui_task = DrainTask | ShowTask

text \<open>Where a thread is in \<open>Observe\<close> and \<open>Request\<close>, and where the thread of the window is.\<close>

datatype observer_pc = Idle | PadFocusRead | MouseHiddenRead | StorePending input_activity | ExchangeQueued | PostTask
datatype ui_pc = UiIdle | DrainExchange | DrainAct input_activity | FocusShow

text \<open>
  The last field is for the properties: each visibility the adapter set, with the focus, the capture
  and the visibility it found.
\<close>

record cursor_world =
  cw_installed :: bool
  cw_controller :: autohide
  cw_focused :: bool
  cw_hidden :: bool
  cw_queued :: bool
  cw_pending :: input_activity
  cw_threads :: "observer_pc list"
  cw_ui :: ui_pc
  cw_tasks :: "ui_task list"
  cw_visibility :: visibility
  cw_captured :: bool
  cw_lost_post :: bool
  cw_actions :: "(cursor_action \<times> bool \<times> bool \<times> visibility) list"

definition install :: "bool \<Rightarrow> nat \<Rightarrow> visibility \<Rightarrow> bool \<Rightarrow> cursor_world" where
  "install focused threads v captured = \<lparr>cw_installed = True, cw_controller = \<lparr>ah_focused = focused, ah_hidden = False\<rparr>,
     cw_focused = focused, cw_hidden = False, cw_queued = False, cw_pending = NoActivity,
     cw_threads = replicate threads Idle, cw_ui = UiIdle, cw_tasks = [], cw_visibility = v, cw_captured = captured,
     cw_lost_post = False, cw_actions = []\<rparr>"

definition set_pc :: "nat \<Rightarrow> observer_pc \<Rightarrow> cursor_world \<Rightarrow> cursor_world" where
  "set_pc t pc w = w\<lparr>cw_threads := (cw_threads w)[t := pc]\<rparr>"

text \<open>The first access of \<open>Observe\<close>, after the event has been classified.\<close>

definition observe_begin :: "nat \<Rightarrow> input_activity \<Rightarrow> cursor_world \<Rightarrow> cursor_world" where
  "observe_begin t a w = (case a of
     NoActivity \<Rightarrow> w
   | PadActivity \<Rightarrow> if cw_focused w then set_pc t PadFocusRead w else w
   | MouseActivity \<Rightarrow> if cw_hidden w then set_pc t (StorePending MouseActivity) w else set_pc t MouseHiddenRead w)"

text \<open>The next access of a thread inside \<open>Observe\<close>; \<open>ok\<close> is the answer of the queue of deferred calls.\<close>

definition observe_next :: "nat \<Rightarrow> bool \<Rightarrow> cursor_world \<Rightarrow> cursor_world" where
  "observe_next t ok w = (case cw_threads w ! t of
     Idle \<Rightarrow> w
   | PadFocusRead \<Rightarrow> if \<not> cw_hidden w then set_pc t (StorePending PadActivity) w else set_pc t Idle w
   | MouseHiddenRead \<Rightarrow> if cw_queued w then set_pc t (StorePending MouseActivity) w else set_pc t Idle w
   | StorePending a \<Rightarrow> set_pc t ExchangeQueued (w\<lparr>cw_pending := a\<rparr>)
   | ExchangeQueued \<Rightarrow> if cw_queued w then set_pc t Idle w else set_pc t PostTask (w\<lparr>cw_queued := True\<rparr>)
   | PostTask \<Rightarrow> if ok then set_pc t Idle (w\<lparr>cw_tasks := cw_tasks w @ [DrainTask]\<rparr>)
       else set_pc t Idle (w\<lparr>cw_queued := False, cw_lost_post := True\<rparr>))"

definition set_visibility :: "cursor_action \<Rightarrow> visibility \<Rightarrow> cursor_world \<Rightarrow> cursor_world" where
  "set_visibility action v w = w\<lparr>cw_visibility := v,
     cw_actions := cw_actions w @ [(action, ah_focused (cw_controller w), cw_captured w, cw_visibility w)]\<rparr>"

definition ShowIfStillHidden :: "cursor_world \<Rightarrow> cursor_world" where
  "ShowIfStillHidden w =
     (if cw_visibility w = CursorHidden \<and> \<not> cw_captured w then set_visibility ShowCursor CursorVisible w else w)"

text \<open>The part of \<open>Drain\<close> after the two exchanges, which ends with the store to \<open>hidden_\<close>.\<close>

definition drain_act :: "input_activity \<Rightarrow> cursor_world \<Rightarrow> cursor_world" where
  "drain_act a w =
     (if \<not> cw_installed w then w
      else let captured = cw_captured w;
               w' = (case a of
                   PadActivity \<Rightarrow>
                     (case OnPadActivity (cw_controller w) (\<not> captured \<and> cw_visibility w = CursorVisible) of (c, action) \<Rightarrow>
                        let w = w\<lparr>cw_controller := c\<rparr> in
                        if action = HideCursor then set_visibility HideCursor CursorHidden w else w)
                 | MouseActivity \<Rightarrow>
                     (case OnMouseActivity (cw_controller w) captured of (c, action) \<Rightarrow>
                        let w = w\<lparr>cw_controller := c\<rparr> in if action = ShowCursor then ShowIfStillHidden w else w)
                 | NoActivity \<Rightarrow> w)
           in w'\<lparr>cw_hidden := ah_hidden (cw_controller w')\<rparr>)"

text \<open>The next access of the thread of the window: it goes on with a call, or takes the next deferred one.\<close>

definition ui_next :: "bool \<Rightarrow> cursor_world \<Rightarrow> cursor_world" where
  "ui_next ok w = (case cw_ui w of
     DrainExchange \<Rightarrow> w\<lparr>cw_ui := DrainAct (cw_pending w), cw_pending := NoActivity\<rparr>
   | DrainAct a \<Rightarrow> (drain_act a w)\<lparr>cw_ui := UiIdle\<rparr>
   | FocusShow \<Rightarrow> w\<lparr>cw_ui := UiIdle, cw_hidden := False, cw_tasks := (if ok then cw_tasks w @ [ShowTask] else cw_tasks w)\<rparr>
   | UiIdle \<Rightarrow> (case cw_tasks w of
       [] \<Rightarrow> w
     | DrainTask # ts \<Rightarrow> w\<lparr>cw_tasks := ts, cw_queued := False, cw_ui := DrainExchange\<rparr>
     | ShowTask # ts \<Rightarrow> ShowIfStillHidden (w\<lparr>cw_tasks := ts\<rparr>)))"

definition FocusChanged :: "bool \<Rightarrow> cursor_world \<Rightarrow> cursor_world" where
  "FocusChanged focused w =
     (if \<not> cw_installed w then w
      else case OnFocusChanged (cw_controller w) focused of (c, action) \<Rightarrow>
        w\<lparr>cw_focused := focused, cw_controller := c, cw_ui := (if action = ShowCursor then FocusShow else cw_ui w)\<rparr>)"

definition StopAutohide :: "cursor_world \<Rightarrow> cursor_world" where
  "StopAutohide w =
     (if \<not> cw_installed w then w
      else case OnShutdown (cw_controller w) of (c, action) \<Rightarrow>
        let w = w\<lparr>cw_installed := False, cw_controller := c\<rparr>;
            w = (if action = ShowCursor then ShowIfStillHidden w else w)
        in w\<lparr>cw_hidden := False\<rparr>)"

datatype cursor_event = ObserveBegin nat input_activity | ObserveNext nat bool | UiNext bool
  | UiFocus bool | UiStop | OthersSet visibility bool

text \<open>
  A thread enters the observer only while it is installed; the calls of the window's thread start when it
  is idle; the removal of the observer waits for the threads in it. An event that cannot happen changes nothing.
\<close>

definition cursor_step :: "cursor_world \<Rightarrow> cursor_event \<Rightarrow> cursor_world" where
  "cursor_step w e = (case e of
     ObserveBegin t a \<Rightarrow>
       if t < length (cw_threads w) \<and> cw_threads w ! t = Idle \<and> cw_installed w then observe_begin t a w else w
   | ObserveNext t ok \<Rightarrow> if t < length (cw_threads w) then observe_next t ok w else w
   | UiNext ok \<Rightarrow> ui_next ok w
   | UiFocus focused \<Rightarrow> if cw_ui w = UiIdle then FocusChanged focused w else w
   | UiStop \<Rightarrow> if cw_ui w = UiIdle \<and> list_all (\<lambda>pc. pc = Idle) (cw_threads w) then StopAutohide w else w
   | OthersSet v captured \<Rightarrow> if cw_ui w = UiIdle then w\<lparr>cw_visibility := v, cw_captured := captured\<rparr> else w)"

subsection \<open>The adapter keeps its promises\<close>

definition action_ok :: "cursor_action \<times> bool \<times> bool \<times> visibility \<Rightarrow> bool" where
  "action_ok x \<longleftrightarrow> (case x of (action, focused, captured, v) \<Rightarrow> \<not> captured
     \<and> (action = HideCursor \<and> focused \<and> v = CursorVisible \<or> action = ShowCursor \<and> v = CursorHidden))"

definition count_action :: "cursor_action \<Rightarrow> cursor_world \<Rightarrow> nat" where
  "count_action a w = length (filter (\<lambda>x. fst x = a) (cw_actions w))"

definition owed_shows :: "cursor_world \<Rightarrow> nat" where
  "owed_shows w = (if ah_hidden (cw_controller w) then 1 else 0) + (if cw_ui w = FocusShow then 1 else 0)
     + length (filter (\<lambda>t. t = ShowTask) (cw_tasks w))"

definition owner_inv :: "cursor_world \<Rightarrow> bool" where
  "owner_inv w \<longleftrightarrow> list_all action_ok (cw_actions w)
     \<and> (ah_hidden (cw_controller w) \<longrightarrow> ah_focused (cw_controller w) \<and> cw_installed w \<and> cw_ui w \<noteq> FocusShow)
     \<and> (cw_ui w \<noteq> FocusShow \<longrightarrow> cw_hidden w = ah_hidden (cw_controller w))
     \<and> (cw_installed w \<longrightarrow> cw_focused w = ah_focused (cw_controller w))
     \<and> count_action ShowCursor w + owed_shows w \<le> count_action HideCursor w"

lemma owner_set_pc [simp]: "owner_inv (set_pc t pc w) = owner_inv w"
  by (simp add: owner_inv_def set_pc_def count_action_def owed_shows_def)

lemma owner_frame [simp]:
  "owner_inv (w\<lparr>cw_pending := a\<rparr>) = owner_inv w" "owner_inv (w\<lparr>cw_queued := b\<rparr>) = owner_inv w"
  "owner_inv (w\<lparr>cw_lost_post := b\<rparr>) = owner_inv w" "owner_inv (w\<lparr>cw_tasks := ts @ [DrainTask]\<rparr>) = owner_inv (w\<lparr>cw_tasks := ts\<rparr>)"
  by (simp_all add: owner_inv_def count_action_def owed_shows_def)

lemma owner_observe: "owner_inv w \<Longrightarrow> owner_inv (observe_begin t a w)" "owner_inv w \<Longrightarrow> owner_inv (observe_next t ok w)"
  by (auto simp: observe_begin_def observe_next_def split: input_activity.split observer_pc.split)

lemma owner_show:
  assumes "owner_inv w" "count_action ShowCursor w + owed_shows w < count_action HideCursor w"
  shows "owner_inv (ShowIfStillHidden w)"
  using assms by (auto simp: owner_inv_def ShowIfStillHidden_def set_visibility_def count_action_def owed_shows_def action_ok_def)

lemma ShowIfStillHidden_frame [simp]:
  "cw_controller (ShowIfStillHidden w) = cw_controller w" "cw_ui (ShowIfStillHidden w) = cw_ui w"
  "cw_tasks (ShowIfStillHidden w) = cw_tasks w" "cw_queued (ShowIfStillHidden w) = cw_queued w"
  "cw_threads (ShowIfStillHidden w) = cw_threads w" "cw_pending (ShowIfStillHidden w) = cw_pending w"
  "cw_lost_post (ShowIfStillHidden w) = cw_lost_post w" "cw_installed (ShowIfStillHidden w) = cw_installed w"
  by (simp_all add: ShowIfStillHidden_def set_visibility_def)

lemma owner_drain: "owner_inv w \<Longrightarrow> cw_ui w = DrainAct a \<Longrightarrow> owner_inv ((drain_act a w)\<lparr>cw_ui := UiIdle\<rparr>)"
  by (cases a) (auto simp: owner_inv_def drain_act_def OnPadActivity_def OnMouseActivity_def Let_def set_visibility_def
      ShowIfStillHidden_def count_action_def owed_shows_def action_ok_def)

lemma owner_ui: "owner_inv w \<Longrightarrow> owner_inv (ui_next ok w)"
proof -
  assume w: "owner_inv w"
  show ?thesis
  proof (cases "cw_ui w")
    case (DrainAct a)
    then show ?thesis using owner_drain [OF w DrainAct] by (simp add: ui_next_def)
  next
    case UiIdle
    show ?thesis
    proof (cases "cw_tasks w")
      case (Cons t ts)
      show ?thesis
      proof (cases t)
        case DrainTask
        then show ?thesis using w UiIdle Cons by (simp add: ui_next_def owner_inv_def count_action_def owed_shows_def)
      next
        case ShowTask
        let ?w = "w\<lparr>cw_tasks := ts\<rparr>"
        have "owner_inv ?w" "count_action ShowCursor ?w + owed_shows ?w < count_action HideCursor ?w"
          using w UiIdle Cons ShowTask by (auto simp: owner_inv_def count_action_def owed_shows_def)
        from owner_show [OF this] show ?thesis using UiIdle Cons ShowTask by (simp add: ui_next_def)
      qed
    qed (use w UiIdle in \<open>simp add: ui_next_def\<close>)
  next
    case FocusShow
    then show ?thesis using w by (auto simp: ui_next_def owner_inv_def count_action_def owed_shows_def)
  qed (use w in \<open>simp add: ui_next_def owner_inv_def count_action_def owed_shows_def\<close>)
qed

lemma owner_focus: "owner_inv w \<Longrightarrow> cw_ui w = UiIdle \<Longrightarrow> owner_inv (FocusChanged b w)"
  by (auto simp: FocusChanged_def OnFocusChanged_def Let_def owner_inv_def count_action_def owed_shows_def split: if_splits)

lemma owner_stop: "owner_inv w \<Longrightarrow> cw_ui w = UiIdle \<Longrightarrow> owner_inv (StopAutohide w)"
  by (auto simp: StopAutohide_def OnShutdown_def Let_def owner_inv_def ShowIfStillHidden_def set_visibility_def
      count_action_def owed_shows_def action_ok_def)

lemma owner_step: "owner_inv w \<Longrightarrow> owner_inv (cursor_step w e)"
proof (cases e)
  case (OthersSet v c)
  assume "owner_inv w"
  then show ?thesis using OthersSet by (simp add: cursor_step_def owner_inv_def count_action_def owed_shows_def)
qed (simp_all add: cursor_step_def owner_observe owner_ui owner_focus owner_stop)

interpretation owner: machine cursor_step owner_inv
  by unfold_locales (rule owner_step)

lemma owner_install: "owner_inv (install focused n v captured)"
  by (simp add: owner_inv_def install_def count_action_def owed_shows_def)

text \<open>C9: the autohide never fights another owner of the cursor: in every interleaving of the event threads,
  the window's thread and the other owners, each hide happens while the window has the focus, the mouse is
  not captured and the cursor is visible, each show while it is hidden and not captured; there are never
  more shows than hides; and no hide is owned without the focus or after the shutdown.\<close>

theorem cursor_owner_safe:
  "let w = run_events cursor_step (install focused n v captured) es; c = cw_controller w in
     list_all action_ok (cw_actions w) \<and> count_action ShowCursor w \<le> count_action HideCursor w
     \<and> \<not> (ah_hidden c \<and> \<not> (ah_focused c \<and> cw_installed w))"
  using owner.inv_run [OF owner_install, of focused n v captured es] by (auto simp: Let_def owner_inv_def)

subsection \<open>No input is lost\<close>

definition queue_inv :: "cursor_world \<Rightarrow> bool" where
  "queue_inv w \<longleftrightarrow>
     length (filter (\<lambda>pc. pc = PostTask) (cw_threads w)) + length (filter (\<lambda>t. t = DrainTask) (cw_tasks w))
       = (if cw_queued w then 1 else 0)
     \<and> (cw_pending w = NoActivity \<or> cw_queued w \<or> ExchangeQueued \<in> set (cw_threads w) \<or> cw_ui w = DrainExchange \<or> cw_lost_post w)"

lemma filter_pc: "t < length pcs \<Longrightarrow> length (filter (\<lambda>pc. pc = PostTask) (pcs[t := pc])) + (if pcs ! t = PostTask then 1 else 0)
    = length (filter (\<lambda>pc. pc = PostTask) pcs) + (if pc = PostTask then 1 else 0)"
  by (rule length_filter_update)

lemma member_update: "t < length pcs \<Longrightarrow> pcs ! t \<noteq> x \<Longrightarrow> x \<in> set pcs \<Longrightarrow> x \<in> set (pcs[t := pc])"
  by (metis in_set_conv_nth length_list_update nth_list_update_neq)

lemma queue_move:
  assumes "queue_inv w" "t < length (cw_threads w)" "cw_threads w ! t \<noteq> PostTask" "pc \<noteq> PostTask"
    and "cw_threads w ! t \<noteq> ExchangeQueued \<or> cw_queued w"
  shows "queue_inv (set_pc t pc w)"
  using assms filter_pc [OF assms(2), of pc] member_update [OF assms(2), of ExchangeQueued pc]
  by (auto simp: queue_inv_def set_pc_def)

lemma queue_begin: "queue_inv w \<Longrightarrow> t < length (cw_threads w) \<Longrightarrow> cw_threads w ! t = Idle \<Longrightarrow> queue_inv (observe_begin t a w)"
  by (auto simp: observe_begin_def queue_move split: input_activity.split)

lemma queue_next:
  assumes "queue_inv w" "t < length (cw_threads w)"
  shows "queue_inv (observe_next t ok w)"
proof (cases "cw_threads w ! t")
  case (StorePending a)
  have "ExchangeQueued \<in> set ((cw_threads w)[t := ExchangeQueued])" using assms(2) by (simp add: set_update_memI)
  then show ?thesis using assms StorePending filter_pc [OF assms(2), of ExchangeQueued]
    by (auto simp: observe_next_def queue_inv_def set_pc_def)
next
  case ExchangeQueued
  then show ?thesis using assms filter_pc [OF assms(2), of PostTask] queue_move [OF assms, of Idle]
    by (auto simp: observe_next_def queue_inv_def set_pc_def)
next
  case PostTask
  let ?n = "length (filter (\<lambda>pc. pc = PostTask) (cw_threads w))" and ?m = "length (filter (\<lambda>t. t = DrainTask) (cw_tasks w))"
    and ?k = "length (filter (\<lambda>pc. pc = PostTask) ((cw_threads w)[t := Idle]))"
  have n: "?n + ?m = (if cw_queued w then 1 else 0)" "?k + 1 = ?n"
    using assms(1) PostTask filter_pc [OF assms(2), of Idle] by (simp_all add: queue_inv_def)
  then have q: "cw_queued w" by (cases "cw_queued w") simp_all
  with n(1) have "?n + ?m = 1" by (simp only: if_True)
  with n(2) have "?k = 0" "?m = 0" by linarith+
  with q have q: "cw_queued w" "filter (\<lambda>pc. pc = PostTask) ((cw_threads w)[t := Idle]) = []" "filter (\<lambda>t. t = DrainTask) (cw_tasks w) = []"
    by simp_all
  then show ?thesis using assms(1) PostTask by (simp add: observe_next_def queue_inv_def set_pc_def)
qed (use assms queue_move in \<open>auto simp: observe_next_def\<close>)

lemma drain_act_frame [simp]:
  "cw_tasks (drain_act a w) = cw_tasks w" "cw_queued (drain_act a w) = cw_queued w" "cw_threads (drain_act a w) = cw_threads w"
  "cw_pending (drain_act a w) = cw_pending w" "cw_lost_post (drain_act a w) = cw_lost_post w"
  by (simp_all add: drain_act_def set_visibility_def Let_def split: input_activity.split prod.split)

lemma queue_ui: "queue_inv w \<Longrightarrow> queue_inv (ui_next ok w)"
  by (auto simp: ui_next_def queue_inv_def split: ui_pc.splits list.splits ui_task.splits if_splits)

lemma queue_step: "queue_inv w \<Longrightarrow> queue_inv (cursor_step w e)"
proof (cases e)
  case (UiFocus b)
  assume "queue_inv w"
  then show ?thesis using UiFocus by (auto simp: cursor_step_def FocusChanged_def queue_inv_def split: prod.split)
next
  case UiStop
  assume "queue_inv w"
  moreover have "cw_threads (StopAutohide w) = cw_threads w" "cw_tasks (StopAutohide w) = cw_tasks w"
    "cw_queued (StopAutohide w) = cw_queued w" "cw_pending (StopAutohide w) = cw_pending w"
    "cw_lost_post (StopAutohide w) = cw_lost_post w" "cw_ui (StopAutohide w) = cw_ui w"
    by (simp_all add: StopAutohide_def Let_def split: prod.split)
  ultimately have "queue_inv (StopAutohide w)" by (simp add: queue_inv_def)
  then show ?thesis using UiStop \<open>queue_inv w\<close> by (simp add: cursor_step_def)
next
  case (OthersSet v c)
  assume "queue_inv w"
  then show ?thesis using OthersSet by (auto simp: cursor_step_def queue_inv_def)
qed (simp_all add: cursor_step_def queue_begin queue_next queue_ui)

interpretation queue: machine cursor_step queue_inv
  by unfold_locales (rule queue_step)

lemma queue_install: "queue_inv (install focused n v captured)"
  by (simp add: queue_inv_def install_def)

definition at_rest :: "cursor_world \<Rightarrow> bool" where
  "at_rest w \<longleftrightarrow> list_all (\<lambda>pc. pc = Idle) (cw_threads w) \<and> cw_tasks w = [] \<and> cw_ui w = UiIdle"

text \<open>C10: no input is lost between the threads: when no thread is in the observer and the window's thread has
  run its deferred calls, no activity is left behind unless the queue refused a call, no call is
  believed to be on its way, and the mirrors the event threads read agree with the controller.\<close>

theorem cursor_input_handled:
  assumes "w = run_events cursor_step (install focused n v captured) es" "at_rest w"
  shows "(cw_pending w = NoActivity \<or> cw_lost_post w) \<and> \<not> cw_queued w \<and> cw_hidden w = ah_hidden (cw_controller w)
    \<and> (if cw_installed w then cw_focused w = ah_focused (cw_controller w) else \<not> cw_hidden w)"
proof -
  have "queue_inv w" "owner_inv w"
    using queue.inv_run [OF queue_install] owner.inv_run [OF owner_install] assms(1) by simp_all
  moreover have "length (filter (\<lambda>pc. pc = PostTask) (cw_threads w)) = 0" "ExchangeQueued \<notin> set (cw_threads w)"
    using assms(2) by (auto simp: at_rest_def list_all_iff filter_empty_conv)
  ultimately show ?thesis using assms(2) by (auto simp: queue_inv_def owner_inv_def at_rest_def split: if_splits)
qed

text \<open>Two threads: a pad press whose hide is overtaken by the mouse before the window's thread runs.\<close>

definition overtaken :: "cursor_event list" where
  "overtaken = [ObserveBegin 0 PadActivity, ObserveNext 0 True, ObserveNext 0 True, ObserveNext 0 True, ObserveBegin 1 MouseActivity,
     ObserveNext 1 True, ObserveNext 0 True, ObserveNext 1 True, ObserveNext 1 True, UiNext True, UiNext True, UiNext True]"

theorem cursor_input_handled_witness:
  "let w = run_events cursor_step (install True 2 CursorVisible False) overtaken in
     at_rest w \<and> cw_pending w = NoActivity \<and> cw_actions w = []"
proof -
  let ?w = "run_events cursor_step (install True 2 CursorVisible False) overtaken"
  have r: "at_rest ?w" "\<not> cw_lost_post ?w" "cw_actions ?w = []" by code_simp+
  from cursor_input_handled [OF refl r(1)] r show ?thesis by (simp only: Let_def simp_thms)
qed

subsection \<open>The filter is a map of baselines\<close>

text \<open>The reference has no table: one baseline for each axis of each device that has moved.\<close>

fun ref_classify :: "(axis_key \<Rightarrow> int option) \<Rightarrow> sdl_event \<Rightarrow> (axis_key \<Rightarrow> int option) \<times> input_activity" where
  "ref_classify m (AxisMotion source device axis v) = (case m (source, device, axis) of
     None \<Rightarrow> (m((source, device, axis) \<mapsto> v), NoActivity)
   | Some b \<Rightarrow> if \<bar>v - b\<bar> < kAxisActivityDelta then (m, NoActivity) else (m((source, device, axis) \<mapsto> v), PadActivity))"
| "ref_classify m (DeviceRemoved device) = ((\<lambda>k. if fst (snd k) = device then None else m k), NoActivity)"
| "ref_classify m e = (m, snd (ClassifyEvent new_filter e))"

fun filter_run :: "pad_filter \<Rightarrow> sdl_event list \<Rightarrow> input_activity list" where
  "filter_run f [] = []"
| "filter_run f (e # es) = (case ClassifyEvent f e of (f', a) \<Rightarrow> a # filter_run f' es)"

fun ref_run :: "(axis_key \<Rightarrow> int option) \<Rightarrow> sdl_event list \<Rightarrow> input_activity list" where
  "ref_run m [] = []"
| "ref_run m (e # es) = (case ref_classify m e of (m', a) \<Rightarrow> a # ref_run m' es)"

text \<open>How often an axis is seen for the first time (again, after its device was removed).\<close>

fun seeds :: "(axis_key \<Rightarrow> int option) \<Rightarrow> sdl_event list \<Rightarrow> nat" where
  "seeds m [] = 0"
| "seeds m (e # es) = (case e of AxisMotion source device axis v \<Rightarrow> if m (source, device, axis) = None then 1 else 0 | _ \<Rightarrow> 0)
     + seeds (fst (ref_classify m e)) es"

definition entry_key :: "axis_entry \<Rightarrow> axis_key" where
  "entry_key e = (ax_source e, ax_device e, ax_axis e)"

lemma matches_key: "matches k e \<longleftrightarrow> ax_used e \<and> entry_key e = k"
  by (auto simp: matches_def entry_key_def split: prod.split)

definition tracks :: "(axis_key \<Rightarrow> int option) \<Rightarrow> nat \<Rightarrow> pad_filter \<Rightarrow> bool" where
  "tracks m n f \<longleftrightarrow> length (pf_entries f) = kAxisCapacity \<and> n \<le> kAxisCapacity \<and> pf_next_slot f = n mod kAxisCapacity
     \<and> (\<forall>i < kAxisCapacity. ax_used (pf_entries f ! i) \<longrightarrow> i < n \<and> m (entry_key (pf_entries f ! i)) = Some (ax_baseline (pf_entries f ! i)))
     \<and> (\<forall>i < kAxisCapacity. \<forall>j < kAxisCapacity. ax_used (pf_entries f ! i) \<and> ax_used (pf_entries f ! j)
          \<and> entry_key (pf_entries f ! i) = entry_key (pf_entries f ! j) \<longrightarrow> i = j)
     \<and> (\<forall>k. m k \<noteq> None \<longrightarrow> (\<exists>i < kAxisCapacity. ax_used (pf_entries f ! i) \<and> entry_key (pf_entries f ! i) = k))"

lemma tracksI:
  assumes "length (pf_entries f) = kAxisCapacity" "n \<le> kAxisCapacity" "pf_next_slot f = n mod kAxisCapacity"
    and "\<And>i. i < kAxisCapacity \<Longrightarrow> ax_used (pf_entries f ! i) \<Longrightarrow>
      i < n \<and> m (entry_key (pf_entries f ! i)) = Some (ax_baseline (pf_entries f ! i))"
    and "\<And>i j. i < kAxisCapacity \<Longrightarrow> j < kAxisCapacity \<Longrightarrow> ax_used (pf_entries f ! i) \<Longrightarrow> ax_used (pf_entries f ! j)
      \<Longrightarrow> entry_key (pf_entries f ! i) = entry_key (pf_entries f ! j) \<Longrightarrow> i = j"
    and "\<And>k. m k \<noteq> None \<Longrightarrow> \<exists>i < kAxisCapacity. ax_used (pf_entries f ! i) \<and> entry_key (pf_entries f ! i) = k"
  shows "tracks m n f"
  using assms unfolding tracks_def by blast

lemma tracksD:
  assumes "tracks m n f"
  shows "length (pf_entries f) = kAxisCapacity" "n \<le> kAxisCapacity" "pf_next_slot f = n mod kAxisCapacity"
    and "i < kAxisCapacity \<Longrightarrow> ax_used (pf_entries f ! i) \<Longrightarrow> i < n"
    and "i < kAxisCapacity \<Longrightarrow> ax_used (pf_entries f ! i) \<Longrightarrow> m (entry_key (pf_entries f ! i)) = Some (ax_baseline (pf_entries f ! i))"
    and "i < kAxisCapacity \<Longrightarrow> j < kAxisCapacity \<Longrightarrow> ax_used (pf_entries f ! i) \<Longrightarrow> ax_used (pf_entries f ! j)
      \<Longrightarrow> entry_key (pf_entries f ! i) = entry_key (pf_entries f ! j) \<Longrightarrow> i = j"
    and "m k \<noteq> None \<Longrightarrow> \<exists>i < kAxisCapacity. ax_used (pf_entries f ! i) \<and> entry_key (pf_entries f ! i) = k"
  using assms unfolding tracks_def by blast+

lemma FindAxis_None: "tracks m n f \<Longrightarrow> FindAxis f k = None \<longleftrightarrow> m k = None"
proof -
  assume h: "tracks m n f"
  have "FindAxis f k = None \<longleftrightarrow> \<not> (\<exists>i < kAxisCapacity. ax_used (pf_entries f ! i) \<and> entry_key (pf_entries f ! i) = k)"
    using h by (auto simp: FindAxis_def find_None_iff matches_key tracks_def)
  also have "\<dots> \<longleftrightarrow> m k = None" using h unfolding tracks_def by (metis option.distinct(1))
  finally show ?thesis .
qed

lemma FindAxis_Some: "tracks m n f \<Longrightarrow> FindAxis f k = Some i \<Longrightarrow>
    i < kAxisCapacity \<and> ax_used (pf_entries f ! i) \<and> entry_key (pf_entries f ! i) = k \<and> m k = Some (ax_baseline (pf_entries f ! i))"
  by (auto simp: FindAxis_def find_Some_iff matches_key tracks_def)

lemma tracks_new: "tracks (\<lambda>_. None) 0 new_filter"
  by (simp add: tracks_def new_filter_def empty_entry_def kAxisCapacity_def)

lemma tracks_update:
  assumes h: "tracks m n f" and i: "i < kAxisCapacity" "ax_used (pf_entries f ! i)" "entry_key (pf_entries f ! i) = k"
  shows "tracks (m(k \<mapsto> v)) n (f\<lparr>pf_entries := (pf_entries f)[i := (pf_entries f ! i)\<lparr>ax_baseline := v\<rparr>]\<rparr>)" (is "tracks _ _ ?f")
proof (rule tracksI)
  have e: "ax_used (pf_entries ?f ! j) = ax_used (pf_entries f ! j)" "entry_key (pf_entries ?f ! j) = entry_key (pf_entries f ! j)"
    "ax_baseline (pf_entries ?f ! j) = (if j = i then v else ax_baseline (pf_entries f ! j))" for j
    using i(1) tracksD(1) [OF h] by (cases "j = i"; simp add: entry_key_def)+
  show "j < n \<and> (m(k \<mapsto> v)) (entry_key (pf_entries ?f ! j)) = Some (ax_baseline (pf_entries ?f ! j))"
    if "j < kAxisCapacity" "ax_used (pf_entries ?f ! j)" for j
    using that tracksD(4,5,6) [OF h] i unfolding e by (cases "j = i") auto
  show "j = l" if "j < kAxisCapacity" "l < kAxisCapacity" "ax_used (pf_entries ?f ! j)" "ax_used (pf_entries ?f ! l)"
      "entry_key (pf_entries ?f ! j) = entry_key (pf_entries ?f ! l)" for j l
    using that tracksD(6) [OF h] unfolding e by blast
  show "\<exists>j < kAxisCapacity. ax_used (pf_entries ?f ! j) \<and> entry_key (pf_entries ?f ! j) = k'" if "(m(k \<mapsto> v)) k' \<noteq> None" for k'
    using that tracksD(7) [OF h, of k'] i unfolding e by (cases "k' = k") auto
qed (use tracksD(1-3) [OF h] in simp_all)

lemma tracks_seed:
  assumes h: "tracks m n f" and n: "n < kAxisCapacity" and k: "m k = None" and e: "ax_used e" "entry_key e = k" "ax_baseline e = v"
  shows "tracks (m(k \<mapsto> v)) (n + 1) (f\<lparr>pf_entries := (pf_entries f)[pf_next_slot f := e], pf_next_slot := (pf_next_slot f + 1) mod kAxisCapacity\<rparr>)"
    (is "tracks _ _ ?f")
proof (rule tracksI)
  have slot: "pf_next_slot f = n" "length (pf_entries f) = kAxisCapacity" using tracksD(1,3) [OF h] n by simp_all
  have E: "pf_entries ?f ! j = (if j = n then e else pf_entries f ! j)" for j
    using slot n by simp
  have fresh: "entry_key (pf_entries f ! j) \<noteq> k" "j < n" if "j < kAxisCapacity" "ax_used (pf_entries f ! j)" for j
    using tracksD(4,5) [OF h that] k by auto
  show "j < n + 1 \<and> (m(k \<mapsto> v)) (entry_key (pf_entries ?f ! j)) = Some (ax_baseline (pf_entries ?f ! j))"
    if "j < kAxisCapacity" "ax_used (pf_entries ?f ! j)" for j
    using that tracksD(5) [OF h] fresh [of j] e unfolding E by (cases "j = n") auto
  show "j = l" if "j < kAxisCapacity" "l < kAxisCapacity" "ax_used (pf_entries ?f ! j)" "ax_used (pf_entries ?f ! l)"
      "entry_key (pf_entries ?f ! j) = entry_key (pf_entries ?f ! l)" for j l
    using that tracksD(6) [OF h, of j l] fresh [of j] fresh [of l] e unfolding E by (cases "j = n"; cases "l = n") auto
  show "\<exists>j < kAxisCapacity. ax_used (pf_entries ?f ! j) \<and> entry_key (pf_entries ?f ! j) = k'" if "(m(k \<mapsto> v)) k' \<noteq> None" for k'
  proof (cases "k' = k")
    case True
    then show ?thesis using n e unfolding E by (intro exI [of _ n]) simp
  next
    case False
    then have "m k' \<noteq> None" using that by simp
    then obtain j where "j < kAxisCapacity" "ax_used (pf_entries f ! j)" "entry_key (pf_entries f ! j) = k'"
      using tracksD(7) [OF h] by blast
    then show ?thesis using fresh(2) [of j] unfolding E by (intro exI [of _ j]) auto
  qed
  show "pf_next_slot ?f = (n + 1) mod kAxisCapacity" using slot by simp
qed (use tracksD(1,2) [OF h] n in simp_all)

lemma tracks_removed:
  assumes h: "tracks m n f"
  shows "tracks (\<lambda>k. if fst (snd k) = device then None else m k) n (OnDeviceRemoved f device)" (is "tracks ?m _ ?f")
proof (rule tracksI)
  have len: "length (pf_entries f) = kAxisCapacity" using tracksD(1) [OF h] .
  have e: "ax_used (pf_entries f ! j) \<and> ax_device (pf_entries f ! j) \<noteq> device \<and> pf_entries ?f ! j = pf_entries f ! j"
    if "j < kAxisCapacity" "ax_used (pf_entries ?f ! j)" for j
    using that len by (auto simp: OnDeviceRemoved_def empty_entry_def split: if_splits)
  have kept: "pf_entries ?f ! j = pf_entries f ! j" if "j < kAxisCapacity" "ax_device (pf_entries f ! j) \<noteq> device" for j
    using that len by (simp add: OnDeviceRemoved_def)
  have k: "fst (snd (entry_key x)) = ax_device x" for x by (simp add: entry_key_def)
  show "j < n \<and> ?m (entry_key (pf_entries ?f ! j)) = Some (ax_baseline (pf_entries ?f ! j))"
    if "j < kAxisCapacity" "ax_used (pf_entries ?f ! j)" for j
    using e [OF that] tracksD(4,5) [OF h, of j] that(1) by (simp add: k)
  show "j = l" if "j < kAxisCapacity" "l < kAxisCapacity" "ax_used (pf_entries ?f ! j)" "ax_used (pf_entries ?f ! l)"
      "entry_key (pf_entries ?f ! j) = entry_key (pf_entries ?f ! l)" for j l
    using e [OF that(1,3)] e [OF that(2,4)] tracksD(6) [OF h that(1,2)] that(5) by simp
  show "\<exists>j < kAxisCapacity. ax_used (pf_entries ?f ! j) \<and> entry_key (pf_entries ?f ! j) = k'" if "?m k' \<noteq> None" for k'
  proof -
    have "fst (snd k') \<noteq> device" "m k' \<noteq> None" using that by (auto split: if_splits)
    then obtain j where "j < kAxisCapacity" "ax_used (pf_entries f ! j)" "entry_key (pf_entries f ! j) = k'"
      using tracksD(7) [OF h] by blast
    then show ?thesis using kept [of j] k [of "pf_entries f ! j"] \<open>fst (snd k') \<noteq> device\<close> by (intro exI [of _ j]) auto
  qed
qed (use tracksD(1-3) [OF h] in \<open>simp_all add: OnDeviceRemoved_def\<close>)

lemma classify_step:
  assumes "tracks m n f" "n + seeds m [e] \<le> kAxisCapacity"
  shows "snd (ClassifyEvent f e) = snd (ref_classify m e) \<and> tracks (fst (ref_classify m e)) (n + seeds m [e]) (fst (ClassifyEvent f e))"
proof (cases e)
  case (AxisMotion source device axis v)
  let ?k = "(source, device, axis)"
  show ?thesis
  proof (cases "FindAxis f ?k")
    case None
    then have "m ?k = None" using FindAxis_None [OF assms(1)] by simp
    with None tracks_seed [OF assms(1) _ this, of "\<lparr>ax_used = True, ax_source = source, ax_axis = axis, ax_device = device, ax_baseline = v\<rparr>" v]
    show ?thesis using assms(2) AxisMotion by (simp add: OnAxis_def entry_key_def)
  next
    case (Some i)
    note i = FindAxis_Some [OF assms(1) Some]
    then show ?thesis using tracks_update [OF assms(1), of i ?k v] assms(1) AxisMotion Some by (simp add: OnAxis_def)
  qed
next
  case (DeviceRemoved device)
  then show ?thesis using tracks_removed [OF assms(1)] by simp
qed (use assms(1) in simp_all)

lemma filter_simulates: "tracks m n f \<Longrightarrow> n + seeds m es \<le> kAxisCapacity \<Longrightarrow> filter_run f es = ref_run m es"
proof (induction es arbitrary: m n f)
  case (Cons e es)
  have "n + seeds m [e] \<le> kAxisCapacity" using Cons.prems(2) by simp
  from classify_step [OF Cons.prems(1) this] Cons.IH [of "fst (ref_classify m e)" "n + seeds m [e]" "fst (ClassifyEvent f e)"]
  show ?case using Cons.prems(2) by (simp add: split_beta)
qed simp

text \<open>C11: the fixed table of 64 baselines with its ring of slots gives the same verdicts as one baseline for each
  axis of each device, for every sequence of events in which at most 64 axes are seen for the first time.\<close>

theorem filter_refines_baselines:
  assumes "seeds (\<lambda>_. None) es \<le> kAxisCapacity"
  shows "filter_run new_filter es = ref_run (\<lambda>_. None) es"
  using filter_simulates [OF tracks_new] assms by simp

text \<open>A wheel at rest at one end, noise, a deliberate turn, a drift, and the removal of the device.\<close>

theorem filter_refines_baselines_witness:
  "filter_run new_filter [AxisMotion JoystickAxis 3 0 (- 32768), AxisMotion JoystickAxis 3 0 (- 28673), AxisMotion JoystickAxis 3 0 (- 28672),
     AxisMotion JoystickAxis 3 0 (- 32767), DeviceRemoved 3, AxisMotion JoystickAxis 3 0 100] =
   [NoActivity, NoActivity, PadActivity, NoActivity, NoActivity, NoActivity]"
  by (subst filter_refines_baselines) (simp_all add: kAxisActivityDelta_def kAxisCapacity_def)

end
