(* ===== verification/AdapterPolicy.thy ===== *)
theory AdapterPolicy
  imports TextLines
begin

section \<open>Adapter and profile choices of the launcher (\<open>mcla_portable_adapter_policy.h\<close>)\<close>

text \<open>
  The exact choice of a graphics adapter by name, and the check of the flat configuration subset that
  keeps the file from overriding what the launcher manages. Errors are the texts of the code.
\<close>

subsection \<open>Names\<close>

definition ValidLocalProfileName :: "string \<Rightarrow> bool" where
  "ValidLocalProfileName name \<longleftrightarrow>
     (if name = [] \<or> length name > 15 \<or> hd name = CHR '' '' \<or> List.last name = CHR '' '' then False
      else list_all (\<lambda>c. (CHR ''A'' \<le> c \<and> c \<le> CHR ''Z'') \<or> (CHR ''a'' \<le> c \<and> c \<le> CHR ''z'')
        \<or> (CHR ''0'' \<le> c \<and> c \<le> CHR ''9'') \<or> c = CHR '' '' \<or> c = CHR ''_'' \<or> c = CHR ''-'') name)"

record adapter_candidate =
  ad_index :: u32
  ad_name :: u16string
  ad_d3d12_capable :: bool

definition ValidAdapterName :: "u16string \<Rightarrow> bool" where
  "ValidAdapterName name \<longleftrightarrow>
     (if name = [] \<or> length name > 127 then False else list_all (\<lambda>c. \<not> (c < 0x20 \<or> c = 0x7F)) name)"

fun select_loop :: "u16string \<Rightarrow> u32 option \<Rightarrow> adapter_candidate list \<Rightarrow> string + u32 option" where
  "select_loop name selected [] = Inr selected"
| "select_loop name selected (a # as) =
     (if ad_name a = name \<and> ad_d3d12_capable a then
        (if selected \<noteq> None then Inl ''adapter name is ambiguous among D3D12-capable DXGI adapters''
         else select_loop name (Some (ad_index a)) as)
      else select_loop name selected as)"

definition SelectExactAdapter :: "adapter_candidate list \<Rightarrow> u16string \<Rightarrow> string + u32" where
  "SelectExactAdapter adapters name =
     (if \<not> ValidAdapterName name then Inl ''adapter name must be a nonempty bounded exact DXGI description''
      else bindE (select_loop name None adapters) (\<lambda>selected. case selected of
        None \<Rightarrow> Inl ''exact named D3D12-capable adapter is unavailable; no fallback''
      | Some i \<Rightarrow> Inr i))"

definition CompatibleNamedBackend :: "u16string \<Rightarrow> bool" where
  "CompatibleNamedBackend backend \<longleftrightarrow> backend = [] \<or> backend = u16lit ''d3d12''"

subsection \<open>The flat configuration\<close>

definition config_space :: "char \<Rightarrow> bool" where
  "config_space c \<longleftrightarrow> c = CHR '' '' \<or> c = CHR 0x09 \<or> c = CHR 0x0D"

definition TrimGpuConfigSpace :: "string \<Rightarrow> string" where
  "TrimGpuConfigSpace s = rev (dropWhile config_space (rev (dropWhile config_space s)))"

definition key_char :: "char \<Rightarrow> bool" where
  "key_char c \<longleftrightarrow> (CHR ''a'' \<le> c \<and> c \<le> CHR ''z'') \<or> (CHR ''A'' \<le> c \<and> c \<le> CHR ''Z'')
     \<or> (CHR ''0'' \<le> c \<and> c \<le> CHR ''9'') \<or> c = CHR ''_'' \<or> c = CHR ''-''"

definition scalar_char :: "char \<Rightarrow> bool" where
  "scalar_char c \<longleftrightarrow> (CHR ''a'' \<le> c \<and> c \<le> CHR ''z'') \<or> (CHR ''A'' \<le> c \<and> c \<le> CHR ''Z'')
     \<or> (CHR ''0'' \<le> c \<and> c \<le> CHR ''9'') \<or> c = CHR ''_'' \<or> c = CHR ''+'' \<or> c = CHR ''-'' \<or> c = CHR ''.''"

text \<open>The loop over a quoted value, from the character after the quote: the text after the closing one.\<close>

fun scan_quoted :: "char \<Rightarrow> string \<Rightarrow> string option" where
  "scan_quoted q [] = None"
| "scan_quoted q (c # cs) =
     (if byte c < 0x20 then None
      else if c = q then Some cs
      else if q = CHR 0x22 \<and> c = CHR 0x5C then
        (case cs of [] \<Rightarrow> None | d # ds \<Rightarrow> if byte d < 0x20 then None else scan_quoted q ds)
      else scan_quoted q cs)"

definition check_value :: "string \<Rightarrow> string + unit" where
  "check_value value =
     (if value = [] then Inl ''empty scalar config value''
      else if hd value = CHR 0x22 \<or> hd value = CHR 0x27 then
        (case scan_quoted (hd value) (tl value) of
           None \<Rightarrow> Inl ''explicit GPU selection forbids multiline/compound strings''
         | Some rest \<Rightarrow>
             let tail = TrimGpuConfigSpace rest in
             if tail \<noteq> [] \<and> hd tail \<noteq> CHR ''#'' then Inl ''explicit GPU selection forbids multiline/compound strings''
             else Inr ())
      else let value = TrimGpuConfigSpace (fst (split_at (CHR ''#'') value)) in
        if value = [] then Inl ''missing scalar config value''
        else guardE (list_all scalar_char value) ''explicit GPU selection requires single-line scalar values'')"

text \<open>Which keys the launcher manages for this start.\<close>

record managed =
  mg_named_adapter :: bool
  mg_profile :: bool
  mg_gpu :: bool

definition protected_key :: "managed \<Rightarrow> string \<Rightarrow> bool" where
  "protected_key m key \<longleftrightarrow> (mg_gpu m \<and> key = ''gpu_backend'') \<or> (mg_named_adapter m \<and> key = ''d3d12_adapter'')
     \<or> (mg_profile m \<and> key = ''local_user_display_name'')"

definition check_line :: "managed \<Rightarrow> string \<Rightarrow> string + unit" where
  "check_line m raw = (let line = TrimGpuConfigSpace raw in
     if line = [] \<or> hd line = CHR ''#'' then Inr ()
     else case split_at (CHR ''='') line of
       (_, None) \<Rightarrow> Inl ''explicit GPU selection requires flat scalar TOML''
     | (before, Some after) \<Rightarrow>
         let key = TrimGpuConfigSpace before in
         if key = [] then Inl ''empty config key''
         else if \<not> list_all key_char key then Inl ''explicit GPU selection forbids quoted/dotted/table config keys''
         else if protected_key m key then Inl ''immutable TOML must omit launcher-managed GPU/profile keys''
         else check_value (TrimGpuConfigSpace after))"

fun check_lines :: "managed \<Rightarrow> string list \<Rightarrow> string + unit" where
  "check_lines m [] = Inr ()"
| "check_lines m (l # ls) = bindE (check_line m l) (\<lambda>_. check_lines m ls)"

definition utf8_mark :: string where "utf8_mark = [CHR 0xEF, CHR 0xBB, CHR 0xBF]"

definition ValidateExplicitGpuConfig :: "managed \<Rightarrow> string \<Rightarrow> string + unit" where
  "ValidateExplicitGpuConfig m text =
     (if length text > 1024 * 1024 \<or> CHR 0x00 \<in> set text then Inl ''GPU selection config is oversized or contains NUL''
      else check_lines m (text_lines (if prefix utf8_mark text then drop 3 text else text)))"

subsection \<open>The choice of an adapter\<close>

lemma select_loop_Inr:
  "select_loop name selected as = Inr r \<longleftrightarrow>
     (let hits = map ad_index (filter (\<lambda>a. ad_name a = name \<and> ad_d3d12_capable a) as) in
      (case selected of None \<Rightarrow> r = None \<and> hits = [] \<or> (\<exists>i. r = Some i \<and> hits = [i]) | Some i \<Rightarrow> r = Some i \<and> hits = []))"
  by (induction name selected as rule: select_loop.induct) (auto simp: Let_def split: option.splits)

text \<open>An adapter is chosen by name only if the choice is unique: the selection succeeds with an index exactly
  when the name is valid and one single Direct3D 12 adapter, with that index, has it.\<close>

theorem SelectExactAdapter_iff:
  "SelectExactAdapter adapters name = Inr i \<longleftrightarrow> ValidAdapterName name
     \<and> map ad_index (filter (\<lambda>a. ad_name a = name \<and> ad_d3d12_capable a) adapters) = [i]"
  using select_loop_Inr [of name None adapters]
  by (auto simp: SelectExactAdapter_def Let_def expected_simps split: option.splits)

subsection \<open>What an accepted configuration says\<close>

text \<open>A quoted value without raw control characters: plain characters, and for double quotes escapes of two.\<close>

definition quoted_unit :: "char \<Rightarrow> string \<Rightarrow> bool" where
  "quoted_unit q u \<longleftrightarrow> list_all (\<lambda>c. \<not> byte c < 0x20) u
     \<and> ((\<exists>c. u = [c] \<and> c \<noteq> q \<and> \<not> (q = CHR 0x22 \<and> c = CHR 0x5C)) \<or> (q = CHR 0x22 \<and> (\<exists>d. u = [CHR 0x5C, d])))"

definition quoted_rest :: "char \<Rightarrow> string \<Rightarrow> string \<Rightarrow> bool" where
  "quoted_rest q rest s \<longleftrightarrow> (\<exists>us. list_all (quoted_unit q) us \<and> s = concat us @ q # rest)"

lemma quoted_rest_unit: "quoted_rest q rest s \<longleftrightarrow> s = q # rest \<or> (\<exists>u t. quoted_unit q u \<and> s = u @ t \<and> quoted_rest q rest t)"
proof
  assume "quoted_rest q rest s"
  then obtain us where us: "list_all (quoted_unit q) us" "s = concat us @ q # rest" unfolding quoted_rest_def by blast
  then show "s = q # rest \<or> (\<exists>u t. quoted_unit q u \<and> s = u @ t \<and> quoted_rest q rest t)"
    unfolding quoted_rest_def by (cases us) auto
next
  assume "s = q # rest \<or> (\<exists>u t. quoted_unit q u \<and> s = u @ t \<and> quoted_rest q rest t)"
  then show "quoted_rest q rest s"
  proof
    assume "s = q # rest"
    then show ?thesis unfolding quoted_rest_def by (intro exI [of _ "[]"]) simp
  next
    assume "\<exists>u t. quoted_unit q u \<and> s = u @ t \<and> quoted_rest q rest t"
    then obtain u us where "quoted_unit q u" "s = u @ concat us @ q # rest" "list_all (quoted_unit q) us"
      unfolding quoted_rest_def by blast
    then show ?thesis unfolding quoted_rest_def by (intro exI [of _ "u # us"]) simp
  qed
qed

lemma quoted_unit_split: "quoted_unit q u \<and> c # cs = u @ t \<longleftrightarrow> \<not> byte c < 0x20 \<and>
    (u = [c] \<and> t = cs \<and> c \<noteq> q \<and> \<not> (q = CHR 0x22 \<and> c = CHR 0x5C)
     \<or> q = CHR 0x22 \<and> c = CHR 0x5C \<and> (\<exists>d. u = [c, d] \<and> cs = d # t \<and> \<not> byte d < 0x20))"
  by (auto simp: quoted_unit_def)

lemma quoted_rest_Nil [simp]: "\<not> quoted_rest q rest []"
  by (simp add: quoted_rest_def)

lemma quoted_rest_Cons: "quoted_rest q rest (c # cs) \<longleftrightarrow> c = q \<and> cs = rest \<or> \<not> byte c < 0x20 \<and>
    (c \<noteq> q \<and> \<not> (q = CHR 0x22 \<and> c = CHR 0x5C) \<and> quoted_rest q rest cs
     \<or> q = CHR 0x22 \<and> c = CHR 0x5C \<and> (\<exists>d ds. cs = d # ds \<and> \<not> byte d < 0x20 \<and> quoted_rest q rest ds))"
proof -
  have "quoted_rest q rest (c # cs) \<longleftrightarrow> c # cs = q # rest \<or> (\<exists>u t. (quoted_unit q u \<and> c # cs = u @ t) \<and> quoted_rest q rest t)"
    by (subst quoted_rest_unit) blast
  then show ?thesis unfolding quoted_unit_split by auto
qed

lemma scan_quoted_iff: "\<not> byte q < 0x20 \<Longrightarrow> q \<noteq> CHR 0x5C \<Longrightarrow> scan_quoted q s = Some rest \<longleftrightarrow> quoted_rest q rest s"
proof (induction q s rule: scan_quoted.induct)
  case (2 q c cs)
  then show ?case unfolding quoted_rest_Cons by (auto split: list.splits)
qed simp

definition comment_or_blank :: "string \<Rightarrow> bool" where
  "comment_or_blank s \<longleftrightarrow> TrimGpuConfigSpace s = [] \<or> hd (TrimGpuConfigSpace s) = CHR ''#''"

text \<open>The values that end on their line: a quoted text, or a bare scalar, with nothing but a comment after it.\<close>

definition closed_value :: "string \<Rightarrow> bool" where
  "closed_value v \<longleftrightarrow>
     (\<exists>q us tail. q \<in> {CHR 0x22, CHR 0x27} \<and> v = q # concat us @ q # tail \<and> list_all (quoted_unit q) us \<and> comment_or_blank tail)
   \<or> (\<exists>scalar. TrimGpuConfigSpace (fst (split_at (CHR ''#'') v)) = scalar \<and> scalar \<noteq> [] \<and> list_all scalar_char scalar
       \<and> hd v \<notin> {CHR 0x22, CHR 0x27})"

text \<open>One assignment of an unmanaged bare key on one line.\<close>

definition harmless_line :: "managed \<Rightarrow> string \<Rightarrow> bool" where
  "harmless_line m raw \<longleftrightarrow> comment_or_blank raw \<or>
     (\<exists>before after. TrimGpuConfigSpace raw = before @ CHR ''='' # after \<and> CHR ''='' \<notin> set before
        \<and> TrimGpuConfigSpace before \<noteq> [] \<and> list_all key_char (TrimGpuConfigSpace before)
        \<and> \<not> protected_key m (TrimGpuConfigSpace before) \<and> closed_value (TrimGpuConfigSpace after))"

lemma check_value_iff: "check_value v = Inr () \<longleftrightarrow> closed_value v"
proof (cases "v \<noteq> [] \<and> hd v \<in> {CHR 0x22, CHR 0x27}")
  case True
  then have q: "\<not> byte (hd v) < 0x20" "hd v \<noteq> CHR 0x5C" by (auto simp: byte_def)
  have "check_value v = Inr () \<longleftrightarrow> (\<exists>tail. scan_quoted (hd v) (tl v) = Some tail \<and> comment_or_blank tail)"
    using True by (auto simp: check_value_def comment_or_blank_def Let_def split: option.splits if_splits)
  also have "\<dots> \<longleftrightarrow> (\<exists>us tail. v = hd v # concat us @ hd v # tail \<and> list_all (quoted_unit (hd v)) us \<and> comment_or_blank tail)"
    unfolding scan_quoted_iff [OF q] quoted_rest_def using True by (cases v) auto
  also have "\<dots> \<longleftrightarrow> closed_value v" using True unfolding closed_value_def by (metis list.sel(1))
  finally show ?thesis .
next
  case False
  then show ?thesis
    by (cases v) (auto simp: check_value_def closed_value_def Let_def TrimGpuConfigSpace_def expected_simps split: if_splits)
qed

lemma check_line_iff: "check_line m raw = Inr () \<longleftrightarrow> harmless_line m raw"
proof -
  let ?l = "TrimGpuConfigSpace raw"
  show ?thesis
  proof (cases "comment_or_blank raw")
    case True
    then show ?thesis by (auto simp: check_line_def harmless_line_def comment_or_blank_def Let_def)
  next
    case False
    obtain before rest where s: "split_at (CHR ''='') ?l = (before, rest)" by fastforce
    have "check_line m raw = Inr () \<longleftrightarrow> (\<exists>after. rest = Some after \<and> TrimGpuConfigSpace before \<noteq> []
        \<and> list_all key_char (TrimGpuConfigSpace before) \<and> \<not> protected_key m (TrimGpuConfigSpace before)
        \<and> closed_value (TrimGpuConfigSpace after))"
      using False s by (auto simp: check_line_def comment_or_blank_def Let_def check_value_iff [symmetric] split: option.splits if_splits)
    also have "\<dots> \<longleftrightarrow> harmless_line m raw"
      using False s split_at_Some [of "CHR ''=''" ?l] unfolding harmless_line_def by (metis option.inject prod.inject)
    finally show ?thesis .
  qed
qed

lemma check_lines_iff: "check_lines m ls = Inr () \<longleftrightarrow> list_all (harmless_line m) ls"
  by (induction ls) (auto simp: expected_simps check_line_iff)

text \<open>C18: the configuration file cannot override what the launcher manages: it is accepted exactly when it has at
  most a megabyte and no NUL, and each of its lines is blank, a comment, or one assignment of an unmanaged
  bare key to a value that ends on its line, so no string or table can hide a later key.\<close>

theorem ValidateExplicitGpuConfig_iff:
  "ValidateExplicitGpuConfig m text = Inr () \<longleftrightarrow> length text \<le> 1024 * 1024 \<and> CHR 0x00 \<notin> set text
     \<and> list_all (harmless_line m) (text_lines (if prefix utf8_mark text then drop 3 text else text))"
  by (simp add: ValidateExplicitGpuConfig_def check_lines_iff not_less)

end
