(* ===== verification/SaveCopy.thy ===== *)
theory SaveCopy
  imports TextLines
begin

section \<open>The save copy of a diagnostics package (\<open>mcla_save_copy_guard.h\<close>, \<open>mcla_diagnostics.cpp\<close>)\<close>

text \<open>
  The gate that waits until no save transaction is open, and the copy of the save tree with its bounds.
  What the operating system and the SDK answer is an input: the readings of each poll, and for each entry
  of the tree its kind and the answers at each attempt to copy it. Sizes are \<open>nat\<close>: each is compared with
  16 MiB before it is added to at most 64 MiB, so the 64-bit sums of the code do not wrap.
\<close>

subsection \<open>The gate\<close>

definition kWaitTimeoutMs :: nat where "kWaitTimeoutMs = 2000"
definition kPollIntervalMs :: nat where "kPollIntervalMs = 50"
definition kIndicatorUnavailable :: u32 where "kIndicatorUnavailable = 0xFFFFFFFF"
definition kErrorSharingViolation :: u32 where "kErrorSharingViolation = 32"
definition kErrorLockViolation :: u32 where "kErrorLockViolation = 33"

definition lower_char :: "char \<Rightarrow> char" where
  "lower_char c = (if CHR ''A'' \<le> c \<and> c \<le> CHR ''Z'' then char_of (byte c + 32) else c)"

definition ends_with_ci :: "string \<Rightarrow> string \<Rightarrow> bool" where
  "ends_with_ci name ending \<longleftrightarrow> \<not> length name < length ending
     \<and> map lower_char (drop (length name - length ending) name) = ending"

definition IsTransactionArtifactName :: "string \<Rightarrow> bool" where
  "IsTransactionArtifactName name \<longleftrightarrow> ends_with_ci name ''.rexpending'' \<or> ends_with_ci name ''.rexbackup''"

record gate_input =
  gi_sdk_active :: u32
  gi_pending_files :: bool
  gi_waited_ms :: nat

datatype gate = CopyGate | WaitGate | SkipGate

definition IndicatorAvailable :: "u32 \<Rightarrow> bool" where
  "IndicatorAvailable sdk_active \<longleftrightarrow> sdk_active \<noteq> kIndicatorUnavailable"

definition BusyGate :: "gate_input \<Rightarrow> bool" where
  "BusyGate g \<longleftrightarrow> (IndicatorAvailable (gi_sdk_active g) \<and> gi_sdk_active g > 0) \<or> gi_pending_files g"

definition DecideGate :: "gate_input \<Rightarrow> nat \<Rightarrow> gate" where
  "DecideGate g timeout_ms =
     (if \<not> BusyGate g then CopyGate else if gi_waited_ms g \<ge> timeout_ms then SkipGate else WaitGate)"

definition BusyReason :: "gate_input \<Rightarrow> string" where
  "BusyReason g =
     (let sdk = (if IndicatorAvailable (gi_sdk_active g) \<and> gi_sdk_active g > 0
          then ''SDK reports '' @ decimal (unat (gi_sdk_active g)) @ '' active content transaction(s)'' else []);
          reason = (if gi_pending_files g
          then sdk @ (if sdk \<noteq> [] then ''; '' else [])
            @ ''transaction marker/backup files (.rexpending/.rexbackup) are present in the save tree'' else sdk)
      in if reason = [] then ''no active content transaction'' else reason)"

definition IndicatorText :: "u32 \<Rightarrow> string" where
  "IndicatorText sdk_active = (if IndicatorAvailable sdk_active then decimal (unat sdk_active)
     else ''unavailable (SDK without the indicator)'')"

definition SkippedNote :: "gate_input \<Rightarrow> nat \<Rightarrow> string" where
  "SkippedNote g timeout_ms = ''The live save files were not copied into this package.'' @ [CHR 0x0A]
     @ ''Reason: '' @ BusyReason g @ '' after waiting '' @ decimal (gi_waited_ms g) @ '' ms (limit '' @ decimal timeout_ms
     @ '' ms).'' @ [CHR 0x0A] @ ''SDK transaction indicator: '' @ IndicatorText (gi_sdk_active g) @ ''.'' @ [CHR 0x0A]
     @ ''The export does not copy saves while the game is writing them, so it never races a save transaction (KI-065).'' @ [CHR 0x0A]"

definition ShouldRetryCopy :: "u32 \<Rightarrow> nat \<Rightarrow> bool" where
  "ShouldRetryCopy system_error retries_done \<longleftrightarrow> retries_done = 0
     \<and> (system_error = kErrorSharingViolation \<or> system_error = kErrorLockViolation)"

text \<open>What poll number \<open>k\<close> reads, and whether a stop is requested after it.\<close>

record poll =
  pl_input :: gate_input
  pl_stop :: bool

text \<open>The loop with \<open>fuel\<close> polls left: \<open>None\<close> if it would go on.\<close>

fun gate_loop :: "nat \<Rightarrow> (nat \<Rightarrow> poll) \<Rightarrow> nat \<Rightarrow> (gate_input \<times> gate) option" where
  "gate_loop 0 polls k = None"
| "gate_loop (Suc fuel) polls k =
     (let g = pl_input (polls k); gate = DecideGate g kWaitTimeoutMs in
      if gate \<noteq> WaitGate then Some (g, gate)
      else if pl_stop (polls k) then Some (g, SkipGate)
      else gate_loop fuel polls (k + 1))"

definition WaitForSaveCopyGate :: "nat \<Rightarrow> (nat \<Rightarrow> poll) \<Rightarrow> (gate_input \<times> gate) option" where
  "WaitForSaveCopyGate fuel polls = gate_loop fuel polls 0"

subsection \<open>One file\<close>

definition kMaxSaveBytes :: nat where "kMaxSaveBytes = 64 * 1024 * 1024"
definition kMaxSaveFileBytes :: nat where "kMaxSaveFileBytes = 16 * 1024 * 1024"
definition kMaxSaveEntries :: nat where "kMaxSaveEntries = 4096"

record save_file =
  sf_relative_path :: string
  sf_bytes :: nat
  sf_sha256 :: string

record save_stats =
  ss_bytes :: nat
  ss_files :: nat
  ss_skipped :: nat
  ss_transaction_entries :: nat
  ss_found :: bool
  ss_inventory :: "save_file list"

definition no_stats :: save_stats where
  "no_stats = \<lparr>ss_bytes = 0, ss_files = 0, ss_skipped = 0, ss_transaction_entries = 0, ss_found = False, ss_inventory = []\<rparr>"

text \<open>
  The answers during one attempt: a size or time is \<open>None\<close> where the call fails; the copy fails with a
  system error; the hash is empty where it cannot be computed.
\<close>

record copy_attempt =
  at_size_before :: "nat option"
  at_time_before :: "int option"
  at_directories :: bool
  at_copy_error :: "u32 option"
  at_size_after :: "nat option"
  at_time_after :: "int option"
  at_hash :: string

definition skip_file :: "save_stats \<Rightarrow> save_stats" where
  "skip_file s = s\<lparr>ss_skipped := ss_skipped s + 1\<rparr>"

text \<open>
  The retries of sharing violations only wait. \<open>!ec\<close> after the copy is the result of the last call, which reads
  the time; a failed size is the greatest 64-bit value, which no accepted size equals.
\<close>

fun copy_attempts :: "string \<Rightarrow> save_stats \<Rightarrow> copy_attempt list \<Rightarrow> save_stats \<times> bool" where
  "copy_attempts relative s [] = (skip_file s, False)"
| "copy_attempts relative s (a # as) =
     (case at_size_before a of
        None \<Rightarrow> (skip_file s, False)
      | Some size_before \<Rightarrow>
          if size_before > kMaxSaveFileBytes \<or> ss_bytes s + size_before > kMaxSaveBytes then (skip_file s, False)
          else if at_time_before a = None \<or> \<not> at_directories a then (skip_file s, False)
          else if at_copy_error a \<noteq> None then copy_attempts relative s as
          else if at_time_after a \<noteq> None \<and> at_size_after a = Some size_before \<and> at_time_before a = at_time_after a then
            (if at_hash a = [] then (skip_file s, False)
             else (s\<lparr>ss_bytes := ss_bytes s + size_before, ss_files := ss_files s + 1,
                     ss_inventory := ss_inventory s @ [\<lparr>sf_relative_path = relative, sf_bytes = size_before, sf_sha256 = at_hash a\<rparr>]\<rparr>, True))
          else copy_attempts relative s as)"

definition CopyStableFile :: "string \<Rightarrow> (nat \<Rightarrow> copy_attempt) \<Rightarrow> save_stats \<Rightarrow> save_stats \<times> bool" where
  "CopyStableFile relative answers s = copy_attempts relative s (map answers [0..<3])"

subsection \<open>The tree\<close>

definition kTransactionBackupSuffix :: u16string where "kTransactionBackupSuffix = u16lit ''.rexbackup''"
definition kTransactionMarkerSuffix :: u16string where "kTransactionMarkerSuffix = u16lit ''.rexpending''"

definition IsTransactionScratchName :: "u16string \<Rightarrow> bool" where
  "IsTransactionScratchName name \<longleftrightarrow> suffix kTransactionBackupSuffix name \<or> suffix kTransactionMarkerSuffix name"

datatype entry_kind = DirectoryEntry | RegularEntry | OtherEntry

record entry_info =
  en_error :: bool
  en_reparse :: bool
  en_relative :: "string option"
  en_name :: u16string
  en_name_utf8 :: string
  en_kind :: entry_kind
  en_answers :: "nat \<Rightarrow> copy_attempt"

text \<open>A directory with what the recursive iteration finds in it; other entries have nothing below them.\<close>

datatype save_entry = SaveEntry entry_info "save_entry list"

datatype entry_verdict = DescendEntry | SkipBelow

text \<open>What happens at one entry: the new numbers, and whether the iteration goes below it.\<close>

definition visit_entry :: "entry_info \<Rightarrow> save_stats \<Rightarrow> save_stats \<times> entry_verdict" where
  "visit_entry e s =
     (if en_error e then (skip_file s, DescendEntry)
      else if en_reparse e then (skip_file s, SkipBelow)
      else case en_relative e of
        None \<Rightarrow> (skip_file s, DescendEntry)
      | Some relative \<Rightarrow>
          if relative = [] then (skip_file s, DescendEntry)
          else if IsTransactionScratchName (en_name e) then
            (s\<lparr>ss_transaction_entries := ss_transaction_entries s + 1\<rparr>, SkipBelow)
          else (case en_kind e of
              RegularEntry \<Rightarrow> (fst (CopyStableFile relative (en_answers e) s), DescendEntry)
            | _ \<Rightarrow> (s, DescendEntry)))"

text \<open>The iteration of one title directory: entries in order, each before those below it; \<open>True\<close> once it has stopped at the limit.\<close>

fun copy_tree :: "save_entry list \<Rightarrow> nat \<times> save_stats \<times> bool \<Rightarrow> nat \<times> save_stats \<times> bool" where
  "copy_tree [] r = r"
| "copy_tree (SaveEntry e below # rest) (visited, s, stopped) =
     (if stopped then (visited, s, True)
      else if visited + 1 > kMaxSaveEntries then (visited + 1, skip_file s, True)
      else case visit_entry e s of
        (s', DescendEntry) \<Rightarrow> copy_tree rest (copy_tree below (visited + 1, s', False))
      | (s', SkipBelow) \<Rightarrow> copy_tree rest (visited + 1, s', False))"

text \<open>
  A profile directory: whether it is a plain directory, its title directory if that is one, and whether the
  last call of its turn leaves an error in \<open>ec\<close>, which is cleared only where there is no title directory.
\<close>

record save_profile =
  sp_plain :: bool
  sp_title :: "save_entry list option"
  sp_error :: bool

text \<open>The loop over the profiles, with the \<open>ec\<close> that the turn before has left; the first iteration finds none.\<close>

fun copy_profiles :: "save_profile list \<Rightarrow> bool \<Rightarrow> nat \<Rightarrow> save_stats \<Rightarrow> save_stats" where
  "copy_profiles [] ec visited s = s"
| "copy_profiles (p # ps) ec visited s =
     (if visited + 1 > kMaxSaveEntries then skip_file s
      else if ec then s
      else if \<not> sp_plain p then copy_profiles ps (sp_error p) (visited + 1) s
      else case sp_title p of
        None \<Rightarrow> copy_profiles ps False (visited + 1) s
      | Some entries \<Rightarrow>
          (case copy_tree entries (visited + 1, s\<lparr>ss_found := True\<rparr>, False) of
             (visited', s', _) \<Rightarrow> copy_profiles ps (sp_error p) visited' s'))"

definition CopySaveTrees :: "save_profile list \<Rightarrow> save_stats" where
  "CopySaveTrees ps = copy_profiles ps False 0 no_stats"

text \<open>The search for markers walks the same tree; it stops at the first one.\<close>

fun find_artifact :: "save_entry list \<Rightarrow> nat \<times> bool \<times> bool \<Rightarrow> nat \<times> bool \<times> bool" where
  "find_artifact [] r = r"
| "find_artifact (SaveEntry e below # rest) (visited, stopped, found) =
     (if stopped \<or> found then (visited, stopped, found)
      else if en_error e \<or> visited + 1 > kMaxSaveEntries then (if en_error e then visited else visited + 1, True, False)
      else if en_reparse e then find_artifact rest (visited + 1, False, False)
      else if IsTransactionArtifactName (en_name_utf8 e) then (visited + 1, False, True)
      else find_artifact rest (find_artifact below (visited + 1, False, False)))"

fun find_in_profiles :: "save_profile list \<Rightarrow> nat \<Rightarrow> bool" where
  "find_in_profiles [] visited = False"
| "find_in_profiles (p # ps) visited =
     (if visited + 1 > kMaxSaveEntries then False
      else if \<not> sp_plain p then find_in_profiles ps (visited + 1)
      else case sp_title p of
        None \<Rightarrow> find_in_profiles ps (visited + 1)
      | Some entries \<Rightarrow>
          (case find_artifact entries (visited + 1, False, False) of
             (visited', _, found) \<Rightarrow> if found then True else find_in_profiles ps visited'))"

definition SaveTreeHasTransactionArtifacts :: "save_profile list \<Rightarrow> bool" where
  "SaveTreeHasTransactionArtifacts ps = find_in_profiles ps 0"

subsection \<open>The gate lets a copy start only between transactions\<close>

lemma gate_loop_result:
  assumes "gate_loop fuel polls k = Some (g, gate)"
  shows "gate \<noteq> WaitGate \<and> (gate = CopyGate \<longleftrightarrow> \<not> BusyGate g) \<and> (\<exists>j. g = pl_input (polls j))"
  using assms by (induction fuel polls k rule: gate_loop.induct) (auto simp: Let_def DecideGate_def split: if_splits)

lemma gate_loop_ends:
  assumes "\<forall>k. kPollIntervalMs * k \<le> gi_waited_ms (pl_input (polls k))" "41 \<le> k + fuel" "k \<le> 40"
  shows "gate_loop fuel polls k \<noteq> None"
  using assms(2,3)
proof (induction fuel arbitrary: k)
  case (Suc fuel)
  show ?case
  proof (cases "k = 40")
    case True
    have "kWaitTimeoutMs \<le> gi_waited_ms (pl_input (polls 40))"
      using spec [OF assms(1), of 40] by (simp add: kPollIntervalMs_def kWaitTimeoutMs_def)
    then show ?thesis using True by (simp add: Let_def DecideGate_def)
  next
    case False
    then show ?thesis using Suc.IH [of "k + 1"] Suc.prems by (simp add: Let_def)
  qed
qed simp

text \<open>C14: the wait for the save copy ends: if each poll comes at least 50 ms after the one before, the gate has an
  answer after at most 41 polls, whatever the transaction does; and the answer is to copy exactly if,
  at that poll, the SDK reported no open transaction and the tree held no marker.\<close>

theorem save_gate_terminates:
  assumes "\<forall>k. kPollIntervalMs * k \<le> gi_waited_ms (pl_input (polls k))"
  shows "\<exists>g gate k. WaitForSaveCopyGate 41 polls = Some (g, gate) \<and> g = pl_input (polls k)
    \<and> gate \<noteq> WaitGate \<and> (gate = CopyGate \<longleftrightarrow> \<not> BusyGate g)"
proof -
  have "WaitForSaveCopyGate 41 polls \<noteq> None"
    using gate_loop_ends [OF assms, of 0 41] by (simp add: WaitForSaveCopyGate_def)
  then obtain r where "WaitForSaveCopyGate 41 polls = Some r" by blast
  moreover obtain g gate where "r = (g, gate)" by fastforce
  ultimately show ?thesis using gate_loop_result [of 41 polls 0 g gate] by (simp add: WaitForSaveCopyGate_def)
qed

text \<open>A transaction that never ends, on a clock that runs 51 ms for each poll.\<close>

definition stuck_polls :: "nat \<Rightarrow> poll" where
  "stuck_polls k = \<lparr>pl_input = \<lparr>gi_sdk_active = 1, gi_pending_files = False, gi_waited_ms = 51 * k\<rparr>, pl_stop = False\<rparr>"

theorem save_gate_terminates_witness: "\<exists>g k. WaitForSaveCopyGate 41 stuck_polls = Some (g, SkipGate) \<and> g = pl_input (stuck_polls k)"
proof -
  have "\<forall>k. kPollIntervalMs * k \<le> gi_waited_ms (pl_input (stuck_polls k))" by (simp add: kPollIntervalMs_def stuck_polls_def)
  from save_gate_terminates [OF this] obtain g gate k where r: "WaitForSaveCopyGate 41 stuck_polls = Some (g, gate)"
    "g = pl_input (stuck_polls k)" "gate \<noteq> WaitGate" "gate = CopyGate \<longleftrightarrow> \<not> BusyGate g" by blast
  have "BusyGate g" using r(2) by (simp add: stuck_polls_def BusyGate_def IndicatorAvailable_def kIndicatorUnavailable_def)
  then have "gate = SkipGate" using r(3,4) by (cases gate) simp_all
  then show ?thesis using r(1,2) by blast
qed

subsection \<open>The copy is bounded and stable\<close>

text \<open>The file of the inventory comes from this entry: one attempt copied it between two equal readings.\<close>

definition copied_from :: "save_file \<Rightarrow> entry_info \<Rightarrow> bool" where
  "copied_from f e \<longleftrightarrow> en_kind e = RegularEntry \<and> en_relative e = Some (sf_relative_path f) \<and> \<not> en_reparse e
     \<and> \<not> IsTransactionScratchName (en_name e) \<and> sf_bytes f \<le> kMaxSaveFileBytes
     \<and> list_ex (\<lambda>a. at_copy_error a = None \<and> at_size_before a = Some (sf_bytes f) \<and> at_size_after a = Some (sf_bytes f)
          \<and> at_time_before a = at_time_after a \<and> at_time_before a \<noteq> None \<and> at_hash a = sf_sha256 f \<and> sf_sha256 f \<noteq> [])
        (map (en_answers e) [0..<3])"

text \<open>The entries that are not below a reparse point or a scratch directory.\<close>

definition blocked :: "entry_info \<Rightarrow> bool" where
  "blocked e \<longleftrightarrow> \<not> en_error e \<and> (en_reparse e \<or> en_relative e \<notin> {None, Some []} \<and> IsTransactionScratchName (en_name e))"

fun open_entries :: "save_entry list \<Rightarrow> entry_info list" where
  "open_entries [] = []"
| "open_entries (SaveEntry e below # rest) = e # (if blocked e then [] else open_entries below) @ open_entries rest"

definition stats_inv :: "nat \<Rightarrow> save_stats \<Rightarrow> bool" where
  "stats_inv visited s \<longleftrightarrow> ss_bytes s = sum_list (map sf_bytes (ss_inventory s)) \<and> ss_bytes s \<le> kMaxSaveBytes
     \<and> ss_files s = length (ss_inventory s) \<and> ss_files s + ss_transaction_entries s \<le> min visited kMaxSaveEntries"

definition new_files_from :: "entry_info set \<Rightarrow> save_stats \<Rightarrow> save_stats \<Rightarrow> bool" where
  "new_files_from es s s' \<longleftrightarrow> (\<forall>f \<in> set (ss_inventory s'). f \<in> set (ss_inventory s) \<or> (\<exists>e \<in> es. copied_from f e))"

lemma new_files_refl [simp]: "new_files_from es s s"
  by (simp add: new_files_from_def)

lemma new_files_mono: "new_files_from es s s' \<Longrightarrow> es \<subseteq> es' \<Longrightarrow> new_files_from es' s s'"
  by (fastforce simp: new_files_from_def)

lemma new_files_trans: "new_files_from es s s' \<Longrightarrow> new_files_from es s' s'' \<Longrightarrow> new_files_from es s s''"
  by (fastforce simp: new_files_from_def)

lemma copy_attempts_result: "copy_attempts relative s as = (s', ok) \<Longrightarrow>
    s' = skip_file s \<or> (\<exists>a \<in> set as. \<exists>n. s' = s\<lparr>ss_bytes := ss_bytes s + n, ss_files := ss_files s + 1,
        ss_inventory := ss_inventory s @ [\<lparr>sf_relative_path = relative, sf_bytes = n, sf_sha256 = at_hash a\<rparr>]\<rparr>
      \<and> n \<le> kMaxSaveFileBytes \<and> ss_bytes s + n \<le> kMaxSaveBytes \<and> at_copy_error a = None \<and> at_size_before a = Some n
      \<and> at_size_after a = Some n \<and> at_time_before a = at_time_after a \<and> at_time_before a \<noteq> None \<and> at_hash a \<noteq> [])"
  by (induction relative s as rule: copy_attempts.induct) (auto split: option.split_asm if_split_asm)

lemma visit_entry_sound:
  assumes "visit_entry e s = (s', v)" "stats_inv visited s" "visited + 1 \<le> kMaxSaveEntries"
  shows "stats_inv (visited + 1) s' \<and> new_files_from {e} s s' \<and> (v = SkipBelow \<longleftrightarrow> blocked e)"
proof (cases "en_kind e = RegularEntry \<and> \<not> en_error e \<and> \<not> en_reparse e \<and> en_relative e \<notin> {None, Some []}
    \<and> \<not> IsTransactionScratchName (en_name e)")
  case True
  then obtain relative where r: "en_relative e = Some relative" "relative \<noteq> []" by auto
  have v: "copy_attempts relative s (map (en_answers e) [0..<3]) = (s', snd (CopyStableFile relative (en_answers e) s))" "v = DescendEntry"
    using assms(1) True r by (auto simp: visit_entry_def CopyStableFile_def)
  from copy_attempts_result [OF v(1)] show ?thesis
  proof
    assume "s' = skip_file s"
    then show ?thesis using assms(2,3) True v(2) by (auto simp: stats_inv_def skip_file_def new_files_from_def blocked_def)
  next
    assume "\<exists>a \<in> set (map (en_answers e) [0..<3]). \<exists>n. s' = s\<lparr>ss_bytes := ss_bytes s + n, ss_files := ss_files s + 1,
        ss_inventory := ss_inventory s @ [\<lparr>sf_relative_path = relative, sf_bytes = n, sf_sha256 = at_hash a\<rparr>]\<rparr>
      \<and> n \<le> kMaxSaveFileBytes \<and> ss_bytes s + n \<le> kMaxSaveBytes \<and> at_copy_error a = None \<and> at_size_before a = Some n
      \<and> at_size_after a = Some n \<and> at_time_before a = at_time_after a \<and> at_time_before a \<noteq> None \<and> at_hash a \<noteq> []"
    then obtain a n where a: "a \<in> set (map (en_answers e) [0..<3])"
      "s' = s\<lparr>ss_bytes := ss_bytes s + n, ss_files := ss_files s + 1,
        ss_inventory := ss_inventory s @ [\<lparr>sf_relative_path = relative, sf_bytes = n, sf_sha256 = at_hash a\<rparr>]\<rparr>"
      "n \<le> kMaxSaveFileBytes" "ss_bytes s + n \<le> kMaxSaveBytes" "at_copy_error a = None" "at_size_before a = Some n"
      "at_size_after a = Some n" "at_time_before a = at_time_after a" "at_time_before a \<noteq> None" "at_hash a \<noteq> []" by blast
    have "copied_from \<lparr>sf_relative_path = relative, sf_bytes = n, sf_sha256 = at_hash a\<rparr> e"
      unfolding copied_from_def list_ex_iff using a True r by auto
    then show ?thesis using a assms(2,3) True v(2) by (auto simp: stats_inv_def new_files_from_def blocked_def)
  qed
next
  case False
  then show ?thesis using assms
    by (auto simp: visit_entry_def stats_inv_def skip_file_def new_files_from_def blocked_def
        split: option.splits if_splits entry_kind.splits)
qed

lemma stats_inv_mono: "stats_inv visited s \<Longrightarrow> visited \<le> visited' \<Longrightarrow> stats_inv visited' (skip_file s) \<and> stats_inv visited' s"
  by (auto simp: stats_inv_def skip_file_def)

lemma copy_tree_sound: "copy_tree es (visited, s, stopped) = (visited', s', stopped') \<Longrightarrow> stats_inv visited s \<Longrightarrow>
    stats_inv visited' s' \<and> visited \<le> visited' \<and> new_files_from (set (open_entries es)) s s'"
proof (induction es "(visited, s, stopped)" arbitrary: visited s stopped visited' s' stopped' rule: copy_tree.induct)
  case (2 e below rest visited s stopped)
  show ?case
  proof (cases "stopped \<or> visited + 1 > kMaxSaveEntries")
    case True
    then show ?thesis using 2(4,5) stats_inv_mono [of visited s "visited + 1"]
      by (auto simp: new_files_from_def skip_file_def split: if_splits)
  next
    case False
    obtain s1 v where v: "visit_entry e s = (s1, v)" by fastforce
    have s1: "stats_inv (visited + 1) s1" "new_files_from {e} s s1" "v = SkipBelow \<longleftrightarrow> blocked e"
      using visit_entry_sound [OF v 2(5)] False by auto
    note step = new_files_mono [OF s1(2), of "set (open_entries (SaveEntry e below # rest))"]
    show ?thesis
    proof (cases v)
      case SkipBelow
      then have "copy_tree rest (visited + 1, s1, False) = (visited', s', stopped')" using 2(4) False v by simp
      from 2(3) [OF _ _ v [symmetric] SkipBelow this s1(1)] False show ?thesis
        using step by (auto intro: new_files_trans new_files_mono)
    next
      case DescendEntry
      obtain n2 s2 b2 where b: "copy_tree below (visited + 1, s1, False) = (n2, s2, b2)" by (metis prod_cases3)
      have r: "copy_tree rest (n2, s2, b2) = (visited', s', stopped')" using 2(4) False v DescendEntry b by simp
      have "stats_inv n2 s2 \<and> visited + 1 \<le> n2 \<and> new_files_from (set (open_entries below)) s1 s2"
        using 2(1) [OF _ _ v [symmetric] DescendEntry b s1(1)] False by simp
      moreover from this have "stats_inv visited' s' \<and> n2 \<le> visited' \<and> new_files_from (set (open_entries rest)) s2 s'"
        using 2(2) [OF _ _ v [symmetric] DescendEntry _ r] False b by auto
      ultimately show ?thesis using step s1(3) DescendEntry
        by (auto intro!: new_files_trans [of _ s s1 s'] new_files_trans [of _ s1 s2 s'] intro: new_files_mono)
    qed
  qed
qed simp

definition profiles_entries :: "save_profile list \<Rightarrow> entry_info set" where
  "profiles_entries ps = (\<Union>p \<in> set ps. case sp_title p of None \<Rightarrow> {} | Some es \<Rightarrow> set (open_entries es))"

lemma copy_profiles_sound: "stats_inv visited s \<Longrightarrow> \<exists>n. stats_inv n (copy_profiles ps ec visited s)
    \<and> new_files_from (profiles_entries ps) s (copy_profiles ps ec visited s)"
proof (induction ps arbitrary: ec visited s)
  case Nil
  then show ?case by auto
next
  case (Cons p ps)
  have inc: "stats_inv (visited + 1) s" "stats_inv (visited + 1) (skip_file s)"
    using stats_inv_mono [OF Cons.prems, of "visited + 1"] by simp_all
  have rest: "\<exists>n. stats_inv n (copy_profiles ps ec' m t) \<and> new_files_from (profiles_entries (p # ps)) s (copy_profiles ps ec' m t)"
    if "stats_inv m t" "new_files_from (profiles_entries (p # ps)) s t" for ec' m t
  proof -
    from Cons.IH [OF that(1)] obtain n where n: "stats_inv n (copy_profiles ps ec' m t)" "new_files_from (profiles_entries ps) t (copy_profiles ps ec' m t)"
      by blast
    have "new_files_from (profiles_entries (p # ps)) t (copy_profiles ps ec' m t)"
      using n(2) by (rule new_files_mono) (auto simp: profiles_entries_def)
    then show ?thesis using n(1) new_files_trans [OF that(2)] by blast
  qed
  have same: "new_files_from (profiles_entries (p # ps)) s s" by (simp add: new_files_from_def)
  show ?case
  proof (cases "visited + 1 > kMaxSaveEntries \<or> ec")
    case True
    then show ?thesis using inc Cons.prems
      by (auto simp: new_files_from_def skip_file_def intro!: exI [of _ "visited + 1"])
  next
    case False
    show ?thesis
    proof (cases "sp_plain p \<and> sp_title p \<noteq> None")
      case True
      then obtain es where es: "sp_title p = Some es" by blast
      obtain n2 s2 b2 where b: "copy_tree es (visited + 1, s\<lparr>ss_found := True\<rparr>, False) = (n2, s2, b2)" by (metis prod_cases3)
      have "stats_inv (visited + 1) (s\<lparr>ss_found := True\<rparr>)" using inc(1) by (simp add: stats_inv_def)
      from copy_tree_sound [OF b this] have c: "stats_inv n2 s2" "new_files_from (set (open_entries es)) s s2"
        by (auto simp: new_files_from_def)
      have "new_files_from (profiles_entries (p # ps)) s s2"
        using c(2) by (rule new_files_mono) (auto simp: es profiles_entries_def)
      from rest [OF c(1) this, of "sp_error p"] show ?thesis using False True es b by simp
    next
      case skip: False
      then show ?thesis using False rest [OF inc(1) same] by (cases "sp_plain p") auto
    qed
  qed
qed

text \<open>All entries the copy may read.\<close>

definition profile_entries :: "save_profile list \<Rightarrow> entry_info list" where
  "profile_entries ps = concat (map (\<lambda>p. case sp_title p of None \<Rightarrow> [] | Some es \<Rightarrow> open_entries es) ps)"

text \<open>C13: the save copy is bounded and stable: whatever the tree holds and however the answers change meanwhile,
  it records at most 64 MiB and 4096 entries, its sums are those of its inventory, and each file of the
  inventory is a regular file of at most 16 MiB, below no reparse point and no scratch directory of a
  transaction, that was copied between two readings of the same size and time, and was hashed.\<close>

theorem save_copy_sound:
  "let s = CopySaveTrees ps in
     ss_bytes s = sum_list (map sf_bytes (ss_inventory s)) \<and> ss_bytes s \<le> kMaxSaveBytes
     \<and> ss_files s = length (ss_inventory s) \<and> ss_files s + ss_transaction_entries s \<le> kMaxSaveEntries
     \<and> list_all (\<lambda>f. list_ex (copied_from f) (profile_entries ps)) (ss_inventory s)"
proof -
  have "stats_inv 0 no_stats" by (simp add: stats_inv_def no_stats_def)
  from copy_profiles_sound [OF this, of ps False] obtain n where n: "stats_inv n (CopySaveTrees ps)"
    "new_files_from (profiles_entries ps) no_stats (CopySaveTrees ps)"
    unfolding CopySaveTrees_def by blast
  have "(case t of None \<Rightarrow> {} | Some es \<Rightarrow> set (open_entries es)) = set (case t of None \<Rightarrow> [] | Some es \<Rightarrow> open_entries es)" for t
    by (cases t) simp_all
  then have e: "profiles_entries ps = set (profile_entries ps)"
    by (simp add: profile_entries_def profiles_entries_def)
  have "list_all (\<lambda>f. list_ex (copied_from f) (profile_entries ps)) (ss_inventory (CopySaveTrees ps))"
    using n(2) unfolding e by (auto simp: new_files_from_def list_all_iff list_ex_iff no_stats_def)
  then show ?thesis using n(1) by (auto simp: stats_inv_def Let_def)
qed

end
