(* ===== verification/SessionReport.thy ===== *)
theory SessionReport
  imports TextLines "HOL-Library.Multiset"
begin

section \<open>Reports of a finished session (\<open>mcla_session_report.h\<close>)\<close>

text \<open>
  Which packages a session has produced, the texts shown and written for them, and the completion of the
  report file of each package by the launcher (\<open>CompletePackageReports\<close> of the controller). Folders and
  their files are inputs and results of that function.
\<close>

subsection \<open>Packages\<close>

definition LF :: string where "LF = [CHR 0x0A]"
definition QUOTE :: char where "QUOTE = CHR 0x22"

record package =
  pk_name :: u16string
  pk_crash :: bool
  pk_category :: string

definition kMaximumPackages :: nat where "kMaximumPackages = 64"

definition after_category :: "string \<Rightarrow> nat \<Rightarrow> nat \<Rightarrow> string option" where
  "after_category manifest key close =
     (case find_from manifest '':'' (key + 10) of
        None \<Rightarrow> None
      | Some colon \<Rightarrow> (case find_from manifest [QUOTE] colon of
          None \<Rightarrow> None
        | Some opening \<Rightarrow>
            if opening > close then None
            else (case find_from manifest [QUOTE] (opening + 1) of
              None \<Rightarrow> None
            | Some ending \<Rightarrow> if ending > close then None else Some (take (ending - opening - 1) (drop (opening + 1) manifest)))))"

definition ManifestCategory :: "string \<Rightarrow> string" where
  "ManifestCategory manifest =
     (case find_from manifest (QUOTE # ''trigger'' @ [QUOTE]) 0 of
        None \<Rightarrow> ''general''
      | Some trigger \<Rightarrow>
          (case (find_from manifest ''}'' trigger, find_from manifest (QUOTE # ''category'' @ [QUOTE]) trigger) of
             (Some close, Some key) \<Rightarrow>
               if key > close then ''general''
               else if after_category manifest key close = Some ''wheel'' then ''wheel'' else ''general''
           | _ \<Rightarrow> ''general''))"

definition PackageCategory :: "package \<Rightarrow> string" where
  "PackageCategory p = (if pk_crash p then ''crash'' else if pk_category p = ''wheel'' then ''wheel'' else ''general'')"

definition usable_char :: "u16 \<Rightarrow> bool" where
  "usable_char c \<longleftrightarrow> (0x30 \<le> c \<and> c \<le> 0x39) \<or> (0x61 \<le> c \<and> c \<le> 0x7A) \<or> (0x41 \<le> c \<and> c \<le> 0x5A)
     \<or> c = 0x2D \<or> c = 0x5F \<or> c = 0x2E"

definition usable :: "u16string \<Rightarrow> bool" where
  "usable name \<longleftrightarrow> (if name = [] \<or> length name > 128 \<or> suffix (u16lit ''.partial'') name then False else list_all usable_char name)"

text \<open>The order of the comparison: crashes first, then by name; a leading unit in front of the name says it in one key.\<close>

definition package_key :: "package \<Rightarrow> u16string" where
  "package_key p = (if pk_crash p then 0 else 1) # pk_name p"

definition new_package :: "bool \<Rightarrow> u16string \<Rightarrow> package" where
  "new_package crash name = \<lparr>pk_name = name, pk_crash = crash, pk_category = []\<rparr>"

definition SessionPackages :: "u16string list \<Rightarrow> u16string list \<Rightarrow> package list" where
  "SessionPackages live crash =
     take kMaximumPackages (sort_key package_key
       (map (new_package True) (filter usable crash) @ map (new_package False) (filter usable live)))"

subsection \<open>Texts\<close>

definition count_of :: "(package \<Rightarrow> bool) \<Rightarrow> package list \<Rightarrow> nat" where
  "count_of P ps = length (filter P ps)"

definition PromptText :: "package list \<Rightarrow> u16string" where
  "PromptText ps = u16lit
     (let crashes = count_of pk_crash ps; wheels = count_of (\<lambda>p. PackageCategory p = ''wheel'') ps in
      decimal (length ps) @ (if length ps = 1 then '' report was'' else '' reports were'') @ '' recorded in this session''
      @ (if crashes \<noteq> 0 \<or> wheels \<noteq> 0 then
          '' ('' @ (if crashes \<noteq> 0 then decimal crashes @ (if crashes = 1 then '' crash'' else '' crashes'') else [])
          @ (if crashes \<noteq> 0 \<and> wheels \<noteq> 0 then '', '' else [])
          @ (if wheels \<noteq> 0 then decimal wheels @ (if wheels = 1 then '' wheel report'' else '' wheel reports'') else []) @ '')''
         else [])
      @ ''.'' @ LF @ LF @ ''Open the folder now? Each report folder (live'' @ [CHR 0x5C] @ ''... or crash'' @ [CHR 0x5C]
      @ ''...) has its own report.txt: fill it in, then send that whole report folder to the owner by hand. ''
      @ ''report.txt next to them lists all reports of this session. Nothing is uploaded automatically.'')"

record report_context =
  rc_build :: string
  rc_timing :: string
  rc_render_target :: string
  rc_started_utc :: u64
  rc_ended_utc :: u64
  rc_exit_code :: int

definition SessionFacts :: "report_context \<Rightarrow> string" where
  "SessionFacts c = ''build '' @ rc_build c @ LF @ ''mode '' @ rc_timing c @ LF @ ''render_target '' @ rc_render_target c @ LF
     @ ''session_started_utc '' @ decimal (unat (rc_started_utc c)) @ LF
     @ ''session_ended_utc '' @ decimal (unat (rc_ended_utc c)) @ LF
     @ ''exit_code '' @ decimal_int (rc_exit_code c) @ LF"

definition kReportQuestions :: string where
  "kReportQuestions = LF @ ''1. What were you doing?'' @ LF @ LF @ LF
     @ ''2. Steps to make it happen again (if you know):'' @ LF @ LF @ LF
     @ ''3. What went wrong?'' @ LF @ LF @ LF
     @ ''4. What did you expect instead?'' @ LF @ LF"

definition kPendingSessionLine :: string where
  "kPendingSessionLine = ''launcher_session pending: the launcher adds build, mode and resolution after the game closes''"

definition pending_line :: string where "pending_line = LF @ kPendingSessionLine @ LF"

definition FillPackageReport :: "string \<Rightarrow> report_context \<Rightarrow> string option" where
  "FillPackageReport existing c =
     (case find_from existing pending_line 0 of
        None \<Rightarrow> None
      | Some i \<Rightarrow>
          if find_from existing pending_line (i + 1) \<noteq> None then None
          else Some (take (i + 1) existing @ SessionFacts c @ drop (i + length pending_line) existing))"

definition narrow :: "u16string \<Rightarrow> string" where
  "narrow name = map (\<lambda>c. char_of (unat c)) name"

definition PackageReportText :: "report_context \<Rightarrow> package \<Rightarrow> string" where
  "PackageReportText c p = ''MCLA-R TEST REPORT'' @ LF @ LF
     @ ''Written by the launcher after the session. Please answer the four questions below,'' @ LF
     @ ''save this file, and send this whole folder to the owner. Nothing is uploaded.'' @ LF @ LF
     @ ''package '' @ narrow (pk_name p) @ LF @ ''kind '' @ (if pk_crash p then ''crash'' else ''live'') @ LF
     @ ''category '' @ PackageCategory p @ LF @ SessionFacts c @ kReportQuestions"

definition ReportText :: "report_context \<Rightarrow> package list \<Rightarrow> string" where
  "ReportText c ps = ''MCLA-R TEST REPORT'' @ LF @ LF
     @ ''Written by the launcher after the session. Each report folder listed below has'' @ LF
     @ ''its own report.txt: answer the questions there and send that folder. You may'' @ LF
     @ ''also answer here for the whole session. Nothing is uploaded.'' @ LF @ LF
     @ SessionFacts c
     @ ''packages (general = bug report, wheel = wheel/force-feedback bug, crash = crash)'' @ LF
     @ concat (map (\<lambda>p. (if pk_crash p then ''  crash/'' else ''  live/'') @ narrow (pk_name p) @ ''  '' @ PackageCategory p @ LF) ps)
     @ kReportQuestions"

subsection \<open>Completing the reports of the packages\<close>

text \<open>
  A package folder: whether it opens, its report file if it has one, and what the calls on it would answer;
  \<open>pd_written\<close> is how much of a new file reaches the disk.
\<close>

record package_folder =
  pd_opens :: bool
  pd_report :: "string option"
  pd_lookup_fails :: bool
  pd_reads :: bool
  pd_write_ok :: bool
  pd_create_ok :: bool
  pd_written :: nat
  pd_flush_ok :: bool

definition complete_report :: "report_context \<Rightarrow> package \<Rightarrow> package_folder \<Rightarrow> package_folder \<times> bool" where
  "complete_report c p d =
     (if \<not> pd_opens d then (d, False)
      else case pd_report d of
        Some content \<Rightarrow>
          if \<not> (pd_reads d \<and> length content \<le> 64 * 1024) then (d, False)
          else (case FillPackageReport content c of
              None \<Rightarrow> (d, True)
            | Some filled \<Rightarrow> if pd_write_ok d then (d\<lparr>pd_report := Some filled\<rparr>, True) else (d, False))
      | None \<Rightarrow>
          if pd_lookup_fails d then (d, False)
          else let content = PackageReportText c p in
            if \<not> pd_create_ok d then (d, False)
            else (d\<lparr>pd_report := Some (take (pd_written d) content)\<rparr>, length content \<le> pd_written d \<and> pd_flush_ok d))"

fun CompletePackageReports :: "report_context \<Rightarrow> (package \<times> package_folder) list \<Rightarrow> package_folder list \<times> bool" where
  "CompletePackageReports c [] = ([], True)"
| "CompletePackageReports c ((p, d) # rest) =
     (case complete_report c p d of (d', ok) \<Rightarrow>
        (case CompletePackageReports c rest of (ds, all) \<Rightarrow> (d' # ds, ok \<and> all)))"

subsection \<open>Which packages are listed\<close>

lemma package_key_crash: "pk_crash p \<Longrightarrow> \<not> pk_crash q \<Longrightarrow> \<not> package_key q \<le> package_key p"
  by (simp add: package_key_def)

lemma sorted_take_split:
  assumes "sorted (map f xs)" "x \<in> set (take n xs)" "y \<in> set xs" "y \<notin> set (take n xs)"
  shows "f x \<le> (f y :: 'a::linorder)"
proof -
  have "y \<in> set (drop n xs)" using assms(3,4) by (metis Un_iff append_take_drop_id set_append)
  moreover have "sorted (map f (take n xs) @ map f (drop n xs))" using assms(1) by (metis append_take_drop_id map_append)
  ultimately show ?thesis using assms(2) by (auto simp: sorted_append)
qed

lemma SessionPackages_member: "p \<in> set (SessionPackages live crash) \<Longrightarrow>
    pk_category p = [] \<and> usable (pk_name p) \<and> pk_name p \<in> set (if pk_crash p then crash else live)"
  by (auto simp: SessionPackages_def new_package_def dest!: in_set_takeD)

text \<open>The list of packages is complete, ordered and bounded: it is sorted with the crashes first, has at most 64
  packages, each of them a usable name of its directory; if there are at most 64 usable names all are
  listed, and no live package is listed while a usable crash package is left out.\<close>

theorem SessionPackages_exact:
  "let ps = SessionPackages live crash; crashes = map (new_package True) (filter usable crash);
       lives = map (new_package False) (filter usable live) in
     sorted (map package_key ps) \<and> length ps = min kMaximumPackages (length crashes + length lives)
     \<and> list_all (\<lambda>p. p \<in> set crashes \<or> p \<in> set lives) ps
     \<and> (if length crashes + length lives \<le> kMaximumPackages then mset ps = mset crashes + mset lives else True)
     \<and> (if list_ex (\<lambda>p. \<not> pk_crash p) ps then list_all (\<lambda>p. p \<in> set ps) crashes else True)"
proof -
  let ?c = "map (new_package True) (filter usable crash)" and ?l = "map (new_package False) (filter usable live)"
  let ?s = "sort_key package_key (?c @ ?l)"
  have ps: "SessionPackages live crash = take kMaximumPackages ?s" by (simp add: SessionPackages_def)
  have 1: "sorted (map package_key (take kMaximumPackages ?s))" by (simp add: take_map [symmetric] sorted_wrt_take)
  have 2: "length (take kMaximumPackages ?s) = min kMaximumPackages (length ?c + length ?l)" by simp
  have 3: "list_all (\<lambda>p. p \<in> set ?c \<or> p \<in> set ?l) (take kMaximumPackages ?s)"
    using set_take_subset [of kMaximumPackages ?s] by (force simp: list_all_iff)
  have 4: "length ?c + length ?l \<le> kMaximumPackages \<Longrightarrow> mset (take kMaximumPackages ?s) = mset ?c + mset ?l"
    by simp
  have 5: "list_all (\<lambda>p. p \<in> set (take kMaximumPackages ?s)) ?c" if "list_ex (\<lambda>p. \<not> pk_crash p) (take kMaximumPackages ?s)"
  proof -
    from that obtain x where x: "x \<in> set (take kMaximumPackages ?s)" "\<not> pk_crash x" by (auto simp only: list_ex_iff)
    have "p \<in> set (take kMaximumPackages ?s)" if "p \<in> set ?c" for p
    proof (rule ccontr)
      assume "p \<notin> set (take kMaximumPackages ?s)"
      moreover have "p \<in> set ?s" using that by simp
      ultimately have "package_key x \<le> package_key p" using x(1) by (intro sorted_take_split [of _ ?s]) simp_all
      moreover have "pk_crash p" using that by (auto simp: new_package_def)
      ultimately show False using package_key_crash x(2) by blast
    qed
    then show ?thesis by (simp only: list_all_iff) blast
  qed
  show ?thesis unfolding ps Let_def
    by (intro conjI if_bool_eq_conj [THEN iffD2] impI TrueI) (fact 1 2 3 | erule 4 | erule 5)+
qed

subsection \<open>The tester's text is preserved\<close>

text \<open>Filling in a report replaces one line and nothing else: it happens exactly when the pending line occurs
  once in the file, and then the text before it, up to and with the line feed, and the text after it stay as they are.\<close>

theorem FillPackageReport_exact:
  "FillPackageReport existing c = Some r \<longleftrightarrow>
     (\<exists>!a. \<exists>b. existing = a @ pending_line @ b) \<and> (\<exists>a b. existing = a @ pending_line @ b \<and> r = a @ LF @ SessionFacts c @ b)"
proof -
  have at: "(\<exists>b. existing = a @ pending_line @ b) \<longleftrightarrow> (\<exists>i \<le> length existing. a = take i existing \<and> prefix pending_line (drop i existing))" for a
  proof
    assume "\<exists>b. existing = a @ pending_line @ b"
    then show "\<exists>i \<le> length existing. a = take i existing \<and> prefix pending_line (drop i existing)"
      by (intro exI [of _ "length a"]) auto
  next
    assume "\<exists>i \<le> length existing. a = take i existing \<and> prefix pending_line (drop i existing)"
    then show "\<exists>b. existing = a @ pending_line @ b" by (metis append_take_drop_id prefix_def)
  qed
  have once: "(\<exists>!a. \<exists>b. existing = a @ pending_line @ b) \<longleftrightarrow>
      (\<exists>i. find_from existing pending_line 0 = Some i \<and> find_from existing pending_line (i + 1) = None)"
  proof
    assume u: "\<exists>!a. \<exists>b. existing = a @ pending_line @ b"
    then have "find_from existing pending_line 0 \<noteq> None" unfolding at by (auto simp: find_from_None)
    then obtain i where i: "find_from existing pending_line 0 = Some i" by blast
    have "find_from existing pending_line (i + 1) = None"
    proof (rule ccontr)
      assume "find_from existing pending_line (i + 1) \<noteq> None"
      then obtain j where j: "j \<le> length existing" "i < j" "prefix pending_line (drop j existing)"
        unfolding find_from_None by (auto simp: Suc_le_eq)
      have "take i existing = take j existing" using u i j unfolding at find_from_Some by blast
      then show False using j(1,2) by (metis length_take less_le_trans min.absorb2 nat_less_le order.strict_implies_order)
    qed
    with i show "\<exists>i. find_from existing pending_line 0 = Some i \<and> find_from existing pending_line (i + 1) = None" by blast
  next
    assume "\<exists>i. find_from existing pending_line 0 = Some i \<and> find_from existing pending_line (i + 1) = None"
    then obtain i where i: "i \<le> length existing" "prefix pending_line (drop i existing)"
      "\<And>j. j < i \<Longrightarrow> \<not> prefix pending_line (drop j existing)"
      "\<And>j. i < j \<Longrightarrow> j \<le> length existing \<Longrightarrow> \<not> prefix pending_line (drop j existing)"
      by (auto simp: find_from_Some find_from_None Suc_le_eq)
    then have "j = i" if "j \<le> length existing" "prefix pending_line (drop j existing)" for j using that by (metis nat_neq_iff)
    then show "\<exists>!a. \<exists>b. existing = a @ pending_line @ b" unfolding at using i(1,2) by blast
  qed
  have cut: "take (i + 1) existing @ s @ drop (i + length pending_line) existing = a @ LF @ s @ b"
    if "existing = a @ pending_line @ b" "i = length a" for a b i s
    using that by (simp add: pending_line_def LF_def)
  show ?thesis
  proof
    assume f: "FillPackageReport existing c = Some r"
    then obtain i where i: "find_from existing pending_line 0 = Some i" "find_from existing pending_line (i + 1) = None"
      "r = take (i + 1) existing @ SessionFacts c @ drop (i + length pending_line) existing"
      by (auto simp: FillPackageReport_def split: option.splits if_splits)
    have e: "existing = take i existing @ pending_line @ drop (i + length pending_line) existing" by (rule find_from_split [OF i(1)])
    moreover have "i = length (take i existing)" using i(1) by (simp add: find_from_Some)
    ultimately have "r = take i existing @ LF @ SessionFacts c @ drop (i + length pending_line) existing"
      using cut i(3) by metis
    then show "(\<exists>!a. \<exists>b. existing = a @ pending_line @ b) \<and> (\<exists>a b. existing = a @ pending_line @ b \<and> r = a @ LF @ SessionFacts c @ b)"
      using once i(1,2) e by blast
  next
    assume h: "(\<exists>!a. \<exists>b. existing = a @ pending_line @ b) \<and> (\<exists>a b. existing = a @ pending_line @ b \<and> r = a @ LF @ SessionFacts c @ b)"
    then obtain i where i: "find_from existing pending_line 0 = Some i" "find_from existing pending_line (i + 1) = None"
      using once by blast
    obtain a b where ab: "existing = a @ pending_line @ b" "r = a @ LF @ SessionFacts c @ b" using h by blast
    have "a = take i existing" using h ab(1) find_from_split [OF i(1)] by blast
    then have "i = length a" using i(1) by (simp add: find_from_Some)
    then show "FillPackageReport existing c = Some r" using i ab(2) cut [OF ab(1)] by (simp add: FillPackageReport_def)
  qed
qed

definition report_kept :: "report_context \<Rightarrow> package \<times> package_folder \<Rightarrow> package_folder \<Rightarrow> bool" where
  "report_kept c x d' \<longleftrightarrow> (case pd_report (snd x) of
     Some content \<Rightarrow> pd_report d' = Some content \<or> (\<exists>r. FillPackageReport content c = Some r \<and> pd_report d' = Some r)
   | None \<Rightarrow> (\<exists>n. pd_report d' = map_option (take n) (if pd_create_ok (snd x) \<and> pd_report d' \<noteq> None then Some (PackageReportText c (fst x)) else None)))"

lemma complete_report_kept: "report_kept c (p, d) (fst (complete_report c p d))"
  by (auto simp: complete_report_def report_kept_def Let_def split: option.splits)

text \<open>Every folder keeps the text of its report, but for the pending line, and a new one comes from the launcher alone.\<close>

lemma CompletePackageReports_kept: "list_all2 (report_kept c) xs (fst (CompletePackageReports c xs))"
proof (induction xs)
  case (Cons x xs)
  obtain p d where "x = (p, d)" by fastforce
  then show ?case using Cons complete_report_kept [of c p d] by (simp add: split_beta)
qed simp

end
