(* ===== verification/ExportText.thy ===== *)
theory ExportText
  imports TextLines
begin

section \<open>Texts of the diagnostic export (\<open>mcla_diagnostic_export_policy.h\<close>)\<close>

text \<open>
  The validators of single texts: canonical decimals, UTF-8 without control characters, four-part
  versions. A byte is a \<open>char\<close>.
\<close>

subsection \<open>Decimals\<close>

text \<open>The loop over the digits; the value fits 32 bits after each of them, so the 64-bit product never wraps.\<close>

fun decimal_loop :: "nat \<Rightarrow> string \<Rightarrow> nat option" where
  "decimal_loop v [] = Some v"
| "decimal_loop v (c # cs) =
     (if \<not> is_digit c then None
      else let v' = 10 * v + digit_value c in
        if int v' > 0xFFFFFFFF then None else decimal_loop v' cs)"

definition Decimal :: "string \<Rightarrow> u32 option" where
  "Decimal s =
     (if s = [] \<or> length s > 10 \<or> (length s > 1 \<and> hd s = CHR ''0'') then None
      else map_option of_nat (decimal_loop 0 s))"

lemma digits_grow: "v \<le> foldl (\<lambda>v c. 10 * v + digit_value c) v s"
proof (induction s arbitrary: v)
  case (Cons c s)
  from Cons [of "10 * v + digit_value c"] show ?case by simp
qed simp

lemma decimal_loop_value: "decimal_loop v s = Some n \<longleftrightarrow>
    list_all is_digit s \<and> n = foldl (\<lambda>v c. 10 * v + digit_value c) v s \<and> (s = [] \<or> n \<le> 0xFFFFFFFF)"
proof (induction s arbitrary: v)
  case (Cons c s)
  show ?case using Cons [of "10 * v + digit_value c"] digits_grow [of "10 * v + digit_value c" s]
    by (cases "s = []") (auto simp: Let_def not_less)
qed auto

lemma decimal_length: "n < 10 ^ Suc k \<Longrightarrow> length (decimal n) \<le> Suc k"
proof (induction k arbitrary: n)
  case (Suc k)
  then have "n div 10 < 10 ^ Suc k" by (simp add: less_mult_imp_div_less mult.commute)
  from Suc.IH [OF this] show ?case by (simp add: decimal.simps [of n])
qed (simp add: decimal.simps)

text \<open>Accepted are exactly the canonical texts of 32-bit numbers.\<close>

lemma Decimal_iff: "Decimal s = Some v \<longleftrightarrow> s = decimal (unat v)"
proof
  assume "Decimal s = Some v"
  then obtain n where n: "decimal_loop 0 s = Some n" "v = of_nat n" "s \<noteq> []" "length s > 1 \<Longrightarrow> hd s \<noteq> CHR ''0''"
    by (auto simp: Decimal_def split: if_splits)
  then have d: "list_all is_digit s" "n = number_value s" "n \<le> 0xFFFFFFFF"
    by (auto simp: decimal_loop_value number_value_def)
  then have "unat v = n" using n(2) by (simp add: unat_of_nat take_bit_nat_eq_self)
  with decimal_number_value [OF d(1) n(3,4)] d(2) show "s = decimal (unat v)" by simp
next
  assume s: "s = decimal (unat v)"
  have v: "unat v < 2 ^ 32" using unsigned_less [of v] by simp
  then have "length s \<le> Suc 9" unfolding s by (intro decimal_length) simp
  moreover have "decimal_loop 0 s = Some (unat v)"
    using number_value_decimal [of "unat v"] v by (simp add: s decimal_loop_value decimal_all_digits number_value_def)
  ultimately show "Decimal s = Some v" using decimal_no_leading_zero [of "unat v"] by (simp add: Decimal_def s)
qed

subsection \<open>UTF-8\<close>

text \<open>The lead byte of a longer sequence: how many bytes follow, its payload, the least value it may have.\<close>

definition lead_byte :: "nat \<Rightarrow> (nat \<times> nat \<times> nat) option" where
  "lead_byte first =
     (if first \<ge> 0xC2 \<and> first \<le> 0xDF then Some (1, and first 0x1F, 0x80)
      else if first \<ge> 0xE0 \<and> first \<le> 0xEF then Some (2, and first 0x0F, 0x800)
      else if first \<ge> 0xF0 \<and> first \<le> 0xF4 then Some (3, and first 0x07, 0x10000)
      else None)"

fun continue_bytes :: "nat \<Rightarrow> nat \<Rightarrow> string \<Rightarrow> (nat \<times> string) option" where
  "continue_bytes 0 v s = Some (v, s)"
| "continue_bytes (Suc k) v [] = None"
| "continue_bytes (Suc k) v (c # s) =
     (if and (byte c) 0xC0 \<noteq> 0x80 then None
      else continue_bytes k (or (push_bit 6 v) (and (byte c) 0x3F)) s)"

text \<open>One round of the loop: the value read and the rest, \<open>None\<close> where the code returns false.\<close>

definition utf8_next :: "char \<Rightarrow> string \<Rightarrow> (nat \<times> string) option" where
  "utf8_next c s = (let first = byte c in
     if first < 0x80 then (if first < 0x20 \<or> first = 0x7F then None else Some (first, s))
     else case lead_byte first of
       None \<Rightarrow> None
     | Some (k, v, least) \<Rightarrow>
         if length s < k then None
         else case continue_bytes k v s of
           None \<Rightarrow> None
         | Some (value, rest) \<Rightarrow>
             if value < least \<or> value > 0x10FFFF \<or> (value \<ge> 0xD800 \<and> value \<le> 0xDFFF)
                \<or> (value \<ge> 0x80 \<and> value \<le> 0x9F) then None
             else Some (value, rest))"

lemma continue_length: "continue_bytes k v s = Some (x, rest) \<Longrightarrow> length rest \<le> length s"
  by (induction k v s rule: continue_bytes.induct) (auto split: if_splits)

lemma utf8_next_length: "utf8_next c s = Some (x, rest) \<Longrightarrow> length rest \<le> length s"
  by (auto simp: utf8_next_def Let_def split: if_split_asm option.split_asm prod.split_asm intro: continue_length)

function utf8_loop :: "string \<Rightarrow> bool" where
  "utf8_loop [] = True"
| "utf8_loop (c # s) = (case utf8_next c s of None \<Rightarrow> False | Some (x, rest) \<Rightarrow> utf8_loop rest)"
  by pat_completeness auto
termination
  by (relation "measure length") (auto dest: utf8_next_length)

definition SafeUtf8 :: "string \<Rightarrow> nat \<Rightarrow> bool" where
  "SafeUtf8 s maximum \<longleftrightarrow> \<not> (s = [] \<or> length s > maximum) \<and> utf8_loop s"

text \<open>The reference: the encoding of a scalar value, and the values that a safe text may contain.\<close>

definition utf8 :: "nat \<Rightarrow> string" where
  "utf8 n = map char_of
     (if n < 0x80 then [n]
      else if n < 0x800 then [0xC0 + n div 64, 0x80 + n mod 64]
      else if n < 0x10000 then [0xE0 + n div 4096, 0x80 + n div 64 mod 64, 0x80 + n mod 64]
      else [0xF0 + n div 262144, 0x80 + n div 4096 mod 64, 0x80 + n div 64 mod 64, 0x80 + n mod 64])"

definition safe_scalar :: "nat \<Rightarrow> bool" where
  "safe_scalar n \<longleftrightarrow> 0x20 \<le> n \<and> n \<noteq> 0x7F \<and> \<not> (0x80 \<le> n \<and> n \<le> 0x9F) \<and> n \<le> 0x10FFFF \<and> \<not> (0xD800 \<le> n \<and> n \<le> 0xDFFF)"

lemma and_low:
  fixes b :: nat
  shows "and b 0x3F = b mod 64" "and b 0x1F = b mod 32" "and b 0x0F = b mod 16" "and b 0x07 = b mod 8"
  using take_bit_eq_mask [of 6 b] take_bit_eq_mask [of 5 b] take_bit_eq_mask [of 4 b] take_bit_eq_mask [of 3 b]
  by (simp_all add: take_bit_eq_mod mask_eq_exp_minus_1)

lemma or_payload:
  fixes v b :: nat
  shows "or (push_bit 6 v) (b mod 64) = 64 * v + b mod 64"
proof -
  have "and (push_bit 6 v) (b mod 64) = 0"
    using bit_take_bit_iff [of 6 b] by (intro bit_eqI) (auto simp: bit_simps take_bit_eq_mod [of 6 b, simplified, symmetric])
  then show ?thesis by (simp add: disjunctive_add_eq_or [symmetric] push_bit_eq_mult)
qed

lemma continuation_byte: "n < 256 \<Longrightarrow> and (n :: nat) 0xC0 = 0x80 \<longleftrightarrow> 0x80 \<le> n \<and> n < 0xC0"
proof -
  assume n: "n < 256"
  have "and n 0xC0 = push_bit 6 (and (drop_bit 6 n) 3)"
    by (rule bit_eqI) (auto simp: bit_simps push_bit_of_nat [of 6 3, symmetric] bit_push_bit_iff [of 6 "3 :: nat", simplified])
  also have "\<dots> = 64 * (n div 64 mod 4)"
    using take_bit_eq_mask [of 2 "n div 64"] by (simp add: drop_bit_eq_div push_bit_eq_mult take_bit_eq_mod mask_eq_exp_minus_1)
  finally show ?thesis using n by simp linarith
qed


lemma continue_step: "continue_bytes (Suc k) v (c # s) =
   (if 0x80 \<le> byte c \<and> byte c < 0xC0 then continue_bytes k (64 * v + byte c mod 64) s else None)"
  by (simp add: continuation_byte and_low or_payload)

declare continue_bytes.simps [simp del]

lemmas continue_simps = continue_bytes.simps(1) continue_step

lemma lead_byte_simps:
  "0xC2 \<le> f \<Longrightarrow> f \<le> 0xDF \<Longrightarrow> lead_byte f = Some (1, f mod 32, 0x80)"
  "0xE0 \<le> f \<Longrightarrow> f \<le> 0xEF \<Longrightarrow> lead_byte f = Some (2, f mod 16, 0x800)"
  "0xF0 \<le> f \<Longrightarrow> f \<le> 0xF4 \<Longrightarrow> lead_byte f = Some (3, f mod 8, 0x10000)"
  by (simp_all add: lead_byte_def and_low)

lemma payload_mod:
  "x < 32 \<Longrightarrow> (0xC0 + x) mod 32 = (x :: nat)" "x < 16 \<Longrightarrow> (0xE0 + x) mod 16 = (x :: nat)"
  "x < 8 \<Longrightarrow> (0xF0 + x) mod 8 = (x :: nat)" "(0x80 + y mod 64) mod 64 = (y mod 64 :: nat)"
  by (simp_all add: mod_add_eq [symmetric, of 192] mod_add_eq [symmetric, of 224] mod_add_eq [symmetric, of 240]
      mod_add_eq [symmetric, of 128])

lemma split_by_64: "64 * (n div 64) + n mod 64 = (n :: nat)"
  "64 * (n div 4096) + n div 64 mod 64 = n div 64" "64 * (n div 262144) + n div 4096 mod 64 = n div 4096"
  using mult_div_mod_eq [of 64 "n div 64"] mult_div_mod_eq [of 64 "n div 4096"]
  by (simp_all add: div_mult2_eq [symmetric])

lemma continue_chars:
  assumes "0x80 \<le> a" "a < 0xC0" "0x80 \<le> b" "b < 0xC0" "0x80 \<le> d" "d < 0xC0"
  shows "continue_bytes 1 v (char_of a # s) = Some (64 * v + a mod 64, s)"
    "continue_bytes 2 v (char_of a # char_of b # s) = Some (64 * (64 * v + a mod 64) + b mod 64, s)"
    "continue_bytes 3 v (char_of a # char_of b # char_of d # s)
       = Some (64 * (64 * (64 * v + a mod 64) + b mod 64) + d mod 64, s)"
  using assms by (simp_all add: continue_simps numeral_2_eq_2 numeral_3_eq_3)

lemma utf8_next_lead:
  assumes "lead_byte (byte c) = Some (k, v, least)" "continue_bytes k v s = Some (n, rest)" "k \<le> length s"
    "least \<le> n" "safe_scalar n" "0x80 \<le> n"
  shows "utf8_next c s = Some (n, rest)"
proof -
  have "\<not> byte c < 0x80" using assms(1) by (auto simp: lead_byte_def split: if_splits)
  then show ?thesis using assms by (auto simp: utf8_next_def Let_def safe_scalar_def)
qed

lemma next_utf8:
  assumes n: "safe_scalar n" and c: "utf8 n = c # t"
  shows "utf8_next c (t @ rest) = Some (n, rest)"
proof -
  have m: "0x80 \<le> 0x80 + x mod 64" "0x80 + x mod 64 < 0xC0" for x :: nat by simp_all
  consider (1) "n < 0x80" | (2) "0x80 \<le> n" "n < 0x800" | (3) "0x800 \<le> n" "n < 0x10000" | (4) "0x10000 \<le> n" "n \<le> 0x10FFFF"
    using n unfolding safe_scalar_def by linarith
  then show ?thesis
  proof cases
    case 1
    with n c show ?thesis by (auto simp: utf8_def utf8_next_def safe_scalar_def)
  next
    case 2
    let ?f = "0xC0 + n div 64" and ?a = "0x80 + n mod 64"
    have t: "c = char_of ?f" "t = [char_of ?a]" using 2 c by (auto simp: utf8_def)
    have "n div 64 < 32" using 2 by simp
    then have "continue_bytes 1 (?f mod 32) (t @ rest) = Some (n, rest)"
      using continue_chars(1) [OF m m m, of "?f mod 32" n rest] by (simp only: t append.simps payload_mod split_by_64)
    moreover have "lead_byte (byte c) = Some (1, ?f mod 32, 0x80)" using 2 t(1) by (simp only: byte_char, intro lead_byte_simps) simp_all
    ultimately show ?thesis using 2 n t by (intro utf8_next_lead) (auto simp: Suc_le_eq)
  next
    case 3
    let ?f = "0xE0 + n div 4096" and ?a = "0x80 + n div 64 mod 64" and ?b = "0x80 + n mod 64"
    have t: "c = char_of ?f" "t = [char_of ?a, char_of ?b]" using 3 c by (auto simp: utf8_def)
    have "n div 4096 < 16" using 3 by simp
    then have "continue_bytes 2 (?f mod 16) (t @ rest) = Some (n, rest)"
      using continue_chars(2) [OF m m m, of "?f mod 16" "n div 64" n rest] by (simp only: t append.simps payload_mod split_by_64)
    moreover have "lead_byte (byte c) = Some (2, ?f mod 16, 0x800)" using 3 t(1) by (simp only: byte_char, intro lead_byte_simps) simp_all
    ultimately show ?thesis using 3 n t by (intro utf8_next_lead) (auto simp: Suc_le_eq)
  next
    case 4
    let ?f = "0xF0 + n div 262144" and ?a = "0x80 + n div 4096 mod 64" and ?b = "0x80 + n div 64 mod 64" and ?d = "0x80 + n mod 64"
    have t: "c = char_of ?f" "t = [char_of ?a, char_of ?b, char_of ?d]" using 4 c by (auto simp: utf8_def)
    have "n div 262144 < 8" using 4 by simp
    then have "continue_bytes 3 (?f mod 8) (t @ rest) = Some (n, rest)"
      using continue_chars(3) [OF m m m, of "?f mod 8" "n div 4096" "n div 64" n rest] by (simp only: t append.simps payload_mod split_by_64)
    moreover have "lead_byte (byte c) = Some (3, ?f mod 8, 0x10000)" using 4 t(1) by (simp only: byte_char, intro lead_byte_simps) simp_all
    ultimately show ?thesis using 4 n t by (intro utf8_next_lead) (auto simp: Suc_le_eq)
  qed
qed


lemma window_mod: "k * m \<le> b \<Longrightarrow> b < k * m + m \<Longrightarrow> k * m + b mod m = (b :: nat)"
  by (metis add.commute div_nat_eqI mod_div_mult_eq mult.commute mult_Suc_right)

lemma byte_windows:
  "0x80 \<le> b \<Longrightarrow> b < 0xC0 \<Longrightarrow> 0x80 + b mod 64 = (b :: nat)" "0xC2 \<le> b \<Longrightarrow> b \<le> 0xDF \<Longrightarrow> 0xC0 + b mod 32 = b"
  "0xE0 \<le> b \<Longrightarrow> b \<le> 0xEF \<Longrightarrow> 0xE0 + b mod 16 = b" "0xF0 \<le> b \<Longrightarrow> b \<le> 0xF4 \<Longrightarrow> 0xF0 + b mod 8 = b"
  using window_mod [of 2 64 b] window_mod [of 6 32 b] window_mod [of 14 16 b] window_mod [of 30 8 b] by simp_all

lemma continue_Some:
  "continue_bytes 1 v s = Some (n, rest) \<Longrightarrow> \<exists>a. s = a # rest \<and> n = 64 * v + byte a mod 64 \<and> 0x80 + byte a mod 64 = byte a"
  "continue_bytes 2 v s = Some (n, rest) \<Longrightarrow> \<exists>a b. s = a # b # rest \<and> n = 64 * (64 * v + byte a mod 64) + byte b mod 64
     \<and> 0x80 + byte a mod 64 = byte a \<and> 0x80 + byte b mod 64 = byte b"
  "continue_bytes 3 v s = Some (n, rest) \<Longrightarrow> \<exists>a b d. s = a # b # d # rest
     \<and> n = 64 * (64 * (64 * v + byte a mod 64) + byte b mod 64) + byte d mod 64
     \<and> 0x80 + byte a mod 64 = byte a \<and> 0x80 + byte b mod 64 = byte b \<and> 0x80 + byte d mod 64 = byte d"
proof -
  have one: "\<exists>a t. s = a # t \<and> 0x80 + byte a mod 64 = byte a \<and> continue_bytes k (64 * v + byte a mod 64) t = Some (n, rest)"
    if "continue_bytes (Suc k) v s = Some (n, rest)" for k v s
    using that by (cases s) (auto simp: continue_bytes.simps(2) continue_step byte_windows(1) split: if_splits)
  show "continue_bytes 1 v s = Some (n, rest) \<Longrightarrow> \<exists>a. s = a # rest \<and> n = 64 * v + byte a mod 64 \<and> 0x80 + byte a mod 64 = byte a"
    using one [of 0 v s] by (auto simp: continue_bytes.simps(1))
  show "continue_bytes 2 v s = Some (n, rest) \<Longrightarrow> \<exists>a b. s = a # b # rest \<and> n = 64 * (64 * v + byte a mod 64) + byte b mod 64
     \<and> 0x80 + byte a mod 64 = byte a \<and> 0x80 + byte b mod 64 = byte b"
    unfolding numeral_2_eq_2 by (drule one, elim exE conjE, drule one) (auto simp: continue_bytes.simps(1))
  show "continue_bytes 3 v s = Some (n, rest) \<Longrightarrow> \<exists>a b d. s = a # b # d # rest
     \<and> n = 64 * (64 * (64 * v + byte a mod 64) + byte b mod 64) + byte d mod 64
     \<and> 0x80 + byte a mod 64 = byte a \<and> 0x80 + byte b mod 64 = byte b \<and> 0x80 + byte d mod 64 = byte d"
    unfolding numeral_3_eq_3 by (drule one, elim exE conjE, drule one, elim exE conjE, drule one) (auto simp: continue_bytes.simps(1))
qed

lemma sixty_four: "(64 * x + y mod 64) div 64 = (x :: nat)" "(64 * x + y mod 64) mod 64 = y mod 64"
  by simp_all

lemma utf8_two: "0x80 \<le> n \<Longrightarrow> n < 0x800 \<Longrightarrow> utf8 n = map char_of [0xC0 + n div 64, 0x80 + n mod 64]"
  and utf8_three: "0x800 \<le> n \<Longrightarrow> n < 0x10000 \<Longrightarrow> utf8 n = map char_of [0xE0 + n div 64 div 64, 0x80 + n div 64 mod 64, 0x80 + n mod 64]"
  and utf8_four: "0x10000 \<le> n \<Longrightarrow> utf8 n = map char_of [0xF0 + n div 64 div 64 div 64, 0x80 + n div 64 div 64 mod 64, 0x80 + n div 64 mod 64, 0x80 + n mod 64]"
  by (simp_all add: utf8_def div_mult2_eq [symmetric])

lemma utf8_next_Some: "utf8_next c s = Some (n, rest) \<longleftrightarrow> safe_scalar n \<and> c # s = utf8 n @ rest"
proof
  assume a: "utf8_next c s = Some (n, rest)"
  show "safe_scalar n \<and> c # s = utf8 n @ rest"
  proof (cases "byte c < 0x80")
    case True
    with a show ?thesis by (auto simp: utf8_next_def Let_def safe_scalar_def utf8_def split: if_splits)
  next
    case False
    with a obtain k v least where l: "lead_byte (byte c) = Some (k, v, least)" "continue_bytes k v s = Some (n, rest)"
      "least \<le> n" and ok: "n \<le> 0x10FFFF" "\<not> (0xD800 \<le> n \<and> n \<le> 0xDFFF)" "\<not> (0x80 \<le> n \<and> n \<le> 0x9F)"
      by (auto simp: utf8_next_def Let_def not_less split: if_split_asm option.split_asm prod.split_asm)
    then consider (2) "0xC2 \<le> byte c" "byte c \<le> 0xDF" "k = 1" "v = byte c mod 32" "least = 0x80"
      | (3) "0xE0 \<le> byte c" "byte c \<le> 0xEF" "k = 2" "v = byte c mod 16" "least = 0x800"
      | (4) "0xF0 \<le> byte c" "byte c \<le> 0xF4" "k = 3" "v = byte c mod 8" "least = 0x10000"
      by (auto simp: lead_byte_def and_low split: if_splits)
    then show ?thesis
    proof cases
      case 2
      then obtain a where s: "s = a # rest" "n = 64 * v + byte a mod 64" "0x80 + byte a mod 64 = byte a"
        using continue_Some(1) l(2) by blast
      have "v < 32" "byte a mod 64 < 64" using 2(4) by simp_all
      then have "n < 0x800" using s(2) by linarith
      then have u: "utf8 n = map char_of [0xC0 + v, 0x80 + byte a mod 64]" using l(3) 2(5) by (simp add: utf8_two s(2) sixty_four)
      moreover have "0xC0 + v = byte c" using byte_windows(2) 2 by simp
      ultimately show ?thesis using s ok l(3) 2(5) by (simp add: safe_scalar_def)
    next
      case 3
      then obtain a b where s: "s = a # b # rest" "n = 64 * (64 * v + byte a mod 64) + byte b mod 64"
        "0x80 + byte a mod 64 = byte a" "0x80 + byte b mod 64 = byte b"
        using continue_Some(2) l(2) by blast
      have "v < 16" "byte a mod 64 < 64" "byte b mod 64 < 64" using 3(4) by simp_all
      then have low: "64 * v + byte a mod 64 \<le> 1023" by linarith
      have "64 * x + y < 0x10000" if "x \<le> 1023" "y < 64" for x y :: nat using that by linarith
      then have "n < 0x10000" unfolding s(2) using low \<open>byte b mod 64 < 64\<close> by blast
      moreover have "n div 64 div 64 = v" "n div 64 mod 64 = byte a mod 64" "n mod 64 = byte b mod 64"
        by (simp_all only: s(2) sixty_four)
      ultimately have u: "utf8 n = map char_of [0xE0 + v, 0x80 + byte a mod 64, 0x80 + byte b mod 64]"
        using utf8_three [of n] l(3) 3(5) by (simp only:)
      moreover have "0xE0 + v = byte c" using byte_windows(3) 3 by simp
      ultimately show ?thesis using s ok l(3) 3(5) by (simp add: safe_scalar_def)
    next
      case 4
      then obtain a b d where s: "s = a # b # d # rest"
        "n = 64 * (64 * (64 * v + byte a mod 64) + byte b mod 64) + byte d mod 64"
        "0x80 + byte a mod 64 = byte a" "0x80 + byte b mod 64 = byte b" "0x80 + byte d mod 64 = byte d"
        using continue_Some(3) l(2) by blast
      have "n div 64 div 64 div 64 = v" "n div 64 div 64 mod 64 = byte a mod 64" "n div 64 mod 64 = byte b mod 64"
        "n mod 64 = byte d mod 64" by (simp_all only: s(2) sixty_four)
      then have u: "utf8 n = map char_of [0xF0 + v, 0x80 + byte a mod 64, 0x80 + byte b mod 64, 0x80 + byte d mod 64]"
        using utf8_four [of n] l(3) 4(5) by (simp only:)
      moreover have "0xF0 + v = byte c" using byte_windows(4) 4 by simp
      ultimately show ?thesis using s ok l(3) 4(5) by (simp add: safe_scalar_def)
    qed
  qed
next
  assume a: "safe_scalar n \<and> c # s = utf8 n @ rest"
  then obtain t where "utf8 n = c # t" "s = t @ rest" by (cases "utf8 n") (auto simp: utf8_def split: if_splits)
  with a next_utf8 show "utf8_next c s = Some (n, rest)" by blast
qed

lemma utf8_nonempty: "utf8 n \<noteq> []" by (simp add: utf8_def)

lemma utf8_loop_iff: "utf8_loop s \<longleftrightarrow> (\<exists>ns. list_all safe_scalar ns \<and> s = concat (map utf8 ns))"
proof (induction "length s" arbitrary: s rule: less_induct)
  case less
  show ?case
  proof (cases s)
    case Nil
    then show ?thesis by (auto intro: exI [of _ "[]"])
  next
    case (Cons c t)
    have "utf8_loop s \<longleftrightarrow> (\<exists>n rest. utf8_next c t = Some (n, rest) \<and> utf8_loop rest)"
      by (auto simp: Cons split: option.splits)
    also have "\<dots> \<longleftrightarrow> (\<exists>n rest. safe_scalar n \<and> s = utf8 n @ rest \<and> utf8_loop rest)"
      by (simp only: utf8_next_Some Cons conj_assoc)
    also have "\<dots> \<longleftrightarrow> (\<exists>n rest. safe_scalar n \<and> s = utf8 n @ rest \<and> (\<exists>ns. list_all safe_scalar ns \<and> rest = concat (map utf8 ns)))"
    proof -
      have "length rest < length s" if "s = utf8 n @ rest" for n rest using that utf8_nonempty [of n] by simp
      then show ?thesis using less by blast
    qed
    also have "\<dots> \<longleftrightarrow> (\<exists>ns. list_all safe_scalar ns \<and> s = concat (map utf8 ns))"
    proof
      assume "\<exists>n rest. safe_scalar n \<and> s = utf8 n @ rest \<and> (\<exists>ns. list_all safe_scalar ns \<and> rest = concat (map utf8 ns))"
      then obtain n ns where "safe_scalar n" "list_all safe_scalar ns" "s = utf8 n @ concat (map utf8 ns)" by blast
      then show "\<exists>ns. list_all safe_scalar ns \<and> s = concat (map utf8 ns)" by (intro exI [of _ "n # ns"]) simp
    next
      assume "\<exists>ns. list_all safe_scalar ns \<and> s = concat (map utf8 ns)"
      then obtain n ns where "list_all safe_scalar (n # ns)" "s = concat (map utf8 (n # ns))"
        using Cons by (metis concat.simps(1) list.distinct(1) list.simps(8) neq_Nil_conv)
      then show "\<exists>n rest. safe_scalar n \<and> s = utf8 n @ rest \<and> (\<exists>ns. list_all safe_scalar ns \<and> rest = concat (map utf8 ns))"
        by auto
    qed
    finally show ?thesis .
  qed
qed

text \<open>C19: the UTF-8 validator is exact: it accepts a text if and only if the text is not empty, within the
  bound, and the encoding of a sequence of Unicode scalar values without control characters; so
  overlong, truncated and surrogate sequences are refused.\<close>

theorem SafeUtf8_exact:
  "SafeUtf8 s maximum \<longleftrightarrow> s \<noteq> [] \<and> length s \<le> maximum \<and> (\<exists>ns. list_all safe_scalar ns \<and> s = concat (map utf8 ns))"
  by (auto simp: SafeUtf8_def utf8_loop_iff)

end
