(* ===== verification/DiagnosticExport.thy ===== *)
theory DiagnosticExport
  imports Complex_Main Capabilities ImportPolicy ExportText
begin

section \<open>Metadata of a diagnostics export (\<open>mcla_diagnostic_export_policy.h\<close>)\<close>

text \<open>
  The projection of a private diagnostics package to a report that may be shared: the receipt of the
  session, the capability record, the manifest and the state are checked against each other, the
  performance lines of the log become numbers, and each field of the report is built from a checked
  scalar. The JSON library is third-party code: its parser (with the callback events it raises) and its
  printer are arguments. An exception is \<open>None\<close>. Large bounds are \<open>int\<close>, so that they evaluate.
\<close>

subsection \<open>Parsing\<close>

definition kMaximumExportLogTailBytes :: int where "kMaximumExportLogTailBytes = 1024 * 1024"
definition kMaximumPerformanceMinutes :: nat where "kMaximumPerformanceMinutes = 10"
definition kMaximumExportJsonBytes :: int where "kMaximumExportJsonBytes = 1024 * 1024"
definition kMaximumExportReceiptBytes :: int where "kMaximumExportReceiptBytes = 16384"

function export_version :: "nat \<Rightarrow> string \<Rightarrow> bool" where
  "export_version count s = (case split_at (CHR ''.'') s of (component, rest) \<Rightarrow>
     (case Decimal component of
        None \<Rightarrow> False
      | Some v \<Rightarrow>
          if v > 65535 \<or> count + 1 > 4 then False
          else (case rest of None \<Rightarrow> count + 1 = 4 | Some s' \<Rightarrow> export_version (count + 1) s')))"
  by pat_completeness auto
termination
  by (relation "measure (\<lambda>(count, s). length s)") (auto dest: split_at_length [OF sym])

declare export_version.simps [simp del]

definition ExportVersion :: "string \<Rightarrow> bool" where
  "ExportVersion s \<longleftrightarrow> (if s = [] \<or> length s > 23 then False else export_version 0 s)"

datatype export_event = ExObjectStart | ExObjectEnd | ExKey json | ExArrayStart | ExArrayEnd | ExValue json

type_synonym export_parser = "string \<Rightarrow> (int \<times> export_event) list \<times> json option"
type_synonym export_state = "nat \<times> string list option list"

definition NUL :: char where "NUL = CHR 0x00"

definition export_callback :: "export_state \<Rightarrow> int \<times> export_event \<Rightarrow> export_state option" where
  "export_callback s x = (case (s, x) of ((events, containers), (depth, event)) \<Rightarrow>
     if \<not> (depth \<le> 16 \<and> int (events + 1) \<le> 8192) then None
     else case event of
       ExObjectStart \<Rightarrow> if \<not> length containers < 16 then None else Some (events + 1, Some [] # containers)
     | ExArrayStart \<Rightarrow> if \<not> length containers < 16 then None else Some (events + 1, None # containers)
     | ExObjectEnd \<Rightarrow> (case containers of [] \<Rightarrow> None | _ # rest \<Rightarrow> Some (events + 1, rest))
     | ExArrayEnd \<Rightarrow> (case containers of [] \<Rightarrow> None | _ # rest \<Rightarrow> Some (events + 1, rest))
     | ExKey parsed \<Rightarrow>
         (case containers of
            Some keys # rest \<Rightarrow> (case parsed of
                JString key \<Rightarrow> if length key \<le> 128 \<and> NUL \<notin> set key \<and> key \<notin> set keys
                  then Some (events + 1, Some (key # keys) # rest) else None
              | _ \<Rightarrow> None)
          | _ \<Rightarrow> None)
     | ExValue parsed \<Rightarrow>
         (case parsed of JString s \<Rightarrow> if NUL \<in> set s then None else Some (events + 1, containers)
          | _ \<Rightarrow> Some (events + 1, containers)))"

fun export_callbacks :: "export_state \<Rightarrow> (int \<times> export_event) list \<Rightarrow> export_state option" where
  "export_callbacks s [] = Some s"
| "export_callbacks s (x # xs) = (case export_callback s x of None \<Rightarrow> None | Some s' \<Rightarrow> export_callbacks s' xs)"

definition Require :: "bool \<Rightarrow> 'a option \<Rightarrow> 'a option" where
  "Require ok r = (if ok then r else None)"

definition ParseJson :: "export_parser \<Rightarrow> string \<Rightarrow> json option" where
  "ParseJson parser s = Require (s \<noteq> [] \<and> int (length s) \<le> kMaximumExportJsonBytes \<and> NUL \<notin> set s)
     (case parser s of (events, v) \<Rightarrow>
        if export_callbacks (0, []) events = None then None
        else case v of Some (JObject kvs) \<Rightarrow> Some (JObject kvs) | _ \<Rightarrow> None)"

definition ObjectAt :: "json \<Rightarrow> string \<Rightarrow> json option" where
  "ObjectAt parent name = (case member parent name of Some (JObject kvs) \<Rightarrow> Some (JObject kvs) | _ \<Rightarrow> None)"

definition TextAt :: "json \<Rightarrow> string \<Rightarrow> nat \<Rightarrow> string option" where
  "TextAt parent name maximum = (case member parent name of
     Some (JString s) \<Rightarrow> Require (SafeUtf8 s maximum) (Some s) | _ \<Rightarrow> None)"

definition BooleanAt :: "json \<Rightarrow> string \<Rightarrow> bool option" where
  "BooleanAt parent name = (case member parent name of Some (JBool b) \<Rightarrow> Some b | _ \<Rightarrow> None)"

definition UnsignedAt :: "json \<Rightarrow> string \<Rightarrow> int \<Rightarrow> nat option" where
  "UnsignedAt parent name maximum = (case member parent name of
     Some (JUnsigned n) \<Rightarrow> Require (uint n \<le> maximum) (Some (unat n)) | _ \<Rightarrow> None)"

subsection \<open>The receipt of the session\<close>

definition receipt_header :: string where "receipt_header = ''MCLA-MANAGED-SESSION-V1'' @ [CHR 0x0A]"

definition required_fields :: "string list" where
  "required_fields = [''profile'', ''build'', ''game'', ''timing'', ''gpu'', ''adapter'', ''scale'', ''vsync'', ''fullscreen'']"

definition optional_fields :: "string list" where
  "optional_fields = [''render_target'', ''guest_mode'', ''capability_policy'', ''capability_record'']"

fun receipt_lines :: "(string \<times> string) list \<Rightarrow> string list \<Rightarrow> (string \<times> string) list option" where
  "receipt_lines fs [] = Some fs"
| "receipt_lines fs (l # ls) = (case split_at (CHR '' '') l of
     (key, Some v) \<Rightarrow> Require (key \<noteq> [] \<and> v \<noteq> [] \<and> length key \<le> 32 \<and> length v \<le> 1024 \<and> map_of fs key = None)
       (receipt_lines (fs @ [(key, v)]) ls)
   | _ \<Rightarrow> None)"

definition has_field :: "(string \<times> string) list \<Rightarrow> string \<Rightarrow> bool" where
  "has_field fs k \<longleftrightarrow> map_of fs k \<noteq> None"

definition Receipt :: "string \<Rightarrow> (string \<times> string) list option" where
  "Receipt s = Require (int (length s) \<le> kMaximumExportReceiptBytes \<and> prefix receipt_header s \<and> List.last s = CHR 0x0A
       \<and> CHR 0x0D \<notin> set s \<and> NUL \<notin> set s)
     (Option.bind (receipt_lines [] (butlast (split_all (CHR 0x0A) (drop (length receipt_header) s)))) (\<lambda>fs.
       Require (list_all (has_field fs) required_fields
           \<and> list_all (\<lambda>(key, v). key \<in> set required_fields \<or> key \<in> set optional_fields) fs
           \<and> has_field fs ''render_target'' = has_field fs ''guest_mode''
           \<and> has_field fs ''capability_policy'' = has_field fs ''capability_record'')
         (Some fs)))"

definition field :: "(string \<times> string) list \<Rightarrow> string \<Rightarrow> string" where
  "field fs k = (case map_of fs k of None \<Rightarrow> [] | Some v \<Rightarrow> v)"

definition Vendor :: "string \<Rightarrow> string" where
  "Vendor gpu =
     (if gpu = ''NVIDIA'' \<or> prefix ''NVIDIA '' gpu then ''NVIDIA''
      else if gpu = ''AMD'' \<or> prefix ''AMD '' gpu then ''AMD''
      else if gpu = ''Intel'' \<or> prefix ''Intel '' gpu \<or> prefix ''Intel(R) '' gpu then ''Intel''
      else ''other'')"

definition Reason :: "string \<Rightarrow> string" where
  "Reason reason =
     (if reason = ''f10'' then ''f10''
      else if reason = ''unexpected-guest-exit'' then ''unexpected-guest-exit''
      else if reason = ''wheel-r2'' then ''wheel-r2''
      else if reason = ''wheel-l2'' then ''wheel-l2''
      else if reason = ''pad'' then ''pad''
      else ''other'')"

subsection \<open>Doubles\<close>

text \<open>
  A nonnegative \<open>double\<close> is the rational it stands for; each operation rounds its exact result to 53
  significant bits, to even on a tie. The texts have at most 15 characters, so a value is 0 or lies between
  \<open>10 ^ -14\<close> and \<open>10 ^ 15\<close>, and 10 times or a thousandth of it is scaled to 53 bits in less than 200 steps.
\<close>

fun scale_53 :: "nat \<Rightarrow> rat \<Rightarrow> int \<Rightarrow> rat \<times> int" where
  "scale_53 0 q e = (q, e)"
| "scale_53 (Suc fuel) q e =
     (if q \<ge> 2 ^ 53 then scale_53 fuel (q / 2) (e + 1)
      else if q < 2 ^ 52 then scale_53 fuel (q * 2) (e - 1)
      else (q, e))"

definition round_even :: "rat \<Rightarrow> int" where
  "round_even q = (let n = \<lfloor>q\<rfloor>; r = q - of_int n in if r < 1 / 2 \<or> (r = 1 / 2 \<and> even n) then n else n + 1)"

definition power_of_two :: "int \<Rightarrow> rat" where
  "power_of_two e = (if e \<ge> 0 then 2 ^ nat e else 1 / 2 ^ nat (- e))"

definition to_double :: "rat \<Rightarrow> rat" where
  "to_double q = (if q = 0 then 0 else case scale_53 200 q 0 of (m, e) \<Rightarrow> of_int (round_even m) * power_of_two e)"

text \<open>\<open>std::round\<close> on a nonnegative value.\<close>

definition round_away :: "rat \<Rightarrow> rat" where
  "round_away q = of_int \<lfloor>q + 1 / 2\<rfloor>"

definition round_tenth :: "rat \<Rightarrow> rat" where
  "round_tenth v = to_double (round_away (to_double (v * 10)) / 10)"

text \<open>The digits and the one dot after the key, as the loop takes them, and their value.\<close>

fun number_span :: "bool \<Rightarrow> string \<Rightarrow> string" where
  "number_span dot [] = []"
| "number_span dot (c # cs) =
     (if is_digit c then c # number_span dot cs
      else if c = CHR ''.'' \<and> \<not> dot then c # number_span True cs
      else [])"

definition stod :: "string \<Rightarrow> rat option" where
  "stod s = (case split_at (CHR ''.'') s of (whole, fraction) \<Rightarrow>
     let f = (case fraction of None \<Rightarrow> [] | Some f \<Rightarrow> f) in
     if whole @ f = [] then None
     else Some (to_double (of_nat (number_value (whole @ f)) / 10 ^ length f)))"

definition NumberAfter :: "string \<Rightarrow> string \<Rightarrow> rat option" where
  "NumberAfter line key = (case find_from line key 0 of
     None \<Rightarrow> None
   | Some pos \<Rightarrow>
       let digits = number_span False (drop (pos + length key) line) in
       if digits = [] \<or> length digits > 15 then None else stod digits)"

subsection \<open>The performance lines\<close>

record minute =
  mi_fps :: "rat option"
  mi_p50 :: "rat option"
  mi_p95 :: "rat option"
  mi_over50 :: "rat option"
  mi_gpu :: "rat option"
  mi_draws :: "rat option"
  mi_replay :: "rat option"
  mi_pacing :: bool

definition no_minute :: minute where
  "no_minute = \<lparr>mi_fps = None, mi_p50 = None, mi_p95 = None, mi_over50 = None, mi_gpu = None, mi_draws = None,
     mi_replay = None, mi_pacing = False\<rparr>"

definition bounded :: "rat option \<Rightarrow> rat \<Rightarrow> rat option" where
  "bounded v maximum = (case v of None \<Rightarrow> None | Some x \<Rightarrow> if x \<ge> 0 \<and> x \<le> maximum then Some x else None)"

text \<open>The finished minutes, the current one, and whether it is open.\<close>

type_synonym performance = "minute list \<times> minute \<times> bool"

definition flush_minute :: "performance \<Rightarrow> performance" where
  "flush_minute st = (case st of (minutes, current, opened) \<Rightarrow>
     (if opened \<and> mi_pacing current then minutes @ [current] else minutes, no_minute, False))"

definition contains_text :: "string \<Rightarrow> string \<Rightarrow> bool" where
  "contains_text line key \<longleftrightarrow> find_from line key 0 \<noteq> None"

definition flush_if :: "bool \<Rightarrow> performance \<Rightarrow> performance" where
  "flush_if b st = (if b then flush_minute st else st)"

definition with_current :: "(minute \<Rightarrow> minute) \<Rightarrow> performance \<Rightarrow> performance" where
  "with_current f st = (case st of (minutes, current, _) \<Rightarrow> (minutes, f current, True))"

definition after_paren :: "string \<Rightarrow> rat option" where
  "after_paren line = (case find_from line ''('' 0 of None \<Rightarrow> None | Some paren \<Rightarrow> NumberAfter (drop paren line) ''('')"

definition performance_line :: "performance \<Rightarrow> string \<Rightarrow> performance" where
  "performance_line st line = (case st of (minutes, current, opened) \<Rightarrow>
     if length line > 2048 then st
     else if contains_text line ''MCLA frame pacing/min: '' then
       with_current (\<lambda>m. m\<lparr>mi_pacing := True,
           mi_fps := (if contains_text line ''('' then bounded (after_paren line) 10000 else mi_fps m),
           mi_p50 := bounded (NumberAfter line '' p50 '') (10 ^ 9),
           mi_p95 := bounded (NumberAfter line '' p95 '') (10 ^ 9),
           mi_over50 := bounded (NumberAfter line ''>50ms '') (10 ^ 7)\<rparr>)
         (flush_if (mi_pacing current) st)
     else if contains_text line ''MCLA draws per frame/min: '' then
       with_current (\<lambda>m. m\<lparr>mi_draws := bounded (NumberAfter line '' p50 '') (10 ^ 7)\<rparr>) (flush_if (mi_draws current \<noteq> None) st)
     else if contains_text line ''MCLA gpu busy/min: '' then
       with_current (\<lambda>m. m\<lparr>mi_gpu := bounded (NumberAfter line ''submissions, '') (10 ^ 6)\<rparr>) (flush_if (mi_gpu current \<noteq> None) st)
     else if contains_text line ''MCLA replay/min: '' then
       with_current (\<lambda>m. m\<lparr>mi_replay := bounded (NumberAfter line '' replay '') (10 ^ 12)\<rparr>)
         (flush_if (mi_replay current \<noteq> None \<or> mi_pacing current) st)
     else st)"

text \<open>The report: typed scalars under fixed keys.\<close>

datatype report = RBool bool | RNumber nat | RDouble rat | RText string | RArray "report list" | RObject "(string \<times> report) list"

definition optional_entry :: "string \<Rightarrow> (rat \<Rightarrow> report) \<Rightarrow> rat option \<Rightarrow> (string \<times> report) list" where
  "optional_entry key f v = (case v of None \<Rightarrow> [] | Some x \<Rightarrow> [(key, f x)])"

definition truncated :: "rat \<Rightarrow> report" where "truncated v = RNumber (nat \<lfloor>v\<rfloor>)"
definition tenth :: "rat \<Rightarrow> report" where "tenth v = RDouble (round_tenth v)"
definition tenth_of_thousandth :: "rat \<Rightarrow> report" where "tenth_of_thousandth v = RDouble (round_tenth (to_double (v / 1000)))"

definition minute_report :: "minute \<Rightarrow> report" where
  "minute_report m = RObject (optional_entry ''fps'' tenth (mi_fps m)
     @ optional_entry ''frame_p50_ms'' tenth_of_thousandth (mi_p50 m)
     @ optional_entry ''frame_p95_ms'' tenth_of_thousandth (mi_p95 m)
     @ optional_entry ''frames_over_50ms'' truncated (mi_over50 m)
     @ optional_entry ''gpu_busy_ms_per_frame'' tenth (mi_gpu m)
     @ optional_entry ''draws_p50'' truncated (mi_draws m)
     @ optional_entry ''cp_replay_ms_per_minute'' tenth_of_thousandth (mi_replay m))"

definition PerformanceSummary :: "string \<Rightarrow> report list" where
  "PerformanceSummary tail =
     (let minutes = fst (flush_minute (foldl performance_line ([], no_minute, False) (text_lines tail)));
          kept = (if length minutes > kMaximumPerformanceMinutes then drop (length minutes - kMaximumPerformanceMinutes) minutes
                  else minutes)
      in map minute_report kept)"

subsection \<open>The projection\<close>

record export_input =
  ei_profile_id :: string
  ei_receipt :: string
  ei_session_state :: string
  ei_manifest :: string
  ei_diagnostic_state :: string
  ei_capabilities :: string
  ei_log_tail :: string

record projection =
  pj_report_json :: string
  pj_state_sha256 :: string
  pj_state_bytes :: nat

definition session_complete :: string where "session_complete = ''complete'' @ [CHR 0x0A] @ ''exit ''"

text \<open>The checks of the session state.\<close>

definition state_checked :: "string \<Rightarrow> bool" where
  "state_checked s \<longleftrightarrow> length s \<le> 64 \<and> prefix session_complete s \<and> List.last s = CHR 0x0A
     \<and> Decimal (take (length s - length session_complete - 1) (drop (length session_complete) s)) \<noteq> None"

definition receipt_checked :: "(string \<times> string) list \<Rightarrow> string \<Rightarrow> bool" where
  "receipt_checked fs profile_id \<longleftrightarrow> field fs ''profile'' = profile_id
     \<and> ValidCapabilityIdentity (field fs ''build'') \<and> ValidCapabilityIdentity (field fs ''game'')
     \<and> (field fs ''timing'' = kStockTimingKey \<or> field fs ''timing'' = kUnlockedTimingKey) \<and> field fs ''vsync'' = ''1''
     \<and> (field fs ''fullscreen'' = ''0'' \<or> field fs ''fullscreen'' = ''1'')
     \<and> SafeUtf8 (field fs ''gpu'') 800 \<and> Decimal (field fs ''adapter'') \<noteq> None"

definition size_text :: "u32 \<Rightarrow> u32 \<Rightarrow> string" where
  "size_text w h = decimal (unat w) @ ''x'' @ decimal (unat h)"

text \<open>The recorded render target: \<open>None\<close> is the exception, \<open>Some None\<close> the legacy schema without one.\<close>

definition recorded_target :: "(string \<times> string) list \<Rightarrow> u32 \<Rightarrow> render_target option option" where
  "recorded_target fs scale =
     (if has_field fs ''render_target'' then
        (case List.find (\<lambda>t. field fs ''render_target'' = size_text (rt_width t) (rt_height t)
              \<and> field fs ''guest_mode'' = size_text (rt_guest_width t) (rt_guest_height t) \<and> scale = rt_scale t) (rev kRenderTargets) of
           None \<Rightarrow> None | Some t \<Rightarrow> Some (Some t))
      else Require (scale \<le> 2) (Some None))"

definition admission_line :: "string \<Rightarrow> string" where
  "admission_line key = [CHR 0x0A] @ ''admission '' @ key @ [CHR 0x0A]"

text \<open>The refresh rate of the recorded plan, 0 where no capabilities are recorded.\<close>

definition recorded_refresh :: "(string \<times> string) list \<Rightarrow> render_target option \<Rightarrow> string \<Rightarrow> u32 option" where
  "recorded_refresh fs target capabilities =
     (if has_field fs ''capability_policy'' then
        (case target of
           None \<Rightarrow> None
         | Some t \<Rightarrow>
             Require (field fs ''capability_policy'' = ''1'' \<and> field fs ''capability_record'' = ''capabilities.txt''
                 \<and> int (length capabilities) \<le> kMaximumExportReceiptBytes)
               (let timing = (if field fs ''timing'' = kUnlockedTimingKey then Unlocked else Stock);
                    owner = suffix (admission_line kOwnerAdmissionKey) capabilities;
                    ticket = suffix (admission_line kTicketGrantKey) capabilities
                in case ResolveCapabilities \<lparr>cr_build = field fs ''build'', cr_game = field fs ''game'', cr_timing = timing,
                      cr_target = rt_id t, cr_vsync = True, cr_owner = owner, cr_grant = (if ticket then kGrantAll else 0)\<rparr> of
                  Inl _ \<Rightarrow> None
                | Inr plan \<Rightarrow>
                    Require (SerializeCapabilities plan = Inr capabilities)
                      (Some (if cp_vblank plan \<noteq> 0 then cp_vblank plan else cp_refresh plan))))
      else Require (capabilities = []) (Some 0))"

definition allowed_artifacts :: "string list" where
  "allowed_artifacts = [''state.json'', ''log-tail.txt'', ''save-metadata.json'', ''save-files-private.json'', ''frame.bmp'', ''process-private.dmp'']"

text \<open>The loop over the artifacts: the names so far, the hash and the size of the state.\<close>

fun artifact_loop :: "nat \<Rightarrow> string list \<Rightarrow> string \<times> nat \<Rightarrow> json list \<Rightarrow> (string list \<times> string \<times> nat) option" where
  "artifact_loop state_length names found [] = Some (names, found)"
| "artifact_loop state_length names found (a # as) =
     (case a of JObject _ \<Rightarrow>
        Option.bind (TextAt a ''name'' 64) (\<lambda>name.
          Require (name \<in> set allowed_artifacts \<and> name \<notin> set names)
            (if name = ''state.json'' then
               Option.bind (TextAt a ''sha256'' 64) (\<lambda>hash. Require (ValidCapabilityIdentity hash)
                 (Option.bind (UnsignedAt a ''bytes'' kMaximumExportJsonBytes) (\<lambda>n. Require (n > 0 \<and> n = state_length)
                   (artifact_loop state_length (names @ [name]) (hash, n) as))))
             else artifact_loop state_length (names @ [name]) found as))
      | _ \<Rightarrow> None)"

definition mandatory_artifacts :: "string list" where
  "mandatory_artifacts = [''state.json'', ''log-tail.txt'', ''save-metadata.json'', ''save-files-private.json'']"

definition package_artifacts :: "json \<Rightarrow> bool \<Rightarrow> nat \<Rightarrow> (string \<times> nat) option" where
  "package_artifacts manifest frame_written state_length = (case member manifest ''artifacts'' of
     Some (JArray as) \<Rightarrow> Require (length as \<ge> 4 \<and> length as \<le> 6)
       (Option.bind (artifact_loop state_length [] ([], 0) as) (\<lambda>(names, hash, n).
         Require (list_all (\<lambda>k. k \<in> set names) mandatory_artifacts \<and> (''frame.bmp'' \<in> set names) = frame_written \<and> hash \<noteq> [])
           (Some (hash, n))))
   | _ \<Rightarrow> None)"

text \<open>The window of the state, if it has one.\<close>

definition window_report :: "json \<Rightarrow> (string \<times> report) list option" where
  "window_report state =
     (if member state ''window'' = None then Some []
      else Option.bind (ObjectAt state ''window'') (\<lambda>window.
        Option.bind (UnsignedAt window ''logical_width'' 8192) (\<lambda>lw.
        Option.bind (UnsignedAt window ''logical_height'' 8192) (\<lambda>lh.
        Option.bind (UnsignedAt window ''physical_width'' 8192) (\<lambda>pw.
        Option.bind (UnsignedAt window ''physical_height'' 8192) (\<lambda>ph.
        Option.bind (BooleanAt window ''fullscreen'') (\<lambda>full.
          Some [(''diagnostic_window'', RObject [(''logical_width'', RNumber lw), (''logical_height'', RNumber lh),
            (''physical_width'', RNumber pw), (''physical_height'', RNumber ph), (''fullscreen'', RBool full)])])))))))"

definition session_report :: "(string \<times> string) list \<Rightarrow> u32 \<Rightarrow> render_target option \<Rightarrow> u32 \<Rightarrow> report" where
  "session_report fs scale target refresh = RObject
     ([(''build_sha256'', RText (field fs ''build'')), (''game_sha256'', RText (field fs ''game'')),
       (''timing'', RText (field fs ''timing'')), (''scale'', RNumber (unat scale)), (''vsync'', RBool True),
       (''fullscreen'', RBool (field fs ''fullscreen'' = ''1'')), (''gpu_vendor'', RText (Vendor (field fs ''gpu''))),
       (''gpu_driver'', RText ''unavailable''), (''cpu'', RText ''unavailable''),
       (''capabilities'', RText (if has_field fs ''capability_policy'' then ''recorded-v1'' else ''unavailable-legacy''))]
      @ (case target of None \<Rightarrow> []
         | Some t \<Rightarrow> [(''render_target'', RObject [(''width'', RNumber (unat (rt_width t))), (''height'', RNumber (unat (rt_height t)))]),
             (''guest_mode'', RObject [(''width'', RNumber (unat (rt_guest_width t))), (''height'', RNumber (unat (rt_guest_height t)))])])
      @ (if has_field fs ''capability_policy'' then [(''guest_refresh_hz'', RNumber (unat refresh))] else []))"

definition export_report :: "string \<Rightarrow> string \<Rightarrow> report \<Rightarrow> bool \<Rightarrow> report list \<Rightarrow> (string \<times> report) list \<Rightarrow> report" where
  "export_report version reason session frame_written performance window = RObject
     ([(''schema'', RText ''mcla-local-diagnostic-metadata-export-v1''), (''version'', RNumber 1), (''kind'', RText ''live''),
       (''mcla_version'', RText version), (''reason'', RText (Reason reason)), (''session_recorded'', session),
       (''capture'', RObject [(''frame_written'', RBool frame_written)]),
       (''disclaimers'', RArray (map RText ([''local-directory-provenance-not-authenticated'', ''settings-receipt-reported-not-observed'',
          ''no-measured-fps-or-world-certification'', ''review-before-sharing'']
          @ (if performance \<noteq> [] then [''performance-counters-from-log-not-certified''] else []))))]
      @ (if performance \<noteq> [] then [(''performance_per_minute'', RArray performance)] else [])
      @ window)"

definition log_performance :: "string \<Rightarrow> report list option" where
  "log_performance tail = (if tail = [] then Some []
     else Require (int (length tail) \<le> kMaximumExportLogTailBytes) (Some (PerformanceSummary tail)))"

definition project_metadata :: "export_parser \<Rightarrow> (report \<Rightarrow> string) \<Rightarrow> export_input \<Rightarrow> projection option" where
  "project_metadata parser dump inp =
     Require (ValidOpaqueId (ei_profile_id inp) \<and> state_checked (ei_session_state inp))
     (Option.bind (Receipt (ei_receipt inp)) (\<lambda>fs. Require (receipt_checked fs (ei_profile_id inp))
     (Option.bind (Decimal (field fs ''scale'')) (\<lambda>scale. Require (scale \<ge> 1 \<and> scale \<le> 3)
     (Option.bind (recorded_target fs scale) (\<lambda>target.
      Option.bind (recorded_refresh fs target (ei_capabilities inp)) (\<lambda>refresh.
      Option.bind (ParseJson parser (ei_manifest inp)) (\<lambda>manifest.
      Option.bind (ParseJson parser (ei_diagnostic_state inp)) (\<lambda>state.
      Require (TextAt manifest ''schema'' 64 = Some ''mcla-diagnostic-package-v1'' \<and> TextAt manifest ''kind'' 32 = Some ''live''
          \<and> TextAt manifest ''platform'' 32 = Some ''windows'' \<and> TextAt state ''schema'' 64 = Some ''mcla-diagnostic-state-v1'')
     (Option.bind (TextAt manifest ''mcla_version'' 23) (\<lambda>version. Require (ExportVersion version)
     (Option.bind (TextAt manifest ''reason'' 1024) (\<lambda>reason. Require (TextAt state ''reason'' 1024 = Some reason)
     (Option.bind (ObjectAt manifest ''capture'') (\<lambda>capture.
      Option.bind (BooleanAt capture ''frame'') (\<lambda>frame_written.
      Option.bind (package_artifacts manifest frame_written (length (ei_diagnostic_state inp))) (\<lambda>(hash, n).
      Option.bind (log_performance (ei_log_tail inp)) (\<lambda>performance.
      Option.bind (window_report state) (\<lambda>window.
        Some \<lparr>pj_report_json = dump (export_report version reason (session_report fs scale target refresh) frame_written performance window)
                @ [CHR 0x0A],
              pj_state_sha256 = hash, pj_state_bytes = n\<rparr>)))))))))))))))))))"

definition ProjectLiveMetadata :: "export_parser \<Rightarrow> (report \<Rightarrow> string) \<Rightarrow> export_input \<Rightarrow> string + projection" where
  "ProjectLiveMetadata parser dump inp = (case project_metadata parser dump inp of
     None \<Rightarrow> Inl ''Unsupported, malformed or inconsistent live diagnostic metadata; nothing projected''
   | Some p \<Rightarrow> Inr p)"

subsection \<open>What the report can contain\<close>

text \<open>Every text of a report, keys and values.\<close>

fun report_texts :: "report \<Rightarrow> string list" where
  "report_texts (RText s) = [s]"
| "report_texts (RArray xs) = concat (map report_texts xs)"
| "report_texts (RObject kvs) = concat (map (\<lambda>kv. fst kv # report_texts (snd kv)) kvs)"
| "report_texts _ = []"

text \<open>The fixed texts of the exporter; besides them only a four-part version and a fingerprint may appear.\<close>

definition kVocabulary :: "string list" where
  "kVocabulary = [
    ''schema'', ''version'', ''kind'', ''mcla_version'', ''reason'', ''session_recorded'', ''build_sha256'',
    ''game_sha256'', ''timing'', ''scale'', ''vsync'', ''fullscreen'', ''gpu_vendor'', ''gpu_driver'', ''cpu'',
    ''capabilities'', ''capture'', ''frame_written'', ''disclaimers'', ''render_target'', ''guest_mode'', ''width'',
    ''height'', ''guest_refresh_hz'', ''performance_per_minute'', ''fps'', ''frame_p50_ms'', ''frame_p95_ms'',
    ''frames_over_50ms'', ''gpu_busy_ms_per_frame'', ''draws_p50'', ''cp_replay_ms_per_minute'',
    ''diagnostic_window'', ''logical_width'', ''logical_height'', ''physical_width'', ''physical_height'',
    ''mcla-local-diagnostic-metadata-export-v1'', ''live'', ''unavailable'', ''recorded-v1'', ''unavailable-legacy'',
    ''stock'', ''unlocked'', ''NVIDIA'', ''AMD'', ''Intel'', ''other'', ''f10'', ''unexpected-guest-exit'',
    ''wheel-r2'', ''wheel-l2'', ''pad'', ''local-directory-provenance-not-authenticated'',
    ''settings-receipt-reported-not-observed'', ''no-measured-fps-or-world-certification'',
    ''review-before-sharing'', ''performance-counters-from-log-not-certified'']"

definition shareable :: "string \<Rightarrow> bool" where
  "shareable s \<longleftrightarrow> s \<in> set kVocabulary \<or> ExportVersion s \<or> ValidCapabilityIdentity s"

lemma kVocabulary_shareable: "list_all shareable kVocabulary"
  by (simp add: shareable_def list_all_iff)

lemma vocabulary_shareable [simp]:
  "shareable ''schema'' \<and> shareable ''version'' \<and> shareable ''kind''
    \<and> shareable ''mcla_version'' \<and> shareable ''reason'' \<and> shareable ''session_recorded''
    \<and> shareable ''build_sha256'' \<and> shareable ''game_sha256'' \<and> shareable ''timing''
    \<and> shareable ''scale'' \<and> shareable ''vsync'' \<and> shareable ''fullscreen''
    \<and> shareable ''gpu_vendor'' \<and> shareable ''gpu_driver'' \<and> shareable ''cpu''
    \<and> shareable ''capabilities'' \<and> shareable ''capture'' \<and> shareable ''frame_written''
    \<and> shareable ''disclaimers'' \<and> shareable ''render_target'' \<and> shareable ''guest_mode''
    \<and> shareable ''width'' \<and> shareable ''height'' \<and> shareable ''guest_refresh_hz''
    \<and> shareable ''performance_per_minute'' \<and> shareable ''fps'' \<and> shareable ''frame_p50_ms''
    \<and> shareable ''frame_p95_ms'' \<and> shareable ''frames_over_50ms'' \<and> shareable ''gpu_busy_ms_per_frame''
    \<and> shareable ''draws_p50'' \<and> shareable ''cp_replay_ms_per_minute'' \<and> shareable ''diagnostic_window''
    \<and> shareable ''logical_width'' \<and> shareable ''logical_height'' \<and> shareable ''physical_width''
    \<and> shareable ''physical_height'' \<and> shareable ''mcla-local-diagnostic-metadata-export-v1'' \<and> shareable ''live''
    \<and> shareable ''unavailable'' \<and> shareable ''recorded-v1'' \<and> shareable ''unavailable-legacy''
    \<and> shareable ''stock'' \<and> shareable ''unlocked'' \<and> shareable ''NVIDIA''
    \<and> shareable ''AMD'' \<and> shareable ''Intel'' \<and> shareable ''other''
    \<and> shareable ''f10'' \<and> shareable ''unexpected-guest-exit'' \<and> shareable ''wheel-r2''
    \<and> shareable ''wheel-l2'' \<and> shareable ''pad'' \<and> shareable ''local-directory-provenance-not-authenticated''
    \<and> shareable ''settings-receipt-reported-not-observed'' \<and> shareable ''no-measured-fps-or-world-certification'' \<and> shareable ''review-before-sharing''
    \<and> shareable ''performance-counters-from-log-not-certified''"
  using kVocabulary_shareable unfolding kVocabulary_def by simp

abbreviation clean_report :: "report \<Rightarrow> bool" where
  "clean_report r \<equiv> list_all shareable (report_texts r)"

lemma clean_object: "clean_report (RObject kvs) \<longleftrightarrow> list_all (\<lambda>kv. shareable (fst kv) \<and> clean_report (snd kv)) kvs"
  by (auto simp: list_all_iff)

lemma clean_array: "clean_report (RArray xs) \<longleftrightarrow> list_all clean_report xs"
  by (auto simp: list_all_iff)

lemma clean_entry: "shareable key \<Longrightarrow> (\<And>x. clean_report (f x)) \<Longrightarrow> list_all (\<lambda>kv. shareable (fst kv) \<and> clean_report (snd kv)) (optional_entry key f v)"
  by (simp add: optional_entry_def split: option.split)

lemma clean_numbers: "clean_report (truncated v)" "clean_report (tenth v)" "clean_report (tenth_of_thousandth v)"
  by (simp_all add: truncated_def tenth_def tenth_of_thousandth_def)

lemma clean_minute: "clean_report (minute_report m)"
  unfolding minute_report_def clean_object list_all_append
  by (intro conjI clean_entry clean_numbers) (rule vocabulary_shareable [THEN conjunct1] | simp)+

lemma clean_performance: "list_all clean_report (PerformanceSummary tail)"
  by (simp add: PerformanceSummary_def Let_def list_all_iff del: report_texts.simps) (use clean_minute in \<open>simp add: list_all_iff\<close>)

lemma clean_session:
  assumes "receipt_checked fs profile"
  shows "clean_report (session_report fs scale target refresh)"
proof -
  have "shareable (field fs ''build'')" "shareable (field fs ''game'')" "shareable (field fs ''timing'')"
    using assms by (auto simp: receipt_checked_def kStockTimingKey_def kUnlockedTimingKey_def) (simp_all add: shareable_def)
  moreover have "shareable (Vendor gpu)" for gpu by (simp add: Vendor_def)
  ultimately show ?thesis by (simp add: session_report_def clean_object del: report_texts.simps(3) split: option.split)
qed

lemma window_report_clean:
  "window_report state = Some w \<Longrightarrow> list_all (\<lambda>kv. shareable (fst kv) \<and> clean_report (snd kv)) w"
  by (auto simp: window_report_def bind_eq_Some_conv split: if_splits)

lemma clean_export:
  assumes "ExportVersion version" "clean_report session" "list_all clean_report performance" "list_all (\<lambda>kv. shareable (fst kv) \<and> clean_report (snd kv)) window"
  shows "clean_report (export_report version reason session frame performance window)"
proof -
  have "shareable (Reason reason)" by (simp add: Reason_def)
  moreover have "shareable version" using assms(1) by (simp add: shareable_def)
  ultimately show ?thesis using assms(2-4)
    by (simp add: export_report_def clean_object clean_array del: report_texts.simps(2,3))
qed

lemma project_metadata_Some:
  assumes "project_metadata parser dump inp = Some p"
  obtains fs scale target refresh version reason frame performance window where
    "ValidOpaqueId (ei_profile_id inp)" "Receipt (ei_receipt inp) = Some fs" "receipt_checked fs (ei_profile_id inp)"
    "Decimal (field fs ''scale'') = Some scale" "recorded_target fs scale = Some target"
    "recorded_refresh fs target (ei_capabilities inp) = Some refresh" "ExportVersion version"
    "log_performance (ei_log_tail inp) = Some performance"
    "list_all (\<lambda>kv. shareable (fst kv) \<and> clean_report (snd kv)) window"
    "\<exists>manifest. package_artifacts manifest frame (length (ei_diagnostic_state inp)) = Some (pj_state_sha256 p, pj_state_bytes p)"
    "pj_report_json p = dump (export_report version reason (session_report fs scale target refresh) frame performance window) @ [CHR 0x0A]"
  using assms unfolding project_metadata_def Require_def
  by (clarsimp simp: bind_eq_Some_conv split: if_split_asm prod.split_asm) (use window_report_clean in blast)

text \<open>C8: nothing private can leave with the report: whatever the package, the log and the parser contain, the
  texts of the report, keys and values, are fixed words of the exporter, four-part versions and
  64-digit fingerprints; paths, names, log lines and unknown fields have no way into it, and there are at most
  ten minutes of counters. If any check fails the answer is one fixed text.\<close>

theorem export_private:
  "case ProjectLiveMetadata parser dump inp of
     Inl e \<Rightarrow> e = ''Unsupported, malformed or inconsistent live diagnostic metadata; nothing projected''
   | Inr p \<Rightarrow> \<exists>version reason session frame performance window.
       let report = export_report version reason session frame performance window in
         pj_report_json p = dump report @ [CHR 0x0A] \<and> list_all shareable (report_texts report)
         \<and> length performance \<le> kMaximumPerformanceMinutes"
proof (cases "project_metadata parser dump inp")
  case None
  then show ?thesis by (simp add: ProjectLiveMetadata_def)
next
  case (Some p)
  then obtain fs scale target refresh version reason frame performance window where
    p: "receipt_checked fs (ei_profile_id inp)" "ExportVersion version" "log_performance (ei_log_tail inp) = Some performance"
    "list_all (\<lambda>kv. shareable (fst kv) \<and> clean_report (snd kv)) window"
    "pj_report_json p = dump (export_report version reason (session_report fs scale target refresh) frame performance window) @ [CHR 0x0A]"
    by (rule project_metadata_Some)
  have "performance = [] \<or> performance = PerformanceSummary (ei_log_tail inp)"
    using p(3) by (auto simp: log_performance_def Require_def split: if_splits)
  then have "list_all clean_report performance" "length performance \<le> kMaximumPerformanceMinutes"
    using clean_performance by (auto simp: PerformanceSummary_def Let_def)
  then show ?thesis using Some clean_export [OF p(2) clean_session [OF p(1)] _ p(4)] p(5)
    unfolding ProjectLiveMetadata_def Let_def by (simp del: report_texts.simps) blast
qed

subsection \<open>What a projection certifies\<close>

lemma artifact_loop_found:
  "artifact_loop k names found as = Some (names', hash, n) \<Longrightarrow>
    (hash, n) = found \<or> ValidCapabilityIdentity hash \<and> 0 < n \<and> n = k \<and> int n \<le> kMaximumExportJsonBytes"
proof (induction k names found as rule: artifact_loop.induct)
  case (2 k names found a as)
  show ?case
  proof (cases a)
    case (JObject kvs)
    then obtain name where name: "TextAt a ''name'' 64 = Some name" "name \<in> set allowed_artifacts \<and> name \<notin> set names"
      using 2(3) by (auto simp: bind_eq_Some_conv Require_def split: if_splits)
    show ?thesis
    proof (cases "name = ''state.json''")
      case True
      then obtain h m where hm: "TextAt a ''sha256'' 64 = Some h" "ValidCapabilityIdentity h"
        "UnsignedAt a ''bytes'' kMaximumExportJsonBytes = Some m" "m > 0" "m = k"
        "artifact_loop k (names @ [name]) (h, m) as = Some (names', hash, n)"
        using 2(3) JObject name by (auto simp: bind_eq_Some_conv Require_def split: if_splits)
      have "int m \<le> kMaximumExportJsonBytes"
        using hm(3) by (auto simp: UnsignedAt_def Require_def split: option.splits json.splits if_splits)
      then show ?thesis using 2(1) [OF JObject name(1) True hm(1,3,6)] hm(2,4,5) by auto
    next
      case False
      then have "artifact_loop k (names @ [name]) found as = Some (names', hash, n)"
        using 2(3) JObject name by (auto simp: Require_def)
      from 2(2) [OF JObject name(1) False this] show ?thesis .
    qed
  qed (use 2(3) in auto)
qed simp

lemma package_artifacts_bound:
  assumes "package_artifacts manifest frame k = Some (hash, n)"
  shows "ValidCapabilityIdentity hash \<and> 0 < n \<and> n = k \<and> int n \<le> kMaximumExportJsonBytes"
proof -
  from assms obtain as names where "artifact_loop k [] ([], 0) as = Some (names, hash, n)" "hash \<noteq> []"
    by (auto simp: package_artifacts_def bind_eq_Some_conv Require_def split: option.splits json.splits if_splits prod.splits)
  from artifact_loop_found [OF this(1)] this(2) show ?thesis by auto
qed

text \<open>A projection binds what the caller has to check and vouches for the recorded options: the state it names has
  the length of the state that was read, at most a megabyte, and a fingerprint; the profile identity is
  well formed and the receipt's; and a capability record, if there is one, is byte for byte the record of
  a plan that the capability policy resolves for the receipt's build and game.\<close>

theorem export_bound:
  "case ProjectLiveMetadata parser dump inp of
     Inl e \<Rightarrow> True
   | Inr p \<Rightarrow> ValidOpaqueId (ei_profile_id inp) \<and> ValidCapabilityIdentity (pj_state_sha256 p)
       \<and> 0 < pj_state_bytes p \<and> pj_state_bytes p = length (ei_diagnostic_state inp) \<and> int (pj_state_bytes p) \<le> kMaximumExportJsonBytes
       \<and> (\<exists>fs. Receipt (ei_receipt inp) = Some fs \<and> field fs ''profile'' = ei_profile_id inp
           \<and> (if has_field fs ''capability_policy''
              then \<exists>r plan. cr_build r = field fs ''build'' \<and> cr_game r = field fs ''game'' \<and> ResolveCapabilities r = Inr plan
                 \<and> ei_capabilities inp = plan_text plan
              else ei_capabilities inp = []))"
proof (cases "project_metadata parser dump inp")
  case (Some p)
  then obtain fs target refresh frame manifest where
    p: "ValidOpaqueId (ei_profile_id inp)" "Receipt (ei_receipt inp) = Some fs" "receipt_checked fs (ei_profile_id inp)"
    "recorded_refresh fs target (ei_capabilities inp) = Some refresh"
    "package_artifacts manifest frame (length (ei_diagnostic_state inp)) = Some (pj_state_sha256 p, pj_state_bytes p)"
    by (rule project_metadata_Some) blast
  have "if has_field fs ''capability_policy''
      then \<exists>r plan. cr_build r = field fs ''build'' \<and> cr_game r = field fs ''game'' \<and> ResolveCapabilities r = Inr plan
        \<and> ei_capabilities inp = plan_text plan
      else ei_capabilities inp = []"
  proof (cases "has_field fs ''capability_policy''")
    case True
    then obtain t where t: "target = Some t" using p(4) by (cases target) (simp_all add: recorded_refresh_def)
    let ?r = "\<lparr>cr_build = field fs ''build'', cr_game = field fs ''game'',
      cr_timing = (if field fs ''timing'' = kUnlockedTimingKey then Unlocked else Stock), cr_target = rt_id t, cr_vsync = True,
      cr_owner = suffix (admission_line kOwnerAdmissionKey) (ei_capabilities inp),
      cr_grant = (if suffix (admission_line kTicketGrantKey) (ei_capabilities inp) then kGrantAll else 0)\<rparr>"
    obtain plan where "ResolveCapabilities ?r = Inr plan" "SerializeCapabilities plan = Inr (ei_capabilities inp)"
      using p(4) True t by (cases "ResolveCapabilities ?r") (simp_all add: recorded_refresh_def Let_def Require_def split: if_split_asm)
    moreover have "cr_build ?r = field fs ''build''" "cr_game ?r = field fs ''game''" by simp_all
    ultimately obtain r where r: "cr_build r = field fs ''build''" "cr_game r = field fs ''game''" "ResolveCapabilities r = Inr plan"
      "SerializeCapabilities plan = Inr (ei_capabilities inp)" by blast
    have "ei_capabilities inp = plan_text plan"
      using r(4) by (auto simp: SerializeCapabilities_def expected_simps split: sum.splits if_splits)
    then show ?thesis using True r by auto
  next
    case False
    then show ?thesis using p(4) by (auto simp: recorded_refresh_def Require_def split: if_splits)
  qed
  moreover have "field fs ''profile'' = ei_profile_id inp" using p(3) by (simp add: receipt_checked_def)
  ultimately show ?thesis using Some p(1,2) package_artifacts_bound [OF p(5)]
    unfolding ProjectLiveMetadata_def by (simp only: option.case sum.case) auto
qed (simp add: ProjectLiveMetadata_def)

subsection \<open>An accepted package\<close>

text \<open>A session of the legacy schema, without a log, is projected.\<close>

definition sample_digest :: string where "sample_digest = replicate 64 (CHR ''A'')"
definition sample_profile :: string where "sample_profile = replicate 31 (CHR ''0'') @ ''1''"

definition sample_receipt :: string where
  "sample_receipt = receipt_header @ ''profile '' @ sample_profile @ [CHR 0x0A] @ ''build '' @ sample_digest @ [CHR 0x0A]
     @ ''game '' @ sample_digest @ [CHR 0x0A] @ ''timing stock'' @ [CHR 0x0A] @ ''gpu NVIDIA Test'' @ [CHR 0x0A]
     @ ''adapter 0'' @ [CHR 0x0A] @ ''scale 2'' @ [CHR 0x0A] @ ''vsync 1'' @ [CHR 0x0A] @ ''fullscreen 0'' @ [CHR 0x0A]"

definition sample_artifact :: "string \<Rightarrow> json" where
  "sample_artifact name = JObject [(''name'', JString name), (''sha256'', JString sample_digest), (''bytes'', JUnsigned 1)]"

definition sample_package :: json where
  "sample_package = JObject [(''schema'', JString ''mcla-diagnostic-package-v1''), (''kind'', JString ''live''),
     (''platform'', JString ''windows''), (''mcla_version'', JString ''1.2.3.4''), (''reason'', JString ''f10''),
     (''capture'', JObject [(''frame'', JBool False)]), (''artifacts'', JArray (map sample_artifact mandatory_artifacts))]"

definition sample_state :: json where
  "sample_state = JObject [(''schema'', JString ''mcla-diagnostic-state-v1''), (''reason'', JString ''f10'')]"

definition sample_export_parser :: export_parser where
  "sample_export_parser s = ([(0, ExObjectStart), (0, ExObjectEnd)], Some (if s = ''m'' then sample_package else sample_state))"

definition sample_input :: export_input where
  "sample_input = \<lparr>ei_profile_id = sample_profile, ei_receipt = sample_receipt,
     ei_session_state = session_complete @ ''0'' @ [CHR 0x0A], ei_manifest = ''m'', ei_diagnostic_state = ''s'',
     ei_capabilities = [], ei_log_tail = []\<rparr>"

text \<open>The printer is replaced by one that shows the texts of the report.\<close>

definition joined_texts :: "report \<Rightarrow> string" where
  "joined_texts r = join_with (CHR '' '') (report_texts r)"

lemma sample_projected: "isInr (ProjectLiveMetadata sample_export_parser joined_texts sample_input)"
  by code_simp

end
