(* ===== verification/Spec2Isabelle.thy ===== *)
theory Spec2Isabelle
  imports LibraryCodec WorkerIteration SwapEmission TimerObserver SemaphoreSnapshot DiagnosticTrigger Preferences Capabilities ImportPolicy
    ImageProtocol VectorStore ShaderStore SpeedupDefaults MenuCap CursorAutohide AdapterPolicy SaveCopy SessionReport
    DiagnosticExport
begin

text \<open>
  A model of the pure policies of the launcher and of the diagnostic observers of RE-MCLA.

  The program is a recompiled console title with a Windows launcher. The launcher keeps a library of
  profiles, checks a signed ticket or a lease list before it starts a build, resolves the render and
  frame-rate options that the build may be started with, and hands the game a plan. Inside the game,
  optional observers follow render scopes, worker iterations, swap packets, timers and semaphores
  without changing the title, and a diagnostic package collects what they saw. The parts that decide
  and count are header-only C++ classes and functions without operating-system calls; they are what
  this library models, one HOL function per C++ function and one record per class.

  Theories and the files under src/src they model:
  \<^item> \<open>Prelude\<close>: the vocabulary (integer widths, \<open>bindE\<close> for \<open>std::expected\<close>, decimal texts) and the
    locales \<open>machine\<close> (an invariant every call keeps, hence every run) and \<open>latching_machine\<close> (a
    failure flag that no call clears).
  \<^item> \<open>LauncherProfile\<close>: \<open>mcla_launcher_profile_policy\<close>: ids, labels, lexical Windows roots, the library
    and its validation, the launch plan.
  \<^item> \<open>LibraryCodec\<close>: \<open>mcla_launcher_library_codec\<close>: the binary form of the library. Its \<open>Reader\<close> is a
    byte list and an offset. The locale \<open>field_codec\<close> is the contract of one field (reading what was
    written, in any context, returns it and the next offset); integers, ascii and utf-16 strings and
    whole entries are its instances, and the round trip is their composition.
  \<^item> \<open>Preferences\<close>: \<open>mcla_launcher_preferences\<close> and the render target table, on top of both.
  \<^item> \<open>Capabilities\<close>: \<open>mcla_launcher_capabilities\<close>: owner admission, \<open>ResolveCapabilities\<close>, the record
    of a plan.
  \<^item> \<open>BuildLease\<close>: \<open>mcla_build_lease_policy\<close>: envelopes, tickets, lease lists, the capabilities line,
    \<open>Evaluate\<close> and \<open>EvaluateKillSwitch\<close>.
  \<^item> \<open>ImportPolicy\<close>: \<open>mcla_launcher_import_policy\<close>: recognition of the metadata of an old bundle.
  \<^item> \<open>FrameContext\<close>, \<open>WorkerIteration\<close>: the nested render scopes of a thread and the pairing of a
    worker's wait with the render that consumes it.
  \<^item> \<open>SwapEmission\<close>: the packet codec and the ledger of swap tokens.
  \<^item> \<open>TimerJournal\<close>, \<open>TimerObserver\<close>: the append-only journal of timer calls and the concurrent seam
    around it, a step relation over the critical sections of its threads.
  \<^item> \<open>SemaphoreJournal\<close>, \<open>SemaphoreSnapshot\<close>: epochs and operations of observed semaphores, the claim
    \<open>history_complete\<close>, the offline capture and its JSON texts.
  \<^item> \<open>DiagnosticTrigger\<close>: the triggers, the ring of device transitions, the log buckets and the texts
    of a diagnostic package.
  \<^item> \<open>ImageProtocol\<close>: \<open>mcla_diagnostic_image_protocol\<close>: the checks on a request, a surface and a crop
    before an image of the display is copied, in checked 32- and 64-bit arithmetic.
  \<^item> \<open>ObservationRecord\<close>: what six nested observation records share: \<open>attempt\<close> (a row of tests, each with the
    fault it raises, then one logged change), \<open>on_top\<close> (a method on the innermost frame), and the locale
    \<open>logged\<close>, the contract of their methods towards a reader of the log.
  \<^item> \<open>RouterDispatch\<close>, \<open>ConsumerDetail\<close>, \<open>VirtualDetail\<close>: the records whose events are snapshots of a frame.
  \<^item> \<open>WorkEmission\<close>, \<open>VectorTarget\<close>, \<open>VectorStore\<close>: the records whose events hold only operands. Each of
    the last five is entered with a copy of the entry and the call of the record before, and checks them
    again; a vector target even builds a work record for it, a vector store a target record.
    All six interpret \<open>logged\<close>.
  \<^item> \<open>ShaderStore\<close>: \<open>mcla_shader_store_seed\<close>: the parser of the five families of shader store files and the
    merger that unites the stores of several builds. \<open>unite\<close> on lists of records is its specification and
    \<open>holds\<close> the relation between the two; the calls of a merger interpret \<open>machine\<close>.
  \<^item> \<open>TextLines\<close>: bytes, lines and searching, for the theories that read texts.
  \<^item> \<open>DevOverrides\<close>, \<open>SpeedupDefaults\<close>: \<open>mcla_dev_overrides\<close> and \<open>mcla_m10_defaults\<close>: the override file, the
    table of speed-up defaults, and the four passes of a game start over one variable store, in the order
    of \<open>mcla_app.cpp\<close>.
  \<^item> \<open>MenuCap\<close>: \<open>mcla_menu_state\<close>: the controller that forces the UI cap in menus, the edges for the wheel, the
    checked guest reads; a run interleaves the hook, the user and the shutdown.
  \<^item> \<open>CursorAutohide\<close>: \<open>mcla_cursor_autohide\<close> and its SDL adapter: a machine over the single accesses of the
    event threads and the thread of the window to the shared atomic variables.
  \<^item> \<open>AdapterPolicy\<close>: \<open>mcla_portable_adapter_policy\<close>: the choice of an adapter, the flat configuration subset.
  \<^item> \<open>SaveCopy\<close>: \<open>mcla_save_copy_guard\<close> and the gate and copy loops of \<open>mcla_diagnostics.cpp\<close>.
  \<^item> \<open>SessionReport\<close>: \<open>mcla_session_report\<close> and \<open>CompletePackageReports\<close> of the launcher's controller.
  \<^item> \<open>ExportText\<close>, \<open>DiagnosticExport\<close>: \<open>mcla_diagnostic_export_policy\<close>: the validators of texts and the projection of a
    private package to a report, on top of \<open>Capabilities\<close>.

  How they interact: a ticket (\<open>BuildLease\<close>) carries grant bits, which with the owner file are the
  admission that \<open>ResolveCapabilities\<close> consults; preferences wrap an encoded library; the plan of a
  launch validates the library; the observer writes the timer journal; a capture reads a stopped
  semaphore journal. The theorem of this theory follows the first of these chains from the envelope
  to the serialised plan.

  What the lemmas show. Codecs: encoding is total on valid models, decoding returns exactly what was
  encoded, and truncated or extended inputs are errors. Policies: each decision is characterised by an
  equivalence over its conditions, on every branch. Journals and trackers: an invariant holds after
  every sequence of calls (by the locale \<open>machine\<close>), counters equal the history of the calls, a token,
  ticket or scope is consumed once, a render scope is handed what the accepted calls before it left, failure is permanent, and a clean verdict implies that nothing was
  lost. The observer's theorems range over every interleaving of its steps; its liveness theorem gives
  a run that closes the window. Records: the log alone, read by the protocol, determines every pending
  frame after any calls; a normal exit certifies a completed protocol; the bounds of the template
  arguments hold; serials grow; and the entry that continues a logged call of one record is admitted
  by the next. Images: the machine arithmetic of the checks agrees with unbounded integers, and an
  accepted crop is copied inside both buffers. Shader stores: the merged file parses to its last byte, keeps
  the target, loses and invents nothing, and a second pass changes nothing. Variables: the override file
  means what its rules say and reports exactly the issues they name, no pass sets a variable twice, and a default never replaces an owner's or a
  user's choice. Menus and cursor: the user's threshold comes back and a shutdown ends the forcing for good, the cursor is hidden and shown only by
  its owner, no input is lost between threads, and the axis filter is a map of baselines. Packages: the
  copy of the saves is bounded, stable and waits a bounded time; the exported report contains only fixed
  words, versions and fingerprints; reports keep what the tester wrote. Validators of texts (UTF-8, the
  configuration file) accept exactly their grammar.

  Errors are values: \<open>std::expected\<close> is a sum whose left side is the error, \<open>std::optional\<close> an option,
  an exception inside the JSON callback the result \<open>None\<close>. Integers keep their width (\<open>u8\<close> to
  \<open>u64\<close>), so wrap-around is the code's; sizes and indices are \<open>nat\<close>. Fixed arrays are lists of their
  length, or of the used prefix where the unused part is never read; the capacities that are template
  arguments in the code are arguments of the definitions. Loops are recursive functions with a
  termination proof. Fuel: the loop over a capabilities line, five rounds, because each round
  takes one of four distinct names, and \<open>capabilities_terminate\<close> shows that more fuel changes nothing; the
  wait for the save copy, 41 polls, which \<open>save_gate_terminates\<close> shows to be enough for polls 50 ms apart;
  and the scaling of a double to 53 bits, 200 steps for values between \<open>10 ^ -17\<close> and \<open>10 ^ 16\<close>.

  Parameters: the cryptography library (opening, hashing, importing a key, verifying) is a record of
  functions, the hash of the shader stores a function, the JSON parser a function from a text to its callback events and value and
  the JSON printer a function, the store of configuration variables a record of operations on any state, an
  allocation failure a flag of the call. No law is assumed of them. What the file system, the window, guest
  memory and the clock answer is an input of each step that asks.

  Not modelled: the operating-system half of the launcher (windows, files, processes, network), the
  probes that read the title's memory or hook its recompiled functions (the SDK and the generated code
  are not in the repository), the Vulkan code, the files of the shader store and the video-memory
  bookkeeping, crash handling, and the application glue. Some small policies without such calls are left out
  too: the path policies of the portable and the Wine launcher, the managed configuration file, the cost sample
  of a readback, the performance split, the photo capture window and the native reference counts.
\<close>

section \<open>From the envelope to the plan\<close>

definition sample_host :: string where "sample_host = replicate 64 (CHR ''B'')"

definition sample_payload :: string where
  "sample_payload = kTicketHeader @ sample_host @ '' 1600000000'' @ [newline_char]
     @ ''capabilities unlocked'' @ [newline_char]"

definition sample_envelope :: string where
  "sample_envelope = sample_payload @ kSignatureMarker @ replicate 512 (CHR ''0'') @ [newline_char]"

definition sample_key :: bytes where
  "sample_key = [0x52, 0x53, 0x41, 0x31, 0, 8, 0, 0, 3, 0, 0, 0, 0, 1, 0, 0, 0, 0, 0, 0, 0, 0, 0, 0, 1, 0, 1]
     @ replicate 256 0xFF"

definition sample_crypto :: crypto where
  "sample_crypto = \<lparr>bc_open_sha256 = True, bc_hash = (\<lambda>_. Some []), bc_open_rsa = True, bc_import = (\<lambda>_. True),
     bc_verify = (\<lambda>_ _ _. True)\<rparr>"

definition sample_ticket :: build_ticket where
  "sample_ticket = \<lparr>tk_host = sample_host, tk_created = 1600000000, tk_kill_switch = False, tk_capabilities = 8\<rparr>"

lemma sample_admitted: "list_all admitted_char sample_envelope" 
  by (simp add: sample_envelope_def sample_payload_def kTicketHeader_def kSignatureMarker_def sample_host_def admitted_char_def list_all_iff)

lemma sample_payload_length: "length sample_payload = 117"
  by (simp add: sample_payload_def kTicketHeader_def sample_host_def)

lemma marker_found: "find_text kSignatureMarker (kSignatureMarker @ s) = Some 0" "rfind_text kSignatureMarker (kSignatureMarker @ replicate 512 (CHR ''0'') @ [newline_char]) = Some 0"
proof -
  have n: "rfind_text kSignatureMarker (replicate 512 (CHR ''0'') @ [newline_char]) = None"
    by (rule rfind_text_none) (auto simp: kSignatureMarker_def newline_char_def)
  show "find_text kSignatureMarker (kSignatureMarker @ s) = Some 0" by (simp add: kSignatureMarker_def)
  show "rfind_text kSignatureMarker (kSignatureMarker @ replicate 512 (CHR ''0'') @ [newline_char]) = Some 0"
    using n unfolding kSignatureMarker_def newline_char_def by simp
qed

lemma sample_marker: "find_text kSignatureMarker sample_envelope = Some 117" "rfind_text kSignatureMarker sample_envelope = Some 117"
proof -
  let ?m = "kSignatureMarker @ replicate 512 (CHR ''0'') @ [newline_char]"
  let ?t = "sample_host @ '' 1600000000'' @ [newline_char] @ ''capabilities unlocked'' @ [newline_char]"
  have h: "CHR ''-'' \<notin> set ?t" by (simp add: sample_host_def newline_char_def)
  have "find_text kSignatureMarker (?t @ ?m) = Some 98" 
    by (subst find_text_skip) (use h marker_found in \<open>simp_all add: kSignatureMarker_def sample_host_def\<close>)
  then have "find_text kSignatureMarker (kTicketHeader @ ?t @ ?m) = Some 117"
    by (simp add: kTicketHeader_def kSignatureMarker_def newline_char_def sample_host_def)
  then show "find_text kSignatureMarker sample_envelope = Some 117"
    by (simp add: sample_envelope_def sample_payload_def)
  show "rfind_text kSignatureMarker sample_envelope = Some 117"
    using rfind_text_skip [OF marker_found(2), of sample_payload]
    by (simp add: sample_envelope_def sample_payload_length)
qed
lemma sample_key_accepted: "key_blob_valid sample_key" "key_parameters_valid sample_key" "\<not> length sample_key < 24"
  by (simp_all add: key_blob_valid_def blob_field_def sample_key_def kRsaPublicMagic_def key_parameters_valid_def Let_def)
lemma sample_parse: "AuthenticatedPayload sample_crypto sample_envelope sample_key = Inr sample_payload"
proof -
  have d: "drop (117 + length kSignatureMarker) sample_envelope = replicate 512 (CHR ''0'') @ [newline_char]"
    "take 117 sample_envelope = sample_payload" "sample_envelope ! 116 = newline_char"
    "length sample_envelope = 644"
    using sample_payload_length by (simp_all add: sample_envelope_def kSignatureMarker_def nth_append) (simp add: sample_payload_def kTicketHeader_def sample_host_def nth_append)
  have "Digest sample_crypto (text_bytes sample_payload) = Inr []"
    by (simp add: Digest_def text_bytes_def sample_payload_length sample_crypto_def)
  moreover have "sample_envelope \<noteq> []" using d(4) by auto
  ultimately show ?thesis using d sample_marker sample_admitted sample_key_accepted hex_bytes_zeros [of 256]
    by (simp add: AuthenticatedPayload_def kMaximumEnvelopeBytes_def sample_crypto_def)
qed
lemma sample_line: "Line (drop (length kTicketHeader) sample_payload)
    = Some (sample_host @ '' 1600000000'', ''capabilities unlocked'' @ [newline_char])"
  by code_simp
lemma sample_row: "Row (sample_host @ '' 1600000000'') = Inr \<lparr>gr_host = sample_host, gr_until = 1600000000\<rparr>"
  by (simp add: Row_def sample_host_def HashValid_def Nibble_def list_all_iff nth_append
    Date_def is_digit_def digit_value_def DateValid_def kMinimumUtc_def kMaximumUtc_def)

lemma sample_ticket_parses: "ParseTicket sample_crypto sample_envelope sample_key = Inr sample_ticket"
proof -
  have "parse_extra (''capabilities unlocked'' @ [newline_char]) = Inr 8" by code_simp
  moreover have "\<not> prefix kKillSwitchTicketHeader sample_payload" "prefix kTicketHeader sample_payload"
    by (simp_all add: sample_payload_def kTicketHeader_def kKillSwitchTicketHeader_def)
  ultimately show ?thesis
    by (simp add: ParseTicket_def sample_parse sample_line sample_row sample_ticket_def)
qed

text \<open>C30: from a signed envelope to a started build: if the request for a build carries the capabilities
  of a ticket that parsed for that build's host and the owner flag of the owner file, and the policy
  resolves it to a plan with unlocked timing or an experimental target, then the build is a tested one,
  or is one of at most 64 well-formed fingerprints that the owner file lists, or the ticket's envelope
  is authentic and grants exactly that option; and the plan serialises.\<close>

theorem gated_option_authorised:
  assumes "ParseTicket bc envelope key = Inr t"
    and "ResolveCapabilities \<lparr>cr_build = build, cr_game = game, cr_timing = timing, cr_target = target,
       cr_vsync = vsync, cr_owner = OwnerAdmissionListed file build, cr_grant = tk_capabilities t\<rparr> = Inr p"
  shows "(cp_timing p = Unlocked \<longrightarrow> UnlockedBuildTested build
        \<or> (\<exists>bs. ParseOwnerAdmission file = Some bs \<and> build \<in> set bs \<and> length bs \<le> kOwnerAdmissionMaximumEntries)
        \<or> authentic bc envelope key \<and> and (tk_capabilities t) kGrantUnlocked \<noteq> 0)
     \<and> (rt_id (cp_target p) \<in> {1080, 2160} \<longrightarrow> build \<in> {kRenderTargetTestedBuild, kCleanRenderTargetTestedBuild}
        \<or> (\<exists>bs. ParseOwnerAdmission file = Some bs \<and> build \<in> set bs \<and> length bs \<le> kOwnerAdmissionMaximumEntries)
        \<or> authentic bc envelope key \<and> and (tk_capabilities t) (target_bit (rt_id (cp_target p))) \<noteq> 0)
     \<and> cp_build p = build \<and> isInr (SerializeCapabilities p)"
proof -
  have auth: "authentic bc envelope key" using ParseTicket_Inr [OF assms(1)] by blast
  have owner: "\<exists>bs. ParseOwnerAdmission file = Some bs \<and> build \<in> set bs \<and> length bs \<le> kOwnerAdmissionMaximumEntries"
    if "OwnerAdmissionListed file build"
    using that ParseOwnerAdmission_Some by (auto simp: OwnerAdmissionListed_def split: option.splits)
  have adm: "admitted p (OwnerAdmissionListed file build) (tk_capabilities t)"
    using resolved_admitted [OF assms(2)] by simp
  have b: "cp_build p = build" using assms(2) by (rule ResolveCapabilities_Inr) simp
  have "SerializeCapabilities p = Inr (plan_text p)"
    using resolved_again [OF assms(2)] by (simp add: SerializeCapabilities_def plan_consistent_def)
  with adm b auth owner show ?thesis unfolding admitted_def by auto
qed

theorem gated_option_authorised_witness:
  "let r = \<lparr>cr_build = sample_host, cr_game = sample_host, cr_timing = Unlocked, cr_target = 720, cr_vsync = True,
       cr_owner = OwnerAdmissionListed [] sample_host, cr_grant = tk_capabilities sample_ticket\<rparr> in
   isInr (ResolveCapabilities r) \<and> cp_timing (projr (ResolveCapabilities r)) = Unlocked
   \<and> \<not> UnlockedBuildTested sample_host \<and> isInr (SerializeCapabilities (projr (ResolveCapabilities r)))"
proof -
  let ?r = "\<lparr>cr_build = sample_host, cr_game = sample_host, cr_timing = Unlocked, cr_target = 720, cr_vsync = True,
       cr_owner = OwnerAdmissionListed [] sample_host, cr_grant = tk_capabilities sample_ticket\<rparr>"
  have i: "isInr (ResolveCapabilities ?r)" by code_simp
  have "cp_timing (projr (ResolveCapabilities ?r)) = Unlocked" "\<not> UnlockedBuildTested sample_host" by code_simp+
  with gated_option_authorised [OF sample_ticket_parses isInr_projr [OF i]] i show ?thesis
    unfolding Let_def by blast
qed

end
